(* ===== verification/AppFS_Prelude.thy ===== *)
theory AppFS_Prelude
  imports Main "HOL-Library.Word" "HOL-Library.Monad_Syntax"
begin

text \<open>
  Shared vocabulary of the development: the machine integers of the C++ code, the layout
  constants of \<^verbatim>\<open>libapp/config.h\<close>, the little-endian byte codecs through which every number
  reaches the package file, the interface of a byte-addressed store, and the generic lemmas
  on lists and options that the component theories share.
\<close>

unbundle bit_operations_syntax

section \<open>Machine integers and layout constants\<close>

type_synonym byte = "8 word"
type_synonym u16 = "16 word"
type_synonym u32 = "32 word"
type_synonym u64 = "64 word"

named_theorems config \<open>layout constants of config.h\<close>
named_theorems disk_simps \<open>effect of the primitive disk operations\<close>

definition LENGTH_BOOTSTRAP :: nat where [config]: "LENGTH_BOOTSTRAP = 3 * 1024 * 1024"
definition OFFSET_LOOKUP :: nat where [config]: "OFFSET_LOOKUP = LENGTH_BOOTSTRAP"
definition LENGTH_LOOKUP :: nat where [config]: "LENGTH_LOOKUP = 256 * 1024"
definition OFFSET_FSINFO :: nat where [config]: "OFFSET_FSINFO = LENGTH_BOOTSTRAP + LENGTH_LOOKUP"
definition LENGTH_FSINFO :: nat where [config]: "LENGTH_FSINFO = 4096"
definition OFFSET_DATA :: nat where
  [config]: "OFFSET_DATA = LENGTH_BOOTSTRAP + LENGTH_LOOKUP + LENGTH_FSINFO"
definition BSIZE_FILE :: nat where [config]: "BSIZE_FILE = 4096"
definition BSIZE_DIRECTORY :: nat where [config]: "BSIZE_DIRECTORY = 4096"
definition DIRECTORY_CHILDREN_MAX :: nat where [config]: "DIRECTORY_CHILDREN_MAX = 1901"
definition MSIZE_FILE :: nat where
  [config]: "MSIZE_FILE = 0xFFFFFFFF - OFFSET_DATA - (1024 * 1024 * 10)"
definition HSIZE_FILE :: nat where [config]: "HSIZE_FILE = 308"
definition HSIZE_SEGINFO :: nat where [config]: "HSIZE_SEGINFO = 8"
definition HSIZE_FREELIST :: nat where [config]: "HSIZE_FREELIST = 8"

text \<open>\<^verbatim>\<open>FS_NAME\<close> is \<^verbatim>\<open>"AppFS\0\0\0\0"\<close>: nine characters and the terminating NUL.\<close>

definition FS_NAME :: "byte list" where
  "FS_NAME = [0x41, 0x70, 0x70, 0x46, 0x53, 0, 0, 0, 0, 0]"

lemma length_FS_NAME [simp]: "length FS_NAME = 10"
  by (simp add: FS_NAME_def)

section \<open>Generic list lemmas\<close>

lemma map_upt_append:
  "map f [0..<m + n] = map f [0..<m] @ map (\<lambda>i. f (m + i)) [0..<n]"
  by (induction n) auto

lemma take_map_upt: "n \<le> m \<Longrightarrow> take n (map f [0..<m]) = map f [0..<n]"
  by (simp add: take_map take_upt)

lemma map_upt_nth_eq: "length xs = n \<Longrightarrow> map (\<lambda>i. xs ! i) [0..<n] = xs"
  by (auto intro: nth_equalityI)

lemma Let_prod_unfold: "(let (x, y) = p in f x y) = f (fst p) (snd p)"
  by (simp add: case_prod_unfold Let_def)

lemma find_append_Some: "find P xs = Some a \<Longrightarrow> find P (xs @ ys) = Some a"
  by (induction xs) auto

lemma find_append_None: "find P xs = None \<Longrightarrow> find P (xs @ ys) = find P ys"
  by (induction xs) (auto split: if_splits)

section \<open>Little-endian codecs\<close>

text \<open>
  On a little-endian host \<^verbatim>\<open>Endian::doR\<close>/\<^verbatim>\<open>doW\<close> copy the object representation of an
  integer: byte \<open>i\<close> of an unsigned integer holds its bits \<open>8 i\<close> to \<open>8 i + 7\<close>.
\<close>

definition le_enc :: "nat \<Rightarrow> 'a::len word \<Rightarrow> byte list" where
  "le_enc n w = map (\<lambda>i. ucast (drop_bit (8 * i) w)) [0..<n]"

fun le_dec :: "byte list \<Rightarrow> 'a::len word" where
  "le_dec [] = 0"
| "le_dec (b # bs) = ucast b OR push_bit 8 (le_dec bs)"

lemma length_le_enc [simp]: "length (le_enc n w) = n"
  by (simp add: le_enc_def)

lemma bit_le_dec:
  "bit (le_dec bs :: 'a::len word) i \<longleftrightarrow>
     i < LENGTH('a) \<and> i div 8 < length bs \<and> bit (bs ! (i div 8)) (i mod 8)"
proof (induction bs arbitrary: i)
  case Nil
  then show ?case by simp
next
  case (Cons b bs)
  show ?case
  proof (cases "i < 8")
    case True
    then show ?thesis
      by (auto simp: bit_or_iff bit_push_bit_iff bit_ucast_iff dest: bit_imp_le_length)
  next
    case False
    then obtain j where i: "i = j + 8" by (metis add.commute le_Suc_ex not_less)
    have "\<not> bit b (j + 8)" by (auto dest: bit_imp_le_length)
    moreover have "(j + 8) div 8 = Suc (j div 8)" and "(j + 8) mod 8 = j mod 8" by simp_all
    ultimately show ?thesis
      using Cons.IH[of j] i
      by (auto simp: bit_or_iff bit_push_bit_iff bit_ucast_iff dest: bit_imp_le_length)
  qed
qed

lemma le_dec_enc:
  assumes "LENGTH('a) = 8 * n"
  shows "le_dec (le_enc n w) = (w :: 'a::len word)"
proof (rule bit_word_eqI)
  fix i assume i: "i < LENGTH('a)"
  then have "i div 8 < n" using assms by (simp add: less_mult_imp_div_less)
  then show "bit (le_dec (le_enc n w) :: 'a word) i = bit w i"
    using i by (simp add: bit_le_dec le_enc_def bit_ucast_iff bit_drop_bit_eq)
qed

lemma le_enc_dec:
  assumes "LENGTH('a) = 8 * n" and "length bs = n"
  shows "le_enc n (le_dec bs :: 'a::len word) = bs"
proof (rule nth_equalityI)
  show "length (le_enc n (le_dec bs :: 'a word)) = length bs" using assms by simp
next
  fix k assume "k < length (le_enc n (le_dec bs :: 'a word))"
  then have k: "k < n" by simp
  show "le_enc n (le_dec bs :: 'a word) ! k = bs ! k"
  proof (rule bit_word_eqI)
    fix i assume "i < LENGTH(8)"
    then have i: "i < 8" by simp
    have "8 * k + i < LENGTH('a)" using assms(1) k i by simp
    moreover have "(8 * k + i) div 8 = k" and "(8 * k + i) mod 8 = i" using i by auto
    ultimately show "bit (le_enc n (le_dec bs :: 'a word) ! k) i = bit (bs ! k) i"
      using k i assms(2) by (simp add: le_enc_def bit_ucast_iff bit_drop_bit_eq bit_le_dec)
  qed
qed

lemma le_dec_zeros: "le_dec (replicate n 0) = 0"
  by (induction n) auto

abbreviation enc16 :: "u16 \<Rightarrow> byte list" where "enc16 \<equiv> le_enc 2"
abbreviation enc32 :: "u32 \<Rightarrow> byte list" where "enc32 \<equiv> le_enc 4"
abbreviation enc64 :: "u64 \<Rightarrow> byte list" where "enc64 \<equiv> le_enc 8"

text \<open>A fixed-width codec: the contract of the number codecs and of the array codecs built on them.\<close>

locale codec =
  fixes enc :: "'v \<Rightarrow> byte list" and dec :: "byte list \<Rightarrow> 'v" and width :: nat
  assumes enc_width: "length (enc v) = width"
    and dec_enc: "dec (enc v) = v"
begin

lemma enc_inj: "enc v = enc w \<Longrightarrow> v = w"
  by (metis dec_enc)

lemma dec_take_enc: "dec (take width (enc v @ rest)) = v"
  by (simp add: enc_width dec_enc)

lemma drop_enc: "drop width (enc v @ rest) = rest"
  by (simp add: enc_width)

lemma enc_append_eq: "enc v @ xs = enc w @ ys \<longleftrightarrow> v = w \<and> xs = ys"
  by (metis append_eq_append_conv enc_inj enc_width)

end

interpretation cod16: codec enc16 le_dec 2
  by unfold_locales (simp_all add: le_dec_enc)

interpretation cod32: codec enc32 le_dec 4
  by unfold_locales (simp_all add: le_dec_enc)

interpretation cod64: codec enc64 le_dec 8
  by unfold_locales (simp_all add: le_dec_enc)

lemmas le_roundtrip [simp] = cod16.dec_enc cod32.dec_enc cod64.dec_enc

text \<open>An array of 16-bit numbers, as \<^verbatim>\<open>INode::children\<close> is stored.\<close>

definition enc16s :: "u16 list \<Rightarrow> byte list" where
  "enc16s ws = concat (map enc16 ws)"

definition dec16s :: "nat \<Rightarrow> byte list \<Rightarrow> u16 list" where
  "dec16s n bs = map (\<lambda>i. le_dec (take 2 (drop (2 * i) bs))) [0..<n]"

lemma length_enc16s [simp]: "length (enc16s ws) = 2 * length ws"
  by (induction ws) (auto simp: enc16s_def)

lemma length_dec16s [simp]: "length (dec16s n bs) = n"
  by (simp add: dec16s_def)

lemma dec16s_Suc: "dec16s (Suc n) bs = le_dec (take 2 bs) # dec16s n (drop 2 bs)"
  by (simp add: dec16s_def upt_rec[of 0 "Suc n"] map_Suc_upt[symmetric] del: upt_Suc)

lemma dec16s_enc16s [simp]: "length ws = n \<Longrightarrow> dec16s n (enc16s ws) = ws"
proof (induction ws arbitrary: n)
  case Nil
  then show ?case by (simp add: dec16s_def)
next
  case (Cons w ws)
  then obtain m where "n = Suc m" and "length ws = m" by auto
  with Cons.IH show ?case by (simp add: dec16s_Suc enc16s_def)
qed

lemma nth_dec16s: "i < n \<Longrightarrow> dec16s n bs ! i = le_dec (take 2 (drop (2 * i) bs))"
  by (simp add: dec16s_def)

section \<open>The interface of a byte store\<close>

text \<open>
  \<open>slice g p n\<close> reads \<open>n\<close> bytes at address \<open>p\<close>. The locale \<open>byte_store\<close> is what
  every layer above the stream relies on: a write changes exactly the bytes it covers.
\<close>

definition slice :: "(nat \<Rightarrow> byte) \<Rightarrow> nat \<Rightarrow> nat \<Rightarrow> byte list" where
  "slice g p n = map (\<lambda>i. g (p + i)) [0..<n]"

lemma length_slice [simp]: "length (slice g p n) = n"
  by (simp add: slice_def)

lemma nth_slice [simp]: "i < n \<Longrightarrow> slice g p n ! i = g (p + i)"
  by (simp add: slice_def)

lemma slice_0 [simp]: "slice g p 0 = []"
  by (simp add: slice_def)

lemma slice_append: "slice g p (m + n) = slice g p m @ slice g (p + m) n"
  by (simp add: slice_def map_upt_append add.assoc)

lemma slice_cong: "(\<And>a. p \<le> a \<Longrightarrow> a < p + n \<Longrightarrow> g a = h a) \<Longrightarrow> slice g p n = slice h p n"
  by (simp add: slice_def)

lemma take_slice: "m \<le> n \<Longrightarrow> take m (slice g p n) = slice g p m"
  by (simp add: slice_def take_map_upt)

lemma drop_slice: "m \<le> n \<Longrightarrow> drop m (slice g p n) = slice g (p + m) (n - m)"
  by (auto intro!: nth_equalityI simp: add.assoc)

lemma slice_slice: "a + b \<le> n \<Longrightarrow> take b (drop a (slice g p n)) = slice g (p + a) b"
  by (simp add: drop_slice take_slice)

locale byte_store =
  fixes get :: "'s \<Rightarrow> nat \<Rightarrow> byte" and put :: "nat \<Rightarrow> byte list \<Rightarrow> 's \<Rightarrow> 's"
  assumes get_put:
    "get (put p bs s) a = (if p \<le> a \<and> a < p + length bs then bs ! (a - p) else get s a)"
begin

lemma slice_put_same: "length bs = n \<Longrightarrow> slice (get (put p bs s)) p n = bs"
  by (auto intro!: nth_equalityI simp: get_put)

lemma slice_put_disjoint:
  "p + length bs \<le> q \<or> q + n \<le> p \<Longrightarrow> slice (get (put p bs s)) q n = slice (get s) q n"
  by (rule slice_cong) (auto simp: get_put)

lemma slice_put_inside:
  "p \<le> q \<Longrightarrow> q + n \<le> p + length bs \<Longrightarrow>
   slice (get (put p bs s)) q n = take n (drop (q - p) bs)"
  by (auto intro!: nth_equalityI simp: get_put)

lemma get_put_append:
  "get (put (p + length xs) ys (put p xs s)) a = get (put p (xs @ ys) s) a"
  by (auto simp: get_put nth_append)

lemma get_put_slice: "get (put p (slice (get s) p n) s) a = get s a"
  by (auto simp: get_put)

lemma get_put_overwrite:
  "length xs = length ys \<Longrightarrow> get (put p ys (put p xs s)) a = get (put p ys s) a"
  by (auto simp: get_put)

lemma get_put_commute:
  "p + length xs \<le> q \<or> q + length ys \<le> p \<Longrightarrow>
   get (put p xs (put q ys s)) a = get (put q ys (put p xs s)) a"
  by (auto simp: get_put)

end

end
