(* ===== verification/BlockStream.thy ===== *)
theory BlockStream
  imports AppFS_Prelude
begin

text \<open>
  The package file and the class \<^verbatim>\<open>LowLevel::BlockStream\<close> that wraps it
  (\<^verbatim>\<open>libapp/lowlevel/blockstream.cpp\<close>).

  \<open>disk\<close> is the \<^verbatim>\<open>std::fstream\<close> underneath while it is good: the bytes of the file, its
  size and the file position. A \<^verbatim>\<open>basic_filebuf\<close> keeps one joint position for reading and
  writing, so \<^verbatim>\<open>seekg\<close> and \<^verbatim>\<open>seekp\<close> move the same \<open>dpos\<close>. A seek past the end of the file
  succeeds; a write there leaves a hole that reads as zeros. \<^verbatim>\<open>readsome\<close> delivers the bytes
  that are available, which is what is left of the file, and never reports end of file.

  \<open>blockstream\<close> adds what the class adds: the \<open>opened\<close>/\<open>invalid\<close> flags, the stream state
  with its exception mask, and the mutex every call takes. The refinement lemmas at the end
  show that on a ready stream each call is the disk operation alone, which is how the layers
  above use it; the lock lemmas show what happens on a stream that is not ready.
\<close>

section \<open>The file\<close>

record disk =
  dbytes :: "nat \<Rightarrow> byte"
  dsize :: nat
  dpos :: nat

definition byte_at :: "disk \<Rightarrow> nat \<Rightarrow> byte" where
  "byte_at d a = (if a < dsize d then dbytes d a else 0)"

definition put_bytes :: "nat \<Rightarrow> byte list \<Rightarrow> disk \<Rightarrow> disk" where
  "put_bytes p bs d =
     (if bs = [] then d
      else d\<lparr>dbytes := (\<lambda>a. if p \<le> a \<and> a < p + length bs then bs ! (a - p) else byte_at d a),
             dsize := max (dsize d) (p + length bs)\<rparr>)"

definition disk_seek :: "nat \<Rightarrow> disk \<Rightarrow> disk" where
  "disk_seek p d = d\<lparr>dpos := p\<rparr>"

definition disk_seek_end :: "nat \<Rightarrow> disk \<Rightarrow> disk" where
  "disk_seek_end p d = d\<lparr>dpos := dsize d + p\<rparr>"

definition disk_read :: "nat \<Rightarrow> disk \<Rightarrow> byte list \<times> disk" where
  "disk_read n d =
     (let k = min n (dsize d - dpos d)
      in (slice (byte_at d) (dpos d) k, d\<lparr>dpos := dpos d + k\<rparr>))"

definition disk_write :: "byte list \<Rightarrow> disk \<Rightarrow> disk" where
  "disk_write bs d = (put_bytes (dpos d) bs d)\<lparr>dpos := dpos d + length bs\<rparr>"

lemma byte_at_put_bytes:
  "byte_at (put_bytes p bs d) a =
     (if p \<le> a \<and> a < p + length bs then bs ! (a - p) else byte_at d a)"
  by (auto simp: byte_at_def put_bytes_def)

interpretation dsk: byte_store byte_at put_bytes
  by unfold_locales (rule byte_at_put_bytes)

lemma dsize_put_bytes [simp]:
  "dsize (put_bytes p bs d) = (if bs = [] then dsize d else max (dsize d) (p + length bs))"
  by (simp add: put_bytes_def)

lemma dpos_put_bytes [simp]: "dpos (put_bytes p bs d) = dpos d"
  by (simp add: put_bytes_def)

lemma put_bytes_Nil [simp]: "put_bytes p [] d = d"
  by (simp add: put_bytes_def)

lemma byte_at_dpos [simp]: "byte_at (d\<lparr>dpos := p\<rparr>) = byte_at d"
  by (simp add: byte_at_def fun_eq_iff)

lemma put_bytes_dpos: "put_bytes p bs (d\<lparr>dpos := q\<rparr>) = (put_bytes p bs d)\<lparr>dpos := q\<rparr>"
  by (simp add: put_bytes_def cong: if_cong)

lemma disk_seek_simps [disk_simps]:
  "byte_at (disk_seek p d) = byte_at d" "dsize (disk_seek p d) = dsize d"
  "dpos (disk_seek p d) = p" "disk_seek p (disk_seek q d) = disk_seek p d"
  "disk_seek (dpos d) d = d"
  by (simp_all add: disk_seek_def)

lemma disk_write_simps [disk_simps]:
  "byte_at (disk_write bs d) = byte_at (put_bytes (dpos d) bs d)"
  "dsize (disk_write bs d) = dsize (put_bytes (dpos d) bs d)"
  "dpos (disk_write bs d) = dpos d + length bs"
  by (simp_all add: disk_write_def)

lemma fst_disk_read:
  "dpos d + n \<le> dsize d \<Longrightarrow> fst (disk_read n d) = slice (byte_at d) (dpos d) n"
  by (simp add: disk_read_def)

lemma snd_disk_read: "snd (disk_read n d) = disk_seek (dpos d + min n (dsize d - dpos d)) d"
  by (simp add: disk_read_def disk_seek_def Let_def)

section \<open>Stream state\<close>

record iostate =
  badbit :: bool
  failbit :: bool
  eofbit :: bool

definition goodbit :: iostate where
  "goodbit = \<lparr>badbit = False, failbit = False, eofbit = False\<rparr>"

definition bad_fail :: iostate where
  "bad_fail = \<lparr>badbit = True, failbit = True, eofbit = False\<rparr>"

definition eof_only :: iostate where
  "eof_only = \<lparr>badbit = False, failbit = False, eofbit = True\<rparr>"

definition eof_fail :: iostate where
  "eof_fail = \<lparr>badbit = False, failbit = True, eofbit = True\<rparr>"

text \<open>\<^verbatim>\<open>std::ios::fail()\<close> holds for the fail bit and for the bad bit.\<close>

definition ios_fail :: "iostate \<Rightarrow> bool" where
  "ios_fail st \<longleftrightarrow> badbit st \<or> failbit st"

definition ios_masked :: "iostate \<Rightarrow> iostate \<Rightarrow> bool" where
  "ios_masked msk st \<longleftrightarrow>
     badbit msk \<and> badbit st \<or> failbit msk \<and> failbit st \<or> eofbit msk \<and> eofbit st"

section \<open>The class\<close>

record blockstream =
  bs_disk :: disk
  bs_is_open :: bool
  bs_opened :: bool
  bs_invalid :: bool
  bs_state :: iostate
  bs_exceptions :: iostate
  bs_locked :: bool

text \<open>How a call ends: a value, \<^verbatim>\<open>std::ios_base::failure\<close>, or never (the mutex is held).\<close>

datatype 'a io = Returned 'a | IosFailure | Deadlock

text \<open>
  The constructor, on the file it finds (\<open>None\<close>: the file cannot be opened). The failing
  path returns without \<^verbatim>\<open>LEAVE_CRITICAL\<close>.
\<close>

definition BlockStream_new :: "disk option \<Rightarrow> disk \<Rightarrow> blockstream" where
  "BlockStream_new file scratch =
     (case file of
        None \<Rightarrow> \<lparr>bs_disk = scratch, bs_is_open = False, bs_opened = False, bs_invalid = True,
                 bs_state = bad_fail, bs_exceptions = goodbit, bs_locked = True\<rparr>
      | Some d \<Rightarrow> \<lparr>bs_disk = disk_seek 0 d, bs_is_open = True, bs_opened = True,
                   bs_invalid = False, bs_state = goodbit,
                   bs_exceptions = \<lparr>badbit = True, failbit = True, eofbit = True\<rparr>,
                   bs_locked = False\<rparr>)"

definition bs_fail :: "blockstream \<Rightarrow> bool" where
  "bs_fail s \<longleftrightarrow> ios_fail (bs_state s)"

text \<open>\<^verbatim>\<open>clear(state)\<close> throws when the new state meets the exception mask.\<close>

definition bs_clear_to :: "iostate \<Rightarrow> blockstream \<Rightarrow> unit io \<times> blockstream" where
  "bs_clear_to st s =
     (if ios_masked (bs_exceptions s) st then IosFailure else Returned (),
      s\<lparr>bs_state := st\<rparr>)"

text \<open>
  The guard that opens \<^verbatim>\<open>write\<close>, \<^verbatim>\<open>read\<close>, \<^verbatim>\<open>seekp\<close>, \<^verbatim>\<open>seekg\<close>, \<^verbatim>\<open>tellp\<close> and \<^verbatim>\<open>tellg\<close>:
  take the mutex; on a stream that is invalid, not opened or failed, set the bad and fail
  bits and return \<open>dflt\<close> with the mutex still held; otherwise act and release it.
\<close>

definition bs_guarded ::
    "'a \<Rightarrow> (disk \<Rightarrow> 'a \<times> disk) \<Rightarrow> blockstream \<Rightarrow> 'a io \<times> blockstream" where
  "bs_guarded dflt act s =
     (if bs_locked s then (Deadlock, s)
      else
        let s = s\<lparr>bs_locked := True\<rparr> in
        if bs_invalid s \<or> \<not> bs_opened s \<or> bs_fail s then
          (if \<not> bs_fail s then
             (case bs_clear_to bad_fail s of
                (Returned _, s) \<Rightarrow> (Returned dflt, s)
              | (IosFailure, s) \<Rightarrow> (IosFailure, s)
              | (Deadlock, s) \<Rightarrow> (Deadlock, s))
           else (Returned dflt, s))
        else
          let (x, d) = act (bs_disk s)
          in (Returned x, s\<lparr>bs_disk := d, bs_locked := False\<rparr>))"

datatype seekdir = SeekBeg | SeekEnd

fun seek_from :: "seekdir \<Rightarrow> nat \<Rightarrow> disk \<Rightarrow> disk" where
  "seek_from SeekBeg p d = disk_seek p d"
| "seek_from SeekEnd p d = disk_seek_end p d"

definition bs_write :: "byte list \<Rightarrow> blockstream \<Rightarrow> unit io \<times> blockstream" where
  "bs_write data s = bs_guarded () (\<lambda>d. ((), disk_write data d)) s"

definition bs_read :: "nat \<Rightarrow> blockstream \<Rightarrow> byte list io \<times> blockstream" where
  "bs_read count s = bs_guarded [] (disk_read count) s"

definition bs_seekp :: "nat \<Rightarrow> seekdir \<Rightarrow> blockstream \<Rightarrow> unit io \<times> blockstream" where
  "bs_seekp p dir s = bs_guarded () (\<lambda>d. ((), seek_from dir p d)) s"

definition bs_seekg :: "nat \<Rightarrow> seekdir \<Rightarrow> blockstream \<Rightarrow> unit io \<times> blockstream" where
  "bs_seekg p dir s = bs_guarded () (\<lambda>d. ((), seek_from dir p d)) s"

definition bs_tellp :: "blockstream \<Rightarrow> nat io \<times> blockstream" where
  "bs_tellp s = bs_guarded 0 (\<lambda>d. (dpos d, d)) s"

definition bs_tellg :: "blockstream \<Rightarrow> nat io \<times> blockstream" where
  "bs_tellg s = bs_guarded 0 (\<lambda>d. (dpos d, d)) s"

text \<open>
  \<^verbatim>\<open>close\<close> has no guard. Closing a file that is not open sets the fail bit, which throws under
  the exception mask before the mutex is released.
\<close>

definition bs_close :: "blockstream \<Rightarrow> unit io \<times> blockstream" where
  "bs_close s =
     (if bs_locked s then (Deadlock, s)
      else
        let s = s\<lparr>bs_locked := True\<rparr> in
        if bs_is_open s then
          (Returned (), s\<lparr>bs_is_open := False, bs_opened := False, bs_locked := False\<rparr>)
        else
          (case bs_clear_to ((bs_state s)\<lparr>failbit := True\<rparr>) s of
             (Returned _, s) \<Rightarrow> (Returned (), s\<lparr>bs_opened := False, bs_locked := False\<rparr>)
           | (e, s) \<Rightarrow> (e, s)))"

section \<open>Ready streams: the calls refine the disk operations\<close>

definition bs_ready :: "blockstream \<Rightarrow> bool" where
  "bs_ready s \<longleftrightarrow>
     bs_is_open s \<and> bs_opened s \<and> \<not> bs_invalid s \<and> \<not> bs_locked s \<and> bs_state s = goodbit"

lemma ready_not_fail: "bs_ready s \<Longrightarrow> \<not> bs_fail s"
  by (simp add: bs_ready_def bs_fail_def ios_fail_def goodbit_def)

text \<open>The whole contract of the guard, once: on a ready stream it is the action on the disk.\<close>

lemma bs_guarded_ready:
  assumes "bs_ready s" and "act (bs_disk s) = (x, d)"
  shows "bs_guarded dflt act s = (Returned x, s\<lparr>bs_disk := d\<rparr>)"
  using assms ready_not_fail[OF assms(1)]
  by (auto simp: bs_guarded_def bs_ready_def bs_fail_def)

lemma bs_ready_disk [simp]: "bs_ready (s\<lparr>bs_disk := d\<rparr>) = bs_ready s"
  by (simp add: bs_ready_def)

lemma BlockStream_new_ready: "bs_ready (BlockStream_new (Some d) x)"
  by (simp add: BlockStream_new_def bs_ready_def)

section \<open>A stream that is not ready keeps its mutex\<close>

definition bs_broken :: "blockstream \<Rightarrow> bool" where
  "bs_broken s \<longleftrightarrow> bs_invalid s \<or> \<not> bs_opened s \<or> bs_fail s"

lemma bs_guarded_broken:
  "\<not> bs_locked s \<Longrightarrow> bs_broken s \<Longrightarrow> bs_locked (snd (bs_guarded dflt act s))"
  by (auto simp: bs_guarded_def bs_broken_def bs_fail_def bs_clear_to_def Let_def
      split: prod.splits io.splits if_splits)

lemma bs_guarded_locked: "bs_locked s \<Longrightarrow> bs_guarded dflt act s = (Deadlock, s)"
  by (simp add: bs_guarded_def)

text \<open>The calls of the class as events, and what one call does to the stream.\<close>

datatype bs_call =
    CallWrite "byte list" | CallRead nat | CallSeekp nat seekdir | CallSeekg nat seekdir
  | CallTellp | CallTellg | CallClose

fun bs_exec :: "bs_call \<Rightarrow> blockstream \<Rightarrow> unit io \<times> blockstream" where
  "bs_exec (CallWrite bs) s = bs_write bs s"
| "bs_exec (CallRead n) s = map_prod (map_io (\<lambda>_. ())) id (bs_read n s)"
| "bs_exec (CallSeekp p dir) s = bs_seekp p dir s"
| "bs_exec (CallSeekg p dir) s = bs_seekg p dir s"
| "bs_exec CallTellp s = map_prod (map_io (\<lambda>_. ())) id (bs_tellp s)"
| "bs_exec CallTellg s = map_prod (map_io (\<lambda>_. ())) id (bs_tellg s)"
| "bs_exec CallClose s = bs_close s"

inductive bs_run :: "blockstream \<Rightarrow> bs_call list \<Rightarrow> blockstream \<Rightarrow> bool" where
  run_nil: "bs_run s [] s"
| run_call: "bs_exec c s = (r, t) \<Longrightarrow> bs_run t cs u \<Longrightarrow> bs_run s (c # cs) u"

inductive_cases bs_run_consE: "bs_run s (c # cs) u"

lemmas bs_call_defs =
  bs_write_def bs_read_def bs_seekp_def bs_seekg_def bs_tellp_def bs_tellg_def

lemma bs_exec_locked: "bs_locked s \<Longrightarrow> bs_exec c s = (Deadlock, s)"
  by (cases c) (simp_all add: bs_call_defs bs_guarded_locked bs_close_def)

lemma bs_exec_ready:
  "bs_ready s \<Longrightarrow> c \<noteq> CallClose \<Longrightarrow> \<exists>d. bs_exec c s = (Returned (), s\<lparr>bs_disk := d\<rparr>)"
  by (cases c)
     (auto simp: bs_call_defs bs_guarded_ready disk_read_def Let_def intro: exI[of _ "bs_disk s"])

lemma bs_run_locked: "bs_run s cs t \<Longrightarrow> bs_locked s \<Longrightarrow> t = s"
  by (induction rule: bs_run.induct) (auto simp: bs_exec_locked)

lemma bs_run_ready:
  "bs_run s cs t \<Longrightarrow> bs_ready s \<Longrightarrow> CallClose \<notin> set cs \<Longrightarrow> bs_ready t"
proof (induction rule: bs_run.induct)
  case (run_nil s)
  then show ?case by simp
next
  case (run_call c s r t cs u)
  then obtain d where "bs_exec c s = (Returned (), s\<lparr>bs_disk := d\<rparr>)"
    using bs_exec_ready[of s c] by auto
  with run_call show ?case by auto
qed

end
