(* ===== verification/Endian.thy ===== *)
theory Endian
  imports BlockStream
begin

text \<open>
  \<^verbatim>\<open>libapp/lowlevel/endian.cpp\<close>: every number and character array reaches the file through
  \<^verbatim>\<open>Endian::doR\<close> and \<^verbatim>\<open>Endian::doW\<close>. \<open>endian_doR\<close>/\<open>endian_doW\<close> are the two functions
  with the host's byte order as an argument and an access outside the temporary array as
  \<open>None\<close>; \<open>doR\<close>/\<open>doW\<close> are their little-endian branch, which the rest of the development
  uses, with one instance per width of integer.
\<close>

section \<open>Both byte orders\<close>

text \<open>The object representation of a 16-bit 1 on a host, and the test of \<^verbatim>\<open>detectEndianness\<close>.\<close>

definition host_repr16 :: "bool \<Rightarrow> u16 \<Rightarrow> byte list" where
  "host_repr16 le w = (if le then enc16 w else rev (enc16 w))"

definition detectEndianness :: "byte list \<Rightarrow> bool" where
  "detectEndianness test_int_raw = (test_int_raw ! 0 = 1)"

definition arr_get :: "'a list \<Rightarrow> nat \<Rightarrow> 'a option" where
  "arr_get xs i = (if i < length xs then Some (xs ! i) else None)"

definition arr_set :: "'a list \<Rightarrow> nat \<Rightarrow> 'a \<Rightarrow> 'a list option" where
  "arr_set xs i v = (if i < length xs then Some (xs[i := v]) else None)"

text \<open>\<^verbatim>\<open>for (i = 0; i < size; i += 1) data[i] = dStorage[size - i];\<close>\<close>

fun swap_in :: "byte list \<Rightarrow> nat list \<Rightarrow> byte list \<Rightarrow> byte list option" where
  "swap_in dStorage [] data = Some data"
| "swap_in dStorage (i # is) data =
     do { b \<leftarrow> arr_get dStorage (length dStorage - i);
          data \<leftarrow> arr_set data i b;
          swap_in dStorage is data }"

text \<open>\<^verbatim>\<open>for (i = 0; i < size; i += 1) dStorage[size - i] = data[i];\<close>\<close>

fun swap_out :: "byte list \<Rightarrow> nat list \<Rightarrow> byte list \<Rightarrow> byte list option" where
  "swap_out data [] dStorage = Some dStorage"
| "swap_out data (i # is) dStorage =
     do { b \<leftarrow> arr_get data i;
          dStorage \<leftarrow> arr_set dStorage (length dStorage - i) b;
          swap_out data is dStorage }"

text \<open>
  \<open>data\<close> is the caller's variable, whose bytes a short read leaves as they were; \<open>fresh\<close> is
  what \<^verbatim>\<open>malloc\<close> returned for \<^verbatim>\<open>dStorage\<close>.
\<close>

definition endian_doR ::
    "bool \<Rightarrow> byte list \<Rightarrow> byte list \<Rightarrow> disk \<Rightarrow> byte list option \<times> disk" where
  "endian_doR little_endian fresh data d =
     (if little_endian then
        let (got, d) = disk_read (length data) d
        in (Some (got @ drop (length got) data), d)
      else
        let (got, d) = disk_read (length data) d;
            dStorage = got @ drop (length got) fresh
        in (swap_in dStorage [0..<length data] data, d))"

definition endian_doW :: "bool \<Rightarrow> byte list \<Rightarrow> byte list \<Rightarrow> disk \<Rightarrow> disk option" where
  "endian_doW little_endian fresh data d =
     (if little_endian then Some (disk_write data d)
      else do { dStorage \<leftarrow> swap_out data [0..<length data] fresh;
                Some (disk_write dStorage d) })"

section \<open>The little-endian branch\<close>

definition doR :: "byte list \<Rightarrow> disk \<Rightarrow> byte list \<times> disk" where
  "doR data d =
     (let (got, d) = disk_read (length data) d in (got @ drop (length got) data, d))"

definition doW :: "byte list \<Rightarrow> disk \<Rightarrow> disk" where
  "doW data d = disk_write data d"

lemma endian_doR_little: "endian_doR True fresh data d = map_prod Some id (doR data d)"
  by (simp add: endian_doR_def doR_def case_prod_unfold Let_def)

lemma endian_doW_little: "endian_doW True fresh data d = Some (doW data d)"
  by (simp add: endian_doW_def doW_def)

lemma swap_in_out_of_bounds:
  "data \<noteq> [] \<Longrightarrow> swap_in dStorage [0..<length data] data = None"
  by (simp add: upt_conv_Cons arr_get_def)

lemma swap_out_out_of_bounds:
  "data \<noteq> [] \<Longrightarrow> swap_out data [0..<length data] dStorage = None"
  by (cases data) (simp_all add: upt_conv_Cons arr_get_def arr_set_def del: upt_Suc)

text \<open>The position after a read of \<open>n\<close> bytes, which stops at the end of the file.\<close>

definition after_read :: "nat \<Rightarrow> disk \<Rightarrow> disk" where
  "after_read n d = disk_seek (dpos d + min n (dsize d - dpos d)) d"

lemma after_read_simps [disk_simps]:
  "byte_at (after_read n d) = byte_at d" "dsize (after_read n d) = dsize d"
  "dpos (after_read n d) = dpos d + min n (dsize d - dpos d)"
  "disk_seek p (after_read n d) = disk_seek p d"
  by (simp_all add: after_read_def disk_simps)

lemma after_read_inside:
  "dpos d + n \<le> dsize d \<Longrightarrow> after_read n d = disk_seek (dpos d + n) d"
  by (simp add: after_read_def)

lemma doR_inside:
  "dpos d + length data \<le> dsize d \<Longrightarrow>
   doR data d = (slice (byte_at d) (dpos d) (length data), after_read (length data) d)"
  by (simp add: doR_def disk_read_def after_read_def disk_seek_def Let_def)

text \<open>Into a zeroed variable a short read gives what the file extended with zeros would give.\<close>

lemma doR_zeros:
  "doR (replicate n 0) d = (slice (byte_at d) (dpos d) n, after_read n d)"
proof -
  have "slice (byte_at d) (dpos d) k @ replicate (n - k) 0 = slice (byte_at d) (dpos d) n"
    if "k = min n (dsize d - dpos d)" for k
    using that by (auto intro!: nth_equalityI simp: nth_append byte_at_def)
  then show ?thesis
    by (simp add: doR_def disk_read_def after_read_def disk_seek_def Let_def)
qed

definition doR16 :: "u16 \<Rightarrow> disk \<Rightarrow> u16 \<times> disk" where
  "doR16 v d = map_prod le_dec id (doR (enc16 v) d)"

definition doR32 :: "u32 \<Rightarrow> disk \<Rightarrow> u32 \<times> disk" where
  "doR32 v d = map_prod le_dec id (doR (enc32 v) d)"

definition doR64 :: "u64 \<Rightarrow> disk \<Rightarrow> u64 \<times> disk" where
  "doR64 v d = map_prod le_dec id (doR (enc64 v) d)"

definition doW16 :: "u16 \<Rightarrow> disk \<Rightarrow> disk" where
  "doW16 v d = doW (enc16 v) d"

definition doW32 :: "u32 \<Rightarrow> disk \<Rightarrow> disk" where
  "doW32 v d = doW (enc32 v) d"

text \<open>The numbers stored at an address: the specification the reads are proved to meet.\<close>

definition u16_at :: "disk \<Rightarrow> nat \<Rightarrow> u16" where
  "u16_at d p = le_dec (slice (byte_at d) p 2)"

definition u32_at :: "disk \<Rightarrow> nat \<Rightarrow> u32" where
  "u32_at d p = le_dec (slice (byte_at d) p 4)"

definition u64_at :: "disk \<Rightarrow> nat \<Rightarrow> u64" where
  "u64_at d p = le_dec (slice (byte_at d) p 8)"

lemma le_enc_0: "le_enc n (0 :: 'a::len word) = replicate n 0"
  by (auto intro!: nth_equalityI simp: le_enc_def)

lemma doR32_0 [disk_simps]: "doR32 0 d = (u32_at d (dpos d), after_read 4 d)"
  by (simp add: doR32_def le_enc_0 doR_zeros u32_at_def)

lemma doR16_0 [disk_simps]: "doR16 0 d = (u16_at d (dpos d), after_read 2 d)"
  by (simp add: doR16_def le_enc_0 doR_zeros u16_at_def)

lemma doR16_inside: "dpos d + 2 \<le> dsize d \<Longrightarrow> doR16 v d = (u16_at d (dpos d), after_read 2 d)"
  by (simp add: doR16_def doR_inside u16_at_def)

lemma doR32_inside: "dpos d + 4 \<le> dsize d \<Longrightarrow> doR32 v d = (u32_at d (dpos d), after_read 4 d)"
  by (simp add: doR32_def doR_inside u32_at_def)

lemma doR64_inside: "dpos d + 8 \<le> dsize d \<Longrightarrow> doR64 v d = (u64_at d (dpos d), after_read 8 d)"
  by (simp add: doR64_def doR_inside u64_at_def)

lemma at_dpos [simp]:
  "u16_at (d\<lparr>dpos := p\<rparr>) = u16_at d" "u32_at (d\<lparr>dpos := p\<rparr>) = u32_at d"
  "u64_at (d\<lparr>dpos := p\<rparr>) = u64_at d"
  by (simp_all add: u16_at_def u32_at_def u64_at_def fun_eq_iff)

lemma at_seek [disk_simps]:
  "u16_at (disk_seek p d) = u16_at d" "u32_at (disk_seek p d) = u32_at d"
  "u64_at (disk_seek p d) = u64_at d"
  "u16_at (after_read n d) = u16_at d" "u32_at (after_read n d) = u32_at d"
  "u64_at (after_read n d) = u64_at d"
  by (simp_all add: disk_seek_def after_read_def)

lemma at_cong:
  assumes "byte_at d = byte_at e"
  shows "u16_at d = u16_at e" and "u32_at d = u32_at e" and "u64_at d = u64_at e"
  using assms by (simp_all add: u16_at_def[abs_def] u32_at_def[abs_def] u64_at_def[abs_def])

lemma u32_at_put_same: "u32_at (put_bytes p (enc32 v) d) p = v"
  by (simp add: u32_at_def dsk.slice_put_same)

lemma u32_at_put_other:
  "p + length bs \<le> q \<or> q + 4 \<le> p \<Longrightarrow> u32_at (put_bytes p bs d) q = u32_at d q"
  by (simp add: u32_at_def dsk.slice_put_disjoint)

lemma u16_at_put_same: "u16_at (put_bytes p (enc16 v) d) p = v"
  by (simp add: u16_at_def dsk.slice_put_same)

lemma u16_at_put_other:
  "p + length bs \<le> q \<or> q + 2 \<le> p \<Longrightarrow> u16_at (put_bytes p bs d) q = u16_at d q"
  by (simp add: u16_at_def dsk.slice_put_disjoint)

lemma u64_at_put_other:
  "p + length bs \<le> q \<or> q + 8 \<le> p \<Longrightarrow> u64_at (put_bytes p bs d) q = u64_at d q"
  by (simp add: u64_at_def dsk.slice_put_disjoint)

end
