(* ===== verification/INode.thy ===== *)
theory INode
  imports Endian
begin

text \<open>
  \<^verbatim>\<open>libapp/lowlevel/inode.{h,cpp}\<close> and \<^verbatim>\<open>inodetype.h\<close>: the in-memory inode, its constructor,
  its setters, \<^verbatim>\<open>verify\<close>, \<^verbatim>\<open>copyFilename\<close> and the binary representation that is written to
  the package. A \<^verbatim>\<open>char[n]\<close> is a list of \<open>n\<close> bytes; a \<^verbatim>\<open>const char *\<close> is the list of its
  characters before the terminating NUL.
\<close>

section \<open>Types of inodes\<close>

text \<open>
  The enumeration of \<^verbatim>\<open>inodetype.h\<close>; \<open>INT_OTHER\<close> is a stored 16-bit value that is none of
  the enumerators, which reading a package can produce.
\<close>

datatype inodetype =
    INT_FREEBLOCK | INT_FILEINFO | INT_SEGINFO | INT_DATA | INT_DIRECTORY | INT_SYMLINK
  | INT_HARDLINK | INT_DEVICE | INT_TEMPORARY | INT_FREELIST | INT_FSINFO | INT_INVALID
  | INT_UNSET | INT_OTHER u16

fun type_code :: "inodetype \<Rightarrow> u16" where
  "type_code INT_FREEBLOCK = 0"
| "type_code INT_FILEINFO = 1"
| "type_code INT_SEGINFO = 2"
| "type_code INT_DATA = 254"
| "type_code INT_DIRECTORY = 3"
| "type_code INT_SYMLINK = 4"
| "type_code INT_HARDLINK = 5"
| "type_code INT_DEVICE = 10"
| "type_code INT_TEMPORARY = 6"
| "type_code INT_FREELIST = 7"
| "type_code INT_FSINFO = 8"
| "type_code INT_INVALID = 9"
| "type_code INT_UNSET = 255"
| "type_code (INT_OTHER w) = w"

definition type_of_code :: "u16 \<Rightarrow> inodetype" where
  "type_of_code w =
     (if w = 0 then INT_FREEBLOCK else if w = 1 then INT_FILEINFO
      else if w = 2 then INT_SEGINFO else if w = 254 then INT_DATA
      else if w = 3 then INT_DIRECTORY else if w = 4 then INT_SYMLINK
      else if w = 5 then INT_HARDLINK else if w = 10 then INT_DEVICE
      else if w = 6 then INT_TEMPORARY else if w = 7 then INT_FREELIST
      else if w = 8 then INT_FSINFO else if w = 9 then INT_INVALID
      else if w = 255 then INT_UNSET else INT_OTHER w)"

lemma type_code_of_code [simp]: "type_code (type_of_code w) = w"
  by (simp add: type_of_code_def)

text \<open>A type that is an enumerator (what the code itself ever stores).\<close>

definition named_type :: "inodetype \<Rightarrow> bool" where
  "named_type ty \<longleftrightarrow> (\<forall>w. ty \<noteq> INT_OTHER w)"

lemma named_type_simps [simp]:
  "named_type INT_FREEBLOCK" "named_type INT_FILEINFO" "named_type INT_SEGINFO"
  "named_type INT_DATA" "named_type INT_DIRECTORY" "named_type INT_SYMLINK"
  "named_type INT_HARDLINK" "named_type INT_DEVICE" "named_type INT_TEMPORARY"
  "named_type INT_FREELIST" "named_type INT_FSINFO" "named_type INT_INVALID"
  "named_type INT_UNSET"
  by (simp_all add: named_type_def)

lemma type_of_code_code [simp]: "named_type ty \<Longrightarrow> type_of_code (type_code ty) = ty"
  by (cases ty) (auto simp: type_of_code_def named_type_def)

section \<open>The inode\<close>

record inode =
  i_inodeid :: u16
  i_filename :: "byte list"
  i_type :: inodetype
  i_uid :: u16
  i_gid :: u16
  i_mask :: u16
  i_atime :: u64
  i_mtime :: u64
  i_ctime :: u64
  i_parent :: u16
  i_children :: "u16 list"
  i_children_count :: u16
  i_dev :: u16
  i_rdev :: u16
  i_nlink :: u16
  i_blocks :: u16
  i_dat_len :: u32
  i_info_next :: u32
  i_flst_next :: u32
  i_realid :: u16
  i_realfilename :: "byte list"
  i_fs_name :: "byte list"
  i_ver_major :: u16
  i_ver_minor :: u16
  i_ver_revision :: u16
  i_app_name :: "byte list"
  i_app_ver :: "byte list"
  i_app_desc :: "byte list"
  i_app_author :: "byte list"
  i_pos_root :: u32
  i_pos_freelist :: u32

text \<open>The C string a character array holds: its bytes before the first NUL.\<close>

definition cstr :: "byte list \<Rightarrow> byte list" where
  "cstr bs = takeWhile (\<lambda>b. b \<noteq> 0) bs"

text \<open>\<open>fill n cap name\<close> is the loop pair of the setters: up to \<open>cap\<close> characters, then NULs.\<close>

definition fill :: "nat \<Rightarrow> nat \<Rightarrow> byte list \<Rightarrow> byte list" where
  "fill n cap name =
     (let size = (if length name < cap then length name else cap)
      in take size name @ replicate (n - size) 0)"

text \<open>
  \<^verbatim>\<open>setFilename\<close>: the second padding loop starts at \<^verbatim>\<open>size\<close>, the length of the name, not at
  \<^verbatim>\<open>rsize\<close>; bytes of \<^verbatim>\<open>realfilename\<close> between the two keep what the memory held.
\<close>

definition setFilename :: "byte list \<Rightarrow> byte list \<Rightarrow> inode \<Rightarrow> inode" where
  "setFilename name real n =
     (let size = (if length name < 255 then length name else 255);
          rsize = (if length real < 255 then length real else 255)
      in n\<lparr>i_filename := take size name @ replicate (256 - size) 0,
           i_realfilename :=
             map (\<lambda>i. if size \<le> i then 0 else if i < rsize then real ! i
                      else i_realfilename n ! i) [0..<256]\<rparr>)"

definition setAppName :: "byte list \<Rightarrow> inode \<Rightarrow> inode" where
  "setAppName name n = n\<lparr>i_app_name := fill 256 255 name\<rparr>"

definition setAppVersion :: "byte list \<Rightarrow> inode \<Rightarrow> inode" where
  "setAppVersion name n = n\<lparr>i_app_ver := fill 32 31 name\<rparr>"

definition setAppDesc :: "byte list \<Rightarrow> inode \<Rightarrow> inode" where
  "setAppDesc name n = n\<lparr>i_app_desc := fill 1024 1023 name\<rparr>"

definition setAppAuthor :: "byte list \<Rightarrow> inode \<Rightarrow> inode" where
  "setAppAuthor name n = n\<lparr>i_app_author := fill 256 255 name\<rparr>"

text \<open>
  The constructors. \<open>mem\<close> is the storage the object is built in: only \<^verbatim>\<open>realfilename\<close> can
  keep any of it (see \<^verbatim>\<open>setFilename\<close>).
\<close>

definition INode_full ::
    "inode \<Rightarrow> u16 \<Rightarrow> byte list \<Rightarrow> inodetype \<Rightarrow> u16 \<Rightarrow> u16 \<Rightarrow> u16 \<Rightarrow> u64 \<Rightarrow> u64 \<Rightarrow> u64 \<Rightarrow> inode"
  where
  "INode_full mem iid name ty uid gid msk atime mtime ctime =
     (setFilename name [] (mem\<lparr>i_inodeid := iid\<rparr>))
       \<lparr>i_type := ty, i_uid := uid, i_gid := gid, i_mask := msk,
        i_atime := atime, i_mtime := mtime, i_ctime := ctime,
        i_dat_len := 0, i_info_next := 0, i_flst_next := 0, i_realid := 0,
        i_parent := 0, i_children_count := 0, i_dev := 0, i_rdev := 0, i_nlink := 1,
        i_blocks := 0, i_children := replicate DIRECTORY_CHILDREN_MAX 0,
        i_fs_name := FS_NAME, i_ver_major := 0, i_ver_minor := 0, i_ver_revision := 0,
        i_app_name := replicate 256 0, i_app_ver := replicate 32 0,
        i_app_desc := replicate 1024 0, i_app_author := replicate 256 0,
        i_pos_root := 0, i_pos_freelist := 0\<rparr>"

definition INode_named :: "inode \<Rightarrow> u16 \<Rightarrow> byte list \<Rightarrow> inodetype \<Rightarrow> inode" where
  "INode_named mem iid name ty = INode_full mem iid name ty 0 0 0 0 0 0"

text \<open>The code only ever constructs inodes with the name \<^verbatim>\<open>""\<close>; then no memory shows through.\<close>

definition zero_mem :: inode where
  "zero_mem =
     \<lparr>i_inodeid = 0, i_filename = [], i_type = INT_UNSET, i_uid = 0, i_gid = 0, i_mask = 0,
      i_atime = 0, i_mtime = 0, i_ctime = 0, i_parent = 0, i_children = [],
      i_children_count = 0, i_dev = 0, i_rdev = 0, i_nlink = 0, i_blocks = 0, i_dat_len = 0,
      i_info_next = 0, i_flst_next = 0, i_realid = 0, i_realfilename = [], i_fs_name = [],
      i_ver_major = 0, i_ver_minor = 0, i_ver_revision = 0, i_app_name = [], i_app_ver = [],
      i_app_desc = [], i_app_author = [], i_pos_root = 0, i_pos_freelist = 0\<rparr>"

definition new_inode :: "u16 \<Rightarrow> inodetype \<Rightarrow> inode" where
  "new_inode iid ty = INode_named zero_mem iid [] ty"

definition invalid_inode :: inode where
  "invalid_inode = new_inode 0 INT_INVALID"

lemma map_const_upt: "map (\<lambda>i. c) [0..<n] = replicate n c"
  by (induction n) (auto simp: replicate_append_same)

lemma INode_named_memory: "INode_named mem iid [] ty = INode_named mem' iid [] ty"
  by (cases mem; cases mem')
     (simp add: INode_named_def INode_full_def setFilename_def map_const_upt)

lemma new_inode_simps [simp]:
  "i_inodeid (new_inode iid ty) = iid" "i_type (new_inode iid ty) = ty"
  "i_filename (new_inode iid ty) = replicate 256 0"
  "i_realfilename (new_inode iid ty) = replicate 256 0"
  "i_uid (new_inode iid ty) = 0" "i_gid (new_inode iid ty) = 0" "i_mask (new_inode iid ty) = 0"
  "i_atime (new_inode iid ty) = 0" "i_mtime (new_inode iid ty) = 0"
  "i_ctime (new_inode iid ty) = 0" "i_parent (new_inode iid ty) = 0"
  "i_children (new_inode iid ty) = replicate DIRECTORY_CHILDREN_MAX 0"
  "i_children_count (new_inode iid ty) = 0" "i_dev (new_inode iid ty) = 0"
  "i_rdev (new_inode iid ty) = 0" "i_nlink (new_inode iid ty) = 1"
  "i_blocks (new_inode iid ty) = 0" "i_dat_len (new_inode iid ty) = 0"
  "i_info_next (new_inode iid ty) = 0" "i_flst_next (new_inode iid ty) = 0"
  "i_realid (new_inode iid ty) = 0" "i_fs_name (new_inode iid ty) = FS_NAME"
  "i_ver_major (new_inode iid ty) = 0" "i_ver_minor (new_inode iid ty) = 0"
  "i_ver_revision (new_inode iid ty) = 0" "i_app_name (new_inode iid ty) = replicate 256 0"
  "i_app_ver (new_inode iid ty) = replicate 32 0"
  "i_app_desc (new_inode iid ty) = replicate 1024 0"
  "i_app_author (new_inode iid ty) = replicate 256 0"
  "i_pos_root (new_inode iid ty) = 0" "i_pos_freelist (new_inode iid ty) = 0"
  by (simp_all add: new_inode_def INode_named_def INode_full_def setFilename_def map_const_upt)

section \<open>Verification and names\<close>

definition inode_verify :: "inode \<Rightarrow> bool" where
  "inode_verify n =
     (if i_filename n ! 0 = 0 \<and> (i_type n = INT_DIRECTORY \<or> i_type n = INT_FILEINFO)
         \<and> i_inodeid n \<noteq> 0
      then False else True)"

text \<open>\<^verbatim>\<open>copyFilename\<close>: zero the target, then copy up to 255 characters or the first NUL.\<close>

definition copyFilename :: "byte list \<Rightarrow> byte list" where
  "copyFilename from = (let s = cstr (take 255 from) in s @ replicate (256 - length s) 0)"

lemma length_cstr_le: "length (cstr bs) \<le> length bs"
  by (simp add: cstr_def length_takeWhile_le)

lemma length_copyFilename [simp]: "length (copyFilename from) = 256"
proof -
  have "length (cstr (take 255 from)) \<le> 255"
    by (rule order_trans[OF length_cstr_le]) simp
  then show ?thesis by (simp add: copyFilename_def Let_def)
qed

lemma cstr_replicate [simp]: "cstr (replicate n 0) = []"
  by (cases n) (simp_all add: cstr_def)

lemma cstr_append_zeros: "0 \<notin> set s \<Longrightarrow> cstr (s @ replicate n 0) = s"
proof -
  assume "0 \<notin> set s"
  then have "\<And>b. b \<in> set s \<Longrightarrow> b \<noteq> 0" by metis
  then have "takeWhile (\<lambda>b. b \<noteq> 0) (s @ replicate n 0)
      = s @ takeWhile (\<lambda>b. b \<noteq> 0) (replicate n 0)"
    by (rule takeWhile_append2)
  then show ?thesis by (cases n) (simp_all add: cstr_def)
qed

lemma cstr_no_nul: "0 \<notin> set (cstr bs)"
  by (auto simp: cstr_def dest: set_takeWhileD)

lemma cstr_copyFilename: "cstr (copyFilename from) = cstr (take 255 from)"
  by (simp add: copyFilename_def Let_def cstr_append_zeros cstr_no_nul)

lemma filename_setFilename:
  "length name < 256 \<Longrightarrow> 0 \<notin> set name \<Longrightarrow> cstr (i_filename (setFilename name real n)) = name"
  by (auto simp: setFilename_def Let_def cstr_append_zeros)

lemma length_filename_setFilename [simp]: "length (i_filename (setFilename name real n)) = 256"
  by (simp add: setFilename_def Let_def)

lemma length_realfilename_setFilename [simp]:
  "length (i_realfilename (setFilename name real n)) = 256"
  by (simp add: setFilename_def Let_def)

section \<open>The binary representation\<close>

text \<open>The types that carry file data fields, and those whose second name may be stored.\<close>

definition has_data_fields :: "inodetype \<Rightarrow> bool" where
  "has_data_fields ty \<longleftrightarrow> ty = INT_FILEINFO \<or> ty = INT_SYMLINK \<or> ty = INT_DEVICE"

definition getBinaryRepresentation :: "inode \<Rightarrow> byte list" where
  "getBinaryRepresentation n =
     enc16 (i_inodeid n) @ enc16 (type_code (i_type n)) @
     (if i_type n = INT_SEGINFO then enc32 (i_info_next n)
      else if i_type n = INT_FREELIST then enc32 (i_flst_next n)
      else if i_type n = INT_FSINFO then
        i_fs_name n @ enc16 (i_ver_major n) @ enc16 (i_ver_minor n) @ enc16 (i_ver_revision n) @
        i_app_name n @ i_app_ver n @ i_app_desc n @ i_app_author n @
        enc32 (i_pos_root n) @ enc32 (i_pos_freelist n)
      else
        (if (i_type n = INT_FILEINFO \<or> i_type n = INT_DEVICE) \<and> i_realid n \<noteq> 0
         then i_realfilename n else i_filename n) @
        (if i_type n \<noteq> INT_HARDLINK then
           enc16 (i_uid n) @ enc16 (i_gid n) @ enc16 (i_mask n) @
           enc64 (i_atime n) @ enc64 (i_mtime n) @ enc64 (i_ctime n)
         else []) @
        (if i_type n = INT_FILEINFO \<or> i_type n = INT_SYMLINK \<or> i_type n = INT_DEVICE then
           enc16 (i_dev n) @ enc16 (i_rdev n) @ enc16 (i_nlink n) @ enc16 (i_blocks n) @
           enc32 (i_dat_len n) @ enc32 (i_info_next n)
         else if i_type n = INT_DIRECTORY then
           enc16 (i_parent n) @ enc16 (i_children_count n) @ enc16s (i_children n)
         else if i_type n = INT_HARDLINK then enc16 (i_realid n)
         else []))"

text \<open>The arrays have their declared sizes and the type is an enumerator.\<close>

definition inode_wf :: "inode \<Rightarrow> bool" where
  "inode_wf n \<longleftrightarrow>
     length (i_filename n) = 256 \<and> length (i_realfilename n) = 256 \<and>
     length (i_children n) = DIRECTORY_CHILDREN_MAX \<and> length (i_fs_name n) = 10 \<and>
     length (i_app_name n) = 256 \<and> length (i_app_ver n) = 32 \<and>
     length (i_app_desc n) = 1024 \<and> length (i_app_author n) = 256 \<and> named_type (i_type n)"

text \<open>How many bytes each type of inode occupies at the front of its block.\<close>

fun repr_size :: "inodetype \<Rightarrow> nat" where
  "repr_size INT_SEGINFO = 8"
| "repr_size INT_FREELIST = 8"
| "repr_size INT_FSINFO = 1596"
| "repr_size INT_FILEINFO = 306"
| "repr_size INT_SYMLINK = 306"
| "repr_size INT_DEVICE = 306"
| "repr_size INT_DIRECTORY = 4096"
| "repr_size INT_HARDLINK = 262"
| "repr_size _ = 290"

lemma length_getBinaryRepresentation:
  "inode_wf n \<Longrightarrow> length (getBinaryRepresentation n) = repr_size (i_type n)"
  by (cases "i_type n") (auto simp: getBinaryRepresentation_def inode_wf_def config)

lemma repr_size_le: "repr_size ty \<le> 4096"
  by (cases ty) auto

lemma inode_wf_new_inode: "named_type ty \<Longrightarrow> inode_wf (new_inode iid ty)"
  by (simp add: inode_wf_def config)

end
