(* ===== verification/LowFS_Core.thy ===== *)
theory LowFS_Core
  imports INode
begin

text \<open>
  The core of \<^verbatim>\<open>LowLevel::FS\<close> (\<^verbatim>\<open>libapp/lowlevel/fs.cpp\<close>): its state, the inode lookup
  table, reading an inode with hard-link resolution, writing and updating inodes, inode number
  allocation and reservations, and time stamps.

  Every operation takes and returns the state \<open>fsys\<close>. An operation whose loop or recursion
  need not stop on a damaged package returns an option, \<open>None\<close> meaning that it does not return.
\<close>

section \<open>State and stream primitives\<close>

text \<open>
  \<open>fs_disk\<close> is the ready \<^verbatim>\<open>BlockStream\<close>; \<open>fs_cache\<close> is \<^verbatim>\<open>FreeList::position_cache\<close> as the
  sorted association list a \<^verbatim>\<open>std::map\<close> iterates over; \<open>fs_reserved\<close> is
  \<^verbatim>\<open>reservedINodes\<close>. \<^verbatim>\<open>time(NULL)\<close> is outside the program: call number \<open>k\<close> returns
  \<open>fs_clock k\<close>.
\<close>

record fsys =
  fs_disk :: disk
  fs_cache :: "(u32 \<times> u32) list"
  fs_reserved :: "u16 list"
  fs_clock :: "nat \<Rightarrow> u64"
  fs_ticks :: nat

named_theorems fd_simps \<open>effect of the stream primitives on the filesystem state\<close>

definition fd_tell :: "fsys \<Rightarrow> nat" where
  "fd_tell s = dpos (fs_disk s)"

definition fd_seek :: "nat \<Rightarrow> fsys \<Rightarrow> fsys" where
  "fd_seek p s = s\<lparr>fs_disk := disk_seek p (fs_disk s)\<rparr>"

abbreviation tellg :: "fsys \<Rightarrow> nat" where "tellg \<equiv> fd_tell"
abbreviation tellp :: "fsys \<Rightarrow> nat" where "tellp \<equiv> fd_tell"
abbreviation seekg :: "nat \<Rightarrow> fsys \<Rightarrow> fsys" where "seekg \<equiv> fd_seek"
abbreviation seekp :: "nat \<Rightarrow> fsys \<Rightarrow> fsys" where "seekp \<equiv> fd_seek"

text \<open>On a ready stream \<^verbatim>\<open>Util::seekp_ex\<close> is \<^verbatim>\<open>seekp\<close>: seeking past the end does not fail.\<close>

abbreviation seekp_ex :: "nat \<Rightarrow> fsys \<Rightarrow> fsys" where "seekp_ex \<equiv> fd_seek"

definition fd_doR :: "byte list \<Rightarrow> fsys \<Rightarrow> byte list \<times> fsys" where
  "fd_doR data s = (let (x, d) = doR data (fs_disk s) in (x, s\<lparr>fs_disk := d\<rparr>))"

definition fd_doR16 :: "u16 \<Rightarrow> fsys \<Rightarrow> u16 \<times> fsys" where
  "fd_doR16 v s = (let (x, d) = doR16 v (fs_disk s) in (x, s\<lparr>fs_disk := d\<rparr>))"

definition fd_doR32 :: "u32 \<Rightarrow> fsys \<Rightarrow> u32 \<times> fsys" where
  "fd_doR32 v s = (let (x, d) = doR32 v (fs_disk s) in (x, s\<lparr>fs_disk := d\<rparr>))"

definition fd_doR64 :: "u64 \<Rightarrow> fsys \<Rightarrow> u64 \<times> fsys" where
  "fd_doR64 v s = (let (x, d) = doR64 v (fs_disk s) in (x, s\<lparr>fs_disk := d\<rparr>))"

definition fd_read :: "nat \<Rightarrow> fsys \<Rightarrow> byte list \<times> fsys" where
  "fd_read n s = (let (x, d) = disk_read n (fs_disk s) in (x, s\<lparr>fs_disk := d\<rparr>))"

definition fd_write :: "byte list \<Rightarrow> fsys \<Rightarrow> fsys" where
  "fd_write data s = s\<lparr>fs_disk := disk_write data (fs_disk s)\<rparr>"

definition fd_doW16 :: "u16 \<Rightarrow> fsys \<Rightarrow> fsys" where
  "fd_doW16 v s = s\<lparr>fs_disk := doW16 v (fs_disk s)\<rparr>"

definition fd_doW32 :: "u32 \<Rightarrow> fsys \<Rightarrow> fsys" where
  "fd_doW32 v s = s\<lparr>fs_disk := doW32 v (fs_disk s)\<rparr>"

text \<open>\<open>n\<close> times \<^verbatim>\<open>write("\0", 1)\<close>.\<close>

fun fd_zeros :: "nat \<Rightarrow> fsys \<Rightarrow> fsys" where
  "fd_zeros 0 s = s"
| "fd_zeros (Suc n) s = fd_zeros n (fd_write [0] s)"

definition fs_now :: "fsys \<Rightarrow> u64 \<times> fsys" where
  "fs_now s = (fs_clock s (fs_ticks s), s\<lparr>fs_ticks := Suc (fs_ticks s)\<rparr>)"

text \<open>Writing at an address, the form in which the lemmas state what changed.\<close>

definition fs_put :: "nat \<Rightarrow> byte list \<Rightarrow> fsys \<Rightarrow> fsys" where
  "fs_put p bs s = s\<lparr>fs_disk := put_bytes p bs (fs_disk s)\<rparr>"

lemma fd_seek_frame [fd_simps]:
  "fs_cache (fd_seek p s) = fs_cache s" "fs_reserved (fd_seek p s) = fs_reserved s"
  "fs_clock (fd_seek p s) = fs_clock s" "fs_ticks (fd_seek p s) = fs_ticks s"
  "fs_disk (fd_seek p s) = disk_seek p (fs_disk s)"
  by (simp_all add: fd_seek_def)

lemma fs_put_frame [fd_simps]:
  "fs_cache (fs_put p bs s) = fs_cache s" "fs_reserved (fs_put p bs s) = fs_reserved s"
  "fs_clock (fs_put p bs s) = fs_clock s" "fs_ticks (fs_put p bs s) = fs_ticks s"
  "fs_disk (fs_put p bs s) = put_bytes p bs (fs_disk s)"
  by (simp_all add: fs_put_def)

lemma fd_seek_seek [fd_simps]:
  "fd_seek p (fd_seek q s) = fd_seek p s" "fd_tell (fd_seek p s) = p"
  "fd_seek (fd_tell s) s = s"
  by (simp_all add: fd_seek_def fd_tell_def disk_simps)

lemma fd_seek_same [fd_simps]: "fd_tell s = p \<Longrightarrow> fd_seek p s = s"
  by (auto simp: fd_simps)

lemma fd_tell_put [fd_simps]: "fd_tell (fs_put p bs s) = fd_tell s"
  by (simp add: fd_tell_def fs_put_def)

lemma fs_put_seek [fd_simps]: "fs_put p bs (fd_seek q s) = fd_seek q (fs_put p bs s)"
  by (simp add: fs_put_def fd_seek_def disk_seek_def put_bytes_dpos)

lemma fd_write_seek [fd_simps]:
  "fd_write bs (fd_seek p s) = fd_seek (p + length bs) (fs_put p bs s)"
  by (simp add: fd_write_def fd_seek_def fs_put_def disk_write_def disk_seek_def put_bytes_dpos)

lemma fd_doW_seek [fd_simps]:
  "fd_doW16 v (fd_seek p s) = fd_seek (p + 2) (fs_put p (enc16 v) s)"
  "fd_doW32 w (fd_seek p s) = fd_seek (p + 4) (fs_put p (enc32 w) s)"
  by (simp_all add: fd_doW16_def fd_doW32_def doW16_def doW32_def doW_def fd_seek_def fs_put_def
      disk_write_def disk_seek_def put_bytes_dpos)

lemma dbytes_put_bytes:
  "dbytes (put_bytes p bs d) a =
     (if bs = [] then dbytes d a
      else if p \<le> a \<and> a < p + length bs then bs ! (a - p) else byte_at d a)"
  by (simp add: put_bytes_def)

lemma put_bytes_append:
  "put_bytes (p + length xs) ys (put_bytes p xs d) = put_bytes p (xs @ ys) d"
proof (rule disk.equality)
  show "dbytes (put_bytes (p + length xs) ys (put_bytes p xs d)) = dbytes (put_bytes p (xs @ ys) d)"
    by (rule ext) (auto simp: dbytes_put_bytes byte_at_put_bytes nth_append)
qed auto

lemma fs_put_append [fd_simps]:
  "fs_put (p + length xs) ys (fs_put p xs s) = fs_put p (xs @ ys) s"
  by (simp add: fs_put_def put_bytes_append)

lemma fs_put_Nil [simp]: "fs_put p [] s = s"
  by (simp add: fs_put_def)

lemma fd_zeros_seek [fd_simps]:
  "fd_zeros n (fd_seek p s) = fd_seek (p + n) (fs_put p (replicate n 0) s)"
proof (induction n arbitrary: p s)
  case 0
  then show ?case by simp
next
  case (Suc n)
  have "fs_put (p + 1) (replicate n 0) (fs_put p [0] s) = fs_put p (0 # replicate n 0) s"
    using fs_put_append[of p "[0]" "replicate n 0" s] by simp
  with Suc show ?case by (simp add: fd_simps)
qed

lemma fd_read_pair:
  assumes "doR data (disk_seek p (fs_disk s)) = (x, disk_seek q (fs_disk s))"
  shows "fd_doR data (fd_seek p s) = (x, fd_seek q s)"
  using assms by (simp add: fd_doR_def fd_seek_def)

lemma fd_doR_seek [fd_simps]:
  "p + length data \<le> dsize (fs_disk s) \<Longrightarrow>
   fd_doR data (fd_seek p s) = (slice (byte_at (fs_disk s)) p (length data), fd_seek (p + length data) s)"
  by (simp add: fd_doR_def fd_seek_def doR_inside after_read_inside disk_simps)

lemma fd_doR16_seek [fd_simps]:
  "p + 2 \<le> dsize (fs_disk s) \<Longrightarrow>
   fd_doR16 v (fd_seek p s) = (u16_at (fs_disk s) p, fd_seek (p + 2) s)"
  by (simp add: fd_doR16_def fd_seek_def doR16_inside after_read_inside disk_simps)

lemma fd_doR32_seek [fd_simps]:
  "p + 4 \<le> dsize (fs_disk s) \<Longrightarrow>
   fd_doR32 v (fd_seek p s) = (u32_at (fs_disk s) p, fd_seek (p + 4) s)"
  by (simp add: fd_doR32_def fd_seek_def doR32_inside after_read_inside disk_simps)

lemma fd_doR64_seek [fd_simps]:
  "p + 8 \<le> dsize (fs_disk s) \<Longrightarrow>
   fd_doR64 v (fd_seek p s) = (u64_at (fs_disk s) p, fd_seek (p + 8) s)"
  by (simp add: fd_doR64_def fd_seek_def doR64_inside after_read_inside disk_simps)

text \<open>Into zeroed variables the value needs no bound; only the position then stops at the end.\<close>

lemma fd_doR32_0:
  "fst (fd_doR32 0 (fd_seek p s)) = u32_at (fs_disk s) p"
  "fd_seek q (snd (fd_doR32 0 (fd_seek p s))) = fd_seek q s"
  by (simp_all add: fd_doR32_def fd_seek_def disk_simps)

section \<open>Results\<close>

datatype FSResult =
    E_SUCCESS | E_FAILURE_GENERAL | E_FAILURE_INVALID_FILENAME | E_FAILURE_INVALID_PATH
  | E_FAILURE_INVALID_POSITION | E_FAILURE_INODE_ALREADY_ASSIGNED
  | E_FAILURE_INODE_NOT_ASSIGNED | E_FAILURE_INODE_NOT_VALID | E_FAILURE_NOT_A_DIRECTORY
  | E_FAILURE_NOT_A_FILE | E_FAILURE_NOT_UNIQUE | E_FAILURE_NOT_IMPLEMENTED
  | E_FAILURE_MAXIMUM_CHILDREN_REACHED | E_FAILURE_PARTIAL_TRUNCATION | E_FAILURE_UNKNOWN

text \<open>The argument is an \<^verbatim>\<open>int\<close>: positions from 2 GiB on arrive negative.\<close>

definition checkINodePositionIsValid :: "u32 \<Rightarrow> FSResult" where
  "checkINodePositionIsValid pos =
     (if sint pos < int OFFSET_DATA \<or> (sint pos - int OFFSET_DATA) mod 4096 \<noteq> 0
      then E_FAILURE_INVALID_POSITION else E_SUCCESS)"

section \<open>The inode lookup table\<close>

definition lookup_addr :: "u16 \<Rightarrow> nat" where
  "lookup_addr iid = OFFSET_LOOKUP + unat iid * 4"

definition getINodePositionByID :: "u16 \<Rightarrow> fsys \<Rightarrow> u32 \<times> fsys" where
  "getINodePositionByID iid s =
     (let old = tellg s;
          newp = OFFSET_LOOKUP + unat iid * 4;
          s = seekg newp s;
          (ipos, s) = fd_doR32 0 s;
          s = seekg old s
      in (ipos, s))"

definition setINodePositionByID :: "u16 \<Rightarrow> u32 \<Rightarrow> fsys \<Rightarrow> FSResult \<times> fsys" where
  "setINodePositionByID iid pos s =
     (if pos \<noteq> 0 \<and> checkINodePositionIsValid pos \<noteq> E_SUCCESS
      then (checkINodePositionIsValid pos, s)
      else
        let old = tellp s;
            s = seekp_ex (OFFSET_LOOKUP + unat iid * 4) s;
            s = fd_doW32 pos s;
            s = seekp_ex old s
        in (E_SUCCESS, s))"

text \<open>The table as a function, the specification of the two operations.\<close>

definition lookup_at :: "disk \<Rightarrow> u16 \<Rightarrow> u32" where
  "lookup_at d iid = u32_at d (lookup_addr iid)"

lemma getINodePositionByID_eq [simp]:
  "getINodePositionByID iid s = (lookup_at (fs_disk s) iid, s)"
  by (simp add: getINodePositionByID_def lookup_at_def lookup_addr_def case_prod_unfold Let_def
      fd_doR32_0 fd_simps)

lemma setINodePositionByID_eq:
  "setINodePositionByID iid pos s =
     (if pos = 0 \<or> checkINodePositionIsValid pos = E_SUCCESS
      then (E_SUCCESS, fs_put (lookup_addr iid) (enc32 pos) s)
      else (E_FAILURE_INVALID_POSITION, s))"
  by (auto simp: setINodePositionByID_def lookup_addr_def fd_simps Let_def
      checkINodePositionIsValid_def)

lemma lookup_addr_apart:
  "i \<noteq> j \<Longrightarrow> lookup_addr i + 4 \<le> lookup_addr j \<or> lookup_addr j + 4 \<le> lookup_addr i"
proof -
  assume "i \<noteq> j"
  then have "unat i \<noteq> unat j" by (simp add: word_unat_eq_iff)
  then show ?thesis unfolding lookup_addr_def by linarith
qed

lemma lookup_addr_bounds: "OFFSET_LOOKUP \<le> lookup_addr i" "lookup_addr i + 4 \<le> OFFSET_FSINFO"
proof -
  have "unat i < 65536" using unsigned_less[of i] by simp
  then show "OFFSET_LOOKUP \<le> lookup_addr i" and "lookup_addr i + 4 \<le> OFFSET_FSINFO"
    by (simp_all add: lookup_addr_def config)
qed

lemma lookup_at_put_lookup:
  "lookup_at (put_bytes (lookup_addr i) (enc32 pos) d) j = (if i = j then pos else lookup_at d j)"
  using lookup_addr_apart[of i j]
  by (auto simp: lookup_at_def u32_at_put_same u32_at_put_other)

lemma lookup_at_put_data:
  "OFFSET_FSINFO \<le> p \<Longrightarrow> lookup_at (put_bytes p bs d) j = lookup_at d j"
  using lookup_addr_bounds[of j] by (simp add: lookup_at_def u32_at_put_other)

lemma lookup_at_seek [disk_simps]: "lookup_at (disk_seek p d) = lookup_at d"
  by (simp add: lookup_at_def[abs_def] disk_simps)

end
