(* ===== verification/LowFS_INode.thy ===== *)
theory LowFS_INode
  imports LowFS_Core
begin

text \<open>
  Inodes on disk: reading one field by field (\<^verbatim>\<open>getINodeByRealPosition\<close>), hard-link
  resolution, writing a new inode, updating an existing one and stamping its times
  (\<^verbatim>\<open>libapp/lowlevel/fs.cpp\<close>, \<^verbatim>\<open>INode::resolve\<close> of \<^verbatim>\<open>inode.cpp\<close>).

  \<open>inode_at d p\<close> is the specification of a stored inode by absolute offsets; the sequential
  read is proved equal to it and leaves the whole state, the position included, as it was.
\<close>

section \<open>Reading an inode\<close>

definition getINodeByRealPosition :: "u32 \<Rightarrow> fsys \<Rightarrow> inode \<times> fsys" where
  "getINodeByRealPosition ipos s =
     (let node = new_inode 0 INT_INVALID;
          old = tellg s;
          s = seekg (unat ipos) s;
          (v, s) = fd_doR16 (i_inodeid node) s; node = node\<lparr>i_inodeid := v\<rparr>;
          (t, s) = fd_doR16 (type_code (i_type node)) s; node = node\<lparr>i_type := type_of_code t\<rparr>
      in if i_type node = INT_SEGINFO then
           let (v, s) = fd_doR32 (i_info_next node) s
           in (node\<lparr>i_info_next := v\<rparr>, seekg old s)
         else if i_type node = INT_FREELIST then
           let (v, s) = fd_doR32 (i_flst_next node) s
           in (node\<lparr>i_flst_next := v\<rparr>, seekg old s)
         else if i_type node = INT_FSINFO then
           let (b, s) = fd_doR (i_fs_name node) s; node = node\<lparr>i_fs_name := b\<rparr>;
               (v, s) = fd_doR16 (i_ver_major node) s; node = node\<lparr>i_ver_major := v\<rparr>;
               (v, s) = fd_doR16 (i_ver_minor node) s; node = node\<lparr>i_ver_minor := v\<rparr>;
               (v, s) = fd_doR16 (i_ver_revision node) s; node = node\<lparr>i_ver_revision := v\<rparr>;
               (b, s) = fd_doR (i_app_name node) s; node = node\<lparr>i_app_name := b\<rparr>;
               (b, s) = fd_doR (i_app_ver node) s; node = node\<lparr>i_app_ver := b\<rparr>;
               (b, s) = fd_doR (i_app_desc node) s; node = node\<lparr>i_app_desc := b\<rparr>;
               (b, s) = fd_doR (i_app_author node) s; node = node\<lparr>i_app_author := b\<rparr>;
               (w, s) = fd_doR32 (i_pos_root node) s; node = node\<lparr>i_pos_root := w\<rparr>;
               (w, s) = fd_doR32 (i_pos_freelist node) s
           in (node\<lparr>i_pos_freelist := w\<rparr>, seekg old s)
         else
           let (b, s) = fd_doR (i_filename node) s; node = node\<lparr>i_filename := b\<rparr>;
               (node, s) =
                 (if i_type node \<noteq> INT_HARDLINK then
                    let (v, s) = fd_doR16 (i_uid node) s; node = node\<lparr>i_uid := v\<rparr>;
                        (v, s) = fd_doR16 (i_gid node) s; node = node\<lparr>i_gid := v\<rparr>;
                        (v, s) = fd_doR16 (i_mask node) s; node = node\<lparr>i_mask := v\<rparr>;
                        (t, s) = fd_doR64 (i_atime node) s; node = node\<lparr>i_atime := t\<rparr>;
                        (t, s) = fd_doR64 (i_mtime node) s; node = node\<lparr>i_mtime := t\<rparr>;
                        (t, s) = fd_doR64 (i_ctime node) s
                    in (node\<lparr>i_ctime := t\<rparr>, s)
                  else (node, s));
               (node, s) =
                 (if i_type node = INT_FILEINFO \<or> i_type node = INT_SYMLINK
                     \<or> i_type node = INT_DEVICE then
                    let (v, s) = fd_doR16 (i_dev node) s; node = node\<lparr>i_dev := v\<rparr>;
                        (v, s) = fd_doR16 (i_rdev node) s; node = node\<lparr>i_rdev := v\<rparr>;
                        (v, s) = fd_doR16 (i_nlink node) s; node = node\<lparr>i_nlink := v\<rparr>;
                        (v, s) = fd_doR16 (i_blocks node) s; node = node\<lparr>i_blocks := v\<rparr>;
                        (w, s) = fd_doR32 (i_dat_len node) s; node = node\<lparr>i_dat_len := w\<rparr>;
                        (w, s) = fd_doR32 (i_info_next node) s
                    in (node\<lparr>i_info_next := w\<rparr>, s)
                  else if i_type node = INT_DIRECTORY then
                    let (v, s) = fd_doR16 (i_parent node) s; node = node\<lparr>i_parent := v\<rparr>;
                        (v, s) = fd_doR16 (i_children_count node) s;
                        node = node\<lparr>i_children_count := v\<rparr>;
                        (b, s) = fd_doR (enc16s (i_children node)) s
                    in (node\<lparr>i_children := dec16s DIRECTORY_CHILDREN_MAX b\<rparr>, s)
                  else if i_type node = INT_HARDLINK then
                    let (v, s) = fd_doR16 (i_realid node) s
                    in (node\<lparr>i_realid := v\<rparr>, s)
                  else (node, s));
               s = seekg old s
           in if \<not> inode_verify node then (new_inode 0 INT_INVALID, s) else (node, s))"

definition head_at :: "disk \<Rightarrow> nat \<Rightarrow> inode" where
  "head_at d p =
     (new_inode 0 INT_INVALID)\<lparr>i_inodeid := u16_at d p, i_type := type_of_code (u16_at d (p + 2))\<rparr>"

definition named_at :: "disk \<Rightarrow> nat \<Rightarrow> inode \<Rightarrow> inode" where
  "named_at d p n =
     (let n = n\<lparr>i_filename := slice (byte_at d) (p + 4) 256\<rparr>;
          n = (if i_type n \<noteq> INT_HARDLINK then
                 n\<lparr>i_uid := u16_at d (p + 260), i_gid := u16_at d (p + 262),
                   i_mask := u16_at d (p + 264), i_atime := u64_at d (p + 266),
                   i_mtime := u64_at d (p + 274), i_ctime := u64_at d (p + 282)\<rparr>
               else n)
      in if i_type n = INT_FILEINFO \<or> i_type n = INT_SYMLINK \<or> i_type n = INT_DEVICE then
           n\<lparr>i_dev := u16_at d (p + 290), i_rdev := u16_at d (p + 292),
             i_nlink := u16_at d (p + 294), i_blocks := u16_at d (p + 296),
             i_dat_len := u32_at d (p + 298), i_info_next := u32_at d (p + 302)\<rparr>
         else if i_type n = INT_DIRECTORY then
           n\<lparr>i_parent := u16_at d (p + 290), i_children_count := u16_at d (p + 292),
             i_children := dec16s DIRECTORY_CHILDREN_MAX (slice (byte_at d) (p + 294) 3802)\<rparr>
         else if i_type n = INT_HARDLINK then n\<lparr>i_realid := u16_at d (p + 260)\<rparr>
         else n)"

definition inode_at :: "disk \<Rightarrow> nat \<Rightarrow> inode" where
  "inode_at d p =
     (let n = head_at d p
      in if i_type n = INT_SEGINFO then n\<lparr>i_info_next := u32_at d (p + 4)\<rparr>
         else if i_type n = INT_FREELIST then n\<lparr>i_flst_next := u32_at d (p + 4)\<rparr>
         else if i_type n = INT_FSINFO then
           n\<lparr>i_fs_name := slice (byte_at d) (p + 4) 10, i_ver_major := u16_at d (p + 14),
             i_ver_minor := u16_at d (p + 16), i_ver_revision := u16_at d (p + 18),
             i_app_name := slice (byte_at d) (p + 20) 256,
             i_app_ver := slice (byte_at d) (p + 276) 32,
             i_app_desc := slice (byte_at d) (p + 308) 1024,
             i_app_author := slice (byte_at d) (p + 1332) 256,
             i_pos_root := u32_at d (p + 1588), i_pos_freelist := u32_at d (p + 1592)\<rparr>
         else
           let n = named_at d p n
           in if \<not> inode_verify n then new_inode 0 INT_INVALID else n)"

lemma getINodeByRealPosition_eq:
  assumes "unat ipos + 4096 \<le> dsize (fs_disk s)"
  shows "getINodeByRealPosition ipos s = (inode_at (fs_disk s) (unat ipos), s)"
proof -
  note [simp] = fd_simps
  have sz: "unat ipos + k \<le> dsize (fs_disk s)" if "k \<le> 4096" for k
    using assms that by linarith
  let ?ty = "type_of_code (u16_at (fs_disk s) (unat ipos + 2))"
  show ?thesis
    using sz
    by (cases ?ty)
       (simp_all add: getINodeByRealPosition_def inode_at_def head_at_def named_at_def
         Let_def add.assoc config del: add_2_eq_Suc')
qed

section \<open>Hard links\<close>

text \<open>
  \<^verbatim>\<open>INode::resolve\<close>, first branch: the target shown under the link's name, with the link's
  number in \<^verbatim>\<open>realid\<close>; second branch: the link shown with the file's name kept aside.
\<close>

definition link_view :: "inode \<Rightarrow> inode \<Rightarrow> inode" where
  "link_view link node =
     node\<lparr>i_realid := i_inodeid link,
          i_realfilename := copyFilename (i_filename node),
          i_filename := copyFilename (i_filename link)\<rparr>"

definition back_view :: "inode \<Rightarrow> inode \<Rightarrow> inode" where
  "back_view file node =
     node\<lparr>i_realid := i_inodeid file, i_realfilename := copyFilename (i_filename file)\<rparr>"

text \<open>
  \<^verbatim>\<open>getINodeByPosition\<close>, \<^verbatim>\<open>resolve\<close> and \<^verbatim>\<open>getINodeByID\<close> call each other. Here the
  recursion is tied in \<open>getINodeByPosition\<close>; the two others are defined from it below and
  \<open>getINodeByPosition_unfold\<close> restores the mutual form of the source.
\<close>

partial_function (option) getINodeByPosition :: "u32 \<Rightarrow> fsys \<Rightarrow> (inode \<times> fsys) option" where
  "getINodeByPosition ipos s =
     (let (node, s) = getINodeByRealPosition ipos s
      in if i_type node = INT_HARDLINK then
           (if i_realid node \<noteq> 0 then
              (let (rpos, s) = getINodePositionByID (i_realid node) s
               in do { (target, s) \<leftarrow>
                         (if rpos = 0 \<or> unat rpos < OFFSET_FSINFO
                          then Some (new_inode 0 INT_INVALID, s)
                          else getINodeByPosition rpos s);
                       Some (link_view node target, s) })
            else Some (node, s))
         else Some (node, s))"

definition getINodeByID :: "u16 \<Rightarrow> fsys \<Rightarrow> (inode \<times> fsys) option" where
  "getINodeByID iid s =
     (let (ipos, s) = getINodePositionByID iid s
      in if ipos = 0 \<or> unat ipos < OFFSET_FSINFO then Some (new_inode 0 INT_INVALID, s)
         else getINodeByPosition ipos s)"

definition getRealINodeByID :: "u16 \<Rightarrow> fsys \<Rightarrow> inode \<times> fsys" where
  "getRealINodeByID iid s =
     (let (ipos, s) = getINodePositionByID iid s
      in if ipos = 0 \<or> unat ipos < OFFSET_FSINFO then (new_inode 0 INT_INVALID, s)
         else getINodeByRealPosition ipos s)"

definition inode_resolve :: "inode \<Rightarrow> fsys \<Rightarrow> (inode \<times> fsys) option" where
  "inode_resolve n s =
     (if i_type n = INT_HARDLINK \<and> i_realid n \<noteq> 0 then
        do { (node, s) \<leftarrow> getINodeByID (i_realid n) s;
             Some (link_view n node, s) }
      else if (i_type n = INT_FILEINFO \<or> i_type n = INT_DEVICE) \<and> i_realid n \<noteq> 0 then
        (let (node, s) = getRealINodeByID (i_realid n) s in Some (back_view n node, s))
      else Some (n, s))"

lemma getINodeByPosition_unfold:
  "getINodeByPosition ipos s =
     (let (node, s) = getINodeByRealPosition ipos s
      in if i_type node = INT_HARDLINK then inode_resolve node s else Some (node, s))"
  by (subst getINodeByPosition.simps)
     (simp add: inode_resolve_def getINodeByID_def Let_def split: prod.split)

text \<open>
  What a lookup by number means: the inode stored at the table's entry, and for a hard link
  the view of its target. The table is sound when every entry in use lies inside the file,
  and links are sound when no link points to a link, as \<^verbatim>\<open>AppLib::FS::link\<close> makes them.
\<close>

definition raw_by_id :: "disk \<Rightarrow> u16 \<Rightarrow> inode" where
  "raw_by_id d iid =
     (let p = lookup_at d iid
      in if p = 0 \<or> unat p < OFFSET_FSINFO then new_inode 0 INT_INVALID
         else inode_at d (unat p))"

definition link_target_view :: "disk \<Rightarrow> inode \<Rightarrow> inode" where
  "link_target_view d n =
     (if i_type n = INT_HARDLINK \<and> i_realid n \<noteq> 0
      then link_view n (raw_by_id d (i_realid n)) else n)"

definition node_by_id :: "disk \<Rightarrow> u16 \<Rightarrow> inode" where
  "node_by_id d iid = link_target_view d (raw_by_id d iid)"

definition table_ok :: "disk \<Rightarrow> bool" where
  "table_ok d \<longleftrightarrow> (\<forall>iid. lookup_at d iid \<noteq> 0 \<longrightarrow> unat (lookup_at d iid) + 4096 \<le> dsize d)"

definition links_ok :: "disk \<Rightarrow> bool" where
  "links_ok d \<longleftrightarrow>
     (\<forall>iid. i_type (raw_by_id d iid) = INT_HARDLINK \<longrightarrow>
        i_type (raw_by_id d (i_realid (raw_by_id d iid))) \<noteq> INT_HARDLINK)"

lemma getRealINodeByID_eq:
  "table_ok (fs_disk s) \<Longrightarrow> getRealINodeByID iid s = (raw_by_id (fs_disk s) iid, s)"
  by (auto simp: getRealINodeByID_def raw_by_id_def Let_def table_ok_def getINodeByRealPosition_eq)

lemma getINodeByPosition_plain:
  assumes "unat p + 4096 \<le> dsize (fs_disk s)"
    and "i_type (inode_at (fs_disk s) (unat p)) \<noteq> INT_HARDLINK"
  shows "getINodeByPosition p s = Some (inode_at (fs_disk s) (unat p), s)"
  using assms by (simp add: getINodeByPosition.simps getINodeByRealPosition_eq)

lemma getINodeByID_plain:
  assumes "table_ok (fs_disk s)" and "i_type (raw_by_id (fs_disk s) iid) \<noteq> INT_HARDLINK"
  shows "getINodeByID iid s = Some (raw_by_id (fs_disk s) iid, s)"
  using assms
  by (auto simp: getINodeByID_def raw_by_id_def Let_def table_ok_def intro!: getINodeByPosition_plain)

lemma getINodeByPosition_link:
  assumes "table_ok (fs_disk s)" and "links_ok (fs_disk s)"
    and "unat p + 4096 \<le> dsize (fs_disk s)"
    and "i_type (inode_at (fs_disk s) (unat p)) = INT_HARDLINK \<Longrightarrow>
         i_type (raw_by_id (fs_disk s) (i_realid (inode_at (fs_disk s) (unat p)))) \<noteq> INT_HARDLINK"
  shows "getINodeByPosition p s = Some (link_target_view (fs_disk s) (inode_at (fs_disk s) (unat p)), s)"
  using assms
  by (auto simp: getINodeByPosition_unfold getINodeByRealPosition_eq inode_resolve_def
      link_target_view_def getINodeByID_plain)

lemma getINodeByID_eq:
  assumes "table_ok (fs_disk s)" and "links_ok (fs_disk s)"
  shows "getINodeByID iid s = Some (node_by_id (fs_disk s) iid, s)"
proof (cases "lookup_at (fs_disk s) iid = 0 \<or> unat (lookup_at (fs_disk s) iid) < OFFSET_FSINFO")
  case True
  then show ?thesis
    by (auto simp: getINodeByID_def node_by_id_def raw_by_id_def link_target_view_def Let_def)
next
  case False
  let ?p = "lookup_at (fs_disk s) iid"
  have raw: "raw_by_id (fs_disk s) iid = inode_at (fs_disk s) (unat ?p)"
    using False by (auto simp: raw_by_id_def Let_def)
  have "getINodeByPosition ?p s
      = Some (link_target_view (fs_disk s) (inode_at (fs_disk s) (unat ?p)), s)"
  proof (rule getINodeByPosition_link[OF assms])
    show "unat ?p + 4096 \<le> dsize (fs_disk s)" using assms(1) False by (auto simp: table_ok_def)
    show "i_type (raw_by_id (fs_disk s) (i_realid (inode_at (fs_disk s) (unat ?p)))) \<noteq> INT_HARDLINK"
      if "i_type (inode_at (fs_disk s) (unat ?p)) = INT_HARDLINK"
      using assms(2) that raw unfolding links_ok_def by metis
  qed
  with False show ?thesis
    by (simp add: getINodeByID_def node_by_id_def raw Let_def)
qed

section \<open>Reservations and inode numbers\<close>

definition reserveINodeID :: "u16 \<Rightarrow> fsys \<Rightarrow> fsys" where
  "reserveINodeID iid s = s\<lparr>fs_reserved := fs_reserved s @ [iid]\<rparr>"

definition unreserveINodeID :: "u16 \<Rightarrow> fsys \<Rightarrow> fsys" where
  "unreserveINodeID iid s = s\<lparr>fs_reserved := remove1 iid (fs_reserved s)\<rparr>"

partial_function (option) free_inode_loop ::
    "u32 \<Rightarrow> u16 \<Rightarrow> fsys \<Rightarrow> ((u32 \<times> u16) \<times> fsys) option" where
  "free_inode_loop ipos count s =
     (if (ipos \<noteq> 0 \<and> unat count < 65535) \<or> count \<in> set (fs_reserved s)
      then (let (ipos, s) = fd_doR32 ipos s in free_inode_loop ipos (count + 1) s)
      else Some ((ipos, count), s))"

definition getFirstFreeINodeNumber :: "fsys \<Rightarrow> (u16 \<times> fsys) option" where
  "getFirstFreeINodeNumber s =
     (let old = tellg s;
          s = seekg OFFSET_LOOKUP s;
          (ipos, s) = fd_doR32 0 s
      in do { ((ipos, count), s) \<leftarrow> free_inode_loop ipos 0 s;
              Some (if count = 65535 \<and> ipos \<noteq> 0 then 0 else count, seekg old s) })"

lemma unat_Suc_u16: "unat (c :: u16) < 65535 \<Longrightarrow> unat (c + 1) = Suc (unat c)"
  by (simp add: unat_word_ariths)

lemma lookup_addr_Suc: "unat c < 65535 \<Longrightarrow> lookup_addr (c + 1) = lookup_addr c + 4"
  by (simp add: lookup_addr_def unat_Suc_u16)

text \<open>An inode number that the search must pass over.\<close>

definition inode_taken :: "fsys \<Rightarrow> u16 \<Rightarrow> bool" where
  "inode_taken s k \<longleftrightarrow> lookup_at (fs_disk s) k \<noteq> 0 \<or> k \<in> set (fs_reserved s)"

lemma free_inode_loop_result:
  assumes last: "65535 \<notin> set (fs_reserved s)" and size: "OFFSET_FSINFO \<le> dsize (fs_disk s)"
    and "unat c + n = 65535"
  shows "\<exists>k q. free_inode_loop (lookup_at (fs_disk s) c) c (fd_seek (lookup_addr c + 4) s)
                = Some ((lookup_at (fs_disk s) k, k), fd_seek q s)
            \<and> (\<forall>j. unat c \<le> unat j \<and> unat j < unat k \<longrightarrow> inode_taken s j)
            \<and> unat c \<le> unat k \<and> k \<notin> set (fs_reserved s)
            \<and> (k = 65535 \<or> lookup_at (fs_disk s) k = 0)"
  using assms(3)
proof (induction n arbitrary: c)
  case 0
  then have "c = 65535" by (simp add: word_unat_eq_iff)
  with last show ?case
    by (subst free_inode_loop.simps)
       (auto simp: fd_simps intro!: exI[of _ "65535 :: u16"] exI[of _ "lookup_addr c + 4"])
next
  case (Suc n)
  let ?d = "fs_disk s"
  show ?case
  proof (cases "inode_taken s c")
    case True
    have lt: "unat c < 65535" using Suc.prems by simp
    have inside: "lookup_addr (c + 1) + 4 \<le> dsize ?d"
      using lookup_addr_bounds[of "c + 1"] size by linarith
    have read: "fd_doR32 v (fd_seek (lookup_addr c + 4) s)
        = (lookup_at ?d (c + 1), fd_seek (lookup_addr (c + 1) + 4) s)" for v
      using inside by (simp add: fd_simps lookup_addr_Suc[OF lt] lookup_at_def add.assoc)
    have step: "free_inode_loop (lookup_at ?d c) c (fd_seek (lookup_addr c + 4) s)
        = free_inode_loop (lookup_at ?d (c + 1)) (c + 1) (fd_seek (lookup_addr (c + 1) + 4) s)"
      using True lt
      by (subst free_inode_loop.simps) (auto simp: inode_taken_def read fd_simps)
    have "unat (c + 1) + n = 65535" using Suc.prems unat_Suc_u16[OF lt] by simp
    from Suc.IH[OF this] obtain k q where
      IH: "free_inode_loop (lookup_at ?d (c + 1)) (c + 1) (fd_seek (lookup_addr (c + 1) + 4) s)
             = Some ((lookup_at ?d k, k), fd_seek q s)"
        "\<And>j. unat (c + 1) \<le> unat j \<Longrightarrow> unat j < unat k \<Longrightarrow> inode_taken s j"
        "unat (c + 1) \<le> unat k" "k \<notin> set (fs_reserved s)" "k = 65535 \<or> lookup_at ?d k = 0"
      by blast
    have "inode_taken s j" if "unat c \<le> unat j" "unat j < unat k" for j
    proof (cases "j = c")
      case False
      then have "unat c \<noteq> unat j" by (simp add: word_unat_eq_iff)
      then show ?thesis using IH(2) that unat_Suc_u16[OF lt] by simp
    qed (use True in simp)
    moreover have "unat c \<le> unat k" using IH(3) unat_Suc_u16[OF lt] by simp
    ultimately show ?thesis using IH step by (intro exI[of _ k] exI[of _ q]) simp
  next
    case False
    then show ?thesis
      by (subst free_inode_loop.simps)
         (auto simp: inode_taken_def fd_simps intro!: exI[of _ c] exI[of _ "lookup_addr c + 4"])
  qed
qed

text \<open>
  The search returns the least number that is neither in the table nor reserved, and 0 when
  there is none; the number 65535 itself must not be reserved (past it the 16-bit counter wraps).
\<close>

lemma getFirstFreeINodeNumber_result:
  assumes "65535 \<notin> set (fs_reserved s)" and "OFFSET_FSINFO \<le> dsize (fs_disk s)"
  obtains k where "\<And>j. unat j < unat k \<Longrightarrow> inode_taken s j"
    and "getFirstFreeINodeNumber s
         = Some (if k = 65535 \<and> inode_taken s k then 0 else k, s)"
    and "k = 65535 \<or> \<not> inode_taken s k"
proof -
  let ?d = "fs_disk s"
  have "lookup_addr 0 + 4 \<le> dsize ?d"
    using lookup_addr_bounds[of 0] assms(2) by linarith
  then have first: "fd_doR32 0 (fd_seek OFFSET_LOOKUP s)
      = (lookup_at ?d 0, fd_seek (lookup_addr 0 + 4) s)"
    by (simp add: fd_simps lookup_at_def lookup_addr_def)
  obtain k q where
    k: "free_inode_loop (lookup_at ?d 0) 0 (fd_seek (lookup_addr 0 + 4) s)
          = Some ((lookup_at ?d k, k), fd_seek q s)"
      "\<And>j. unat j < unat k \<Longrightarrow> inode_taken s j"
      "k \<notin> set (fs_reserved s)" "k = 65535 \<or> lookup_at ?d k = 0"
    using free_inode_loop_result[OF assms, of 0 65535] by auto
  show ?thesis
  proof (rule that)
    show "inode_taken s j" if "unat j < unat k" for j using k(2) that .
    show "getFirstFreeINodeNumber s = Some (if k = 65535 \<and> inode_taken s k then 0 else k, s)"
      using k(3) by (simp add: getFirstFreeINodeNumber_def first k(1) inode_taken_def fd_simps Let_def)
    show "k = 65535 \<or> \<not> inode_taken s k" using k(3,4) by (auto simp: inode_taken_def)
  qed
qed

end
