(* ===== verification/LowFS_Write.thy ===== *)
theory LowFS_Write
  imports LowFS_INode
begin

text \<open>
  Writing inodes (\<^verbatim>\<open>libapp/lowlevel/fs.cpp\<close>): \<^verbatim>\<open>writeINode\<close> for a new one, \<^verbatim>\<open>updateINode\<close>
  for one in the lookup table, \<^verbatim>\<open>updateRawINode\<close> for a freelist block and \<^verbatim>\<open>updateTimes\<close>;
  and the round trip between an inode, its bytes in the package and the inode read back.
\<close>

section \<open>The operations\<close>

definition writable_type :: "inodetype \<Rightarrow> bool" where
  "writable_type ty \<longleftrightarrow>
     ty = INT_FILEINFO \<or> ty = INT_SEGINFO \<or> ty = INT_SYMLINK \<or> ty = INT_FREELIST
     \<or> ty = INT_DEVICE \<or> ty = INT_HARDLINK"

definition tabled_type :: "inodetype \<Rightarrow> bool" where
  "tabled_type ty \<longleftrightarrow>
     ty = INT_FILEINFO \<or> ty = INT_SYMLINK \<or> ty = INT_DIRECTORY \<or> ty = INT_DEVICE
     \<or> ty = INT_HARDLINK"

text \<open>
  The padding loops run to \<^verbatim>\<open>BSIZE_FILE - data.length()\<close>; the representation never exceeds
  the block (\<open>repr_size_le\<close>), so the subtraction does not wrap.
\<close>

definition writeINode :: "u32 \<Rightarrow> inode \<Rightarrow> fsys \<Rightarrow> FSResult \<times> fsys" where
  "writeINode pos node s =
     (let res = checkINodePositionIsValid pos
      in if res \<noteq> E_SUCCESS then (res, s) else
      let (ipos, s) = (if i_type node \<noteq> INT_SEGINFO \<and> i_type node \<noteq> INT_FREELIST
                       then getINodePositionByID (i_inodeid node) s else (0, s))
      in if ipos \<noteq> 0 then (E_FAILURE_INODE_ALREADY_ASSIGNED, s)
      else if \<not> inode_verify node then (E_FAILURE_INODE_NOT_VALID, s)
      else
        let old = tellp s;
            data = getBinaryRepresentation node;
            s = seekp_ex (unat pos) s;
            s = fd_write data s
        in if \<not> writable_type (i_type node) \<and> i_type node \<noteq> INT_DIRECTORY
           then (E_FAILURE_INODE_NOT_VALID, s)
           else
             let s = (if writable_type (i_type node) then fd_zeros (BSIZE_FILE - length data) s
                      else fd_zeros (BSIZE_DIRECTORY - length data) s);
                 (sres, s) = (if tabled_type (i_type node)
                              then setINodePositionByID (i_inodeid node) pos s
                              else (E_SUCCESS, s))
             in if sres \<noteq> E_SUCCESS then (sres, s)
                else (E_SUCCESS, seekp_ex old (unreserveINodeID (i_inodeid node) s)))"

definition updateRawINode :: "inode \<Rightarrow> u32 \<Rightarrow> fsys \<Rightarrow> FSResult \<times> fsys" where
  "updateRawINode node pos s =
     (let res = checkINodePositionIsValid pos
      in if res \<noteq> E_SUCCESS then (res, s)
      else if i_type node \<noteq> INT_FREELIST then (E_FAILURE_INODE_NOT_VALID, s)
      else if \<not> inode_verify node then (E_FAILURE_INODE_NOT_VALID, s)
      else
        let old = tellp s;
            data = getBinaryRepresentation node;
            s = seekp_ex (unat pos) s;
            s = fd_write data s;
            s = seekp_ex old s
        in (E_SUCCESS, s))"

definition updateINode :: "inode \<Rightarrow> fsys \<Rightarrow> FSResult \<times> fsys" where
  "updateINode node s =
     (if i_type node \<noteq> INT_FILEINFO \<and> i_type node \<noteq> INT_DIRECTORY \<and>
         i_type node \<noteq> INT_SYMLINK \<and> i_type node \<noteq> INT_DEVICE \<and> i_type node \<noteq> INT_HARDLINK
      then (E_FAILURE_INODE_NOT_VALID, s) else
      let (pos, s) = getINodePositionByID (i_inodeid node) s
      in if pos = 0 then (E_FAILURE_INODE_NOT_ASSIGNED, s) else
      let res = checkINodePositionIsValid pos
      in if res \<noteq> E_SUCCESS then (res, s)
      else if \<not> inode_verify node then (E_FAILURE_INODE_NOT_VALID, s)
      else
        let old = tellp s;
            data = getBinaryRepresentation node;
            s = seekp_ex (unat pos) s;
            s = fd_write data s;
            (sres, s) = setINodePositionByID (i_inodeid node) pos s
        in if sres \<noteq> E_SUCCESS then (sres, s) else (E_SUCCESS, seekp_ex old s))"

definition updateTimes :: "u16 \<Rightarrow> bool \<Rightarrow> bool \<Rightarrow> bool \<Rightarrow> fsys \<Rightarrow> fsys option" where
  "updateTimes iid atime mtime ctime s =
     do { (node, s) \<leftarrow> getINodeByID iid s;
          let (node, s) = (if atime then let (t, s) = fs_now s in (node\<lparr>i_atime := t\<rparr>, s)
                           else (node, s));
          let (node, s) = (if mtime then let (t, s) = fs_now s in (node\<lparr>i_mtime := t\<rparr>, s)
                           else (node, s));
          let (node, s) = (if ctime then let (t, s) = fs_now s in (node\<lparr>i_ctime := t\<rparr>, s)
                           else (node, s));
          Some (snd (updateINode node s)) }"

section \<open>Valid positions\<close>

lemma sint_u32_eq: "sint (p :: u32) = (uint p + 2 ^ 31) mod 2 ^ 32 - 2 ^ 31"
  by (simp add: sint_uint signed_take_bit_eq_take_bit_shift take_bit_eq_mod)

lemma sint_u32_small: "unat (p :: u32) < 2 ^ 31 \<Longrightarrow> sint p = int (unat p)"
proof -
  assume small: "unat p < 2 ^ 31"
  obtain n where n: "unat p = n" "uint p = int n" by (metis uint_nat)
  then have "uint p < 2 ^ 31" using small by simp
  then show ?thesis by (simp add: sint_u32_eq)
qed

lemma sint_u32_large: "2 ^ 31 \<le> unat (p :: u32) \<Longrightarrow> sint p = int (unat p) - 2 ^ 32"
proof -
  assume large: "2 ^ 31 \<le> unat p"
  obtain n where n: "unat p = n" "uint p = int n" by (metis uint_nat)
  then have lo: "2 ^ 31 \<le> uint p" using large by simp
  have "unat p < 2 ^ 32" using unsigned_less[of p] by simp
  then have hi: "uint p < 2 ^ 32" using n by simp
  have "(uint p + 2 ^ 31) mod 2 ^ 32 = (uint p - 2 ^ 31 + 2 ^ 32) mod 2 ^ 32"
    by (simp add: algebra_simps)
  also have "\<dots> = uint p - 2 ^ 31" using lo hi by (simp only: mod_add_self2) simp
  finally have "sint p = uint p - 2 ^ 31 - 2 ^ 31" by (simp only: sint_u32_eq)
  then show ?thesis by simp
qed

lemma data_aligned: "(int n - 3411968) mod 4096 = 0 \<longleftrightarrow> n mod 4096 = 0"
proof -
  have "(int n - 3411968) mod 4096 = (int n + (- 833) * 4096) mod 4096" by simp
  also have "\<dots> = int (n mod 4096)" by (simp only: mod_mult_self1 zmod_int) simp
  finally show ?thesis by simp
qed
text \<open>What the check accepts: block boundaries in the data area, below 2 GiB.\<close>

lemma checkINodePositionIsValid_iff:
  "checkINodePositionIsValid p = E_SUCCESS \<longleftrightarrow>
     OFFSET_DATA \<le> unat p \<and> unat p < 2 ^ 31 \<and> unat p mod 4096 = 0"
proof (cases "unat p < 2 ^ 31")
  case True
  obtain n where n: "unat p = n" "sint p = int n" using sint_u32_small[OF True] by blast
  then show ?thesis
    using True by (auto simp: checkINodePositionIsValid_def config data_aligned)
next
  case False
  have "unat p < 2 ^ 32" using unsigned_less[of p] by simp
  obtain n where n: "unat p = n" "sint p = int n - 2 ^ 32"
    using sint_u32_large[of p] False by auto
  then have "sint p < 0" using \<open>unat p < 2 ^ 32\<close> by simp
  with False show ?thesis by (simp add: checkINodePositionIsValid_def)
qed

section \<open>Round trip through the package\<close>

text \<open>What of an inode its type lets it store; the rest is as the constructor leaves it.\<close>

definition stored_head :: "inode \<Rightarrow> inode" where
  "stored_head n = (new_inode 0 INT_INVALID)\<lparr>i_inodeid := i_inodeid n, i_type := i_type n\<rparr>"

definition stored_named :: "inode \<Rightarrow> inode \<Rightarrow> inode" where
  "stored_named n m =
     (let m = m\<lparr>i_filename :=
                (if (i_type n = INT_FILEINFO \<or> i_type n = INT_DEVICE) \<and> i_realid n \<noteq> 0
                 then i_realfilename n else i_filename n)\<rparr>;
          m = (if i_type n \<noteq> INT_HARDLINK then
                 m\<lparr>i_uid := i_uid n, i_gid := i_gid n, i_mask := i_mask n,
                   i_atime := i_atime n, i_mtime := i_mtime n, i_ctime := i_ctime n\<rparr>
               else m)
      in if has_data_fields (i_type n) then
           m\<lparr>i_dev := i_dev n, i_rdev := i_rdev n, i_nlink := i_nlink n,
             i_blocks := i_blocks n, i_dat_len := i_dat_len n, i_info_next := i_info_next n\<rparr>
         else if i_type n = INT_DIRECTORY then
           m\<lparr>i_parent := i_parent n, i_children_count := i_children_count n,
             i_children := i_children n\<rparr>
         else if i_type n = INT_HARDLINK then m\<lparr>i_realid := i_realid n\<rparr>
         else m)"

definition stored :: "inode \<Rightarrow> inode" where
  "stored n =
     (let m = stored_head n
      in if i_type n = INT_SEGINFO then m\<lparr>i_info_next := i_info_next n\<rparr>
         else if i_type n = INT_FREELIST then m\<lparr>i_flst_next := i_flst_next n\<rparr>
         else if i_type n = INT_FSINFO then
           m\<lparr>i_fs_name := i_fs_name n, i_ver_major := i_ver_major n,
             i_ver_minor := i_ver_minor n, i_ver_revision := i_ver_revision n,
             i_app_name := i_app_name n, i_app_ver := i_app_ver n,
             i_app_desc := i_app_desc n, i_app_author := i_app_author n,
             i_pos_root := i_pos_root n, i_pos_freelist := i_pos_freelist n\<rparr>
         else stored_named n m)"

lemma at_put_inside:
  assumes "p \<le> q"
  shows "q + 2 \<le> p + length bs \<Longrightarrow> u16_at (put_bytes p bs d) q = le_dec (take 2 (drop (q - p) bs))"
    and "q + 4 \<le> p + length bs \<Longrightarrow> u32_at (put_bytes p bs d) q = le_dec (take 4 (drop (q - p) bs))"
    and "q + 8 \<le> p + length bs \<Longrightarrow> u64_at (put_bytes p bs d) q = le_dec (take 8 (drop (q - p) bs))"
  using assms by (simp_all add: u16_at_def u32_at_def u64_at_def dsk.slice_put_inside)

lemma inode_at_head_type:
  assumes "inode_wf n" and "4 \<le> length (getBinaryRepresentation n @ rest)"
  shows "head_at (put_bytes p (getBinaryRepresentation n @ rest) d) p = stored_head n"
proof -
  have ty: "named_type (i_type n)" using assms(1) by (simp add: inode_wf_def)
  obtain tl where rep: "getBinaryRepresentation n @ rest
      = enc16 (i_inodeid n) @ enc16 (type_code (i_type n)) @ tl"
    by (simp add: getBinaryRepresentation_def)
  show ?thesis
    using ty by (simp add: rep head_at_def stored_head_def at_put_inside del: add_2_eq_Suc')
qed

lemma at_put_offset:
  "k + 2 \<le> length bs \<Longrightarrow> u16_at (put_bytes p bs d) (p + k) = le_dec (take 2 (drop k bs))"
  "k + 4 \<le> length bs \<Longrightarrow> u32_at (put_bytes p bs d) (p + k) = le_dec (take 4 (drop k bs))"
  "k + 8 \<le> length bs \<Longrightarrow> u64_at (put_bytes p bs d) (p + k) = le_dec (take 8 (drop k bs))"
  "k + n \<le> length bs \<Longrightarrow>
     slice (byte_at (put_bytes p bs d)) (p + k) n = take n (drop k bs)"
  using at_put_inside[of p "p + k" bs d] dsk.slice_put_inside[of p "p + k" n bs d]
  by simp_all

lemma inode_at_bytes:
  assumes wf: "inode_wf n"
    and verify: "i_type n \<noteq> INT_SEGINFO \<Longrightarrow> i_type n \<noteq> INT_FREELIST \<Longrightarrow>
      i_type n \<noteq> INT_FSINFO \<Longrightarrow> inode_verify (stored n)"
    and rep: "bs = getBinaryRepresentation n @ rest"
    and len: "length bs = repr_size (i_type n) + length rest"
    and head: "head_at (put_bytes p bs d) p = stored_head n"
  shows "inode_at (put_bytes p bs d) p = stored n"
proof -
  note sizes = wf[unfolded inode_wf_def]
  show ?thesis
    using len sizes verify
    by (cases "i_type n";
        (simp add: inode_at_def head named_at_def stored_head_def at_put_offset
          del: add_2_eq_Suc')?;
        (simp add: getBinaryRepresentation_def stored_def stored_named_def has_data_fields_def
          Let_def rep stored_head_def config)?)
qed

lemma inode_at_getBinaryRepresentation:
  assumes wf: "inode_wf n"
    and verify: "i_type n \<noteq> INT_SEGINFO \<Longrightarrow> i_type n \<noteq> INT_FREELIST \<Longrightarrow>
      i_type n \<noteq> INT_FSINFO \<Longrightarrow> inode_verify (stored n)"
  shows "inode_at (put_bytes p (getBinaryRepresentation n @ rest) d) p = stored n"
proof (rule inode_at_bytes[OF wf verify refl])
  have len: "length (getBinaryRepresentation n) = repr_size (i_type n)"
    by (rule length_getBinaryRepresentation[OF wf])
  then show "length (getBinaryRepresentation n @ rest) = repr_size (i_type n) + length rest"
    by simp
  have "4 \<le> repr_size (i_type n)" by (cases "i_type n") simp_all
  with len show "head_at (put_bytes p (getBinaryRepresentation n @ rest) d) p = stored_head n"
    by (intro inode_at_head_type[OF wf]) simp
qed

section \<open>Closed forms of the writing operations\<close>

definition block_image :: "inode \<Rightarrow> byte list" where
  "block_image n =
     getBinaryRepresentation n @ replicate (4096 - length (getBinaryRepresentation n)) 0"

lemma length_block_image: "inode_wf n \<Longrightarrow> length (block_image n) = 4096"
  using repr_size_le[of "i_type n"] by (simp add: block_image_def length_getBinaryRepresentation)

lemma fd_tell_reserved [fd_simps]: "fd_tell (unreserveINodeID i s) = fd_tell s"
  by (simp add: fd_tell_def unreserveINodeID_def)

lemma unreserve_frame [fd_simps]:
  "fs_disk (unreserveINodeID i s) = fs_disk s" "fs_cache (unreserveINodeID i s) = fs_cache s"
  "fs_clock (unreserveINodeID i s) = fs_clock s" "fs_ticks (unreserveINodeID i s) = fs_ticks s"
  "fs_reserved (unreserveINodeID i s) = remove1 i (fs_reserved s)"
  "unreserveINodeID i (fd_seek p s) = fd_seek p (unreserveINodeID i s)"
  by (simp_all add: unreserveINodeID_def fd_seek_def)

text \<open>A new inode of a tabled type: its block, its table entry, its reservation gone.\<close>

lemma writeINode_tabled:
  assumes pos: "checkINodePositionIsValid pos = E_SUCCESS" and ver: "inode_verify n"
    and ty: "tabled_type (i_type n)" and free: "lookup_at (fs_disk s) (i_inodeid n) = 0"
  shows "writeINode pos n s =
    (E_SUCCESS, unreserveINodeID (i_inodeid n)
       (fs_put (lookup_addr (i_inodeid n)) (enc32 pos) (fs_put (unat pos) (block_image n) s)))"
  using assms
  by (auto simp: writeINode_def tabled_type_def writable_type_def Let_def setINodePositionByID_eq
      config block_image_def fd_simps)

lemma writeINode_freelist:
  assumes pos: "checkINodePositionIsValid pos = E_SUCCESS" and ty: "i_type n = INT_FREELIST"
  shows "writeINode pos n s =
    (E_SUCCESS, unreserveINodeID (i_inodeid n) (fs_put (unat pos) (block_image n) s))"
  using assms
  by (simp add: writeINode_def tabled_type_def writable_type_def Let_def config
      block_image_def fd_simps inode_verify_def)

lemma updateRawINode_freelist:
  assumes pos: "checkINodePositionIsValid pos = E_SUCCESS" and ty: "i_type n = INT_FREELIST"
  shows "updateRawINode n pos s = (E_SUCCESS, fs_put (unat pos) (getBinaryRepresentation n) s)"
  using assms by (simp add: updateRawINode_def inode_verify_def Let_def fd_simps)

lemma lookup_put_self: "u32_at d p = v \<Longrightarrow> p + 4 \<le> dsize d \<Longrightarrow> byte_at (put_bytes p (enc32 v) d) = byte_at d"
proof -
  assume v: "u32_at d p = v" and sz: "p + 4 \<le> dsize d"
  have "enc32 v = slice (byte_at d) p 4"
    using v le_enc_dec[where 'a = 32, of 4 "slice (byte_at d) p 4"] by (simp add: u32_at_def)
  then show ?thesis
    using dsk.get_put_slice[of p d 4] by (simp add: fun_eq_iff)
qed

lemma updateINode_ok:
  assumes ty: "tabled_type (i_type n)" and ver: "inode_verify n"
    and pos: "lookup_at (fs_disk s) (i_inodeid n) = p" "p \<noteq> 0"
      "checkINodePositionIsValid p = E_SUCCESS"
  shows "updateINode n s =
    (E_SUCCESS, fs_put (lookup_addr (i_inodeid n)) (enc32 p)
                  (fs_put (unat p) (getBinaryRepresentation n) s))"
  using assms
  by (auto simp: updateINode_def tabled_type_def Let_def setINodePositionByID_eq fd_simps)

end
