(* ===== verification/FreeList.thy ===== *)
theory FreeList
  imports LowFS_Write
begin

text \<open>
  \<^verbatim>\<open>LowLevel::FreeList\<close> (\<^verbatim>\<open>libapp/lowlevel/freelist.cpp\<close>): the chain of freelist blocks in
  the package, the \<^verbatim>\<open>position_cache\<close> built from it, and allocation and release of blocks.

  A freelist block holds the position of the next one at offset 4 and 1022 entries of four
  bytes from offset 8 on; a non-zero entry is the position of a free block. The cache maps the
  address of an entry to its value (the comment in \<^verbatim>\<open>freelist.h\<close> states the two the other way
  round) and is kept here as the sorted list a \<^verbatim>\<open>std::map\<close> iterates over.
\<close>

section \<open>std::map on sorted association lists\<close>

text \<open>\<^verbatim>\<open>std::map::insert\<close> keeps the old value of a key that is present.\<close>

fun map_insert :: "'k::linorder \<Rightarrow> 'v \<Rightarrow> ('k \<times> 'v) list \<Rightarrow> ('k \<times> 'v) list" where
  "map_insert k v [] = [(k, v)]"
| "map_insert k v ((k', v') # xs) =
     (if k < k' then (k, v) # (k', v') # xs
      else if k = k' then (k', v') # xs
      else (k', v') # map_insert k v xs)"

definition sorted_map :: "('k::linorder \<times> 'v) list \<Rightarrow> bool" where
  "sorted_map xs \<longleftrightarrow> sorted (map fst xs) \<and> distinct (map fst xs)"

lemma keys_map_insert: "fst ` set (map_insert k v xs) = insert k (fst ` set xs)"
  by (induction xs rule: map_insert.induct) auto

lemma sorted_map_Cons:
  "sorted_map ((k, v) # xs) \<longleftrightarrow> sorted_map xs \<and> (\<forall>k' \<in> fst ` set xs. k < k')"
  by (auto simp: sorted_map_def order.strict_iff_order)

lemma sorted_map_Nil [simp]: "sorted_map []"
  by (simp add: sorted_map_def)

lemma sorted_map_insert: "sorted_map xs \<Longrightarrow> sorted_map (map_insert k v xs)"
proof (induction xs rule: map_insert.induct)
  case (2 k v k' v' xs)
  then show ?case by (auto simp: sorted_map_Cons keys_map_insert)
qed (simp add: sorted_map_Cons)

lemma set_map_insert:
  "sorted_map xs \<Longrightarrow> set (map_insert k v xs) = (if k \<in> fst ` set xs then set xs else insert (k, v) (set xs))"
proof (induction xs rule: map_insert.induct)
  case (2 k v k' v' xs)
  then show ?case by (auto simp: sorted_map_Cons)
qed simp

text \<open>The contract of a \<^verbatim>\<open>std::map\<close> as the free list uses it.\<close>

locale ordered_map =
  fixes entries :: "'m \<Rightarrow> ('k::linorder \<times> 'v) set" and ins :: "'k \<Rightarrow> 'v \<Rightarrow> 'm \<Rightarrow> 'm"
    and inv :: "'m \<Rightarrow> bool"
  assumes ins_inv: "inv m \<Longrightarrow> inv (ins k v m)"
    and ins_entries: "inv m \<Longrightarrow> entries (ins k v m)
       = (if k \<in> fst ` entries m then entries m else insert (k, v) (entries m))"
begin

lemma ins_keeps: "inv m \<Longrightarrow> e \<in> entries m \<Longrightarrow> e \<in> entries (ins k v m)"
  by (simp add: ins_entries)

lemma ins_new: "inv m \<Longrightarrow> k \<notin> fst ` entries m \<Longrightarrow> (k, v) \<in> entries (ins k v m)"
  by (simp add: ins_entries)

lemma ins_only: "inv m \<Longrightarrow> e \<in> entries (ins k v m) \<Longrightarrow> e = (k, v) \<or> e \<in> entries m"
  by (auto simp: ins_entries split: if_splits)

lemma ins_keys: "inv m \<Longrightarrow> fst ` entries (ins k v m) = insert k (fst ` entries m)"
  by (auto simp: ins_entries)

end

interpretation pcache: ordered_map set map_insert sorted_map
  by unfold_locales (simp_all add: sorted_map_insert set_map_insert)

section \<open>Allocation\<close>

text \<open>
  \<^verbatim>\<open>fsize / 4096.0f\<close> first converts the 32-bit size to \<^verbatim>\<open>float\<close>, which keeps 24 significant
  bits (round to nearest, ties to even); the division by a power of two and the \<^verbatim>\<open>ceil\<close> in
  \<^verbatim>\<open>double\<close> are exact.
\<close>

fun float_exp :: "nat \<Rightarrow> nat" where
  "float_exp n = (if n < 2 ^ 24 then 0 else Suc (float_exp (n div 2)))"

declare float_exp.simps [simp del]

definition to_float :: "nat \<Rightarrow> nat" where
  "to_float n =
     (let e = float_exp n; q = n div 2 ^ e; r = n mod 2 ^ e
      in (if 2 * r > 2 ^ e \<or> (2 * r = 2 ^ e \<and> odd q) then q + 1 else q) * 2 ^ e)"

definition align_up :: "nat \<Rightarrow> u32" where
  "align_up fsize = of_nat ((to_float fsize + 4095) div 4096 * 4096)"

definition fd_seek_end :: "fsys \<Rightarrow> fsys" where
  "fd_seek_end s = s\<lparr>fs_disk := disk_seek_end 0 (fs_disk s)\<rparr>"

definition allocateBlock :: "fsys \<Rightarrow> u32 \<times> fsys" where
  "allocateBlock s =
     (case fs_cache s of
        [] \<Rightarrow>
          let oldg = tellg s;
              s = fd_seek_end s;
              fsize = (of_nat (tellg s) :: u32);
              s = seekg oldg s;
              alignedpos = align_up (unat fsize);
              oldp = tellp s;
              s = seekp (unat alignedpos) s;
              s = fd_zeros 4096 s;
              s = seekp oldp s
          in (alignedpos, s)
      | (ifirst, isecond) # rest \<Rightarrow>
          let oldp = tellp s;
              s = seekp (unat ifirst) s;
              s = fd_doW32 isecond s;
              s = seekp oldp s
          in (isecond, s\<lparr>fs_cache := rest\<rparr>))"

section \<open>Finding an entry\<close>

text \<open>\<^verbatim>\<open>for (int i = 8; i < 4096; i += 4)\<close>\<close>

definition entry_offsets :: "nat list" where
  "entry_offsets = map (\<lambda>k. 8 + 4 * k) [0..<1022]"

fun scan_entries :: "u32 \<Rightarrow> u32 \<Rightarrow> nat list \<Rightarrow> u32 \<Rightarrow> fsys \<Rightarrow> (u32 option \<times> u32) \<times> fsys" where
  "scan_entries pos fpos [] tpos s = ((None, tpos), s)"
| "scan_entries pos fpos (i # is) tpos s =
     (let s = seekg (unat (fpos + of_nat i)) s;
          (tpos, s) = fd_doR32 tpos s
      in if tpos = pos then ((Some (fpos + of_nat i), tpos), s)
         else scan_entries pos fpos is tpos s)"

partial_function (option) search_list ::
    "u32 \<Rightarrow> u32 \<Rightarrow> u32 \<Rightarrow> fsys \<Rightarrow> (u32 option \<times> fsys) option" where
  "search_list pos fpos tpos s =
     (if fpos = 0 then Some (None, s)
      else
        let ((found, tpos), s) = scan_entries pos fpos entry_offsets tpos s
        in case found of
             Some a \<Rightarrow> Some (Some a, s)
           | None \<Rightarrow>
               let s = seekg (unat (fpos + 4)) s;
                   (fpos, s) = fd_doR32 fpos s
               in search_list pos fpos tpos s)"

text \<open>\<^verbatim>\<open>while (lpos != 0)\<close>: the last freelist block of the chain.\<close>

partial_function (option) last_list_block ::
    "u32 \<Rightarrow> u32 \<Rightarrow> fsys \<Rightarrow> (u32 \<times> fsys) option" where
  "last_list_block lpos llpos s =
     (if lpos = 0 then Some (llpos, s)
      else do { (node, s') \<leftarrow> getINodeByPosition lpos s;
                last_list_block (i_flst_next node) lpos s' })"

text \<open>The branch of \<^verbatim>\<open>getIndexInList\<close> that makes a new freelist block.\<close>

definition extendList :: "inode \<Rightarrow> u32 \<Rightarrow> nat \<Rightarrow> fsys \<Rightarrow> (u32 \<times> fsys) option" where
  "extendList fsinfo availPos oldg s =
     (let (fpos, s) = (if availPos = 0 then allocateBlock s else (availPos, s))
      in if fpos = 0 then Some (0, seekg oldg s)
      else
        let (res, s) = writeINode fpos (new_inode 0 INT_FREELIST) s
        in if res \<noteq> E_SUCCESS then Some (0, seekg oldg s)
        else do {
          (ok, s) \<leftarrow>
            (if i_pos_freelist fsinfo = 0 then
               (let fsinfo = fsinfo\<lparr>i_pos_freelist := fpos\<rparr>;
                    s = seekp OFFSET_FSINFO s;
                    s = fd_write (getBinaryRepresentation fsinfo) s
                in Some (True, s))
             else
               do { (llpos, s) \<leftarrow> last_list_block (i_pos_freelist fsinfo) (i_pos_freelist fsinfo) s;
                    (onode, s) \<leftarrow> getINodeByPosition llpos s;
                    let (res, s) = updateRawINode (onode\<lparr>i_flst_next := fpos\<rparr>) llpos s;
                    Some (res = E_SUCCESS, s) });
          if \<not> ok then Some (0, seekg oldg s)
          else Some (if fpos = availPos then 1 else fpos + of_nat HSIZE_FREELIST, seekg oldg s) })"

definition getIndexInList :: "u32 \<Rightarrow> u32 \<Rightarrow> fsys \<Rightarrow> (u32 \<times> fsys) option" where
  "getIndexInList pos availPos s =
     do { (fsinfo, s) \<leftarrow> getINodeByPosition (of_nat OFFSET_FSINFO) s;
          let oldg = tellg s;
          (found, s) \<leftarrow> search_list pos (i_pos_freelist fsinfo) 0 s;
          case found of
            Some a \<Rightarrow> Some (a, seekg oldg s)
          | None \<Rightarrow>
              if pos = 0 then extendList fsinfo availPos oldg s
              else Some (0, seekg oldg s) }"

definition getIndexInList1 :: "u32 \<Rightarrow> fsys \<Rightarrow> (u32 \<times> fsys) option" where
  "getIndexInList1 pos s = getIndexInList pos 0 s"

section \<open>Release and queries\<close>

definition freeBlock :: "u32 \<Rightarrow> fsys \<Rightarrow> fsys option" where
  "freeBlock pos s =
     do { (dpos, s) \<leftarrow> getIndexInList 0 pos s;
          if dpos = 1 then Some s
          else
            let s = (if dpos \<noteq> 0 then
                       let oldg = tellg s;
                           s = seekp (unat dpos) s;
                           s = fd_doW32 pos s
                       in seekg oldg s
                     else s)
            in Some (s\<lparr>fs_cache := map_insert dpos pos (fs_cache s)\<rparr>) }"

definition isBlockFree :: "u32 \<Rightarrow> fsys \<Rightarrow> bool" where
  "isBlockFree pos s \<longleftrightarrow> (\<exists>e \<in> set (fs_cache s). fst e = pos)"

definition getBlockType :: "u32 \<Rightarrow> inodetype" where
  "getBlockType pos = INT_INVALID"

section \<open>Rebuilding the cache\<close>

fun collect_entries :: "u32 \<Rightarrow> nat list \<Rightarrow> u32 \<Rightarrow> fsys \<Rightarrow> u32 \<times> fsys" where
  "collect_entries fpos [] tpos s = (tpos, s)"
| "collect_entries fpos (i # is) tpos s =
     (let s = seekg (unat (fpos + of_nat i)) s;
          (tpos, s) = fd_doR32 tpos s;
          s = (if tpos \<noteq> 0
               then s\<lparr>fs_cache := map_insert (fpos + of_nat i) tpos (fs_cache s)\<rparr> else s)
      in collect_entries fpos is tpos s)"

partial_function (option) collect_list :: "u32 \<Rightarrow> u32 \<Rightarrow> fsys \<Rightarrow> fsys option" where
  "collect_list fpos tpos s =
     (if fpos = 0 then Some s
      else
        let (tpos, s) = collect_entries fpos entry_offsets tpos s
        in do { (node, s) \<leftarrow> getINodeByPosition fpos s;
                collect_list (i_flst_next node) tpos s })"

definition syncronizeCache :: "fsys \<Rightarrow> fsys option" where
  "syncronizeCache s =
     (let s = s\<lparr>fs_cache := []\<rparr>
      in do { (fsinfo, s) \<leftarrow> getINodeByPosition (of_nat OFFSET_FSINFO) s;
              if i_pos_freelist fsinfo = 0 then Some s
              else do { let oldg = tellg s;
                        s \<leftarrow> collect_list (i_pos_freelist fsinfo) 0 s;
                        Some (seekg oldg s) } })"

text \<open>\<^verbatim>\<open>FreeList::FreeList\<close>: opening a package builds the cache from the chain.\<close>

definition FreeList_new :: "disk \<Rightarrow> (nat \<Rightarrow> u64) \<Rightarrow> fsys option" where
  "FreeList_new d clk =
     syncronizeCache \<lparr>fs_disk = d, fs_cache = [], fs_reserved = [], fs_clock = clk, fs_ticks = 0\<rparr>"

end
