(* ===== verification/FreeList_Chain.thy ===== *)
theory FreeList_Chain
  imports FreeList
begin

text \<open>
  The freelist chain of a package as a list of blocks, and what the loops of \<^verbatim>\<open>FreeList\<close>
  compute on it: the first entry with a given value, the last block, and the rebuilt cache.
\<close>

section \<open>The chain on disk\<close>

definition block_ok :: "disk \<Rightarrow> u32 \<Rightarrow> bool" where
  "block_ok d b \<longleftrightarrow> checkINodePositionIsValid b = E_SUCCESS \<and> unat b + 4096 \<le> dsize d"

fun fl_chain :: "disk \<Rightarrow> u32 \<Rightarrow> u32 list \<Rightarrow> bool" where
  "fl_chain d p [] \<longleftrightarrow> p = 0"
| "fl_chain d p (b # bs) \<longleftrightarrow>
     p = b \<and> block_ok d b \<and> type_of_code (u16_at d (unat b + 2)) = INT_FREELIST
     \<and> fl_chain d (u32_at d (unat b + 4)) bs"

definition fsinfo_ok :: "disk \<Rightarrow> bool" where
  "fsinfo_ok d \<longleftrightarrow>
     type_of_code (u16_at d (OFFSET_FSINFO + 2)) = INT_FSINFO \<and> OFFSET_DATA \<le> dsize d"

definition fl_head :: "disk \<Rightarrow> u32" where
  "fl_head d = u32_at d (OFFSET_FSINFO + 1592)"

definition slot_addrs :: "u32 \<Rightarrow> u32 list" where
  "slot_addrs b = map (\<lambda>i. b + of_nat i) entry_offsets"

definition fl_slots :: "u32 list \<Rightarrow> u32 list" where
  "fl_slots bs = concat (map slot_addrs bs)"

lemma block_okD:
  assumes "block_ok d b"
  shows "OFFSET_DATA \<le> unat b" and "unat b < 2 ^ 31" and "unat b mod 4096 = 0"
    and "unat b + 4096 \<le> dsize d" and "b \<noteq> 0"
  using assms by (auto simp: block_ok_def checkINodePositionIsValid_iff config)

lemma fl_chain_0 [simp]: "fl_chain d 0 bs \<longleftrightarrow> bs = []"
  by (cases bs) (auto dest: block_okD)

lemma unat_of_nat_small: "n < 2 ^ 32 \<Longrightarrow> unat (of_nat n :: u32) = n"
  by (simp add: unat_of_nat take_bit_eq_mod)

lemma unat_block_plus:
  assumes "block_ok d b" and "i \<le> 4096"
  shows "unat (b + of_nat i) = unat b + i"
proof -
  have "unat (of_nat i :: u32) = i" using assms(2) by (intro unat_of_nat_small) simp
  then show ?thesis
    using block_okD(2)[OF assms(1)] assms(2) by (simp add: unat_word_ariths)
qed

lemma entry_offsets_range: "i \<in> set entry_offsets \<Longrightarrow> 8 \<le> i \<and> i + 4 \<le> 4096"
  by (auto simp: entry_offsets_def)

lemma aligned_apart:
  "unat a mod 4096 = 0 \<Longrightarrow> unat b mod 4096 = 0 \<Longrightarrow> (a :: u32) \<noteq> b \<Longrightarrow>
   unat a + 4096 \<le> unat b \<or> unat b + 4096 \<le> unat a"
proof -
  assume a: "unat a mod 4096 = 0" and b: "unat b mod 4096 = 0" and ne: "a \<noteq> b"
  define i j where "i = unat a div 4096" and "j = unat b div 4096"
  have ij: "unat a = 4096 * i" "unat b = 4096 * j"
    using a b by (auto simp: i_def j_def)
  with ne have "i \<noteq> j" by (auto simp: word_unat_eq_iff)
  then have "Suc i \<le> j \<or> Suc j \<le> i" by linarith
  then show ?thesis using ij by auto
qed

lemma fl_chain_block_ok: "fl_chain d p bs \<Longrightarrow> b \<in> set bs \<Longrightarrow> block_ok d b"
  by (induction bs arbitrary: p) auto

lemma slot_of_block:
  assumes "a \<in> set (slot_addrs b)" and "block_ok d b"
  obtains i where "a = b + of_nat i" and "unat a = unat b + i" and "8 \<le> i" and "i + 4 \<le> 4096"
  using assms entry_offsets_range unat_block_plus[OF assms(2)]
  by (fastforce simp: slot_addrs_def)

text \<open>The chain depends only on the type and link fields of its blocks.\<close>

lemma fl_chain_cong:
  assumes "fl_chain d p bs" and "dsize d \<le> dsize e"
    and "\<And>b a. b \<in> set bs \<Longrightarrow> unat b \<le> a \<Longrightarrow> a < unat b + 8 \<Longrightarrow> byte_at e a = byte_at d a"
  shows "fl_chain e p bs"
  using assms(1,3)
proof (induction bs arbitrary: p)
  case (Cons b bs)
  have "slice (byte_at e) (unat b + 2) 2 = slice (byte_at d) (unat b + 2) 2"
    and "slice (byte_at e) (unat b + 4) 4 = slice (byte_at d) (unat b + 4) 4"
    by (rule slice_cong, rule Cons.prems(2)[of b], simp, simp, simp)+
  then have "u16_at e (unat b + 2) = u16_at d (unat b + 2)"
    and "u32_at e (unat b + 4) = u32_at d (unat b + 4)"
    by (simp_all add: u16_at_def u32_at_def)
  with Cons show ?case using assms(2) by (auto simp: block_ok_def)
qed simp

section \<open>The FSInfo inode\<close>

lemma unat_OFFSET_FSINFO: "unat (of_nat OFFSET_FSINFO :: u32) = OFFSET_FSINFO"
  by (rule unat_of_nat_small) (simp add: config)

lemma inode_at_fsinfo:
  assumes "fsinfo_ok d"
  shows "i_type (inode_at d OFFSET_FSINFO) = INT_FSINFO"
    and "i_pos_freelist (inode_at d OFFSET_FSINFO) = fl_head d"
    and "inode_wf (inode_at d OFFSET_FSINFO)"
  using assms
  by (simp_all add: inode_at_def head_at_def fsinfo_ok_def fl_head_def inode_wf_def config Let_def)

lemma get_fsinfo:
  assumes "fsinfo_ok (fs_disk s)"
  shows "getINodeByPosition (of_nat OFFSET_FSINFO) s = Some (inode_at (fs_disk s) OFFSET_FSINFO, s)"
  using assms inode_at_fsinfo(1)[OF assms]
  by (subst getINodeByPosition_plain)
     (simp_all add: unat_OFFSET_FSINFO fsinfo_ok_def, simp add: config)

lemma get_list_block:
  assumes "block_ok (fs_disk s) b" and "type_of_code (u16_at (fs_disk s) (unat b + 2)) = INT_FREELIST"
  shows "getINodeByPosition b s = Some (inode_at (fs_disk s) (unat b), s)"
    and "i_flst_next (inode_at (fs_disk s) (unat b)) = u32_at (fs_disk s) (unat b + 4)"
    and "i_type (inode_at (fs_disk s) (unat b)) = INT_FREELIST"
  using assms block_okD(4)[OF assms(1)]
  by (simp_all add: getINodeByPosition_plain inode_at_def head_at_def Let_def)

section \<open>What the loops compute\<close>

lemma scan_entries_result:
  assumes b: "block_ok (fs_disk s) b" and "\<And>i. i \<in> set is \<Longrightarrow> i + 4 \<le> 4096"
  shows "\<exists>t q. scan_entries pos b is tpos s
      = ((find (\<lambda>a. u32_at (fs_disk s) (unat a) = pos) (map (\<lambda>i. b + of_nat i) is), t), fd_seek q s)"
  using assms
proof (induction "is" arbitrary: tpos s)
  case Nil
  show ?case by (auto simp: fd_simps intro!: exI[of _ "fd_tell s"])
next
  case (Cons i "is")
  let ?p = "unat b + i"
  have at: "unat (b + of_nat i) = ?p" 
    by (rule unat_block_plus[OF Cons.prems(1)]) (use Cons.prems(2)[of i] in simp)
  have "?p + 4 \<le> dsize (fs_disk s)" using block_okD(4)[OF Cons.prems(1)] Cons.prems(2)[of i] by simp
  then have read: "fd_doR32 tpos (fd_seek ?p s) = (u32_at (fs_disk s) ?p, fd_seek (?p + 4) s)"
    by (rule fd_doR32_seek)
  have "\<exists>t q. scan_entries pos b is (u32_at (fs_disk s) ?p) (fd_seek (?p + 4) s)
      = ((find (\<lambda>a. u32_at (fs_disk s) (unat a) = pos) (map (\<lambda>i. b + of_nat i) is), t), fd_seek q s)"
    using Cons.IH[of "fd_seek (?p + 4) s" "u32_at (fs_disk s) ?p"] Cons.prems
    by (simp add: fd_simps disk_simps block_ok_def)
  then show ?case by (auto simp: at read Let_def)
qed

lemma fd_seek_cases: "\<exists>q'. fd_seek p (fd_seek q s) = fd_seek q' s"
  by (auto simp: fd_simps)

lemma search_list_result:
  assumes "fl_chain (fs_disk s) p bs"
  shows "\<exists>q. search_list pos p tpos s
      = Some (find (\<lambda>a. u32_at (fs_disk s) (unat a) = pos) (fl_slots bs), fd_seek q s)"
  using assms
proof (induction bs arbitrary: p tpos s)
  case Nil
  then show ?case
    by (subst search_list.simps) (auto simp: fl_slots_def fd_simps intro!: exI[of _ "fd_tell s"])
next
  case (Cons b bs)
  then have b: "p = b" "block_ok (fs_disk s) b" "fl_chain (fs_disk s) (u32_at (fs_disk s) (unat b + 4)) bs"
    by auto
  obtain t q where scan: "scan_entries pos b entry_offsets tpos s
      = ((find (\<lambda>a. u32_at (fs_disk s) (unat a) = pos) (slot_addrs b), t), fd_seek q s)"
    using scan_entries_result[OF b(2), of entry_offsets pos tpos] entry_offsets_range
    by (auto simp: slot_addrs_def)
  show ?case
  proof (cases "find (\<lambda>a. u32_at (fs_disk s) (unat a) = pos) (slot_addrs b)")
    case (Some a)
    then show ?thesis
      using b block_okD(5)[OF b(2)]
      by (subst search_list.simps) (auto simp: scan Let_def fl_slots_def find_append_Some intro!: exI[of _ q])
  next
    case None
    have at: "unat (b + 4) = unat b + 4" using unat_block_plus[OF b(2), of 4] by simp
    have "fd_doR32 b (fd_seek (unat b + 4) s)
        = (u32_at (fs_disk s) (unat b + 4), fd_seek (unat b + 8) s)"
      using block_okD(4)[OF b(2)] by (simp add: fd_simps add.assoc)
    moreover have "fl_chain (fs_disk (fd_seek (unat b + 8) s)) (u32_at (fs_disk s) (unat b + 4)) bs"
      using b(3) by (rule fl_chain_cong) (simp_all add: fd_simps disk_simps)
    from Cons.IH[OF this, of t] obtain q' where
      "search_list pos (u32_at (fs_disk s) (unat b + 4)) t (fd_seek (unat b + 8) s)
        = Some (find (\<lambda>a. u32_at (fs_disk s) (unat a) = pos) (fl_slots bs), fd_seek q' s)"
      by (auto simp: fd_simps disk_simps)
    ultimately show ?thesis
      using None b(1) block_okD(5)[OF b(2)]
      by (subst search_list.simps)
         (auto simp: scan Let_def fl_slots_def at fd_simps find_append_None intro!: exI[of _ q'])
  qed
qed

lemma last_list_block_result:
  "fl_chain (fs_disk s) p bs \<Longrightarrow>
   last_list_block p ll s = Some (if bs = [] then ll else last bs, s)"
proof (induction bs arbitrary: p ll)
  case Nil
  then show ?case by (subst last_list_block.simps) simp
next
  case (Cons b bs)
  then have b: "p = b" "b \<noteq> 0" "block_ok (fs_disk s) b"
      "type_of_code (u16_at (fs_disk s) (unat b + 2)) = INT_FREELIST"
    by (auto dest: block_okD)
  then show ?case
    using Cons by (subst last_list_block.simps) (simp add: get_list_block)
qed

end
