(* ===== verification/FreeList_Props.thy ===== *)
theory FreeList_Props
  imports FreeList_Chain
begin

text \<open>
  What \<^verbatim>\<open>FreeList\<close> does to the package and to its cache: rebuilding the cache, allocating
  from it or at the end of the file, and releasing a block into a slot or into the chain.
\<close>

section \<open>Rebuilding the cache\<close>

definition add_entries :: "disk \<Rightarrow> u32 list \<Rightarrow> (u32 \<times> u32) list \<Rightarrow> (u32 \<times> u32) list" where
  "add_entries d as m =
     fold (\<lambda>a m. if u32_at d (unat a) \<noteq> 0 then map_insert a (u32_at d (unat a)) m else m) as m"

text \<open>The entries in use of the chain on disk: slot address and recorded block.\<close>

definition disk_entries :: "disk \<Rightarrow> u32 list \<Rightarrow> (u32 \<times> u32) set" where
  "disk_entries d as = {(a, u32_at d (unat a)) | a. a \<in> set as \<and> u32_at d (unat a) \<noteq> 0}"

lemma add_entries_append: "add_entries d (as @ bs) m = add_entries d bs (add_entries d as m)"
  by (simp add: add_entries_def)

lemma add_entries_seek [disk_simps]: "add_entries (disk_seek q d) = add_entries d"
  by (simp add: add_entries_def[abs_def] disk_simps cong: if_cong)

lemma add_entries_Cons:
  "add_entries d (a # as) m =
     add_entries d as (if u32_at d (unat a) \<noteq> 0 then map_insert a (u32_at d (unat a)) m else m)"
  by (simp add: add_entries_def)

lemma add_entries_Nil [simp]: "add_entries d [] m = m"
  by (simp add: add_entries_def)

lemma sorted_map_add_entries: "sorted_map m \<Longrightarrow> sorted_map (add_entries d as m)"
  by (induction as arbitrary: m) (auto simp: add_entries_def pcache.ins_inv)

lemma set_add_entries:
  assumes "sorted_map m" and "set m \<subseteq> disk_entries d bs" and "set as \<subseteq> set bs"
  shows "set (add_entries d as m) = set m \<union> disk_entries d as"
  using assms
proof (induction as arbitrary: m)
  case Nil
  then show ?case by (simp add: add_entries_def disk_entries_def)
next
  case (Cons a as)
  let ?m = "if u32_at d (unat a) \<noteq> 0 then map_insert a (u32_at d (unat a)) m else m"
  have sub: "set ?m \<subseteq> disk_entries d bs"
    using Cons.prems by (auto simp: pcache.ins_entries disk_entries_def)
  have "(a, u32_at d (unat a)) \<in> set m" if "a \<in> fst ` set m"
    using that Cons.prems(2) by (auto simp: disk_entries_def)
  then have eq: "set ?m = set m \<union> disk_entries d [a]"
    using Cons.prems(1) by (auto simp: pcache.ins_entries disk_entries_def)
  have "set (add_entries d as ?m) = set ?m \<union> disk_entries d as"
    using Cons.prems by (intro Cons.IH) (simp_all add: pcache.ins_inv sub)
  moreover have "disk_entries d [a] \<union> disk_entries d as = disk_entries d (a # as)"
    by (auto simp: disk_entries_def)
  ultimately show ?case using eq by (simp add: add_entries_def Un_assoc)
qed

lemma cache_upd_simps [fd_simps]:
  "(fd_seek q s)\<lparr>fs_cache := c\<rparr> = fd_seek q (s\<lparr>fs_cache := c\<rparr>)"
  "(fs_put p bs s)\<lparr>fs_cache := c\<rparr> = fs_put p bs (s\<lparr>fs_cache := c\<rparr>)"
  "fd_tell (s\<lparr>fs_cache := c\<rparr>) = fd_tell s"
  by (simp_all add: fd_seek_def fs_put_def fd_tell_def)

lemma collect_entries_result:
  assumes "block_ok (fs_disk s) b" and "\<And>i. i \<in> set is \<Longrightarrow> i + 4 \<le> 4096"
  shows "\<exists>t q. collect_entries b is tpos s
      = (t, fd_seek q (s\<lparr>fs_cache :=
             add_entries (fs_disk s) (map (\<lambda>i. b + of_nat i) is) (fs_cache s)\<rparr>))"
  using assms
proof (induction "is" arbitrary: tpos s)
  case Nil
  show ?case by (auto simp: fd_simps intro!: exI[of _ "fd_tell s"])
next
  case (Cons i "is")
  let ?p = "unat b + i" and ?d = "fs_disk s"
  let ?v = "u32_at ?d ?p"
  have at: "unat (b + of_nat i) = ?p"
    by (rule unat_block_plus[OF Cons.prems(1)]) (use Cons.prems(2)[of i] in simp)
  have "?p + 4 \<le> dsize ?d" using block_okD(4)[OF Cons.prems(1)] Cons.prems(2)[of i] by simp
  then have read: "fd_doR32 tpos (fd_seek ?p s) = (?v, fd_seek (?p + 4) s)"
    by (rule fd_doR32_seek)
  let ?m = "if ?v \<noteq> 0 then map_insert (b + of_nat i) ?v (fs_cache s) else fs_cache s"
  let ?t = "fd_seek (?p + 4) (s\<lparr>fs_cache := ?m\<rparr>)"
  have "block_ok (fs_disk ?t) b" using Cons.prems(1) by (simp add: fd_simps disk_simps block_ok_def)
  from Cons.IH[OF this, of ?v] Cons.prems(2) obtain t q where
    "collect_entries b is ?v ?t = (t, fd_seek q (s\<lparr>fs_cache :=
        add_entries ?d (map (\<lambda>i. b + of_nat i) is) ?m\<rparr>))"
    by (auto simp: fd_simps disk_simps)
  moreover have "collect_entries b (i # is) tpos s = collect_entries b is ?v ?t"
    by (auto simp: at read Let_def fd_simps)
  ultimately show ?case by (auto simp: add_entries_Cons at)
qed

lemma collect_list_result:
  assumes "fl_chain (fs_disk s) p bs"
  shows "\<exists>q. collect_list p tpos s
      = Some (fd_seek q (s\<lparr>fs_cache := add_entries (fs_disk s) (fl_slots bs) (fs_cache s)\<rparr>))"
  using assms
proof (induction bs arbitrary: p tpos s)
  case Nil
  then show ?case
    by (subst collect_list.simps)
       (auto simp: fl_slots_def fd_simps intro!: exI[of _ "fd_tell s"])
next
  case (Cons b bs)
  then have b: "p = b" "block_ok (fs_disk s) b"
      "type_of_code (u16_at (fs_disk s) (unat b + 2)) = INT_FREELIST"
      "fl_chain (fs_disk s) (u32_at (fs_disk s) (unat b + 4)) bs"
    by auto
  let ?c = "add_entries (fs_disk s) (slot_addrs b) (fs_cache s)"
  obtain t q where coll: "collect_entries b entry_offsets tpos s
      = (t, fd_seek q (s\<lparr>fs_cache := ?c\<rparr>))"
    using collect_entries_result[OF b(2), of entry_offsets tpos] entry_offsets_range
    by (auto simp: slot_addrs_def)
  let ?s = "fd_seek q (s\<lparr>fs_cache := ?c\<rparr>)"
  have ok: "block_ok (fs_disk ?s) b" "type_of_code (u16_at (fs_disk ?s) (unat b + 2)) = INT_FREELIST"
    using b by (simp_all add: fd_simps disk_simps block_ok_def)
  have "fl_chain (fs_disk ?s) (u32_at (fs_disk s) (unat b + 4)) bs"
    using b(4) by (rule fl_chain_cong) (simp_all add: fd_simps disk_simps)
  from Cons.IH[OF this, of t] obtain q' where
    "collect_list (u32_at (fs_disk s) (unat b + 4)) t ?s
      = Some (fd_seek q' (s\<lparr>fs_cache := add_entries (fs_disk s) (fl_slots bs) ?c\<rparr>))"
    by (auto simp: fd_simps disk_simps)
  then show ?case
    using b(1) block_okD(5)[OF b(2)] get_list_block[OF ok]
    by (subst collect_list.simps)
       (auto simp: coll fl_slots_def add_entries_append fd_simps disk_simps intro!: exI[of _ q'])
qed

lemma syncronizeCache_result:
  assumes "fsinfo_ok (fs_disk s)" and "fl_chain (fs_disk s) (fl_head (fs_disk s)) bs"
  shows "syncronizeCache s = Some (s\<lparr>fs_cache := add_entries (fs_disk s) (fl_slots bs) []\<rparr>)"
proof -
  let ?s = "s\<lparr>fs_cache := []\<rparr>"
  have info: "getINodeByPosition (of_nat OFFSET_FSINFO) ?s = Some (inode_at (fs_disk s) OFFSET_FSINFO, ?s)"
    using get_fsinfo[of ?s] assms(1) by simp
  obtain q where "collect_list (fl_head (fs_disk s)) 0 ?s
      = Some (fd_seek q (?s\<lparr>fs_cache := add_entries (fs_disk ?s) (fl_slots bs) (fs_cache ?s)\<rparr>))"
    using collect_list_result[of ?s "fl_head (fs_disk s)" bs 0] assms(2) by auto
  then show ?thesis
    using assms info
    by (auto simp: syncronizeCache_def inode_at_fsinfo fd_simps fl_slots_def Let_def)
qed

lemma syncronizeCache_entries:
  "set (add_entries d as []) = disk_entries d as" "sorted_map (add_entries d as [])"
  using set_add_entries[of "[]" d as as] by (simp_all add: sorted_map_add_entries)

section \<open>Allocation\<close>

lemma float_exp_bound: "n < 2 ^ (24 + k) \<Longrightarrow> float_exp n \<le> k"
proof (induction k arbitrary: n)
  case 0
  then show ?case by (simp add: float_exp.simps)
next
  case (Suc k)
  have "n < 2 ^ (24 + k) * 2" using Suc.prems by (simp add: power_add)
  then have "n div 2 < 2 ^ (24 + k)" by (rule less_mult_imp_div_less)
  then have "float_exp (n div 2) \<le> k" by (rule Suc.IH)
  then show ?case by (subst float_exp.simps) simp
qed

lemma to_float_exact:
  assumes "n < 2 ^ 32" and "n mod 4096 = 0"
  shows "to_float n = n"
proof -
  have "float_exp n \<le> 8" using float_exp_bound[of n 8] assms(1) by simp
  then have "2 ^ float_exp n dvd (2 :: nat) ^ 12" by (intro le_imp_power_dvd) simp
  moreover have "(2 :: nat) ^ 12 dvd n" using assms(2) by auto
  ultimately have "n mod 2 ^ float_exp n = 0" by (metis dvd_trans mod_0_imp_dvd dvd_imp_mod_0)
  then show ?thesis by (auto simp: to_float_def Let_def)
qed

lemma align_up_aligned:
  assumes "n < 2 ^ 32" and "n mod 4096 = 0"
  shows "align_up n = of_nat n"
proof -
  define k where "k = n div 4096"
  then have n: "n = 4096 * k" using assms(2) by auto
  have "(n + 4095) div 4096 * 4096 = n" unfolding n by simp
  with to_float_exact[OF assms] show ?thesis by (simp add: align_up_def)
qed

lemma fd_seek_end_eq: "fd_seek_end s = fd_seek (dsize (fs_disk s)) s"
  by (simp add: fd_seek_end_def fd_seek_def disk_seek_end_def disk_seek_def)

lemma allocateBlock_new:
  assumes "fs_cache s = []"
  shows "allocateBlock s =
    (let a = align_up (dsize (fs_disk s) mod 2 ^ 32) in (a, fs_put (unat a) (replicate 4096 0) s))"
proof -
  have "unat (of_nat (dsize (fs_disk s)) :: u32) = dsize (fs_disk s) mod 2 ^ 32"
    by (simp add: unat_of_nat take_bit_eq_mod)
  then show ?thesis
    using assms by (simp add: allocateBlock_def fd_seek_end_eq fd_simps Let_def)
qed

lemma allocateBlock_cached:
  "fs_cache s = (a, b) # rest \<Longrightarrow>
   allocateBlock s = (b, (fs_put (unat a) (enc32 b) s)\<lparr>fs_cache := rest\<rparr>)"
  by (simp add: allocateBlock_def fd_simps Let_def)

text \<open>A cache whose entries are what the package records at their addresses.\<close>

definition cache_sound :: "fsys \<Rightarrow> bool" where
  "cache_sound s \<longleftrightarrow> (\<forall>(a, b) \<in> set (fs_cache s).
     u32_at (fs_disk s) (unat a) = b \<and> b \<noteq> 0 \<and> unat a + 4 \<le> dsize (fs_disk s))"

lemma fs_put_same_bytes:
  assumes "u32_at (fs_disk s) p = v" and "p + 4 \<le> dsize (fs_disk s)"
  shows "byte_at (fs_disk (fs_put p (enc32 v) s)) = byte_at (fs_disk s)"
    and "dsize (fs_disk (fs_put p (enc32 v) s)) = dsize (fs_disk s)"
  using assms lookup_put_self[of "fs_disk s" p v] by (simp_all add: fd_simps)

lemma allocateBlock_cached_bytes:
  assumes "cache_sound s" and "fs_cache s = (a, b) # rest" and "allocateBlock s = (p, s')"
  shows "p = b" and "byte_at (fs_disk s') = byte_at (fs_disk s)"
    and "dsize (fs_disk s') = dsize (fs_disk s)" and "fs_cache s' = rest"
proof -
  have "u32_at (fs_disk s) (unat a) = b" "unat a + 4 \<le> dsize (fs_disk s)"
    using assms(1,2) by (auto simp: cache_sound_def)
  note same = fs_put_same_bytes[OF this]
  show "p = b" "byte_at (fs_disk s') = byte_at (fs_disk s)"
    "dsize (fs_disk s') = dsize (fs_disk s)" "fs_cache s' = rest"
    using assms(3) same by (auto simp: allocateBlock_cached[OF assms(2)] fd_simps)
qed

end
