(* ===== verification/FreeList_Free.thy ===== *)
theory FreeList_Free
  imports FreeList_Props
begin

text \<open>
  \<^verbatim>\<open>FreeList::freeBlock\<close>: the released block is recorded in the first empty slot of the
  chain; when there is none, the block itself becomes the last block of the chain (or its
  first, recorded in the FSInfo inode).
\<close>

lemma at_cong_range:
  assumes "\<And>a. q \<le> a \<Longrightarrow> a < q + 4096 \<Longrightarrow> byte_at e a = byte_at d a"
  shows "k + 2 \<le> 4096 \<Longrightarrow> u16_at e (q + k) = u16_at d (q + k)"
    and "k + 4 \<le> 4096 \<Longrightarrow> u32_at e (q + k) = u32_at d (q + k)"
    and "k + 8 \<le> 4096 \<Longrightarrow> u64_at e (q + k) = u64_at d (q + k)"
    and "k + n \<le> 4096 \<Longrightarrow> slice (byte_at e) (q + k) n = slice (byte_at d) (q + k) n"
proof -
  have sl: "slice (byte_at e) (q + k) n = slice (byte_at d) (q + k) n" if "k + n \<le> 4096" for k n
    using assms that by (intro slice_cong) auto
  then show "k + 2 \<le> 4096 \<Longrightarrow> u16_at e (q + k) = u16_at d (q + k)"
    "k + 4 \<le> 4096 \<Longrightarrow> u32_at e (q + k) = u32_at d (q + k)"
    "k + 8 \<le> 4096 \<Longrightarrow> u64_at e (q + k) = u64_at d (q + k)"
    "k + n \<le> 4096 \<Longrightarrow> slice (byte_at e) (q + k) n = slice (byte_at d) (q + k) n"
    by (simp_all add: u16_at_def u32_at_def u64_at_def)
qed

lemma inode_at_cong:
  assumes "\<And>a. q \<le> a \<Longrightarrow> a < q + 4096 \<Longrightarrow> byte_at e a = byte_at d a"
  shows "inode_at e q = inode_at d q"
proof -
  note c = at_cong_range[of q e d, OF assms]
  have z: "u16_at e q = u16_at d q" using c(1)[where k = 0] by simp
  show ?thesis
    unfolding inode_at_def head_at_def named_at_def Let_def config
    by (simp only: z c arith_simps rel_simps simp_thms if_True if_False inode.simps)
qed

lemma inode_at_put_apart:
  "p + length bs \<le> q \<or> q + 4096 \<le> p \<Longrightarrow> inode_at (put_bytes p bs d) q = inode_at d q"
  by (rule inode_at_cong) (auto simp: byte_at_put_bytes)

lemma inode_at_seek [disk_simps]: "inode_at (disk_seek p d) = inode_at d"
  by (rule ext, rule inode_at_cong) (simp add: disk_simps)

section \<open>Finding a slot\<close>

definition first_slot :: "disk \<Rightarrow> u32 list \<Rightarrow> u32 \<Rightarrow> u32 option" where
  "first_slot d bs pos = find (\<lambda>a. u32_at d (unat a) = pos) (fl_slots bs)"

lemma first_slotD:
  assumes "first_slot d bs pos = Some a" and "fl_chain d p bs"
  obtains b where "b \<in> set bs" and "a \<in> set (slot_addrs b)" and "block_ok d b"
    and "u32_at d (unat a) = pos"
proof -
  from assms(1) have "a \<in> set (fl_slots bs)" "u32_at d (unat a) = pos"
    by (auto simp: first_slot_def find_Some_iff)
  then show ?thesis
    using that fl_chain_block_ok[OF assms(2)] by (auto simp: fl_slots_def)
qed

lemma getIndexInList_found:
  assumes "fsinfo_ok (fs_disk s)" and "fl_chain (fs_disk s) (fl_head (fs_disk s)) bs"
    and "first_slot (fs_disk s) bs pos = Some a"
  shows "getIndexInList pos avail s = Some (a, s)"
proof -
  obtain q where "search_list pos (fl_head (fs_disk s)) 0 s = Some (Some a, fd_seek q s)"
    using search_list_result[OF assms(2), of pos 0] assms(3) by (auto simp: first_slot_def)
  then show ?thesis
    using assms(1) by (simp add: getIndexInList_def get_fsinfo inode_at_fsinfo fd_simps)
qed

lemma getIndexInList_none:
  assumes "fsinfo_ok (fs_disk s)" and "fl_chain (fs_disk s) (fl_head (fs_disk s)) bs"
    and "first_slot (fs_disk s) bs pos = None"
  shows "\<exists>q. getIndexInList pos avail s =
    (if pos = 0 then extendList (inode_at (fs_disk s) OFFSET_FSINFO) avail (fd_tell s) (fd_seek q s)
     else Some (0, s))"
proof -
  obtain q where "search_list pos (fl_head (fs_disk s)) 0 s = Some (None, fd_seek q s)"
    using search_list_result[OF assms(2), of pos 0] assms(3) by (auto simp: first_slot_def)
  then show ?thesis
    using assms(1) by (auto simp: getIndexInList_def get_fsinfo inode_at_fsinfo fd_simps)
qed

section \<open>Release into a slot\<close>

lemma slot_not_special:
  assumes "a \<in> set (slot_addrs b)" and "block_ok d b"
  shows "a \<noteq> 0" and "a \<noteq> 1" and "OFFSET_DATA + 8 \<le> unat a"
proof -
  obtain i where i: "unat a = unat b + i" "8 \<le> i" using slot_of_block[OF assms] by blast
  then show "OFFSET_DATA + 8 \<le> unat a" using block_okD(1)[OF assms(2)] by simp
  then show "a \<noteq> 0" and "a \<noteq> 1" by (auto simp: config)
qed

lemma slot_inside:
  assumes "a \<in> set (slot_addrs b)" and "block_ok d b"
  shows "unat a + 4 \<le> dsize d"
proof -
  obtain i where "unat a = unat b + i" "i + 4 \<le> 4096" using slot_of_block[OF assms] by blast
  then show ?thesis using block_okD(4)[OF assms(2)] by simp
qed

lemma freeBlock_slot:
  assumes "fsinfo_ok (fs_disk s)" and "fl_chain (fs_disk s) (fl_head (fs_disk s)) bs"
    and "first_slot (fs_disk s) bs 0 = Some a"
  shows "freeBlock pos s
    = Some (fs_put (unat a) (enc32 pos) (s\<lparr>fs_cache := map_insert a pos (fs_cache s)\<rparr>))"
proof -
  obtain b where "a \<in> set (slot_addrs b)" "block_ok (fs_disk s) b"
    using first_slotD[OF assms(3,2)] by blast
  note a = slot_not_special[OF this]
  show ?thesis
    using a by (simp add: freeBlock_def getIndexInList_found[OF assms] fd_simps Let_def)
qed

text \<open>A write of one slot keeps the chain and changes the entry of that slot alone.\<close>

lemma slot_apart:
  assumes "a \<in> set (slot_addrs b)" "block_ok d b" "a' \<in> set (slot_addrs b')" "block_ok d b'" "a \<noteq> a'"
  shows "unat a + 4 \<le> unat a' \<or> unat a' + 4 \<le> unat a"
proof -
  have al: "unat b mod 4096 = 0" "unat b' mod 4096 = 0" using assms(2,4) by (auto dest: block_okD)
  obtain k where k: "a = b + of_nat (8 + 4 * k)" "k < 1022"
    using assms(1) by (auto simp: slot_addrs_def entry_offsets_def)
  obtain k' where k': "a' = b' + of_nat (8 + 4 * k')" "k' < 1022"
    using assms(3) by (auto simp: slot_addrs_def entry_offsets_def)
  have u: "unat a = unat b + (8 + 4 * k)" "unat a' = unat b' + (8 + 4 * k')"
    unfolding k(1) k'(1) using k(2) k'(2)
    by (simp_all add: unat_block_plus[OF assms(2)] unat_block_plus[OF assms(4)] del: of_nat_add of_nat_mult)
  show ?thesis
  proof (cases "b = b'")
    case True
    then have "k \<noteq> k'" using assms(5) k k' by auto
    then show ?thesis using u True by auto
  next
    case False
    then show ?thesis using aligned_apart[OF al False] u k(2) k'(2) by auto
  qed
qed

lemma fl_chain_put_slot:
  assumes "fl_chain d p bs" and "b \<in> set bs" and "a \<in> set (slot_addrs b)"
  shows "fl_chain (put_bytes (unat a) (enc32 v) d) p bs"
proof (rule fl_chain_cong[OF assms(1)])
  fix c x assume c: "c \<in> set bs" and x: "unat c \<le> x" "x < unat c + 8"
  have b: "block_ok d b" and c': "block_ok d c" using fl_chain_block_ok[OF assms(1)] assms(2) c by auto
  obtain i where i: "unat a = unat b + i" "8 \<le> i" "i + 4 \<le> 4096" using slot_of_block[OF assms(3) b] by blast
  have "\<not> (unat a \<le> x \<and> x < unat a + 4)"
    using aligned_apart[OF block_okD(3)[OF b] block_okD(3)[OF c']] i x by (cases "b = c") auto
  then show "byte_at (put_bytes (unat a) (enc32 v) d) x = byte_at d x"
    by (auto simp: byte_at_put_bytes)
qed simp

lemma disk_entries_put_slot:
  assumes chain: "fl_chain d p bs" and b: "b \<in> set bs" and a: "a \<in> set (slot_addrs b)" and "v \<noteq> 0"
    and empty: "u32_at d (unat a) = 0"
  shows "disk_entries (put_bytes (unat a) (enc32 v) d) (fl_slots bs)
       = insert (a, v) (disk_entries d (fl_slots bs))"
proof -
  have upd: "u32_at (put_bytes (unat a) (enc32 v) d) (unat x) = (if x = a then v else u32_at d (unat x))"
    if x: "x \<in> set (fl_slots bs)" for x
  proof -
    obtain c where c: "c \<in> set bs" "x \<in> set (slot_addrs c)" using x unfolding fl_slots_def by auto
    show ?thesis
      using slot_apart[OF a fl_chain_block_ok[OF chain b] c(2) fl_chain_block_ok[OF chain c(1)]]
      by (auto simp: u32_at_put_same u32_at_put_other)
  qed
  have mem: "a \<in> set (fl_slots bs)" using a b by (auto simp: fl_slots_def)
  show ?thesis
    using upd mem assms(4) empty by (auto simp: disk_entries_def)
qed

lemma fsinfo_put_data:
  assumes "OFFSET_DATA \<le> p"
  shows "fl_head (put_bytes p bs d) = fl_head d"
    and "fsinfo_ok d \<Longrightarrow> fsinfo_ok (put_bytes p bs d)"
  using assms
  by (auto simp: fl_head_def fsinfo_ok_def u32_at_put_other u16_at_put_other config)

section \<open>Release into the chain\<close>

lemma freelist_image:
  "inode_at (put_bytes p (block_image ((new_inode 0 INT_FREELIST)\<lparr>i_flst_next := nx\<rparr>)) d) p
     = (new_inode 0 INT_FREELIST)\<lparr>i_flst_next := nx\<rparr>"
proof -
  let ?n = "(new_inode 0 INT_FREELIST)\<lparr>i_flst_next := nx\<rparr>"
  have "inode_wf ?n" by (simp add: inode_wf_def config)
  then have "inode_at (put_bytes p (block_image ?n) d) p = stored ?n"
    unfolding block_image_def by (rule inode_at_getBinaryRepresentation) simp_all
  also have "stored ?n = ?n"
    by (simp add: stored_def stored_head_def new_inode_def INode_named_def INode_full_def
        setFilename_def zero_mem_def)
  finally show ?thesis .
qed

lemma freeBlock_first:
  assumes "fsinfo_ok (fs_disk s)" and "fl_head (fs_disk s) = 0"
    and pos: "checkINodePositionIsValid pos = E_SUCCESS"
  shows "freeBlock pos s = Some
    (fs_put OFFSET_FSINFO
       (getBinaryRepresentation ((inode_at (fs_disk s) OFFSET_FSINFO)\<lparr>i_pos_freelist := pos\<rparr>))
       (unreserveINodeID 0 (fs_put (unat pos) (block_image (new_inode 0 INT_FREELIST)) s)))"
proof -
  have ne: "pos \<noteq> 0" using pos by (auto simp: checkINodePositionIsValid_iff config)
  have "fl_chain (fs_disk s) (fl_head (fs_disk s)) []" using assms(2) by simp
  from getIndexInList_none[OF assms(1) this, of 0 pos] obtain q where
    g: "getIndexInList 0 pos s
      = extendList (inode_at (fs_disk s) OFFSET_FSINFO) pos (fd_tell s) (fd_seek q s)"
    by (auto simp: first_slot_def fl_slots_def)
  show ?thesis
    using ne assms(2) inode_at_fsinfo(2)[OF assms(1)]
    by (simp add: freeBlock_def g extendList_def writeINode_freelist[OF pos] fd_simps Let_def)
qed

lemma block_bytes_apart:
  assumes "unat (c :: u32) mod 4096 = 0" and "unat (p :: u32) mod 4096 = 0" and "c \<noteq> p"
    and "length xs \<le> 4096" and "unat c \<le> a" and "a < unat c + 4096"
  shows "byte_at (put_bytes (unat p) xs d) a = byte_at d a"
  using aligned_apart[OF assms(1-3)] assms(4-6) by (auto simp: byte_at_put_bytes)

lemma fl_chain_put_block:
  assumes "fl_chain d p bs" and "unat pos mod 4096 = 0" and "pos \<notin> set bs" and "length xs \<le> 4096"
  shows "fl_chain (put_bytes (unat pos) xs d) p bs"
proof (rule fl_chain_cong[OF assms(1)])
  fix b a assume b: "b \<in> set bs" and a: "unat b \<le> a" "a < unat b + 8"
  have "b \<noteq> pos" using b assms(3) by auto
  from aligned_apart[OF block_okD(3)[OF fl_chain_block_ok[OF assms(1) b]] assms(2) this]
  show "byte_at (put_bytes (unat pos) xs d) a = byte_at d a"
    using a assms(4) by (auto simp: byte_at_put_bytes)
qed simp

lemma length_freelist_image: "length (block_image (new_inode i INT_FREELIST)) = 4096"
  by (rule length_block_image) (simp add: inode_wf_new_inode)

lemma fl_chain_type:
  "fl_chain d p bs \<Longrightarrow> b \<in> set bs \<Longrightarrow> type_of_code (u16_at d (unat b + 2)) = INT_FREELIST"
  by (induction bs arbitrary: p) auto

lemma freeBlock_last:
  assumes "fsinfo_ok (fs_disk s)" and chain: "fl_chain (fs_disk s) (fl_head (fs_disk s)) bs"
    and "bs \<noteq> []" and full: "first_slot (fs_disk s) bs 0 = None"
    and pos: "checkINodePositionIsValid pos = E_SUCCESS" and new: "pos \<notin> set bs"
  shows "freeBlock pos s = Some
    (let s' = unreserveINodeID 0 (fs_put (unat pos) (block_image (new_inode 0 INT_FREELIST)) s)
     in fs_put (unat (last bs))
          (getBinaryRepresentation ((inode_at (fs_disk s) (unat (last bs)))\<lparr>i_flst_next := pos\<rparr>)) s')"
proof -
  have ne: "pos \<noteq> 0" using pos by (auto simp: checkINodePositionIsValid_iff config)
  have head: "fl_head (fs_disk s) \<noteq> 0" using chain assms(3) by (cases bs) (auto dest: block_okD)
  let ?s = "unreserveINodeID 0 (fs_put (unat pos) (block_image (new_inode 0 INT_FREELIST)) s)"
  obtain q where
    g: "getIndexInList 0 pos s
      = extendList (inode_at (fs_disk s) OFFSET_FSINFO) pos (fd_tell s) (fd_seek q s)"
    using getIndexInList_none[OF assms(1) chain full, of pos] by auto
  have al: "unat pos mod 4096 = 0" using pos by (simp add: checkINodePositionIsValid_iff)
  have chain': "fl_chain (fs_disk (fd_seek q ?s)) (fl_head (fs_disk s)) bs" for q
    using fl_chain_put_block[OF chain al new, of "block_image (new_inode 0 INT_FREELIST)"]
    by (rule fl_chain_cong[rotated 0]) (simp_all add: fd_simps disk_simps length_freelist_image)
  let ?l = "last bs"
  have l: "?l \<in> set bs" using assms(3) by simp
  have apart: "unat pos + 4096 \<le> unat ?l \<or> unat ?l + 4096 \<le> unat pos"
    using aligned_apart[OF al block_okD(3)[OF fl_chain_block_ok[OF chain l]]] l new by auto
  have last: "last_list_block (fl_head (fs_disk s)) (fl_head (fs_disk s)) (fd_seek q ?s)
      = Some (?l, fd_seek q ?s)" for q
    using last_list_block_result[OF chain'] assms(3) by simp
  have get: "getINodeByPosition ?l (fd_seek q ?s) = Some (inode_at (fs_disk s) (unat ?l), fd_seek q ?s)" for q
    using get_list_block(1)[OF fl_chain_block_ok[OF chain' l] fl_chain_type[OF chain' l]] apart
    by (simp add: fd_simps disk_simps inode_at_put_apart length_freelist_image)
  have ty: "i_type ((inode_at (fs_disk s) (unat ?l))\<lparr>i_flst_next := pos\<rparr>) = INT_FREELIST"
    using get_list_block(3)[OF fl_chain_block_ok[OF chain l] fl_chain_type[OF chain l]] by simp
  have okl: "checkINodePositionIsValid ?l = E_SUCCESS"
    using fl_chain_block_ok[OF chain l] by (simp add: block_ok_def)
  show ?thesis
    using ne head inode_at_fsinfo(2)[OF assms(1)]
    by (simp add: freeBlock_def g extendList_def writeINode_freelist[OF pos] last get
        updateRawINode_freelist[OF okl ty] fd_simps Let_def)
qed

section \<open>The chain after a release\<close>

lemma fl_chain_unique: "fl_chain d p bs \<Longrightarrow> fl_chain d p cs \<Longrightarrow> bs = cs"
proof (induction bs arbitrary: p cs)
  case Nil
  then show ?case by simp
next
  case (Cons b bs)
  then show ?case by (cases cs) (auto dest: block_okD)
qed

lemma fl_chain_suffix: "fl_chain d p (us @ b # vs) \<Longrightarrow> fl_chain d b (b # vs)"
  by (induction us arbitrary: p) auto

lemma fl_chain_distinct: "fl_chain d p bs \<Longrightarrow> distinct bs"
proof (induction bs arbitrary: p)
  case (Cons b bs)
  have "b \<notin> set bs"
  proof
    assume "b \<in> set bs"
    then obtain us vs where bs: "bs = us @ b # vs" by (auto simp: in_set_conv_decomp)
    have "fl_chain d b (b # vs)" using Cons.prems fl_chain_suffix[of d p "b # us" b vs] bs by simp
    moreover have "fl_chain d b (b # bs)" using Cons.prems by simp
    ultimately show False using fl_chain_unique bs by fastforce
  qed
  with Cons show ?case by auto
qed simp

lemma fl_chain_snoc:
  assumes "fl_chain d p bs" and "bs \<noteq> []" and "block_ok e q"
    and "type_of_code (u16_at e (unat q + 2)) = INT_FREELIST" and "u32_at e (unat q + 4) = 0"
    and "dsize d \<le> dsize e"
    and "\<And>b. b \<in> set bs \<Longrightarrow> type_of_code (u16_at e (unat b + 2)) = INT_FREELIST"
    and "\<And>b. b \<in> set bs \<Longrightarrow> u32_at e (unat b + 4) = (if b = last bs then q else u32_at d (unat b + 4))"
  shows "fl_chain e p (bs @ [q])"
  using assms(1,2,7,8)
proof (induction bs arbitrary: p)
  case (Cons b bs)
  have ok: "block_ok e b" using Cons.prems(1) assms(6) by (auto simp: block_ok_def)
  show ?case
  proof (cases "bs = []")
    case True
    then show ?thesis using Cons.prems ok assms(3,4,5) by auto
  next
    case False
    have "b \<notin> set bs" using fl_chain_distinct[OF Cons.prems(1)] by simp
    then have "b \<noteq> last bs" using False by auto
    then have "u32_at e (unat b + 4) = u32_at d (unat b + 4)" using Cons.prems(4)[of b] False by simp
    moreover have "fl_chain e (u32_at d (unat b + 4)) (bs @ [q])"
      using Cons.prems False by (intro Cons.IH) auto
    ultimately show ?thesis using Cons.prems ok by simp
  qed
qed simp

text \<open>What a freshly written freelist block holds.\<close>

lemma freelist_repr:
  "i_type n = INT_FREELIST \<Longrightarrow>
   getBinaryRepresentation n = enc16 (i_inodeid n) @ enc16 7 @ enc32 (i_flst_next n)"
  by (simp add: getBinaryRepresentation_def)

lemma freelist_image_split:
  "block_image (new_inode i INT_FREELIST) = (enc16 i @ enc16 7 @ enc32 0) @ replicate 4088 0"
  by (simp add: block_image_def freelist_repr)

lemma freelist_image_fields:
  assumes "block_ok d b"
  shows "type_of_code (u16_at (put_bytes (unat b) (block_image (new_inode i INT_FREELIST)) d) (unat b + 2))
           = INT_FREELIST"
    and "u32_at (put_bytes (unat b) (block_image (new_inode i INT_FREELIST)) d) (unat b + 4) = 0"
    and "a \<in> set (slot_addrs b) \<Longrightarrow>
         u32_at (put_bytes (unat b) (block_image (new_inode i INT_FREELIST)) d) (unat a) = 0"
proof -
  let ?bs = "block_image (new_inode i INT_FREELIST)"
  show "type_of_code (u16_at (put_bytes (unat b) ?bs d) (unat b + 2)) = INT_FREELIST"
    by (subst at_put_offset) (simp_all add: freelist_image_split type_of_code_def)
  show "u32_at (put_bytes (unat b) ?bs d) (unat b + 4) = 0"
    by (subst at_put_offset) (simp_all add: freelist_image_split)
  assume "a \<in> set (slot_addrs b)"
  then obtain k where k: "unat a = unat b + k" "8 \<le> k" "k + 4 \<le> 4096"
    using slot_of_block[OF _ assms] by blast
  have "take 4 (drop k ?bs) = replicate 4 0"
    using k by (simp add: freelist_image_split)
  then show "u32_at (put_bytes (unat b) ?bs d) (unat a) = 0"
    using k by (simp add: at_put_offset length_freelist_image le_dec_zeros)
qed

section \<open>Release keeps chain and cache in step\<close>

text \<open>
  The invariant of a package together with its cache: the FSInfo inode leads to the chain
  \<open>bs\<close>, and every entry of the cache stands in a slot of it.
\<close>

definition fl_inv :: "fsys \<Rightarrow> u32 list \<Rightarrow> bool" where
  "fl_inv s bs \<longleftrightarrow>
     fsinfo_ok (fs_disk s) \<and> fl_chain (fs_disk s) (fl_head (fs_disk s)) bs \<and>
     sorted_map (fs_cache s) \<and> set (fs_cache s) \<subseteq> disk_entries (fs_disk s) (fl_slots bs)"

lemma disk_entries_cong:
  "(\<And>a. a \<in> set as \<Longrightarrow> u32_at e (unat a) = u32_at d (unat a)) \<Longrightarrow> disk_entries e as = disk_entries d as"
  by (auto simp: disk_entries_def)

lemma disk_entries_append: "disk_entries d (as @ bs) = disk_entries d as \<union> disk_entries d bs"
  by (auto simp: disk_entries_def)

lemma fl_slots_append: "fl_slots (bs @ cs) = fl_slots bs @ fl_slots cs"
  by (simp add: fl_slots_def)

lemma freeBlock_slot_inv:
  assumes inv: "fl_inv s bs" and slot: "first_slot (fs_disk s) bs 0 = Some a" and "pos \<noteq> 0"
  shows "\<exists>s'. freeBlock pos s = Some s' \<and> fl_inv s' bs
    \<and> set (fs_cache s') = insert (a, pos) (set (fs_cache s))
    \<and> disk_entries (fs_disk s') (fl_slots bs)
        = insert (a, pos) (disk_entries (fs_disk s) (fl_slots bs))"
proof -
  let ?d = "fs_disk s"
  let ?s = "fs_put (unat a) (enc32 pos) (s\<lparr>fs_cache := map_insert a pos (fs_cache s)\<rparr>)"
  have info: "fsinfo_ok ?d" and chain: "fl_chain ?d (fl_head ?d) bs"
    and cache: "sorted_map (fs_cache s)" "set (fs_cache s) \<subseteq> disk_entries ?d (fl_slots bs)"
    using inv by (auto simp: fl_inv_def)
  obtain b where b: "b \<in> set bs" "a \<in> set (slot_addrs b)" "block_ok ?d b" "u32_at ?d (unat a) = 0"
    using first_slotD[OF slot chain] by blast
  have ge: "OFFSET_DATA \<le> unat a" using slot_not_special(3)[OF b(2,3)] by simp
  have ent: "disk_entries (fs_disk ?s) (fl_slots bs) = insert (a, pos) (disk_entries ?d (fl_slots bs))"
    using disk_entries_put_slot[OF chain b(1,2) assms(3) b(4)] by (simp add: fd_simps)
  have "a \<notin> fst ` set (fs_cache s)" using cache(2) b(4) by (auto simp: disk_entries_def)
  then have set': "set (fs_cache ?s) = insert (a, pos) (set (fs_cache s))"
    using cache(1) by (simp add: fd_simps pcache.ins_entries)
  have "fl_inv ?s bs"
    using fl_chain_put_slot[OF chain b(1,2), of pos] fsinfo_put_data[OF ge] info set' ent cache
    by (auto simp: fl_inv_def fd_simps pcache.ins_inv)
  then show ?thesis
    using freeBlock_slot[OF info chain slot, of pos] set' ent by blast
qed

text \<open>The package after \<open>pos\<close> has become the last block of a chain whose last block was \<open>l\<close>.\<close>

definition grown :: "u16 \<Rightarrow> u32 \<Rightarrow> u32 \<Rightarrow> disk \<Rightarrow> disk" where
  "grown i l pos d = put_bytes (unat l) (enc16 i @ enc16 7 @ enc32 pos)
     (put_bytes (unat pos) (block_image (new_inode 0 INT_FREELIST)) d)"

lemma dsize_put_mono: "dsize d \<le> dsize (put_bytes p bs d)"
  by simp

lemma grown_old:
  assumes "fl_chain d p bs" and "bs \<noteq> []" and "block_ok d pos" and "pos \<notin> set bs"
    and b: "b \<in> set bs" "unat b \<le> x" "x < unat b + 4096" "b \<noteq> last bs \<or> unat b + 8 \<le> x"
  shows "byte_at (grown i (last bs) pos d) x = byte_at d x"
proof -
  have al: "unat c mod 4096 = 0" if "c \<in> set bs" for c
    using block_okD(3)[OF fl_chain_block_ok[OF assms(1) that]] .
  have "byte_at (put_bytes (unat pos) (block_image (new_inode 0 INT_FREELIST)) d) x = byte_at d x"
    using b assms(4) block_okD(3)[OF assms(3)] al[OF b(1)]
    by (intro block_bytes_apart) (auto simp: length_freelist_image)
  moreover have "byte_at (put_bytes (unat (last bs)) (enc16 i @ enc16 7 @ enc32 pos) e) x = byte_at e x"
    for e
  proof (cases "b = last bs")
    case True
    then show ?thesis using b by (simp add: byte_at_put_bytes)
  next
    case False
    then show ?thesis using b al[OF b(1)] al[OF last_in_set[OF assms(2)]] by (intro block_bytes_apart) auto
  qed
  ultimately show ?thesis by (simp add: grown_def)
qed

lemma grown_new:
  assumes "fl_chain d p bs" and "bs \<noteq> []" and "block_ok d pos" and "pos \<notin> set bs"
  shows "type_of_code (u16_at (grown i (last bs) pos d) (unat pos + 2)) = INT_FREELIST"
    and "u32_at (grown i (last bs) pos d) (unat pos + 4) = 0"
    and "a \<in> set (slot_addrs pos) \<Longrightarrow> u32_at (grown i (last bs) pos d) (unat a) = 0"
proof -
  let ?e1 = "put_bytes (unat pos) (block_image (new_inode 0 INT_FREELIST)) d"
  let ?e = "grown i (last bs) pos d"
  have l: "last bs \<in> set bs" using assms(2) by simp
  have "byte_at ?e x = byte_at ?e1 x" if "unat pos \<le> x" "x < unat pos + 4096" for x
    unfolding grown_def
    using that assms(4) l block_okD(3)[OF assms(3)] block_okD(3)[OF fl_chain_block_ok[OF assms(1) l]]
    by (intro block_bytes_apart) auto
  note f = at_cong_range[of "unat pos" ?e ?e1, OF this]
  show "type_of_code (u16_at ?e (unat pos + 2)) = INT_FREELIST" "u32_at ?e (unat pos + 4) = 0"
    using f(1)[where k = 2] f(2)[where k = 4] freelist_image_fields[OF assms(3)] by simp_all
  assume a: "a \<in> set (slot_addrs pos)"
  then obtain k where "unat a = unat pos + k" "8 \<le> k" "k + 4 \<le> 4096"
    using slot_of_block[OF _ assms(3)] by blast
  then show "u32_at ?e (unat a) = 0" using f(2)[of k] freelist_image_fields(3)[OF assms(3) a] by simp
qed

lemma grown_chain:
  assumes "fl_chain d p bs" and "bs \<noteq> []" and "block_ok d pos" and "pos \<notin> set bs"
  shows "fl_chain (grown i (last bs) pos d) p (bs @ [pos])"
proof -
  let ?e = "grown i (last bs) pos d"
  have size: "dsize d \<le> dsize ?e"
    unfolding grown_def by (rule order_trans[OF dsize_put_mono dsize_put_mono])
  have link: "type_of_code (u16_at ?e (unat b + 2)) = INT_FREELIST
      \<and> u32_at ?e (unat b + 4) = (if b = last bs then pos else u32_at d (unat b + 4))"
    if b: "b \<in> set bs" for b
  proof (cases "b = last bs")
    case True
    then show ?thesis
      by (simp add: grown_def at_put_offset type_of_code_def del: add_2_eq_Suc')
  next
    case False
    have old: "byte_at ?e x = byte_at d x" if "unat b \<le> x" "x < unat b + 4096" for x
      using grown_old[OF assms b that] False by simp
    note g = at_cong_range[of "unat b" ?e d, OF old]
    show ?thesis using g(1)[where k = 2] g(2)[where k = 4] False fl_chain_type[OF assms(1) b] by simp
  qed
  have "block_ok ?e pos" using assms(3) size by (auto simp: block_ok_def)
  then show ?thesis
    using fl_chain_snoc[OF assms(1,2) _ grown_new(1,2)[OF assms] size] link by blast
qed

lemma grown_entries:
  assumes "fl_chain d p bs" and "bs \<noteq> []" and "block_ok d pos" and "pos \<notin> set bs"
  shows "disk_entries (grown i (last bs) pos d) (fl_slots (bs @ [pos])) = disk_entries d (fl_slots bs)"
proof -
  let ?e = "grown i (last bs) pos d"
  have "u32_at ?e (unat a) = u32_at d (unat a)" if a: "a \<in> set (fl_slots bs)" for a
  proof -
    obtain b where b: "b \<in> set bs" "a \<in> set (slot_addrs b)" using a unfolding fl_slots_def by auto
    obtain k where k: "unat a = unat b + k" "8 \<le> k" "k + 4 \<le> 4096"
      using slot_of_block[OF b(2) fl_chain_block_ok[OF assms(1) b(1)]] by blast
    have "byte_at ?e x = byte_at d x" if "unat a \<le> x" "x < unat a + 4" for x
      using grown_old[OF assms b(1), of x] k that by (cases "b = last bs") auto
    then have "slice (byte_at ?e) (unat a) 4 = slice (byte_at d) (unat a) 4" by (rule slice_cong)
    then show ?thesis by (simp add: u32_at_def)
  qed
  then have "disk_entries ?e (fl_slots bs) = disk_entries d (fl_slots bs)" by (rule disk_entries_cong)
  moreover have "disk_entries ?e (fl_slots [pos]) = {}"
    using grown_new(3)[OF assms] by (auto simp: disk_entries_def fl_slots_def)
  ultimately show ?thesis by (simp add: fl_slots_append disk_entries_append)
qed

lemma freeBlock_grow_inv:
  assumes inv: "fl_inv s bs" and ne: "bs \<noteq> []" and full: "first_slot (fs_disk s) bs 0 = None"
    and pos: "block_ok (fs_disk s) pos" and new: "pos \<notin> set bs"
  shows "\<exists>s'. freeBlock pos s = Some s' \<and> fl_inv s' (bs @ [pos]) \<and> fs_cache s' = fs_cache s
    \<and> disk_entries (fs_disk s') (fl_slots (bs @ [pos])) = disk_entries (fs_disk s) (fl_slots bs)"
proof -
  let ?d = "fs_disk s" and ?l = "last bs"
  let ?n = "inode_at ?d (unat ?l)"
  let ?s = "fs_put (unat ?l) (getBinaryRepresentation (?n\<lparr>i_flst_next := pos\<rparr>))
    (unreserveINodeID 0 (fs_put (unat pos) (block_image (new_inode 0 INT_FREELIST)) s))"
  have info: "fsinfo_ok ?d" and chain: "fl_chain ?d (fl_head ?d) bs"
    using inv by (auto simp: fl_inv_def)
  have valid: "checkINodePositionIsValid pos = E_SUCCESS" using pos by (simp add: block_ok_def)
  have run: "freeBlock pos s = Some ?s"
    using freeBlock_last[OF info chain ne full valid new] by (simp add: Let_def)
  have lok: "block_ok ?d ?l" "type_of_code (u16_at ?d (unat ?l + 2)) = INT_FREELIST"
    using ne fl_chain_block_ok[OF chain] fl_chain_type[OF chain] by auto
  have disk: "fs_disk ?s = grown (i_inodeid ?n) ?l pos ?d"
    using get_list_block(3)[OF lok] by (simp add: fd_simps grown_def freelist_repr)
  have ge: "OFFSET_DATA \<le> unat pos" "OFFSET_DATA \<le> unat ?l"
    using block_okD(1)[OF pos] block_okD(1)[OF lok(1)] by auto
  have "fl_inv ?s (bs @ [pos])"
    using inv grown_chain[OF chain ne pos new] grown_entries[OF chain ne pos new] ge
    by (simp add: fl_inv_def disk) (simp add: grown_def fsinfo_put_data fd_simps)
  then show ?thesis
    using run grown_entries[OF chain ne pos new] disk by (auto simp: fd_simps)
qed

text \<open>The first freelist block: the FSInfo inode is written back with its position.\<close>

lemma fsinfo_written:
  fixes pos :: u32
  assumes "fsinfo_ok d" and "OFFSET_DATA \<le> dsize e"
  defines "n \<equiv> (inode_at d OFFSET_FSINFO)\<lparr>i_pos_freelist := pos\<rparr>"
  shows "length (getBinaryRepresentation n) = 1596"
    and "fsinfo_ok (put_bytes OFFSET_FSINFO (getBinaryRepresentation n) e)"
    and "fl_head (put_bytes OFFSET_FSINFO (getBinaryRepresentation n) e) = pos"
proof -
  have ty: "i_type n = INT_FSINFO" and wf: "inode_wf n"
    using inode_at_fsinfo[OF assms(1)] by (simp_all add: n_def inode_wf_def)
  show len: "length (getBinaryRepresentation n) = 1596"
    using length_getBinaryRepresentation[OF wf] ty by simp
  have split: "getBinaryRepresentation n = (enc16 (i_inodeid n) @ enc16 8) @ drop 4 (getBinaryRepresentation n)"
    using ty by (simp add: getBinaryRepresentation_def)
  have "take 2 (drop 2 (getBinaryRepresentation n)) = enc16 8" by (subst split) simp
  then have "u16_at (put_bytes OFFSET_FSINFO (getBinaryRepresentation n) e) (OFFSET_FSINFO + 2) = 8"
    by (subst at_put_offset) (simp_all add: len)
  then show "fsinfo_ok (put_bytes OFFSET_FSINFO (getBinaryRepresentation n) e)"
    using order_trans[OF assms(2) dsize_put_mono]
    by (simp add: fsinfo_ok_def type_of_code_def del: add_2_eq_Suc' dsize_put_bytes)
  have "take 4 (drop 1592 (getBinaryRepresentation n)) = enc32 pos"
    using ty wf by (simp add: getBinaryRepresentation_def inode_wf_def) (simp add: n_def)
  then show "fl_head (put_bytes OFFSET_FSINFO (getBinaryRepresentation n) e) = pos"
    by (simp add: fl_head_def at_put_offset len)
qed

lemma freeBlock_first_inv:
  assumes inv: "fl_inv s []" and pos: "block_ok (fs_disk s) pos"
  shows "\<exists>s'. freeBlock pos s = Some s' \<and> fl_inv s' [pos] \<and> fs_cache s' = fs_cache s
    \<and> disk_entries (fs_disk s') (fl_slots [pos]) = {}"
proof -
  let ?d = "fs_disk s"
  let ?n = "(inode_at ?d OFFSET_FSINFO)\<lparr>i_pos_freelist := pos\<rparr>"
  let ?e1 = "put_bytes (unat pos) (block_image (new_inode 0 INT_FREELIST)) ?d"
  let ?s = "fs_put OFFSET_FSINFO (getBinaryRepresentation ?n)
    (unreserveINodeID 0 (fs_put (unat pos) (block_image (new_inode 0 INT_FREELIST)) s))"
  have info: "fsinfo_ok ?d" and head: "fl_head ?d = 0" and cache: "fs_cache s = []"
    using inv by (auto simp: fl_inv_def fl_slots_def disk_entries_def)
  have valid: "checkINodePositionIsValid pos = E_SUCCESS" using pos by (simp add: block_ok_def)
  have disk: "fs_disk ?s = put_bytes OFFSET_FSINFO (getBinaryRepresentation ?n) ?e1"
    by (simp add: fd_simps)
  have sz: "OFFSET_DATA \<le> dsize ?e1" using info by (auto simp: fsinfo_ok_def)
  note w = fsinfo_written[OF info sz, of pos]
  have same: "byte_at (fs_disk ?s) x = byte_at ?e1 x" if "unat pos \<le> x" for x
    unfolding disk
    using block_okD(1)[OF pos] that w(1) by (subst byte_at_put_bytes) (auto simp: config)
  note f = at_cong_range[of "unat pos" "fs_disk ?s" ?e1, OF same]
  have ok: "block_ok (fs_disk ?s) pos" using pos by (auto simp: disk block_ok_def)
  have chain: "fl_chain (fs_disk ?s) pos [pos]"
    using f(1)[where k = 2] f(2)[where k = 4] freelist_image_fields(1,2)[OF pos, of 0] ok by simp
  have "u32_at (fs_disk ?s) (unat a) = 0" if a: "a \<in> set (slot_addrs pos)" for a
  proof -
    obtain k where "unat a = unat pos + k" "8 \<le> k" "k + 4 \<le> 4096"
      using slot_of_block[OF a pos] by blast
    then show ?thesis using f(2)[of k] freelist_image_fields(3)[OF pos a] by simp
  qed
  then have ent: "disk_entries (fs_disk ?s) (fl_slots [pos]) = {}"
    by (auto simp: disk_entries_def fl_slots_def)
  have "fl_inv ?s [pos]" using w chain cache by (simp add: fl_inv_def disk) (simp add: fd_simps)
  then show ?thesis using freeBlock_first[OF info head valid] ent by (auto simp: fd_simps)
qed

text \<open>The three cases together.\<close>

lemma freeBlock_inv:
  assumes inv: "fl_inv s bs" and pos: "block_ok (fs_disk s) pos" and new: "pos \<notin> set bs"
  shows "\<exists>s' bs'. freeBlock pos s = Some s' \<and> fl_inv s' bs' \<and>
    (bs' = bs \<and> (\<exists>a. a \<in> set (fl_slots bs) \<and> set (fs_cache s') = insert (a, pos) (set (fs_cache s)) \<and>
        disk_entries (fs_disk s') (fl_slots bs') = insert (a, pos) (disk_entries (fs_disk s) (fl_slots bs))) \<or>
     bs' = bs @ [pos] \<and> fs_cache s' = fs_cache s \<and>
        disk_entries (fs_disk s') (fl_slots bs') = disk_entries (fs_disk s) (fl_slots bs))"
proof (cases "first_slot (fs_disk s) bs 0")
  case (Some a)
  then have "a \<in> set (fl_slots bs)" by (auto simp: first_slot_def find_Some_iff)
  then show ?thesis using freeBlock_slot_inv[OF inv Some block_okD(5)[OF pos]] by metis
next
  case None
  show ?thesis
  proof (cases "bs = []")
    case True
    then show ?thesis
      using freeBlock_first_inv[of s pos] inv pos
      by (intro exI[of _ "the (freeBlock pos s)"] exI[of _ "[pos]"])
         (auto simp: fl_slots_def disk_entries_def)
  next
    case False
    then show ?thesis using freeBlock_grow_inv[OF inv False None pos new] by metis
  qed
qed

lemma fl_inv_bytes:
  assumes inv: "fl_inv s bs" and bytes: "byte_at (fs_disk s') = byte_at (fs_disk s)"
    and size: "dsize (fs_disk s') = dsize (fs_disk s)"
    and cache: "sorted_map (fs_cache s')" "set (fs_cache s') \<subseteq> set (fs_cache s)"
  shows "fl_inv s' bs"
proof -
  have chain: "fl_chain (fs_disk s') (fl_head (fs_disk s)) bs"
    by (rule fl_chain_cong[of "fs_disk s"]) (use inv in \<open>simp_all add: fl_inv_def bytes size\<close>)
  have eq: "fsinfo_ok (fs_disk s') = fsinfo_ok (fs_disk s)"
    "fl_head (fs_disk s') = fl_head (fs_disk s)"
    "disk_entries (fs_disk s') (fl_slots bs) = disk_entries (fs_disk s) (fl_slots bs)"
    by (simp_all only: fsinfo_ok_def fl_head_def disk_entries_def at_cong[OF bytes] size)
  have "fsinfo_ok (fs_disk s)" "set (fs_cache s) \<subseteq> disk_entries (fs_disk s) (fl_slots bs)"
    using inv by (simp_all add: fl_inv_def)
  then show ?thesis
    unfolding fl_inv_def eq using chain cache(1) subset_trans[OF cache(2)] by blast
qed

text \<open>
  Allocation from the cache writes the entry back instead of clearing it, so the chain on
  disk still lists the block it hands out.
\<close>

lemma allocateBlock_cached_inv:
  assumes inv: "fl_inv s bs" and cache: "fs_cache s = (a, b) # rest"
  shows "\<exists>s'. allocateBlock s = (b, s') \<and> fl_inv s' bs \<and> fs_cache s' = rest
    \<and> byte_at (fs_disk s') = byte_at (fs_disk s)
    \<and> (a, b) \<in> disk_entries (fs_disk s') (fl_slots bs)"
proof -
  let ?d = "fs_disk s"
  let ?s = "(fs_put (unat a) (enc32 b) s)\<lparr>fs_cache := rest\<rparr>"
  have chain: "fl_chain ?d (fl_head ?d) bs" using inv by (simp add: fl_inv_def)
  have e: "(a, b) \<in> disk_entries ?d (fl_slots bs)" using inv cache by (auto simp: fl_inv_def)
  then have v: "u32_at ?d (unat a) = b" and "a \<in> set (fl_slots bs)" by (auto simp: disk_entries_def)
  then obtain c where "c \<in> set bs" "a \<in> set (slot_addrs c)" unfolding fl_slots_def by auto
  then have "unat a + 4 \<le> dsize ?d"
    using slot_inside fl_chain_block_ok[OF chain] by blast
  from fs_put_same_bytes[OF v this]
  have same: "byte_at (fs_disk ?s) = byte_at ?d" "dsize (fs_disk ?s) = dsize ?d" by auto
  have "fl_inv ?s bs"
    by (rule fl_inv_bytes[OF inv same]) (use inv cache in \<open>auto simp: fl_inv_def sorted_map_Cons\<close>)
  moreover have "(a, b) \<in> disk_entries (fs_disk ?s) (fl_slots bs)" using e by (simp only: disk_entries_def at_cong[OF same(1)])
  ultimately show ?thesis using allocateBlock_cached[OF cache] same by auto
qed

end
