(* ===== verification/Package.thy ===== *)
theory Package
  imports FreeList_Free
begin

text \<open>
  \<^verbatim>\<open>Util::createPackage\<close> (\<^verbatim>\<open>libapp/lowlevel/util.cpp\<close>): the sequence of writes that lays out an
  empty package, and what the resulting file holds.
\<close>

section \<open>The writes\<close>

definition empty_file :: disk where
  "empty_file = \<lparr>dbytes = (\<lambda>_. 0), dsize = 0, dpos = 0\<rparr>"

fun write_zeros :: "nat \<Rightarrow> disk \<Rightarrow> disk" where
  "write_zeros 0 d = d"
| "write_zeros (Suc n) d = write_zeros n (disk_write [0] d)"

text \<open>Round \<open>i\<close> of the loop over the lookup table.\<close>

fun write_table :: "nat list \<Rightarrow> disk \<Rightarrow> disk" where
  "write_table [] d = d"
| "write_table (i # is) d =
     write_table is (disk_write (if i = 0 then enc32 (of_nat OFFSET_DATA) else [0, 0, 0, 0]) d)"

definition fsinfo_node :: "byte list \<Rightarrow> byte list \<Rightarrow> byte list \<Rightarrow> byte list \<Rightarrow> inode" where
  "fsinfo_node appname appver appdesc appauthor =
     (setAppAuthor appauthor (setAppDesc appdesc (setAppVersion appver (setAppName appname
       ((new_inode 0 INT_FSINFO)\<lparr>i_ver_major := 0, i_ver_minor := 1, i_ver_revision := 0\<rparr>)))))
       \<lparr>i_pos_root := of_nat OFFSET_DATA, i_pos_freelist := 0\<rparr>"

text \<open>\<^verbatim>\<open>mask = 0777\<close>\<close>

definition root_node :: "u64 \<Rightarrow> inode" where
  "root_node rtime = (new_inode 0 INT_DIRECTORY)
     \<lparr>i_uid := 0, i_gid := 1000, i_mask := 0x1FF, i_atime := rtime, i_mtime := rtime,
      i_ctime := rtime, i_parent := 0, i_children_count := 0\<rparr>"

definition createPackage ::
    "u64 \<Rightarrow> byte list \<Rightarrow> byte list \<Rightarrow> byte list \<Rightarrow> byte list \<Rightarrow> disk" where
  "createPackage rtime appname appver appdesc appauthor =
     (let d = write_zeros LENGTH_BOOTSTRAP empty_file;
          d = write_table [0..<LENGTH_LOOKUP div 4] d;
          fsnode_towrite = getBinaryRepresentation (fsinfo_node appname appver appdesc appauthor);
          d = disk_write fsnode_towrite d;
          d = write_zeros (LENGTH_FSINFO - length fsnode_towrite) d;
          rnode_towrite = getBinaryRepresentation (root_node rtime);
          d = disk_write rnode_towrite d
      in write_zeros (BSIZE_FILE - length rnode_towrite) d)"

section \<open>The file they produce\<close>

lemma disk_write_append: "disk_write ys (disk_write xs d) = disk_write (xs @ ys) d"
  by (simp add: disk_write_def put_bytes_dpos put_bytes_append)

lemma write_zeros_eq: "write_zeros n (disk_write xs d) = disk_write (xs @ replicate n 0) d"
  by (induction n arbitrary: xs) (simp_all add: disk_write_append)

lemma disk_write_Nil: "disk_write [] d = d"
  by (simp add: disk_write_def)

lemma write_zeros_start: "write_zeros n d = disk_write (replicate n 0) d"
  using write_zeros_eq[of n "[]" d] by (simp add: disk_write_Nil)

lemma write_table_eq:
  "0 \<notin> set is \<Longrightarrow> write_table is (disk_write xs d) = disk_write (xs @ replicate (4 * length is) 0) d"
proof (induction "is" arbitrary: xs)
  case (Cons i "is")
  have "replicate (4 * length (i # is)) (0 :: byte) = [0, 0, 0, 0] @ replicate (4 * length is) 0"
    by (simp add: numeral_eq_Suc)
  with Cons show ?case by (simp add: disk_write_append)
qed simp

lemma write_table_upt:
  "0 < n \<Longrightarrow> write_table [0..<n] (disk_write xs d)
     = disk_write (xs @ enc32 (of_nat OFFSET_DATA) @ replicate (4 * (n - 1)) 0) d"
  by (simp add: upt_conv_Cons disk_write_append write_table_eq)

lemma fsinfo_node_wf: "inode_wf (fsinfo_node a b c e)" "i_type (fsinfo_node a b c e) = INT_FSINFO"
  by (simp_all add: fsinfo_node_def inode_wf_def setAppName_def setAppVersion_def setAppDesc_def
      setAppAuthor_def fill_def Let_def config)

lemma root_node_wf: "inode_wf (root_node t)" "i_type (root_node t) = INT_DIRECTORY"
  by (simp_all add: root_node_def inode_wf_def config)

definition package_head :: "byte list" where
  "package_head = replicate LENGTH_BOOTSTRAP 0 @ enc32 (of_nat OFFSET_DATA)
     @ replicate (4 * (LENGTH_LOOKUP div 4 - 1)) 0"

definition package_image :: "u64 \<Rightarrow> byte list \<Rightarrow> byte list \<Rightarrow> byte list \<Rightarrow> byte list \<Rightarrow> byte list" where
  "package_image t a b c e = package_head @ block_image (fsinfo_node a b c e) @ block_image (root_node t)"

lemma createPackage_image: "createPackage t a b c e = disk_write (package_image t a b c e) empty_file"
proof -
  have "0 < LENGTH_LOOKUP div 4" by (simp add: config)
  moreover have "LENGTH_FSINFO = 4096" "BSIZE_FILE = 4096" by (simp_all add: config)
  ultimately show ?thesis
    by (simp only: createPackage_def Let_def write_zeros_start write_table_upt disk_write_append
        package_image_def package_head_def block_image_def append_assoc)
qed

lemma length_package_head: "length package_head = OFFSET_FSINFO"
  by (simp add: package_head_def config)

lemma byte_at_createPackage:
  "byte_at (createPackage t a b c e) = byte_at (put_bytes 0 (package_image t a b c e) empty_file)"
  by (simp add: createPackage_image disk_write_def empty_file_def)

lemma package_head_lookup: "lookup_at (put_bytes 0 package_head d) i = (if i = 0 then of_nat OFFSET_DATA else 0)"
proof -
  let ?m = "4 * (LENGTH_LOOKUP div 4 - 1)"
  have i: "unat i < 65536" using unsigned_less[of i] by simp
  have m: "?m = 4 * 65535" by (simp add: config)
  have "lookup_addr i + 4 \<le> length package_head"
    using lookup_addr_bounds(2)[of i] by (simp add: length_package_head)
  then have at: "lookup_at (put_bytes 0 package_head d) i = le_dec (take 4 (drop (lookup_addr i) package_head))"
    using at_put_offset(2)[of "lookup_addr i" package_head 0 d] by (simp add: lookup_at_def)
  have "drop (lookup_addr i) package_head
      = drop (4 * unat i) (enc32 (of_nat OFFSET_DATA) @ replicate ?m 0)"
    by (simp add: package_head_def lookup_addr_def OFFSET_LOOKUP_def mult.commute)
  moreover have "take 4 (drop (4 * unat i) (enc32 (of_nat OFFSET_DATA) @ replicate ?m 0)) = replicate 4 0"
    if "i \<noteq> 0"
  proof -
    have "0 < unat i" using that by (simp add: unat_gt_0)
    then have "4 \<le> 4 * unat i" "4 * unat i - 4 + 4 \<le> ?m" using i by (simp_all only: m)
    then show ?thesis by (simp only: m drop_append length_le_enc drop_replicate) simp
  qed
  ultimately show ?thesis by (simp add: at le_dec_zeros)
qed

lemma createPackage_layout:
  assumes d_def: "d = createPackage t a b c e"
  shows "dsize d = OFFSET_DATA + 4096" and "dpos d = OFFSET_DATA + 4096"
    and "inode_at d OFFSET_FSINFO = stored (fsinfo_node a b c e)"
    and "inode_at d OFFSET_DATA = stored (root_node t)"
    and "lookup_at d i = (if i = 0 then of_nat OFFSET_DATA else 0)"
proof -
  let ?f = "block_image (fsinfo_node a b c e)" and ?r = "block_image (root_node t)"
  have lf: "length ?f = 4096" and lr: "length ?r = 4096"
    using fsinfo_node_wf(1) root_node_wf(1) by (simp_all only: length_block_image)
  have len: "length (package_image t a b c e) = OFFSET_DATA + 4096"
    by (simp add: package_image_def lf lr length_package_head) (simp add: config)
  show "dsize d = OFFSET_DATA + 4096" "dpos d = OFFSET_DATA + 4096"
    using len by (auto simp: d_def createPackage_image disk_simps empty_file_def)
  have split: "byte_at d = byte_at (put_bytes OFFSET_DATA ?r (put_bytes OFFSET_FSINFO ?f
      (put_bytes 0 package_head empty_file)))"
  proof -
    have "put_bytes (0 + length package_head) (?f @ ?r) (put_bytes 0 package_head empty_file)
        = put_bytes 0 (package_image t a b c e) empty_file"
      unfolding package_image_def by (rule put_bytes_append)
    moreover have "put_bytes (OFFSET_FSINFO + length ?f) ?r (put_bytes OFFSET_FSINFO ?f e')
        = put_bytes OFFSET_FSINFO (?f @ ?r) e'" for e'
      by (rule put_bytes_append)
    moreover have "OFFSET_FSINFO + length ?f = OFFSET_DATA" by (simp add: lf config)
    ultimately show ?thesis
      by (simp add: d_def byte_at_createPackage length_package_head)
  qed
  have info: "inode_at (put_bytes OFFSET_FSINFO ?f e') OFFSET_FSINFO = stored (fsinfo_node a b c e)" for e'
    unfolding block_image_def
    by (rule inode_at_getBinaryRepresentation) (simp_all add: fsinfo_node_wf)
  show "inode_at d OFFSET_FSINFO = stored (fsinfo_node a b c e)"
    by (subst inode_at_cong[where e = d, OF fun_cong[OF split]])
       (subst inode_at_put_apart, simp add: config, rule info)
  have "inode_verify (stored (root_node t))"
    by (simp add: inode_verify_def stored_def stored_head_def stored_named_def root_node_def
        has_data_fields_def)
  then have root: "inode_at (put_bytes OFFSET_DATA ?r e') OFFSET_DATA = stored (root_node t)" for e'
    unfolding block_image_def
    by (intro inode_at_getBinaryRepresentation) (simp_all add: root_node_wf)
  show "inode_at d OFFSET_DATA = stored (root_node t)"
    by (subst inode_at_cong[where e = d, OF fun_cong[OF split]]) (simp add: root)
  have "lookup_at d i = lookup_at (put_bytes 0 package_head empty_file) i"
    unfolding lookup_at_def at_cong[OF split] using lookup_addr_bounds(2)[of i]
    by (subst u32_at_put_other, simp add: config, subst u32_at_put_other) simp_all
  then show "lookup_at d i = (if i = 0 then of_nat OFFSET_DATA else 0)"
    by (simp only: package_head_lookup)
qed

section \<open>The opened package\<close>

lemma unat_OFFSET_DATA: "unat (of_nat OFFSET_DATA :: u32) = OFFSET_DATA"
  by (rule unat_of_nat_small) (simp add: config)

lemma stored_root: "stored (root_node t) = root_node t"
  by (simp add: stored_def stored_head_def stored_named_def root_node_def has_data_fields_def
      new_inode_def INode_named_def INode_full_def setFilename_def Let_def)

lemma inode_at_type: "i_type (inode_at d p) = INT_FSINFO \<Longrightarrow> type_of_code (u16_at d (p + 2)) = INT_FSINFO"
  by (auto simp: inode_at_def head_at_def named_at_def Let_def split: if_splits)

lemma createPackage_raw:
  assumes "d = createPackage t a b c e"
  shows "raw_by_id d i = (if i = 0 then root_node t else new_inode 0 INT_INVALID)"
  using createPackage_layout(4,5)[OF assms]
  by (auto simp: raw_by_id_def Let_def unat_OFFSET_DATA stored_root) (simp_all add: config)

lemma createPackage_ok:
  assumes "d = createPackage t a b c e"
  shows "fsinfo_ok d" and "fl_head d = 0" and "table_ok d" and "links_ok d"
proof -
  note l = createPackage_layout[OF assms]
  have info: "i_type (inode_at d OFFSET_FSINFO) = INT_FSINFO"
    "i_pos_freelist (inode_at d OFFSET_FSINFO) = 0"
    by (simp_all add: l(3) stored_def stored_head_def fsinfo_node_wf(2) Let_def)
       (simp add: fsinfo_node_def)
  show ok: "fsinfo_ok d" using inode_at_type[OF info(1)] l(1) by (simp add: fsinfo_ok_def)
  show "fl_head d = 0" using inode_at_fsinfo(2)[OF ok] info(2) by simp
  show "table_ok d" using l(1) by (simp add: table_ok_def l(5) unat_OFFSET_DATA)
  show "links_ok d"
    by (auto simp: links_ok_def createPackage_raw[OF assms] root_node_def split: if_splits)
qed

text \<open>Opening it gives an empty cache.\<close>

lemma FreeList_new_package:
  assumes "d = createPackage t a b c e"
  shows "FreeList_new d clk
    = Some \<lparr>fs_disk = d, fs_cache = [], fs_reserved = [], fs_clock = clk, fs_ticks = 0\<rparr>"
  using createPackage_ok[OF assms]
  by (simp add: FreeList_new_def syncronizeCache_result[where bs = "[]"] fl_slots_def)

lemma fl_inv_package:
  "d = createPackage t a b c e \<Longrightarrow> fs_disk s = d \<Longrightarrow> fs_cache s = [] \<Longrightarrow> fl_inv s []"
  using createPackage_ok[of d] by (simp add: fl_inv_def)

end
