(* ===== verification/PathUtil.thy ===== *)
theory PathUtil
  imports LowFS_Core
begin

text \<open>
  The string functions of \<^verbatim>\<open>LowLevel::Util\<close> (\<^verbatim>\<open>libapp/lowlevel/util.cpp\<close>), the splitter inside
  \<^verbatim>\<open>FS::resolvePathnameToINodeID\<close>, \<^verbatim>\<open>copyBasenameToFilename\<close> (\<^verbatim>\<open>libapp/lowlevel/fs.cpp\<close>) and the
  search path of \<^verbatim>\<open>libapp/environment.cpp\<close>. A \<^verbatim>\<open>std::string\<close> is the list of its characters.
\<close>

section \<open>Splitting a path\<close>

abbreviation slash :: byte where "slash \<equiv> 0x2F"

fun strip_leading :: "byte list \<Rightarrow> byte list" where
  "strip_leading [] = []"
| "strip_leading (c # cs) = (if c = slash then strip_leading cs else c # cs)"

fun split_loop :: "byte list \<Rightarrow> byte list \<Rightarrow> byte list list \<Rightarrow> byte list list \<times> byte list" where
  "split_loop [] buf ret = (ret, buf)"
| "split_loop (c # cs) buf ret =
     (if c = slash \<and> length buf > 0 then split_loop cs [] (ret @ [buf])
      else if c \<noteq> slash then split_loop cs (buf @ [c]) ret
      else split_loop cs buf ret)"

definition splitPathBySeperators :: "byte list \<Rightarrow> byte list list" where
  "splitPathBySeperators path =
     (let (ret, buf) = split_loop (strip_leading path) [] []
      in if length buf > 0 then ret @ [buf] else ret)"

text \<open>The second splitter, inside \<^verbatim>\<open>resolvePathnameToINodeID\<close>.\<close>

fun resolve_split :: "byte list \<Rightarrow> byte list \<Rightarrow> byte list list \<Rightarrow> byte list list \<times> byte list" where
  "resolve_split [] buf ret = (ret, buf)"
| "resolve_split (c # cs) buf ret =
     (if c = slash then
        (if buf \<noteq> [] then resolve_split cs [] (ret @ [buf]) else resolve_split cs buf ret)
      else resolve_split cs (buf @ [c]) ret)"

definition resolve_components :: "byte list \<Rightarrow> byte list list" where
  "resolve_components path =
     (let (ret, buf) = resolve_split path [] []
      in if length buf > 0 then ret @ [buf] else ret)"

text \<open>The specification: the non-empty runs of characters between separators.\<close>

fun chop :: "byte list \<Rightarrow> byte list list" where
  "chop [] = [[]]"
| "chop (c # cs) = (if c = slash then [] # chop cs else (c # hd (chop cs)) # tl (chop cs))"

definition components :: "byte list \<Rightarrow> byte list list" where
  "components path = filter (\<lambda>c. c \<noteq> []) (chop path)"

fun join :: "byte list list \<Rightarrow> byte list" where
  "join [] = []"
| "join (c # cs) = slash # c @ join cs"

lemma chop_nonempty [simp]: "chop p \<noteq> []"
  by (cases p) auto

lemma chop_append_hd: "slash \<notin> set b \<Longrightarrow> chop (b @ p) = (b @ hd (chop p)) # tl (chop p)"
  by (induction b) auto

lemma chop_append_slash: "slash \<notin> set b \<Longrightarrow> chop (b @ slash # p) = b # chop p"
  by (simp add: chop_append_hd)

lemma chop_plain: "slash \<notin> set b \<Longrightarrow> chop b = [b]"
  using chop_append_hd[of b "[]"] by simp

lemma chop_no_slash: "c \<in> set (chop p) \<Longrightarrow> slash \<notin> set c"
proof (induction p arbitrary: c)
  case (Cons x xs)
  have "hd (chop xs) \<in> set (chop xs)" by simp
  with Cons show ?case by (cases "chop xs") (auto split: if_splits)
qed simp

lemma split_loop_result:
  "slash \<notin> set buf \<Longrightarrow>
   (let (ret', buf') = split_loop cs buf ret in if length buf' > 0 then ret' @ [buf'] else ret')
     = ret @ components (buf @ cs)"
proof (induction cs buf ret rule: split_loop.induct)
  case (1 buf ret)
  then show ?case by (simp add: components_def chop_plain)
next
  case (2 c cs buf ret)
  show ?case
  proof (cases "c = slash")
    case True
    show ?thesis
      using 2 True by (cases "buf = []") (auto simp: components_def chop_append_slash)
  next
    case False
    then show ?thesis using 2 by simp
  qed
qed

lemma components_strip: "components (strip_leading p) = components p"
  by (induction p) (auto simp: components_def)

lemma splitPathBySeperators_components: "splitPathBySeperators p = components p"
  using split_loop_result[of "[]" "strip_leading p" "[]"]
  by (simp add: splitPathBySeperators_def components_strip)

lemma resolve_split_eq: "resolve_split cs buf ret = split_loop cs buf ret"
  by (induction cs buf ret rule: resolve_split.induct) auto

lemma resolve_components_eq: "resolve_components p = components p"
  using split_loop_result[of "[]" p "[]"]
  by (simp add: resolve_components_def resolve_split_eq)

lemma components_sound: "c \<in> set (components p) \<Longrightarrow> c \<noteq> [] \<and> slash \<notin> set c"
  by (auto simp: components_def chop_no_slash)

lemma components_Nil [simp]: "components [] = []"
  by (simp add: components_def)

lemma components_slash [simp]: "components (slash # p) = components p"
  by (simp add: components_def)

lemma components_join:
  assumes "\<And>c. c \<in> set cs \<Longrightarrow> c \<noteq> [] \<and> slash \<notin> set c"
  shows "components (join cs) = cs"
  using assms
proof (induction cs)
  case (Cons c cs)
  then have c: "c \<noteq> []" "slash \<notin> set c" by auto
  show ?case
  proof (cases cs)
    case Nil
    then show ?thesis using c by (simp add: components_def chop_plain)
  next
    case (Cons d ds)
    have "components (join (c # cs)) = c # components (join cs)"
      using c Cons by (simp add: components_def chop_append_slash)
    then show ?thesis using Cons.IH Cons.prems by simp
  qed
qed simp

text \<open>A path relative to a directory: the components of the two parts.\<close>

lemma components_append_slash: "components (p @ slash # q) = components p @ components q"
proof -
  have "chop (p @ slash # q) = chop p @ chop q"
    by (induction p) (auto simp: hd_append tl_append split: list.split)
  then show ?thesis by (simp add: components_def)
qed

section \<open>Checks and names\<close>

definition verifyPath :: "byte list \<Rightarrow> byte list list \<Rightarrow> FSResult" where
  "verifyPath original split =
     (if length original \<ge> 4096 \<or> 0 \<in> set original then E_FAILURE_INVALID_PATH
      else if \<exists>c \<in> set split. length c \<ge> 256 \<or> 0 \<in> set c then E_FAILURE_INVALID_FILENAME
      else E_SUCCESS)"

definition extractBasenameFromPath :: "byte list \<Rightarrow> byte list" where
  "extractBasenameFromPath path =
     (let components = splitPathBySeperators path
      in if length components = 0 then [] else components ! (length components - 1))"

lemma extractBasenameFromPath_join:
  assumes "\<And>c. c \<in> set (cs @ [b]) \<Longrightarrow> c \<noteq> [] \<and> slash \<notin> set c"
  shows "extractBasenameFromPath (join (cs @ [b])) = b"
proof -
  have "components (join (cs @ [b])) = cs @ [b]" by (rule components_join[OF assms])
  then show ?thesis
    by (simp add: extractBasenameFromPath_def splitPathBySeperators_components)
qed

text \<open>
  \<^verbatim>\<open>copyBasenameToFilename\<close>: \<open>filename\<close> is the caller's \<^verbatim>\<open>char[256]\<close>; \<^verbatim>\<open>basename[i]\<close> at the length
  of the string is the terminating NUL.
\<close>

fun copy_chars :: "byte list \<Rightarrow> nat list \<Rightarrow> byte list \<Rightarrow> byte list" where
  "copy_chars basename [] filename = filename"
| "copy_chars basename (i # is) filename =
     (let b = (if i < length basename then basename ! i else 0)
      in if b = 0 then filename else copy_chars basename is (filename[i := b]))"

definition copyBasenameToFilename :: "byte list \<Rightarrow> byte list \<Rightarrow> byte list option" where
  "copyBasenameToFilename path filename =
     (let basename = extractBasenameFromPath path
      in if length basename \<ge> 256 then None
         else Some (copy_chars basename [0..<255] (replicate 256 0)))"

lemma copy_chars_result:
  assumes "0 \<notin> set b" and "k \<le> length b" and "length b \<le> n" and "n \<le> m"
  shows "copy_chars b [k..<n] (take k b @ replicate (m - k) 0) = b @ replicate (m - length b) 0"
  using assms(2)
proof (induction "n - k" arbitrary: k)
  case 0
  then have "k = n" "length b = n" using assms(3) by auto
  then show ?case by simp
next
  case (Suc i)
  then have k: "k < n" by simp
  show ?case
  proof (cases "k < length b")
    case True
    then have ne: "b ! k \<noteq> 0" using assms(1) nth_mem by metis
    obtain j where j: "m - k = Suc j" "m - Suc k = j"
      using k assms(4) by (metis Suc_diff_Suc less_le_trans)
    have "(take k b @ replicate (m - k) 0)[k := b ! k] = take (Suc k) b @ replicate (m - Suc k) 0"
      using True by (simp add: j list_update_append take_Suc_conv_app_nth)
    moreover have "[k..<n] = k # [Suc k..<n]" using k by (rule upt_conv_Cons)
    ultimately show ?thesis
      using Suc.hyps True ne by (simp add: Let_def)
  next
    case False
    then show ?thesis using Suc.prems k by (simp add: upt_conv_Cons)
  qed
qed

lemma copyBasenameToFilename_result:
  assumes "0 \<notin> set (extractBasenameFromPath path)"
  shows "copyBasenameToFilename path old =
    (let b = extractBasenameFromPath path
     in if length b < 256 then Some (b @ replicate (256 - length b) 0) else None)"
  using copy_chars_result[of "extractBasenameFromPath path" 0 255 256] assms
  by (simp add: copyBasenameToFilename_def Let_def)

section \<open>Quoting arguments\<close>

abbreviation backslash :: byte where "backslash \<equiv> 0x5C"
abbreviation dquote :: byte where "dquote \<equiv> 0x22"
abbreviation space :: byte where "space \<equiv> 0x20"

definition sane_char :: "byte \<Rightarrow> byte list" where
  "sane_char c =
     (if c = backslash then [backslash, backslash]
      else if c = dquote then [backslash, dquote] else [c])"

fun sane_argv :: "byte list \<Rightarrow> byte list \<Rightarrow> byte list" where
  "sane_argv [] sane = sane"
| "sane_argv (c # cs) sane = sane_argv cs (sane @ sane_char c)"

text \<open>\<open>argv\<close> are the arguments from \<^verbatim>\<open>start\<close> on.\<close>

fun sanitizeArguments :: "byte list list \<Rightarrow> byte list \<Rightarrow> byte list" where
  "sanitizeArguments [] command = command"
| "sanitizeArguments (a # argv) command =
     sanitizeArguments argv (command @ [space, dquote] @ sane_argv a [] @ [dquote])"

text \<open>
  Reading back what a double-quoted word means when only backslash and the quote are special:
  \<open>unquote\<close> returns the word up to the closing quote and the rest.
\<close>

fun unquote :: "byte list \<Rightarrow> byte list \<Rightarrow> (byte list \<times> byte list) option" where
  "unquote [] acc = None"
| "unquote (c # cs) acc =
     (if c = dquote then Some (acc, cs)
      else if c = backslash then
        (case cs of [] \<Rightarrow> None | e # es \<Rightarrow> unquote es (acc @ [e]))
      else unquote cs (acc @ [c]))"

fun read_words :: "nat \<Rightarrow> byte list \<Rightarrow> byte list list option" where
  "read_words 0 s = (if s = [] then Some [] else None)"
| "read_words (Suc n) s =
     (if take 2 s = [space, dquote] then
        do { (w, rest) \<leftarrow> unquote (drop 2 s) [];
             ws \<leftarrow> read_words n rest;
             Some (w # ws) }
      else None)"

lemma sane_argv_eq: "sane_argv cs sane = sane @ concat (map sane_char cs)"
  by (induction cs arbitrary: sane) auto

lemma unquote_sane: "unquote (concat (map sane_char cs) @ dquote # rest) acc = Some (acc @ cs, rest)"
  by (induction cs arbitrary: acc) (auto simp: sane_char_def)

lemma sanitizeArguments_append: "sanitizeArguments argv (c @ d) = c @ sanitizeArguments argv d"
  by (induction argv arbitrary: d) auto

lemma read_words_sanitize: "read_words (length argv) (sanitizeArguments argv []) = Some argv"
proof (induction argv)
  case (Cons a argv)
  have "sanitizeArguments (a # argv) []
      = space # dquote # (concat (map sane_char a) @ dquote # sanitizeArguments argv [])"
    using sanitizeArguments_append[of argv "[space, dquote] @ sane_argv a [] @ [dquote]" "[]"]
    by (simp add: sane_argv_eq)
  then show ?case by (simp only: list.size read_words.simps) (simp add: unquote_sane Cons)
qed simp

section \<open>Open modes\<close>

datatype openmode = ModeIn | ModeOut | ModeInOut

text \<open>\<open>None\<close> is the exception; every result also carries \<^verbatim>\<open>binary\<close>.\<close>

definition translateOpenMode :: "byte list \<Rightarrow> openmode option" where
  "translateOpenMode mode =
     (if mode = [0x72] then Some ModeIn
      else if mode = [0x77] then Some ModeOut
      else if mode = [0x72, 0x77] then Some ModeInOut
      else None)"

section \<open>Searching for binaries\<close>

abbreviation colon :: byte where "colon \<equiv> 0x3A"

fun split_env :: "byte list \<Rightarrow> byte list \<Rightarrow> byte list list \<Rightarrow> byte list list \<times> byte list" where
  "split_env [] buffer paths = (paths, buffer)"
| "split_env (c # cs) buffer paths =
     (if c = colon then split_env cs [] (paths @ [buffer])
      else split_env cs (buffer @ [c]) paths)"

text \<open>
  \<open>env\<close> is \<^verbatim>\<open>getenv("PATH")\<close> and \<open>fileExists\<close> is \<^verbatim>\<open>Util::fileExists\<close>, a \<^verbatim>\<open>stat\<close> call.
\<close>

definition searchForBinaries ::
    "(byte list \<Rightarrow> bool) \<Rightarrow> byte list option \<Rightarrow> byte list list \<Rightarrow> bool list" where
  "searchForBinaries fileExists env binaries =
     (case env of
        None \<Rightarrow> map (\<lambda>_. False) binaries
      | Some env_path \<Rightarrow>
          let (path_list, buffer) = split_env env_path [] [];
              path_list = (if buffer \<noteq> [] then path_list @ [buffer] else path_list)
          in map (\<lambda>b. list_ex (\<lambda>dir. fileExists (dir @ slash # b)) path_list) binaries)"

fun join_env :: "byte list list \<Rightarrow> byte list" where
  "join_env [] = []"
| "join_env [p] = p"
| "join_env (p # q # ps) = p @ colon # join_env (q # ps)"

lemma split_env_plain:
  "colon \<notin> set p \<Longrightarrow> split_env (p @ cs) b paths = split_env cs (b @ p) paths"
  by (induction p arbitrary: b) auto

lemma split_env_join:
  assumes "ps \<noteq> []" and "\<And>p. p \<in> set ps \<Longrightarrow> colon \<notin> set p"
  shows "split_env (join_env ps) [] acc = (acc @ butlast ps, last ps)"
  using assms
proof (induction ps arbitrary: acc rule: join_env.induct)
  case (2 p)
  then show ?case using split_env_plain[of p "[]" "[]"] by simp
next
  case (3 p q ps)
  then show ?case by (simp add: split_env_plain)
qed simp

lemma searchForBinaries_path:
  assumes "ps \<noteq> []" and "\<And>p. p \<in> set ps \<Longrightarrow> colon \<notin> set p \<and> p \<noteq> []"
  shows "searchForBinaries ex (Some (join_env ps)) bins
       = map (\<lambda>b. \<exists>p \<in> set ps. ex (p @ slash # b)) bins"
proof -
  have "last ps \<noteq> []" using assms by auto
  then show ?thesis
    using split_env_join[of ps "[]"] assms(1) assms(2)
    by (simp add: searchForBinaries_def list_ex_iff)
qed

end
