(* ===== verification/LowFS_Dir.thy ===== *)
theory LowFS_Dir
  imports FreeList_Free PathUtil
begin

text \<open>
  Directories in \<^verbatim>\<open>libapp/lowlevel/fs.cpp\<close>: entering a child into its parent's slots, taking it
  out, enumerating and looking up children, and resolving a path to an inode number; and the
  thin calls to \<^verbatim>\<open>FreeList\<close> (\<^verbatim>\<open>getFirstFreeBlock\<close>, \<^verbatim>\<open>isBlockFree\<close>, \<^verbatim>\<open>resetBlock\<close>).
\<close>

section \<open>Blocks\<close>

definition getFirstFreeBlock :: "inodetype \<Rightarrow> fsys \<Rightarrow> u32 \<times> fsys" where
  "getFirstFreeBlock ty s = allocateBlock s"

definition fs_isBlockFree :: "u32 \<Rightarrow> fsys \<Rightarrow> bool" where
  "fs_isBlockFree pos s = isBlockFree pos s"

definition resetBlock :: "u32 \<Rightarrow> fsys \<Rightarrow> (FSResult \<times> fsys) option" where
  "resetBlock pos s =
     (if isBlockFree pos s \<or> unat pos mod 4096 \<noteq> 0 then Some (E_FAILURE_INODE_NOT_VALID, s)
      else do { s \<leftarrow> freeBlock pos s; Some (E_SUCCESS, s) })"

section \<open>Slots\<close>

text \<open>
  \<^verbatim>\<open>while (ccinode != wanted && count < DIRECTORY_CHILDREN_MAX - 1)\<close>, where \<open>wanted\<close> is 0 when
  looking for an empty slot and the child's number when looking for its slot.
\<close>

function scan_children :: "u16 \<Rightarrow> u16 \<Rightarrow> nat \<Rightarrow> fsys \<Rightarrow> (u16 \<times> nat) \<times> fsys" where
  "scan_children wanted ccinode count s =
     (if ccinode \<noteq> wanted \<and> count < DIRECTORY_CHILDREN_MAX - 1
      then let (ccinode, s) = fd_doR16 ccinode s
           in scan_children wanted ccinode (count + 1) s
      else ((ccinode, count), s))"
  by pat_completeness auto

termination
  by (relation "measure (\<lambda>(w, c, count, s). DIRECTORY_CHILDREN_MAX - 1 - count)") auto

declare scan_children.simps [simp del]

text \<open>
  The body the two operations share: \<open>wanted\<close> is the slot value looked for, \<open>v\<close> what is put
  there, \<open>delta\<close> the change of the count and \<open>full\<close> the error when there is no such slot.
\<close>

definition addChildToDirectoryINode :: "u16 \<Rightarrow> u16 \<Rightarrow> fsys \<Rightarrow> (FSResult \<times> fsys) option" where
  "addChildToDirectoryINode parentid childid s =
     (if parentid = childid then Some (E_FAILURE_GENERAL, s) else
      let (pos, s) = getINodePositionByID parentid s;
          oldg = tellg s; oldp = tellp s;
          s = seekg (unat (pos + 2)) s;
          (parent_type, s) = fd_doR16 (type_code INT_UNSET) s
      in if parent_type \<noteq> type_code INT_DIRECTORY
         then Some (E_FAILURE_NOT_A_DIRECTORY, seekp_ex oldp (seekg oldg s))
         else
           let s = seekg (unat (pos + 294)) s;
               s = seekp_ex (unat (pos + 294)) s;
               (ccinode, s) = fd_doR16 0 s;
               ((ccinode, count), s) = scan_children 0 ccinode 0 s
           in if count = DIRECTORY_CHILDREN_MAX - 1 \<and> ccinode \<noteq> 0
              then Some (E_FAILURE_MAXIMUM_CHILDREN_REACHED, seekp_ex oldp (seekg oldg s))
              else
                let writeg = (of_nat (tellg s) :: u32);
                    s = seekp_ex (unat (writeg - 2)) s;
                    s = fd_doW16 childid s;
                    s = seekg (unat (pos + 292)) s;
                    (children_count_current, s) = fd_doR16 0 s;
                    s = seekp_ex (unat (pos + 292)) s;
                    s = fd_doW16 (children_count_current + 1) s;
                    s = seekp_ex oldp (seekg oldg s)
                in do { s \<leftarrow> updateTimes parentid False True True s;
                        Some (E_SUCCESS, s) })"

definition removeChildFromDirectoryINode :: "u16 \<Rightarrow> u16 \<Rightarrow> fsys \<Rightarrow> (FSResult \<times> fsys) option" where
  "removeChildFromDirectoryINode parentid childid s =
     (let (pos, s) = getINodePositionByID parentid s;
          oldg = tellg s; oldp = tellp s;
          s = seekg (unat (pos + 2)) s;
          (parent_type, s) = fd_doR16 (type_code INT_UNSET) s
      in if parent_type \<noteq> type_code INT_DIRECTORY
         then Some (E_FAILURE_NOT_A_DIRECTORY, seekp_ex oldp (seekg oldg s))
         else
           let s = seekg (unat (pos + 294)) s;
               s = seekp_ex (unat (pos + 294)) s;
               (ccinode, s) = fd_doR16 0 s;
               ((ccinode, count), s) = scan_children childid ccinode 0 s
           in if count = DIRECTORY_CHILDREN_MAX - 1 \<and> ccinode \<noteq> childid
              then Some (E_FAILURE_INVALID_FILENAME, seekp_ex oldp (seekg oldg s))
              else
                let writeg = (of_nat (tellg s) :: u32);
                    s = seekp_ex (unat (writeg - 2)) s;
                    s = fd_doW16 0 s;
                    s = seekg (unat (pos + 292)) s;
                    (children_count_current, s) = fd_doR16 0 s;
                    s = seekp_ex (unat (pos + 292)) s;
                    s = fd_doW16 (children_count_current - 1) s;
                    s = seekp_ex oldp (seekg oldg s)
                in do { s \<leftarrow> updateTimes parentid False True True s;
                        Some (E_SUCCESS, s) })"

section \<open>Enumeration and lookup\<close>

text \<open>
  The loops walk \<^verbatim>\<open>node.children\<close> while fewer than \<^verbatim>\<open>children_count\<close> used slots were seen; the
  list ends where \<^verbatim>\<open>total_looped\<close> reaches \<^verbatim>\<open>DIRECTORY_CHILDREN_MAX\<close>.
\<close>

fun children_loop :: "nat \<Rightarrow> nat \<Rightarrow> u16 list \<Rightarrow> inode list \<Rightarrow> fsys \<Rightarrow> (inode list \<times> fsys) option" where
  "children_loop count looped [] acc s = Some (acc, s)"
| "children_loop count looped (cinode # rest) acc s =
     (if \<not> looped < count then Some (acc, s)
      else if cinode = 0 then children_loop count looped rest acc s
      else do { (cnode, s) \<leftarrow> getINodeByID cinode s;
                children_loop count (looped + 1) rest
                  (if tabled_type (i_type cnode) then acc @ [cnode] else acc) s })"

definition getChildrenOfDirectory :: "u16 \<Rightarrow> fsys \<Rightarrow> (inode list \<times> fsys) option" where
  "getChildrenOfDirectory parentid s =
     do { (node, s) \<leftarrow> getINodeByID parentid s;
          if i_type node \<noteq> INT_DIRECTORY then Some ([], s)
          else children_loop (unat (i_children_count node)) 0 (i_children node) [] s }"

text \<open>The two overloads of \<^verbatim>\<open>getChildOfDirectory\<close> differ in the test on the child.\<close>

fun child_loop ::
    "(inode \<Rightarrow> bool) \<Rightarrow> nat \<Rightarrow> nat \<Rightarrow> u16 list \<Rightarrow> fsys \<Rightarrow> (inode \<times> fsys) option" where
  "child_loop test count looped [] s = Some (new_inode 0 INT_INVALID, s)"
| "child_loop test count looped (cinode # rest) s =
     (if \<not> looped < count then Some (new_inode 0 INT_INVALID, s)
      else if cinode = 0 then child_loop test count looped rest s
      else do { (cnode, s) \<leftarrow> getINodeByID cinode s;
                if tabled_type (i_type cnode) \<and> test cnode then Some (cnode, s)
                else child_loop test count (looped + 1) rest s })"

definition getChildOfDirectory_by :: "(inode \<Rightarrow> bool) \<Rightarrow> u16 \<Rightarrow> fsys \<Rightarrow> (inode \<times> fsys) option" where
  "getChildOfDirectory_by test parentid s =
     do { (node, s) \<leftarrow> getINodeByID parentid s;
          if i_type node = INT_INVALID then Some (new_inode 0 INT_INVALID, s)
          else child_loop test (unat (i_children_count node)) 0 (i_children node) s }"

definition getChildOfDirectory_id :: "u16 \<Rightarrow> u16 \<Rightarrow> fsys \<Rightarrow> (inode \<times> fsys) option" where
  "getChildOfDirectory_id parentid childid s =
     getChildOfDirectory_by (\<lambda>cnode. i_inodeid cnode = childid) parentid s"

definition getChildOfDirectory :: "u16 \<Rightarrow> byte list \<Rightarrow> fsys \<Rightarrow> (inode \<times> fsys) option" where
  "getChildOfDirectory parentid filename s =
     getChildOfDirectory_by (\<lambda>cnode. filename = cstr (i_filename cnode)) parentid s"

definition filenameIsUnique :: "u16 \<Rightarrow> byte list \<Rightarrow> fsys \<Rightarrow> (FSResult \<times> fsys) option" where
  "filenameIsUnique parentid filename s =
     do { (inodechildren, s) \<leftarrow> getChildrenOfDirectory parentid s;
          Some (if list_ex (\<lambda>n. filename = cstr (i_filename n)) inodechildren
                then E_FAILURE_NOT_UNIQUE else E_SUCCESS, s) }"

text \<open>\<open>-2\<close> is \<^verbatim>\<open>-ENOENT\<close>.\<close>

fun resolve_loop :: "byte list list \<Rightarrow> u16 \<Rightarrow> fsys \<Rightarrow> (int \<times> fsys) option" where
  "resolve_loop [] iid s = Some (int (unat iid), s)"
| "resolve_loop (c # cs) iid s =
     (if c = [0x2E] then resolve_loop cs iid s
      else if c = [0x2E, 0x2E] then
        do { (node, s) \<leftarrow> getINodeByID iid s;
             if i_type node = INT_INVALID then Some (- 2, s)
             else resolve_loop cs (i_parent node) s }
      else
        do { (node, s) \<leftarrow> getChildOfDirectory iid (cstr c) s;
             if i_type node = INT_INVALID then Some (- 2, s)
             else resolve_loop cs (i_inodeid node) s })"

definition resolvePathnameToINodeID :: "byte list \<Rightarrow> fsys \<Rightarrow> (int \<times> fsys) option" where
  "resolvePathnameToINodeID path s = resolve_loop (resolve_components path) 0 s"

end
