(* ===== verification/LowFS_File.thy ===== *)
theory LowFS_File
  imports LowFS_Dir
begin

text \<open>
  Files in \<^verbatim>\<open>libapp/lowlevel/fs.cpp\<close>: the segment list in a file's block, looking up the block
  of a position, and changing the length of a file.

  A file's block holds its inode and, from byte \<^verbatim>\<open>HSIZE_FILE\<close> on, the positions of its data
  blocks. The loops are written to continue in info blocks, but read their entries at
  \<^verbatim>\<open>bpos + i\<close>, in the file's own block, on every round.
\<close>

section \<open>Segment slots\<close>

text \<open>\<^verbatim>\<open>for (int i = hsize; i < BSIZE_FILE; i += 4)\<close>\<close>

definition segment_offsets :: "nat \<Rightarrow> nat list" where
  "segment_offsets hsize = map (\<lambda>k. hsize + 4 * k) [0..<(4096 - hsize + 3) div 4]"

text \<open>\<^verbatim>\<open>ceil(len / (double) BSIZE_FILE)\<close>; the division is exact in \<^verbatim>\<open>double\<close>.\<close>

definition ceil_blocks :: "u32 \<Rightarrow> nat" where
  "ceil_blocks len = (unat len + 4095) div 4096"

definition setFileLengthDirect :: "u32 \<Rightarrow> u32 \<Rightarrow> fsys \<Rightarrow> FSResult \<times> fsys" where
  "setFileLengthDirect pos len s =
     (let oldg = tellg s; oldp = tellp s;
          s = seekg (unat (pos + 2)) s;
          (type_raw, s) = fd_doR16 (type_code INT_INVALID) s
      in if type_raw = type_code INT_FILEINFO \<or> type_raw = type_code INT_SYMLINK then
           let s = seekp_ex (unat (pos + 298)) s;
               s = fd_doW32 len s;
               s = seekp_ex (unat (pos + 296)) s;
               blocks = (of_nat (ceil_blocks len) :: u16);
               s = fd_doW16 blocks s;
               s = seekp_ex oldp s;
               s = seekg oldg s;
               s = seekp oldp s
           in (E_SUCCESS, s)
         else (E_FAILURE_INVALID_POSITION, seekg oldg s))"

text \<open>
  The rounds of the segment loops. \<open>visit\<close> is the body of the \<^verbatim>\<open>for\<close> loop: it sees the offset
  and the value of a slot and either ends the loop or carries on.
\<close>

datatype ('a, 'b) loop = Stop 'b | Go 'a

fun seg_scan ::
    "(nat \<Rightarrow> u32 \<Rightarrow> 'a \<Rightarrow> fsys \<Rightarrow> ('a, 'b) loop \<times> fsys) \<Rightarrow> u32 \<Rightarrow> nat list \<Rightarrow> 'a \<Rightarrow> fsys
      \<Rightarrow> ('a, 'b) loop \<times> fsys" where
  "seg_scan visit bpos [] acc s = (Go acc, s)"
| "seg_scan visit bpos (i # is) acc s =
     (let s = seekg (unat (bpos + of_nat i)) s;
          (spos, s) = fd_doR32 0 s;
          (r, s) = visit i spos acc s
      in case r of Stop b \<Rightarrow> (Stop b, s) | Go acc \<Rightarrow> seg_scan visit bpos is acc s)"

text \<open>
  The \<^verbatim>\<open>while (ipos != 0)\<close> loop of the lookups: after a round the block at \<open>ipos\<close> must be a
  \<^verbatim>\<open>SEGINFO\<close> block for another one.
\<close>

partial_function (option) seg_rounds ::
    "(nat \<Rightarrow> u32 \<Rightarrow> 'a \<Rightarrow> fsys \<Rightarrow> ('a, 'b) loop \<times> fsys) \<Rightarrow> u32 \<Rightarrow> u32 \<Rightarrow> nat \<Rightarrow> 'a \<Rightarrow> fsys
      \<Rightarrow> (('a, 'b) loop \<times> fsys) option" where
  "seg_rounds visit bpos ipos hsize acc s =
     (if ipos = 0 then Some (Go acc, s)
      else
        let (r, s) = seg_scan visit bpos (segment_offsets hsize) acc s
        in case r of
             Stop b \<Rightarrow> Some (Stop b, s)
           | Go acc \<Rightarrow>
               do { (inode, s) \<leftarrow> getINodeByPosition ipos s;
                    if i_type inode \<noteq> INT_SEGINFO then Some (Go acc, s)
                    else seg_rounds visit bpos (i_info_next inode) HSIZE_SEGINFO acc s })"

definition setFileNextSegmentDirect :: "u16 \<Rightarrow> u32 \<Rightarrow> u32 \<Rightarrow> fsys \<Rightarrow> (FSResult \<times> fsys) option" where
  "setFileNextSegmentDirect iid pos seg_next s =
     (let oldg = tellg s;
          (bpos, s) = getINodePositionByID iid s
      in do { (node, s) \<leftarrow> getINodeByPosition bpos s;
              if i_type node \<noteq> INT_FILEINFO \<and> i_type node \<noteq> INT_SYMLINK
              then Some (E_FAILURE_NOT_A_FILE, s)
              else if bpos = pos then
                let oldp = tellp s;
                    s = seekg (unat (bpos + 302)) s;
                    s = fd_doW32 seg_next s;
                    s = seekp oldp s;
                    s = seekg oldg s
                in Some (E_SUCCESS, s)
              else do {
                (r, s) \<leftarrow> seg_rounds
                  (\<lambda>i spos gnext s.
                     if spos = 0 then (Stop E_FAILURE_INODE_NOT_ASSIGNED, s)
                     else if spos = pos then (Go True, s)
                     else if gnext then
                       let oldp = tellp s;
                           s = seekp (unat (bpos + of_nat i)) s;
                           s = fd_doW32 seg_next s;
                           s = seekp oldp s;
                           s = seekg oldg s
                       in (Stop E_SUCCESS, s)
                     else (Go gnext, s))
                  bpos bpos HSIZE_FILE False s;
                case r of
                  Stop res \<Rightarrow> Some (res, s)
                | Go _ \<Rightarrow> Some (E_FAILURE_INODE_NOT_ASSIGNED, seekg oldg s) } })"

definition getFileNextBlock :: "u16 \<Rightarrow> u32 \<Rightarrow> fsys \<Rightarrow> (u32 \<times> fsys) option" where
  "getFileNextBlock iid pos s =
     (let oldg = tellg s;
          (bpos, s) = getINodePositionByID iid s
      in do { (r, s) \<leftarrow> seg_rounds
                (\<lambda>i spos gnext s.
                   if spos = 0 then (Stop 0, s)
                   else if spos = pos then (Go True, s)
                   else if gnext then (Stop spos, s)
                   else (Go gnext, s))
                bpos bpos HSIZE_FILE False s;
              Some (case r of Stop v \<Rightarrow> v | Go _ \<Rightarrow> 0, seekg oldg s) })"

definition resolvePositionInFile :: "u16 \<Rightarrow> u32 \<Rightarrow> fsys \<Rightarrow> (u32 \<times> fsys) option" where
  "resolvePositionInFile inodeid pos s =
     (let oldg = tellg s;
          (bpos, s) = getINodePositionByID inodeid s
      in do { (r, s) \<leftarrow> seg_rounds
                (\<lambda>i spos bcount s.
                   if spos = 0 then (Stop 0, s)
                   else if bcount < pos \<and> bcount + 4096 < pos then (Go (bcount + 4096), s)
                   else if bcount < pos \<and> bcount + 4096 > pos then (Stop (spos + (pos - bcount)), s)
                   else (Stop 0, s))
                bpos bpos HSIZE_FILE (0 :: u32) s;
              Some (case r of Stop v \<Rightarrow> v | Go _ \<Rightarrow> 0, seekg oldg s) })"

section \<open>Info blocks\<close>

text \<open>\<^verbatim>\<open>for (uint32_t i = 0; i < n; i += step) c += 1;\<close> counts the steps below \<open>n\<close>.\<close>

definition count_steps :: "nat \<Rightarrow> nat \<Rightarrow> nat" where
  "count_steps n step = (n + step - 1) div step"

partial_function (option) info_positions :: "u32 \<Rightarrow> u32 list \<Rightarrow> fsys \<Rightarrow> (u32 list \<times> fsys) option" where
  "info_positions lpos list_positions s =
     (if lpos = 0 then Some (list_positions, s)
      else
        let list_positions = lpos # list_positions;
            s = seekg (unat (lpos + 4)) s;
            (lpos, s) = fd_doR32 lpos s
        in info_positions lpos list_positions s)"

text \<open>
  \<^verbatim>\<open>while (tilcount < cilcount)\<close>: the list is never shortened, so each round takes the same
  entry. An empty list is indexed out of range, which is \<open>None\<close> here.
\<close>

fun free_info_blocks :: "nat \<Rightarrow> u32 \<Rightarrow> u32 list \<Rightarrow> fsys \<Rightarrow> fsys option" where
  "free_info_blocks 0 pos list_positions s = Some s"
| "free_info_blocks (Suc n) pos list_positions s =
     (if list_positions = [] then None
      else
        let dpos = last list_positions;
            (ppos, poff) =
              (if length list_positions = 1 then (pos, 302)
               else (list_positions ! (length list_positions - 2), 4));
            s = seekp (unat (ppos + poff)) s;
            s = fd_doW32 0 s
        in do { (_, s) \<leftarrow> resetBlock dpos s;
                free_info_blocks n pos list_positions s })"

partial_function (option) last_info_block :: "u32 \<Rightarrow> u32 \<Rightarrow> fsys \<Rightarrow> (u32 \<times> fsys) option" where
  "last_info_block lpos ppos s =
     (if lpos = 0 then Some (ppos, s)
      else
        let ppos = lpos;
            s = seekg (unat (lpos + 4)) s;
            (lpos, s) = fd_doR32 lpos s
        in last_info_block lpos ppos s)"

fun add_info_blocks :: "nat \<Rightarrow> u32 \<Rightarrow> u32 \<Rightarrow> fsys \<Rightarrow> fsys" where
  "add_info_blocks 0 pos ppos s = s"
| "add_info_blocks (Suc n) pos ppos s =
     (let (npos, s) = allocateBlock s;
          (ppos, poff) = (if ppos = 0 then (pos, 302) else (ppos, 4));
          s = seekp (unat (ppos + poff)) s;
          s = fd_doW32 npos s
      in add_info_blocks n pos npos s)"

definition allocateInfoListBlocks :: "u32 \<Rightarrow> u32 \<Rightarrow> fsys \<Rightarrow> (FSResult \<times> fsys) option" where
  "allocateInfoListBlocks pos len s =
     do { (node, s) \<leftarrow> getINodeByPosition pos s;
          let in_file = (BSIZE_FILE - HSIZE_FILE) div 4;
          let in_info = (BSIZE_FILE - HSIZE_SEGINFO) div 4;
          let mcount = (let m = unat len div BSIZE_FILE in if m > in_file then m - in_file else 0);
          let ccount = (let c = unat (i_blocks node) in if c > in_file then c - in_file else 0);
          let tilcount = count_steps mcount in_info;
          let cilcount = count_steps ccount in_file;
          if tilcount = cilcount then Some (E_SUCCESS, s)
          else if tilcount < cilcount then
            let s = seekg (unat (pos + 302)) s;
                (lpos, s) = fd_doR32 0 s
            in do { (list_positions, s) \<leftarrow> info_positions lpos [] s;
                    s \<leftarrow> free_info_blocks (cilcount - tilcount) pos list_positions s;
                    Some (E_SUCCESS, s) }
          else
            let s = seekg (unat (pos + 302)) s;
                (lpos, s) = fd_doR32 0 s
            in do { (ppos, s) \<leftarrow> last_info_block lpos 0 s;
                    Some (E_SUCCESS, add_info_blocks (tilcount - cilcount) pos ppos s) } }"

section \<open>Changing the length\<close>

text \<open>
  The two loops of \<^verbatim>\<open>truncateFile\<close>. A slot that ends the \<^verbatim>\<open>for\<close> loop early also sets \<^verbatim>\<open>ipos\<close>
  to 0, which ends the \<^verbatim>\<open>while\<close> loop; a full round needs a \<^verbatim>\<open>SEGINFO\<close> block at \<open>ipos\<close> to go
  on and fails otherwise. The result says whether the loop ended regularly.
\<close>

fun shrink_scan :: "u32 \<Rightarrow> int \<Rightarrow> nat list \<Rightarrow> nat \<Rightarrow> fsys \<Rightarrow> ((bool \<times> nat) \<times> fsys) option" where
  "shrink_scan bpos keep [] bcount s = Some ((False, bcount), s)"
| "shrink_scan bpos keep (i # is) bcount s =
     (let s = seekg (unat (bpos + of_nat i)) s;
          (spos, s) = fd_doR32 0 s
      in if spos = 0 then Some ((True, bcount), s)
         else do {
           s \<leftarrow> (if int bcount \<ge> keep then
                   let s = seekp (unat (bpos + of_nat i)) s;
                       s = fd_doW32 0 s
                   in map_option snd (resetBlock spos s)
                 else Some s);
           shrink_scan bpos keep is (bcount + 1) s })"

partial_function (option) shrink_rounds ::
    "u32 \<Rightarrow> int \<Rightarrow> u32 \<Rightarrow> nat \<Rightarrow> nat \<Rightarrow> fsys \<Rightarrow> (bool \<times> fsys) option" where
  "shrink_rounds bpos keep ipos hsize bcount s =
     (if ipos = 0 then Some (True, s)
      else do {
        ((ended, bcount), s) \<leftarrow> shrink_scan bpos keep (segment_offsets hsize) bcount s;
        if ended then Some (True, s)
        else do {
          (inode, s) \<leftarrow> getINodeByPosition ipos s;
          if i_type inode \<noteq> INT_SEGINFO then Some (False, s)
          else shrink_rounds bpos keep (i_info_next inode) HSIZE_SEGINFO bcount s } })"

fun grow_scan :: "u32 \<Rightarrow> nat \<Rightarrow> nat list \<Rightarrow> nat \<Rightarrow> fsys \<Rightarrow> (bool \<times> nat) \<times> fsys" where
  "grow_scan bpos add [] bcount s = ((False, bcount), s)"
| "grow_scan bpos add (i # is) bcount s =
     (let s = seekg (unat (bpos + of_nat i)) s;
          (spos, s) = fd_doR32 0 s
      in if spos \<noteq> 0 then grow_scan bpos add is bcount s
         else if bcount < add then
           let (npos, s) = allocateBlock s;
               s = seekp (unat (bpos + of_nat i)) s;
               s = fd_doW32 npos s
           in grow_scan bpos add is (bcount + 1) s
         else ((True, bcount), s))"

partial_function (option) grow_rounds ::
    "u32 \<Rightarrow> nat \<Rightarrow> u32 \<Rightarrow> nat \<Rightarrow> nat \<Rightarrow> fsys \<Rightarrow> (bool \<times> fsys) option" where
  "grow_rounds bpos add ipos hsize bcount s =
     (if ipos = 0 then Some (True, s)
      else
        let ((ended, bcount), s) = grow_scan bpos add (segment_offsets hsize) bcount s
        in if ended then Some (True, s)
           else do {
             (inode, s) \<leftarrow> getINodeByPosition ipos s;
             if i_type inode \<noteq> INT_SEGINFO then Some (False, s)
             else grow_rounds bpos add (i_info_next inode) HSIZE_SEGINFO bcount s })"

text \<open>
  \<^verbatim>\<open>blocks_to_delete\<close> and \<^verbatim>\<open>blocks_to_add\<close> are the differences as 16-bit numbers (a difference
  that does not fit, which C++ leaves undefined, is taken modulo 2^16);
  \<^verbatim>\<open>node.blocks - blocks_to_delete\<close> is then an \<^verbatim>\<open>int\<close>, compared with a \<^verbatim>\<open>uint32_t\<close>.
\<close>

definition truncateFile :: "u16 \<Rightarrow> u32 \<Rightarrow> fsys \<Rightarrow> (FSResult \<times> fsys) option" where
  "truncateFile inodeid len s =
     (let oldg = tellg s; oldp = tellp s;
          (bpos, s) = getINodePositionByID inodeid s
      in do {
        (node, s) \<leftarrow> getINodeByPosition bpos s;
        if i_type node \<noteq> INT_FILEINFO \<and> i_type node \<noteq> INT_SYMLINK
        then Some (E_FAILURE_INODE_NOT_VALID, s)
        else if i_dat_len node = len then Some (E_SUCCESS, s)
        else if i_dat_len node > len then
          let blocks_to_delete = (i_blocks node - of_nat (ceil_blocks len) :: u16);
              keep = uint ((ucast (i_blocks node) :: u32) - ucast blocks_to_delete)
          in do {
            (ok, s) \<leftarrow> shrink_rounds bpos keep bpos HSIZE_FILE 0 s;
            if \<not> ok then Some (E_FAILURE_INODE_NOT_VALID, seekp oldp (seekg oldg s))
            else
              let (res, s) = setFileLengthDirect bpos len s
              in if res \<noteq> E_SUCCESS then Some (res, s)
                 else do {
                   (res, s) \<leftarrow> allocateInfoListBlocks bpos len s;
                   if res \<noteq> E_SUCCESS then Some (res, s)
                   else Some (E_SUCCESS, seekp oldp (seekg oldg s)) } }
        else do {
          (res, s) \<leftarrow> allocateInfoListBlocks bpos len s;
          if res \<noteq> E_SUCCESS then Some (res, s)
          else
            let blocks_to_add = (of_nat (ceil_blocks len) - i_blocks node :: u16)
            in do {
              (ok, s) \<leftarrow> grow_rounds bpos (unat blocks_to_add) bpos HSIZE_FILE 0 s;
              if \<not> ok then Some (E_FAILURE_INODE_NOT_VALID, seekp oldp (seekg oldg s))
              else
                let (res, s) = setFileLengthDirect bpos len s
                in if res \<noteq> E_SUCCESS then Some (res, s)
                   else Some (E_SUCCESS, seekp oldp (seekg oldg s)) } } })"

end
