(* ===== verification/FSFile.thy ===== *)
theory FSFile
  imports LowFS_File
begin

text \<open>
  \<^verbatim>\<open>libapp/fsfile.cpp\<close>: an open file with its own read and write positions and stream state,
  reading and writing the blocks the file's slots point to; and \<^verbatim>\<open>FS::setFileContents\<close> and
  \<^verbatim>\<open>FS::getFileContents\<close> of \<^verbatim>\<open>libapp/lowlevel/fs.cpp\<close>, which use it.

  A \<^verbatim>\<open>std::streamsize\<close> is a \<open>nat\<close>; mixed sums with the 32-bit positions are taken in it, as the
  64-bit arithmetic of the code does, and cut to 32 bits where the code stores them.
\<close>

section \<open>The open file\<close>

record fsfile =
  f_inodeid :: u16
  f_opened :: bool
  f_invalid :: bool
  f_posp :: u32
  f_posg :: u32
  f_state :: iostate

definition FSFile_new :: "u16 \<Rightarrow> fsfile" where
  "FSFile_new inodeid =
     \<lparr>f_inodeid = inodeid, f_opened = False, f_invalid = False, f_posp = 0, f_posg = 0,
      f_state = goodbit\<rparr>"

definition file_clear :: "iostate \<Rightarrow> fsfile \<Rightarrow> fsfile" where
  "file_clear st f = f\<lparr>f_state := st\<rparr>"

definition file_good :: "fsfile \<Rightarrow> bool" where "file_good f \<longleftrightarrow> f_state f = goodbit"
definition file_bad :: "fsfile \<Rightarrow> bool" where "file_bad f \<longleftrightarrow> badbit (f_state f)"
definition file_eof :: "fsfile \<Rightarrow> bool" where "file_eof f \<longleftrightarrow> eofbit (f_state f)"
definition file_fail :: "fsfile \<Rightarrow> bool" where "file_fail f \<longleftrightarrow> failbit (f_state f)"

definition file_open :: "fsfile \<Rightarrow> fsys \<Rightarrow> (fsfile \<times> fsys) option" where
  "file_open f s =
     (if file_bad f \<or> file_fail f then Some (f, s)
      else do { (node, s) \<leftarrow> getINodeByID (f_inodeid f) s;
                let f = f\<lparr>f_invalid := i_type node \<noteq> INT_FILEINFO \<and> i_type node \<noteq> INT_SYMLINK\<rparr>;
                if f_invalid f then Some (file_clear bad_fail f, s)
                else Some (f\<lparr>f_opened := True\<rparr>, s) })"

definition file_size :: "fsfile \<Rightarrow> fsys \<Rightarrow> (u32 \<times> fsys) option" where
  "file_size f s =
     do { (fnode, s) \<leftarrow> getINodeByID (f_inodeid f) s; Some (i_dat_len fnode, s) }"

definition file_truncate :: "nat \<Rightarrow> fsfile \<Rightarrow> fsys \<Rightarrow> (bool \<times> fsys) option" where
  "file_truncate len f s =
     (if file_bad f \<or> file_fail f then Some (False, s)
      else do { (fres, s) \<leftarrow> truncateFile (f_inodeid f) (of_nat len) s;
                Some (fres = E_SUCCESS, s) })"

definition file_close :: "fsfile \<Rightarrow> fsfile" where
  "file_close f = f\<lparr>f_opened := False\<rparr>"

definition file_seekp :: "nat \<Rightarrow> fsfile \<Rightarrow> fsfile" where
  "file_seekp pos f =
     (if file_bad f \<or> file_fail f then f
      else if f_invalid f \<or> \<not> f_opened f then file_clear bad_fail f
      else f\<lparr>f_posp := of_nat pos\<rparr>)"

definition file_seekg :: "nat \<Rightarrow> fsfile \<Rightarrow> fsfile" where
  "file_seekg pos f =
     (if file_bad f \<or> file_fail f then f
      else if f_invalid f \<or> \<not> f_opened f then file_clear bad_fail f
      else f\<lparr>f_posg := of_nat pos\<rparr>)"

text \<open>The loop over the rounds, which here does not look at the type of the block.\<close>

partial_function (option) file_rounds ::
    "(nat \<Rightarrow> u32 \<Rightarrow> 'a \<Rightarrow> fsys \<Rightarrow> ('a, 'b) loop \<times> fsys) \<Rightarrow> u32 \<Rightarrow> u32 \<Rightarrow> nat \<Rightarrow> 'a \<Rightarrow> fsys
      \<Rightarrow> (('a, 'b) loop \<times> fsys) option" where
  "file_rounds visit bpos ipos hsize acc s =
     (if ipos = 0 then Some (Go acc, s)
      else
        let (r, s) = seg_scan visit bpos (segment_offsets hsize) acc s
        in case r of
             Stop b \<Rightarrow> Some (Stop b, s)
           | Go acc \<Rightarrow>
               do { (inode, s) \<leftarrow> getINodeByPosition ipos s;
                    file_rounds visit bpos (i_info_next inode) HSIZE_SEGINFO acc s })"

section \<open>Writing\<close>

definition write_chunk ::
    "byte list \<Rightarrow> u32 \<Rightarrow> u32 \<Rightarrow> u32 \<Rightarrow> fsfile \<Rightarrow> fsys \<Rightarrow> (u32 \<times> fsfile) \<times> fsys" where
  "write_chunk data at stotal doff f s =
     (let s = seekp (unat at) s;
          s = fd_write (take (unat stotal) (drop (unat doff) data)) s
      in ((doff + stotal, f\<lparr>f_posp := f_posp f + stotal\<rparr>), s))"

definition write_visit ::
    "byte list \<Rightarrow> u32 \<Rightarrow> u32 \<Rightarrow> u32 \<Rightarrow> nat \<Rightarrow> nat \<Rightarrow> u32 \<Rightarrow> u32 \<times> u32 \<times> fsfile \<Rightarrow> fsys
      \<Rightarrow> (u32 \<times> u32 \<times> fsfile, fsfile) loop \<times> fsys" where
  "write_visit data fsize bstart bend old i spos acc s =
     (let (bcount, doff, f) = acc; count = (of_nat (length data) :: u32) in
      if fsize - f_posp f = 0 then (Stop (file_clear eof_only f), seekp old (seekg old s))
      else if spos = 0 then (Stop (file_clear eof_fail f), s)
      else if bcount < bstart then (Go (bcount + 1, doff, f), s)
      else if bcount = bstart then
        let soff = f_posp f - (f_posp f div 4096) * 4096;
            stotal = min (count - doff) (min (4096 - soff) (fsize - f_posp f));
            ((doff, f), s) = write_chunk data (spos + soff) stotal doff f s
        in if bcount = bend then
             (Stop (if f_posg f = fsize then file_clear eof_only f else f), seekp old (seekg old s))
           else (Go (bcount + 1, doff, f), s)
      else if bcount > bstart \<and> bcount < bend then
        let stotal = min (count - doff) (min 4096 (fsize - f_posp f));
            ((doff, f), s) = write_chunk data spos stotal doff f s
        in (Go (bcount + 1, doff, f), s)
      else if bcount > bstart \<and> bcount = bend then
        let srem = count - doff;
            stotal = min srem (min (count - doff) (min 4096 (fsize - f_posp f)));
            ((doff, f), s) = write_chunk data spos stotal doff f s
        in (Stop (if f_posp f = fsize then file_clear eof_only f else f), seekp old (seekg old s))
      else
        (Stop (if f_posp f = fsize then file_clear eof_only f else f), seekp old (seekg old s)))"

text \<open>
  \<open>data\<close> holds \<^verbatim>\<open>count\<close> bytes. \<open>bend\<close> is computed in 64 bits; at position 0 with nothing to
  write the quotient of -1 is 0, as the natural number is.
\<close>

definition file_write :: "byte list \<Rightarrow> fsfile \<Rightarrow> fsys \<Rightarrow> (fsfile \<times> fsys) option" where
  "file_write data f s =
     (if file_bad f \<or> file_fail f then Some (f, s)
      else if f_invalid f \<or> \<not> f_opened f then Some (file_clear bad_fail f, s)
      else
        let old = tellg s;
            (bpos, s) = getINodePositionByID (f_inodeid f) s;
            count = length data
        in do {
          (fsize, s) \<leftarrow> file_size f s;
          ((ok, fsize), s) \<leftarrow>
            (if unat fsize < unat (f_posp f) + count then
               do { (ok, s) \<leftarrow> file_truncate (unat (f_posp f) + count) f s;
                    if \<not> ok then Some ((False, fsize), s)
                    else do { (fsize, s) \<leftarrow> file_size f s; Some ((True, fsize), s) } }
             else Some ((True, fsize), s));
          if \<not> ok then Some (file_clear bad_fail f, s)
          else
            let bstart = f_posp f div 4096;
                bend = (of_nat ((unat (f_posp f) + count - 1) div 4096) :: u32)
            in do {
              (r, s) \<leftarrow> file_rounds (write_visit data fsize bstart bend old) bpos bpos HSIZE_FILE
                         (0, 0, f) s;
              Some (case r of Stop f \<Rightarrow> f | Go (_, _, f) \<Rightarrow> file_clear bad_fail f, s) } })"

section \<open>Reading\<close>

text \<open>\<^verbatim>\<open>read(out + doff, n)\<close> puts the bytes it got over those of the buffer.\<close>

definition buf_put :: "nat \<Rightarrow> byte list \<Rightarrow> byte list \<Rightarrow> byte list" where
  "buf_put k bs out = take k out @ bs @ drop (k + length bs) out"

definition read_chunk ::
    "u32 \<Rightarrow> u32 \<Rightarrow> u32 \<Rightarrow> u32 \<Rightarrow> byte list \<Rightarrow> fsfile \<Rightarrow> fsys
      \<Rightarrow> (u32 \<times> byte list \<times> fsfile) \<times> fsys" where
  "read_chunk at stotal fsize doff out f s =
     (let s = seekg (unat at) s;
          (bs, s) = fd_read (unat stotal) s;
          out = buf_put (unat doff) bs out;
          bread = (of_nat (length bs) :: u32)
      in if f_posg f + bread > fsize
         then ((doff + (fsize - f_posg f), out, f\<lparr>f_posg := fsize\<rparr>), s)
         else ((doff + bread, out, f\<lparr>f_posg := f_posg f + bread\<rparr>), s))"

definition read_end :: "u32 \<Rightarrow> u32 \<times> byte list \<times> fsfile \<Rightarrow> u32 \<times> byte list \<times> fsfile" where
  "read_end fsize r =
     (let (doff, out, f) = r
      in (doff, out, if f_posg f = fsize then file_clear eof_only f else f))"

definition read_visit ::
    "u32 \<Rightarrow> u32 \<Rightarrow> u32 \<Rightarrow> u32 \<Rightarrow> nat \<Rightarrow> nat \<Rightarrow> u32 \<Rightarrow> u32 \<times> u32 \<times> byte list \<times> fsfile \<Rightarrow> fsys
      \<Rightarrow> (u32 \<times> u32 \<times> byte list \<times> fsfile, u32 \<times> byte list \<times> fsfile) loop \<times> fsys" where
  "read_visit count fsize bstart bend old i spos acc s =
     (let (bcount, doff, out, f) = acc in
      if fsize - f_posg f = 0 then (Stop (doff, out, file_clear eof_only f), seekg old s)
      else if spos = 0 then (Stop (doff, out, file_clear eof_only f), s)
      else if bcount < bstart then (Go (bcount + 1, doff, out, f), s)
      else if bcount = bstart then
        let soff = f_posg f - (f_posg f div 4096) * 4096;
            stotal = min (count - doff) (min (4096 - soff) (fsize - f_posg f));
            ((doff, out, f), s) = read_chunk (spos + soff) stotal fsize doff out f s
        in if bcount = bend then (Stop (read_end fsize (doff, out, f)), seekg old s)
           else (Go (bcount + 1, doff, out, f), s)
      else if bcount > bstart \<and> bcount < bend then
        let stotal = min (count - doff) (min 4096 (fsize - f_posg f));
            ((doff, out, f), s) = read_chunk spos stotal fsize doff out f s
        in (Go (bcount + 1, doff, out, f), s)
      else if bcount > bstart \<and> bcount = bend then
        let srem = count - doff;
            stotal = min srem (min (count - doff) (min 4096 (fsize - f_posg f)));
            ((doff, out, f), s) = read_chunk spos stotal fsize doff out f s
        in (Stop (read_end fsize (doff, out, f)), seekg old s)
      else (Stop (read_end fsize (doff, out, f)), seekg old s))"

text \<open>\<open>out\<close> is the caller's buffer of at least \<open>count\<close> bytes; the result is what \<^verbatim>\<open>read\<close> returns.\<close>

definition file_read ::
    "nat \<Rightarrow> byte list \<Rightarrow> fsfile \<Rightarrow> fsys \<Rightarrow> ((u32 \<times> byte list \<times> fsfile) \<times> fsys) option" where
  "file_read count out f s =
     (if file_bad f \<or> file_fail f then Some ((0, out, f), s)
      else if f_invalid f \<or> \<not> f_opened f then Some ((0, out, file_clear bad_fail f), s)
      else
        let old = tellg s;
            (bpos, s) = getINodePositionByID (f_inodeid f) s;
            bstart = f_posg f div 4096;
            bend = (of_nat ((unat (f_posg f) + count - 1) div 4096) :: u32)
        in do {
          (fsize, s) \<leftarrow> file_size f s;
          (r, s) \<leftarrow> file_rounds (read_visit (of_nat count) fsize bstart bend old) bpos bpos HSIZE_FILE
                     (0, 0, out, f) s;
          Some (case r of Stop r \<Rightarrow> r | Go (_, _, out, f) \<Rightarrow> (0, out, f), s) })"

section \<open>Whole contents\<close>

definition getFile :: "u16 \<Rightarrow> fsfile" where
  "getFile inodeid = FSFile_new inodeid"

definition setFileContents :: "u16 \<Rightarrow> byte list \<Rightarrow> fsys \<Rightarrow> (FSResult \<times> fsys) option" where
  "setFileContents iid data s =
     (let f = getFile iid
      in do {
        (_, s) \<leftarrow> file_truncate (length data) f s;
        if file_fail f then Some (E_FAILURE_GENERAL, s) else do {
        (f, s) \<leftarrow> file_open f s;
        if file_fail f then Some (E_FAILURE_GENERAL, s) else
        let f = file_seekp 0 f in
        if file_fail f then Some (E_FAILURE_GENERAL, s) else do {
        (f, s) \<leftarrow> file_write data f s;
        if file_fail f then Some (E_FAILURE_GENERAL, s) else
        let f = file_close f in
        if file_fail f then Some (E_FAILURE_GENERAL, s) else Some (E_SUCCESS, s) } } })"

text \<open>\<open>fresh\<close> is what \<^verbatim>\<open>malloc\<close> returned.\<close>

definition getFileContents ::
    "(nat \<Rightarrow> byte list) \<Rightarrow> u16 \<Rightarrow> u32 \<Rightarrow> fsys \<Rightarrow> ((FSResult \<times> byte list \<times> u32) \<times> fsys) option" where
  "getFileContents fresh iid len_max s =
     (let f = getFile iid
      in do {
        (fsize, s) \<leftarrow> file_size f s;
        let len_out = (if fsize < len_max then fsize else len_max);
        let data_out = fresh (unat len_out);
        if file_fail f then Some ((E_FAILURE_GENERAL, data_out, len_out), s) else do {
        (f, s) \<leftarrow> file_open f s;
        if file_fail f then Some ((E_FAILURE_GENERAL, data_out, len_out), s) else
        let f = file_seekg 0 f in
        if file_fail f then Some ((E_FAILURE_GENERAL, data_out, len_out), s) else do {
        ((_, data_out, f), s) \<leftarrow> file_read (unat len_out) data_out f s;
        if file_fail f then Some ((E_FAILURE_GENERAL, data_out, len_out), s) else
        let f = file_close f in
        if file_fail f then Some ((E_FAILURE_GENERAL, data_out, len_out), s)
        else Some ((E_SUCCESS, data_out, len_out), s) } } })"

end
