(* ===== verification/AppFS_FS.thy ===== *)
theory AppFS_FS
  imports FSFile
begin

text \<open>
  The class \<^verbatim>\<open>AppLib::FS\<close> (\<^verbatim>\<open>libapp/fs.cpp\<close>): the operations a mounted package offers, on paths.

  An operation is a computation on the low-level filesystem that returns a value or throws
  one of the exceptions of \<^verbatim>\<open>libapp/exception/\<close>; \<open>None\<close> means that it does not return, or that it
  indexes a vector out of range, which C++ leaves undefined.
\<close>

section \<open>Exceptions\<close>

datatype exn =
    PathNotValid | FileNotFound | NoFreeSpace | AccessDenied | FileExists | NotADirectory
  | IsADirectory | DirectoryNotEmpty | FileTooBig | NotSupported | FilenameTooLong
  | INodeSaveInvalid | INodeSaveFailed | INodeExhaustion | InternalInconsistency
  | DirectoryChildLimitReached | PackageNotFound | PackageNotValid

type_synonym 'a act = "fsys \<Rightarrow> ((exn + 'a) \<times> fsys) option"

definition ret :: "'a \<Rightarrow> 'a act" where
  "ret x s = Some (Inr x, s)"

definition throw :: "exn \<Rightarrow> 'a act" where
  "throw e s = Some (Inl e, s)"

definition bindE :: "'a act \<Rightarrow> ('a \<Rightarrow> 'b act) \<Rightarrow> 'b act" where
  "bindE m k s =
     (case m s of
        None \<Rightarrow> None
      | Some (Inl e, s) \<Rightarrow> Some (Inl e, s)
      | Some (Inr x, s) \<Rightarrow> k x s)"

definition seqE :: "unit act \<Rightarrow> 'b act \<Rightarrow> 'b act" where
  "seqE m k = bindE m (\<lambda>_. k)"

text \<open>A call into the low-level filesystem, and one that always returns.\<close>

definition low :: "(fsys \<Rightarrow> ('a \<times> fsys) option) \<Rightarrow> 'a act" where
  "low m s = map_option (\<lambda>(x, s). (Inr x, s)) (m s)"

definition low_total :: "(fsys \<Rightarrow> 'a \<times> fsys) \<Rightarrow> 'a act" where
  "low_total m s = (let (x, s) = m s in Some (Inr x, s))"

text \<open>\<^verbatim>\<open>try { m } catch (...) { h; throw; }\<close> and \<^verbatim>\<open>catch (e) { h }\<close> for one exception.\<close>

definition on_throw :: "'a act \<Rightarrow> unit act \<Rightarrow> 'a act" where
  "on_throw m h s =
     (case m s of
        Some (Inl e, s) \<Rightarrow> bindE h (\<lambda>_. throw e) s
      | r \<Rightarrow> r)"

definition catch_exn :: "'a act \<Rightarrow> exn \<Rightarrow> 'a act \<Rightarrow> 'a act" where
  "catch_exn m e h s =
     (case m s of
        Some (Inl e', s) \<Rightarrow> if e' = e then h s else Some (Inl e', s)
      | r \<Rightarrow> r)"

definition throw_if :: "bool \<Rightarrow> exn \<Rightarrow> unit act" where
  "throw_if b e = (if b then throw e else ret ())"

definition getTime :: "u64 act" where
  "getTime = low_total fs_now"

section \<open>Paths\<close>

definition ensurePathIsValid :: "byte list \<Rightarrow> unit act" where
  "ensurePathIsValid path =
     (let res = verifyPath path (splitPathBySeperators path)
      in if res = E_FAILURE_INVALID_PATH then throw PathNotValid
         else if res = E_FAILURE_INVALID_FILENAME then throw FilenameTooLong
         else if res \<noteq> E_SUCCESS then throw InternalInconsistency
         else ret ())"

fun exists_loop :: "byte list list \<Rightarrow> inode \<Rightarrow> unit act" where
  "exists_loop [] buf = ret ()"
| "exists_loop (c # cs) buf =
     bindE (low (getChildOfDirectory (i_inodeid buf) c)) (\<lambda>buf.
       if i_type buf = INT_INVALID then throw FileNotFound else exists_loop cs buf)"

definition ensurePathExists :: "byte list \<Rightarrow> unit act" where
  "ensurePathExists path =
     seqE (ensurePathIsValid path)
       (bindE (low (getINodeByID 0)) (\<lambda>buf. exists_loop (splitPathBySeperators path) buf))"

text \<open>
  \<^verbatim>\<open>components.size() - 1\<close> is the largest \<^verbatim>\<open>size_t\<close> for the root path, and the loop then indexes
  an empty vector.
\<close>

fun parent_loop :: "byte list list \<Rightarrow> inode \<Rightarrow> inode act" where
  "parent_loop [] buf = ret buf"
| "parent_loop (c # cs) buf =
     bindE (low (getChildOfDirectory (i_inodeid buf) c)) (\<lambda>buf.
       if i_type buf = INT_INVALID then throw FileNotFound else parent_loop cs buf)"

definition ensurePathIsAvailable :: "byte list \<Rightarrow> unit act" where
  "ensurePathIsAvailable path =
     seqE (ensurePathIsValid path)
       (let components = splitPathBySeperators path
        in bindE (low (getINodeByID 0)) (\<lambda>buf.
           if components = [] then (\<lambda>s. None)
           else bindE (parent_loop (butlast components) buf) (\<lambda>buf.
                bindE (low (getChildOfDirectory (i_inodeid buf) (cstr (last components)))) (\<lambda>buf.
                if i_type buf = INT_INVALID then ret () else throw FileExists))))"

text \<open>\<^verbatim>\<open>retrievePathToINode\<close>: the result and the inode left in \<^verbatim>\<open>out\<close>.\<close>

fun retrieve_loop :: "byte list list \<Rightarrow> inode \<Rightarrow> (bool \<times> inode) act" where
  "retrieve_loop [] out = ret (True, out)"
| "retrieve_loop (c # cs) out =
     bindE (low (getChildOfDirectory (i_inodeid out) c)) (\<lambda>out.
       if i_type out = INT_INVALID then ret (False, out) else retrieve_loop cs out)"

definition retrieve_components :: "byte list list \<Rightarrow> (bool \<times> inode) act" where
  "retrieve_components cs =
     bindE (low (getINodeByID 0)) (\<lambda>out.
     bindE (retrieve_loop cs out) (\<lambda>(found, out).
       if \<not> found then ret (False, out)
       else if i_type out = INT_INVALID then ret (False, out)
       else if i_type out = INT_HARDLINK then
         bindE (low (inode_resolve out)) (\<lambda>out. ret (True, out))
       else ret (True, out)))"

definition retrievePathToINode :: "byte list \<Rightarrow> (bool \<times> inode) act" where
  "retrievePathToINode path =
     seqE (ensurePathIsValid path) (retrieve_components (splitPathBySeperators path))"

text \<open>With limit -1; on the root path the bound wraps and the vector is indexed out of range.\<close>

definition retrieveParentPathToINode :: "byte list \<Rightarrow> (bool \<times> inode) act" where
  "retrieveParentPathToINode path =
     seqE (ensurePathIsValid path)
       (let components = splitPathBySeperators path
        in if components = [] then (\<lambda>s. None) else retrieve_components (butlast components))"

text \<open>\<^verbatim>\<open>if (!this->retrievePathToINode(path, buf)) throw Exception::FileNotFound();\<close>\<close>

definition need :: "(bool \<times> inode) act \<Rightarrow> inode act" where
  "need m = bindE m (\<lambda>(found, n). if found then ret n else throw FileNotFound)"

definition ensurePathRenamability :: "byte list \<Rightarrow> u32 \<Rightarrow> unit act" where
  "ensurePathRenamability path uid =
     catch_exn (ensurePathIsAvailable path) FileExists
       (bindE (need (retrievePathToINode path)) (\<lambda>child.
        bindE (need (retrieveParentPathToINode path)) (\<lambda>parent.
          throw_if (i_mask parent AND 0x200 \<noteq> 0
                    \<and> \<not> (ucast (i_uid child) = uid \<or> ucast (i_uid parent) = uid)) AccessDenied)))"

definition checkPermission :: "byte list \<Rightarrow> bool act" where
  "checkPermission path = seqE (ensurePathIsValid path) (ret True)"

section \<open>Saving inodes\<close>

definition saveINode :: "inode \<Rightarrow> unit act" where
  "saveINode buf =
     (if i_type buf = INT_INVALID \<or> i_type buf = INT_UNSET then throw INodeSaveInvalid
      else bindE (low_total (updateINode buf)) (\<lambda>res. throw_if (res \<noteq> E_SUCCESS) INodeSaveFailed))"

definition saveNewINode :: "u32 \<Rightarrow> inode \<Rightarrow> unit act" where
  "saveNewINode pos buf =
     (if i_type buf = INT_INVALID \<or> i_type buf = INT_UNSET then throw INodeSaveInvalid
      else bindE (low_total (writeINode pos buf)) (\<lambda>res. throw_if (res \<noteq> E_SUCCESS) INodeSaveFailed))"

text \<open>\<^verbatim>\<open>S_IFDIR\<close> is 0040000, \<^verbatim>\<open>S_IFLNK\<close> 0120000 and \<^verbatim>\<open>S_IFREG\<close> 0100000.\<close>

definition S_IFDIR :: u32 where "S_IFDIR = 0x4000"
definition S_IFLNK :: u32 where "S_IFLNK = 0xA000"
definition S_IFREG :: u32 where "S_IFREG = 0x8000"

definition extractMaskFromMode :: "u32 \<Rightarrow> u32" where
  "extractMaskFromMode mode =
     (if mode AND S_IFDIR \<noteq> 0 then mode AND NOT S_IFDIR
      else if mode AND S_IFLNK \<noteq> 0 then mode AND NOT S_IFLNK
      else if mode AND S_IFREG \<noteq> 0 then mode AND NOT S_IFREG
      else mode)"

definition assignNewINode :: "inodetype \<Rightarrow> (inode \<times> u32) act" where
  "assignNewINode ty =
     (if ty = INT_INVALID \<or> ty = INT_UNSET then throw INodeSaveInvalid else
      bindE (low_total (getFirstFreeBlock (if ty = INT_DIRECTORY then ty else INT_FILEINFO))) (\<lambda>pos.
      if pos = 0 then throw NoFreeSpace else
      bindE (low getFirstFreeINodeNumber) (\<lambda>iid.
      if iid = 0 then throw INodeExhaustion else
      let buf = (new_inode 0 INT_UNSET)\<lparr>i_inodeid := iid, i_type := ty\<rparr>
      in if unat pos < OFFSET_DATA then throw INodeSaveInvalid
         else bindE (low_total (\<lambda>s. if ty \<noteq> INT_SEGINFO \<and> ty \<noteq> INT_FREELIST
                                    then getINodePositionByID iid s else (0, s))) (\<lambda>old.
           if old \<noteq> 0 then throw INodeSaveInvalid
           else bindE (low_total (\<lambda>s. ((), reserveINodeID iid s))) (\<lambda>_. ret (buf, pos))))))"

text \<open>The letters of \<open>modes\<close> are looked for in the order a, m, c.\<close>

definition touch_field :: "byte \<Rightarrow> byte list \<Rightarrow> (u64 \<Rightarrow> inode \<Rightarrow> inode) \<Rightarrow> inode \<Rightarrow> inode act" where
  "touch_field c modes upd node =
     (if c \<in> set modes then bindE getTime (\<lambda>t. ret (upd t node)) else ret node)"

definition touchINode :: "inode \<Rightarrow> byte list \<Rightarrow> inode act" where
  "touchINode node modes =
     bindE (touch_field 0x61 modes (\<lambda>t. i_atime_update (\<lambda>_. t)) node) (\<lambda>node.
     bindE (touch_field 0x6D modes (\<lambda>t. i_mtime_update (\<lambda>_. t)) node) (\<lambda>node.
     touch_field 0x63 modes (\<lambda>t. i_ctime_update (\<lambda>_. t)) node))"

abbreviation mode_c :: "byte list" where "mode_c \<equiv> [0x63]"
abbreviation mode_ca :: "byte list" where "mode_ca \<equiv> [0x63, 0x61]"
abbreviation mode_cma :: "byte list" where "mode_cma \<equiv> [0x63, 0x6D, 0x61]"
abbreviation mode_a :: "byte list" where "mode_a \<equiv> [0x61]"

definition touch :: "byte list \<Rightarrow> byte list \<Rightarrow> unit act" where
  "touch path modes =
     bindE (need (retrievePathToINode path)) (\<lambda>child.
     bindE (touchINode child modes) saveINode)"

section \<open>Creation\<close>

definition throw_add :: "FSResult \<Rightarrow> unit act" where
  "throw_add res =
     (if res = E_FAILURE_NOT_A_DIRECTORY then throw NotADirectory
      else if res = E_FAILURE_MAXIMUM_CHILDREN_REACHED then throw DirectoryChildLimitReached
      else if res \<noteq> E_SUCCESS then throw InternalInconsistency
      else ret ())"

definition throw_remove :: "FSResult \<Rightarrow> unit act" where
  "throw_remove res =
     (if res = E_FAILURE_NOT_A_DIRECTORY then throw NotADirectory
      else if res = E_FAILURE_INVALID_FILENAME then throw FileNotFound
      else if res \<noteq> E_SUCCESS then throw InternalInconsistency
      else ret ())"

type_synonym cred = "u32 \<times> u32"

definition performCreation ::
    "cred \<Rightarrow> inodetype \<Rightarrow> byte list \<Rightarrow> u32 \<Rightarrow> (inode \<Rightarrow> inode) \<Rightarrow> inode act" where
  "performCreation cred ty path mode configuration =
     seqE (ensurePathIsAvailable path)
     (bindE (need (retrieveParentPathToINode path)) (\<lambda>parent.
      bindE (assignNewINode ty) (\<lambda>(child, pos).
      bindE (on_throw
        (bindE getTime (\<lambda>ct. bindE getTime (\<lambda>mt. bindE getTime (\<lambda>at.
           let child = child\<lparr>i_mask := ucast (extractMaskFromMode mode), i_ctime := ct,
                             i_mtime := mt, i_atime := at,
                             i_uid := ucast (fst cred), i_gid := ucast (snd cred)\<rparr>;
               child = configuration child;
               child = setFilename (cstr (extractBasenameFromPath path)) [] child
           in seqE (saveNewINode pos child) (ret child)))))
        (low_total (\<lambda>s. ((), unreserveINodeID (i_inodeid child) s)))) (\<lambda>child.
      bindE (on_throw
        (bindE (low (addChildToDirectoryINode (i_inodeid parent) (i_inodeid child))) throw_add)
        (bindE (low (resetBlock pos)) (\<lambda>_. ret ()))) (\<lambda>_.
      ret child)))))"

definition mknod :: "cred \<Rightarrow> byte list \<Rightarrow> u32 \<Rightarrow> nat \<Rightarrow> nat \<Rightarrow> unit act" where
  "mknod cred path mode major minor =
     bindE (performCreation cred INT_DEVICE path mode
       (\<lambda>buf. buf\<lparr>i_dev := of_nat minor, i_rdev := of_nat major\<rparr>)) (\<lambda>_. ret ())"

definition mkdir :: "cred \<Rightarrow> byte list \<Rightarrow> u32 \<Rightarrow> unit act" where
  "mkdir cred path mode = bindE (performCreation cred INT_DIRECTORY path mode (\<lambda>buf. buf)) (\<lambda>_. ret ())"

definition create :: "cred \<Rightarrow> byte list \<Rightarrow> u32 \<Rightarrow> unit act" where
  "create cred path mode = bindE (performCreation cred INT_FILEINFO path mode (\<lambda>buf. buf)) (\<lambda>_. ret ())"

section \<open>Removal\<close>

definition free_inode :: "u32 \<Rightarrow> u16 \<Rightarrow> unit act" where
  "free_inode pos iid =
     bindE (low (resetBlock pos)) (\<lambda>res.
     if res \<noteq> E_SUCCESS then throw InternalInconsistency
     else bindE (low_total (setINodePositionByID iid 0)) (\<lambda>res.
          throw_if (res \<noteq> E_SUCCESS) InternalInconsistency))"

definition unlink :: "byte list \<Rightarrow> unit act" where
  "unlink path =
     bindE (need (retrievePathToINode path)) (\<lambda>child.
     bindE (need (retrieveParentPathToINode path)) (\<lambda>parent.
     if i_type child = INT_DIRECTORY then throw IsADirectory
     else if i_type child \<noteq> INT_FILEINFO \<and> i_type child \<noteq> INT_SYMLINK \<and> i_type child \<noteq> INT_DEVICE
     then throw InternalInconsistency else
     bindE (low_total (getINodePositionByID (i_inodeid child))) (\<lambda>pos.
     if pos = 0 then throw InternalInconsistency else
     bindE (low (inode_resolve child)) (\<lambda>real.
     bindE (low (removeChildFromDirectoryINode (i_inodeid parent) (i_inodeid real))) (\<lambda>res.
     seqE (throw_remove res)
     (seqE (if i_inodeid real \<noteq> i_inodeid child then
              bindE (low_total (getINodePositionByID (i_inodeid real))) (\<lambda>rpos.
              free_inode rpos (i_inodeid real))
            else ret ())
     (bindE getTime (\<lambda>t.
      let child = child\<lparr>i_nlink := i_nlink child - 1, i_ctime := t\<rparr>
      in if i_nlink child = 0 then
           bindE (low (truncateFile (i_inodeid child) 0)) (\<lambda>_.
           free_inode pos (i_inodeid child))
         else saveINode child))))))))"

definition rmdir :: "byte list \<Rightarrow> unit act" where
  "rmdir path =
     bindE (need (retrievePathToINode path)) (\<lambda>child.
     bindE (need (retrieveParentPathToINode path)) (\<lambda>parent.
     if i_type child \<noteq> INT_DIRECTORY then throw NotADirectory
     else if i_children_count child \<noteq> 0 then throw DirectoryNotEmpty else
     bindE (low_total (getINodePositionByID (i_inodeid child))) (\<lambda>pos.
     if pos = 0 then throw InternalInconsistency else
     bindE (low (removeChildFromDirectoryINode (i_inodeid parent) (i_inodeid child))) (\<lambda>res.
     seqE (throw_remove res) (free_inode pos (i_inodeid child))))))"

section \<open>Links and renaming\<close>

definition symlink :: "cred \<Rightarrow> byte list \<Rightarrow> byte list \<Rightarrow> unit act" where
  "symlink cred linkPath targetPath =
     bindE (performCreation cred INT_SYMLINK linkPath 0x1ED (\<lambda>buf. buf)) (\<lambda>_.
     bindE (need (retrievePathToINode linkPath)) (\<lambda>buf.
     on_throw
       (bindE (low (file_open (getFile (i_inodeid buf)))) (\<lambda>f.
        bindE (low (file_write targetPath f)) (\<lambda>f.
        let f = file_close f
        in throw_if (file_fail f \<or> file_bad f) InternalInconsistency)))
       (unlink linkPath)))"

definition rename :: "cred \<Rightarrow> byte list \<Rightarrow> byte list \<Rightarrow> unit act" where
  "rename cred srcPath destPath =
     seqE (ensurePathRenamability destPath (fst cred))
     (seqE (ensurePathExists srcPath)
     (bindE (need (retrievePathToINode srcPath)) (\<lambda>child.
      bindE (need (retrieveParentPathToINode srcPath)) (\<lambda>srcParent.
      bindE (need (retrieveParentPathToINode destPath)) (\<lambda>destParent.
      bindE (retrievePathToINode destPath) (\<lambda>(found, prev).
      seqE (if found then
              (if i_type prev = INT_DIRECTORY then rmdir destPath else unlink destPath)
            else ret ())
      (seqE (if i_inodeid srcParent \<noteq> i_inodeid destParent then
               bindE (low (addChildToDirectoryINode (i_inodeid destParent) (i_inodeid child))) (\<lambda>res.
               seqE (throw_add res)
               (bindE (low (removeChildFromDirectoryINode (i_inodeid srcParent) (i_inodeid child)))
                  throw_remove))
             else ret ())
      (bindE (touchINode
                (setFilename (cstr (extractBasenameFromPath destPath)) [] child) mode_c)
         saveINode))))))))"

definition link :: "cred \<Rightarrow> byte list \<Rightarrow> byte list \<Rightarrow> unit act" where
  "link cred linkPath targetPath =
     seqE (ensurePathIsAvailable linkPath)
     (seqE (ensurePathExists targetPath)
     (bindE (need (retrievePathToINode targetPath)) (\<lambda>child.
      if i_type child = INT_DIRECTORY then throw IsADirectory
      else if i_type child \<noteq> INT_FILEINFO \<and> i_type child \<noteq> INT_DEVICE then throw NotSupported
      else
      bindE (need (retrieveParentPathToINode linkPath)) (\<lambda>parent.
      bindE (performCreation cred INT_HARDLINK linkPath 0
               (\<lambda>buf. buf\<lparr>i_realid := i_inodeid child\<rparr>)) (\<lambda>_.
      bindE (touchINode (child\<lparr>i_nlink := i_nlink child + 1\<rparr>) mode_c) saveINode)))))"

section \<open>Attributes\<close>

record stat =
  st_ino :: u16
  st_dev :: u16
  st_mode :: u32
  st_nlink :: u16
  st_uid :: u16
  st_gid :: u16
  st_rdev :: u16
  st_atime :: u64
  st_mtime :: u64
  st_ctime :: u64
  st_size :: u32
  st_blksize :: nat
  st_blocks :: u16

definition stat_of :: "inode \<Rightarrow> stat option" where
  "stat_of buf =
     (let st = \<lparr>st_ino = i_inodeid buf, st_dev = i_dev buf, st_mode = ucast (i_mask buf),
                st_nlink = i_nlink buf, st_uid = i_uid buf, st_gid = i_gid buf,
                st_rdev = i_rdev buf, st_atime = i_atime buf, st_mtime = i_mtime buf,
                st_ctime = i_ctime buf, st_size = 0, st_blksize = 0, st_blocks = 0\<rparr>
      in if i_type buf = INT_FILEINFO \<or> i_type buf = INT_SYMLINK \<or> i_type buf = INT_DEVICE then
           let st = st\<lparr>st_size := i_dat_len buf, st_blksize := BSIZE_FILE,
                       st_blocks := i_blocks buf\<rparr>
           in Some (if i_type buf = INT_FILEINFO then st\<lparr>st_mode := S_IFREG OR st_mode st\<rparr>
                    else if i_type buf = INT_SYMLINK then st\<lparr>st_mode := S_IFLNK OR st_mode st\<rparr>
                    else st)
         else if i_type buf = INT_DIRECTORY then
           Some (st\<lparr>st_size := of_nat BSIZE_DIRECTORY, st_blksize := BSIZE_FILE,
                    st_blocks := of_nat (BSIZE_DIRECTORY div BSIZE_FILE),
                    st_mode := S_IFDIR OR st_mode st\<rparr>)
         else None)"

definition getattr :: "byte list \<Rightarrow> stat act" where
  "getattr path =
     bindE (need (retrievePathToINode path)) (\<lambda>buf.
     if \<not> tabled_type (i_type buf) then throw FileNotFound else
     bindE (if i_type buf = INT_HARDLINK then low (inode_resolve buf) else ret buf) (\<lambda>buf.
     case stat_of buf of Some st \<Rightarrow> ret st | None \<Rightarrow> throw InternalInconsistency))"

definition chmod :: "byte list \<Rightarrow> u32 \<Rightarrow> unit act" where
  "chmod path mode =
     bindE (need (retrievePathToINode path)) (\<lambda>child.
     bindE (touchINode (child\<lparr>i_mask := ucast (extractMaskFromMode mode)\<rparr>) mode_ca) saveINode)"

text \<open>\<^verbatim>\<open>-1\<close> as a \<^verbatim>\<open>uid_t\<close> or \<^verbatim>\<open>gid_t\<close> leaves the owner or the group as it is.\<close>

definition chown :: "byte list \<Rightarrow> u32 \<Rightarrow> u32 \<Rightarrow> unit act" where
  "chown path uid gid =
     bindE (need (retrievePathToINode path)) (\<lambda>child.
     let child = (if uid \<noteq> - 1 then child\<lparr>i_uid := ucast uid\<rparr> else child);
         child = (if gid \<noteq> - 1 then child\<lparr>i_gid := ucast gid\<rparr> else child)
     in bindE (touchINode child mode_ca) saveINode)"

definition utimens :: "byte list \<Rightarrow> u64 \<Rightarrow> u64 \<Rightarrow> unit act" where
  "utimens path access modification =
     seqE (ensurePathExists path)
     (bindE (need (retrievePathToINode path)) (\<lambda>buf.
      saveINode (buf\<lparr>i_atime := access, i_mtime := modification\<rparr>)))"

section \<open>Contents\<close>

text \<open>\<open>fresh n\<close> is what \<^verbatim>\<open>malloc\<close> returned for a buffer of \<open>n\<close> bytes.\<close>

definition readlink :: "(nat \<Rightarrow> byte list) \<Rightarrow> byte list \<Rightarrow> byte list act" where
  "readlink fresh path =
     bindE (need (retrievePathToINode path)) (\<lambda>buf.
     if i_type buf = INT_SYMLINK then
       bindE (low (file_open (FSFile_new (i_inodeid buf)))) (\<lambda>file.
       bindE (low (file_read (unat (i_dat_len buf)) (fresh (unat (i_dat_len buf) + 1)) file))
         (\<lambda>(count, buffer, file).
          let stop = (if count < i_dat_len buf then unat count else unat (i_dat_len buf));
              result = cstr (buffer[stop := 0])
          in if count \<noteq> i_dat_len buf then throw InternalInconsistency else ret result))
     else throw NotSupported)"

definition truncate_path :: "byte list \<Rightarrow> int \<Rightarrow> unit act" where
  "truncate_path path sz =
     (if sz > int MSIZE_FILE then throw FileTooBig else
      seqE (ensurePathExists path)
      (bindE (need (retrievePathToINode path)) (\<lambda>buf.
       bindE (touchINode buf mode_cma) (\<lambda>buf.
       seqE (saveINode buf)
       (bindE (low (file_open (getFile (i_inodeid buf)))) (\<lambda>file.
        bindE (low (file_truncate (nat (sz mod 2 ^ 32)) file)) (\<lambda>_.
        let file = file_close file
        in throw_if (file_fail file \<or> file_bad file) InternalInconsistency)))))))"

definition open_path :: "byte list \<Rightarrow> fsfile act" where
  "open_path path =
     seqE (ensurePathExists path)
     (bindE (need (retrievePathToINode path)) (\<lambda>buf.
      low (file_open (getFile (i_inodeid buf)))))"

definition readdir :: "byte list \<Rightarrow> byte list list act" where
  "readdir path =
     seqE (ensurePathExists path)
     (bindE (need (retrievePathToINode path)) (\<lambda>buf.
      if i_type buf \<noteq> INT_DIRECTORY then throw NotADirectory else
      bindE (low (getChildrenOfDirectory (i_inodeid buf))) (\<lambda>children.
      ret (map (\<lambda>n. cstr (i_filename n)) children))))"

end
