(* ===== verification/FuseLink.thy ===== *)
theory FuseLink
  imports AppFS_FS
begin

text \<open>
  \<^verbatim>\<open>libapp/internal/fuselink.cpp\<close>: the callbacks that FUSE invokes. Each sets the user and group
  of the caller, runs an operation of \<^verbatim>\<open>AppLib::FS\<close> and turns an exception into an error number.
  The context \<open>ctx\<close> is \<^verbatim>\<open>fuse_get_context()\<close>, which is outside the program.
\<close>

section \<open>The mounted filesystem\<close>

record mounted =
  m_fs :: fsys
  m_uid :: u32
  m_gid :: u32

definition setuid :: "u32 \<Rightarrow> mounted \<Rightarrow> mounted" where
  "setuid uid m = m\<lparr>m_uid := uid\<rparr>"

definition setgid :: "u32 \<Rightarrow> mounted \<Rightarrow> mounted" where
  "setgid gid m = m\<lparr>m_gid := gid\<rparr>"

definition m_cred :: "mounted \<Rightarrow> cred" where
  "m_cred m = (m_uid m, m_gid m)"

text \<open>\<^verbatim>\<open>AppLib::FS::FS\<close> on the file found at the path; the defaults of uid and gid are 0.\<close>

definition AppFS_new :: "disk option \<Rightarrow> (nat \<Rightarrow> u64) \<Rightarrow> u32 \<Rightarrow> u32 \<Rightarrow> (exn + mounted) option" where
  "AppFS_new file clk uid gid =
     (case file of
        None \<Rightarrow> Some (Inl PackageNotFound)
      | Some d \<Rightarrow> map_option (\<lambda>s. Inr \<lparr>m_fs = s, m_uid = uid, m_gid = gid\<rparr>)
                    (FreeList_new (disk_seek 0 d) clk))"

section \<open>Error numbers\<close>

fun handleException :: "exn \<Rightarrow> int" where
  "handleException PathNotValid = - 5"
| "handleException FileNotFound = - 2"
| "handleException NoFreeSpace = - 28"
| "handleException AccessDenied = - 13"
| "handleException FileExists = - 17"
| "handleException NotADirectory = - 20"
| "handleException IsADirectory = - 21"
| "handleException DirectoryNotEmpty = - 39"
| "handleException FileTooBig = - 27"
| "handleException NotSupported = - 95"
| "handleException FilenameTooLong = - 36"
| "handleException INodeSaveInvalid = - 5"
| "handleException INodeSaveFailed = - 5"
| "handleException INodeExhaustion = - 5"
| "handleException InternalInconsistency = - 5"
| "handleException DirectoryChildLimitReached = - 5"
| "handleException PackageNotFound = - 5"
| "handleException PackageNotValid = - 5"

section \<open>Callbacks\<close>

text \<open>What every callback does around its operation; \<open>ok\<close> is the value on success.\<close>

definition callback ::
    "(u32 \<times> u32) \<Rightarrow> (cred \<Rightarrow> 'a act) \<Rightarrow> ('a \<Rightarrow> int \<times> 'b) \<Rightarrow> 'b \<Rightarrow> mounted
      \<Rightarrow> ((int \<times> 'b) \<times> mounted) option" where
  "callback ctx op ok dflt m =
     (let m = setuid (fst ctx) m;
          m = setgid (snd ctx) m
      in case op (m_cred m) (m_fs m) of
           None \<Rightarrow> None
         | Some (Inl e, s) \<Rightarrow> Some ((handleException e, dflt), m\<lparr>m_fs := s\<rparr>)
         | Some (Inr x, s) \<Rightarrow> Some (ok x, m\<lparr>m_fs := s\<rparr>))"

definition simple_callback ::
    "(u32 \<times> u32) \<Rightarrow> (cred \<Rightarrow> unit act) \<Rightarrow> mounted \<Rightarrow> ((int \<times> unit) \<times> mounted) option" where
  "simple_callback ctx op m = callback ctx op (\<lambda>_. (0, ())) () m"

definition fuse_getattr where
  "fuse_getattr ctx path m = callback ctx (\<lambda>_. getattr path) (\<lambda>st. (0, Some st)) None m"

text \<open>The target, cut to the buffer of \<open>n\<close> bytes and padded with NULs.\<close>

definition fuse_readlink where
  "fuse_readlink fresh ctx path n out m =
     callback ctx (\<lambda>_. readlink fresh path)
       (\<lambda>result. (0, take n result @ replicate (n - length result) 0 @ drop n out)) out m"

definition fuse_mknod where
  "fuse_mknod ctx path mode major minor m =
     simple_callback ctx (\<lambda>c. mknod c path mode major minor) m"

definition fuse_mkdir where
  "fuse_mkdir ctx path mode m = simple_callback ctx (\<lambda>c. mkdir c path mode) m"

definition fuse_unlink where
  "fuse_unlink ctx path m = simple_callback ctx (\<lambda>_. unlink path) m"

definition fuse_rmdir where
  "fuse_rmdir ctx path m = simple_callback ctx (\<lambda>_. rmdir path) m"

definition fuse_symlink where
  "fuse_symlink ctx target path m = simple_callback ctx (\<lambda>c. symlink c path target) m"

definition fuse_rename where
  "fuse_rename ctx src dest m = simple_callback ctx (\<lambda>c. rename c src dest) m"

definition fuse_link where
  "fuse_link ctx target path m = simple_callback ctx (\<lambda>c. link c path target) m"

definition fuse_chmod where
  "fuse_chmod ctx path mode m = simple_callback ctx (\<lambda>_. chmod path mode) m"

definition fuse_chown where
  "fuse_chown ctx path user grp m = simple_callback ctx (\<lambda>_. chown path user grp) m"

definition fuse_truncate where
  "fuse_truncate ctx path sz m = simple_callback ctx (\<lambda>_. truncate_path path sz) m"

definition fuse_open where
  "fuse_open ctx path m =
     simple_callback ctx (\<lambda>_. bindE (open_path path) (\<lambda>file. let file = file_close file in ret ())) m"

definition fuse_create where
  "fuse_create ctx path mode m = simple_callback ctx (\<lambda>c. create c path mode) m"

definition fuse_utimens where
  "fuse_utimens ctx path access modification m =
     simple_callback ctx (\<lambda>_. utimens path access modification) m"

definition fuse_readdir where
  "fuse_readdir ctx path m =
     callback ctx (\<lambda>_. readdir path) (\<lambda>names. (0, [[0x2E], [0x2E, 0x2E]] @ names)) [] m"

text \<open>
  The size check of \<^verbatim>\<open>read\<close> and \<^verbatim>\<open>write\<close>: the sum is taken modulo 2^64. The result of the
  operation itself is the pair of the number to return and the buffer.
\<close>

definition too_big :: "int \<Rightarrow> nat \<Rightarrow> bool" where
  "too_big off len \<longleftrightarrow> off > int MSIZE_FILE \<or> (off + int len) mod 2 ^ 64 > int MSIZE_FILE"

definition fuse_read where
  "fuse_read ctx path out len off m =
     callback ctx (\<lambda>_.
       if too_big off len then ret (- 27, out) else
       seqE (touch path mode_a)
       (bindE (open_path path) (\<lambda>file.
        bindE (low (file_read len out (file_seekg (nat (off mod 2 ^ 32)) file))) (\<lambda>(n, out, file).
        let file = file_close file
        in ret (if file_fail file \<or> file_bad file then - 5 else sint n, out)))))
       (\<lambda>r. r) out m"

definition fuse_write where
  "fuse_write ctx path data off m =
     callback ctx (\<lambda>_.
       if too_big off (length data) then ret (- 27) else
       seqE (touch path mode_cma)
       (bindE (open_path path) (\<lambda>file.
        bindE (low (file_write data (file_seekp (nat (off mod 2 ^ 32)) file))) (\<lambda>file.
        let file = file_close file
        in ret (if file_fail file \<or> file_bad file then - 5
               else sint (of_nat (length data) :: u32))))))
       (\<lambda>r. (r, ())) () m"

section \<open>The table of operations\<close>

text \<open>
  What the kernel asks of the mounted package, a call with its arguments for each entry that \<^verbatim>\<open>Mounter\<close> sets in
  \<^verbatim>\<open>fuse_operations\<close>, and the dispatch by that table. \<^verbatim>\<open>init\<close> and \<^verbatim>\<open>destroy\<close> are not requests on the package.
\<close>

datatype request =
    Req_getattr "byte list"
  | Req_readlink "byte list" nat "byte list"
  | Req_mknod "byte list" u32 nat nat
  | Req_mkdir "byte list" u32
  | Req_unlink "byte list"
  | Req_rmdir "byte list"
  | Req_symlink "byte list" "byte list"
  | Req_rename "byte list" "byte list"
  | Req_link "byte list" "byte list"
  | Req_chmod "byte list" u32
  | Req_chown "byte list" u32 u32
  | Req_truncate "byte list" int
  | Req_open "byte list"
  | Req_read "byte list" "byte list" nat int
  | Req_write "byte list" "byte list" int
  | Req_readdir "byte list"
  | Req_create "byte list" u32
  | Req_utimens "byte list" u64 u64

datatype reply = Rep_none | Rep_stat "stat option" | Rep_buffer "byte list" | Rep_names "byte list list"

definition replied :: "('a \<Rightarrow> reply) \<Rightarrow> ((int \<times> 'a) \<times> mounted) option \<Rightarrow> ((int \<times> reply) \<times> mounted) option" where
  "replied f r = map_option (\<lambda>((n, x), m). ((n, f x), m)) r"

fun serve :: "(nat \<Rightarrow> byte list) \<Rightarrow> u32 \<times> u32 \<Rightarrow> request \<Rightarrow> mounted \<Rightarrow> ((int \<times> reply) \<times> mounted) option" where
  "serve fresh ctx (Req_getattr p) m = replied Rep_stat (fuse_getattr ctx p m)"
| "serve fresh ctx (Req_readlink p n out) m = replied Rep_buffer (fuse_readlink fresh ctx p n out m)"
| "serve fresh ctx (Req_mknod p mode mj mn) m = replied (\<lambda>_. Rep_none) (fuse_mknod ctx p mode mj mn m)"
| "serve fresh ctx (Req_mkdir p mode) m = replied (\<lambda>_. Rep_none) (fuse_mkdir ctx p mode m)"
| "serve fresh ctx (Req_unlink p) m = replied (\<lambda>_. Rep_none) (fuse_unlink ctx p m)"
| "serve fresh ctx (Req_rmdir p) m = replied (\<lambda>_. Rep_none) (fuse_rmdir ctx p m)"
| "serve fresh ctx (Req_symlink t p) m = replied (\<lambda>_. Rep_none) (fuse_symlink ctx t p m)"
| "serve fresh ctx (Req_rename p q) m = replied (\<lambda>_. Rep_none) (fuse_rename ctx p q m)"
| "serve fresh ctx (Req_link t p) m = replied (\<lambda>_. Rep_none) (fuse_link ctx t p m)"
| "serve fresh ctx (Req_chmod p mode) m = replied (\<lambda>_. Rep_none) (fuse_chmod ctx p mode m)"
| "serve fresh ctx (Req_chown p u g) m = replied (\<lambda>_. Rep_none) (fuse_chown ctx p u g m)"
| "serve fresh ctx (Req_truncate p n) m = replied (\<lambda>_. Rep_none) (fuse_truncate ctx p n m)"
| "serve fresh ctx (Req_open p) m = replied (\<lambda>_. Rep_none) (fuse_open ctx p m)"
| "serve fresh ctx (Req_read p out n off) m = replied Rep_buffer (fuse_read ctx p out n off m)"
| "serve fresh ctx (Req_write p data off) m = replied (\<lambda>_. Rep_none) (fuse_write ctx p data off m)"
| "serve fresh ctx (Req_readdir p) m = replied Rep_names (fuse_readdir ctx p m)"
| "serve fresh ctx (Req_create p mode) m = replied (\<lambda>_. Rep_none) (fuse_create ctx p mode m)"
| "serve fresh ctx (Req_utimens p a mt) m = replied (\<lambda>_. Rep_none) (fuse_utimens ctx p a mt m)"

lemma handleException_negative: "handleException e < 0"
  by (cases e) simp_all

lemma callback_eq:
  "callback ctx op ok dflt m =
     (case op ctx (m_fs m) of
        None \<Rightarrow> None
      | Some (r, s) \<Rightarrow>
          Some (case r of Inl e \<Rightarrow> (handleException e, dflt) | Inr x \<Rightarrow> ok x,
                \<lparr>m_fs = s, m_uid = fst ctx, m_gid = snd ctx\<rparr>))"
  by (simp add: callback_def setuid_def setgid_def m_cred_def Let_def split: option.split sum.split)

end
