(* ===== verification/LowFS_DirProps.thy ===== *)
theory LowFS_DirProps
  imports LowFS_Dir
begin

text \<open>
  What the directory operations do: the slot scans, the closed form of entering and removing a
  child as the replacement of the parent's block, the frame for every other inode, and
  enumeration and lookup as list functions over the children.
\<close>

section \<open>Equal packages\<close>

text \<open>Two packages with the same bytes and the same size (the file position may differ).\<close>

definition disk_eq :: "disk \<Rightarrow> disk \<Rightarrow> bool" where
  "disk_eq d e \<longleftrightarrow> byte_at d = byte_at e \<and> dsize d = dsize e"

lemma disk_eq_refl [simp]: "disk_eq d d"
  by (simp add: disk_eq_def)

lemma disk_eq_trans: "disk_eq d e \<Longrightarrow> disk_eq e f \<Longrightarrow> disk_eq d f"
  by (simp add: disk_eq_def)

lemma disk_eq_fields:
  assumes "disk_eq d e"
  shows "u16_at d = u16_at e" "u32_at d = u32_at e" "lookup_at d = lookup_at e"
    "inode_at d = inode_at e" "raw_by_id d = raw_by_id e" "node_by_id d = node_by_id e"
    "table_ok d = table_ok e" "links_ok d = links_ok e" "dsize d = dsize e"
proof -
  have b: "byte_at d = byte_at e" and s: "dsize d = dsize e" using assms by (simp_all add: disk_eq_def)
  show u: "u16_at d = u16_at e" "u32_at d = u32_at e" using at_cong[OF b] by simp_all
  show l: "lookup_at d = lookup_at e" by (simp add: lookup_at_def[abs_def] u)
  show i: "inode_at d = inode_at e" by (rule ext, rule inode_at_cong) (simp add: b)
  show r: "raw_by_id d = raw_by_id e" by (simp only: raw_by_id_def[abs_def] l i)
  show "node_by_id d = node_by_id e" by (simp only: node_by_id_def[abs_def] link_target_view_def[abs_def] r)
  show "table_ok d = table_ok e" "links_ok d = links_ok e" "dsize d = dsize e"
    by (simp_all only: table_ok_def links_ok_def l r s)
qed

lemma disk_eq_put: "disk_eq d e \<Longrightarrow> disk_eq (put_bytes p bs d) (put_bytes p bs e)"
  by (auto simp: disk_eq_def byte_at_put_bytes fun_eq_iff)

lemma disk_eq_put_cover:
  "p \<le> q \<Longrightarrow> q + length bs \<le> p + length cs \<Longrightarrow>
   disk_eq (put_bytes p cs (put_bytes q bs d)) (put_bytes p cs d)"
  by (cases bs; cases cs) (auto simp: disk_eq_def byte_at_put_bytes fun_eq_iff)

lemma disk_eq_put_same:
  "u32_at d p = v \<Longrightarrow> p + 4 \<le> dsize d \<Longrightarrow> disk_eq (put_bytes p (enc32 v) d) d"
  by (simp add: disk_eq_def lookup_put_self)

section \<open>Updating an inode in place\<close>

lemma updateINode_disk:
  assumes ty: "tabled_type (i_type n)" and ver: "inode_verify n"
    and pos: "lookup_at (fs_disk s) (i_inodeid n) = p" and ok: "block_ok (fs_disk s) p"
  shows "\<exists>s'. updateINode n s = (E_SUCCESS, s')
    \<and> disk_eq (fs_disk s') (put_bytes (unat p) (getBinaryRepresentation n) (fs_disk s))
    \<and> fs_cache s' = fs_cache s \<and> fs_reserved s' = fs_reserved s
    \<and> fs_clock s' = fs_clock s \<and> fs_ticks s' = fs_ticks s \<and> fd_tell s' = fd_tell s"
proof -
  let ?d = "put_bytes (unat p) (getBinaryRepresentation n) (fs_disk s)"
  have valid: "checkINodePositionIsValid p = E_SUCCESS" using ok by (simp add: block_ok_def)
  have ge: "OFFSET_FSINFO \<le> unat p" using block_okD(1)[OF ok] by (simp add: config)
  have "u32_at ?d (lookup_addr (i_inodeid n)) = p"
    using lookup_at_put_data[OF ge] pos by (simp add: lookup_at_def)
  moreover have "lookup_addr (i_inodeid n) + 4 \<le> dsize ?d"
    using lookup_addr_bounds(2)[of "i_inodeid n"] ge block_okD(4)[OF ok]
      dsize_put_mono[of "fs_disk s" "unat p" "getBinaryRepresentation n"] by linarith
  ultimately have "disk_eq (put_bytes (lookup_addr (i_inodeid n)) (enc32 p) ?d) ?d"
    by (rule disk_eq_put_same)
  then show ?thesis
    using updateINode_ok[OF ty ver pos block_okD(5)[OF ok] valid] by (simp add: fd_simps)
qed

section \<open>A directory on disk\<close>

definition dir_at :: "disk \<Rightarrow> u16 \<Rightarrow> u32 \<Rightarrow> inode \<Rightarrow> bool" where
  "dir_at d iid p n \<longleftrightarrow>
     lookup_at d iid = p \<and> block_ok d p \<and> inode_at d (unat p) = n \<and>
     i_type n = INT_DIRECTORY \<and> i_inodeid n = iid"

lemma inode_at_type_code:
  assumes "i_type (inode_at d p) = ty" and "ty \<noteq> INT_INVALID"
  shows "type_of_code (u16_at d (p + 2)) = ty"
  using assms
  by (cases "type_of_code (u16_at d (p + 2))")
     (auto simp: inode_at_def head_at_def named_at_def Let_def simp del: add_2_eq_Suc' split: if_splits)

lemma inode_at_directory:
  assumes "i_type (inode_at d p) = INT_DIRECTORY"
  shows "inode_at d p = (new_inode 0 INT_INVALID)
    \<lparr>i_inodeid := u16_at d p, i_type := INT_DIRECTORY,
     i_filename := slice (byte_at d) (p + 4) 256,
     i_uid := u16_at d (p + 260), i_gid := u16_at d (p + 262), i_mask := u16_at d (p + 264),
     i_atime := u64_at d (p + 266), i_mtime := u64_at d (p + 274), i_ctime := u64_at d (p + 282),
     i_parent := u16_at d (p + 290), i_children_count := u16_at d (p + 292),
     i_children := dec16s DIRECTORY_CHILDREN_MAX (slice (byte_at d) (p + 294) 3802)\<rparr>"
    and "inode_verify (inode_at d p)"
proof -
  have ty: "type_of_code (u16_at d (p + 2)) = INT_DIRECTORY"
    using inode_at_type_code[OF assms] by simp
  show "inode_at d p = (new_inode 0 INT_INVALID)
    \<lparr>i_inodeid := u16_at d p, i_type := INT_DIRECTORY,
     i_filename := slice (byte_at d) (p + 4) 256,
     i_uid := u16_at d (p + 260), i_gid := u16_at d (p + 262), i_mask := u16_at d (p + 264),
     i_atime := u64_at d (p + 266), i_mtime := u64_at d (p + 274), i_ctime := u64_at d (p + 282),
     i_parent := u16_at d (p + 290), i_children_count := u16_at d (p + 292),
     i_children := dec16s DIRECTORY_CHILDREN_MAX (slice (byte_at d) (p + 294) 3802)\<rparr>"
    "inode_verify (inode_at d p)"
    using assms ty
    by (simp_all add: inode_at_def head_at_def named_at_def Let_def del: add_2_eq_Suc' split: if_split_asm)
qed

lemma type_of_code_directory: "type_of_code w = INT_DIRECTORY \<longleftrightarrow> w = 3"
  by (simp add: type_of_code_def)

lemma dir_children_eq:
  assumes "i_type (inode_at d p) = INT_DIRECTORY"
  shows "i_children (inode_at d p) = dec16s DIRECTORY_CHILDREN_MAX (slice (byte_at d) (p + 294) 3802)"
  by (subst inode_at_directory(1)[OF assms]) simp

lemma length_dir_children:
  assumes "i_type (inode_at d p) = INT_DIRECTORY"
  shows "length (i_children (inode_at d p)) = DIRECTORY_CHILDREN_MAX"
  by (simp only: dir_children_eq[OF assms] length_dec16s)

lemma dir_slot:
  assumes "i_type (inode_at d p) = INT_DIRECTORY" and "k < DIRECTORY_CHILDREN_MAX"
  shows "i_children (inode_at d p) ! k = u16_at d (p + 294 + 2 * k)"
proof -
  have "2 * k + 2 \<le> 3802" using assms(2) by (simp add: config)
  then show ?thesis
    by (simp only: dir_children_eq[OF assms(1)] nth_dec16s[OF assms(2)] u16_at_def slice_slice)
qed

section \<open>The slot scan\<close>

definition slot_index :: "u16 \<Rightarrow> u16 list \<Rightarrow> nat" where
  "slot_index w cs = length (takeWhile (\<lambda>c. c \<noteq> w) cs)"

lemma slot_index_member:
  "w \<in> set cs \<Longrightarrow> slot_index w cs < length cs \<and> cs ! slot_index w cs = w"
  by (induction cs) (auto simp: slot_index_def)

lemma slot_index_first: "j < slot_index w cs \<Longrightarrow> cs ! j \<noteq> w"
proof (induction cs arbitrary: j)
  case (Cons c cs)
  then show ?case by (cases j) (auto simp: slot_index_def split: if_splits)
qed (simp add: slot_index_def)

lemma scan_children_result:
  assumes size: "unat p + 4096 \<le> dsize (fs_disk s)"
    and C: "\<And>k. k < 1901 \<Longrightarrow> u16_at (fs_disk s) (unat p + 294 + 2 * k) = cs ! k"
    and "k + n = 1900"
  shows "\<exists>m. scan_children w (cs ! k) k (fd_seek (unat p + 296 + 2 * k) s)
      = ((cs ! m, m), fd_seek (unat p + 296 + 2 * m) s)
    \<and> k \<le> m \<and> m \<le> 1900 \<and> (\<forall>j. k \<le> j \<and> j < m \<longrightarrow> cs ! j \<noteq> w) \<and> (cs ! m = w \<or> m = 1900)"
  using assms(3)
proof (induction n arbitrary: k)
  case 0
  then show ?case
    by (subst scan_children.simps) (auto simp: config intro!: exI[of _ 1900])
next
  case (Suc n)
  show ?case
  proof (cases "cs ! k = w")
    case True
    then show ?thesis
      using Suc.prems by (subst scan_children.simps) (auto intro!: exI[of _ k])
  next
    case False
    have k: "k < 1900" using Suc.prems by simp
    have "fd_doR16 v (fd_seek (unat p + 296 + 2 * k) s)
        = (cs ! (k + 1), fd_seek (unat p + 296 + 2 * (k + 1)) s)" for v
      using size k C[of "k + 1"] by (simp add: fd_simps algebra_simps)
    then have step: "scan_children w (cs ! k) k (fd_seek (unat p + 296 + 2 * k) s)
        = scan_children w (cs ! (k + 1)) (k + 1) (fd_seek (unat p + 296 + 2 * (k + 1)) s)"
      using False k by (subst scan_children.simps) (simp add: config)
    from Suc.IH[of "k + 1"] Suc.prems obtain m where
      m: "scan_children w (cs ! (k + 1)) (k + 1) (fd_seek (unat p + 296 + 2 * (k + 1)) s)
          = ((cs ! m, m), fd_seek (unat p + 296 + 2 * m) s)" "k + 1 \<le> m" "m \<le> 1900"
        "\<And>j. k + 1 \<le> j \<Longrightarrow> j < m \<Longrightarrow> cs ! j \<noteq> w" "cs ! m = w \<or> m = 1900"
      by auto
    have "cs ! j \<noteq> w" if "k \<le> j" "j < m" for j
      using that m(4)[of j] False by (cases "j = k") auto
    then show ?thesis using m step by (intro exI[of _ m]) simp
  qed
qed

lemma scan_children_found:
  assumes "unat p + 4096 \<le> dsize (fs_disk s)"
    and "\<And>k. k < 1901 \<Longrightarrow> u16_at (fs_disk s) (unat p + 294 + 2 * k) = cs ! k"
    and len: "length cs = 1901"
  shows "scan_children w (cs ! 0) 0 (fd_seek (unat p + 296) s)
    = (if w \<in> set cs then ((w, slot_index w cs), fd_seek (unat p + 296 + 2 * slot_index w cs) s)
       else ((cs ! 1900, 1900), fd_seek (unat p + 4096) s))"
proof -
  obtain m where m: "scan_children w (cs ! 0) 0 (fd_seek (unat p + 296) s)
      = ((cs ! m, m), fd_seek (unat p + 296 + 2 * m) s)" "m \<le> 1900"
    "\<And>j. j < m \<Longrightarrow> cs ! j \<noteq> w" "cs ! m = w \<or> m = 1900"
    using scan_children_result[OF assms(1,2), of 0 1900 w] by auto
  show ?thesis
  proof (cases "w \<in> set cs")
    case True
    note i = slot_index_member[OF True]
    have "\<not> slot_index w cs < m" using m(3) i by auto
    moreover have "\<not> m < slot_index w cs"
      using m(2,4) slot_index_first[of m w cs] i len by auto
    ultimately have "m = slot_index w cs" by simp
    then show ?thesis using m i True by auto
  next
    case False
    then have "cs ! m \<noteq> w" using m(2) len nth_mem[of m cs] by auto
    then have "m = 1900" using m(4) by simp
    moreover have "unat p + 296 + 2 * 1900 = unat p + 4096" by simp
    ultimately show ?thesis using m(1) False by (simp only: if_False)
  qed
qed

section \<open>Entering and removing a child\<close>

lemma unat_block_numeral:
  assumes "block_ok d p"
  shows "unat (p + 2) = unat p + 2" "unat (p + 4) = unat p + 4" "unat (p + 292) = unat p + 292"
    "unat (p + 294) = unat p + 294" "unat (p + 296) = unat p + 296" "unat (p + 298) = unat p + 298"
    "unat (p + 302) = unat p + 302"
  using unat_block_plus[OF assms, of 2] unat_block_plus[OF assms, of 4]
    unat_block_plus[OF assms, of 292] unat_block_plus[OF assms, of 294]
    unat_block_plus[OF assms, of 296] unat_block_plus[OF assms, of 298]
    unat_block_plus[OF assms, of 302]
  by simp_all

lemma slot_position:
  assumes "block_ok d p" and "m < 1901"
  shows "unat (294 + (p + 2 * of_nat m)) = unat p + 294 + 2 * m"
proof -
  have "(of_nat (294 + 2 * m) :: u32) = 294 + 2 * of_nat m" by simp
  then have "294 + (p + 2 * of_nat m) = p + of_nat (294 + 2 * m)" by (simp only: add.left_commute)
  moreover have "294 + 2 * m \<le> 4096" using assms(2) by simp
  ultimately show ?thesis using unat_block_plus[OF assms(1)] by (simp only: add.assoc)
qed

text \<open>The directory with slot \<open>m\<close> set to \<open>v\<close>, its count changed and its times stamped.\<close>

definition dir_put :: "nat \<Rightarrow> u16 \<Rightarrow> u16 \<Rightarrow> u64 \<Rightarrow> u64 \<Rightarrow> inode \<Rightarrow> inode" where
  "dir_put m v c mt ct n =
     n\<lparr>i_children := (i_children n)[m := v], i_children_count := c, i_mtime := mt, i_ctime := ct\<rparr>"

lemma dec16s_put:
  assumes "k < n"
  shows "dec16s n (slice (byte_at (put_bytes (q + 2 * k) (enc16 v) d)) q (2 * n))
       = (dec16s n (slice (byte_at d) q (2 * n)))[k := v]"
proof (rule nth_equalityI)
  fix i assume "i < length (dec16s n (slice (byte_at (put_bytes (q + 2 * k) (enc16 v) d)) q (2 * n)))"
  then have i: "i < n" by simp
  have "u16_at (put_bytes (q + 2 * k) (enc16 v) d) (q + 2 * i) = (if i = k then v else u16_at d (q + 2 * i))"
  proof (cases "i = k")
    case False
    then have "q + 2 * k + length (enc16 v) \<le> q + 2 * i \<or> q + 2 * i + 2 \<le> q + 2 * k" by auto
    then show ?thesis using False u16_at_put_other by auto
  qed (simp add: u16_at_put_same)
  then show "dec16s n (slice (byte_at (put_bytes (q + 2 * k) (enc16 v) d)) q (2 * n)) ! i
      = (dec16s n (slice (byte_at d) q (2 * n)))[k := v] ! i"
    using i by (simp add: nth_dec16s slice_slice u16_at_def nth_list_update)
qed simp

text \<open>The two partial writes as one change of the inode.\<close>

lemma inode_at_dir_writes:
  assumes ty: "i_type (inode_at d p) = INT_DIRECTORY" and m: "m < 1901"
  shows "inode_at (put_bytes (p + 292) (enc16 c) (put_bytes (p + 294 + 2 * m) (enc16 v) d)) p
    = (inode_at d p)\<lparr>i_children := (i_children (inode_at d p))[m := v], i_children_count := c\<rparr>"
    (is "inode_at ?e p = ?n")
proof -
  have t: "type_of_code (u16_at ?e (p + 2)) = INT_DIRECTORY"
    using inode_at_type_code[OF ty] by (simp add: u16_at_put_other del: add_2_eq_Suc')
  have k: "u16_at ?e p = u16_at d p" "u16_at ?e (p + 260) = u16_at d (p + 260)"
    "u16_at ?e (p + 262) = u16_at d (p + 262)" "u16_at ?e (p + 264) = u16_at d (p + 264)"
    "u64_at ?e (p + 266) = u64_at d (p + 266)" "u64_at ?e (p + 274) = u64_at d (p + 274)"
    "u64_at ?e (p + 282) = u64_at d (p + 282)" "u16_at ?e (p + 290) = u16_at d (p + 290)"
    "u16_at ?e (p + 292) = c" "slice (byte_at ?e) (p + 4) 256 = slice (byte_at d) (p + 4) 256"
    by (simp_all add: u16_at_put_other u64_at_put_other u16_at_put_same dsk.slice_put_disjoint)
  have "slice (byte_at ?e) (p + 294) 3802
      = slice (byte_at (put_bytes (p + 294 + 2 * m) (enc16 v) d)) (p + 294) 3802"
    by (rule dsk.slice_put_disjoint) simp
  then have ch: "dec16s 1901 (slice (byte_at ?e) (p + 294) 3802)
      = (dec16s 1901 (slice (byte_at d) (p + 294) 3802))[m := v]"
    using dec16s_put[OF m, of "p + 294" v d] by simp
  have ver: "inode_verify ?n" using inode_at_directory(2)[OF ty] by (simp add: inode_verify_def)
  have max: "DIRECTORY_CHILDREN_MAX = 1901" by (simp add: config)
  have raw: "named_at ?e p (head_at ?e p) = ?n"
    unfolding inode_at_directory(1)[OF ty]
    using t by (simp add: head_at_def named_at_def k ch max Let_def del: add_2_eq_Suc')
  have "i_type (head_at ?e p) = INT_DIRECTORY" using t by (simp add: head_at_def)
  then show ?thesis using ver by (simp add: inode_at_def raw Let_def)
qed

lemma dir_atD:
  assumes "dir_at d iid p n"
  shows "lookup_at d iid = p" "block_ok d p" "inode_at d (unat p) = n" "i_type n = INT_DIRECTORY"
    "i_inodeid n = iid" "inode_verify n" "length (i_children n) = 1901" "raw_by_id d iid = n"
    "u16_at d (unat p + 2) = 3"
proof -
  show b: "lookup_at d iid = p" "block_ok d p" "inode_at d (unat p) = n" "i_type n = INT_DIRECTORY"
    "i_inodeid n = iid"
    using assms by (simp_all add: dir_at_def)
  then have ty: "i_type (inode_at d (unat p)) = INT_DIRECTORY" by simp
  show "inode_verify n" using inode_at_directory(2)[OF ty] b by simp
  show "length (i_children n) = 1901" using length_dir_children[OF ty] b by (simp add: config)
  show "raw_by_id d iid = n"
    using b block_okD(1,5)[OF b(2)] by (auto simp: raw_by_id_def Let_def config)
  have "type_of_code (u16_at d (unat p + 2)) = INT_DIRECTORY" using inode_at_type_code[OF ty] by simp
  then show "u16_at d (unat p + 2) = 3" by (simp add: type_of_code_directory)
qed

lemma getINodeByID_dir:
  assumes "dir_at (fs_disk s) iid p n"
  shows "getINodeByID iid s = Some (n, s)"
  using dir_atD[OF assms] block_okD[OF dir_atD(2)[OF assms]]
  by (auto simp: getINodeByID_def getINodeByPosition_plain config)

text \<open>What an operation that replaces one inode's block leaves alone.\<close>

definition replaced :: "fsys \<Rightarrow> u32 \<Rightarrow> inode \<Rightarrow> nat \<Rightarrow> fsys \<Rightarrow> bool" where
  "replaced s p n k s' \<longleftrightarrow>
     disk_eq (fs_disk s') (put_bytes (unat p) (getBinaryRepresentation n) (fs_disk s)) \<and>
     fs_cache s' = fs_cache s \<and> fs_reserved s' = fs_reserved s \<and> fs_clock s' = fs_clock s \<and>
     fs_ticks s' = fs_ticks s + k \<and> fd_tell s' = fd_tell s"

lemma fs_now_eq: "fs_now s = (fs_clock s (fs_ticks s), s\<lparr>fs_ticks := Suc (fs_ticks s)\<rparr>)"
  by (simp add: fs_now_def)

lemma updateTimes_dir:
  assumes dir: "dir_at (fs_disk s) iid p n"
  shows "\<exists>s'. updateTimes iid False True True s = Some s'
    \<and> replaced s p (n\<lparr>i_mtime := fs_clock s (fs_ticks s), i_ctime := fs_clock s (Suc (fs_ticks s))\<rparr>) 2 s'"
proof -
  let ?n = "n\<lparr>i_mtime := fs_clock s (fs_ticks s), i_ctime := fs_clock s (Suc (fs_ticks s))\<rparr>"
  let ?s = "s\<lparr>fs_ticks := Suc (Suc (fs_ticks s))\<rparr>"
  note d = dir_atD[OF dir]
  have "tabled_type (i_type ?n)" "inode_verify ?n" using d by (simp_all add: tabled_type_def inode_verify_def)
  then obtain s' where "updateINode ?n ?s = (E_SUCCESS, s')"
    "disk_eq (fs_disk s') (put_bytes (unat p) (getBinaryRepresentation ?n) (fs_disk ?s))"
    "fs_cache s' = fs_cache ?s" "fs_reserved s' = fs_reserved ?s" "fs_clock s' = fs_clock ?s"
    "fs_ticks s' = fs_ticks ?s" "fd_tell s' = fd_tell ?s"
    using updateINode_disk[of ?n ?s p] d by auto
  then show ?thesis
    using getINodeByID_dir[OF dir]
    by (auto simp: updateTimes_def fs_now_eq replaced_def fd_tell_def)
qed

text \<open>The tail of both operations, from the two writes on.\<close>

lemma block_ok_put: "block_ok d b \<Longrightarrow> block_ok (put_bytes p bs d) b"
  using dsize_put_mono[of d p bs] by (auto simp: block_ok_def simp del: dsize_put_bytes)

lemma dir_put_state:
  assumes dir: "dir_at (fs_disk s) iid p n" and m: "m < 1901"
    and s1_def: "s1 = fs_put (unat p + 292) (enc16 c) (fs_put (unat p + 294 + 2 * m) (enc16 v) s)"
  shows "\<exists>s'. updateTimes iid False True True s1 = Some s'
    \<and> replaced s p (dir_put m v c (fs_clock s (fs_ticks s)) (fs_clock s (Suc (fs_ticks s))) n) 2 s'"
proof -
  note d = dir_atD[OF dir]
  let ?n1 = "n\<lparr>i_children := (i_children n)[m := v], i_children_count := c\<rparr>"
  have disk: "fs_disk s1 = put_bytes (unat p + 292) (enc16 c)
      (put_bytes (unat p + 294 + 2 * m) (enc16 v) (fs_disk s))"
    by (simp add: s1_def fd_simps)
  have "OFFSET_FSINFO \<le> unat p" using block_okD(1)[OF d(2)] by (simp add: config)
  then have "lookup_at (fs_disk s1) iid = p"
    unfolding disk by (simp add: lookup_at_put_data d(1))
  moreover have "block_ok (fs_disk s1) p" unfolding disk by (intro block_ok_put d(2))
  moreover have "inode_at (fs_disk s1) (unat p) = ?n1"
    using inode_at_dir_writes[of "fs_disk s" "unat p" m c v] d m by (simp add: disk)
  ultimately have "dir_at (fs_disk s1) iid p ?n1" using d by (simp add: dir_at_def)
  from updateTimes_dir[OF this] obtain s' where s': "updateTimes iid False True True s1 = Some s'"
    "replaced s1 p (?n1\<lparr>i_mtime := fs_clock s1 (fs_ticks s1), i_ctime := fs_clock s1 (Suc (fs_ticks s1))\<rparr>) 2 s'"
    by blast
  let ?n2 = "dir_put m v c (fs_clock s (fs_ticks s)) (fs_clock s (Suc (fs_ticks s))) n"
  have wf: "inode_wf ?n2"
    using inode_at_directory(1)[of "fs_disk s" "unat p"] d
    by (simp add: dir_put_def inode_wf_def config)
  have len: "length (getBinaryRepresentation ?n2) = 4096"
    using length_getBinaryRepresentation[OF wf] d by (simp add: dir_put_def)
  have "disk_eq (put_bytes (unat p) (getBinaryRepresentation ?n2) (fs_disk s1))
      (put_bytes (unat p) (getBinaryRepresentation ?n2) (fs_disk s))"
    unfolding disk using m len
    by (intro disk_eq_trans[OF disk_eq_put_cover disk_eq_put_cover]) simp_all
  then show ?thesis
    using s' by (auto simp: replaced_def s1_def fd_simps dir_put_def elim: disk_eq_trans)
qed

lemma first_slot_read:
  assumes dir: "dir_at (fs_disk s) iid p n"
  shows "fd_doR16 v (fd_seek (unat p + 2) s) = (3, fd_seek (unat p + 4) s)"
    and "fd_doR16 v (fd_seek (unat p + 294) s) = (i_children n ! 0, fd_seek (unat p + 296) s)"
    and "fd_doR16 v (fd_seek (unat p + 292) s) = (i_children_count n, fd_seek (unat p + 294) s)"
    and "k < 1901 \<Longrightarrow> u16_at (fs_disk s) (unat p + 294 + 2 * k) = i_children n ! k"
    and "unat p + 4096 \<le> dsize (fs_disk s)"
proof -
  note d = dir_atD[OF dir]
  show size: "unat p + 4096 \<le> dsize (fs_disk s)" by (rule block_okD(4)[OF d(2)])
  have ty: "i_type (inode_at (fs_disk s) (unat p)) = INT_DIRECTORY" using d by simp
  show slot: "k < 1901 \<Longrightarrow> u16_at (fs_disk s) (unat p + 294 + 2 * k) = i_children n ! k" for k
    using dir_slot[OF ty, of k] d(3) by (simp add: config)
  have rd: "fd_doR16 v (fd_seek (unat p + k) s) = (u16_at (fs_disk s) (unat p + k), fd_seek (unat p + (k + 2)) s)"
    if "k + 2 \<le> 4096" for k v
    using fd_doR16_seek[of "unat p + k" s v] size that by (simp only: add.assoc)
  have "u16_at (fs_disk s) (unat p + 292) = i_children_count (inode_at (fs_disk s) (unat p))"
    by (subst inode_at_directory(1)[OF ty]) simp
  then show "fd_doR16 v (fd_seek (unat p + 292) s) = (i_children_count n, fd_seek (unat p + 294) s)"
    using rd[of 292 v] d(3) by simp
  show "fd_doR16 v (fd_seek (unat p + 2) s) = (3, fd_seek (unat p + 4) s)"
    using rd[of 2 v] d(9) by (simp del: add_2_eq_Suc' add_2_eq_Suc)
  show "fd_doR16 v (fd_seek (unat p + 294) s) = (i_children n ! 0, fd_seek (unat p + 296) s)"
    using rd[of 294 v] slot[of 0] by simp
qed

lemma count_read:
  assumes "dir_at (fs_disk s) iid p n"
  shows "fd_doR16 v (fd_seek (unat p + 292) (fs_put (unat p + 294 + k) bs s))
    = (i_children_count n, fd_seek (unat p + 294) (fs_put (unat p + 294 + k) bs s))"
proof -
  have size: "unat p + 294 \<le> dsize (fs_disk (fs_put (unat p + 294 + k) bs s))"
    using first_slot_read(5)[OF assms] dsize_put_mono[of "fs_disk s"]
    by (simp add: fd_simps le_max_iff_disj)
  have "u16_at (fs_disk s) (unat p + 292) = i_children_count n"
    using first_slot_read(3,5)[OF assms] by (simp add: fd_simps)
  then have "u16_at (fs_disk (fs_put (unat p + 294 + k) bs s)) (unat p + 292) = i_children_count n"
    by (simp add: fd_simps u16_at_put_other)
  then show ?thesis
    using fd_doR16_seek[of "unat p + 292" "fs_put (unat p + 294 + k) bs s" v] size
    by (simp add: add.commute)
qed

lemma addChild_result:
  assumes dir: "dir_at (fs_disk s) parentid p n" and ne: "parentid \<noteq> childid"
    and free: "0 \<in> set (i_children n)"
  shows "\<exists>s'. addChildToDirectoryINode parentid childid s = Some (E_SUCCESS, s')
    \<and> replaced s p (dir_put (slot_index 0 (i_children n)) childid (i_children_count n + 1)
        (fs_clock s (fs_ticks s)) (fs_clock s (Suc (fs_ticks s))) n) 2 s'"
proof -
  note d = dir_atD[OF dir] and r = first_slot_read[OF dir] and u = unat_block_numeral[OF d(2)]
  let ?m = "slot_index 0 (i_children n)"
  have m: "?m < 1901" using slot_index_member[OF free] d(7) by simp
  have scan: "scan_children 0 (i_children n ! 0) 0 (fd_seek (unat p + 296) s)
      = ((0, ?m), fd_seek (unat p + 296 + 2 * ?m) s)"
    using scan_children_found[OF r(5,4) d(7), of 0] free by simp
  have wb: "unat (294 + (p + 2 * of_nat ?m)) = unat p + 294 + 2 * ?m"
    by (rule slot_position[OF d(2) m])
  let ?s0 = "fs_put (unat p + 294 + 2 * ?m) (enc16 childid) s"
  note cnt = count_read[OF dir]
  let ?s1 = "fs_put (unat p + 292) (enc16 (i_children_count n + 1)) ?s0"
  obtain s' where s': "updateTimes parentid False True True ?s1 = Some s'"
    "replaced s p (dir_put ?m childid (i_children_count n + 1)
        (fs_clock s (fs_ticks s)) (fs_clock s (Suc (fs_ticks s))) n) 2 s'"
    using dir_put_state[OF dir m refl] by blast
  have "addChildToDirectoryINode parentid childid s = do { s \<leftarrow> updateTimes parentid False True True ?s1; Some (E_SUCCESS, s) }"
    using ne
    by (simp add: addChildToDirectoryINode_def d(1) u r(1,2) scan wb cnt fd_simps Let_def
        del: add_2_eq_Suc' add_2_eq_Suc)
  then show ?thesis using s' by auto
qed

lemma addChild_full:
  assumes dir: "dir_at (fs_disk s) parentid p n" and ne: "parentid \<noteq> childid"
    and full: "0 \<notin> set (i_children n)"
  shows "addChildToDirectoryINode parentid childid s = Some (E_FAILURE_MAXIMUM_CHILDREN_REACHED, s)"
proof -
  note d = dir_atD[OF dir] and r = first_slot_read[OF dir] and u = unat_block_numeral[OF d(2)]
  have scan: "scan_children 0 (i_children n ! 0) 0 (fd_seek (unat p + 296) s)
      = ((i_children n ! 1900, 1900), fd_seek (unat p + 4096) s)"
    using scan_children_found[OF r(5,4) d(7), of 0] full by simp
  have "i_children n ! 1900 \<in> set (i_children n)" using d(7) by simp
  then have "i_children n ! 1900 \<noteq> 0" using full by metis
  then show ?thesis
    using ne
    by (simp add: addChildToDirectoryINode_def d(1) u r(1,2) scan fd_simps Let_def config
        del: add_2_eq_Suc' add_2_eq_Suc)
qed

lemma addChild_not_directory:
  assumes ok: "block_ok (fs_disk s) (lookup_at (fs_disk s) parentid)" and ne: "parentid \<noteq> childid"
    and ty: "u16_at (fs_disk s) (unat (lookup_at (fs_disk s) parentid) + 2) \<noteq> 3"
  shows "addChildToDirectoryINode parentid childid s = Some (E_FAILURE_NOT_A_DIRECTORY, s)"
    and "removeChildFromDirectoryINode parentid childid s = Some (E_FAILURE_NOT_A_DIRECTORY, s)"
proof -
  let ?p = "lookup_at (fs_disk s) parentid"
  have "fd_doR16 v (fd_seek (unat ?p + 2) s) = (u16_at (fs_disk s) (unat ?p + 2), fd_seek (unat ?p + 4) s)" for v
    using fd_doR16_seek[of "unat ?p + 2" s v] block_okD(4)[OF ok]
    by (simp add: add.commute del: add_2_eq_Suc' add_2_eq_Suc)
  then show "addChildToDirectoryINode parentid childid s = Some (E_FAILURE_NOT_A_DIRECTORY, s)"
    and "removeChildFromDirectoryINode parentid childid s = Some (E_FAILURE_NOT_A_DIRECTORY, s)"
    using ne ty unat_block_numeral(1)[OF ok]
    by (simp_all add: addChildToDirectoryINode_def removeChildFromDirectoryINode_def fd_simps Let_def
        del: add_2_eq_Suc' add_2_eq_Suc)
qed

lemma removeChild_result:
  assumes dir: "dir_at (fs_disk s) parentid p n" and child: "childid \<in> set (i_children n)"
  shows "\<exists>s'. removeChildFromDirectoryINode parentid childid s = Some (E_SUCCESS, s')
    \<and> replaced s p (dir_put (slot_index childid (i_children n)) 0 (i_children_count n - 1)
        (fs_clock s (fs_ticks s)) (fs_clock s (Suc (fs_ticks s))) n) 2 s'"
proof -
  note d = dir_atD[OF dir] and r = first_slot_read[OF dir] and u = unat_block_numeral[OF d(2)]
  let ?m = "slot_index childid (i_children n)"
  have m: "?m < 1901" using slot_index_member[OF child] d(7) by simp
  have scan: "scan_children childid (i_children n ! 0) 0 (fd_seek (unat p + 296) s)
      = ((childid, ?m), fd_seek (unat p + 296 + 2 * ?m) s)"
    using scan_children_found[OF r(5,4) d(7), of childid] child by simp
  have wb: "unat (294 + (p + 2 * of_nat ?m)) = unat p + 294 + 2 * ?m"
    by (rule slot_position[OF d(2) m])
  let ?s0 = "fs_put (unat p + 294 + 2 * ?m) (enc16 0) s"
  note cnt = count_read[OF dir]
  let ?s1 = "fs_put (unat p + 292) (enc16 (i_children_count n - 1)) ?s0"
  obtain s' where s': "updateTimes parentid False True True ?s1 = Some s'"
    "replaced s p (dir_put ?m 0 (i_children_count n - 1)
        (fs_clock s (fs_ticks s)) (fs_clock s (Suc (fs_ticks s))) n) 2 s'"
    using dir_put_state[OF dir m refl] by blast
  have "removeChildFromDirectoryINode parentid childid s
      = do { s \<leftarrow> updateTimes parentid False True True ?s1; Some (E_SUCCESS, s) }"
    by (simp add: removeChildFromDirectoryINode_def d(1) u r(1,2) scan wb cnt fd_simps Let_def
        del: add_2_eq_Suc' add_2_eq_Suc)
  then show ?thesis using s' by auto
qed

lemma removeChild_absent:
  assumes dir: "dir_at (fs_disk s) parentid p n" and child: "childid \<notin> set (i_children n)"
  shows "removeChildFromDirectoryINode parentid childid s = Some (E_FAILURE_INVALID_FILENAME, s)"
proof -
  note d = dir_atD[OF dir] and r = first_slot_read[OF dir] and u = unat_block_numeral[OF d(2)]
  have scan: "scan_children childid (i_children n ! 0) 0 (fd_seek (unat p + 296) s)
      = ((i_children n ! 1900, 1900), fd_seek (unat p + 4096) s)"
    using scan_children_found[OF r(5,4) d(7), of childid] child by simp
  have "i_children n ! 1900 \<in> set (i_children n)" using d(7) by simp
  then have "i_children n ! 1900 \<noteq> childid" using child by metis
  then show ?thesis
    by (simp add: removeChildFromDirectoryINode_def d(1) u r(1,2) scan fd_simps Let_def config
        del: add_2_eq_Suc' add_2_eq_Suc)
qed

section \<open>Replacing a block leaves the other inodes alone\<close>

lemma replaced_lookup:
  assumes "replaced s p n k s'" and "block_ok (fs_disk s) p"
  shows "lookup_at (fs_disk s') = lookup_at (fs_disk s)"
proof -
  have "OFFSET_FSINFO \<le> unat p" using block_okD(1)[OF assms(2)] by (simp add: config)
  then show ?thesis
    using assms(1) disk_eq_fields(3) lookup_at_put_data by (fastforce simp: replaced_def)
qed

lemma replaced_other:
  assumes rep: "replaced s p n k s'" and p: "block_ok (fs_disk s) p" and wf: "inode_wf n"
    and q: "unat q mod 4096 = 0" "q \<noteq> p"
  shows "inode_at (fs_disk s') (unat q) = inode_at (fs_disk s) (unat q)"
proof -
  have "length (getBinaryRepresentation n) \<le> 4096"
    using length_getBinaryRepresentation[OF wf] repr_size_le by simp
  moreover have "unat p + 4096 \<le> unat q \<or> unat q + 4096 \<le> unat p"
    using aligned_apart[OF block_okD(3)[OF p] q(1)] q(2) by auto
  ultimately show ?thesis
    using rep disk_eq_fields(4) inode_at_put_apart[of "unat p" "getBinaryRepresentation n" "unat q" "fs_disk s"]
    by (auto simp: replaced_def)
qed

lemma replaced_self:
  assumes rep: "replaced s p n k s'" and wf: "inode_wf n"
    and ver: "i_type n \<noteq> INT_SEGINFO \<Longrightarrow> i_type n \<noteq> INT_FREELIST \<Longrightarrow>
      i_type n \<noteq> INT_FSINFO \<Longrightarrow> inode_verify (stored n)"
  shows "inode_at (fs_disk s') (unat p) = stored n"
  using inode_at_getBinaryRepresentation[OF wf ver, where rest = "[]" and p = "unat p" and d = "fs_disk s"]
    rep disk_eq_fields(4)[of "fs_disk s'"]
  by (auto simp: replaced_def)

lemma replaced_size:
  "replaced s p n k s' \<Longrightarrow> block_ok (fs_disk s) p \<Longrightarrow> inode_wf n \<Longrightarrow>
   dsize (fs_disk s') = dsize (fs_disk s)"
  using length_getBinaryRepresentation[of n] repr_size_le[of "i_type n"] block_okD(4)[of "fs_disk s" p]
    disk_eq_fields(9)[of "fs_disk s'" "put_bytes (unat p) (getBinaryRepresentation n) (fs_disk s)"]
  by (auto simp: replaced_def)

section \<open>Enumeration and lookup\<close>

text \<open>The children a directory's loops visit: its used slots, at most as many as its count.\<close>

definition visited :: "inode \<Rightarrow> u16 list" where
  "visited n = take (unat (i_children_count n)) (filter (\<lambda>c. c \<noteq> 0) (i_children n))"

definition child_nodes :: "disk \<Rightarrow> inode \<Rightarrow> inode list" where
  "child_nodes d n = filter (\<lambda>c. tabled_type (i_type c)) (map (node_by_id d) (visited n))"

lemma children_loop_eq:
  assumes "table_ok (fs_disk s)" and "links_ok (fs_disk s)"
  shows "children_loop count looped cs acc s = Some
    (acc @ filter (\<lambda>c. tabled_type (i_type c))
       (map (node_by_id (fs_disk s)) (take (count - looped) (filter (\<lambda>c. c \<noteq> 0) cs))), s)"
proof (induction cs arbitrary: looped acc)
  case (Cons c cs)
  show ?case
  proof (cases "looped < count \<and> c \<noteq> 0")
    case True
    then obtain k where k: "count - looped = Suc k" "count - (looped + 1) = k"
      by (metis Suc_diff_Suc Suc_eq_plus1)
    then show ?thesis using True Cons by (simp add: getINodeByID_eq[OF assms])
  next
    case False
    then show ?thesis using Cons by auto
  qed
qed simp

lemma child_loop_eq:
  assumes "table_ok (fs_disk s)" and "links_ok (fs_disk s)"
  shows "child_loop test count looped cs s = Some
    (case find test (filter (\<lambda>c. tabled_type (i_type c))
        (map (node_by_id (fs_disk s)) (take (count - looped) (filter (\<lambda>c. c \<noteq> 0) cs)))) of
       Some n \<Rightarrow> n | None \<Rightarrow> new_inode 0 INT_INVALID, s)"
proof (induction cs arbitrary: looped)
  case (Cons c cs)
  show ?case
  proof (cases "looped < count \<and> c \<noteq> 0")
    case True
    then obtain k where k: "count - looped = Suc k" "count - (looped + 1) = k"
      by (metis Suc_diff_Suc Suc_eq_plus1)
    then show ?thesis
      using True Cons.IH[of looped] Cons.IH[of "looped + 1"]
      by (cases "tabled_type (i_type (node_by_id (fs_disk s) c))";
          cases "test (node_by_id (fs_disk s) c)")
         (simp_all add: getINodeByID_eq[OF assms])
  next
    case False
    then show ?thesis using Cons.IH[of looped] by (cases "looped < count") simp_all
  qed
qed simp

lemma getChildrenOfDirectory_eq:
  assumes "table_ok (fs_disk s)" and "links_ok (fs_disk s)"
  shows "getChildrenOfDirectory pid s = Some
    (if i_type (node_by_id (fs_disk s) pid) = INT_DIRECTORY
     then child_nodes (fs_disk s) (node_by_id (fs_disk s) pid) else [], s)"
  by (simp add: getChildrenOfDirectory_def getINodeByID_eq[OF assms] children_loop_eq[OF assms]
      child_nodes_def visited_def)

lemma getChildOfDirectory_by_eq:
  assumes "table_ok (fs_disk s)" and "links_ok (fs_disk s)"
  shows "getChildOfDirectory_by test pid s = Some
    (let n = node_by_id (fs_disk s) pid in
     if i_type n = INT_INVALID then new_inode 0 INT_INVALID
     else case find test (child_nodes (fs_disk s) n) of
            Some c \<Rightarrow> c | None \<Rightarrow> new_inode 0 INT_INVALID, s)"
  by (simp add: getChildOfDirectory_by_def getINodeByID_eq[OF assms] child_loop_eq[OF assms]
      child_nodes_def visited_def Let_def)

text \<open>Lookup by name, as a function of the package.\<close>

definition child_named :: "disk \<Rightarrow> u16 \<Rightarrow> byte list \<Rightarrow> inode" where
  "child_named d pid name =
     (let n = node_by_id d pid in
      if i_type n = INT_INVALID then new_inode 0 INT_INVALID
      else case find (\<lambda>c. name = cstr (i_filename c)) (child_nodes d n) of
             Some c \<Rightarrow> c | None \<Rightarrow> new_inode 0 INT_INVALID)"

lemma getChildOfDirectory_eq:
  assumes "table_ok (fs_disk s)" and "links_ok (fs_disk s)"
  shows "getChildOfDirectory pid name s = Some (child_named (fs_disk s) pid name, s)"
  using getChildOfDirectory_by_eq[OF assms] by (simp add: getChildOfDirectory_def child_named_def)

lemma filenameIsUnique_eq:
  assumes "table_ok (fs_disk s)" and "links_ok (fs_disk s)"
  shows "filenameIsUnique pid name s = Some
    (if i_type (node_by_id (fs_disk s) pid) = INT_DIRECTORY \<and>
        name \<in> (\<lambda>c. cstr (i_filename c)) ` set (child_nodes (fs_disk s) (node_by_id (fs_disk s) pid))
     then E_FAILURE_NOT_UNIQUE else E_SUCCESS, s)"
  by (auto simp: filenameIsUnique_def getChildrenOfDirectory_eq[OF assms] list_ex_iff)

text \<open>Resolving a path is a fold over its components.\<close>

fun resolve_spec :: "disk \<Rightarrow> byte list list \<Rightarrow> u16 \<Rightarrow> u16 option" where
  "resolve_spec d [] iid = Some iid"
| "resolve_spec d (c # cs) iid =
     (if c = [0x2E] then resolve_spec d cs iid
      else if c = [0x2E, 0x2E] then
        (if i_type (node_by_id d iid) = INT_INVALID then None
         else resolve_spec d cs (i_parent (node_by_id d iid)))
      else
        (if i_type (child_named d iid (cstr c)) = INT_INVALID then None
         else resolve_spec d cs (i_inodeid (child_named d iid (cstr c)))))"

lemma resolve_loop_eq:
  assumes "table_ok (fs_disk s)" and "links_ok (fs_disk s)"
  shows "resolve_loop cs iid s = Some
    (case resolve_spec (fs_disk s) cs iid of Some i \<Rightarrow> int (unat i) | None \<Rightarrow> - 2, s)"
  by (induction cs arbitrary: iid)
     (simp_all add: getINodeByID_eq[OF assms] getChildOfDirectory_eq[OF assms])

end
