(* ===== verification/LowFS_Tree.thy ===== *)
theory LowFS_Tree
  imports LowFS_DirProps
begin

text \<open>
  Directories as sets of entries: the entry count agrees with the used slots, adding and
  removing a child keep that, and a child that was added is found by its name.
\<close>

section \<open>Slots and counts\<close>

definition used :: "u16 list \<Rightarrow> u16 list" where
  "used cs = filter (\<lambda>c. c \<noteq> 0) cs"

text \<open>The invariant of a directory: its count is that of its entries, which are different.\<close>

definition dir_wf :: "inode \<Rightarrow> bool" where
  "dir_wf n \<longleftrightarrow> unat (i_children_count n) = length (used (i_children n)) \<and> distinct (used (i_children n))"

lemma slot_index_append: "w \<notin> set as \<Longrightarrow> slot_index w (as @ w # bs) = length as"
  unfolding slot_index_def by (subst takeWhile_append2) auto

lemma slot_split:
  assumes "w \<in> set cs"
  obtains as bs where "cs = as @ w # bs" and "w \<notin> set as" and "\<And>v. cs[slot_index w cs := v] = as @ v # bs"
proof -
  obtain as bs where s: "cs = as @ w # bs" "w \<notin> set as" using split_list_first[OF assms] by blast
  have "slot_index w cs = length as" unfolding s(1) by (rule slot_index_append[OF s(2)])
  then show ?thesis using that[OF s] s(1) by simp
qed

lemma used_append: "used (as @ bs) = used as @ used bs"
  by (simp add: used_def)

lemma used_add:
  assumes "0 \<in> set cs" and "v \<noteq> 0"
  obtains us vs where "used cs = us @ vs" and "used (cs[slot_index 0 cs := v]) = us @ v # vs"
proof -
  obtain as bs where s: "cs = as @ 0 # bs" "\<And>w. cs[slot_index 0 cs := w] = as @ w # bs"
    using slot_split[OF assms(1)] by metis
  show ?thesis
    by (rule that[of "used as" "used bs"]) (simp_all add: s(2), simp_all add: s(1) used_def assms(2))
qed

lemma used_remove:
  assumes "v \<in> set cs" and "v \<noteq> 0"
  obtains us vs where "used cs = us @ v # vs" and "used (cs[slot_index v cs := 0]) = us @ vs" and "v \<notin> set us"
proof -
  obtain as bs where s: "cs = as @ v # bs" "v \<notin> set as" "\<And>w. cs[slot_index v cs := w] = as @ w # bs"
    using slot_split[OF assms(1)] by metis
  show ?thesis
    by (rule that[of "used as" "used bs"]) (simp_all add: s(3), simp_all add: s(1,2) used_def assms(2))
qed

lemma used_room: "0 \<in> set cs \<Longrightarrow> length (used cs) < length cs"
  unfolding used_def by (rule length_filter_less[of 0]) auto

lemma dir_wf_add:
  assumes wf: "dir_wf n" and room: "0 \<in> set (i_children n)" and len: "length (i_children n) = 1901"
    and v: "v \<noteq> 0" "v \<notin> set (i_children n)"
  shows "dir_wf (dir_put (slot_index 0 (i_children n)) v (i_children_count n + 1) mt ct n)"
proof -
  obtain us vs where u: "used (i_children n) = us @ vs"
    "used ((i_children n)[slot_index 0 (i_children n) := v]) = us @ v # vs"
    using used_add[OF room v(1)] .
  have "v \<notin> set (us @ vs)" using v(2) unfolding u(1)[symmetric] by (simp add: used_def)
  moreover have "unat (i_children_count n + 1) = unat (i_children_count n) + 1"
  proof -
    have "unat (i_children_count n) < 1901" using wf used_room[OF room] len by (simp add: dir_wf_def)
    then show ?thesis using unat_Suc_u16[of "i_children_count n"] by simp
  qed
  ultimately show ?thesis using wf by (simp add: dir_wf_def dir_put_def u)
qed

lemma dir_wf_remove:
  assumes wf: "dir_wf n" and v: "v \<in> set (i_children n)" "v \<noteq> 0"
  shows "dir_wf (dir_put (slot_index v (i_children n)) 0 (i_children_count n - 1) mt ct n)"
    and "v \<notin> set ((i_children n)[slot_index v (i_children n) := 0])"
proof -
  obtain us vs where u: "used (i_children n) = us @ v # vs"
    "used ((i_children n)[slot_index v (i_children n) := 0]) = us @ vs"
    using used_remove[OF v] .
  have pos: "unat (i_children_count n) = Suc (length (us @ vs))" using wf by (simp add: dir_wf_def u)
  then have "unat (i_children_count n - 1) = length (us @ vs)"
    using unat_minus_one[of "i_children_count n"] by fastforce
  then show "dir_wf (dir_put (slot_index v (i_children n)) 0 (i_children_count n - 1) mt ct n)"
    using wf by (simp add: dir_wf_def dir_put_def u)
  have "v \<notin> set (us @ vs)" using wf by (auto simp: dir_wf_def u)
  then have "v \<notin> set (used ((i_children n)[slot_index v (i_children n) := 0]))" unfolding u(2) .
  then show "v \<notin> set ((i_children n)[slot_index v (i_children n) := 0])" using v(2) by (simp add: used_def)
qed

section \<open>The directory after a change\<close>

text \<open>Nothing but the block at \<open>p\<close> has changed.\<close>

definition same_outside :: "u32 \<Rightarrow> fsys \<Rightarrow> fsys \<Rightarrow> bool" where
  "same_outside p s s' \<longleftrightarrow>
     dsize (fs_disk s') = dsize (fs_disk s) \<and> fs_cache s' = fs_cache s \<and> fs_reserved s' = fs_reserved s \<and>
     fs_clock s' = fs_clock s \<and>
     (\<forall>a. \<not> (unat p \<le> a \<and> a < unat p + 4096) \<longrightarrow> byte_at (fs_disk s') a = byte_at (fs_disk s) a)"

lemma directory_fields:
  assumes "i_type (inode_at d p) = INT_DIRECTORY"
  shows "inode_at d p = (new_inode 0 INT_INVALID)
    \<lparr>i_inodeid := i_inodeid (inode_at d p), i_type := INT_DIRECTORY, i_filename := i_filename (inode_at d p),
     i_uid := i_uid (inode_at d p), i_gid := i_gid (inode_at d p), i_mask := i_mask (inode_at d p),
     i_atime := i_atime (inode_at d p), i_mtime := i_mtime (inode_at d p), i_ctime := i_ctime (inode_at d p),
     i_parent := i_parent (inode_at d p), i_children_count := i_children_count (inode_at d p),
     i_children := i_children (inode_at d p)\<rparr>"
    and "length (i_filename (inode_at d p)) = 256"
  by (simp_all add: inode_at_directory(1)[OF assms])

lemma dir_put_stored:
  assumes dir: "dir_at d iid p n" and m: "m < 1901"
  shows "stored (dir_put m v c mt ct n) = dir_put m v c mt ct n" and "inode_wf (dir_put m v c mt ct n)"
    and "inode_verify (dir_put m v c mt ct n)"
proof -
  note d = dir_atD[OF dir]
  have n: "n = (new_inode 0 INT_INVALID)
    \<lparr>i_inodeid := i_inodeid n, i_type := INT_DIRECTORY, i_filename := i_filename n,
     i_uid := i_uid n, i_gid := i_gid n, i_mask := i_mask n,
     i_atime := i_atime n, i_mtime := i_mtime n, i_ctime := i_ctime n,
     i_parent := i_parent n, i_children_count := i_children_count n, i_children := i_children n\<rparr>"
    and f: "length (i_filename n) = 256"
    using directory_fields[of d "unat p"] unfolding d(3) d(4) by blast+
  show "stored (dir_put m v c mt ct n) = dir_put m v c mt ct n"
    by (subst (1 2) n) (simp add: stored_def stored_head_def stored_named_def has_data_fields_def dir_put_def Let_def)
  show "inode_verify (dir_put m v c mt ct n)" using d(6) by (simp add: inode_verify_def dir_put_def)
  show "inode_wf (dir_put m v c mt ct n)"
    using f d(7) by (subst n) (simp add: inode_wf_def dir_put_def config)
qed

lemma dir_replaced:
  assumes dir: "dir_at (fs_disk s) iid p n" and m: "m < 1901"
    and rep: "replaced s p (dir_put m v c mt ct n) k s'"
  shows "dir_at (fs_disk s') iid p (dir_put m v c mt ct n)" and "same_outside p s s'"
proof -
  let ?n = "dir_put m v c mt ct n"
  note d = dir_atD[OF dir] and st = dir_put_stored[OF dir m, of v c mt ct]
  have size: "dsize (fs_disk s') = dsize (fs_disk s)" by (rule replaced_size[OF rep d(2) st(2)])
  have "inode_at (fs_disk s') (unat p) = ?n" using replaced_self[OF rep st(2)] st(1,3) by simp
  then show "dir_at (fs_disk s') iid p ?n"
    using d replaced_lookup[OF rep d(2)] size by (simp add: dir_at_def dir_put_def block_ok_def)
  have "length (getBinaryRepresentation ?n) = 4096"
    using length_getBinaryRepresentation[OF st(2)] d(4) by (simp add: dir_put_def)
  then show "same_outside p s s'"
    using rep size by (auto simp: same_outside_def replaced_def disk_eq_def byte_at_put_bytes)
qed

lemma same_outside_inode:
  assumes "same_outside p s s'" and "unat p mod 4096 = 0" and "unat q mod 4096 = 0" and "q \<noteq> p"
  shows "inode_at (fs_disk s') (unat q) = inode_at (fs_disk s) (unat q)"
proof (rule inode_at_cong)
  fix a assume "unat q \<le> a" "a < unat q + 4096"
  then show "byte_at (fs_disk s') a = byte_at (fs_disk s) a"
    using assms(1) aligned_apart[OF assms(3,2,4)] by (auto simp: same_outside_def)
qed

lemma same_outside_lookup:
  assumes "same_outside p s s'" and "OFFSET_DATA \<le> unat p"
  shows "lookup_at (fs_disk s') = lookup_at (fs_disk s)"
proof
  fix i
  have "lookup_addr i + 4 \<le> unat p" using lookup_addr_bounds(2)[of i] assms(2) by (simp add: config)
  then have "slice (byte_at (fs_disk s')) (lookup_addr i) 4 = slice (byte_at (fs_disk s)) (lookup_addr i) 4"
    using assms(1) by (intro slice_cong) (auto simp: same_outside_def)
  then show "lookup_at (fs_disk s') i = lookup_at (fs_disk s) i" by (simp add: lookup_at_def u32_at_def)
qed

section \<open>The inode table\<close>

text \<open>
  The invariant of the table: entries in use are block positions inside the file, no two the
  same; and no hard link leads to another.
\<close>

definition tree_ok :: "disk \<Rightarrow> bool" where
  "tree_ok d \<longleftrightarrow>
     (\<forall>i. lookup_at d i \<noteq> 0 \<longrightarrow> block_ok d (lookup_at d i)) \<and>
     (\<forall>i j. lookup_at d i = lookup_at d j \<longrightarrow> lookup_at d i \<noteq> 0 \<longrightarrow> i = j) \<and> links_ok d"

lemma tree_okD:
  assumes "tree_ok d"
  shows "table_ok d" "links_ok d" "lookup_at d i \<noteq> 0 \<Longrightarrow> block_ok d (lookup_at d i)"
    "lookup_at d i = lookup_at d j \<Longrightarrow> lookup_at d i \<noteq> 0 \<Longrightarrow> i = j"
  using assms block_okD(4) by (auto simp: tree_ok_def table_ok_def)

text \<open>
  Two packages whose inodes agree but for one directory, which keeps its number, type, name and
  parent: what a lookup by number shows has the same number, type, name and parent.
\<close>

definition ident :: "inode \<Rightarrow> u16 \<times> inodetype \<times> byte list \<times> u16 \<times> u16" where
  "ident n = (i_inodeid n, i_type n, i_filename n, i_parent n, i_realid n)"

lemma same_raw_ident:
  assumes "\<And>j. ident (raw_by_id e j) = ident (raw_by_id d j)" and "links_ok d"
  shows "links_ok e" and "ident (node_by_id e j) = ident (node_by_id d j)"
proof -
  have r: "i_type (raw_by_id e j) = i_type (raw_by_id d j)" "i_realid (raw_by_id e j) = i_realid (raw_by_id d j)"
    "i_inodeid (raw_by_id e j) = i_inodeid (raw_by_id d j)" "i_filename (raw_by_id e j) = i_filename (raw_by_id d j)"
    "i_parent (raw_by_id e j) = i_parent (raw_by_id d j)"
    for j using assms(1)[of j] by (simp_all add: ident_def)
  show "links_ok e" using assms(2) by (simp add: links_ok_def r)
  show "ident (node_by_id e j) = ident (node_by_id d j)"
    by (simp add: node_by_id_def link_target_view_def r link_view_def ident_def Let_def)
qed

lemma dir_change_tree:
  assumes tree: "tree_ok (fs_disk s)" and dir: "dir_at (fs_disk s) iid p n" and dir': "dir_at (fs_disk s') iid p n'"
    and same: "same_outside p s s'" and id: "ident n' = ident n"
  shows "tree_ok (fs_disk s')" and "ident (node_by_id (fs_disk s') j) = ident (node_by_id (fs_disk s) j)"
    and "j \<noteq> iid \<Longrightarrow> raw_by_id (fs_disk s') j = raw_by_id (fs_disk s) j"
proof -
  let ?d = "fs_disk s" and ?e = "fs_disk s'"
  note t = tree_okD[OF tree] and d = dir_atD[OF dir] and d' = dir_atD[OF dir']
  have look: "lookup_at ?e = lookup_at ?d" by (rule same_outside_lookup[OF same block_okD(1)[OF d(2)]])
  show other: "raw_by_id ?e j = raw_by_id ?d j" if "j \<noteq> iid" for j
  proof (cases "lookup_at ?d j = 0")
    case False
    then have "lookup_at ?d j \<noteq> p" using t(4)[of j iid] that d(1) by auto
    then have "inode_at ?e (unat (lookup_at ?d j)) = inode_at ?d (unat (lookup_at ?d j))"
      by (rule same_outside_inode[OF same block_okD(3)[OF d(2)] block_okD(3)[OF t(3)[OF False]]])
    then show ?thesis by (simp add: raw_by_id_def look Let_def)
  qed (simp add: raw_by_id_def look)
  have raw: "ident (raw_by_id ?e j) = ident (raw_by_id ?d j)" for j
    using other[of j] d(8) d'(8) id by (cases "j = iid") simp_all
  have "block_ok ?e b \<longleftrightarrow> block_ok ?d b" for b using same by (simp add: block_ok_def same_outside_def)
  then show "tree_ok ?e" using tree same_raw_ident(1)[OF raw t(2)] by (simp add: tree_ok_def look)
  show "ident (node_by_id ?e j) = ident (node_by_id ?d j)" by (rule same_raw_ident(2)[OF raw t(2)])
qed

section \<open>A directory as a map from names\<close>

definition e_type :: "u16 \<times> inodetype \<times> byte list \<times> u16 \<times> u16 \<Rightarrow> inodetype" where
  "e_type e = fst (snd e)"

definition e_name :: "u16 \<times> inodetype \<times> byte list \<times> u16 \<times> u16 \<Rightarrow> byte list" where
  "e_name e = cstr (fst (snd (snd e)))"

lemma ident_simps [simp]: "e_type (ident n) = i_type n" "e_name (ident n) = cstr (i_filename n)"
  by (simp_all add: e_type_def e_name_def ident_def)

definition entries :: "disk \<Rightarrow> u16 list \<Rightarrow> (u16 \<times> inodetype \<times> byte list \<times> u16 \<times> u16) list" where
  "entries d cs = filter (\<lambda>e. tabled_type (e_type e)) (map (\<lambda>c. ident (node_by_id d c)) cs)"

text \<open>What a directory holds under a name: the first entry so called.\<close>

definition dir_map :: "disk \<Rightarrow> u16 list \<Rightarrow> byte list \<Rightarrow> (u16 \<times> inodetype \<times> byte list \<times> u16 \<times> u16) option" where
  "dir_map d cs name = find (\<lambda>e. name = e_name e) (entries d cs)"

lemma visited_all: "dir_wf n \<Longrightarrow> visited n = used (i_children n)"
  by (simp add: visited_def dir_wf_def used_def)

lemma find_map_ident:
  "map_option ident (find (\<lambda>c. name = cstr (i_filename c)) ns) = find (\<lambda>e. name = e_name e) (map ident ns)"
  by (induction ns) simp_all

lemma child_named_dir_map:
  assumes dir: "dir_at d iid p n" and wf: "dir_wf n"
  shows "ident (child_named d iid name) =
    (case dir_map d (used (i_children n)) name of Some e \<Rightarrow> e | None \<Rightarrow> ident (new_inode 0 INT_INVALID))"
proof -
  note d = dir_atD[OF dir]
  have node: "node_by_id d iid = n" by (simp add: node_by_id_def link_target_view_def d)
  have "entries d (used (i_children n)) = map ident (child_nodes d n)"
    by (simp add: entries_def child_nodes_def visited_all[OF wf] filter_map o_def)
  then have "dir_map d (used (i_children n)) name
      = map_option ident (find (\<lambda>c. name = cstr (i_filename c)) (child_nodes d n))"
    by (simp only: dir_map_def find_map_ident)
  then show ?thesis
    using d(4) by (simp add: child_named_def node Let_def split: option.split)
qed

lemma dir_map_insert:
  assumes "tabled_type (i_type (node_by_id d v))"
    and "\<And>c. c \<in> set (us @ vs) \<Longrightarrow> cstr (i_filename (node_by_id d c)) \<noteq> cstr (i_filename (node_by_id d v))"
  shows "dir_map d (us @ v # vs) =
    (dir_map d (us @ vs))(cstr (i_filename (node_by_id d v)) := Some (ident (node_by_id d v)))"
proof
  fix name
  let ?P = "\<lambda>e. name = e_name e"
  have none: "find ?P (entries d us) = None" if "name = cstr (i_filename (node_by_id d v))"
    using assms(2) that by (fastforce simp: find_None_iff entries_def)
  have e: "entries d (us @ v # vs) = entries d us @ ident (node_by_id d v) # entries d vs"
    "entries d (us @ vs) = entries d us @ entries d vs"
    using assms(1) by (simp_all add: entries_def)
  show "dir_map d (us @ v # vs) name =
    ((dir_map d (us @ vs))(cstr (i_filename (node_by_id d v)) := Some (ident (node_by_id d v)))) name"
    using none by (cases "find ?P (entries d us)")
      (auto simp: dir_map_def e find_append_None find_append_Some)
qed

lemma dir_map_delete:
  assumes "\<And>c. c \<in> set (us @ vs) \<Longrightarrow> cstr (i_filename (node_by_id d c)) \<noteq> cstr (i_filename (node_by_id d v))"
    and "tabled_type (i_type (node_by_id d v))"
  shows "dir_map d (us @ vs) = (dir_map d (us @ v # vs))(cstr (i_filename (node_by_id d v)) := None)"
proof -
  have "dir_map d (us @ vs) (cstr (i_filename (node_by_id d v))) = None"
    using assms(1) by (fastforce simp: dir_map_def find_None_iff entries_def)
  then show ?thesis using dir_map_insert[OF assms(2,1)] by (simp add: fun_eq_iff)
qed

lemma dir_map_cong: "(\<And>c. ident (node_by_id e c) = ident (node_by_id d c)) \<Longrightarrow> dir_map e = dir_map d"
  by (simp add: dir_map_def entries_def fun_eq_iff)

section \<open>Adding and removing an entry\<close>

lemma add_child_state:
  assumes "dir_at (fs_disk s) parentid p n" and "parentid \<noteq> childid" and "0 \<in> set (i_children n)"
  obtains s' where "addChildToDirectoryINode parentid childid s = Some (E_SUCCESS, s')"
    and "dir_at (fs_disk s') parentid p (dir_put (slot_index 0 (i_children n)) childid (i_children_count n + 1)
        (fs_clock s (fs_ticks s)) (fs_clock s (Suc (fs_ticks s))) n)"
    and "same_outside p s s'"
proof -
  have "slot_index 0 (i_children n) < 1901"
    using slot_index_member[OF assms(3)] dir_atD(7)[OF assms(1)] by simp
  then show ?thesis using addChild_result[OF assms] dir_replaced[OF assms(1)] that by blast
qed

lemma remove_child_state:
  assumes "dir_at (fs_disk s) parentid p n" and "childid \<in> set (i_children n)"
  obtains s' where "removeChildFromDirectoryINode parentid childid s = Some (E_SUCCESS, s')"
    and "dir_at (fs_disk s') parentid p (dir_put (slot_index childid (i_children n)) 0 (i_children_count n - 1)
        (fs_clock s (fs_ticks s)) (fs_clock s (Suc (fs_ticks s))) n)"
    and "same_outside p s s'"
proof -
  have "slot_index childid (i_children n) < 1901"
    using slot_index_member[OF assms(2)] dir_atD(7)[OF assms(1)] by simp
  then show ?thesis using removeChild_result[OF assms] dir_replaced[OF assms(1)] that by blast
qed

lemma dir_put_fields:
  "i_children (dir_put m v c mt ct n) = (i_children n)[m := v]" "i_children_count (dir_put m v c mt ct n) = c"
  by (simp_all add: dir_put_def)

lemma ident_dir_put: "ident (dir_put m v c mt ct n) = ident n"
  by (simp add: ident_def dir_put_def)

lemma used_add_map:
  assumes names: "\<And>c. c \<in> set (used cs) \<Longrightarrow> cstr (i_filename (node_by_id d c)) \<noteq> cstr (i_filename (node_by_id d v))"
    and "tabled_type (i_type (node_by_id d v))" and "0 \<in> set cs" and "v \<noteq> 0"
  shows "dir_map d (used (cs[slot_index 0 cs := v])) =
    (dir_map d (used cs))(cstr (i_filename (node_by_id d v)) := Some (ident (node_by_id d v)))"
proof -
  obtain us vs where u: "used cs = us @ vs" "used (cs[slot_index 0 cs := v]) = us @ v # vs"
    using used_add[OF assms(3,4)] .
  show ?thesis unfolding u by (rule dir_map_insert[OF assms(2)]) (use names u in simp)
qed

lemma used_remove_map:
  assumes names: "\<And>c. c \<in> set (used cs) \<Longrightarrow> c \<noteq> v \<Longrightarrow>
      cstr (i_filename (node_by_id d c)) \<noteq> cstr (i_filename (node_by_id d v))"
    and "tabled_type (i_type (node_by_id d v))" and "v \<in> set cs" and "v \<noteq> 0" and "distinct (used cs)"
  shows "dir_map d (used (cs[slot_index v cs := 0])) =
    (dir_map d (used cs))(cstr (i_filename (node_by_id d v)) := None)"
proof -
  obtain us vs where u: "used cs = us @ v # vs" "used (cs[slot_index v cs := 0]) = us @ vs"
    using used_remove[OF assms(3,4)] .
  show ?thesis unfolding u by (rule dir_map_delete[OF _ assms(2)]) (use names assms(5) u in auto)
qed

end
