(* ===== verification/AppFS_Walk.thy ===== *)
theory AppFS_Walk
  imports FuseLink LowFS_Tree
begin

text \<open>
  What a path means: \<open>locate\<close> follows the components from the root inode by their names in the
  directories. On a sound inode table the lookups of \<^verbatim>\<open>AppLib::FS\<close> (\<^verbatim>\<open>libapp/fs.cpp\<close>) compute it
  and change nothing, so an operation on a path is one on the inode the path leads to.
\<close>

section \<open>Following a path\<close>

fun walk :: "disk \<Rightarrow> byte list list \<Rightarrow> inode \<Rightarrow> inode option" where
  "walk d [] n = Some n"
| "walk d (c # cs) n =
     (let m = child_named d (i_inodeid n) c
      in if i_type m = INT_INVALID then None else walk d cs m)"

definition locate :: "disk \<Rightarrow> byte list list \<Rightarrow> inode option" where
  "locate d cs =
     (case walk d cs (node_by_id d 0) of
        Some n \<Rightarrow> if i_type n = INT_INVALID then None else Some n
      | None \<Rightarrow> None)"

definition path_error :: "byte list \<Rightarrow> exn option" where
  "path_error path =
     (if length path \<ge> 4096 \<or> 0 \<in> set path then Some PathNotValid
      else if \<exists>c \<in> set (components path). length c \<ge> 256 \<or> 0 \<in> set c then Some FilenameTooLong
      else None)"

lemma walk_append: "walk d (cs @ ds) n = (case walk d cs n of Some m \<Rightarrow> walk d ds m | None \<Rightarrow> None)"
  by (induction cs arbitrary: n) (simp_all add: Let_def)

lemma child_named_root: "i_type (node_by_id d pid) = INT_INVALID \<Longrightarrow> i_type (child_named d pid name) = INT_INVALID"
  by (simp add: child_named_def Let_def)

lemma child_named_node:
  assumes "i_type (child_named d pid name) \<noteq> INT_INVALID"
  obtains c where "c \<in> set (visited (node_by_id d pid))" and "child_named d pid name = node_by_id d c"
    and "tabled_type (i_type (child_named d pid name))" and "cstr (i_filename (child_named d pid name)) = name"
proof -
  let ?P = "\<lambda>c. name = cstr (i_filename c)" and ?ns = "child_nodes d (node_by_id d pid)"
  obtain m where m: "find ?P ?ns = Some m" and eq: "child_named d pid name = m"
    using assms by (cases "find ?P ?ns") (auto simp: child_named_def Let_def split: if_splits)
  from m have "m \<in> set ?ns" and "cstr (i_filename m) = name" by (auto simp: find_Some_iff)
  then show ?thesis using that eq by (auto simp: child_nodes_def)
qed

lemma walk_node:
  assumes "walk d cs (node_by_id d i) = Some n" and "i_type n \<noteq> INT_INVALID"
  obtains j where "n = node_by_id d j"
proof -
  have "\<exists>j. n = node_by_id d j" if "m = node_by_id d i" "walk d cs m = Some n" for m
    using that
  proof (induction cs arbitrary: m i)
    case (Cons c cs)
    then have ty: "i_type (child_named d (i_inodeid m) c) \<noteq> INT_INVALID"
      and w: "walk d cs (child_named d (i_inodeid m) c) = Some n"
      by (auto simp: Let_def split: if_splits)
    from child_named_node[OF ty] obtain k where "child_named d (i_inodeid m) c = node_by_id d k" by metis
    from Cons.IH[OF this w] show ?case .
  qed auto
  then show ?thesis using assms that by blast
qed

text \<open>An inode a lookup shows as a hard link is one without a target.\<close>

lemma node_hardlink:
  assumes "links_ok d" and "i_type (node_by_id d j) = INT_HARDLINK"
  shows "inode_resolve (node_by_id d j) s = Some (node_by_id d j, s)"
proof -
  have "i_realid (node_by_id d j) = 0"
  proof (rule ccontr)
    assume "i_realid (node_by_id d j) \<noteq> 0"
    then show False
      using assms by (auto simp: node_by_id_def link_target_view_def link_view_def links_ok_def split: if_splits)
  qed
  then show ?thesis using assms(2) by (simp add: inode_resolve_def)
qed

section \<open>The lookups\<close>

lemma ensurePathIsValid_eq:
  "ensurePathIsValid path s = Some (case path_error path of Some e \<Rightarrow> Inl e | None \<Rightarrow> Inr (), s)"
  by (simp add: ensurePathIsValid_def verifyPath_def path_error_def splitPathBySeperators_components
      throw_def ret_def Let_def)

lemma valid_path_parts: "path_error path = None \<Longrightarrow> c \<in> set (components path) \<Longrightarrow> length c < 256 \<and> 0 \<notin> set c"
  by (auto simp: path_error_def split: if_splits)

lemma retrieve_loop_eq:
  assumes "table_ok (fs_disk s)" and "links_ok (fs_disk s)"
  shows "\<exists>out. retrieve_loop cs n s = Some (Inr (case walk (fs_disk s) cs n of Some m \<Rightarrow> (True, m) | None \<Rightarrow> (False, out)), s)"
  by (induction cs arbitrary: n)
     (auto simp: ret_def bindE_def low_def getChildOfDirectory_eq[OF assms] Let_def)

lemma need_retrieve_components:
  assumes t: "table_ok (fs_disk s)" and l: "links_ok (fs_disk s)"
  shows "\<exists>out. retrieve_components cs s = Some (Inr (case locate (fs_disk s) cs of Some n \<Rightarrow> (True, n) | None \<Rightarrow> (False, out)), s)"
proof -
  let ?d = "fs_disk s"
  obtain out where r: "retrieve_loop cs (node_by_id ?d 0) s =
      Some (Inr (case walk ?d cs (node_by_id ?d 0) of Some m \<Rightarrow> (True, m) | None \<Rightarrow> (False, out)), s)"
    using retrieve_loop_eq[OF assms] by blast
  show ?thesis
  proof (cases "walk ?d cs (node_by_id ?d 0)")
    case None
    then show ?thesis
      using r by (auto simp: retrieve_components_def bindE_def low_def getINodeByID_eq[OF assms] locate_def ret_def)
  next
    case (Some n)
    have "inode_resolve n s = Some (n, s)" if "i_type n = INT_HARDLINK"
    proof -
      have "i_type n \<noteq> INT_INVALID" using that by simp
      then obtain j where "n = node_by_id ?d j" using walk_node[OF Some] by blast
      then show ?thesis using node_hardlink[OF l] that by simp
    qed
    then show ?thesis
      using r Some
      by (auto simp: retrieve_components_def bindE_def low_def getINodeByID_eq[OF assms] locate_def ret_def)
  qed
qed

lemma need_retrievePathToINode:
  assumes "table_ok (fs_disk s)" and "links_ok (fs_disk s)"
  shows "need (retrievePathToINode path) s = Some (case path_error path of
      Some e \<Rightarrow> Inl e
    | None \<Rightarrow> (case locate (fs_disk s) (components path) of Some n \<Rightarrow> Inr n | None \<Rightarrow> Inl FileNotFound), s)"
proof -
  obtain out where "retrieve_components (components path) s =
      Some (Inr (case locate (fs_disk s) (components path) of Some n \<Rightarrow> (True, n) | None \<Rightarrow> (False, out)), s)"
    using need_retrieve_components[OF assms] by blast
  then show ?thesis
    by (auto simp: need_def retrievePathToINode_def seqE_def bindE_def ensurePathIsValid_eq ret_def throw_def
        splitPathBySeperators_components split: option.splits)
qed

lemma need_retrieveParent:
  assumes "table_ok (fs_disk s)" and "links_ok (fs_disk s)" and "components path \<noteq> []"
  shows "need (retrieveParentPathToINode path) s = Some (case path_error path of
      Some e \<Rightarrow> Inl e
    | None \<Rightarrow> (case locate (fs_disk s) (butlast (components path)) of Some n \<Rightarrow> Inr n | None \<Rightarrow> Inl FileNotFound), s)"
proof -
  obtain out where "retrieve_components (butlast (components path)) s =
      Some (Inr (case locate (fs_disk s) (butlast (components path)) of Some n \<Rightarrow> (True, n) | None \<Rightarrow> (False, out)), s)"
    using need_retrieve_components[OF assms(1,2)] by blast
  then show ?thesis
    using assms(3)
    by (auto simp: need_def retrieveParentPathToINode_def seqE_def bindE_def ensurePathIsValid_eq ret_def throw_def
        splitPathBySeperators_components Let_def split: option.splits)
qed

lemma parent_loop_eq:
  assumes "table_ok (fs_disk s)" and "links_ok (fs_disk s)"
  shows "parent_loop cs n s = Some (case walk (fs_disk s) cs n of Some m \<Rightarrow> Inr m | None \<Rightarrow> Inl FileNotFound, s)"
  by (induction cs arbitrary: n)
     (simp_all add: ret_def throw_def bindE_def low_def getChildOfDirectory_eq[OF assms] Let_def)

lemma exists_loop_eq:
  assumes "table_ok (fs_disk s)" and "links_ok (fs_disk s)"
  shows "exists_loop cs n s = Some (case walk (fs_disk s) cs n of Some m \<Rightarrow> Inr () | None \<Rightarrow> Inl FileNotFound, s)"
  by (induction cs arbitrary: n)
     (simp_all add: ret_def throw_def bindE_def low_def getChildOfDirectory_eq[OF assms] Let_def)

section \<open>Paths to entries of directories\<close>

lemma walk_type:
  assumes "walk d cs n = Some m" and "i_type n \<noteq> INT_INVALID"
  shows "i_type m \<noteq> INT_INVALID"
  using assms by (induction cs arbitrary: n) (auto simp: Let_def split: if_splits)

lemma locate_walk:
  assumes "i_type (node_by_id d 0) \<noteq> INT_INVALID"
  shows "locate d cs = walk d cs (node_by_id d 0)"
  using walk_type[OF _ assms] by (auto simp: locate_def split: option.split)

lemma locate_snoc:
  assumes "i_type (node_by_id d 0) \<noteq> INT_INVALID"
  shows "locate d (cs @ [b]) = (case locate d cs of None \<Rightarrow> None
     | Some m \<Rightarrow> if i_type (child_named d (i_inodeid m) b) = INT_INVALID then None
                else Some (child_named d (i_inodeid m) b))"
  by (simp add: locate_walk[OF assms] walk_append Let_def split: option.split)

lemma locate_butlast:
  assumes "i_type (node_by_id d 0) \<noteq> INT_INVALID" and "locate d cs = Some n" and "cs \<noteq> []"
  obtains m where "locate d (butlast cs) = Some m"
  using assms(2,3) locate_snoc[OF assms(1), of "butlast cs" "last cs"] that by (auto split: option.splits)

text \<open>A sound package in which the root inode exists.\<close>

definition rooted :: "disk \<Rightarrow> bool" where
  "rooted d \<longleftrightarrow> table_ok d \<and> links_ok d \<and> i_type (node_by_id d 0) \<noteq> INT_INVALID"

lemma ensurePathExists_eq:
  assumes "rooted (fs_disk s)"
  shows "ensurePathExists path s = Some (case path_error path of Some e \<Rightarrow> Inl e
     | None \<Rightarrow> if locate (fs_disk s) (components path) = None then Inl FileNotFound else Inr (), s)"
proof -
  have t: "table_ok (fs_disk s)" "links_ok (fs_disk s)" "i_type (node_by_id (fs_disk s) 0) \<noteq> INT_INVALID"
    using assms by (simp_all add: rooted_def)
  show ?thesis
    by (auto simp: ensurePathExists_def seqE_def bindE_def ensurePathIsValid_eq low_def getINodeByID_eq[OF t(1,2)]
        exists_loop_eq[OF t(1,2)] splitPathBySeperators_components locate_walk[OF t(3)] split: option.split)
qed

lemma ensurePathIsAvailable_eq:
  assumes "rooted (fs_disk s)" and "components path \<noteq> []"
  shows "ensurePathIsAvailable path s = Some (case path_error path of Some e \<Rightarrow> Inl e
     | None \<Rightarrow> if locate (fs_disk s) (butlast (components path)) = None then Inl FileNotFound
              else if locate (fs_disk s) (components path) = None then Inr () else Inl FileExists, s)"
proof -
  have t: "table_ok (fs_disk s)" "links_ok (fs_disk s)" "i_type (node_by_id (fs_disk s) 0) \<noteq> INT_INVALID"
    using assms by (simp_all add: rooted_def)
  let ?cs = "components path"
  have c: "cstr (last ?cs) = last ?cs" if "path_error path = None"
    using valid_path_parts[OF that, of "last ?cs"] assms(2) cstr_append_zeros[of "last ?cs" 0] by simp
  have snoc: "locate (fs_disk s) ?cs = (case locate (fs_disk s) (butlast ?cs) of None \<Rightarrow> None
     | Some m \<Rightarrow> if i_type (child_named (fs_disk s) (i_inodeid m) (last ?cs)) = INT_INVALID then None
                else Some (child_named (fs_disk s) (i_inodeid m) (last ?cs)))"
    using locate_snoc[OF t(3), of "butlast ?cs" "last ?cs"] assms(2) by simp
  show ?thesis
  proof (cases "path_error path")
    case None
    show ?thesis
      unfolding snoc using None assms(2) c[OF None]
      by (cases "walk (fs_disk s) (butlast ?cs) (node_by_id (fs_disk s) 0)")
         (auto simp: ensurePathIsAvailable_def seqE_def bindE_def ensurePathIsValid_eq low_def getINodeByID_eq[OF t(1,2)]
          parent_loop_eq[OF t(1,2)] getChildOfDirectory_eq[OF t(1,2)] splitPathBySeperators_components
          locate_walk[OF t(3)] Let_def throw_def ret_def)
  next
    case (Some e)
    then show ?thesis by (simp add: ensurePathIsAvailable_def seqE_def bindE_def ensurePathIsValid_eq)
  qed
qed

lemma rooted_need:
  assumes "rooted (fs_disk s)"
  shows "need (retrievePathToINode path) s = Some (case path_error path of
      Some e \<Rightarrow> Inl e
    | None \<Rightarrow> (case locate (fs_disk s) (components path) of Some n \<Rightarrow> Inr n | None \<Rightarrow> Inl FileNotFound), s)"
    and "components path \<noteq> [] \<Longrightarrow> need (retrieveParentPathToINode path) s = Some (case path_error path of
      Some e \<Rightarrow> Inl e
    | None \<Rightarrow> (case locate (fs_disk s) (butlast (components path)) of Some n \<Rightarrow> Inr n | None \<Rightarrow> Inl FileNotFound), s)"
  using assms need_retrievePathToINode need_retrieveParent by (auto simp: rooted_def)

section \<open>Operations that only look\<close>

lemma getattr_eq:
  assumes "rooted (fs_disk s)"
  shows "getattr path s = Some (case path_error path of Some e \<Rightarrow> Inl e
    | None \<Rightarrow> (case locate (fs_disk s) (components path) of None \<Rightarrow> Inl FileNotFound
      | Some n \<Rightarrow> if \<not> tabled_type (i_type n) then Inl FileNotFound
                 else (case stat_of n of Some st \<Rightarrow> Inr st | None \<Rightarrow> Inl InternalInconsistency)), s)"
proof -
  let ?d = "fs_disk s"
  have l: "links_ok ?d" using assms by (simp add: rooted_def)
  have hl: "inode_resolve n s = Some (n, s)" if n: "locate ?d (components path) = Some n" and "i_type n = INT_HARDLINK" for n
  proof -
    have "walk ?d (components path) (node_by_id ?d 0) = Some n" "i_type n \<noteq> INT_INVALID"
      using n by (auto simp: locate_def split: option.splits if_splits)
    then obtain j where "n = node_by_id ?d j" using walk_node by blast
    then show ?thesis using node_hardlink[OF l] that by simp
  qed
  then show ?thesis
    by (auto simp: getattr_def bindE_def rooted_need(1)[OF assms] low_def ret_def throw_def split: option.split)
qed

lemma readdir_eq:
  assumes "rooted (fs_disk s)"
  shows "readdir path s = Some (case path_error path of Some e \<Rightarrow> Inl e
    | None \<Rightarrow> (case locate (fs_disk s) (components path) of None \<Rightarrow> Inl FileNotFound
      | Some n \<Rightarrow> if i_type n \<noteq> INT_DIRECTORY then Inl NotADirectory
                 else if i_type (node_by_id (fs_disk s) (i_inodeid n)) = INT_DIRECTORY
                 then Inr (map (\<lambda>c. cstr (i_filename c)) (child_nodes (fs_disk s) (node_by_id (fs_disk s) (i_inodeid n))))
                 else Inr []), s)"
proof -
  have t: "table_ok (fs_disk s)" "links_ok (fs_disk s)" using assms by (simp_all add: rooted_def)
  show ?thesis
    by (auto simp: readdir_def seqE_def bindE_def ensurePathExists_eq[OF assms] rooted_need(1)[OF assms] low_def
        getChildrenOfDirectory_eq[OF t] ret_def throw_def split: option.split)
qed

section \<open>Refusals\<close>

lemma unlink_directory:
  assumes "rooted (fs_disk s)" and "path_error path = None" and "components path \<noteq> []"
    and "locate (fs_disk s) (components path) = Some n" and "i_type n = INT_DIRECTORY"
  shows "unlink path s = Some (Inl IsADirectory, s)"
proof -
  obtain m where "locate (fs_disk s) (butlast (components path)) = Some m"
    using locate_butlast[OF _ assms(4,3)] assms(1) by (auto simp: rooted_def)
  then show ?thesis
    using assms(2-5) by (simp add: unlink_def bindE_def rooted_need[OF assms(1)] throw_def)
qed

lemma rmdir_refused:
  assumes "rooted (fs_disk s)" and "path_error path = None" and "components path \<noteq> []"
    and "locate (fs_disk s) (components path) = Some n"
  shows "i_type n \<noteq> INT_DIRECTORY \<Longrightarrow> rmdir path s = Some (Inl NotADirectory, s)"
    and "i_type n = INT_DIRECTORY \<Longrightarrow> i_children_count n \<noteq> 0 \<Longrightarrow> rmdir path s = Some (Inl DirectoryNotEmpty, s)"
proof -
  obtain m where "locate (fs_disk s) (butlast (components path)) = Some m"
    using locate_butlast[OF _ assms(4,3)] assms(1) by (auto simp: rooted_def)
  then show "i_type n \<noteq> INT_DIRECTORY \<Longrightarrow> rmdir path s = Some (Inl NotADirectory, s)"
    "i_type n = INT_DIRECTORY \<Longrightarrow> i_children_count n \<noteq> 0 \<Longrightarrow> rmdir path s = Some (Inl DirectoryNotEmpty, s)"
    using assms(2-4) by (simp_all add: rmdir_def bindE_def rooted_need[OF assms(1)] throw_def)
qed

lemma performCreation_refused:
  assumes "rooted (fs_disk s)" and "components path \<noteq> []"
  shows "path_error path = Some e \<Longrightarrow> performCreation cred ty path mode cf s = Some (Inl e, s)"
    and "path_error path = None \<Longrightarrow> locate (fs_disk s) (butlast (components path)) = None \<Longrightarrow>
      performCreation cred ty path mode cf s = Some (Inl FileNotFound, s)"
    and "path_error path = None \<Longrightarrow> locate (fs_disk s) (components path) = Some n \<Longrightarrow>
      performCreation cred ty path mode cf s = Some (Inl FileExists, s)"
proof -
  show "path_error path = Some e \<Longrightarrow> performCreation cred ty path mode cf s = Some (Inl e, s)"
    by (simp add: performCreation_def seqE_def bindE_def ensurePathIsAvailable_eq[OF assms])
  show "path_error path = None \<Longrightarrow> locate (fs_disk s) (butlast (components path)) = None \<Longrightarrow>
      performCreation cred ty path mode cf s = Some (Inl FileNotFound, s)"
    by (simp add: performCreation_def seqE_def bindE_def ensurePathIsAvailable_eq[OF assms])
  show "performCreation cred ty path mode cf s = Some (Inl FileExists, s)"
    if ok: "path_error path = None" and found: "locate (fs_disk s) (components path) = Some n"
  proof -
    obtain m where "locate (fs_disk s) (butlast (components path)) = Some m"
      using locate_butlast[OF _ found assms(2)] assms(1) by (auto simp: rooted_def)
    then show ?thesis
      using ok found by (simp add: performCreation_def seqE_def bindE_def ensurePathIsAvailable_eq[OF assms])
  qed
qed

end
