(* ===== verification/AppFS_Inv.thy ===== *)
theory AppFS_Inv
  imports AppFS_Walk
begin

text \<open>
  The invariant of a package that its operations on paths keep: the inode table is sound and knows
  every inode under its own number, number 0 is the root directory, directories are well-formed,
  list only numbers in use and no name twice, and hard links lead to files or devices. With how a
  new inode and a new entry of a directory change what paths mean.
\<close>

section \<open>The invariant\<close>

definition node_name :: "disk \<Rightarrow> u16 \<Rightarrow> byte list" where
  "node_name d c = cstr (i_filename (node_by_id d c))"

definition dir_sound :: "disk \<Rightarrow> inode \<Rightarrow> bool" where
  "dir_sound d n \<longleftrightarrow> dir_wf n \<and> (\<forall>c \<in> set (used (i_children n)). tabled_type (i_type (node_by_id d c))) \<and>
     distinct (map (node_name d) (used (i_children n)))"

definition pkg_ok :: "disk \<Rightarrow> bool" where
  "pkg_ok d \<longleftrightarrow> tree_ok d \<and> i_type (raw_by_id d 0) = INT_DIRECTORY \<and>
     (\<forall>j. lookup_at d j \<noteq> 0 \<longrightarrow> i_inodeid (raw_by_id d j) = j) \<and>
     (\<forall>j. i_type (raw_by_id d j) = INT_DIRECTORY \<longrightarrow> dir_sound d (raw_by_id d j)) \<and>
     (\<forall>j. i_type (raw_by_id d j) = INT_HARDLINK \<longrightarrow>
        i_type (raw_by_id d (i_realid (raw_by_id d j))) \<in> {INT_FILEINFO, INT_DEVICE})"

lemma raw_unused: "lookup_at d j = 0 \<Longrightarrow> raw_by_id d j = new_inode 0 INT_INVALID"
  by (simp add: raw_by_id_def)

lemma raw_used: "tree_ok d \<Longrightarrow> lookup_at d j \<noteq> 0 \<Longrightarrow> raw_by_id d j = inode_at d (unat (lookup_at d j))"
  using block_okD(1)[OF tree_okD(3), of d j] by (auto simp: raw_by_id_def Let_def config)

lemma raw_type_used: "i_type (raw_by_id d j) \<noteq> INT_INVALID \<Longrightarrow> lookup_at d j \<noteq> 0"
  using raw_unused[of d j] by auto

lemma node_type_used:
  assumes "i_type (node_by_id d j) \<noteq> INT_INVALID"
  shows "lookup_at d j \<noteq> 0"
proof
  assume "lookup_at d j = 0"
  then have "node_by_id d j = new_inode 0 INT_INVALID"
    by (simp add: node_by_id_def link_target_view_def raw_unused)
  then show False using assms by simp
qed

lemma dir_sound_used: "dir_sound d n \<Longrightarrow> c \<in> set (used (i_children n)) \<Longrightarrow> lookup_at d c \<noteq> 0"
  using node_type_used[of d c] by (auto simp: dir_sound_def tabled_type_def)

lemma pkg_okD:
  assumes "pkg_ok d"
  shows "tree_ok d" "i_type (raw_by_id d 0) = INT_DIRECTORY" "lookup_at d j \<noteq> 0 \<Longrightarrow> i_inodeid (raw_by_id d j) = j"
    "i_type (raw_by_id d j) = INT_DIRECTORY \<Longrightarrow> dir_sound d (raw_by_id d j)"
    "i_type (raw_by_id d j) = INT_HARDLINK \<Longrightarrow>
       i_type (raw_by_id d (i_realid (raw_by_id d j))) = INT_FILEINFO \<or>
       i_type (raw_by_id d (i_realid (raw_by_id d j))) = INT_DEVICE"
  using assms by (auto simp: pkg_ok_def)

lemma pkg_link:
  assumes ok: "pkg_ok d" and ty: "i_type (raw_by_id d j) = INT_HARDLINK"
  shows "i_realid (raw_by_id d j) \<noteq> 0" "node_by_id d j = link_view (raw_by_id d j) (raw_by_id d (i_realid (raw_by_id d j)))"
    "i_type (node_by_id d j) = INT_FILEINFO \<or> i_type (node_by_id d j) = INT_DEVICE"
    "i_realid (node_by_id d j) = j"
proof -
  show r: "i_realid (raw_by_id d j) \<noteq> 0" using pkg_okD(5)[OF ok ty] pkg_okD(2)[OF ok] by auto
  show v: "node_by_id d j = link_view (raw_by_id d j) (raw_by_id d (i_realid (raw_by_id d j)))"
    using ty r by (simp add: node_by_id_def link_target_view_def)
  show "i_type (node_by_id d j) = INT_FILEINFO \<or> i_type (node_by_id d j) = INT_DEVICE"
    using pkg_okD(5)[OF ok ty] by (simp add: v link_view_def)
  have "lookup_at d j \<noteq> 0" using raw_type_used[of d j] ty by simp
  then show "i_realid (node_by_id d j) = j" using pkg_okD(3)[OF ok] by (simp add: v link_view_def)
qed

lemma node_plain: "i_type (raw_by_id d j) \<noteq> INT_HARDLINK \<Longrightarrow> node_by_id d j = raw_by_id d j"
  by (simp add: node_by_id_def link_target_view_def)

lemma pkg_rooted: "pkg_ok d \<Longrightarrow> rooted d"
  using pkg_okD[of d] node_plain[of d 0] by (simp add: rooted_def tree_okD)

lemma pkg_directory:
  assumes ok: "pkg_ok d" and ty: "i_type (node_by_id d j) = INT_DIRECTORY"
  shows "dir_at d j (lookup_at d j) (node_by_id d j)" and "dir_sound d (node_by_id d j)" and "i_inodeid (node_by_id d j) = j"
proof -
  have nl: "i_type (raw_by_id d j) \<noteq> INT_HARDLINK" using pkg_link(3)[OF ok, of j] ty by auto
  note n = node_plain[OF nl]
  have u: "lookup_at d j \<noteq> 0" using raw_type_used[of d j] ty by (simp add: n)
  show "dir_at d j (lookup_at d j) (node_by_id d j)"
    using tree_okD(3)[OF pkg_okD(1)[OF ok] u] raw_used[OF pkg_okD(1)[OF ok] u] pkg_okD(3)[OF ok u] ty
    by (simp add: n dir_at_def)
  show "dir_sound d (node_by_id d j)" using pkg_okD(4)[OF ok] ty by (simp add: n)
  show "i_inodeid (node_by_id d j) = j" using pkg_okD(3)[OF ok u] by (simp add: n)
qed

lemma locate_node:
  assumes "locate d cs = Some n"
  obtains j where "n = node_by_id d j" and "i_type n \<noteq> INT_INVALID"
proof -
  have w: "walk d cs (node_by_id d 0) = Some n" and ty: "i_type n \<noteq> INT_INVALID"
    using assms by (auto simp: locate_def split: option.splits if_splits)
  from walk_node[OF this] that ty show ?thesis by blast
qed

lemma locate_directory:
  assumes "pkg_ok d" and "locate d cs = Some n" and "i_type n = INT_DIRECTORY"
  shows "dir_at d (i_inodeid n) (lookup_at d (i_inodeid n)) n" and "dir_sound d n"
    and "n = node_by_id d (i_inodeid n)"
proof -
  obtain j where j: "n = node_by_id d j" by (rule locate_node[OF assms(2)])
  note p = pkg_directory[OF assms(1), of j, folded j, OF assms(3)]
  show "dir_at d (i_inodeid n) (lookup_at d (i_inodeid n)) n" "dir_sound d n" using p by auto
  show "n = node_by_id d (i_inodeid n)" using p(3) j by simp
qed

lemma inode_at_not_directory: "i_type (inode_at d p) \<noteq> INT_DIRECTORY \<Longrightarrow> i_children_count (inode_at d p) = 0"
  unfolding inode_at_def named_at_def head_at_def Let_def by (auto split: if_splits)

lemma visited_not_directory: "i_type (node_by_id d j) \<noteq> INT_DIRECTORY \<Longrightarrow> visited (node_by_id d j) = []"
proof -
  have "i_children_count (raw_by_id d j) = 0" if "i_type (raw_by_id d j) \<noteq> INT_DIRECTORY" for j
    using that inode_at_not_directory by (auto simp: raw_by_id_def Let_def)
  then show "i_type (node_by_id d j) \<noteq> INT_DIRECTORY \<Longrightarrow> visited (node_by_id d j) = []"
    by (auto simp: visited_def node_by_id_def link_target_view_def link_view_def)
qed

section \<open>What names lead to\<close>

lemma ident_fields: "ident n = ident m \<Longrightarrow> i_inodeid n = i_inodeid m \<and> i_type n = i_type m \<and> i_filename n = i_filename m
    \<and> i_realid n = i_realid m"
  by (simp add: ident_def)

text \<open>The permissions and the owner of an inode.\<close>

definition perms :: "inode \<Rightarrow> u16 \<times> u16 \<times> u16" where
  "perms n = (i_mask n, i_uid n, i_gid n)"

lemma perms_dir_put [simp]: "perms (dir_put m v c mt ct n) = perms n"
  by (simp add: perms_def dir_put_def)

text \<open>The name \<open>name\<close> of the directory \<open>pid\<close> leads to \<open>r\<close>; nothing else changes.\<close>

definition names_upd :: "disk \<Rightarrow> disk \<Rightarrow> u16 \<Rightarrow> byte list \<Rightarrow> (u16 \<times> inodetype \<times> byte list \<times> u16 \<times> u16) \<Rightarrow> bool" where
  "names_upd d e pid name r \<longleftrightarrow> ident (node_by_id e 0) = ident (node_by_id d 0) \<and>
     (\<forall>q nm. ident (child_named e q nm) = (if q = pid \<and> nm = name then r else ident (child_named d q nm)))"

definition same_names :: "disk \<Rightarrow> disk \<Rightarrow> bool" where
  "same_names d e \<longleftrightarrow> ident (node_by_id e 0) = ident (node_by_id d 0) \<and>
     (\<forall>q nm. ident (child_named e q nm) = ident (child_named d q nm))"

lemma names_upd_after: "same_names d e \<Longrightarrow> names_upd e f pid name r \<Longrightarrow> names_upd d f pid name r"
  by (simp add: same_names_def names_upd_def)

lemma names_upd_before: "names_upd d e pid name r \<Longrightarrow> same_names e f \<Longrightarrow> names_upd d f pid name r"
  by (simp add: same_names_def names_upd_def)

section \<open>A new inode\<close>

text \<open>
  \<open>e\<close> is \<open>d\<close> with the inode \<open>n\<close> in a block no other inode uses and its number, free in \<open>d\<close>,
  entered in the table.
\<close>

definition entered :: "disk \<Rightarrow> u32 \<Rightarrow> inode \<Rightarrow> disk \<Rightarrow> bool" where
  "entered d pos n e \<longleftrightarrow>
     dsize d \<le> dsize e \<and> lookup_at d (i_inodeid n) = 0 \<and> lookup_at e = (lookup_at d)(i_inodeid n := pos) \<and>
     block_ok e pos \<and> pos \<notin> range (lookup_at d) \<and> inode_at e (unat pos) = n \<and>
     (\<forall>q. block_ok d q \<longrightarrow> q \<noteq> pos \<longrightarrow> inode_at e (unat q) = inode_at d (unat q))"

lemma entered_raw:
  assumes ok: "pkg_ok d" and en: "entered d pos n e"
  shows "raw_by_id e j = (if j = i_inodeid n then n else raw_by_id d j)"
proof -
  note e = en[unfolded entered_def] and t = tree_okD[OF pkg_okD(1)[OF ok]]
  show ?thesis
  proof (cases "j = i_inodeid n")
    case True
    then show ?thesis using e block_okD(1,5)[of e pos] by (auto simp: raw_by_id_def Let_def config)
  next
    case False
    then have l: "lookup_at e j = lookup_at d j" using e by simp
    show ?thesis
    proof (cases "lookup_at d j = 0")
      case True
      then show ?thesis using False l by (simp add: raw_by_id_def)
    next
      case used: False
      have "lookup_at d j \<noteq> pos" using e by (metis rangeI)
      then have "inode_at e (unat (lookup_at d j)) = inode_at d (unat (lookup_at d j))" using e t(3)[OF used] by blast
      then show ?thesis using False by (simp add: raw_by_id_def l Let_def)
    qed
  qed
qed

lemma entered_node:
  assumes ok: "pkg_ok d" and en: "entered d pos n e" and ty: "i_type n \<noteq> INT_HARDLINK"
  shows "node_by_id e j = (if j = i_inodeid n then n else node_by_id d j)"
proof (cases "i_type (raw_by_id d j) = INT_HARDLINK \<and> j \<noteq> i_inodeid n")
  case True
  have "i_type (raw_by_id d (i_realid (raw_by_id d j))) \<noteq> INT_INVALID" using pkg_okD(5)[OF ok, of j] True by auto
  then have "lookup_at d (i_realid (raw_by_id d j)) \<noteq> 0" by (rule raw_type_used)
  then have "i_realid (raw_by_id d j) \<noteq> i_inodeid n" using en by (auto simp: entered_def)
  then show ?thesis using True by (simp add: node_by_id_def link_target_view_def entered_raw[OF ok en])
next
  case False
  then show ?thesis using ty by (auto simp: node_by_id_def link_target_view_def entered_raw[OF ok en])
qed

lemma entered_ok:
  assumes ok: "pkg_ok d" and en: "entered d pos n e"
    and ty: "i_type n \<in> {INT_FILEINFO, INT_DIRECTORY, INT_SYMLINK, INT_DEVICE}"
    and empty: "i_type n = INT_DIRECTORY \<Longrightarrow> dir_wf n \<and> used (i_children n) = []"
  shows "pkg_ok e"
proof -
  let ?v = "i_inodeid n"
  note e = en[unfolded entered_def] and t = tree_okD[OF pkg_okD(1)[OF ok]]
  have nl: "i_type n \<noteq> INT_HARDLINK" using ty by auto
  note raw = entered_raw[OF ok en] and node = entered_node[OF ok en nl]
  have bok: "block_ok e b" if "block_ok d b" for b using that e by (simp add: block_ok_def)
  have links: "i_type (raw_by_id e (i_realid (raw_by_id e j))) = INT_FILEINFO \<or> i_type (raw_by_id e (i_realid (raw_by_id e j))) = INT_DEVICE"
    if h: "i_type (raw_by_id e j) = INT_HARDLINK" for j
  proof -
    have j: "j \<noteq> ?v" "i_type (raw_by_id d j) = INT_HARDLINK" using h nl by (auto simp: raw split: if_splits)
    note l = pkg_okD(5)[OF ok j(2)]
    then have "lookup_at d (i_realid (raw_by_id d j)) \<noteq> 0" by (intro raw_type_used) auto
    then have "i_realid (raw_by_id d j) \<noteq> ?v" using e by auto
    then show ?thesis using l j(1) by (simp add: raw)
  qed
  then have lk: "links_ok e" unfolding links_ok_def by (metis inodetype.distinct(9) inodetype.simps)
  have tree: "tree_ok e"
    unfolding tree_ok_def
  proof (intro conjI allI impI lk)
    show "block_ok e (lookup_at e i)" if "lookup_at e i \<noteq> 0" for i
      using that e t(3)[of i] bok by (cases "i = ?v") auto
    show "i = j" if "lookup_at e i = lookup_at e j" "lookup_at e i \<noteq> 0" for i j
      using that e t(4)[of i j] by (auto split: if_splits)
  qed
  have root: "?v \<noteq> 0"
    using raw_type_used[of d 0] pkg_okD(2)[OF ok] e by auto
  have dirs: "dir_sound e (raw_by_id e j)" if d: "i_type (raw_by_id e j) = INT_DIRECTORY" for j
  proof (cases "j = ?v")
    case True
    then show ?thesis using empty d by (simp add: raw dir_sound_def)
  next
    case False
    then have ds: "dir_sound d (raw_by_id d j)" using pkg_okD(4)[OF ok, of j] d by (simp add: raw)
    have nv: "c \<noteq> ?v" if "c \<in> set (used (i_children (raw_by_id d j)))" for c
      using dir_sound_used[OF ds that] e by auto
    then have "node_by_id e c = node_by_id d c" if "c \<in> set (used (i_children (raw_by_id d j)))" for c
      using that by (simp add: node)
    then show ?thesis
      using ds False by (auto simp: dir_sound_def raw node_name_def cong: map_cong)
  qed
  show ?thesis
    unfolding pkg_ok_def using tree dirs links pkg_okD(2,3)[OF ok] root e by (auto simp: raw)
qed

text \<open>Until it is entered in a directory, no name leads to it.\<close>

lemma entered_names:
  assumes ok: "pkg_ok d" and en: "entered d pos n e" and ty: "i_type n \<noteq> INT_HARDLINK"
    and "pid \<noteq> i_inodeid n"
  shows "child_named e pid name = child_named d pid name"
proof -
  note node = entered_node[OF ok en ty]
  have pn: "node_by_id e pid = node_by_id d pid" using assms(4) by (simp add: node)
  have "c \<noteq> i_inodeid n" if "c \<in> set (visited (node_by_id d pid))" for c
  proof -
    have c: "c \<in> set (i_children (node_by_id d pid))" "c \<noteq> 0"
      using that by (auto simp: visited_def dest: in_set_takeD)
    have "i_type (node_by_id d pid) = INT_DIRECTORY" using that visited_not_directory by fastforce
    then have "lookup_at d c \<noteq> 0" using dir_sound_used[OF pkg_directory(2)[OF ok]] c by (auto simp: used_def)
    then show ?thesis using en by (auto simp: entered_def)
  qed
  then have "child_nodes e (node_by_id e pid) = child_nodes d (node_by_id d pid)"
    unfolding pn child_nodes_def by (intro arg_cong[where f = "filter _"] map_cong) (simp_all add: node)
  then show ?thesis by (simp add: child_named_def pn Let_def)
qed

lemma child_named_empty: "visited (node_by_id d q) = [] \<Longrightarrow> child_named d q name = new_inode 0 INT_INVALID"
  by (simp add: child_named_def child_nodes_def Let_def)

lemma entered_same_names:
  assumes ok: "pkg_ok d" and en: "entered d pos n e" and ty: "i_type n \<noteq> INT_HARDLINK" and empty: "visited n = []"
  shows "same_names d e"
proof -
  have free: "lookup_at d (i_inodeid n) = 0" using en by (simp add: entered_def)
  have root: "i_inodeid n \<noteq> 0" using raw_type_used[of d 0] pkg_okD(2)[OF ok] free by auto
  note node = entered_node[OF ok en ty]
  have "child_named e (i_inodeid n) nm = new_inode 0 INT_INVALID" for nm
    by (rule child_named_empty) (simp add: node empty)
  moreover have "child_named d (i_inodeid n) nm = new_inode 0 INT_INVALID" for nm
    by (rule child_named_empty) (simp add: node_by_id_def link_target_view_def raw_unused[OF free] visited_def)
  ultimately show ?thesis
    using entered_names[OF ok en ty] node root unfolding same_names_def by metis
qed

section \<open>A new entry\<close>

lemma find_ident_type:
  assumes "map ident ns = map ident ms"
  shows "ident (case find (\<lambda>c. name = cstr (i_filename c)) ns of Some c \<Rightarrow> c | None \<Rightarrow> new_inode 0 INT_INVALID)
    = ident (case find (\<lambda>c. name = cstr (i_filename c)) ms of Some c \<Rightarrow> c | None \<Rightarrow> new_inode 0 INT_INVALID)"
  using assms
proof (induction ns arbitrary: ms)
  case (Cons n ns)
  then obtain m ms' where "ms = m # ms'" "ident n = ident m" "map ident ns = map ident ms'" by auto
  then show ?case using Cons.IH[of ms'] ident_fields[of n m] by simp
qed simp

lemma child_nodes_ident:
  assumes "\<And>j. ident (node_by_id e j) = ident (node_by_id d j)" and "visited n = visited m"
  shows "map ident (child_nodes e n) = map ident (child_nodes d m)"
proof -
  have ty: "i_type (node_by_id e j) = i_type (node_by_id d j)" for j using ident_fields[OF assms(1)] by simp
  have "map ident (filter (\<lambda>c. tabled_type (i_type c)) (map (node_by_id e) cs))
    = map ident (filter (\<lambda>c. tabled_type (i_type c)) (map (node_by_id d) cs))" for cs
    by (induction cs) (simp_all add: assms(1) ty)
  then show ?thesis by (simp add: child_nodes_def assms(2))
qed

text \<open>A change of one directory that keeps its number, name, type and parent.\<close>

lemma dir_change_names:
  assumes ok: "pkg_ok (fs_disk s)" and dir: "dir_at (fs_disk s) pid p n" and dir': "dir_at (fs_disk s') pid p n'"
    and same: "same_outside p s s'" and id: "ident n' = ident n" and other: "q \<noteq> pid"
  shows "ident (child_named (fs_disk s') q name) = ident (child_named (fs_disk s) q name)"
proof -
  let ?d = "fs_disk s" and ?e = "fs_disk s'"
  note ch = dir_change_tree[OF pkg_okD(1)[OF ok] dir dir' same id]
  have node: "visited (node_by_id ?e q) = visited (node_by_id ?d q)"
  proof (cases "i_type (raw_by_id ?d q) = INT_HARDLINK")
    case True
    have "i_type (node_by_id ?d q) \<noteq> INT_DIRECTORY" using pkg_link(3)[OF ok True] by auto
    moreover have "i_type (node_by_id ?e q) = i_type (node_by_id ?d q)" using ident_fields[OF ch(2)] by simp
    ultimately show ?thesis using visited_not_directory by metis
  next
    case False
    then show ?thesis using ch(3)[OF other] by (simp add: node_plain)
  qed
  have ty: "i_type (node_by_id ?e q) = i_type (node_by_id ?d q)" using ident_fields[OF ch(2)] by simp
  show ?thesis
    using find_ident_type[OF child_nodes_ident[OF ch(2) node]] ty
    by (simp add: child_named_def Let_def)
qed

lemma listed_name_found:
  assumes "dir_sound d n" and "c \<in> set (used (i_children n))" and "node_by_id d pid = n" and "i_type n = INT_DIRECTORY"
  shows "i_type (child_named d pid (node_name d c)) \<noteq> INT_INVALID"
proof -
  let ?P = "\<lambda>m. node_name d c = cstr (i_filename m)"
  have wf: "dir_wf n" and ty: "tabled_type (i_type (node_by_id d c))" using assms(1,2) by (auto simp: dir_sound_def)
  then have mem: "node_by_id d c \<in> set (child_nodes d n)" using assms(2) by (simp add: child_nodes_def visited_all[OF wf])
  then obtain m where m: "find ?P (child_nodes d n) = Some m"
    by (cases "find ?P (child_nodes d n)") (auto simp: find_None_iff node_name_def)
  then have "m \<in> set (child_nodes d n)" by (auto simp: find_Some_iff)
  then have "tabled_type (i_type m)" by (auto simp: child_nodes_def)
  then show ?thesis using assms(3,4) m by (auto simp: child_named_def tabled_type_def)
qed

text \<open>A change of one directory as an update of the names.\<close>

lemma dir_change_upd:
  assumes ok: "pkg_ok (fs_disk s)" and dir: "dir_at (fs_disk s) pid p n" and dir': "dir_at (fs_disk s') pid p n'"
    and same: "same_outside p s s'" and id: "ident n' = ident n" and sound: "dir_sound (fs_disk s) n'"
    and map: "dir_map (fs_disk s) (used (i_children n')) = (dir_map (fs_disk s) (used (i_children n)))(name := r)"
  shows "names_upd (fs_disk s) (fs_disk s') pid name (case r of Some k \<Rightarrow> k | None \<Rightarrow> ident (new_inode 0 INT_INVALID))"
proof -
  let ?d = "fs_disk s" and ?e = "fs_disk s'"
  note ch = dir_change_tree[OF pkg_okD(1)[OF ok] dir dir' same id]
  have wf: "dir_wf n" "dir_wf n'"
    using pkg_okD(4)[OF ok, of pid] dir_atD[OF dir] sound by (simp_all add: dir_sound_def)
  have map': "dir_map ?e (used (i_children n')) = (dir_map ?d (used (i_children n)))(name := r)"
    using map dir_map_cong[OF ch(2)] by simp
  have "ident (child_named ?e pid nm) =
      (if nm = name then (case r of Some k \<Rightarrow> k | None \<Rightarrow> ident (new_inode 0 INT_INVALID)) else ident (child_named ?d pid nm))" for nm
    unfolding child_named_dir_map[OF dir' wf(2)] child_named_dir_map[OF dir wf(1)] map' by simp
  moreover have "ident (child_named ?e q nm) = ident (child_named ?d q nm)" if "q \<noteq> pid" for q nm
    by (rule dir_change_names[OF ok dir dir' same id that])
  ultimately show ?thesis using ch(2) unfolding names_upd_def by metis
qed

lemma dir_change_ok:
  assumes ok: "pkg_ok (fs_disk s)" and dir: "dir_at (fs_disk s) pid p n" and dir': "dir_at (fs_disk s') pid p n'"
    and same: "same_outside p s s'" and id: "ident n' = ident n" and sound: "dir_sound (fs_disk s) n'"
  shows "pkg_ok (fs_disk s')" and "raw_by_id (fs_disk s') j = (if j = pid then n' else raw_by_id (fs_disk s) j)"
proof -
  let ?d = "fs_disk s" and ?e = "fs_disk s'"
  note ch = dir_change_tree[OF pkg_okD(1)[OF ok] dir dir' same id]
  have raw: "raw_by_id ?d pid = n" "i_type n = INT_DIRECTORY" using dir_atD[OF dir] by simp_all
  have n': "i_type n' = INT_DIRECTORY" "i_inodeid n' = i_inodeid n" using ident_fields[OF id] raw(2) by simp_all
  have look: "lookup_at ?e = lookup_at ?d"
    by (rule same_outside_lookup[OF same block_okD(1)[OF dir_atD(2)[OF dir]]])
  show eqv: "raw_by_id ?e j = (if j = pid then n' else raw_by_id ?d j)" for j
    using ch(3)[of j] dir_atD(8)[OF dir'] by simp
  have sound': "dir_sound ?e m \<longleftrightarrow> dir_sound ?d m" for m
  proof -
    have "i_type (node_by_id ?e c) = i_type (node_by_id ?d c)" "node_name ?e c = node_name ?d c" for c
      using ident_fields[OF ch(2), of c] by (simp_all add: node_name_def)
    then show ?thesis by (simp add: dir_sound_def cong: map_cong)
  qed
  show "pkg_ok ?e"
    unfolding pkg_ok_def
  proof (intro conjI allI impI)
    show "tree_ok ?e" by (rule ch(1))
    show "i_type (raw_by_id ?e 0) = INT_DIRECTORY" using pkg_okD(2)[OF ok] n'(1) by (simp add: eqv)
    show "i_inodeid (raw_by_id ?e j) = j" if "lookup_at ?e j \<noteq> 0" for j
      using pkg_okD(3)[OF ok, of j] that look raw(1) n'(2) by (auto simp: eqv)
    show "dir_sound ?e (raw_by_id ?e j)" if "i_type (raw_by_id ?e j) = INT_DIRECTORY" for j
      using that sound pkg_okD(4)[OF ok, of j] by (cases "j = pid") (simp_all add: eqv sound')
    show "i_type (raw_by_id ?e (i_realid (raw_by_id ?e j))) \<in> {INT_FILEINFO, INT_DEVICE}"
      if "i_type (raw_by_id ?e j) = INT_HARDLINK" for j
    proof -
      have j: "j \<noteq> pid" "i_type (raw_by_id ?d j) = INT_HARDLINK" using that n'(1) by (auto simp: eqv split: if_splits)
      then show ?thesis using pkg_okD(5)[OF ok j(2)] raw by (auto simp: eqv)
    qed
  qed
qed

lemma add_entry:
  assumes ok: "pkg_ok (fs_disk s)" and dir: "dir_at (fs_disk s) pid p n"
    and room: "0 \<in> set (i_children n)" and v: "v \<notin> set (i_children n)" "v \<noteq> pid" "v \<noteq> 0"
    and ty: "tabled_type (i_type (node_by_id (fs_disk s) v))"
    and fresh: "i_type (child_named (fs_disk s) pid (node_name (fs_disk s) v)) = INT_INVALID"
  shows "\<exists>s' n'. addChildToDirectoryINode pid v s = Some (E_SUCCESS, s') \<and> same_outside p s s' \<and>
    dir_at (fs_disk s') pid p n' \<and> ident n' = ident n \<and> perms n' = perms n \<and> dir_sound (fs_disk s) n' \<and>
    set (used (i_children n')) = insert v (set (used (i_children n))) \<and>
    names_upd (fs_disk s) (fs_disk s') pid (node_name (fs_disk s) v) (ident (node_by_id (fs_disk s) v))"
proof -
  let ?d = "fs_disk s"
  let ?n = "dir_put (slot_index 0 (i_children n)) v (i_children_count n + 1) (fs_clock s (fs_ticks s)) (fs_clock s (Suc (fs_ticks s))) n"
  have raw: "raw_by_id ?d pid = n" "i_type n = INT_DIRECTORY" using dir_atD[OF dir] by simp_all
  have ds: "dir_sound ?d n" using pkg_okD(4)[OF ok, of pid] raw by simp
  have wf: "dir_wf n" using ds by (simp add: dir_sound_def)
  have node: "node_by_id ?d pid = n" using node_plain[of ?d pid] raw by simp
  have names: "node_name ?d c \<noteq> node_name ?d v" if c: "c \<in> set (used (i_children n))" for c
    using listed_name_found[OF ds c, of pid] fresh node raw(2) by auto
  obtain s' where s': "addChildToDirectoryINode pid v s = Some (E_SUCCESS, s')" "dir_at (fs_disk s') pid p ?n" "same_outside p s s'"
    using add_child_state[OF dir v(2)[symmetric] room] .
  have wf': "dir_wf ?n" by (rule dir_wf_add[OF wf room dir_atD(7)[OF dir] v(3,1)])
  obtain us vs where u: "used (i_children n) = us @ vs" "used (i_children ?n) = us @ v # vs"
    using used_add[OF room v(3)] by (metis dir_put_fields(1))
  have "node_name ?d v \<notin> node_name ?d ` set (us @ vs)" using names unfolding u by fastforce
  then have sound: "dir_sound ?d ?n" using wf' ds ty unfolding dir_sound_def u by auto
  have map: "dir_map ?d (used (i_children ?n)) = (dir_map ?d (used (i_children n)))(node_name ?d v := Some (ident (node_by_id ?d v)))"
    using used_add_map[OF _ ty room v(3)] names by (simp add: dir_put_fields node_name_def)
  have "names_upd ?d (fs_disk s') pid (node_name ?d v) (ident (node_by_id ?d v))"
    using dir_change_upd[OF ok dir s'(2,3) ident_dir_put sound map] by simp
  then show ?thesis using s' sound u by (intro exI[of _ s'] exI[of _ ?n]) (simp add: ident_dir_put)
qed

end
