(* ===== verification/FSFile_Read.thy ===== *)
theory FSFile_Read
  imports FSFile LowFS_DirProps
begin

text \<open>
  Reading a file: on a file whose blocks are listed in its slots, \<^verbatim>\<open>FSFile::read\<close> returns the
  bytes of the file from the read position on, as many as were asked for and are there, moves
  the position behind them and sets the end-of-file bit when it reached the end.

  The read and write loops are followed on natural numbers; the lemmas of the first section
  carry the 32-bit counters over.
\<close>

section \<open>32-bit counters as numbers\<close>

lemma u32_less: "a < 2 ^ 32 \<Longrightarrow> b < 2 ^ 32 \<Longrightarrow> (of_nat a :: u32) < of_nat b \<longleftrightarrow> a < b"
  by (simp only: word_less_nat_alt unat_of_nat_small)

lemma u32_eq: "a < 2 ^ 32 \<Longrightarrow> b < 2 ^ 32 \<Longrightarrow> (of_nat a :: u32) = of_nat b \<longleftrightarrow> a = b"
  by (metis unat_of_nat_small)

lemma u32_diff: "b \<le> a \<Longrightarrow> (of_nat a :: u32) - of_nat b = of_nat (a - b)"
  by (simp add: of_nat_diff)

lemma u32_min: "a < 2 ^ 32 \<Longrightarrow> b < 2 ^ 32 \<Longrightarrow> min (of_nat a :: u32) (of_nat b) = of_nat (min a b)"
  by (auto simp: min_def word_le_nat_alt unat_of_nat_small)

lemma u32_div: "a < 2 ^ 32 \<Longrightarrow> (of_nat a :: u32) div 4096 = of_nat (a div 4096)"
proof -
  assume a: "a < 2 ^ 32"
  have "a div 4096 < 2 ^ 32" using a by (meson div_le_dividend le_less_trans)
  moreover have "unat ((of_nat a :: u32) div 4096) = a div 4096"
    using a by (simp add: unat_div unat_of_nat_small)
  ultimately show ?thesis by (simp add: word_unat_eq_iff unat_of_nat_small)
qed

lemma u32_offset: "a < 2 ^ 32 \<Longrightarrow> (of_nat a :: u32) - of_nat a div 4096 * 4096 = of_nat (a mod 4096)"
proof -
  assume a: "a < 2 ^ 32"
  have "(of_nat a :: u32) div 4096 * 4096 = of_nat (a div 4096 * 4096)"
    using a by (simp add: u32_div)
  then have "(of_nat a :: u32) - of_nat a div 4096 * 4096 = of_nat a - of_nat (a div 4096 * 4096)"
    by simp
  also have "\<dots> = of_nat (a - a div 4096 * 4096)" by (rule u32_diff) simp
  finally show ?thesis by (simp add: minus_div_mult_eq_mod)
qed

lemma u32_numeral_diff: "b \<le> 4096 \<Longrightarrow> (4096 :: u32) - of_nat b = of_nat (4096 - b)"
  using u32_diff[of b 4096] by simp

section \<open>The blocks of a file\<close>

definition seg_at :: "disk \<Rightarrow> u32 \<Rightarrow> nat \<Rightarrow> u32" where
  "seg_at d p k = u32_at d (unat p + (308 + 4 * k))"

text \<open>The blocks \<open>bs\<close> are listed in the slots of the block at \<open>p\<close>, and a zero follows.\<close>

definition blocks_at :: "disk \<Rightarrow> u32 \<Rightarrow> u32 list \<Rightarrow> bool" where
  "blocks_at d p bs \<longleftrightarrow>
     block_ok d p \<and> length bs < 947 \<and>
     (\<forall>k < length bs. seg_at d p k = bs ! k \<and> block_ok d (bs ! k)) \<and> seg_at d p (length bs) = 0"

definition data_addr :: "u32 list \<Rightarrow> nat \<Rightarrow> nat" where
  "data_addr bs j = unat (bs ! (j div 4096)) + j mod 4096"

text \<open>Bytes \<open>pos\<close> to \<open>pos + n\<close> of the file.\<close>

definition file_bytes :: "disk \<Rightarrow> u32 list \<Rightarrow> nat \<Rightarrow> nat \<Rightarrow> byte list" where
  "file_bytes d bs pos n = map (\<lambda>j. byte_at d (data_addr bs (pos + j))) [0..<n]"

lemma length_file_bytes [simp]: "length (file_bytes d bs pos n) = n"
  by (simp add: file_bytes_def)

lemma file_bytes_append:
  "file_bytes d bs pos (m + n) = file_bytes d bs pos m @ file_bytes d bs (pos + m) n"
  by (simp add: file_bytes_def map_upt_append add.assoc)

lemma data_addr_inside:
  assumes "pos mod 4096 + i < 4096"
  shows "data_addr bs (pos + i) = data_addr bs pos + i"
proof -
  define q r where "q = pos div 4096" and "r = pos mod 4096"
  then have pos: "pos = 4096 * q + r" and r: "r < 4096" by simp_all
  have i: "r + i < 4096" using assms r_def by simp
  have "(4096 * q + r) div 4096 = q" "(4096 * q + r) mod 4096 = r" using r by simp_all
  moreover have "pos + i = 4096 * q + (r + i)" using pos by simp
  moreover have "(4096 * q + (r + i)) div 4096 = q" "(4096 * q + (r + i)) mod 4096 = r + i"
    using i by simp_all
  ultimately show ?thesis using pos by (simp only: data_addr_def)
qed

lemma file_bytes_slice:
  assumes "pos mod 4096 + n \<le> 4096"
  shows "file_bytes d bs pos n = slice (byte_at d) (data_addr bs pos) n"
proof (rule nth_equalityI)
  fix i assume "i < length (file_bytes d bs pos n)"
  then have i: "i < n" by simp
  then have "data_addr bs (pos + i) = data_addr bs pos + i"
    using assms by (intro data_addr_inside) simp
  then show "file_bytes d bs pos n ! i = slice (byte_at d) (data_addr bs pos) n ! i"
    using i by (simp add: file_bytes_def)
qed simp

section \<open>The buffer\<close>

lemma buf_put_append:
  "length xs + length ys \<le> length out \<Longrightarrow>
   buf_put (length xs) ys (buf_put 0 xs out) = buf_put 0 (xs @ ys) out"
  by (simp add: buf_put_def add.commute)

lemma buf_put_Nil [simp]: "buf_put 0 [] out = out"
  by (simp add: buf_put_def)

section \<open>One slot\<close>

lemma fd_read_seek:
  "p + n \<le> dsize (fs_disk s) \<Longrightarrow>
   fd_read n (fd_seek p s) = (slice (byte_at (fs_disk s)) p n, fd_seek (p + n) s)"
  by (simp add: fd_read_def fd_seek_def disk_read_def disk_seek_def Let_def)

lemma seg_scan_step:
  assumes "block_ok (fs_disk s) p" and "i + 4 \<le> 4096"
  shows "seg_scan visit p (i # is) acc (fd_seek q s) =
    (let (r, t) = visit i (u32_at (fs_disk s) (unat p + i)) acc (fd_seek (unat p + i + 4) s)
     in case r of Stop b \<Rightarrow> (Stop b, t) | Go acc \<Rightarrow> seg_scan visit p is acc t)"
proof -
  have "unat (p + of_nat i) = unat p + i" by (rule unat_block_plus[OF assms(1)]) (use assms(2) in simp)
  moreover have "fd_doR32 0 (fd_seek (unat p + i) s) = (u32_at (fs_disk s) (unat p + i), fd_seek (unat p + i + 4) s)"
    using fd_doR32_seek[of "unat p + i" s 0] block_okD(4)[OF assms(1)] assms(2) by simp
  ultimately show ?thesis by (simp add: fd_simps)
qed

text \<open>The offsets of the slots from number \<open>k\<close> on.\<close>

definition slots_from :: "nat \<Rightarrow> nat list" where
  "slots_from k = map (\<lambda>j. 308 + 4 * j) [k..<947]"

lemma segment_offsets_file: "segment_offsets HSIZE_FILE = slots_from 0"
  by (simp add: segment_offsets_def slots_from_def HSIZE_FILE_def)

lemma slots_from_Cons: "k < 947 \<Longrightarrow> slots_from k = (308 + 4 * k) # slots_from (Suc k)"
  by (simp add: slots_from_def upt_conv_Cons)

text \<open>What the slot's branch of the code does, on numbers: \<open>D\<close> bytes have been read so far.\<close>

definition read_acc :: "nat \<Rightarrow> nat \<Rightarrow> nat \<Rightarrow> byte list \<Rightarrow> fsfile \<Rightarrow> u32 \<times> u32 \<times> byte list \<times> fsfile" where
  "read_acc k D pos out f = (of_nat k, of_nat D, out, f\<lparr>f_posg := of_nat (pos + D)\<rparr>)"

definition read_result :: "nat \<Rightarrow> nat \<Rightarrow> nat \<Rightarrow> byte list \<Rightarrow> fsfile \<Rightarrow> u32 \<times> byte list \<times> fsfile" where
  "read_result fs D pos out f =
     (of_nat D, out, (if pos + D = fs then file_clear eof_only else (\<lambda>f. f)) (f\<lparr>f_posg := of_nat (pos + D)\<rparr>))"

lemma read_visit_eof:
  assumes "pos + D = fs"
  shows "read_visit cnt (of_nat fs) bst ben old i spos (read_acc k D pos out f) s
       = (Stop (read_result fs D pos out f), fd_seek old s)"
  using assms by (auto simp: read_visit_def read_acc_def read_result_def Let_def)

lemma u32_left:
  assumes "P < fs" and "fs < 2 ^ 32"
  shows "(of_nat fs :: u32) - of_nat P = of_nat (fs - P)" and "(of_nat fs :: u32) \<noteq> of_nat P"
proof -
  show "(of_nat fs :: u32) - of_nat P = of_nat (fs - P)" using assms by (intro u32_diff) simp
  have "P < 2 ^ 32" using assms by (rule less_trans)
  then show "(of_nat fs :: u32) \<noteq> of_nat P" using assms u32_eq[of fs P] by auto
qed

lemma read_visit_skip:
  assumes "pos + D < fs" and "fs < 2 ^ 32" and "spos \<noteq> 0" and "k < b" and "b < 2 ^ 32"
  shows "read_visit cnt (of_nat fs) (of_nat b) ben old i spos (read_acc k D pos out f) s
       = (Go (read_acc (Suc k) D pos out f), s)"
proof -
  have "(of_nat k :: u32) < of_nat b" using assms by (simp add: u32_less)
  then show ?thesis
    using assms(3) u32_left(2)[OF assms(1,2)]
    by (simp add: read_visit_def read_acc_def del: of_nat_add)
qed

lemma read_chunk_result:
  assumes "unat at + c \<le> dsize (fs_disk s)" and "pos + D + c \<le> fs" and "fs < 2 ^ 32"
  shows "read_chunk at (of_nat c) (of_nat fs) (of_nat D) out (f\<lparr>f_posg := of_nat (pos + D)\<rparr>) s
    = ((of_nat (D + c), buf_put D (slice (byte_at (fs_disk s)) (unat at) c) out,
        f\<lparr>f_posg := of_nat (pos + (D + c))\<rparr>), fd_seek (unat at + c) s)"
proof -
  have u: "unat (of_nat c :: u32) = c" "unat (of_nat D :: u32) = D"
    using assms(2,3) by (auto intro!: unat_of_nat_small)
  have "(of_nat (pos + D) :: u32) + of_nat c = of_nat (pos + (D + c))" by simp
  moreover have "\<not> (of_nat fs :: u32) < of_nat (pos + (D + c))"
    using assms(2,3) by (subst u32_less) simp_all
  ultimately show ?thesis
    by (simp add: read_chunk_def u fd_read_seek[OF assms(1)] Let_def del: of_nat_add)
       (simp add: add.assoc)
qed

text \<open>A slot in the range of the read: one chunk, and the end when it is the last block.\<close>

lemma read_visit_chunk:
  assumes cur: "pos + D < fs" "D < cnt" and small: "fs < 2 ^ 32" "cnt < 2 ^ 32" "ben < 2 ^ 32"
    and k: "(pos + D) div 4096 = k" "bst \<le> k" "k \<le> ben" "k = bst \<or> (pos + D) mod 4096 = 0"
    and ok: "block_ok (fs_disk s) spos"
  defines "c \<equiv> min (cnt - D) (min (4096 - (pos + D) mod 4096) (fs - (pos + D)))"
    and "at \<equiv> unat spos + (pos + D) mod 4096"
  shows "read_visit (of_nat cnt) (of_nat fs) (of_nat bst) (of_nat ben) old i spos
      (read_acc k D pos out f) s =
    (let out = buf_put D (slice (byte_at (fs_disk s)) at c) out
     in if k = ben then (Stop (read_result fs (D + c) pos out f), fd_seek old s)
        else (Go (read_acc (Suc k) (D + c) pos out f), fd_seek (at + c) s))"
proof -
  let ?m = "(pos + D) mod 4096"
  have m: "?m < 4096" by simp
  have kk: "k < 2 ^ 32" "bst < 2 ^ 32" using k small by auto
  have at: "unat (spos + of_nat ?m) = at" unfolding at_def by (rule unat_block_plus[OF ok]) (use m in simp)
  have c: "c \<le> 4096 - ?m" "pos + D + c \<le> fs" by (simp_all add: c_def) (use cur in simp)
  have bound: "at + c \<le> dsize (fs_disk s)"
    using c(1) m block_okD(4)[OF ok] by (simp add: at_def)
  have cs: "min ((of_nat cnt :: u32) - of_nat D) (min (4096 - of_nat ?m) (of_nat fs - of_nat (pos + D))) = of_nat c"
  proof -
    have "(of_nat cnt :: u32) - of_nat D = of_nat (cnt - D)" using cur(2) by (intro u32_diff) simp
    moreover have "(4096 :: u32) - of_nat ?m = of_nat (4096 - ?m)" using m by (intro u32_numeral_diff) simp
    moreover note u32_left(1)[OF cur(1) small(1)]
    moreover have "min (of_nat (cnt - D)) (min (of_nat (4096 - ?m)) (of_nat (fs - (pos + D)))) = (of_nat c :: u32)"
      unfolding c_def using small m by (subst u32_min, simp, simp, subst u32_min) auto
    ultimately show ?thesis by (simp only:)
  qed
  have chunk: "read_chunk (spos + of_nat ?m) (of_nat c) (of_nat fs) (of_nat D) out (f\<lparr>f_posg := of_nat (pos + D)\<rparr>) s
    = ((of_nat (D + c), buf_put D (slice (byte_at (fs_disk s)) at c) out,
        f\<lparr>f_posg := of_nat (pos + (D + c))\<rparr>), fd_seek (at + c) s)"
    using read_chunk_result[of "spos + of_nat ?m" c s pos D fs out f] bound c(2) small(1) unfolding at by simp
  have off: "(of_nat (pos + D) :: u32) - of_nat (pos + D) div 4096 * 4096 = of_nat ?m"
    using cur small by (intro u32_offset) simp
  have full: "(of_nat (pos + (D + c)) :: u32) = of_nat fs \<longleftrightarrow> pos + (D + c) = fs"
    using c(2) small(1) by (intro u32_eq) simp_all
  have "spos \<noteq> 0" using block_okD(5)[OF ok] .
  note ne = this u32_left(2)[OF cur(1) small(1)]
  show ?thesis
  proof (cases "k = bst")
    case True
    have e: "(of_nat bst :: u32) = of_nat ben \<longleftrightarrow> bst = ben" using kk(2) small(3) by (rule u32_eq)
    show ?thesis
      using ne True
      by (simp add: read_visit_def read_acc_def off cs chunk e full read_end_def read_result_def
          Let_def fd_simps del: of_nat_add)
  next
    case False
    then have z: "?m = 0" "bst < k" using k by auto
    have lt: "(of_nat k :: u32) < of_nat bst \<longleftrightarrow> False" "(of_nat k :: u32) = of_nat bst \<longleftrightarrow> False"
      "(of_nat bst :: u32) < of_nat k \<longleftrightarrow> True" "(of_nat k :: u32) < of_nat ben \<longleftrightarrow> k < ben"
      "(of_nat k :: u32) = of_nat ben \<longleftrightarrow> k = ben"
      using z(2) kk small(3) u32_eq[of k bst] by (auto simp: u32_less u32_eq)
    have cs2: "min ((of_nat cnt :: u32) - of_nat D) (of_nat c) = of_nat c"
    proof -
      have "(of_nat cnt :: u32) - of_nat D = of_nat (cnt - D)" using cur(2) by (intro u32_diff) simp
      moreover have "min (of_nat (cnt - D)) (of_nat c) = (of_nat (min (cnt - D) c) :: u32)"
        using small c(2) cur by (intro u32_min) simp_all
      moreover have "min (cnt - D) c = c" by (simp add: c_def)
      ultimately show ?thesis by (simp only:)
    qed
    show ?thesis
    proof (cases "k = ben")
      case True
      then show ?thesis
        using ne chunk cs cs2 lt
        by (simp add: read_visit_def read_acc_def z(1) full read_end_def read_result_def
            Let_def fd_simps del: of_nat_add)
    next
      case False
      then show ?thesis
        using ne chunk cs lt k(3)
        by (simp add: read_visit_def read_acc_def z(1) read_result_def Let_def fd_simps
            del: of_nat_add)
    qed
  qed
qed

section \<open>The loop\<close>

lemma last_block_arith:
  assumes "D < cnt" and "(pos + D) div 4096 = (pos + cnt - 1) div (4096 :: nat)"
  shows "cnt - D \<le> 4096 - (pos + D) mod 4096"
proof -
  let ?e = "pos + cnt - 1"
  have "pos + D = 4096 * (?e div 4096) + (pos + D) mod 4096"
    using assms(2) by (metis mult_div_mod_eq)
  moreover have "?e = 4096 * (?e div 4096) + ?e mod 4096" by simp
  moreover have "?e mod 4096 < 4096" by simp
  ultimately show ?thesis using assms(1) by linarith
qed

lemma inner_block_arith:
  assumes "(pos + D) div 4096 < (pos + cnt - 1) div (4096 :: nat)"
  shows "4096 - (pos + D) mod 4096 < cnt - D"
proof -
  let ?k = "(pos + D) div 4096" and ?e = "pos + cnt - 1"
  have "4096 * (?k + 1) \<le> 4096 * (?e div 4096)" using assms by (intro mult_le_mono2) simp
  also have "\<dots> \<le> ?e" by simp
  finally have "4096 * ?k + 4096 \<le> ?e" by simp
  moreover have "pos + D = 4096 * ?k + (pos + D) mod 4096" by simp
  moreover have "(pos + D) mod 4096 < 4096" by simp
  ultimately show ?thesis by linarith
qed

lemma next_block_arith:
  assumes "(n :: nat) div 4096 = k"
  shows "(n + (4096 - n mod 4096)) div 4096 = Suc k" and "(n + (4096 - n mod 4096)) mod 4096 = 0"
proof -
  have "n mod 4096 < 4096" by simp
  moreover have "n = 4096 * k + n mod 4096" using assms by (metis mult_div_mod_eq)
  ultimately have "n + (4096 - n mod 4096) = 4096 * Suc k" by simp
  then show "(n + (4096 - n mod 4096)) div 4096 = Suc k" "(n + (4096 - n mod 4096)) mod 4096 = 0"
    by simp_all
qed

lemma blocks_atD:
  assumes "blocks_at d p bs"
  shows "block_ok d p" "length bs < 947" "k < length bs \<Longrightarrow> u32_at d (unat p + (308 + 4 * k)) = bs ! k"
    "k < length bs \<Longrightarrow> block_ok d (bs ! k)" "u32_at d (unat p + (308 + 4 * length bs)) = 0"
  using assms by (auto simp: blocks_at_def seg_at_def)

lemma read_skip_loop:
  assumes "blocks_at (fs_disk s) p bs" and "pos < fs" and "fs \<le> 4096 * length bs" and "k + j = pos div 4096"
  shows "\<exists>q'. seg_scan (read_visit cnt (of_nat fs) (of_nat (pos div 4096)) ben old) p (slots_from k)
      (read_acc k 0 pos out f) (fd_seek q s)
    = seg_scan (read_visit cnt (of_nat fs) (of_nat (pos div 4096)) ben old) p (slots_from (pos div 4096))
      (read_acc (pos div 4096) 0 pos out f) (fd_seek q' s)"
  using assms(4)
proof (induction j arbitrary: k q)
  case 0
  then show ?case by auto
next
  case (Suc j)
  note b = blocks_atD[OF assms(1)]
  have "pos div 4096 < length bs" using assms(2,3) by (simp add: div_less_iff_less_mult)
  then have kl: "k < length bs" using Suc.prems by simp
  have sm: "fs < 2 ^ 32" "pos div 4096 < 2 ^ 32" "308 + 4 * k + 4 \<le> 4096" using assms(2,3) b(2) kl by auto
  have "bs ! k \<noteq> 0" using b(4)[OF kl] block_okD(5) by blast
  then have "read_visit cnt (of_nat fs) (of_nat (pos div 4096)) ben old i (bs ! k) (read_acc k 0 pos out f) t
      = (Go (read_acc (Suc k) 0 pos out f), t)" for i t
    using assms(2) sm Suc.prems by (intro read_visit_skip) simp_all
  then have "seg_scan (read_visit cnt (of_nat fs) (of_nat (pos div 4096)) ben old) p (slots_from k)
      (read_acc k 0 pos out f) (fd_seek q s)
    = seg_scan (read_visit cnt (of_nat fs) (of_nat (pos div 4096)) ben old) p (slots_from (Suc k))
      (read_acc (Suc k) 0 pos out f) (fd_seek (unat p + (308 + 4 * k) + 4) s)"
    using kl b(2) by (simp only: slots_from_Cons seg_scan_step[OF b(1) sm(3)] b(3)[OF kl]) simp
  then show ?case using Suc.IH[of "Suc k"] Suc.prems by simp
qed

lemma chunk_last:
  "cnt - D \<le> (m :: nat) \<Longrightarrow> D < cnt \<Longrightarrow> pos + D < fs \<Longrightarrow>
   min cnt (fs - pos) = D + min (cnt - D) (min m (fs - (pos + D)))"
  by (auto simp: min_def)

lemma chunk_rest:
  "m < cnt - D \<Longrightarrow> pos + D < fs \<Longrightarrow>
   min cnt (fs - pos) - D = min (cnt - D) (min m (fs - (pos + D)))
     + (min cnt (fs - pos) - (D + min (cnt - D) (min m (fs - (pos + D)))))"
  for m :: nat
  by (auto simp: min_def)

text \<open>
  The state of the loop before slot \<open>k\<close>: \<open>D\<close> of \<open>cnt\<close> bytes from \<open>pos\<close> on are done, in a file of
  \<open>fs\<close> bytes with \<open>n\<close> blocks. Either the end of the file is reached or slot \<open>k\<close> is the next block.
\<close>

definition at_slot :: "nat \<Rightarrow> nat \<Rightarrow> nat \<Rightarrow> nat \<Rightarrow> nat \<Rightarrow> nat \<Rightarrow> bool" where
  "at_slot pos cnt fs n D k \<longleftrightarrow>
     pos + D = fs \<and> D \<le> cnt \<and> k \<le> n \<or>
     pos + D < fs \<and> D < cnt \<and> (pos + D) div 4096 = k \<and> pos div 4096 \<le> k \<and>
     k \<le> (pos + cnt - 1) div 4096 \<and> (k = pos div 4096 \<or> (pos + D) mod 4096 = 0)"

definition chunk :: "nat \<Rightarrow> nat \<Rightarrow> nat \<Rightarrow> nat \<Rightarrow> nat" where
  "chunk pos cnt fs D = min (cnt - D) (min (4096 - (pos + D) mod 4096) (fs - (pos + D)))"

lemma at_slot_start:
  assumes "pos < fs" and "0 < cnt"
  shows "at_slot pos cnt fs n 0 (pos div 4096)"
  using assms by (simp add: at_slot_def div_le_mono)

lemma at_slot_bound:
  assumes "at_slot pos cnt fs n D k" and "fs \<le> 4096 * n"
  shows "k \<le> n" and "pos + D < fs \<Longrightarrow> k < n"
proof -
  show lt: "pos + D < fs \<Longrightarrow> k < n"
    using assms by (auto simp: at_slot_def div_less_iff_less_mult)
  show "k \<le> n" using assms(1) lt by (auto simp: at_slot_def)
qed

lemma chunk_bounds:
  assumes "pos + D < fs"
  shows "chunk pos cnt fs D \<le> cnt - D" and "(pos + D) mod 4096 + chunk pos cnt fs D \<le> 4096"
    and "pos + (D + chunk pos cnt fs D) \<le> fs"
proof -
  define M where "M = (pos + D) mod 4096"
  have "M < 4096" by (simp add: M_def)
  then show "chunk pos cnt fs D \<le> cnt - D" "(pos + D) mod 4096 + chunk pos cnt fs D \<le> 4096"
    "pos + (D + chunk pos cnt fs D) \<le> fs"
    unfolding chunk_def M_def[symmetric] using assms by auto
qed

lemma chunk_end:
  assumes "pos + D < fs" and "D < cnt" and "(pos + D) div 4096 = (pos + cnt - 1) div 4096"
  shows "min cnt (fs - pos) = D + chunk pos cnt fs D"
  unfolding chunk_def using last_block_arith[OF assms(2,3)] assms(2,1) by (rule chunk_last)

lemma chunk_step:
  assumes st: "at_slot pos cnt fs n D k" and cur: "pos + D < fs" and less: "k < (pos + cnt - 1) div 4096"
    and fs: "fs \<le> 4096 * n"
  shows "at_slot pos cnt fs n (D + chunk pos cnt fs D) (Suc k)"
    and "min cnt (fs - pos) - D = chunk pos cnt fs D + (min cnt (fs - pos) - (D + chunk pos cnt fs D))"
proof -
  define M where "M = (pos + D) mod 4096"
  define c where "c = chunk pos cnt fs D"
  have at: "(pos + D) div 4096 = k" "D < cnt" "pos div 4096 \<le> k" using st cur by (auto simp: at_slot_def)
  have c: "c = min (cnt - D) (min (4096 - M) (fs - (pos + D)))" by (simp only: c_def chunk_def M_def)
  have wide: "4096 - M < cnt - D"
    unfolding M_def using inner_block_arith[of pos D cnt] at(1) less by metis
  show "min cnt (fs - pos) - D = chunk pos cnt fs D + (min cnt (fs - pos) - (D + chunk pos cnt fs D))"
    unfolding c_def[symmetric] c by (rule chunk_rest[OF wide cur])
  show "at_slot pos cnt fs n (D + chunk pos cnt fs D) (Suc k)"
  proof (cases "pos + D + (4096 - M) < fs")
    case True
    then have c': "c = 4096 - M" unfolding c using wide by (simp add: min_def)
    have "pos + (D + c) = pos + D + (4096 - (pos + D) mod 4096)" by (simp only: c' M_def add.assoc)
    note nb = next_block_arith[OF at(1), folded this]
    have "pos + (D + c) < fs" "D + c < cnt" using True wide at(2) by (simp_all add: c')
    then show ?thesis using nb less at(3) by (simp add: at_slot_def c_def[symmetric])
  next
    case False
    then have "c = fs - (pos + D)" unfolding c using wide by linarith
    then have "pos + (D + c) = fs" "D + c \<le> cnt" using cur wide False by linarith+
    then show ?thesis using at_slot_bound(2)[OF st fs cur] by (simp add: at_slot_def c_def[symmetric])
  qed
qed

text \<open>The bytes of one chunk lie in one block.\<close>

lemma chunk_slice:
  assumes "pos + D < fs" and "(pos + D) div 4096 = k"
  shows "slice (byte_at d) (unat (bs ! k) + (pos + D) mod 4096) (chunk pos cnt fs D)
       = file_bytes d bs (pos + D) (chunk pos cnt fs D)"
  using file_bytes_slice[OF chunk_bounds(2)[OF assms(1)], of d bs cnt]
  by (simp only: data_addr_def assms(2))

lemma read_slot:
  assumes blocks: "blocks_at (fs_disk s) p bs" and fs: "fs \<le> 4096 * length bs"
    and cnt: "cnt < 2 ^ 32" "cnt \<le> length out" and st: "at_slot pos cnt fs (length bs) D k"
    and cur: "pos + D < fs" and D: "length xs = D"
  shows "read_visit (of_nat cnt) (of_nat fs) (of_nat (pos div 4096)) (of_nat ((pos + cnt - 1) div 4096))
      old i (bs ! k) (read_acc k D pos (buf_put 0 xs out) f) (fd_seek q s)
    = (let c = chunk pos cnt fs D; out = buf_put 0 (xs @ file_bytes (fs_disk s) bs (pos + D) c) out
       in if k = (pos + cnt - 1) div 4096
          then (Stop (read_result fs (D + c) pos out f), fd_seek old s)
          else (Go (read_acc (Suc k) (D + c) pos out f), fd_seek (unat (bs ! k) + (pos + D) mod 4096 + c) s))"
proof -
  note b = blocks_atD[OF blocks]
  have at: "D < cnt" "(pos + D) div 4096 = k" "pos div 4096 \<le> k" "k \<le> (pos + cnt - 1) div 4096"
      "k = pos div 4096 \<or> (pos + D) mod 4096 = 0"
    using st cur by (auto simp: at_slot_def)
  have kl: "k < length bs" using at_slot_bound(2)[OF st fs cur] .
  have sm: "fs < 2 ^ 32" "(pos + cnt - 1) div 4096 < 2 ^ 32" using fs b(2) cnt(1) cur by auto
  have ok: "block_ok (fs_disk (fd_seek q s)) (bs ! k)" "byte_at (fs_disk (fd_seek q s)) = byte_at (fs_disk s)"
    using b(4)[OF kl] by (simp_all add: fd_simps disk_simps block_ok_def)
  have "length xs + length (file_bytes (fs_disk s) bs (pos + D) (chunk pos cnt fs D)) \<le> length out"
    using cnt(2) at(1) D chunk_bounds(1)[OF cur, of cnt] by simp
  from buf_put_append[OF this] show ?thesis
    using read_visit_chunk[OF cur at(1) sm(1) cnt(1) sm(2) at(2-5) ok(1), of old i "buf_put 0 xs out" f]
    unfolding chunk_def[symmetric] ok(2) chunk_slice[OF cur at(2)]
    by (simp only: Let_def fd_simps D)
qed

lemma read_loop:
  assumes blocks: "blocks_at (fs_disk s) p bs" and fs: "fs \<le> 4096 * length bs"
    and cnt: "cnt < 2 ^ 32" "cnt \<le> length out" and r: "r = min cnt (fs - pos)"
    and st: "at_slot pos cnt fs (length bs) D k" and D: "length xs = D"
  shows "seg_scan (read_visit (of_nat cnt) (of_nat fs) (of_nat (pos div 4096))
        (of_nat ((pos + cnt - 1) div 4096)) old) p (slots_from k)
      (read_acc k D pos (buf_put 0 xs out) f) (fd_seek q s)
    = (Stop (read_result fs r pos (buf_put 0 (xs @ file_bytes (fs_disk s) bs (pos + D) (r - D)) out) f),
       fd_seek old s)"
  using st D
proof (induction "947 - k" arbitrary: k D xs q)
  case 0
  then show ?case using at_slot_bound(1)[OF 0(2) fs] blocks_atD(2)[OF blocks] by simp
next
  case (Suc n)
  note b = blocks_atD[OF blocks]
  have k: "k < 947" "308 + 4 * k + 4 \<le> 4096" using Suc.hyps by simp_all
  note step = slots_from_Cons[OF k(1)] seg_scan_step[OF b(1) k(2)]
  show ?case
  proof (cases "pos + D = fs")
    case True
    then have "r = D" using r Suc.prems(1) by (auto simp: at_slot_def)
    then show ?thesis
      unfolding step using read_visit_eof[OF True] by (simp add: file_bytes_def fd_simps)
  next
    case False
    then have cur: "pos + D < fs" and at: "D < cnt" "(pos + D) div 4096 = k" "k \<le> (pos + cnt - 1) div 4096"
      using Suc.prems(1) by (auto simp: at_slot_def)
    have kl: "k < length bs" using at_slot_bound(2)[OF Suc.prems(1) fs cur] .
    note visit = read_slot[OF blocks fs cnt Suc.prems(1) cur Suc.prems(2)]
    let ?c = "chunk pos cnt fs D"
    show ?thesis
    proof (cases "k = (pos + cnt - 1) div 4096")
      case True
      then have "r = D + ?c" unfolding r using at by (intro chunk_end[OF cur]) simp_all
      then show ?thesis unfolding step b(3)[OF kl] visit Let_def using True by simp
    next
      case False
      then have less: "k < (pos + cnt - 1) div 4096" using at(3) by simp
      note nx = chunk_step[OF Suc.prems(1) cur less fs]
      have n: "n = 947 - Suc k" using Suc.hyps(2) by simp
      have "length (xs @ file_bytes (fs_disk s) bs (pos + D) ?c) = D + ?c" using Suc.prems(2) by simp
      note IH = Suc.hyps(1)[OF n nx(1) this]
      show ?thesis
        unfolding r nx(2) file_bytes_append step b(3)[OF kl] visit Let_def
        using False IH by (simp add: r add.assoc)
    qed
  qed
qed

section \<open>The operation\<close>

text \<open>An open file on the inode \<open>iid\<close>, positioned at \<open>pos\<close> for reading.\<close>

definition file_ready :: "fsfile \<Rightarrow> bool" where
  "file_ready f \<longleftrightarrow> f_opened f \<and> \<not> f_invalid f \<and> \<not> badbit (f_state f) \<and> \<not> failbit (f_state f)"

lemma file_read_result:
  assumes ready: "file_ready f"
    and node: "\<And>q. getINodeByID (f_inodeid f) (fd_seek q s) = Some (n, fd_seek q s)"
    and p: "lookup_at (fs_disk s) (f_inodeid f) = p" and blocks: "blocks_at (fs_disk s) p bs"
    and fs: "unat (i_dat_len n) \<le> 4096 * length bs" and pos: "unat (f_posg f) < unat (i_dat_len n)"
    and cnt: "0 < count" "count < 2 ^ 32" "count \<le> length out"
  defines "r \<equiv> min count (unat (i_dat_len n) - unat (f_posg f))"
  shows "file_read count out f s = Some
    ((of_nat r, buf_put 0 (file_bytes (fs_disk s) bs (unat (f_posg f)) r) out,
      f\<lparr>f_posg := f_posg f + of_nat r,
        f_state := (if unat (f_posg f) + r = unat (i_dat_len n) then eof_only else f_state f)\<rparr>), s)"
proof -
  let ?pos = "unat (f_posg f)" and ?fs = "unat (i_dat_len n)"
  note b = blocks_atD[OF blocks]
  have small: "?pos < 2 ^ 32" using fs pos b(2) by simp
  have start: "(0, 0, out, f) = read_acc 0 0 ?pos (buf_put 0 [] out) f" by (simp add: read_acc_def)
  have bst: "f_posg f div 4096 = of_nat (?pos div 4096)" using u32_div[OF small] by simp
  have fsz: "i_dat_len n = of_nat ?fs" by simp
  obtain q' where skip: "seg_scan (read_visit (of_nat count) (of_nat ?fs) (of_nat (?pos div 4096))
        (of_nat ((?pos + count - 1) div 4096)) (fd_tell s)) p (slots_from 0)
      (read_acc 0 0 ?pos (buf_put 0 [] out) f) (fd_seek (fd_tell s) s)
    = seg_scan (read_visit (of_nat count) (of_nat ?fs) (of_nat (?pos div 4096))
        (of_nat ((?pos + count - 1) div 4096)) (fd_tell s)) p (slots_from (?pos div 4096))
      (read_acc (?pos div 4096) 0 ?pos (buf_put 0 [] out) f) (fd_seek q' s)"
    using read_skip_loop[OF blocks pos fs, of 0 "?pos div 4096" "of_nat count"
        "of_nat ((?pos + count - 1) div 4096)" "fd_tell s" "buf_put 0 [] out" f "fd_tell s"] by auto
  have loop: "seg_scan (read_visit (of_nat count) (i_dat_len n) (of_nat (?pos div 4096))
        (of_nat ((?pos + count - 1) div 4096)) (fd_tell s)) p (slots_from 0) (0, 0, out, f) s
    = (Stop (read_result ?fs r ?pos (buf_put 0 (file_bytes (fs_disk s) bs ?pos r) out) f), s)"
    using skip read_loop[OF blocks fs cnt(2,3) refl at_slot_start[OF pos cnt(1)], of "[]" "fd_tell s" f q']
    by (simp add: start r_def fd_simps)
  have "p \<noteq> 0" using block_okD(5)[OF b(1)] .
  moreover have "getINodeByID (f_inodeid f) s = Some (n, s)" using node[of "fd_tell s"] by (simp add: fd_simps)
  ultimately show ?thesis
    using ready p loop
    by (subst file_read_def)
       (simp add: file_ready_def file_bad_def file_fail_def file_size_def file_rounds.simps bst
         segment_offsets_file read_result_def file_clear_def)
qed

end
