(* ===== verification/FSFile_Write.thy ===== *)
theory FSFile_Write
  imports FSFile_Read
begin

text \<open>
  Writing a file inside its length: \<^verbatim>\<open>FSFile::write\<close> changes exactly the bytes of the range it
  is given, leaves every other byte of the package, moves the write position behind the data,
  and a read of the same range then returns them.
\<close>

section \<open>Addresses of a file's bytes\<close>

text \<open>The file's own block and its data blocks are different blocks.\<close>

definition file_at :: "disk \<Rightarrow> u32 \<Rightarrow> u32 list \<Rightarrow> bool" where
  "file_at d p bs \<longleftrightarrow> blocks_at d p bs \<and> distinct (p # bs)"

lemma data_addr_block:
  assumes "j < 4096 * length bs"
  shows "bs ! (j div 4096) \<in> set bs" and "j div 4096 < length bs"
    and "unat (bs ! (j div 4096)) \<le> data_addr bs j"
    and "data_addr bs j < unat (bs ! (j div 4096)) + 4096"
  using assms by (auto simp: data_addr_def div_less_iff_less_mult)

lemma data_addr_inj:
  assumes "distinct bs" and ok: "\<And>b. b \<in> set bs \<Longrightarrow> block_ok d b"
    and i: "i < 4096 * length bs" and j: "j < 4096 * length bs" and eq: "data_addr bs i = data_addr bs j"
  shows "i = j"
proof -
  note di = data_addr_block[OF i] and dj = data_addr_block[OF j]
  have "bs ! (i div 4096) = bs ! (j div 4096)"
  proof (rule ccontr)
    assume ne: "bs ! (i div 4096) \<noteq> bs ! (j div 4096)"
    from aligned_apart[OF block_okD(3)[OF ok[OF di(1)]] block_okD(3)[OF ok[OF dj(1)]] ne]
    show False using di(3,4) dj(3,4) eq by linarith
  qed
  then have "i div 4096 = j div 4096" "i mod 4096 = j mod 4096"
    using assms(1) di(2) dj(2) eq by (auto simp: nth_eq_iff_index_eq data_addr_def)
  then show ?thesis by (metis mult_div_mod_eq)
qed

lemma file_atD:
  assumes "file_at d p bs"
  shows "blocks_at d p bs" "distinct bs" "p \<notin> set bs" "\<And>b. b \<in> set bs \<Longrightarrow> block_ok d b"
    "block_ok d p" "length bs < 947"
  using assms by (auto simp: file_at_def blocks_at_def in_set_conv_nth)

lemma data_addr_not_head:
  assumes fa: "file_at d p bs" and j: "j < 4096 * length bs" and a: "unat p \<le> a" "a < unat p + 4096"
  shows "a \<noteq> data_addr bs j"
proof -
  note f = file_atD[OF fa] and dj = data_addr_block[OF j]
  have "bs ! (j div 4096) \<noteq> p" using f(3) dj(1) by auto
  from aligned_apart[OF block_okD(3)[OF f(4)[OF dj(1)]] block_okD(3)[OF f(5)] this]
  show ?thesis using dj(3,4) a by linarith
qed

section \<open>What has been written\<close>

definition wrote :: "disk \<Rightarrow> u32 list \<Rightarrow> nat \<Rightarrow> byte list \<Rightarrow> disk \<Rightarrow> bool" where
  "wrote d bs pos xs e \<longleftrightarrow>
     dsize e = dsize d \<and>
     (\<forall>j < length xs. byte_at e (data_addr bs (pos + j)) = xs ! j) \<and>
     (\<forall>a. (\<forall>j < length xs. a \<noteq> data_addr bs (pos + j)) \<longrightarrow> byte_at e a = byte_at d a)"

lemma wrote_Nil: "wrote d bs pos [] e \<longleftrightarrow> disk_eq e d"
  by (auto simp: wrote_def disk_eq_def)

lemma wrote_seek: "wrote d bs pos xs (disk_seek q e) = wrote d bs pos xs e"
  by (simp add: wrote_def disk_simps)

lemma wrote_chunk:
  assumes fa: "file_at d p bs" and w: "wrote d bs pos xs e"
    and inside: "(pos + length xs) mod 4096 + length ys \<le> 4096"
    and range: "pos + length xs + length ys \<le> 4096 * length bs" and ne: "ys \<noteq> []"
  shows "wrote d bs pos (xs @ ys) (put_bytes (data_addr bs (pos + length xs)) ys e)"
proof -
  let ?c = "pos + length xs" and ?e = "put_bytes (data_addr bs (pos + length xs)) ys e"
  note f = file_atD[OF fa]
  have addr: "data_addr bs (?c + i) = data_addr bs ?c + i" if "i < length ys" for i
    using that inside by (intro data_addr_inside) linarith
  have inj: "i = j" if "data_addr bs i = data_addr bs j" "i < 4096 * length bs" "j < 4096 * length bs" for i j
    using data_addr_inj[OF f(2,4) that(2,3,1)] by simp
  have c: "?c < 4096 * length bs" using range ne by (cases ys) auto
  have "data_addr bs ?c + length ys \<le> dsize e"
  proof -
    note b = data_addr_block[OF c]
    have "data_addr bs ?c + length ys \<le> unat (bs ! (?c div 4096)) + 4096"
      using inside by (simp add: data_addr_def)
    then show ?thesis using block_okD(4)[OF f(4)[OF b(1)]] w by (simp add: wrote_def)
  qed
  then have size: "dsize ?e = dsize d" using w by (simp add: wrote_def)
  have old: "byte_at ?e (data_addr bs (pos + j)) = xs ! j" if j: "j < length xs" for j
  proof -
    have "data_addr bs (pos + j) \<noteq> data_addr bs ?c + i" if "i < length ys" for i
      using inj[of "pos + j" "?c + i"] addr[OF that] that j range by auto
    then have "\<not> (data_addr bs ?c \<le> data_addr bs (pos + j) \<and> data_addr bs (pos + j) < data_addr bs ?c + length ys)"
      by (metis add_less_cancel_left le_add_diff_inverse)
    then show ?thesis using w j by (auto simp: wrote_def byte_at_put_bytes)
  qed
  have new: "byte_at ?e (data_addr bs (?c + i)) = ys ! i" if "i < length ys" for i
    using that addr[OF that] by (simp add: byte_at_put_bytes)
  have all: "byte_at ?e (data_addr bs (pos + j)) = (xs @ ys) ! j" if "j < length (xs @ ys)" for j
  proof (cases "j < length xs")
    case True
    then show ?thesis using old by (simp add: nth_append)
  next
    case False
    then have "j - length xs < length ys" using that by simp
    from new[OF this] show ?thesis using False by (simp add: nth_append)
  qed
  have frame: "byte_at ?e a = byte_at d a"
    if a: "\<forall>j < length (xs @ ys). a \<noteq> data_addr bs (pos + j)" for a
  proof -
    have "a \<noteq> data_addr bs ?c + i" if i: "i < length ys" for i
      using a[rule_format, of "length xs + i"] addr[OF i] i by (simp add: add.assoc)
    then have "\<not> (data_addr bs ?c \<le> a \<and> a < data_addr bs ?c + length ys)"
      by (metis add_less_cancel_left le_add_diff_inverse)
    moreover have "byte_at e a = byte_at d a" using w a by (auto simp: wrote_def)
    ultimately show ?thesis by (auto simp: byte_at_put_bytes)
  qed
  show ?thesis using size all frame by (simp add: wrote_def)
qed

lemma wrote_head:
  assumes "file_at d p bs" and "wrote d bs pos xs e" and "pos + length xs \<le> 4096 * length bs"
    and "unat p \<le> a" and "a < unat p + 4096"
  shows "byte_at e a = byte_at d a"
  using assms data_addr_not_head[OF assms(1) _ assms(4,5)] by (auto simp: wrote_def)

lemma wrote_blocks_at:
  assumes fa: "file_at d p bs" and w: "wrote d bs pos xs e" and "pos + length xs \<le> 4096 * length bs"
  shows "blocks_at e p bs" and "file_at e p bs"
proof -
  note head = wrote_head[OF fa w assms(3)]
  note f = file_atD[OF fa]
  have ok: "block_ok e b \<longleftrightarrow> block_ok d b" for b using w by (simp add: wrote_def block_ok_def)
  have "seg_at e p k = seg_at d p k" if "k < 947" for k
    using at_cong_range(2)[of "unat p" e d "308 + 4 * k", OF head] that by (simp add: seg_at_def)
  then show "blocks_at e p bs" using f(1) by (auto simp: blocks_at_def ok)
  then show "file_at e p bs" using fa by (simp add: file_at_def)
qed

lemma wrote_bytes:
  assumes "wrote d bs pos xs e"
  shows "file_bytes e bs pos (length xs) = xs"
  using assms by (auto intro!: nth_equalityI simp: file_bytes_def wrote_def)

section \<open>One slot\<close>

definition write_acc :: "nat \<Rightarrow> nat \<Rightarrow> nat \<Rightarrow> fsfile \<Rightarrow> u32 \<times> u32 \<times> fsfile" where
  "write_acc k D pos f = (of_nat k, of_nat D, f\<lparr>f_posp := of_nat (pos + D)\<rparr>)"

text \<open>
  The file after the last chunk. A write that ends in the block it began in compares the read
  position with the length of the file, not the write position.
\<close>

definition write_done :: "nat \<Rightarrow> nat \<Rightarrow> nat \<Rightarrow> fsfile \<Rightarrow> fsfile" where
  "write_done fs pos cnt f =
     (let f = f\<lparr>f_posp := of_nat (pos + cnt)\<rparr>
      in if (if pos div 4096 = (pos + cnt - 1) div 4096 then f_posg f = of_nat fs else pos + cnt = fs)
         then file_clear eof_only f else f)"

lemma write_visit_skip:
  assumes "pos + D < fs" and "fs < 2 ^ 32" and "spos \<noteq> 0" and "k < b" and "b < 2 ^ 32"
  shows "write_visit data (of_nat fs) (of_nat b) ben old i spos (write_acc k D pos f) s
       = (Go (write_acc (Suc k) D pos f), s)"
proof -
  have "(of_nat k :: u32) < of_nat b" using assms by (simp add: u32_less)
  then show ?thesis
    using assms(3) u32_left(2)[OF assms(1,2)]
    by (simp add: write_visit_def write_acc_def del: of_nat_add)
qed

lemma write_chunk_result:
  assumes "D + c \<le> length data" and "length data < 2 ^ 32"
  shows "write_chunk data at (of_nat c) (of_nat D) (f\<lparr>f_posp := of_nat (pos + D)\<rparr>) s
    = ((of_nat (D + c), f\<lparr>f_posp := of_nat (pos + (D + c))\<rparr>),
       fd_seek (unat at + c) (fs_put (unat at) (take c (drop D data)) s))"
proof -
  have u: "unat (of_nat c :: u32) = c" "unat (of_nat D :: u32) = D"
    using assms by (auto intro!: unat_of_nat_small)
  have "min (length data - D) c = c" using assms(1) by simp
  then show ?thesis by (simp add: write_chunk_def u fd_simps Let_def add.assoc)
qed

lemma write_visit_chunk:
  fixes data :: "byte list"
  defines "cnt \<equiv> length data"
  assumes cur: "pos + D < fs" "D < cnt" and small: "fs < 2 ^ 32" "cnt < 2 ^ 32" "ben < 2 ^ 32"
    and ben: "ben = (pos + cnt - 1) div 4096" and bst: "bst = pos div 4096"
    and k: "(pos + D) div 4096 = k" "bst \<le> k" "k \<le> ben" "k = bst \<or> (pos + D) mod 4096 = 0"
    and last: "k = ben \<Longrightarrow> D + chunk pos cnt fs D = cnt"
    and ok: "block_ok d spos"
  shows "write_visit data (of_nat fs) (of_nat bst) (of_nat ben) old i spos (write_acc k D pos f) s =
    (let c = chunk pos cnt fs D; a = unat spos + (pos + D) mod 4096;
         t = fs_put a (take c (drop D data)) s
     in if k = ben then (Stop (write_done fs pos cnt f), fd_seek old t)
        else (Go (write_acc (Suc k) (D + c) pos f), fd_seek (a + c) t))"
proof -
  define M c where "M = (pos + D) mod 4096" and "c = chunk pos cnt fs D"
  have m: "M < 4096" by (simp add: M_def)
  have kk: "k < 2 ^ 32" "bst < 2 ^ 32" using k small by auto
  have at: "unat (spos + of_nat M) = unat spos + M" by (rule unat_block_plus[OF ok]) (use m in simp)
  have cb: "c \<le> cnt - D" "pos + (D + c) \<le> fs"
    using chunk_bounds[OF cur(1), of cnt] by (simp_all add: c_def)
  have cm: "min ((of_nat cnt :: u32) - of_nat D) (min (4096 - of_nat M) (of_nat fs - of_nat (pos + D))) = of_nat c"
  proof -
    have "(of_nat cnt :: u32) - of_nat D = of_nat (cnt - D)" using cur(2) by (intro u32_diff) simp
    moreover have "(4096 :: u32) - of_nat M = of_nat (4096 - M)" using m by (intro u32_numeral_diff) simp
    moreover note u32_left(1)[OF cur(1) small(1)]
    moreover have "min (of_nat (cnt - D)) (min (of_nat (4096 - M)) (of_nat (fs - (pos + D)))) = (of_nat c :: u32)"
      unfolding c_def chunk_def M_def[symmetric] using small m by (subst u32_min, simp, simp, subst u32_min) auto
    ultimately show ?thesis by (simp only:)
  qed
  have wr: "write_chunk data (spos + of_nat M) (of_nat c) (of_nat D) (f\<lparr>f_posp := of_nat (pos + D)\<rparr>) s
    = ((of_nat (D + c), f\<lparr>f_posp := of_nat (pos + (D + c))\<rparr>),
       fd_seek (unat spos + M + c) (fs_put (unat spos + M) (take c (drop D data)) s))"
    using write_chunk_result[where D = D and c = c and data = data and at = "spos + of_nat M" and f = f and pos = pos and s = s] cb(1) cur(2) small(2)
    unfolding at cnt_def by simp
  have off: "(of_nat (pos + D) :: u32) - of_nat (pos + D) div 4096 * 4096 = of_nat M"
    unfolding M_def using cur small by (intro u32_offset) simp
  have full: "(of_nat (pos + (D + c)) :: u32) = of_nat fs \<longleftrightarrow> pos + (D + c) = fs"
    using cb(2) small(1) by (intro u32_eq) simp_all
  have "spos \<noteq> 0" using block_okD(5)[OF ok] .
  note ne = this u32_left(2)[OF cur(1) small(1)]
  have lst: "k = ben \<Longrightarrow> D + c = cnt" using last by (simp add: c_def)
  show ?thesis
    unfolding M_def[symmetric] c_def[symmetric] Let_def
  proof (cases "k = bst")
    case True
    have e: "(of_nat bst :: u32) = of_nat ben \<longleftrightarrow> bst = ben" using kk(2) small(3) by (rule u32_eq)
    show "write_visit data (of_nat fs) (of_nat bst) (of_nat ben) old i spos (write_acc k D pos f) s =
      (if k = ben then (Stop (write_done fs pos cnt f), fd_seek old (fs_put (unat spos + M) (take c (drop D data)) s))
       else (Go (write_acc (Suc k) (D + c) pos f),
             fd_seek (unat spos + M + c) (fs_put (unat spos + M) (take c (drop D data)) s)))"
      using ne True lst[unfolded ben bst One_nat_def] cm wr
      by (simp add: write_visit_def write_acc_def off e[unfolded ben bst One_nat_def] write_done_def ben bst fd_simps Let_def
          cnt_def[symmetric] del: of_nat_add)
  next
    case False
    then have z: "M = 0" "bst < k" using k by (auto simp: M_def)
    have lt: "(of_nat k :: u32) < of_nat bst \<longleftrightarrow> False" "(of_nat k :: u32) = of_nat bst \<longleftrightarrow> False"
      "(of_nat bst :: u32) < of_nat k \<longleftrightarrow> True" "(of_nat k :: u32) < of_nat ben \<longleftrightarrow> k < ben"
      "(of_nat k :: u32) = of_nat ben \<longleftrightarrow> k = ben"
      using z(2) kk small(3) u32_eq[of k bst] by (auto simp: u32_less u32_eq)
    have cm2: "min ((of_nat cnt :: u32) - of_nat D) (of_nat c) = of_nat c"
    proof -
      have "(of_nat cnt :: u32) - of_nat D = of_nat (cnt - D)" using cur(2) by (intro u32_diff) simp
      moreover have "min (of_nat (cnt - D)) (of_nat c) = (of_nat (min (cnt - D) c) :: u32)"
        using small cb cur by (intro u32_min) simp_all
      moreover have "min (cnt - D) c = c" using cb(1) by simp
      ultimately show ?thesis by (simp only:)
    qed
    show "write_visit data (of_nat fs) (of_nat bst) (of_nat ben) old i spos (write_acc k D pos f) s =
      (if k = ben then (Stop (write_done fs pos cnt f), fd_seek old (fs_put (unat spos + M) (take c (drop D data)) s))
       else (Go (write_acc (Suc k) (D + c) pos f),
             fd_seek (unat spos + M + c) (fs_put (unat spos + M) (take c (drop D data)) s)))"
    proof (cases "k = ben")
      case True
      then have d: "pos div 4096 \<noteq> (pos + cnt - 1) div 4096" "D + c = cnt" using z(2) lst ben bst by simp_all
      have e: "write_done fs pos cnt f =
          (if pos + (D + c) = fs then file_clear eof_only else (\<lambda>f. f)) (f\<lparr>f_posp := of_nat (pos + (D + c))\<rparr>)"
        unfolding write_done_def d(2) using d(1) by (simp add: Let_def)
      show ?thesis
        unfolding e using ne wr cm cm2 lt True
        by (simp add: write_visit_def write_acc_def z(1) full Let_def fd_simps
            cnt_def[symmetric] del: of_nat_add)
    next
      case False
      then show ?thesis
        using ne wr cm lt k(3)
        by (simp add: write_visit_def write_acc_def z(1) Let_def fd_simps cnt_def[symmetric] del: of_nat_add)
    qed
  qed
qed

lemma fs_put_state:
  "fs_put a xs s = s\<lparr>fs_disk := fs_disk (fs_put a xs s)\<rparr>"
  "fd_seek q (fs_put a xs s) = s\<lparr>fs_disk := fs_disk (fd_seek q (fs_put a xs s))\<rparr>"
  by (simp_all add: fs_put_def fd_seek_def)

lemma write_slot:
  fixes data :: "byte list"
  defines "cnt \<equiv> length data"
  assumes fa: "file_at d p bs" and fs: "fs \<le> 4096 * length bs" and small: "cnt < 2 ^ 32"
    and st: "at_slot pos cnt fs (length bs) D k" and cur: "pos + D < fs" and fits: "pos + cnt \<le> fs"
    and w: "wrote d bs pos (take D data) (fs_disk s)"
  shows "\<exists>t. write_visit data (of_nat fs) (of_nat (pos div 4096)) (of_nat ((pos + cnt - 1) div 4096))
      old i (bs ! k) (write_acc k D pos f) (fd_seek q s)
    = (if k = (pos + cnt - 1) div 4096 then (Stop (write_done fs pos cnt f), fd_seek old t)
       else (Go (write_acc (Suc k) (D + chunk pos cnt fs D) pos f), t))
    \<and> wrote d bs pos (take (D + chunk pos cnt fs D) data) (fs_disk t)
    \<and> t = s\<lparr>fs_disk := fs_disk t\<rparr>"
proof -
  note b = file_atD[OF fa]
  have at: "D < cnt" "(pos + D) div 4096 = k" "pos div 4096 \<le> k" "k \<le> (pos + cnt - 1) div 4096"
      "k = pos div 4096 \<or> (pos + D) mod 4096 = 0"
    using st cur by (auto simp: at_slot_def)
  have kl: "k < length bs" using at_slot_bound(2)[OF st fs cur] .
  have sm: "fs < 2 ^ 32" "(pos + cnt - 1) div 4096 < 2 ^ 32" using fs b(6) small fits by auto
  have ok: "block_ok d (bs ! k)" using b(4) kl by simp
  define c where "c = chunk pos cnt fs D"
  define M where "M = (pos + D) mod 4096"
  have cb: "c \<le> cnt - D" "M + c \<le> 4096" using chunk_bounds(1,2)[OF cur, of cnt] by (simp_all add: c_def M_def)
  have last: "k = (pos + cnt - 1) div 4096 \<Longrightarrow> D + c = cnt"
    using chunk_end[OF cur at(1)] at(2) fits by (simp add: c_def)
  have ne: "take c (drop D data) \<noteq> []"
  proof -
    have "0 < c" unfolding c_def chunk_def M_def[symmetric] using at(1) cur by (simp add: M_def)
    then show ?thesis using at(1) by (auto simp: cnt_def)
  qed
  have addr: "data_addr bs (pos + D) = unat (bs ! k) + M" by (simp only: data_addr_def at(2) M_def)
  have len: "length (take D data) = D" "length (take c (drop D data)) = c" using at(1) cb(1) by (simp_all add: cnt_def)
  let ?t = "fs_put (unat (bs ! k) + M) (take c (drop D data)) s"
  have w': "wrote d bs pos (take (D + c) data) (fs_disk ?t)"
    using wrote_chunk[OF fa w _ _ ne] cb fs fits at(1)
    unfolding len addr M_def[symmetric] by (simp add: fd_simps take_add)
  note visit = write_visit_chunk[of pos D fs data "(pos + cnt - 1) div 4096" "pos div 4096" k d "bs ! k" old i f
      "fd_seek q s", folded cnt_def, OF cur at(1) sm(1) small sm(2) refl refl at(2-5) _ ok,
      folded c_def M_def]
  show ?thesis unfolding c_def[symmetric]
  proof (cases "k = (pos + cnt - 1) div 4096")
    case True
    then show "\<exists>t. write_visit data (of_nat fs) (of_nat (pos div 4096)) (of_nat ((pos + cnt - 1) div 4096))
        old i (bs ! k) (write_acc k D pos f) (fd_seek q s)
      = (if k = (pos + cnt - 1) div 4096 then (Stop (write_done fs pos cnt f), fd_seek old t)
         else (Go (write_acc (Suc k) (D + c) pos f), t))
      \<and> wrote d bs pos (take (D + c) data) (fs_disk t) \<and> t = s\<lparr>fs_disk := fs_disk t\<rparr>"
      using visit[OF last[folded c_def]] w'
      by (intro exI[of _ ?t] conjI fs_put_state) (simp_all add: fd_simps Let_def)
  next
    case False
    then show "\<exists>t. write_visit data (of_nat fs) (of_nat (pos div 4096)) (of_nat ((pos + cnt - 1) div 4096))
        old i (bs ! k) (write_acc k D pos f) (fd_seek q s)
      = (if k = (pos + cnt - 1) div 4096 then (Stop (write_done fs pos cnt f), fd_seek old t)
         else (Go (write_acc (Suc k) (D + c) pos f), t))
      \<and> wrote d bs pos (take (D + c) data) (fs_disk t) \<and> t = s\<lparr>fs_disk := fs_disk t\<rparr>"
      using visit[OF last[folded c_def]] w'
      by (intro exI[of _ "fd_seek (unat (bs ! k) + M + c) ?t"] conjI fs_put_state)
         (simp_all add: fd_simps wrote_seek Let_def)
  qed
qed

section \<open>The loop\<close>

lemma write_loop:
  fixes data :: "byte list"
  defines "cnt \<equiv> length data"
  assumes fa: "file_at d p bs" and fs: "fs \<le> 4096 * length bs" and small: "cnt < 2 ^ 32"
    and fits: "pos + cnt \<le> fs" and st: "at_slot pos cnt fs (length bs) D k" and D: "D < cnt"
    and w: "wrote d bs pos (take D data) (fs_disk s)"
  shows "\<exists>e. seg_scan (write_visit data (of_nat fs) (of_nat (pos div 4096)) (of_nat ((pos + cnt - 1) div 4096)) old)
      p (slots_from k) (write_acc k D pos f) (fd_seek q s)
    = (Stop (write_done fs pos cnt f), fd_seek old (s\<lparr>fs_disk := e\<rparr>)) \<and> wrote d bs pos data e"
  using st D w
proof (induction "947 - k" arbitrary: k D s q)
  case 0
  then show ?case using at_slot_bound(1)[OF 0(2) fs] file_atD(6)[OF fa] by simp
next
  case (Suc n)
  have k: "k < 947" "308 + 4 * k + 4 \<le> 4096" using Suc.hyps by simp_all
  have cur: "pos + D < fs" using Suc.prems(2) fits by simp
  have at: "(pos + D) div 4096 = k" "k \<le> (pos + cnt - 1) div 4096" using Suc.prems(1) cur by (auto simp: at_slot_def)
  have len: "pos + length (take D data) \<le> 4096 * length bs" using Suc.prems(2) fits fs by (simp add: cnt_def)
  have b: "blocks_at (fs_disk s) p bs" using wrote_blocks_at(1)[OF fa Suc.prems(3) len] .
  note bd = blocks_atD[OF b]
  have kl: "k < length bs" using at_slot_bound(2)[OF Suc.prems(1) fs cur] .
  note step = slots_from_Cons[OF k(1)] seg_scan_step[OF bd(1) k(2)] bd(3)[OF kl]
  let ?b = "(pos + cnt - 1) div 4096" and ?c = "chunk pos cnt fs D"
  obtain t where visit: "write_visit data (of_nat fs) (of_nat (pos div 4096)) (of_nat ?b)
        old (308 + 4 * k) (bs ! k) (write_acc k D pos f) (fd_seek (unat p + (308 + 4 * k) + 4) s)
      = (if k = ?b then (Stop (write_done fs pos cnt f), fd_seek old t)
         else (Go (write_acc (Suc k) (D + ?c) pos f), t))"
    and t: "wrote d bs pos (take (D + ?c) data) (fs_disk t)" "t = s\<lparr>fs_disk := fs_disk t\<rparr>"
    using write_slot[OF fa fs _ _ cur _ Suc.prems(3), of k old "308 + 4 * k" f "unat p + (308 + 4 * k) + 4"]
      small Suc.prems(1) fits unfolding cnt_def by blast
  show ?case
  proof (cases "k = ?b")
    case True
    have "D + ?c = cnt" using chunk_end[OF cur Suc.prems(2)] at True fits by simp
    then have "wrote d bs pos data (fs_disk t)" using t(1) by (simp add: cnt_def)
    moreover have "fd_seek old t = fd_seek old (s\<lparr>fs_disk := fs_disk t\<rparr>)" using t(2) by simp
    ultimately show ?thesis
      unfolding step visit Let_def using True by (intro exI[of _ "fs_disk t"]) simp
  next
    case False
    then have less: "k < ?b" using at by simp
    have "?c < cnt - D"
      using inner_block_arith[of pos D cnt] at(1) less chunk_bounds(2)[OF cur, of cnt] by linarith
    then have D': "D + ?c < cnt" by simp
    have n: "n = 947 - Suc k" using Suc.hyps(2) by simp
    obtain e where e: "seg_scan (write_visit data (of_nat fs) (of_nat (pos div 4096)) (of_nat ?b) old)
        p (slots_from (Suc k)) (write_acc (Suc k) (D + ?c) pos f) (fd_seek (fd_tell t) t)
      = (Stop (write_done fs pos cnt f), fd_seek old (t\<lparr>fs_disk := e\<rparr>))" "wrote d bs pos data e"
      using Suc.hyps(1)[OF n chunk_step(1)[OF Suc.prems(1) cur less fs] D' t(1)] by blast
    have "t\<lparr>fs_disk := e\<rparr> = s\<lparr>fs_disk := e\<rparr>" using t(2) by (metis fsys.update_convs(1) fsys.surjective fsys.select_convs)
    then show ?thesis
      unfolding step visit Let_def using False e by (intro exI[of _ e]) (simp add: fd_simps)
  qed
qed

lemma write_skip_loop:
  assumes "blocks_at (fs_disk s) p bs" and "pos < fs" and "fs \<le> 4096 * length bs" and "k + j = pos div 4096"
  shows "\<exists>q'. seg_scan (write_visit data (of_nat fs) (of_nat (pos div 4096)) ben old) p (slots_from k)
      (write_acc k 0 pos f) (fd_seek q s)
    = seg_scan (write_visit data (of_nat fs) (of_nat (pos div 4096)) ben old) p (slots_from (pos div 4096))
      (write_acc (pos div 4096) 0 pos f) (fd_seek q' s)"
  using assms(4)
proof (induction j arbitrary: k q)
  case 0
  then show ?case by auto
next
  case (Suc j)
  note b = blocks_atD[OF assms(1)]
  have "pos div 4096 < length bs" using assms(2,3) by (simp add: div_less_iff_less_mult)
  then have kl: "k < length bs" using Suc.prems by simp
  have sm: "fs < 2 ^ 32" "pos div 4096 < 2 ^ 32" "308 + 4 * k + 4 \<le> 4096" using assms(2,3) b(2) kl by auto
  have "bs ! k \<noteq> 0" using b(4)[OF kl] block_okD(5) by blast
  then have "write_visit data (of_nat fs) (of_nat (pos div 4096)) ben old i (bs ! k) (write_acc k 0 pos f) t
      = (Go (write_acc (Suc k) 0 pos f), t)" for i t
    using assms(2) sm Suc.prems by (intro write_visit_skip) simp_all
  then have "seg_scan (write_visit data (of_nat fs) (of_nat (pos div 4096)) ben old) p (slots_from k)
      (write_acc k 0 pos f) (fd_seek q s)
    = seg_scan (write_visit data (of_nat fs) (of_nat (pos div 4096)) ben old) p (slots_from (Suc k))
      (write_acc (Suc k) 0 pos f) (fd_seek (unat p + (308 + 4 * k) + 4) s)"
    using kl b(2) by (simp only: slots_from_Cons seg_scan_step[OF b(1) sm(3)] b(3)[OF kl]) simp
  then show ?case using Suc.IH[of "Suc k"] Suc.prems by simp
qed

section \<open>The operation\<close>

lemma file_write_result:
  fixes data :: "byte list"
  assumes ready: "file_ready f"
    and node: "\<And>q. getINodeByID (f_inodeid f) (fd_seek q s) = Some (n, fd_seek q s)"
    and p: "lookup_at (fs_disk s) (f_inodeid f) = p" and fa: "file_at (fs_disk s) p bs"
    and fs: "unat (i_dat_len n) \<le> 4096 * length bs" and ne: "data \<noteq> []"
    and fits: "unat (f_posp f) + length data \<le> unat (i_dat_len n)"
  shows "\<exists>e. file_write data f s =
      Some (write_done (unat (i_dat_len n)) (unat (f_posp f)) (length data) f, s\<lparr>fs_disk := e\<rparr>)
    \<and> wrote (fs_disk s) bs (unat (f_posp f)) data e \<and> dpos e = dpos (fs_disk s)"
proof -
  let ?pos = "unat (f_posp f)" and ?fs = "unat (i_dat_len n)"
  note b = file_atD[OF fa] and bd = blocks_atD[OF file_atD(1)[OF fa]]
  have pos: "?pos < ?fs" "0 < length data" using fits ne by (cases data; simp)+
  have small: "?pos < 2 ^ 32" "length data < 2 ^ 32" using fs fits b(6) by simp_all
  have start: "(0, 0, f) = write_acc 0 0 ?pos f" by (simp add: write_acc_def)
  have bst: "f_posp f div 4096 = of_nat (?pos div 4096)" using u32_div[OF small(1)] by simp
  have fsz: "i_dat_len n = of_nat ?fs" by simp
  obtain q' where skip: "seg_scan (write_visit data (of_nat ?fs) (of_nat (?pos div 4096))
        (of_nat ((?pos + length data - 1) div 4096)) (fd_tell s)) p (slots_from 0)
      (write_acc 0 0 ?pos f) (fd_seek (fd_tell s) s)
    = seg_scan (write_visit data (of_nat ?fs) (of_nat (?pos div 4096))
        (of_nat ((?pos + length data - 1) div 4096)) (fd_tell s)) p (slots_from (?pos div 4096))
      (write_acc (?pos div 4096) 0 ?pos f) (fd_seek q' s)"
    using write_skip_loop[OF b(1) pos(1) fs, of 0 "?pos div 4096" data
        "of_nat ((?pos + length data - 1) div 4096)" "fd_tell s" f "fd_tell s"] by auto
  have "wrote (fs_disk s) bs ?pos (take 0 data) (fs_disk s)" by (simp add: wrote_Nil)
  from write_loop[OF fa fs small(2) fits at_slot_start[OF pos] pos(2) this, of "fd_tell s" f q']
  obtain e where e: "seg_scan (write_visit data (of_nat ?fs) (of_nat (?pos div 4096))
        (of_nat ((?pos + length data - 1) div 4096)) (fd_tell s)) p (slots_from (?pos div 4096))
      (write_acc (?pos div 4096) 0 ?pos f) (fd_seek q' s)
    = (Stop (write_done ?fs ?pos (length data) f), fd_seek (fd_tell s) (s\<lparr>fs_disk := e\<rparr>))"
    "wrote (fs_disk s) bs ?pos data e" by blast
  let ?e = "disk_seek (fd_tell s) e"
  have loop: "seg_scan (write_visit data (i_dat_len n) (of_nat (?pos div 4096))
        (of_nat ((?pos + length data - 1) div 4096)) (fd_tell s)) p (slots_from 0) (0, 0, f) s
    = (Stop (write_done ?fs ?pos (length data) f), s\<lparr>fs_disk := ?e\<rparr>)"
    using skip e(1) unfolding start fd_simps by (simp add: fd_seek_def)
  have "p \<noteq> 0" using block_okD(5)[OF b(5)] .
  moreover have "getINodeByID (f_inodeid f) s = Some (n, s)" using node[of "fd_tell s"] by (simp add: fd_simps)
  moreover have "\<not> ?fs < ?pos + length data" using fits by simp
  ultimately have "file_write data f s = Some (write_done ?fs ?pos (length data) f, s\<lparr>fs_disk := ?e\<rparr>)"
    using ready p loop
    by (subst file_write_def)
       (simp add: file_ready_def file_bad_def file_fail_def file_size_def file_rounds.simps bst
         segment_offsets_file)
  moreover have "wrote (fs_disk s) bs ?pos data ?e" using e(2) by (simp add: wrote_seek)
  moreover have "dpos ?e = dpos (fs_disk s)" by (simp add: fd_tell_def disk_simps)
  ultimately show ?thesis by blast
qed

section \<open>A file of the package\<close>

text \<open>
  \<open>iid\<close> is a regular file or a symbolic link, stored at \<open>p\<close> with the data blocks \<open>bs\<close>, which
  hold its length.
\<close>

definition plain_file :: "disk \<Rightarrow> u16 \<Rightarrow> u32 \<Rightarrow> u32 list \<Rightarrow> inode \<Rightarrow> bool" where
  "plain_file d iid p bs n \<longleftrightarrow>
     lookup_at d iid = p \<and> file_at d p bs \<and> inode_at d (unat p) = n \<and>
     (i_type n = INT_FILEINFO \<or> i_type n = INT_SYMLINK) \<and> unat (i_dat_len n) \<le> 4096 * length bs"

lemma plain_file_node:
  assumes "plain_file (fs_disk s) iid p bs n"
  shows "getINodeByID iid s = Some (n, s)"
proof -
  have ok: "block_ok (fs_disk s) p" and l: "lookup_at (fs_disk s) iid = p"
    and n: "inode_at (fs_disk s) (unat p) = n" and ty: "i_type n \<noteq> INT_HARDLINK"
    using assms file_atD(5) by (auto simp: plain_file_def)
  have "\<not> unat p < OFFSET_FSINFO" "p \<noteq> 0" using block_okD(1)[OF ok] block_okD(5)[OF ok] by (simp_all add: config)
  moreover have "getINodeByPosition p s = Some (n, s)"
    using getINodeByPosition_plain[of p s] n ty block_okD(4)[OF ok] by simp
  ultimately show ?thesis by (simp add: getINodeByID_def l Let_def)
qed

lemma plain_file_seek: "plain_file (disk_seek q d) iid p bs n = plain_file d iid p bs n"
  by (simp add: plain_file_def file_at_def blocks_at_def block_ok_def seg_at_def disk_simps)

lemma plain_file_wrote:
  assumes pf: "plain_file d iid p bs n" and w: "wrote d bs pos xs e" and "pos + length xs \<le> 4096 * length bs"
  shows "plain_file e iid p bs n"
proof -
  have fa: "file_at d p bs" and n: "inode_at d (unat p) = n" using pf by (auto simp: plain_file_def)
  note b = file_atD[OF fa]
  have "inode_at e (unat p) = n" unfolding n[symmetric] by (rule inode_at_cong) (rule wrote_head[OF fa w assms(3)])
  moreover have "lookup_at e iid = lookup_at d iid"
  proof -
    have "byte_at e a = byte_at d a" if "a < OFFSET_FSINFO" for a
    proof -
      have "a \<noteq> data_addr bs (pos + j)" if "j < length xs" for j
        using data_addr_block[of "pos + j" bs] block_okD(1)[OF b(4)] that assms(3) \<open>a < OFFSET_FSINFO\<close>
        by (fastforce simp: config)
      then show ?thesis using w by (simp add: wrote_def)
    qed
    then show ?thesis
      using lookup_addr_bounds(2)[of iid] by (simp add: lookup_at_def u32_at_def cong: slice_cong)
  qed
  ultimately show ?thesis using pf wrote_blocks_at(2)[OF fa w assms(3)] by (simp add: plain_file_def)
qed

section \<open>Through a ready handle\<close>

lemma write_done_fields:
  "f_posp (write_done fs pos cnt f) = of_nat (pos + cnt)"
  "f_posg (write_done fs pos cnt f) = f_posg f" "f_inodeid (write_done fs pos cnt f) = f_inodeid f"
  "file_ready f \<Longrightarrow> file_ready (write_done fs pos cnt f)"
  by (simp_all add: write_done_def file_clear_def file_ready_def eof_only_def Let_def)

lemma write_plain:
  fixes data :: "byte list"
  assumes pf: "plain_file (fs_disk s) (f_inodeid f) p bs n" and ready: "file_ready f" and ne: "data \<noteq> []"
    and fits: "unat (f_posp f) + length data \<le> unat (i_dat_len n)"
  obtains e where "file_write data f s =
      Some (write_done (unat (i_dat_len n)) (unat (f_posp f)) (length data) f, s\<lparr>fs_disk := e\<rparr>)"
    and "wrote (fs_disk s) bs (unat (f_posp f)) data e" and "plain_file e (f_inodeid f) p bs n"
proof -
  have node: "getINodeByID (f_inodeid f) (fd_seek q s) = Some (n, fd_seek q s)" for q
    using pf by (intro plain_file_node) (simp add: fd_simps plain_file_seek)
  have b: "lookup_at (fs_disk s) (f_inodeid f) = p" "file_at (fs_disk s) p bs"
    "unat (i_dat_len n) \<le> 4096 * length bs" using pf by (simp_all add: plain_file_def)
  obtain e where e: "file_write data f s =
      Some (write_done (unat (i_dat_len n)) (unat (f_posp f)) (length data) f, s\<lparr>fs_disk := e\<rparr>)"
    "wrote (fs_disk s) bs (unat (f_posp f)) data e"
    using file_write_result[OF ready node b ne fits] by blast
  show ?thesis using that[OF e plain_file_wrote[OF pf e(2)]] fits b(3) by simp
qed

lemma read_plain:
  assumes pf: "plain_file (fs_disk s) (f_inodeid f) p bs n" and ready: "file_ready f"
    and pos: "unat (f_posg f) < unat (i_dat_len n)" and cnt: "0 < count" "count < 2 ^ 32" "count \<le> length out"
  defines "r \<equiv> min count (unat (i_dat_len n) - unat (f_posg f))"
  shows "file_read count out f s = Some
    ((of_nat r, buf_put 0 (file_bytes (fs_disk s) bs (unat (f_posg f)) r) out,
      f\<lparr>f_posg := f_posg f + of_nat r,
        f_state := (if unat (f_posg f) + r = unat (i_dat_len n) then eof_only else f_state f)\<rparr>), s)"
proof -
  have node: "getINodeByID (f_inodeid f) (fd_seek q s) = Some (n, fd_seek q s)" for q
    using pf by (intro plain_file_node) (simp add: fd_simps plain_file_seek)
  have b: "lookup_at (fs_disk s) (f_inodeid f) = p" "blocks_at (fs_disk s) p bs"
    "unat (i_dat_len n) \<le> 4096 * length bs" using pf by (simp_all add: plain_file_def file_at_def)
  show ?thesis unfolding r_def by (rule file_read_result[OF ready node b pos cnt])
qed

end
