(* ===== verification/FSFile_Grow.thy ===== *)
theory FSFile_Grow
  imports FSFile_Write
begin

text \<open>
  Growing a file: \<^verbatim>\<open>FS::truncateFile\<close> to a larger length appends zeroed blocks from the end of the
  package to the file's slots, keeps the blocks it had, and records the new length; followed by a
  write it is how contents get into a file.
\<close>

section \<open>The inode and the slots of a file's block\<close>

lemma at_cong_prefix:
  assumes "\<And>a. q \<le> a \<Longrightarrow> a < q + m \<Longrightarrow> byte_at e a = byte_at d a"
  shows "k + 2 \<le> m \<Longrightarrow> u16_at e (q + k) = u16_at d (q + k)"
    and "k + 4 \<le> m \<Longrightarrow> u32_at e (q + k) = u32_at d (q + k)"
    and "k + 8 \<le> m \<Longrightarrow> u64_at e (q + k) = u64_at d (q + k)"
    and "k + n \<le> m \<Longrightarrow> slice (byte_at e) (q + k) n = slice (byte_at d) (q + k) n"
proof -
  have sl: "slice (byte_at e) (q + k) n = slice (byte_at d) (q + k) n" if "k + n \<le> m" for k n
    using assms that by (intro slice_cong) auto
  then show "k + 2 \<le> m \<Longrightarrow> u16_at e (q + k) = u16_at d (q + k)"
    "k + 4 \<le> m \<Longrightarrow> u32_at e (q + k) = u32_at d (q + k)"
    "k + 8 \<le> m \<Longrightarrow> u64_at e (q + k) = u64_at d (q + k)"
    "k + n \<le> m \<Longrightarrow> slice (byte_at e) (q + k) n = slice (byte_at d) (q + k) n"
    by (simp_all only: u16_at_def u32_at_def u64_at_def)
qed

abbreviation file_type :: "inodetype \<Rightarrow> bool" where
  "file_type ty \<equiv> ty = INT_FILEINFO \<or> ty = INT_SYMLINK"

definition file_fields :: "disk \<Rightarrow> nat \<Rightarrow> inode" where
  "file_fields d p = (new_inode 0 INT_INVALID)
    \<lparr>i_inodeid := u16_at d p, i_type := type_of_code (u16_at d (p + 2)),
     i_filename := slice (byte_at d) (p + 4) 256,
     i_uid := u16_at d (p + 260), i_gid := u16_at d (p + 262), i_mask := u16_at d (p + 264),
     i_atime := u64_at d (p + 266), i_mtime := u64_at d (p + 274), i_ctime := u64_at d (p + 282),
     i_dev := u16_at d (p + 290), i_rdev := u16_at d (p + 292), i_nlink := u16_at d (p + 294),
     i_blocks := u16_at d (p + 296), i_dat_len := u32_at d (p + 298), i_info_next := u32_at d (p + 302)\<rparr>"

lemma inode_at_file_eq:
  assumes ty: "file_type (type_of_code (u16_at d (p + 2)))"
  shows "inode_at d p = (if inode_verify (file_fields d p) then file_fields d p else new_inode 0 INT_INVALID)"
proof -
  have h: "i_type (head_at d p) = type_of_code (u16_at d (p + 2))"
    by (simp add: head_at_def)
  have n: "named_at d p (head_at d p) = file_fields d p"
    using ty unfolding named_at_def Let_def file_fields_def head_at_def
    by (elim disjE) (simp_all del: add_2_eq_Suc')
  show ?thesis
    using ty h unfolding inode_at_def Let_def n by (elim disjE) simp_all
qed

lemma inode_at_file:
  assumes "file_type (i_type (inode_at d p))"
  shows "file_type (type_of_code (u16_at d (p + 2)))"
    and "inode_at d p = file_fields d p" and "inode_verify (file_fields d p)"
proof -
  show ty: "file_type (type_of_code (u16_at d (p + 2)))"
    using assms inode_at_type_code[of d p INT_FILEINFO] inode_at_type_code[of d p INT_SYMLINK] by auto
  then show "inode_at d p = file_fields d p" "inode_verify (file_fields d p)"
    using assms inode_at_file_eq[OF ty] by (auto split: if_split_asm)
qed

lemma inode_at_file_cong:
  assumes same: "\<And>a. p \<le> a \<Longrightarrow> a < p + 308 \<Longrightarrow> byte_at e a = byte_at d a"
    and ty: "file_type (i_type (inode_at d p))"
  shows "inode_at e p = inode_at d p"
proof -
  note c = at_cong_prefix[of p 308 e d, OF same]
  have t: "type_of_code (u16_at e (p + 2)) = type_of_code (u16_at d (p + 2))"
    using c(1)[where k = 2] by simp
  have "file_fields e p = file_fields d p"
    using c(1)[where k = 0] unfolding file_fields_def t
    by (simp only: c add_0_right arith_simps rel_simps)
  then show ?thesis
    using inode_at_file[OF ty] inode_at_file_eq[of e p] unfolding t by simp
qed

lemma inode_at_length_writes:
  fixes b :: u16 and len :: u32
  assumes ty: "file_type (i_type (inode_at d p))"
  defines "e \<equiv> put_bytes (p + 296) (enc16 b) (put_bytes (p + 298) (enc32 len) d)"
  shows "inode_at e p = (inode_at d p)\<lparr>i_blocks := b, i_dat_len := len\<rparr>"
proof -
  have k: "u16_at e p = u16_at d p" "u16_at e (p + 2) = u16_at d (p + 2)"
    "u16_at e (p + 260) = u16_at d (p + 260)"
    "u16_at e (p + 262) = u16_at d (p + 262)" "u16_at e (p + 264) = u16_at d (p + 264)"
    "u64_at e (p + 266) = u64_at d (p + 266)" "u64_at e (p + 274) = u64_at d (p + 274)"
    "u64_at e (p + 282) = u64_at d (p + 282)" "u16_at e (p + 290) = u16_at d (p + 290)"
    "u16_at e (p + 292) = u16_at d (p + 292)" "u16_at e (p + 294) = u16_at d (p + 294)"
    "u16_at e (p + 296) = b" "u32_at e (p + 298) = len" "u32_at e (p + 302) = u32_at d (p + 302)"
    "slice (byte_at e) (p + 4) 256 = slice (byte_at d) (p + 4) 256"
    unfolding e_def
    by (simp_all add: u16_at_put_other u64_at_put_other u16_at_put_same u32_at_put_same u32_at_put_other
        dsk.slice_put_disjoint del: add_2_eq_Suc')
  have f: "file_fields e p = (file_fields d p)\<lparr>i_blocks := b, i_dat_len := len\<rparr>"
    unfolding file_fields_def k by simp
  have "inode_verify (file_fields e p)" using inode_at_file(3)[OF ty] by (simp add: f inode_verify_def)
  then show ?thesis
    using inode_at_file[OF ty] inode_at_file_eq[of e p] unfolding k f by simp
qed

section \<open>Appending blocks\<close>

text \<open>The slots behind the file's blocks are all zero.\<close>

definition roomy :: "disk \<Rightarrow> u32 \<Rightarrow> u32 list \<Rightarrow> bool" where
  "roomy d p bs \<longleftrightarrow> file_at d p bs \<and> (\<forall>k. length bs \<le> k \<and> k < 947 \<longrightarrow> seg_at d p k = 0)"

text \<open>One more block: zeros at the end of the package, and its position in the next slot.\<close>

definition grow_one :: "u32 \<Rightarrow> nat \<Rightarrow> disk \<Rightarrow> disk" where
  "grow_one p k d =
     put_bytes (unat p + 308 + 4 * k) (enc32 (of_nat (dsize d))) (put_bytes (dsize d) (replicate 4096 0) d)"

fun grow_disk :: "u32 \<Rightarrow> nat \<Rightarrow> nat \<Rightarrow> disk \<Rightarrow> disk" where
  "grow_disk p k 0 d = d"
| "grow_disk p k (Suc m) d = grow_disk p (Suc k) m (grow_one p k d)"

definition new_blocks :: "nat \<Rightarrow> nat \<Rightarrow> u32 list" where
  "new_blocks sz m = map (\<lambda>i. of_nat (sz + 4096 * i)) [0..<m]"

lemma new_blocks_Suc: "new_blocks sz (Suc m) = of_nat sz # new_blocks (sz + 4096) m"
  by (simp add: new_blocks_def upt_rec[of 0 "Suc m"] map_Suc_upt[symmetric] add.assoc del: upt_Suc)

lemma length_new_blocks [simp]: "length (new_blocks sz m) = m"
  by (simp add: new_blocks_def)

lemma fresh_block_ok:
  assumes "OFFSET_DATA \<le> sz" "sz mod 4096 = 0" "sz < 2 ^ 31" "sz + 4096 \<le> dsize d"
  shows "block_ok d (of_nat sz)" and "unat (of_nat sz :: u32) = sz"
proof -
  show u: "unat (of_nat sz :: u32) = sz" using assms(3) by (intro unat_of_nat_small) simp
  show "block_ok d (of_nat sz)"
    using assms u by (simp add: block_ok_def checkINodePositionIsValid_iff)
qed

lemma grow_one_facts:
  assumes r: "roomy d p bs" and k: "length bs < 946"
    and al: "dsize d mod 4096 = 0" and lim: "dsize d < 2 ^ 31"
  defines "e \<equiv> grow_one p (length bs) d"
  shows "dsize e = dsize d + 4096"
    and "\<And>a. a < dsize d \<Longrightarrow> \<not> (unat p + 308 + 4 * length bs \<le> a \<and> a < unat p + 308 + 4 * Suc (length bs)) \<Longrightarrow>
           byte_at e a = byte_at d a"
    and "\<And>a. dsize d \<le> a \<Longrightarrow> a < dsize d + 4096 \<Longrightarrow> byte_at e a = 0"
    and "roomy e p (bs @ [of_nat (dsize d)])"
proof -
  have fa: "file_at d p bs" using r by (simp add: roomy_def)
  note f = file_atD[OF fa] and fd = blocks_atD[OF file_atD(1)[OF fa]]
  note p = block_okD[OF f(5)]
  show size: "dsize e = dsize d + 4096" using p(4) k by (simp add: e_def grow_one_def)
  have byte: "byte_at e a = (if unat p + 308 + 4 * length bs \<le> a \<and> a < unat p + 308 + 4 * length bs + 4
      then enc32 (of_nat (dsize d)) ! (a - (unat p + 308 + 4 * length bs))
      else if dsize d \<le> a \<and> a < dsize d + 4096 then 0 else byte_at d a)" for a
  proof -
    have "replicate 4096 (0 :: byte) ! (a - dsize d) = 0" if "dsize d \<le> a" "a < dsize d + 4096"
      using that by (intro nth_replicate) linarith
    then show ?thesis by (auto simp: e_def grow_one_def byte_at_put_bytes)
  qed
  show "byte_at e a = byte_at d a"
    if "a < dsize d" "\<not> (unat p + 308 + 4 * length bs \<le> a \<and> a < unat p + 308 + 4 * Suc (length bs))" for a
    unfolding byte using that by auto
  show "byte_at e a = 0" if "dsize d \<le> a" "a < dsize d + 4096" for a
    unfolding byte using that p(4) k by auto
  let ?b = "of_nat (dsize d) :: u32"
  have b: "block_ok e ?b" "unat ?b = dsize d"
    using fresh_block_ok[of "dsize d" e] p(1,4) al lim size by auto
  have old: "block_ok e c" if "block_ok d c" for c using that size by (simp add: block_ok_def)
  have seg: "seg_at e p j = (if j = length bs then ?b else seg_at d p j)" if "j < 947" for j
  proof -
    have "j < length bs \<or> j = length bs \<or> length bs < j" by auto
    moreover have "unat p + (308 + 4 * j) + 4 \<le> dsize d" using p(4) that by simp
    ultimately show ?thesis
      by (auto simp: seg_at_def e_def grow_one_def u32_at_put_same u32_at_put_other add.assoc)
  qed
  have "?b \<notin> set (p # bs)"
  proof
    assume "?b \<in> set (p # bs)"
    then have "unat ?b + 4096 \<le> dsize d" using block_okD(4) f(4,5) by auto
    then show False using b(2) by simp
  qed
  moreover have "seg_at e p (length (bs @ [?b])) = 0"
    using seg[of "Suc (length bs)"] r k by (simp add: roomy_def)
  moreover have "seg_at e p j = (bs @ [?b]) ! j \<and> block_ok e ((bs @ [?b]) ! j)" if "j < length (bs @ [?b])" for j
    using that seg[of j] k f(1) old b(1) by (cases "j = length bs") (auto simp: nth_append blocks_at_def)
  ultimately have "file_at e p (bs @ [?b])"
    using fa k old[OF f(5)] by (auto simp: file_at_def blocks_at_def)
  moreover have "seg_at e p j = 0" if "length (bs @ [?b]) \<le> j" "j < 947" for j
    using seg[OF that(2)] that r by (auto simp: roomy_def)
  ultimately show "roomy e p (bs @ [?b])" by (simp add: roomy_def)
qed

lemma grow_disk_facts:
  assumes "roomy d p bs" and "length bs + m < 947"
    and "dsize d mod 4096 = 0" and "dsize d + 4096 * m \<le> 2 ^ 31"
  shows "dsize (grow_disk p (length bs) m d) = dsize d + 4096 * m"
    and "\<And>a. a < dsize d \<Longrightarrow> \<not> (unat p + 308 + 4 * length bs \<le> a \<and> a < unat p + 308 + 4 * (length bs + m)) \<Longrightarrow>
           byte_at (grow_disk p (length bs) m d) a = byte_at d a"
    and "\<And>a. dsize d \<le> a \<Longrightarrow> a < dsize d + 4096 * m \<Longrightarrow> byte_at (grow_disk p (length bs) m d) a = 0"
    and "roomy (grow_disk p (length bs) m d) p (bs @ new_blocks (dsize d) m)"
  using assms
proof (induction m arbitrary: bs d)
  case 0
  { case 1 then show ?case by simp }
  { case 2 then show ?case by simp }
  { case 3 then show ?case by simp }
  { case 4 then show ?case by (simp add: new_blocks_def) }
next
  case (Suc m)
  have step: "length bs < 946" "dsize d < 2 ^ 31" if "length bs + Suc m < 947" "dsize d + 4096 * Suc m \<le> 2 ^ 31"
    for bs and d :: disk
    using that by auto
  let ?e = "\<lambda>(d :: disk) bs. grow_one p (length bs) d"
  have nxt: "roomy (?e d bs) p (bs @ [of_nat (dsize d)]) \<and> length (bs @ [of_nat (dsize d) :: u32]) + m < 947
      \<and> dsize (?e d bs) mod 4096 = 0 \<and> dsize (?e d bs) + 4096 * m \<le> 2 ^ 31 \<and> dsize (?e d bs) = dsize d + 4096
      \<and> unat p + 4096 \<le> dsize d"
    if "roomy d p bs" "length bs + Suc m < 947" "dsize d mod 4096 = 0" "dsize d + 4096 * Suc m \<le> 2 ^ 31" for bs d
    using grow_one_facts(1,4)[OF that(1) step(1)[OF that(2,4)] that(3) step(2)[OF that(2,4)]] that
      block_okD(4)[OF file_atD(5), of d p bs] by (auto simp: roomy_def mod_Suc)
  { case 1
    note n = nxt[OF this]
    from Suc.IH(1)[of "?e d bs" "bs @ [of_nat (dsize d)]"] n show ?case by (simp add: 1(3) add.assoc) }
  { case (2 a bs d)
    note n = nxt[OF 2(3-6)]
    have "byte_at (grow_disk p (length (bs @ [of_nat (dsize d) :: u32])) m (?e d bs)) a = byte_at (?e d bs) a"
      by (rule Suc.IH(2)) (use n 2(1,2) in auto)
    then show ?case
      using grow_one_facts(2)[OF 2(3) step(1)[OF 2(4,6)] 2(5) step(2)[OF 2(4,6)] 2(1)] 2(2) by auto }
  { case (3 a bs d)
    note n = nxt[OF 3(3-6)]
    show ?case
    proof (cases "a < dsize d + 4096")
      case True
      have "byte_at (grow_disk p (length (bs @ [of_nat (dsize d) :: u32])) m (?e d bs)) a = byte_at (?e d bs) a"
        by (rule Suc.IH(2)) (use n 3(1,4) True in auto)
      then show ?thesis
        using grow_one_facts(3)[OF 3(3) step(1)[OF 3(4,6)] 3(5) step(2)[OF 3(4,6)] 3(1) True] by simp
    next
      case False
      have "byte_at (grow_disk p (length (bs @ [of_nat (dsize d) :: u32])) m (?e d bs)) a = 0"
        by (rule Suc.IH(3)) (use n 3(2) False in auto)
      then show ?thesis by simp
    qed }
  { case 4
    note n = nxt[OF this]
    from Suc.IH(4)[of "?e d bs" "bs @ [of_nat (dsize d)]"] n show ?case by (simp add: 4(3) new_blocks_Suc) }
qed

text \<open>The loop of \<^verbatim>\<open>truncateFile\<close> over the slots.\<close>

lemma fd_doR32_slot:
  assumes "block_ok (fs_disk s) p" and "k < 947"
  shows "fd_doR32 0 (fd_seek (unat (p + of_nat (308 + 4 * k))) s)
    = (seg_at (fs_disk s) p k, fd_seek (unat p + (308 + 4 * k) + 4) s)"
proof -
  have "unat (p + of_nat (308 + 4 * k)) = unat p + (308 + 4 * k)"
    using assms by (intro unat_block_plus) auto
  then show ?thesis
    using fd_doR32_seek[of "unat p + (308 + 4 * k)" s 0] block_okD(4)[OF assms(1)] assms(2)
    by (simp add: seg_at_def)
qed

lemma grow_scan_skip:
  assumes b: "blocks_at (fs_disk s) p bs" and "k \<le> length bs"
  shows "\<exists>q'. grow_scan p add (slots_from k) c (fd_seek q s) = grow_scan p add (slots_from (length bs)) c (fd_seek q' s)"
  using assms(2)
proof (induction "length bs - k" arbitrary: k q)
  case 0
  then have "k = length bs" by simp
  then show ?case by blast
next
  case (Suc m)
  note bd = blocks_atD[OF b]
  have k: "k < length bs" "k < 947" using Suc.hyps(2) bd(2) by simp_all
  have ne: "seg_at (fs_disk s) p k \<noteq> 0" using bd(3,4)[OF k(1)] block_okD(5) by (auto simp: seg_at_def)
  have "grow_scan p add (slots_from k) c (fd_seek q s)
    = grow_scan p add (slots_from (Suc k)) c (fd_seek (unat p + (308 + 4 * k) + 4) s)"
    using ne k(2) fd_doR32_slot[OF bd(1) k(2)] by (simp add: slots_from_Cons fd_simps del: of_nat_add)
  with Suc.hyps(1)[of "Suc k"] Suc.hyps(2) k show ?case by auto
qed

lemma grow_scan_fill:
  assumes "roomy (fs_disk s) p bs" and "length bs + m < 947" and "fs_cache s = []"
    and "dsize (fs_disk s) mod 4096 = 0" and "dsize (fs_disk s) + 4096 * m \<le> 2 ^ 31"
  shows "\<exists>q'. grow_scan p (c + m) (slots_from (length bs)) c (fd_seek q s)
    = ((True, c + m), fd_seek q' (s\<lparr>fs_disk := grow_disk p (length bs) m (fs_disk s)\<rparr>))"
  using assms
proof (induction m arbitrary: bs s c q)
  case 0
  have fa: "file_at (fs_disk s) p bs" and z: "seg_at (fs_disk s) p (length bs) = 0"
    using 0(1,2) by (auto simp: roomy_def)
  have "fd_doR32 0 (fd_seek (unat (p + of_nat (308 + 4 * length bs))) s)
    = (0, fd_seek (unat p + (308 + 4 * length bs) + 4) s)"
    using fd_doR32_slot[OF file_atD(5)[OF fa] file_atD(6)[OF fa]] z by simp
  then show ?case
    using file_atD(6)[OF fa] by (auto simp: slots_from_Cons fd_simps simp del: of_nat_add)
next
  case (Suc m)
  let ?d = "fs_disk s" and ?k = "length bs"
  have fa: "file_at ?d p bs" and z: "seg_at ?d p ?k = 0"
    using Suc.prems(1,2) by (auto simp: roomy_def)
  note p = file_atD(5)[OF fa]
  have k: "?k < 946" "?k < 947" and lim: "dsize ?d < 2 ^ 31" using Suc.prems by simp_all
  let ?s1 = "s\<lparr>fs_disk := grow_one p ?k ?d\<rparr>"
  note g = grow_one_facts[OF Suc.prems(1) k(1) Suc.prems(4) lim]
  have u: "unat (p + of_nat (308 + 4 * ?k)) = unat p + (308 + 4 * ?k)"
    using k by (intro unat_block_plus[OF p]) simp
  have rd: "fd_doR32 0 (fd_seek (unat p + (308 + 4 * ?k)) s) = (0, fd_seek (unat p + (308 + 4 * ?k) + 4) s)"
    using fd_doR32_slot[OF p k(2)] z unfolding u by simp
  have al: "align_up (dsize ?d mod 2 ^ 32) = of_nat (dsize ?d)" "unat (of_nat (dsize ?d) :: u32) = dsize ?d"
    using align_up_aligned[of "dsize ?d"] Suc.prems(4) lim unat_of_nat_small[of "dsize ?d"] by simp_all
  have s1: "?s1 = fs_put (unat p + (308 + 4 * ?k)) (enc32 (of_nat (dsize ?d))) (fs_put (dsize ?d) (replicate 4096 0) s)"
    by (simp add: grow_one_def fs_put_def add.assoc)
  have step: "grow_scan p (Suc (c + m)) (slots_from ?k) c (fd_seek q s)
    = grow_scan p (Suc (c + m)) (slots_from (Suc ?k)) (Suc c) (fd_seek (unat p + (308 + 4 * ?k) + 4) ?s1)"
    unfolding s1 using k(2) rd al u Suc.prems(3)
    by (simp add: slots_from_Cons allocateBlock_new fd_simps disk_simps add.assoc Let_def del: of_nat_add)
  have "\<exists>q'. grow_scan p (Suc c + m) (slots_from (length (bs @ [of_nat (dsize ?d) :: u32]))) (Suc c) (fd_seek q ?s1)
    = ((True, Suc c + m), fd_seek q' (?s1\<lparr>fs_disk := grow_disk p (length (bs @ [of_nat (dsize ?d) :: u32])) m (fs_disk ?s1)\<rparr>))" for q
    by (rule Suc.IH) (use g Suc.prems in \<open>simp_all add: mod_Suc\<close>)
  then show ?case using step by simp
qed

section \<open>The new length\<close>

definition set_len :: "u32 \<Rightarrow> u32 \<Rightarrow> disk \<Rightarrow> disk" where
  "set_len p len d = put_bytes (unat p + 296) (enc16 (of_nat (ceil_blocks len)))
     (put_bytes (unat p + 298) (enc32 len) d)"

lemma put_bytes_seek: "put_bytes a bs (disk_seek q d) = disk_seek q (put_bytes a bs d)"
  by (rule disk.equality) (auto simp: put_bytes_def disk_seek_def byte_at_def fun_eq_iff)

lemma setFileLengthDirect_eq:
  assumes ok: "block_ok (fs_disk s) p" and ty: "file_type (i_type (inode_at (fs_disk s) (unat p)))"
  shows "setFileLengthDirect p len s = (E_SUCCESS, s\<lparr>fs_disk := set_len p len (fs_disk s)\<rparr>)"
proof -
  have "file_type (type_of_code (u16_at (fs_disk s) (unat p + 2)))" by (rule inode_at_file(1)[OF ty])
  then have code: "u16_at (fs_disk s) (unat p + 2) = type_code INT_FILEINFO \<or>
    u16_at (fs_disk s) (unat p + 2) = type_code INT_SYMLINK"
    by (auto simp: type_of_code_def split: if_splits)
  have q: "unat p + 4096 \<le> dsize (fs_disk s)" using block_okD(4)[OF ok] .
  have "setFileLengthDirect p len s =
    (E_SUCCESS, fd_seek (fd_tell s) (fs_put (unat p + 296) (enc16 (of_nat (ceil_blocks len)))
       (fs_put (unat p + 298) (enc32 len) s)))"
    using code q
    by (simp add: setFileLengthDirect_def unat_block_numeral[OF ok] fd_simps disk_simps Let_def
        del: add_2_eq_Suc')
  moreover have "fd_tell (s\<lparr>fs_disk := set_len p len (fs_disk s)\<rparr>) = fd_tell s"
    by (simp add: fd_tell_def set_len_def)
  ultimately show ?thesis
    using fd_seek_same[of "s\<lparr>fs_disk := set_len p len (fs_disk s)\<rparr>" "fd_tell s"]
    by (simp add: set_len_def fs_put_def)
qed

lemma allocateInfoListBlocks_none:
  assumes "getINodeByPosition p s = Some (n, s)" and "unat len \<le> 4096 * 947" and "unat (i_blocks n) \<le> 947"
  shows "allocateInfoListBlocks p len s = Some (E_SUCCESS, s)"
proof -
  have "\<not> unat len div BSIZE_FILE > (BSIZE_FILE - HSIZE_FILE) div 4"
    using assms(2) div_le_mono[OF assms(2), of 4096] by (simp add: config)
  moreover have "\<not> unat (i_blocks n) > (BSIZE_FILE - HSIZE_FILE) div 4" using assms(3) by (simp add: config)
  ultimately show ?thesis
    using assms(1) by (simp add: allocateInfoListBlocks_def count_steps_def config Let_def)
qed

lemma grow_rounds_fill:
  assumes r: "roomy (fs_disk s) p bs" and "length bs + m < 947" and "fs_cache s = []"
    and "dsize (fs_disk s) mod 4096 = 0" and "dsize (fs_disk s) + 4096 * m \<le> 2 ^ 31"
  shows "\<exists>q'. grow_rounds p m p HSIZE_FILE 0 s
    = Some (True, fd_seek q' (s\<lparr>fs_disk := grow_disk p (length bs) m (fs_disk s)\<rparr>))"
proof -
  have b: "blocks_at (fs_disk s) p bs" "p \<noteq> 0"
    using r block_okD(5) by (auto simp: roomy_def file_at_def blocks_at_def)
  obtain q where q: "grow_scan p m (slots_from 0) 0 (fd_seek (fd_tell s) s)
      = grow_scan p m (slots_from (length bs)) 0 (fd_seek q s)"
    using grow_scan_skip[OF b(1), of 0 m 0 "fd_tell s"] by blast
  obtain q' where "grow_scan p m (slots_from (length bs)) 0 (fd_seek q s)
      = ((True, m), fd_seek q' (s\<lparr>fs_disk := grow_disk p (length bs) m (fs_disk s)\<rparr>))"
    using grow_scan_fill[OF assms, of 0 q] by auto
  then show ?thesis
    using q b(2) by (subst grow_rounds.simps) (auto simp: segment_offsets_file fd_simps)
qed

lemma truncateFile_grow:
  assumes l: "lookup_at (fs_disk s) iid = p" and r: "roomy (fs_disk s) p bs"
    and n: "inode_at (fs_disk s) (unat p) = n" and ty: "file_type (i_type n)"
    and blocks: "i_blocks n = of_nat (length bs)" and longer: "i_dat_len n < len"
    and m: "ceil_blocks len = length bs + m" "length bs + m < 947"
    and cache: "fs_cache s = []"
    and size: "dsize (fs_disk s) mod 4096 = 0" "dsize (fs_disk s) + 4096 * m \<le> 2 ^ 31"
  shows "truncateFile iid len s =
    Some (E_SUCCESS, s\<lparr>fs_disk := disk_seek (fd_tell s) (set_len p len (grow_disk p (length bs) m (fs_disk s)))\<rparr>)"
proof -
  let ?d = "fs_disk s" and ?g = "grow_disk p (length bs) m (fs_disk s)"
  have fa: "file_at ?d p bs" using r by (simp add: roomy_def)
  note p = block_okD[OF file_atD(5)[OF fa]]
  have node: "getINodeByPosition p s = Some (n, s)"
    using getINodeByPosition_plain[of p s] n ty p(4) by auto
  have cb: "ceil_blocks len \<le> 946" using m by simp
  have "unat len \<le> 4096 * 946"
    using cb unfolding ceil_blocks_def by linarith
  moreover have "unat (i_blocks n) = length bs"
    using m(2) by (simp add: blocks unat_of_nat take_bit_eq_mod)
  ultimately have info: "allocateInfoListBlocks p len s = Some (E_SUCCESS, s)"
    using m(2) by (intro allocateInfoListBlocks_none[OF node]) simp_all
  have "(of_nat (ceil_blocks len) :: u16) - i_blocks n = of_nat m" by (simp add: blocks m(1))
  moreover have "unat (of_nat m :: u16) = m" using m(2) by (simp add: unat_of_nat take_bit_eq_mod)
  ultimately have add: "unat ((of_nat (ceil_blocks len) :: u16) - i_blocks n) = m" by simp
  obtain q where g: "grow_rounds p m p HSIZE_FILE 0 s = Some (True, fd_seek q (s\<lparr>fs_disk := ?g\<rparr>))"
    using grow_rounds_fill[OF r m(2) cache size] by blast
  note gf = grow_disk_facts[OF r m(2) size]
  have "byte_at ?g a = byte_at ?d a" if "unat p \<le> a" "a < unat p + 308" for a
    using gf(2)[of a] that p(4) by simp
  then have gn: "inode_at ?g (unat p) = n"
    using inode_at_file_cong[of "unat p" ?g ?d] n ty by simp
  have gok: "block_ok ?g p" using gf(4) file_atD(5) unfolding roomy_def by blast
  have "setFileLengthDirect p len (fd_seek q (s\<lparr>fs_disk := ?g\<rparr>))
      = (E_SUCCESS, (fd_seek q (s\<lparr>fs_disk := ?g\<rparr>))\<lparr>fs_disk := set_len p len (disk_seek q ?g)\<rparr>)"
    using setFileLengthDirect_eq[of "fd_seek q (s\<lparr>fs_disk := ?g\<rparr>)" p len] gok gn ty
    by (simp add: fd_simps disk_simps block_ok_def)
  moreover have "set_len p len (disk_seek q ?g) = disk_seek q (set_len p len ?g)"
    by (simp add: set_len_def put_bytes_seek)
  ultimately have len_set: "setFileLengthDirect p len (fd_seek q (s\<lparr>fs_disk := ?g\<rparr>))
      = (E_SUCCESS, fd_seek q (s\<lparr>fs_disk := set_len p len ?g\<rparr>))"
    by (simp add: fd_seek_def)
  have "\<not> (i_dat_len n = len)" "\<not> (i_dat_len n > len)" using longer by auto
  then show ?thesis
    using l node info g len_set add ty
    by (auto simp: truncateFile_def Let_def fd_simps fd_seek_def disk_seek_def)
qed

section \<open>Sound files\<close>

text \<open>
  A file whose inode records the number of its blocks, which are as many as its length needs,
  with zeros in all slots behind them.
\<close>

definition sound_file :: "disk \<Rightarrow> u16 \<Rightarrow> u32 \<Rightarrow> u32 list \<Rightarrow> inode \<Rightarrow> bool" where
  "sound_file d iid p bs n \<longleftrightarrow>
     lookup_at d iid = p \<and> roomy d p bs \<and> inode_at d (unat p) = n \<and> file_type (i_type n) \<and>
     i_blocks n = of_nat (length bs) \<and> length bs = ceil_blocks (i_dat_len n)"

lemma ceil_blocks_bound: "unat len \<le> 4096 * ceil_blocks len" "ceil_blocks len \<le> b \<longleftrightarrow> unat len \<le> 4096 * b"
proof -
  show "unat len \<le> 4096 * ceil_blocks len" unfolding ceil_blocks_def by linarith
  show "ceil_blocks len \<le> b \<longleftrightarrow> unat len \<le> 4096 * b"
    using div_less_iff_less_mult[of 4096 "unat len + 4095" "Suc b"]
    by (simp add: ceil_blocks_def less_Suc_eq_le) linarith
qed

lemma ceil_blocks_mono: "a \<le> b \<Longrightarrow> ceil_blocks a \<le> ceil_blocks b"
  by (simp add: ceil_blocks_def div_le_mono word_le_nat_alt)

lemma sound_file_plain: "sound_file d iid p bs n \<Longrightarrow> plain_file d iid p bs n"
  using ceil_blocks_bound(1) by (auto simp: sound_file_def plain_file_def roomy_def)

lemma roomy_seek: "roomy (disk_seek q d) p bs = roomy d p bs"
  by (simp add: roomy_def file_at_def blocks_at_def block_ok_def seg_at_def disk_simps)

lemma sound_file_seek: "sound_file (disk_seek q d) iid p bs n = sound_file d iid p bs n"
  by (simp add: sound_file_def roomy_seek disk_simps)

lemma roomy_cong:
  assumes r: "roomy d p bs" and sz: "dsize d \<le> dsize e"
    and same: "\<And>a. unat p + 308 \<le> a \<Longrightarrow> a < unat p + 4096 \<Longrightarrow> byte_at e a = byte_at d a"
  shows "roomy e p bs"
proof -
  have fa: "file_at d p bs" using r by (simp add: roomy_def)
  have seg: "seg_at e p k = seg_at d p k" if "k < 947" for k
    unfolding seg_at_def u32_at_def using that same
    by (intro arg_cong[where f = le_dec] slice_cong) auto
  have "block_ok e b" if "block_ok d b" for b using that sz by (simp add: block_ok_def)
  then show ?thesis
    using r seg file_atD(6)[OF fa] by (auto simp: roomy_def file_at_def blocks_at_def)
qed

lemma lookup_at_cong:
  assumes "\<And>a. a < OFFSET_FSINFO \<Longrightarrow> byte_at e a = byte_at d a"
  shows "lookup_at e = lookup_at d"
  using lookup_addr_bounds(2) assms
  by (auto simp: lookup_at_def fun_eq_iff u32_at_def intro!: arg_cong[where f = le_dec] slice_cong)
     (metis add_leE less_le_trans)

lemma set_len_facts:
  assumes ok: "block_ok d p"
  shows "dsize (set_len p len d) = dsize d"
    and "\<not> (unat p + 296 \<le> a \<and> a < unat p + 302) \<Longrightarrow> byte_at (set_len p len d) a = byte_at d a"
  using block_okD(4)[OF ok] by (auto simp: set_len_def byte_at_put_bytes)

text \<open>The file after its length grew from \<open>n\<close>'s to \<open>len\<close>.\<close>

definition resized :: "u32 \<Rightarrow> inode \<Rightarrow> inode" where
  "resized len n = n\<lparr>i_blocks := of_nat (ceil_blocks len), i_dat_len := len\<rparr>"

lemma resized_len: "i_dat_len (resized len n) = len"
  by (simp add: resized_def)

lemma truncateFile_grow_sound:
  assumes sf: "sound_file (fs_disk s) iid p bs n"
    and longer: "i_dat_len n < len" and fits: "unat len \<le> 4096 * 946"
    and cache: "fs_cache s = []" and al: "dsize (fs_disk s) mod 4096 = 0"
    and lim: "dsize (fs_disk s) + 4096 * (ceil_blocks len - length bs) \<le> 2 ^ 31"
  defines "m \<equiv> ceil_blocks len - length bs"
  obtains e where "truncateFile iid len s = Some (E_SUCCESS, s\<lparr>fs_disk := e\<rparr>)"
    and "sound_file e iid p (bs @ new_blocks (dsize (fs_disk s)) m) (resized len n)"
    and "dsize e = dsize (fs_disk s) + 4096 * m" and "dpos e = dpos (fs_disk s)"
    and "\<And>a. a < dsize (fs_disk s) \<Longrightarrow> \<not> (unat p \<le> a \<and> a < unat p + 4096) \<Longrightarrow> byte_at e a = byte_at (fs_disk s) a"
    and "\<And>a. dsize (fs_disk s) \<le> a \<Longrightarrow> byte_at e a = 0"
proof -
  let ?d = "fs_disk s" and ?k = "length bs"
  let ?g = "grow_disk p ?k m ?d"
  let ?e = "disk_seek (fd_tell s) (set_len p len ?g)"
  have s: "lookup_at ?d iid = p" "roomy ?d p bs" "inode_at ?d (unat p) = n" "file_type (i_type n)"
    "i_blocks n = of_nat ?k" "?k = ceil_blocks (i_dat_len n)"
    using sf by (simp_all add: sound_file_def)
  have km: "ceil_blocks len = ?k + m" "?k + m < 947"
    using ceil_blocks_mono[of "i_dat_len n" len] longer s(6) ceil_blocks_bound(2)[of len 946] fits
    by (auto simp: m_def)
  note tr = truncateFile_grow[OF s(1-5) longer km cache al lim[folded m_def]]
  note g = grow_disk_facts[OF s(2) km(2) al lim[folded m_def]]
  have p: "block_ok ?d p" using s(2) file_atD(5) unfolding roomy_def by blast
  then have pg: "block_ok ?g p" using g(1) by (simp add: block_ok_def)
  note l = set_len_facts[OF pg, where len = len]
  note pd = block_okD[OF p]
  have size: "dsize ?e = dsize ?d + 4096 * m" using l(1) g(1) by (simp add: disk_simps)
  have byte: "byte_at ?e a = byte_at (set_len p len ?g) a" for a by (simp add: disk_simps)
  have same: "byte_at ?e a = byte_at ?d a" if "a < dsize ?d" "\<not> (unat p \<le> a \<and> a < unat p + 4096)" for a
  proof -
    have "\<not> (unat p + 296 \<le> a \<and> a < unat p + 302)"
      "\<not> (unat p + 308 + 4 * ?k \<le> a \<and> a < unat p + 308 + 4 * (?k + m))"
      using that(2) km(2) by auto
    then show ?thesis unfolding byte using l(2)[of a] g(2)[OF that(1)] by metis
  qed
  have zero: "byte_at ?e a = 0" if "dsize ?d \<le> a" for a
  proof (cases "a < dsize ?e")
    case True
    then show ?thesis unfolding byte using l(2)[of a] g(3)[of a] that size pd(4) by simp
  next
    case False
    then show ?thesis by (simp add: byte_at_def)
  qed
  have "inode_at ?g (unat p) = n"
    using inode_at_file_cong[of "unat p" ?g ?d] g(2) s(3,4) pd(4) by simp
  then have node: "inode_at ?e (unat p) = resized len n"
    using inode_at_length_writes[of ?g "unat p" "of_nat (ceil_blocks len)" len] s(4)
    by (simp add: resized_def set_len_def disk_simps)
  have room: "roomy ?e p (bs @ new_blocks (dsize ?d) m)"
    unfolding roomy_seek by (rule roomy_cong[OF g(4)]) (use l in auto)
  have "lookup_at ?e = lookup_at ?d"
    by (rule lookup_at_cong) (use same pd(1,4) in \<open>auto simp: config\<close>)
  then have "sound_file ?e iid p (bs @ new_blocks (dsize ?d) m) (resized len n)"
    using s(1,4) node room km(1) by (simp add: sound_file_def) (simp add: resized_def)
  then show ?thesis
    using that[OF tr _ size _ same zero] by (simp add: disk_simps fd_tell_def)
qed

section \<open>The contents of a grown file\<close>

lemma data_addr_append: "j < 4096 * length bs \<Longrightarrow> data_addr (bs @ cs) j = data_addr bs j"
  by (simp add: data_addr_def nth_append div_less_iff_less_mult mult.commute)

lemma data_addr_new:
  assumes "j < 4096 * m" and "sz + 4096 * m \<le> 2 ^ 31"
  shows "data_addr (bs @ new_blocks sz m) (4096 * length bs + j) = sz + j"
proof -
  have k: "j div 4096 < m" using assms(1) by (simp add: div_less_iff_less_mult mult.commute)
  have d: "(4096 * length bs + j) div 4096 = length bs + j div 4096" "(4096 * length bs + j) mod 4096 = j mod 4096"
    by simp_all
  have "4096 * (j div 4096) \<le> j" by simp
  then have "unat (of_nat (sz + 4096 * (j div 4096)) :: u32) = sz + 4096 * (j div 4096)"
    using assms by (intro unat_of_nat_small) simp
  then show ?thesis
    unfolding data_addr_def d using k by (simp add: nth_append new_blocks_def add.assoc del: of_nat_add)
qed

lemma grown_bytes:
  assumes fa: "file_at d p bs"
    and same: "\<And>a. a < dsize d \<Longrightarrow> \<not> (unat p \<le> a \<and> a < unat p + 4096) \<Longrightarrow> byte_at e a = byte_at d a"
    and zero: "\<And>a. dsize d \<le> a \<Longrightarrow> byte_at e a = 0" and lim: "dsize d + 4096 * m \<le> 2 ^ 31"
  shows "j < 4096 * length bs \<Longrightarrow> byte_at e (data_addr (bs @ new_blocks (dsize d) m) j) = byte_at d (data_addr bs j)"
    and "j < 4096 * m \<Longrightarrow> byte_at e (data_addr (bs @ new_blocks (dsize d) m) (4096 * length bs + j)) = 0"
proof -
  show "byte_at e (data_addr (bs @ new_blocks (dsize d) m) j) = byte_at d (data_addr bs j)" if j: "j < 4096 * length bs"
  proof -
    note b = data_addr_block[OF j]
    have "data_addr bs j < dsize d" using block_okD(4)[OF file_atD(4)[OF fa b(1)]] b(4) by simp
    moreover have "\<not> (unat p \<le> data_addr bs j \<and> data_addr bs j < unat p + 4096)"
      using data_addr_not_head[OF fa j] by blast
    ultimately show ?thesis using same by (simp add: data_addr_append[OF j])
  qed
  show "byte_at e (data_addr (bs @ new_blocks (dsize d) m) (4096 * length bs + j)) = 0" if "j < 4096 * m"
    using data_addr_new[OF that lim] zero by simp
qed

section \<open>Writing whole contents\<close>

lemma file_truncate_open:
  "\<not> file_bad f \<Longrightarrow> \<not> file_fail f \<Longrightarrow> truncateFile (f_inodeid f) (of_nat len) s = Some (r, t) \<Longrightarrow>
   file_truncate len f s = Some (r = E_SUCCESS, t)"
  by (simp add: file_truncate_def)

lemma fresh_handle:
  "\<not> file_bad (FSFile_new i)" "\<not> file_fail (FSFile_new i)" "f_inodeid (FSFile_new i) = i"
  "f_posg (FSFile_new i) = 0"
  by (simp_all add: FSFile_new_def file_bad_def file_fail_def goodbit_def)

lemma file_open_plain:
  assumes "plain_file (fs_disk s) iid p bs n"
  shows "file_open (FSFile_new iid) s = Some ((FSFile_new iid)\<lparr>f_opened := True\<rparr>, s)"
  using plain_file_node[OF assms] assms
  by (auto simp: file_open_def fresh_handle plain_file_def) (simp_all add: FSFile_new_def)

definition opened_handle :: "u16 \<Rightarrow> fsfile" where
  "opened_handle i = (FSFile_new i)\<lparr>f_opened := True\<rparr>"

lemma opened_handle_fields:
  "file_ready (opened_handle i)" "f_inodeid (opened_handle i) = i" "f_posp (opened_handle i) = 0"
  "f_posg (opened_handle i) = 0" "file_seekp 0 (opened_handle i) = opened_handle i"
  "file_seekg 0 (opened_handle i) = opened_handle i" "\<not> file_fail (opened_handle i)"
  by (simp_all add: opened_handle_def FSFile_new_def file_ready_def goodbit_def file_seekp_def file_seekg_def
      file_bad_def file_fail_def)

lemma ready_handle_good: "file_ready f \<Longrightarrow> \<not> file_fail f"
  by (simp add: file_ready_def file_fail_def)

section \<open>Shrinking inside the last block\<close>

lemma shrink_scan_keep:
  assumes b: "blocks_at (fs_disk s) p bs" and keep: "int (length bs) \<le> keep" and "k \<le> length bs"
  shows "\<exists>q'. shrink_scan p keep (slots_from k) k (fd_seek q s) = Some ((True, length bs), fd_seek q' s)"
  using assms(3)
proof (induction "length bs - k" arbitrary: k q)
  case 0
  then have k: "k = length bs" by simp
  note bd = blocks_atD[OF b]
  have "fd_doR32 0 (fd_seek (unat (p + of_nat (308 + 4 * k))) s) = (0, fd_seek (unat p + (308 + 4 * k) + 4) s)"
    using fd_doR32_slot[OF bd(1,2)] bd(5) by (simp add: k seg_at_def)
  then show ?case using bd(2) by (auto simp: k slots_from_Cons fd_simps simp del: of_nat_add)
next
  case (Suc m)
  note bd = blocks_atD[OF b]
  have k: "k < length bs" "k < 947" using Suc.hyps(2) bd(2) by simp_all
  have ne: "seg_at (fs_disk s) p k \<noteq> 0" using bd(3,4)[OF k(1)] block_okD(5) by (auto simp: seg_at_def)
  have "\<not> keep \<le> int k" using keep k(1) by simp
  then have "shrink_scan p keep (slots_from k) k (fd_seek q s)
    = shrink_scan p keep (slots_from (Suc k)) (Suc k) (fd_seek (unat p + (308 + 4 * k) + 4) s)"
    using ne k(2) fd_doR32_slot[OF bd(1) k(2)] by (simp add: slots_from_Cons fd_simps del: of_nat_add)
  with Suc.hyps(1)[of "Suc k"] Suc.hyps(2) k show ?case by auto
qed

lemma truncateFile_shrink_inside:
  assumes sf: "sound_file (fs_disk s) iid p bs n"
    and shorter: "len < i_dat_len n" and same_blocks: "ceil_blocks len = length bs"
  shows "truncateFile iid len s =
    Some (E_SUCCESS, s\<lparr>fs_disk := disk_seek (fd_tell s) (set_len p len (fs_disk s))\<rparr>)"
proof -
  let ?d = "fs_disk s"
  have s: "lookup_at ?d iid = p" "roomy ?d p bs" "inode_at ?d (unat p) = n" "file_type (i_type n)"
    "i_blocks n = of_nat (length bs)"
    using sf by (simp_all add: sound_file_def)
  have fa: "file_at ?d p bs" using s(2) by (simp add: roomy_def)
  note f = file_atD[OF fa] and p = block_okD[OF file_atD(5)[OF fa]]
  have node: "getINodeByPosition p t = Some (n, t)" if "fs_disk t = disk_seek q ?d" for q t
    using getINodeByPosition_plain[of p t] that s(3,4) p(4) by (auto simp: disk_simps)
  have "unat (i_blocks n) = length bs" using f(6) by (simp add: s(5) unat_of_nat take_bit_eq_mod)
  then have keep: "uint ((ucast (i_blocks n) :: u32) - ucast (i_blocks n - of_nat (ceil_blocks len) :: u16)) = int (length bs)"
    using f(6) by (simp add: s(5) same_blocks unsigned_ucast_eq unsigned_of_nat take_bit_eq_mod)
  obtain q where "shrink_scan p (int (length bs)) (slots_from 0) 0 (fd_seek (fd_tell s) s)
      = Some ((True, length bs), fd_seek q s)"
    using shrink_scan_keep[OF f(1), of "int (length bs)" 0 "fd_tell s"] by auto
  then have sh: "shrink_rounds p (int (length bs)) p HSIZE_FILE 0 s = Some (True, fd_seek q s)"
    using p(5) by (subst shrink_rounds.simps) (simp add: segment_offsets_file fd_simps)
  have len_set: "setFileLengthDirect p len (fd_seek q s) = (E_SUCCESS, (fd_seek q s)\<lparr>fs_disk := set_len p len (disk_seek q ?d)\<rparr>)"
    using setFileLengthDirect_eq[of "fd_seek q s" p len] f(5) s(3,4)
    by (simp add: fd_simps disk_simps block_ok_def)
  let ?t = "(fd_seek q s)\<lparr>fs_disk := set_len p len (disk_seek q ?d)\<rparr>"
  have t: "inode_at (fs_disk ?t) (unat p) = resized len n"
    using inode_at_length_writes[of "disk_seek q ?d" "unat p" "of_nat (ceil_blocks len)" len] s(3,4)
    by (simp add: resized_def set_len_def disk_simps)
  have "getINodeByPosition p ?t = Some (resized len n, ?t)"
    using getINodeByPosition_plain[of p ?t] t p(4) s(4) set_len_facts(1)[of "disk_seek q ?d" p len] f(5)
    by (auto simp: resized_def disk_simps block_ok_def)
  moreover have "ceil_blocks len \<le> 946" using f(6) same_blocks by simp
  then have "unat len \<le> 4096 * 947" using ceil_blocks_bound(2)[of len 946] by simp
  moreover have "unat (i_blocks (resized len n)) \<le> 947"
    using f(6) by (simp add: resized_def same_blocks unat_of_nat take_bit_eq_mod)
  ultimately have info: "allocateInfoListBlocks p len ?t = Some (E_SUCCESS, ?t)"
    by (rule allocateInfoListBlocks_none)
  have st: "seekp_ex (fd_tell s) (seekp_ex (fd_tell s) ?t) = s\<lparr>fs_disk := disk_seek (fd_tell s) (set_len p len ?d)\<rparr>"
    by (simp add: fd_seek_def set_len_def put_bytes_seek disk_simps)
  have "i_dat_len n \<noteq> len" using shorter by auto
  moreover have "getINodeByPosition p s = Some (n, s)"
    using getINodeByPosition_plain[of p s] s(3,4) p(4) by auto
  ultimately show ?thesis
    using s(1,4) sh len_set info shorter keep st
    by (auto simp: truncateFile_def Let_def)
qed

text \<open>The file after its length was cut inside the last block.\<close>

lemma truncateFile_shrink_sound:
  assumes sf: "sound_file (fs_disk s) iid p bs n" and shorter: "len < i_dat_len n" and same_blocks: "ceil_blocks len = length bs"
  obtains e where "truncateFile iid len s = Some (E_SUCCESS, s\<lparr>fs_disk := e\<rparr>)"
    and "sound_file e iid p bs (n\<lparr>i_dat_len := len\<rparr>)" and "dsize e = dsize (fs_disk s)" and "dpos e = dpos (fs_disk s)"
    and "\<And>a. \<not> (unat p \<le> a \<and> a < unat p + 4096) \<Longrightarrow> byte_at e a = byte_at (fs_disk s) a"
proof -
  let ?d = "fs_disk s" and ?e = "disk_seek (fd_tell s) (set_len p len (fs_disk s))"
  have s: "roomy ?d p bs" "inode_at ?d (unat p) = n" "file_type (i_type n)" "i_blocks n = of_nat (length bs)"
    using sf by (simp_all add: sound_file_def)
  have fa: "file_at ?d p bs" using s(1) by (simp add: roomy_def)
  note l = set_len_facts[OF file_atD(5)[OF fa], where len = len]
  have byte: "byte_at ?e a = byte_at ?d a" if "\<not> (unat p \<le> a \<and> a < unat p + 4096)" for a
    using l(2)[of a] that by (auto simp: disk_simps)
  have room: "roomy ?e p bs" unfolding roomy_seek by (rule roomy_cong[OF s(1)]) (use l in auto)
  have node: "inode_at ?e (unat p) = n\<lparr>i_dat_len := len\<rparr>"
    using inode_at_length_writes[of ?d "unat p" "of_nat (ceil_blocks len)" len] s(2-4)
    by (simp add: set_len_def disk_simps same_blocks)
  have "lookup_at ?e = lookup_at ?d"
    by (rule lookup_at_cong) (use byte block_okD(1)[OF file_atD(5)[OF fa]] in \<open>auto simp: config\<close>)
  then have "sound_file ?e iid p bs (n\<lparr>i_dat_len := len\<rparr>)"
    using sf node room by (simp add: sound_file_def same_blocks)
  moreover have "dsize ?e = dsize ?d" "dpos ?e = dpos ?d" using l(1) by (simp_all add: disk_simps fd_tell_def)
  ultimately show ?thesis using that byte truncateFile_shrink_inside[OF assms] by blast
qed

end
