(* ===== verification/FreeList_Frame.thy ===== *)
theory FreeList_Frame
  imports FreeList_Free
begin

text \<open>
  Where releasing a block writes: only into the list blocks, the released block and the
  filesystem's information block. With it, what a sequence of releases keeps: the blocks known to be
  free are those known before and the released ones, each once.
\<close>

section \<open>Changes inside blocks\<close>

definition in_block :: "u32 \<Rightarrow> nat \<Rightarrow> bool" where
  "in_block b a \<longleftrightarrow> unat b \<le> a \<and> a < unat b + 4096"

text \<open>The bytes of \<open>e\<close> are those of \<open>d\<close> but for the information block and the blocks \<open>B\<close>.\<close>

definition changed_in :: "u32 set \<Rightarrow> disk \<Rightarrow> disk \<Rightarrow> bool" where
  "changed_in B d e \<longleftrightarrow> dsize e = dsize d \<and>
     (\<forall>a. byte_at e a \<noteq> byte_at d a \<longrightarrow> (OFFSET_FSINFO \<le> a \<and> a < OFFSET_DATA) \<or> (\<exists>b \<in> B. in_block b a))"

lemma changed_in_refl [simp]: "changed_in B d d"
  by (simp add: changed_in_def)

lemma changed_in_trans:
  assumes "changed_in A d e" and "changed_in B e f"
  shows "changed_in (A \<union> B) d f"
  unfolding changed_in_def
proof (intro conjI allI impI)
  show "dsize f = dsize d" using assms by (simp add: changed_in_def)
  fix a assume "byte_at f a \<noteq> byte_at d a"
  then have "byte_at f a \<noteq> byte_at e a \<or> byte_at e a \<noteq> byte_at d a" by metis
  then show "(OFFSET_FSINFO \<le> a \<and> a < OFFSET_DATA) \<or> (\<exists>b \<in> A \<union> B. in_block b a)"
    using assms unfolding changed_in_def by blast
qed

lemma changed_in_mono: "changed_in A d e \<Longrightarrow> A \<subseteq> B \<Longrightarrow> changed_in B d e"
  unfolding changed_in_def by blast

lemma changed_in_put:
  "b \<in> B \<Longrightarrow> block_ok d b \<Longrightarrow> unat b \<le> p \<Longrightarrow> p + length xs \<le> unat b + 4096 \<Longrightarrow> changed_in B d (put_bytes p xs d)"
  using block_okD(4)[of d b]
  unfolding changed_in_def by (auto simp: byte_at_put_bytes in_block_def intro!: bexI[of _ b] split: if_splits)

lemma changed_in_fsinfo: "length xs \<le> 4096 \<Longrightarrow> OFFSET_DATA \<le> dsize d \<Longrightarrow> changed_in B d (put_bytes OFFSET_FSINFO xs d)"
  by (auto simp: changed_in_def byte_at_put_bytes config split: if_splits)

lemma in_block_unique:
  "unat b mod 4096 = 0 \<Longrightarrow> unat c mod 4096 = 0 \<Longrightarrow> in_block b a \<Longrightarrow> in_block c a \<Longrightarrow> b = c"
  using aligned_apart[of b c] by (cases "b = c") (auto simp: in_block_def)

lemma changed_in_same:
  assumes "changed_in B d e" and "\<forall>b \<in> B. block_ok d b" and "block_ok d q" and "q \<notin> B" and "in_block q a"
  shows "byte_at e a = byte_at d a"
proof (rule ccontr)
  assume "byte_at e a \<noteq> byte_at d a"
  then have "(OFFSET_FSINFO \<le> a \<and> a < OFFSET_DATA) \<or> (\<exists>b \<in> B. in_block b a)" using assms(1) by (simp add: changed_in_def)
  moreover have "OFFSET_DATA \<le> a" using block_okD(1)[OF assms(3)] assms(5) by (simp add: in_block_def)
  ultimately obtain b where "b \<in> B" "in_block b a" by auto
  then show False using in_block_unique[of b q a] assms(2-5) block_okD(3) by metis
qed

lemma changed_in_inode:
  assumes "changed_in B d e" and "\<forall>b \<in> B. block_ok d b" and "block_ok d q" and "q \<notin> B"
  shows "inode_at e (unat q) = inode_at d (unat q)"
  by (rule inode_at_cong) (use changed_in_same[OF assms] in \<open>simp add: in_block_def\<close>)

lemma changed_in_lookup:
  assumes "changed_in B d e" and "\<forall>b \<in> B. block_ok d b"
  shows "lookup_at e = lookup_at d"
proof
  fix i
  have "byte_at e a = byte_at d a" if a: "a < lookup_addr i + 4" for a
  proof (rule ccontr)
    assume "byte_at e a \<noteq> byte_at d a"
    then have "OFFSET_FSINFO \<le> a"
      using assms block_okD(1) by (fastforce simp: changed_in_def in_block_def config)
    then show False using a lookup_addr_bounds(2)[of i] by (simp add: config)
  qed
  then have "slice (byte_at e) (lookup_addr i) 4 = slice (byte_at d) (lookup_addr i) 4"
    by (intro slice_cong) simp
  then show "lookup_at e i = lookup_at d i" by (simp add: lookup_at_def u32_at_def)
qed

lemma changed_in_block_ok: "changed_in B d e \<Longrightarrow> block_ok e b = block_ok d b"
  by (simp add: changed_in_def block_ok_def)

section \<open>One release\<close>

lemma freeBlock_changes:
  assumes inv: "fl_inv s bs" and pos: "block_ok (fs_disk s) pos" and new: "pos \<notin> set bs"
    and run: "freeBlock pos s = Some s'"
  shows "changed_in (insert pos (set bs)) (fs_disk s) (fs_disk s')" "fs_clock s' = fs_clock s" "fs_ticks s' = fs_ticks s"
    "fs_reserved s' = fs_reserved s \<or> fs_reserved s' = remove1 0 (fs_reserved s)"
proof -
  let ?d = "fs_disk s"
  have info: "fsinfo_ok ?d" and chain: "fl_chain ?d (fl_head ?d) bs" using inv by (auto simp: fl_inv_def)
  have valid: "checkINodePositionIsValid pos = E_SUCCESS" using pos by (simp add: block_ok_def)
  have img: "changed_in (insert pos (set bs)) ?d (put_bytes (unat pos) (block_image (new_inode 0 INT_FREELIST)) ?d)"
    by (rule changed_in_put[of pos]) (simp_all add: length_freelist_image pos)
  have "changed_in (insert pos (set bs)) ?d (fs_disk s') \<and> fs_clock s' = fs_clock s \<and> fs_ticks s' = fs_ticks s \<and>
    (fs_reserved s' = fs_reserved s \<or> fs_reserved s' = remove1 0 (fs_reserved s))"
  proof (cases "first_slot ?d bs 0")
    case (Some a)
    obtain b where b: "b \<in> set bs" "a \<in> set (slot_addrs b)" "block_ok ?d b"
      using first_slotD[OF Some chain] by blast
    obtain i where "unat a = unat b + i" "8 \<le> i" "i + 4 \<le> 4096" using slot_of_block[OF b(2,3)] by blast
    then have "changed_in (insert pos (set bs)) ?d (put_bytes (unat a) (enc32 pos) ?d)"
      using b(1) by (intro changed_in_put[of b]) (simp_all add: b(3))
    then show ?thesis using run freeBlock_slot[OF info chain Some, of pos] by (auto simp: fd_simps)
  next
    case None
    show ?thesis
    proof (cases "bs = []")
      case True
      have head: "fl_head ?d = 0" using chain True by simp
      have sz: "OFFSET_DATA \<le> dsize (put_bytes (unat pos) (block_image (new_inode 0 INT_FREELIST)) ?d)"
        using info by (auto simp: fsinfo_ok_def)
      note len = fsinfo_written(1)[OF info sz, of pos]
      show ?thesis
        using run freeBlock_first[OF info head valid] changed_in_trans[OF img changed_in_fsinfo[OF _ sz, where B = "insert pos (set bs)"]] len
        by (auto simp: fd_simps)
    next
      case False
      have l: "block_ok ?d (last bs)" "type_of_code (u16_at ?d (unat (last bs) + 2)) = INT_FREELIST"
        using False fl_chain_block_ok[OF chain] fl_chain_type[OF chain] by auto
      let ?n = "inode_at ?d (unat (last bs))"
      have "length (getBinaryRepresentation (?n\<lparr>i_flst_next := pos\<rparr>)) = 8"
        using get_list_block(3)[OF l] by (simp add: freelist_repr)
      then have "changed_in (insert pos (set bs)) e
          (put_bytes (unat (last bs)) (getBinaryRepresentation (?n\<lparr>i_flst_next := pos\<rparr>)) e)" if "block_ok e (last bs)" for e
        using False that by (intro changed_in_put[of "last bs"]) simp_all
      from changed_in_trans[OF img this] changed_in_block_ok[OF img] l(1) show ?thesis
        using run freeBlock_last[OF info chain False None valid new] by (auto simp: Let_def fd_simps)
    qed
  qed
  then show "changed_in (insert pos (set bs)) (fs_disk s) (fs_disk s')" "fs_clock s' = fs_clock s" "fs_ticks s' = fs_ticks s"
    "fs_reserved s' = fs_reserved s \<or> fs_reserved s' = remove1 0 (fs_reserved s)" by auto
qed

section \<open>Sequences of releases\<close>

text \<open>The blocks that are not in use: those of the list itself and those it offers.\<close>

definition free_blocks :: "fsys \<Rightarrow> u32 list \<Rightarrow> u32 list" where
  "free_blocks s bs = bs @ map snd (fs_cache s)"

definition free_inv :: "fsys \<Rightarrow> u32 list \<Rightarrow> bool" where
  "free_inv s bs \<longleftrightarrow> fl_inv s bs \<and> distinct (free_blocks s bs) \<and> (\<forall>b \<in> set (free_blocks s bs). block_ok (fs_disk s) b)"

text \<open>The blocks \<open>F\<close> have been released, and only they, list blocks and the blocks \<open>C\<close> have changed.\<close>

definition released :: "fsys \<Rightarrow> u32 list \<Rightarrow> u32 set \<Rightarrow> u32 set \<Rightarrow> fsys \<Rightarrow> u32 list \<Rightarrow> bool" where
  "released s bs F C s' bs' \<longleftrightarrow>
     free_inv s' bs' \<and> set (free_blocks s' bs') = set (free_blocks s bs) \<union> F \<and> set bs' \<subseteq> set bs \<union> F \<and>
     changed_in (F \<union> C \<union> set bs) (fs_disk s) (fs_disk s') \<and> fs_clock s' = fs_clock s \<and> fs_ticks s' = fs_ticks s \<and>
     set (fs_reserved s') \<subseteq> set (fs_reserved s)"

lemma distinct_map_snd:
  assumes "sorted_map xs" and "sorted_map ys" and "set ys = insert (a, b) (set xs)" and "distinct (map snd xs)"
    and "b \<notin> snd ` set xs"
  shows "distinct (map snd ys)"
proof -
  have "inj_on snd (set xs)" using assms(4) by (simp add: distinct_map)
  then have "inj_on snd (set ys)" unfolding assms(3) using assms(5) by (auto simp: inj_on_def)
  moreover have "distinct ys" using assms(2) by (simp add: sorted_map_def distinct_map)
  ultimately show ?thesis by (simp add: distinct_map)
qed

lemma release_one:
  assumes inv: "free_inv s bs" and pos: "block_ok (fs_disk s) pos" and new: "pos \<notin> set (free_blocks s bs)"
  shows "\<exists>s' bs'. freeBlock pos s = Some s' \<and> released s bs {pos} {} s' bs'"
proof -
  have fl: "fl_inv s bs" and dist: "distinct (free_blocks s bs)"
    and ok: "\<forall>b \<in> set (free_blocks s bs). block_ok (fs_disk s) b" using inv by (auto simp: free_inv_def)
  have new': "pos \<notin> set bs" "pos \<notin> snd ` set (fs_cache s)" using new by (auto simp: free_blocks_def)
  obtain s' bs' where s': "freeBlock pos s = Some s'" "fl_inv s' bs'" and
    alt: "bs' = bs \<and> (\<exists>a. set (fs_cache s') = insert (a, pos) (set (fs_cache s))) \<or> bs' = bs @ [pos] \<and> fs_cache s' = fs_cache s"
    using freeBlock_inv[OF fl pos new'(1)] by metis
  note ch = freeBlock_changes[OF fl pos new'(1) s'(1)]
  have "distinct (free_blocks s' bs') \<and> set (free_blocks s' bs') = insert pos (set (free_blocks s bs)) \<and> set bs' \<subseteq> insert pos (set bs)"
    using alt
  proof
    assume "bs' = bs \<and> (\<exists>a. set (fs_cache s') = insert (a, pos) (set (fs_cache s)))"
    then obtain a where a: "bs' = bs" "set (fs_cache s') = insert (a, pos) (set (fs_cache s))" by blast
    have "distinct (map snd (fs_cache s'))"
      by (rule distinct_map_snd[OF _ _ a(2)]) (use fl s'(2) dist new'(2) in \<open>auto simp: fl_inv_def free_blocks_def\<close>)
    then show ?thesis using dist new' by (auto simp: free_blocks_def a)
  next
    assume "bs' = bs @ [pos] \<and> fs_cache s' = fs_cache s"
    then show ?thesis using dist new' by (auto simp: free_blocks_def)
  qed
  moreover have "set (fs_reserved s') \<subseteq> set (fs_reserved s)" using ch(4) set_remove1_subset by fastforce
  moreover have "block_ok (fs_disk s') b" if "b \<in> insert pos (set (free_blocks s bs))" for b
    using that ok pos changed_in_block_ok[OF ch(1)] by auto
  ultimately show ?thesis
    using s' ch(1-3) by (auto simp: released_def free_inv_def)
qed

lemma released_more:
  assumes "released s bs F C t cs" and "released t cs G D u ds"
  shows "released s bs (F \<union> G) (C \<union> D) u ds"
proof -
  have "changed_in ((F \<union> C \<union> set bs) \<union> (G \<union> D \<union> set cs)) (fs_disk s) (fs_disk u)"
    by (rule changed_in_trans[of _ _ "fs_disk t"]) (use assms in \<open>simp_all add: released_def\<close>)
  then have "changed_in (F \<union> G \<union> (C \<union> D) \<union> set bs) (fs_disk s) (fs_disk u)"
    by (rule changed_in_mono) (use assms in \<open>auto simp: released_def\<close>)
  then show ?thesis using assms by (auto simp: released_def)
qed

text \<open>
  \<^verbatim>\<open>FreeList::isBlockFree\<close> looks the block up among the slots, so it holds of no block, and \<^verbatim>\<open>resetBlock\<close>
  always releases.
\<close>

lemma isBlockFree_slots:
  assumes "fl_inv s bs" and "unat pos mod 4096 = 0"
  shows "\<not> isBlockFree pos s"
proof
  assume "isBlockFree pos s"
  then obtain b where "(pos, b) \<in> set (fs_cache s)" by (auto simp: isBlockFree_def)
  then have "pos \<in> set (fl_slots bs)" using assms(1) by (auto simp: fl_inv_def disk_entries_def)
  then obtain c where c: "c \<in> set bs" "pos \<in> set (slot_addrs c)" by (auto simp: fl_slots_def)
  have ok: "block_ok (fs_disk s) c" using assms(1) c(1) fl_chain_block_ok by (auto simp: fl_inv_def)
  obtain i where i: "unat pos = unat c + i" "8 \<le> i" "i + 4 \<le> 4096" using slot_of_block[OF c(2) ok] by blast
  have "unat pos mod 4096 = i" using i block_okD(3)[OF ok] by (simp add: mod_add_eq[symmetric])
  then show False using assms(2) i(2) by simp
qed

section \<open>What stays of a block\<close>

definition kept :: "disk \<Rightarrow> disk \<Rightarrow> u32 \<Rightarrow> bool" where
  "kept d e q \<longleftrightarrow> (\<forall>a. in_block q a \<longrightarrow> byte_at e a = byte_at d a)"

lemma kept_trans: "kept d e q \<Longrightarrow> kept e f q \<Longrightarrow> kept d f q"
  by (simp add: kept_def)

lemma kept_inode: "kept d e q \<Longrightarrow> inode_at e (unat q) = inode_at d (unat q)"
  by (rule inode_at_cong) (simp add: kept_def in_block_def)

lemma changed_in_kept:
  "changed_in B d e \<Longrightarrow> \<forall>b \<in> B. block_ok d b \<Longrightarrow> block_ok d q \<Longrightarrow> q \<notin> B \<Longrightarrow> kept d e q"
  unfolding kept_def using changed_in_same by blast

text \<open>The free list needs only its blocks, its cache and the information block.\<close>

lemma free_inv_frame:
  assumes inv: "free_inv s bs" and keep: "\<forall>b \<in> set bs. kept (fs_disk s) (fs_disk s') b"
    and info: "\<forall>a. OFFSET_FSINFO \<le> a \<and> a < OFFSET_DATA \<longrightarrow> byte_at (fs_disk s') a = byte_at (fs_disk s) a"
    and size: "dsize (fs_disk s) \<le> dsize (fs_disk s')" and cache: "fs_cache s' = drop k (fs_cache s)"
  shows "free_inv s' bs"
proof -
  let ?d = "fs_disk s" and ?e = "fs_disk s'"
  have fl: "fl_inv s bs" using inv by (simp add: free_inv_def)
  have chain: "fl_chain ?d (fl_head ?d) bs" using fl by (simp add: fl_inv_def)
  have at: "u16_at ?e (OFFSET_FSINFO + 2) = u16_at ?d (OFFSET_FSINFO + 2)" "fl_head ?e = fl_head ?d"
    unfolding fl_head_def u16_at_def u32_at_def using info
    by (intro arg_cong[where f = le_dec] slice_cong; simp add: config)+
  have "u32_at ?e (unat a) = u32_at ?d (unat a)" if a: "a \<in> set (fl_slots bs)" for a
  proof -
    obtain b where b: "b \<in> set bs" "a \<in> set (slot_addrs b)" using a by (auto simp: fl_slots_def)
    obtain i where "unat a = unat b + i" "i + 4 \<le> 4096"
      using slot_of_block[OF b(2) fl_chain_block_ok[OF chain b(1)]] by blast
    then show ?thesis
      using keep b(1) unfolding u32_at_def
      by (intro arg_cong[where f = le_dec] slice_cong) (auto simp: kept_def in_block_def)
  qed
  then have ent: "disk_entries ?e (fl_slots bs) = disk_entries ?d (fl_slots bs)" by (rule disk_entries_cong)
  have chain': "fl_chain ?e (fl_head ?e) bs"
    unfolding at(2) by (rule fl_chain_cong[OF chain size]) (use keep in \<open>auto simp: kept_def in_block_def\<close>)
  have bok: "block_ok ?e b" if "block_ok ?d b" for b using that size by (simp add: block_ok_def)
  have "fsinfo_ok ?e" using fl at(1) size by (simp add: fl_inv_def fsinfo_ok_def)
  moreover have sub: "set (fs_cache s') \<subseteq> set (fs_cache s)" "sorted_map (fs_cache s')"
    using fl set_drop_subset[of k "fs_cache s"]
    by (simp_all add: cache fl_inv_def sorted_map_def drop_map[symmetric] sorted_wrt_drop)
  ultimately have fl': "fl_inv s' bs" using fl chain' ent by (auto simp: fl_inv_def)
  have "snd ` set (fs_cache s') \<subseteq> snd ` set (fs_cache s)" using sub(1) by blast
  moreover have "distinct (map snd (fs_cache s'))"
    using inv by (simp add: free_inv_def free_blocks_def cache drop_map[symmetric])
  moreover have "set (free_blocks s' bs) \<subseteq> set (free_blocks s bs)" using sub(1) by (auto simp: free_blocks_def)
  then have "\<forall>b \<in> set (free_blocks s' bs). block_ok ?e b" using inv bok unfolding free_inv_def by blast
  ultimately show ?thesis using inv fl' by (auto simp: free_inv_def free_blocks_def)
qed

lemma released_refl:
  assumes inv: "free_inv s bs" and ch: "changed_in C (fs_disk s) (fs_disk s')"
    and C: "\<forall>c \<in> C. block_ok (fs_disk s) c \<and> c \<notin> set bs"
    and info: "\<forall>a. OFFSET_FSINFO \<le> a \<and> a < OFFSET_DATA \<longrightarrow> byte_at (fs_disk s') a = byte_at (fs_disk s) a"
    and rest: "fs_cache s' = fs_cache s" "fs_clock s' = fs_clock s" "fs_ticks s' = fs_ticks s" "fs_reserved s' = fs_reserved s"
  shows "released s bs {} C s' bs"
proof -
  have "\<forall>b \<in> set bs. kept (fs_disk s) (fs_disk s') b"
    using changed_in_kept[OF ch] C inv by (auto simp: free_inv_def free_blocks_def)
  then have "free_inv s' bs"
    by (rule free_inv_frame[OF inv _ info, where k = 0]) (use ch rest in \<open>simp_all add: changed_in_def\<close>)
  then show ?thesis
    using ch rest by (auto simp: released_def free_blocks_def intro: changed_in_mono[OF ch])
qed

end
