(* ===== verification/FSFile_Shrink.thy ===== *)
theory FSFile_Shrink
  imports FSFile_Grow FreeList_Frame
begin

text \<open>
  \<^verbatim>\<open>FS::truncateFile\<close> (\<^verbatim>\<open>libapp/lowlevel/fs.cpp\<close>) to a smaller length: the loop over the slots of the file's
  block clears those the length does not need and gives their blocks back to the free list.
\<close>

lemma resetBlock_released:
  assumes inv: "free_inv s bs" and pos: "block_ok (fs_disk s) pos" and new: "pos \<notin> set (free_blocks s bs)"
  shows "\<exists>s' bs'. resetBlock pos s = Some (E_SUCCESS, s') \<and> released s bs {pos} {} s' bs'"
proof -
  have "\<not> isBlockFree pos s" using isBlockFree_slots[OF _ block_okD(3)[OF pos]] inv by (auto simp: free_inv_def)
  then show ?thesis using release_one[OF inv pos new] block_okD(3)[OF pos] by (auto simp: resetBlock_def)
qed

lemma released_seek: "free_inv s bs \<Longrightarrow> released s bs {} {} (fd_seek q s) bs"
  by (rule released_refl) (simp_all add: fd_simps disk_simps changed_in_def)

lemma kept_seg: "kept d e q \<Longrightarrow> k < 947 \<Longrightarrow> seg_at e q k = seg_at d q k"
  unfolding seg_at_def u32_at_def
  by (intro arg_cong[where f = le_dec] slice_cong) (simp add: kept_def in_block_def)

lemma put_outside_seg:
  "q + length xs \<le> unat p + (308 + 4 * k) \<or> unat p + (308 + 4 * k) + 4 \<le> q \<Longrightarrow> seg_at (put_bytes q xs d) p k = seg_at d p k"
  unfolding seg_at_def by (rule u32_at_put_other)

text \<open>The slots from \<open>k\<close> on hold \<open>fs\<close> and then 0.\<close>

definition slots_hold :: "disk \<Rightarrow> u32 \<Rightarrow> nat \<Rightarrow> u32 list \<Rightarrow> bool" where
  "slots_hold d p k fs \<longleftrightarrow> k + length fs < 947 \<and> (\<forall>i < length fs. seg_at d p (k + i) = fs ! i) \<and> seg_at d p (k + length fs) = 0"

lemma slots_hold_Cons: "slots_hold d p k (b # fs) \<Longrightarrow> seg_at d p k = b \<and> slots_hold d p (Suc k) fs"
  by (fastforce simp: slots_hold_def)

text \<open>The slots before the first one to erase are only read.\<close>

lemma shrink_scan_skip:
  assumes p: "block_ok (fs_disk s) p" and "slots_hold (fs_disk s) p k (fs @ gs)" and "0 \<notin> set fs" and "int (k + length fs) \<le> keep"
  shows "\<exists>q'. shrink_scan p keep (slots_from k) k (fd_seek q s) =
    shrink_scan p keep (slots_from (k + length fs)) (k + length fs) (fd_seek q' s)"
  using assms(2-)
proof (induction fs arbitrary: k q)
  case (Cons b fs)
  note c = slots_hold_Cons[of "fs_disk s" p k b "fs @ gs"]
  have k: "k < 947" "int k < keep" using Cons.prems(1,3) by (simp_all add: slots_hold_def)
  have seg: "seg_at (fs_disk s) p k = b" and slots: "slots_hold (fs_disk s) p (Suc k) (fs @ gs)" using c Cons.prems(1) by simp_all
  have "shrink_scan p keep (slots_from k) k (fd_seek q s) =
      shrink_scan p keep (slots_from (Suc k)) (Suc k) (fd_seek (unat p + (308 + 4 * k) + 4) s)"
    using fd_doR32_slot[OF p k(1)] k seg Cons.prems(2) by (auto simp: slots_from_Cons fd_simps Let_def simp del: of_nat_add)
  then show ?case using Cons.IH[OF slots, of "unat p + (308 + 4 * k) + 4"] Cons.prems(2,3) by simp
qed (auto intro: exI)

text \<open>From the slot \<open>k\<close> on each block is taken from its slot and given back; what is before the slots stays.\<close>

definition slots_cleared :: "disk \<Rightarrow> disk \<Rightarrow> u32 \<Rightarrow> nat \<Rightarrow> nat \<Rightarrow> bool" where
  "slots_cleared d e p k m \<longleftrightarrow> (\<forall>a. unat p \<le> a \<and> a < unat p + 308 \<longrightarrow> byte_at e a = byte_at d a) \<and>
     (\<forall>j < 947. seg_at e p j = (if k \<le> j \<and> j < k + m then 0 else seg_at d p j))"

lemma shrink_scan_release:
  assumes "free_inv s bs" and "block_ok (fs_disk s) p" and "p \<notin> set (free_blocks s bs)"
    and "slots_hold (fs_disk s) p k fs" and "distinct (p # fs)"
    and "\<forall>b \<in> set fs. block_ok (fs_disk s) b \<and> b \<notin> set (free_blocks s bs)" and "keep \<le> int k"
  shows "\<exists>t cs. shrink_scan p keep (slots_from k) k (fd_seek q s) = Some ((True, k + length fs), t) \<and>
    released s bs (set fs) {p} t cs \<and> slots_cleared (fs_disk s) (fs_disk t) p k (length fs)"
  using assms
proof (induction fs arbitrary: k s bs q)
  case Nil
  have k: "k < 947" "seg_at (fs_disk s) p k = 0" using Nil(4) by (simp_all add: slots_hold_def)
  have "shrink_scan p keep (slots_from k) k (fd_seek q s) = Some ((True, k), fd_seek (unat p + (308 + 4 * k) + 4) s)"
    using fd_doR32_slot[OF Nil(2) k(1)] k by (simp add: slots_from_Cons fd_simps del: of_nat_add)
  moreover have "released s bs {} {p} (fd_seek q' s) bs" for q'
    by (rule released_refl[OF Nil(1)]) (use Nil(2,3) in \<open>auto simp: fd_simps disk_simps changed_in_def free_blocks_def\<close>)
  moreover have "slots_cleared (fs_disk s) (fs_disk (fd_seek q' s)) p k 0" for q'
    by (auto simp: slots_cleared_def fd_simps disk_simps seg_at_def)
  ultimately show ?case by auto
next
  case (Cons b fs)
  let ?d = "fs_disk s" and ?P = "unat p + (308 + 4 * k)"
  let ?s1 = "fd_seek (?P + 4) (fs_put ?P (enc32 0) s)"
  note c = slots_hold_Cons[OF Cons.prems(4)]
  have k: "k < 947" "k + length fs < 946" using Cons.prems(4) by (simp_all add: slots_hold_def)
  have b: "block_ok ?d b" "b \<notin> set (free_blocks s bs)" "b \<noteq> p" "b \<notin> set fs" using Cons.prems(5,6) by auto
  have pbs: "p \<notin> set bs" using Cons.prems(3) by (simp add: free_blocks_def)
  have u: "unat (p + of_nat (308 + 4 * k)) = ?P" using k by (intro unat_block_plus[OF Cons.prems(2)]) simp
  have rd: "fd_doR32 0 (fd_seek ?P s) = (b, fd_seek (?P + 4) s)"
    using fd_doR32_slot[OF Cons.prems(2) k(1)] c unfolding u by simp
  have ch1: "changed_in {p} ?d (fs_disk ?s1)"
    using changed_in_put[of p "{p}" ?d ?P "enc32 0"] Cons.prems(2) k(1) by (simp add: fd_simps disk_simps changed_in_def)
  have r1: "released s bs {} {p} ?s1 bs"
    by (rule released_refl[OF Cons.prems(1) ch1])
       (use Cons.prems(2) pbs block_okD(1)[OF Cons.prems(2)] in \<open>auto simp: fd_simps disk_simps byte_at_put_bytes\<close>)
  have f1: "free_inv ?s1 bs" "free_blocks ?s1 bs = free_blocks s bs"
    using r1 by (simp_all add: released_def free_blocks_def fd_simps)
  obtain t cs where t: "resetBlock b ?s1 = Some (E_SUCCESS, t)" "released ?s1 bs {b} {} t cs"
    using resetBlock_released[OF f1(1), of b] b f1(2) changed_in_block_ok[OF ch1] by auto
  have r2: "released s bs {b} {p} t cs" using released_more[OF r1 t(2)] by simp
  have ft: "free_inv t cs" "set (free_blocks t cs) = insert b (set (free_blocks s bs))"
    "changed_in ({b} \<union> set bs) (fs_disk ?s1) (fs_disk t)" "changed_in (insert b (insert p (set bs))) ?d (fs_disk t)"
    using r2 t(2) by (simp_all add: released_def insert_commute)
  have bok: "block_ok (fs_disk t) x = block_ok ?d x" for x by (rule changed_in_block_ok[OF ft(4)])
  have kp: "kept (fs_disk ?s1) (fs_disk t) p"
    by (rule changed_in_kept[OF ft(3)])
       (use f1(1) b Cons.prems(2) pbs changed_in_block_ok[OF ch1] in \<open>auto simp: free_inv_def free_blocks_def\<close>)
  have one: "slots_cleared ?d (fs_disk t) p k 1"
    unfolding slots_cleared_def
  proof (intro conjI allI impI)
    fix a assume "unat p \<le> a \<and> a < unat p + 308"
    then show "byte_at (fs_disk t) a = byte_at ?d a"
      using kp by (auto simp: kept_def in_block_def fd_simps disk_simps byte_at_put_bytes)
  next
    fix j :: nat assume j: "j < 947"
    have "seg_at (fs_disk ?s1) p j = (if j = k then 0 else seg_at ?d p j)"
    proof (cases "j = k")
      case True
      then show ?thesis by (simp add: fd_simps disk_simps seg_at_def u32_at_put_same add.assoc)
    next
      case False
      then have "?P + length (enc32 0) \<le> unat p + (308 + 4 * j) \<or> unat p + (308 + 4 * j) + 4 \<le> ?P" by auto
      from put_outside_seg[OF this, of ?d] show ?thesis using False by (simp add: fd_simps disk_simps seg_at_def)
    qed
    then show "seg_at (fs_disk t) p j = (if k \<le> j \<and> j < k + 1 then 0 else seg_at ?d p j)"
      using kept_seg[OF kp j] by auto
  qed
  have slots: "slots_hold (fs_disk t) p (Suc k) fs" using c k one by (simp add: slots_hold_def slots_cleared_def)
  have "fd_seek (fd_tell t) t = t" by (simp add: fd_seek_def fd_tell_def disk_seek_def)
  then obtain t' cs' where t': "shrink_scan p keep (slots_from (Suc k)) (Suc k) t = Some ((True, Suc k + length fs), t')"
    "released t cs (set fs) {p} t' cs'" "slots_cleared (fs_disk t) (fs_disk t') p (Suc k) (length fs)"
    using Cons.IH[OF ft(1) _ _ slots, of "fd_tell t"] Cons.prems b(4) by (auto simp: bok ft(2))
  have "shrink_scan p keep (slots_from k) k (fd_seek q s) = shrink_scan p keep (slots_from (Suc k)) (Suc k) t"
    using rd t(1) u k(1) block_okD(5)[OF b(1)] Cons.prems(7)
    by (simp add: slots_from_Cons fd_simps disk_simps Let_def del: of_nat_add)
  moreover have "released s bs (set (b # fs)) {p} t' cs'" using released_more[OF r2 t'(2)] by simp
  moreover have "slots_cleared ?d (fs_disk t') p k (length (b # fs))"
    using one t'(3) by (auto simp: slots_cleared_def)
  ultimately show ?case using t'(1) by (intro exI[of _ t'] exI[of _ cs']) simp
qed

text \<open>Cutting a file to a smaller length: the blocks behind those the length needs are given back.\<close>

lemma truncateFile_cut:
  assumes sf: "sound_file (fs_disk s) iid p fs n" and inv: "free_inv s bs" and p: "p \<notin> set (free_blocks s bs)"
    and data: "\<forall>b \<in> set fs. b \<notin> set (free_blocks s bs)" and shorter: "len < i_dat_len n"
  shows "\<exists>t cs. truncateFile iid len s = Some (E_SUCCESS, t) \<and>
    released s bs (set (drop (ceil_blocks len) fs)) {p} t cs \<and> inode_at (fs_disk t) (unat p) = resized len n \<and>
    roomy (fs_disk t) p (take (ceil_blocks len) fs)"
proof -
  let ?d = "fs_disk s" and ?k = "ceil_blocks len"
  let ?new = "take ?k fs" and ?old = "drop ?k fs"
  have s: "lookup_at ?d iid = p" "roomy ?d p fs" "inode_at ?d (unat p) = n" "file_type (i_type n)" "i_blocks n = of_nat (length fs)"
    "length fs = ceil_blocks (i_dat_len n)"
    using sf by (simp_all add: sound_file_def)
  have fa: "file_at ?d p fs" using s(2) by (simp add: roomy_def)
  note f = file_atD[OF fa]
  have k: "?k \<le> length fs" using ceil_blocks_mono[of len "i_dat_len n"] shorter s(6) by simp
  have keep: "uint ((ucast (i_blocks n) :: u32) - ucast (i_blocks n - of_nat ?k :: u16)) = int ?k"
  proof -
    have uc: "unat (ucast w :: u32) = unat w" for w :: u16
      using unsigned_less[of w, where 'a = nat] by (simp add: unsigned_ucast_eq take_bit_nat_eq_self)
    have u: "unat (i_blocks n) = length fs" "unat (of_nat ?k :: u16) = ?k"
      using s(5) f(6) k by (simp_all add: unat_of_nat take_bit_nat_eq_self)
    have "(of_nat ?k :: u16) \<le> i_blocks n" using k u by (simp add: word_le_nat_alt)
    then have d: "unat (i_blocks n - of_nat ?k) = length fs - ?k" using u by (simp add: unat_sub)
    have "(ucast (i_blocks n - of_nat ?k :: u16) :: u32) \<le> ucast (i_blocks n)"
      using d u f(6) by (simp add: word_le_nat_alt uc)
    then have "unat ((ucast (i_blocks n) :: u32) - ucast (i_blocks n - of_nat ?k :: u16)) = ?k"
      using d u f(6) k by (simp add: unat_sub uc)
    then show ?thesis by (simp only: uint_nat)
  qed
  have sl: "slots_hold ?d p 0 (?new @ ?old)" using f(1) by (auto simp: slots_hold_def blocks_at_def)
  have sl': "slots_hold ?d p ?k ?old" using f(1) k by (auto simp: slots_hold_def blocks_at_def)
  have ln: "length ?new = ?k" using k by simp
  have "0 \<notin> set ?new" using f(4) block_okD(5) by (metis in_set_takeD)
  then obtain q where skip: "shrink_scan p (int ?k) (slots_from 0) 0 s = shrink_scan p (int ?k) (slots_from ?k) ?k (fd_seek q s)"
    using shrink_scan_skip[OF f(5) sl, of "int ?k" "fd_tell s"] ln by (auto simp: fd_seek_def fd_tell_def disk_seek_def)
  have dist: "distinct (p # ?old)" and dat: "\<forall>b \<in> set ?old. block_ok ?d b \<and> b \<notin> set (free_blocks s bs)"
    using f(2-4) data by (auto dest: in_set_dropD)
  obtain t cs where t: "shrink_scan p (int ?k) (slots_from 0) 0 s = Some ((True, ?k + length ?old), t)"
    "released s bs (set ?old) {p} t cs" "slots_cleared ?d (fs_disk t) p ?k (length ?old)"
    using shrink_scan_release[OF inv f(5) p sl' dist dat, of "int ?k" q] unfolding skip by auto
  have sh: "shrink_rounds p (int ?k) p HSIZE_FILE 0 s = Some (True, t)"
    using t(1) block_okD(5)[OF f(5)] by (subst shrink_rounds.simps) (simp add: segment_offsets_file)
  have ch: "changed_in (set ?old \<union> {p} \<union> set bs) ?d (fs_disk t)" and tinv: "free_inv t cs"
    and fb: "set (free_blocks t cs) = set (free_blocks s bs) \<union> set ?old" using t(2) by (simp_all add: released_def)
  have bok: "block_ok (fs_disk t) x = block_ok ?d x" for x by (rule changed_in_block_ok[OF ch])
  have tok: "block_ok (fs_disk t) p" using f(5) bok by simp
  have tn: "inode_at (fs_disk t) (unat p) = n"
    using inode_at_file_cong[of "unat p" "fs_disk t" ?d] t(3) s(3,4) by (auto simp: slots_cleared_def)
  have seg: "seg_at (fs_disk t) p j = (if j < ?k then fs ! j else 0)" if "j < 947" for j
    using t(3) that s(2) f(1) k by (auto simp: slots_cleared_def roomy_def blocks_at_def)
  have tr: "roomy (fs_disk t) p ?new"
    using tok f k seg by (auto simp: roomy_def file_at_def blocks_at_def bok dest: in_set_takeD)
  let ?u = "t\<lparr>fs_disk := set_len p len (fs_disk t)\<rparr>"
  have set_len: "setFileLengthDirect p len t = (E_SUCCESS, ?u)" using setFileLengthDirect_eq[of t p len] tok tn s(4) by simp
  note lf = set_len_facts[OF tok, where len = len]
  have un: "inode_at (fs_disk ?u) (unat p) = resized len n"
    using inode_at_length_writes[of "fs_disk t" "unat p" "of_nat ?k" len] s(4) tn
    by (simp add: resized_def set_len_def)
  have uok: "block_ok (fs_disk ?u) p" using tok lf(1) by (simp add: block_ok_def)
  have node: "getINodeByPosition p t = Some (inode_at (fs_disk t) (unat p), t)"
    if "file_type (i_type (inode_at (fs_disk t) (unat p)))" "block_ok (fs_disk t) p" for t
    using getINodeByPosition_plain[of p t] that block_okD(4) by auto
  have "getINodeByPosition p ?u = Some (resized len n, ?u)"
    using node[of ?u] un uok s(4) by (simp add: resized_def)
  moreover have len: "unat len \<le> 4096 * 947" "unat (i_blocks (resized len n)) \<le> 947"
    using ceil_blocks_bound(2)[of len 947] k f(6) by (simp_all add: resized_def unat_of_nat take_bit_nat_eq_self)
  ultimately have info: "allocateInfoListBlocks p len ?u = Some (E_SUCCESS, ?u)"
    by (rule allocateInfoListBlocks_none)
  let ?v = "fd_seek (fd_tell s) (fd_seek (fd_tell s) ?u)"
  have run: "truncateFile iid len s = Some (E_SUCCESS, ?v)"
    using node[of s] s(1,3,4) f(5) keep sh set_len info shorter
    by (auto simp: truncateFile_def Let_def)
  have pcs: "p \<notin> set (free_blocks t cs)" using fb p f(3) by (auto dest: in_set_dropD)
  have "changed_in {p} (fs_disk t) (fs_disk ?v)"
    using lf by (auto simp: changed_in_def fd_simps disk_simps in_block_def)
  then have "released t cs {} {p} ?v cs"
    by (rule released_refl[OF tinv])
       (use tok pcs lf(2) block_okD(1)[OF tok] in \<open>auto simp: free_blocks_def fd_simps disk_simps\<close>)
  then have rel: "released s bs (set ?old) {p} ?v cs" using released_more[OF t(2)] by fastforce
  have "roomy (fs_disk ?u) p ?new" by (rule roomy_cong[OF tr]) (use lf in auto)
  then have "roomy (fs_disk ?v) p ?new" "inode_at (fs_disk ?v) (unat p) = resized len n"
    using un by (simp_all add: fd_simps disk_simps roomy_seek)
  then show ?thesis using run rel by blast
qed

lemma truncateFile_zero:
  assumes sf: "sound_file (fs_disk s) iid p fs n" and inv: "free_inv s bs" and p: "p \<notin> set (free_blocks s bs)"
    and data: "\<forall>b \<in> set fs. b \<notin> set (free_blocks s bs)"
  shows "\<exists>t cs. truncateFile iid 0 s = Some (E_SUCCESS, t) \<and> released s bs (set fs) {p} t cs"
proof (cases "i_dat_len n = 0")
  case True
  have "length fs = 0" using sf True by (simp add: sound_file_def ceil_blocks_def)
  moreover have node: "getINodeByPosition p s = Some (n, s)"
    using getINodeByPosition_plain[of p s] sf block_okD(4)[OF file_atD(5)]
    by (auto simp: sound_file_def roomy_def)
  moreover have "released s bs {} {p} s bs"
    by (rule released_refl[OF inv]) (use sf p in \<open>auto simp: sound_file_def roomy_def free_blocks_def changed_in_def dest: file_atD(5)\<close>)
  ultimately show ?thesis
    using sf True by (auto simp: truncateFile_def Let_def sound_file_def)
next
  case False
  then show ?thesis using truncateFile_cut[OF assms, of 0] word_gt_0[of "i_dat_len n"] by (auto simp: ceil_blocks_def)
qed

end
