(* ===== verification/AppFS_Sound.thy ===== *)
theory AppFS_Sound
  imports AppFS_Inv FSFile_Shrink
begin

text \<open>
  The invariant of a whole package between two operations: directories and links are sound, every inode has
  one entry at most, the segment tables of the files are sound, the list of free blocks is sound, and no
  block is used twice: not by two inodes, and not by an inode and the free list.
\<close>

section \<open>Blocks and their owners\<close>

text \<open>\<open>c\<close> has an entry in the directory \<open>i\<close>.\<close>

definition listed_in :: "disk \<Rightarrow> u16 \<Rightarrow> u16 \<Rightarrow> bool" where
  "listed_in d i c \<longleftrightarrow> i_type (raw_by_id d i) = INT_DIRECTORY \<and> c \<in> set (used (i_children (raw_by_id d i)))"

definition sole_entries :: "disk \<Rightarrow> bool" where
  "sole_entries d \<longleftrightarrow> (\<forall>i j c. listed_in d i c \<longrightarrow> listed_in d j c \<longrightarrow> i = j)"

definition file_blocks :: "disk \<Rightarrow> u32 \<Rightarrow> u32 list" where
  "file_blocks d p = takeWhile (\<lambda>b. b \<noteq> 0) (map (seg_at d p) [0..<947])"

lemma file_blocks_eq:
  assumes "blocks_at d p fs"
  shows "file_blocks d p = fs"
proof -
  have fs: "\<And>k. k < length fs \<Longrightarrow> seg_at d p k = fs ! k \<and> fs ! k \<noteq> 0" "length fs < 947" "seg_at d p (length fs) = 0"
    using assms block_okD(5) by (auto simp: blocks_at_def)
  have "[0..<947] = [0..<length fs] @ length fs # [Suc (length fs)..<947]"
    using fs(2) upt_add_eq_append[of 0 "length fs" "947 - length fs"] upt_conv_Cons[of "length fs" 947] by simp
  moreover have "map (seg_at d p) [0..<length fs] = fs" using fs(1) by (intro nth_equalityI) simp_all
  ultimately have "map (seg_at d p) [0..<947] = fs @ 0 # map (seg_at d p) [Suc (length fs)..<947]" using fs(3) by simp
  moreover have "\<forall>b \<in> set fs. b \<noteq> 0" using fs(1) by (metis in_set_conv_nth)
  ultimately show ?thesis by (simp add: file_blocks_def takeWhile_append2)
qed

definition files_sound :: "disk \<Rightarrow> bool" where
  "files_sound d \<longleftrightarrow> (\<forall>j. file_type (i_type (raw_by_id d j)) \<longrightarrow>
     sound_file d j (lookup_at d j) (file_blocks d (lookup_at d j)) (raw_by_id d j))"

lemma files_soundD: "files_sound d \<Longrightarrow> file_type (i_type (raw_by_id d j)) \<Longrightarrow>
    sound_file d j (lookup_at d j) (file_blocks d (lookup_at d j)) (raw_by_id d j)"
  unfolding files_sound_def by blast

text \<open>The blocks of the inode \<open>j\<close>: its own and, of a file or symbolic link, those of its contents.\<close>

definition own_blocks :: "disk \<Rightarrow> u16 \<Rightarrow> u32 list" where
  "own_blocks d j = (if lookup_at d j = 0 then [] else lookup_at d j #
     (if file_type (i_type (raw_by_id d j)) then file_blocks d (lookup_at d j) else []))"

definition pkg_inv :: "fsys \<Rightarrow> u32 list \<Rightarrow> bool" where
  "pkg_inv s bs \<longleftrightarrow> pkg_ok (fs_disk s) \<and> sole_entries (fs_disk s) \<and> files_sound (fs_disk s) \<and> free_inv s bs \<and>
     fs_reserved s = [] \<and> dsize (fs_disk s) mod 4096 = 0 \<and>
     (\<forall>i j. i \<noteq> j \<longrightarrow> set (own_blocks (fs_disk s) i) \<inter> set (own_blocks (fs_disk s) j) = {}) \<and>
     (\<forall>j. set (own_blocks (fs_disk s) j) \<inter> set (free_blocks s bs) = {})"

lemma pkg_invD:
  assumes "pkg_inv s bs"
  shows "pkg_ok (fs_disk s)" "sole_entries (fs_disk s)" "files_sound (fs_disk s)" "free_inv s bs" "fs_reserved s = []"
    "dsize (fs_disk s) mod 4096 = 0"
    "i \<noteq> j \<Longrightarrow> set (own_blocks (fs_disk s) i) \<inter> set (own_blocks (fs_disk s) j) = {}"
    "set (own_blocks (fs_disk s) j) \<inter> set (free_blocks s bs) = {}"
  using assms by (simp_all add: pkg_inv_def)

lemma own_head: "lookup_at d j \<noteq> 0 \<Longrightarrow> lookup_at d j \<in> set (own_blocks d j)"
  by (simp add: own_blocks_def)

lemma own_block_ok:
  assumes "pkg_ok d" and "files_sound d" and "b \<in> set (own_blocks d j)"
  shows "block_ok d b"
proof (cases "b = lookup_at d j")
  case True
  then show ?thesis using tree_okD(3)[OF pkg_okD(1)[OF assms(1)]] assms(3) by (auto simp: own_blocks_def split: if_splits)
next
  case False
  then have "file_type (i_type (raw_by_id d j))" "b \<in> set (file_blocks d (lookup_at d j))"
    using assms(3) by (auto simp: own_blocks_def split: if_splits)
  then show ?thesis using assms(2) file_atD(4) by (auto simp: files_sound_def sound_file_def roomy_def)
qed

section \<open>What stays of a block\<close>

lemma kept_file_blocks: "kept d e q \<Longrightarrow> file_blocks e q = file_blocks d q"
  unfolding file_blocks_def by (intro arg_cong[where f = "takeWhile _"] map_cong) (simp_all add: kept_seg)

lemma kept_file:
  assumes "sound_file d j p bs n" and "kept d e p" and "lookup_at e j = lookup_at d j" and "dsize d \<le> dsize e"
  shows "sound_file e j p bs n"
proof -
  have "roomy e p bs"
    by (rule roomy_cong[of d]) (use assms in \<open>simp_all add: sound_file_def kept_def in_block_def\<close>)
  then show ?thesis using assms kept_inode[OF assms(2)] by (simp add: sound_file_def)
qed

text \<open>The files other than \<open>x\<close> keep their inodes, their blocks and what is in them.\<close>

definition data_kept :: "disk \<Rightarrow> disk \<Rightarrow> u16 \<Rightarrow> bool" where
  "data_kept d e x \<longleftrightarrow> (\<forall>j. j \<noteq> x \<longrightarrow> file_type (i_type (raw_by_id d j)) \<longrightarrow>
     raw_by_id e j = raw_by_id d j \<and> lookup_at e j = lookup_at d j \<and> (\<forall>b \<in> set (own_blocks d j). kept d e b))"

lemma data_keptD:
  assumes "data_kept d e x" and "j \<noteq> x" and "file_type (i_type (raw_by_id d j))"
  shows "raw_by_id e j = raw_by_id d j" "lookup_at e j = lookup_at d j" "b \<in> set (own_blocks d j) \<Longrightarrow> kept d e b"
    "own_blocks e j = own_blocks d j"
proof -
  show k: "raw_by_id e j = raw_by_id d j" "lookup_at e j = lookup_at d j" "b \<in> set (own_blocks d j) \<Longrightarrow> kept d e b" for b
    using assms unfolding data_kept_def by blast+
  show "own_blocks e j = own_blocks d j"
    using k kept_file_blocks[of d e "lookup_at d j"] own_head[of d j] by (auto simp: own_blocks_def)
qed

lemma data_kept_trans:
  assumes de: "data_kept d e x" and ef: "data_kept e f x"
  shows "data_kept d f x"
  unfolding data_kept_def
proof (intro allI impI)
  fix j assume j: "j \<noteq> x" "file_type (i_type (raw_by_id d j))"
  note k = data_keptD[OF de j]
  have "file_type (i_type (raw_by_id e j))" using k(1) j(2) by simp
  note l = data_keptD[OF ef j(1) this]
  show "raw_by_id f j = raw_by_id d j \<and> lookup_at f j = lookup_at d j \<and> (\<forall>b \<in> set (own_blocks d j). kept d f b)"
    using k l kept_trans by metis
qed

section \<open>Steps that change one inode\<close>

text \<open>
  The invariant after a step that may change the entry, the blocks and the type of one inode \<open>x\<close> and the
  free list, where blocks pass only between \<open>x\<close>, the free list and the end of the package.
\<close>

lemma pkg_inv_step:
  assumes inv: "pkg_inv s bs" and ok: "pkg_ok (fs_disk s')" and sole: "sole_entries (fs_disk s')"
    and free: "free_inv s' bs'" "fs_reserved s' = []" "dsize (fs_disk s') mod 4096 = 0" "dsize (fs_disk s) \<le> dsize (fs_disk s')"
    and other: "\<And>j. j \<noteq> x \<Longrightarrow> lookup_at (fs_disk s') j = lookup_at (fs_disk s) j \<and>
      (file_type (i_type (raw_by_id (fs_disk s) j)) \<longrightarrow> kept (fs_disk s) (fs_disk s') (lookup_at (fs_disk s) j)) \<and>
      i_type (raw_by_id (fs_disk s') j) = i_type (raw_by_id (fs_disk s) j)"
    and self: "file_type (i_type (raw_by_id (fs_disk s') x)) \<Longrightarrow> sound_file (fs_disk s') x (lookup_at (fs_disk s') x)
      (file_blocks (fs_disk s') (lookup_at (fs_disk s') x)) (raw_by_id (fs_disk s') x)"
    and own: "\<And>j. j \<noteq> x \<Longrightarrow> set (own_blocks (fs_disk s') x) \<inter> set (own_blocks (fs_disk s) j) = {}"
      "set (own_blocks (fs_disk s') x) \<inter> set (free_blocks s' bs') = {}"
    and blocks: "set (free_blocks s' bs') \<subseteq> set (free_blocks s bs) \<union> set (own_blocks (fs_disk s) x)"
  shows "pkg_inv s' bs'"
proof -
  let ?d = "fs_disk s" and ?e = "fs_disk s'"
  note i = pkg_invD[OF inv]
  have same: "own_blocks ?e j = own_blocks ?d j" if "j \<noteq> x" for j
    using other[OF that] kept_file_blocks[of ?d ?e "lookup_at ?d j"] by (auto simp: own_blocks_def)
  have fsound: "sound_file ?e j (lookup_at ?e j) (file_blocks ?e (lookup_at ?e j)) (raw_by_id ?e j)"
    if ty: "file_type (i_type (raw_by_id ?e j))" for j
  proof (cases "j = x")
    case False
    note o = other[OF False]
    have k: "kept ?d ?e (lookup_at ?d j)" and ty': "file_type (i_type (raw_by_id ?d j))" using o ty by auto
    have used: "lookup_at ?d j \<noteq> 0" using raw_type_used[of ?d j] ty' by auto
    have raw: "raw_by_id ?e j = raw_by_id ?d j"
      using o used kept_inode[OF k] raw_used[OF pkg_okD(1)[OF ok], of j] raw_used[OF pkg_okD(1)[OF i(1)], of j] by simp
    have "sound_file ?d j (lookup_at ?d j) (file_blocks ?d (lookup_at ?d j)) (raw_by_id ?d j)"
      by (rule files_soundD[OF i(3) ty'])
    from kept_file[OF this k _ free(4)] show ?thesis using o kept_file_blocks[OF k] raw by simp
  qed (use self ty in blast)
  have d1: "set (own_blocks ?e a) \<inter> set (own_blocks ?e b) = {}" if "a \<noteq> b" for a b
    using that i(7)[of a b] own(1)[of a] own(1)[of b] same[of a] same[of b] by (cases "a = x"; cases "b = x") auto
  have d2: "set (own_blocks ?e a) \<inter> set (free_blocks s' bs') = {}" for a
  proof (cases "a = x")
    case False
    have "set (own_blocks ?d a) \<inter> (set (free_blocks s bs) \<union> set (own_blocks ?d x)) = {}"
      using i(8)[of a] i(7)[OF False] by (simp add: Int_Un_distrib)
    then show ?thesis unfolding same[OF False] using blocks by blast
  qed (simp add: own(2))
  show ?thesis
    unfolding pkg_inv_def files_sound_def using ok sole free(1-3) fsound d1 d2 by blast
qed

section \<open>Steps that change one directory\<close>

lemma dir_change_inv:
  assumes inv: "pkg_inv s bs" and dir: "dir_at (fs_disk s) pid p n" and dir': "dir_at (fs_disk s') pid p n'"
    and same: "same_outside p s s'" and id: "ident n' = ident n" and sound: "dir_sound (fs_disk s) n'"
    and sole: "\<And>c i. c \<in> set (used (i_children n')) \<Longrightarrow> c \<notin> set (used (i_children n)) \<Longrightarrow> \<not> listed_in (fs_disk s) i c"
  shows "pkg_inv s' bs"
proof -
  let ?d = "fs_disk s" and ?e = "fs_disk s'"
  note i = pkg_invD[OF inv]
  note ch = dir_change_ok[OF i(1) dir dir' same id sound] and d = dir_atD[OF dir] and d' = dir_atD[OF dir']
  have ok: "block_ok ?d p" by (rule d(2))
  have raw: "raw_by_id ?d pid = n" "i_type n = INT_DIRECTORY" "i_type n' = INT_DIRECTORY" using d(8) d' d by simp_all
  have look: "lookup_at ?e = lookup_at ?d" by (rule same_outside_lookup[OF same block_okD(1)[OF ok]])
  have keep: "kept ?d ?e q" if "unat q mod 4096 = 0" "q \<noteq> p" for q
    using same in_block_unique[OF that(1) block_okD(3)[OF ok]] that(2)
    by (auto simp: kept_def same_outside_def in_block_def)
  have own_pid: "own_blocks ?e pid = [p]" "own_blocks ?d pid = [p]"
    using d(1) block_okD(5)[OF ok] raw by (simp_all add: own_blocks_def look ch(2))
  then have bs: "p \<notin> set (free_blocks s bs)" using i(8)[of pid] by simp
  have sub: "listed_in ?e a c \<Longrightarrow> listed_in ?d a c \<or> (a = pid \<and> (\<forall>i. \<not> listed_in ?d i c))" for a c
    using sole[of c] raw by (auto simp: listed_in_def ch(2) split: if_splits)
  have "sole_entries ?e"
    unfolding sole_entries_def
  proof (intro allI impI)
    fix a b c assume ab: "listed_in ?e a c" "listed_in ?e b c"
    show "a = b"
      using sub[OF ab(1)] sub[OF ab(2)] i(2) unfolding sole_entries_def by blast
  qed
  moreover have "free_inv s' bs"
  proof (rule free_inv_frame[OF i(4), where k = 0])
    show "\<forall>b \<in> set bs. kept ?d ?e b"
    proof
      fix b assume "b \<in> set bs"
      then have "block_ok ?d b" "b \<noteq> p" using i(4) bs by (auto simp: free_inv_def free_blocks_def)
      then show "kept ?d ?e b" by (intro keep block_okD(3)) auto
    qed
    show "\<forall>a. OFFSET_FSINFO \<le> a \<and> a < OFFSET_DATA \<longrightarrow> byte_at ?e a = byte_at ?d a"
      using same block_okD(1)[OF ok] by (auto simp: same_outside_def)
  qed (use same in \<open>simp_all add: same_outside_def\<close>)
  moreover have "lookup_at ?e j = lookup_at ?d j \<and>
      (file_type (i_type (raw_by_id ?d j)) \<longrightarrow> kept ?d ?e (lookup_at ?d j)) \<and>
      i_type (raw_by_id ?e j) = i_type (raw_by_id ?d j)" if "j \<noteq> pid" for j
  proof -
    have "kept ?d ?e (lookup_at ?d j)" if ty: "file_type (i_type (raw_by_id ?d j))"
    proof -
      have u: "lookup_at ?d j \<noteq> 0" using raw_type_used[of ?d j] ty by auto
      then have "lookup_at ?d j \<noteq> p" using tree_okD(4)[OF pkg_okD(1)[OF i(1)], of j pid] \<open>j \<noteq> pid\<close> d(1) by auto
      then show ?thesis by (intro keep block_okD(3)[OF tree_okD(3)[OF pkg_okD(1)[OF i(1)] u]])
    qed
    then show ?thesis using \<open>j \<noteq> pid\<close> by (simp add: look ch(2))
  qed
  moreover have "free_blocks s' bs = free_blocks s bs" using same by (simp add: free_blocks_def same_outside_def)
  ultimately show ?thesis
    using ch(1) i(5,6) same own_pid i(7)[of pid] i(8)[of pid] raw
    by (intro pkg_inv_step[OF inv, of s' bs pid]) (auto simp: same_outside_def ch(2))
qed

text \<open>A step that changes only a directory's block keeps all files.\<close>

lemma same_outside_data:
  assumes inv: "pkg_inv s bs" and same: "same_outside p s s'" and dir: "dir_at (fs_disk s) pid p n"
    and raw: "\<And>j. j \<noteq> pid \<Longrightarrow> raw_by_id (fs_disk s') j = raw_by_id (fs_disk s) j"
  shows "data_kept (fs_disk s) (fs_disk s') x"
  unfolding data_kept_def
proof (intro allI impI)
  let ?d = "fs_disk s" and ?e = "fs_disk s'"
  note i = pkg_invD[OF inv] and d = dir_atD[OF dir]
  fix j assume j: "j \<noteq> x" "file_type (i_type (raw_by_id ?d j))"
  have ne: "j \<noteq> pid" using j(2) d by auto
  have p: "p \<in> set (own_blocks ?d pid)" using own_head[of ?d pid] d(1) block_okD(5)[OF d(2)] by simp
  have "kept ?d ?e b" if b: "b \<in> set (own_blocks ?d j)" for b
  proof -
    have "block_ok ?d b" "b \<noteq> p" using own_block_ok[OF i(1,3) b] i(7)[OF ne] b p by blast+
    then show ?thesis
      using same in_block_unique[OF block_okD(3) block_okD(3)[OF d(2)]]
      by (auto simp: kept_def same_outside_def in_block_def)
  qed
  moreover have "lookup_at ?e = lookup_at ?d" by (rule same_outside_lookup[OF same block_okD(1)[OF d(2)]])
  ultimately show "raw_by_id ?e j = raw_by_id ?d j \<and> lookup_at ?e j = lookup_at ?d j \<and> (\<forall>b \<in> set (own_blocks ?d j). kept ?d ?e b)"
    using raw[OF ne] by simp
qed

section \<open>Steps that keep the bytes\<close>

text \<open>Packages with the same bytes, one of them longer.\<close>

lemma pkg_inv_bytes:
  assumes inv: "pkg_inv s bs" and bytes: "byte_at (fs_disk s') = byte_at (fs_disk s)"
    and size: "dsize (fs_disk s) \<le> dsize (fs_disk s')" "dsize (fs_disk s') mod 4096 = 0"
    and cache: "fs_cache s' = drop k (fs_cache s)" and res: "fs_reserved s' = []"
  shows "pkg_inv s' bs" and "own_blocks (fs_disk s') = own_blocks (fs_disk s)" and "node_by_id (fs_disk s') = node_by_id (fs_disk s)"
    and "lookup_at (fs_disk s') = lookup_at (fs_disk s)" and "raw_by_id (fs_disk s') = raw_by_id (fs_disk s)"
proof -
  let ?d = "fs_disk s" and ?e = "fs_disk s'"
  note i = pkg_invD[OF inv]
  show look: "lookup_at ?e = lookup_at ?d" by (rule lookup_at_cong) (simp add: bytes)
  have ino: "inode_at ?e = inode_at ?d" by (rule ext, rule inode_at_cong) (simp add: bytes)
  show raw: "raw_by_id ?e = raw_by_id ?d" by (simp add: raw_by_id_def[abs_def] look ino cong: if_cong)
  then show node: "node_by_id ?e = node_by_id ?d" by (simp add: node_by_id_def[abs_def] link_target_view_def cong: if_cong)
  have keep: "kept ?d ?e q" for q by (simp add: kept_def bytes)
  show own: "own_blocks ?e = own_blocks ?d"
    using kept_file_blocks[OF keep] by (simp add: own_blocks_def[abs_def] look raw cong: if_cong)
  have "block_ok ?e b" if "block_ok ?d b" for b using that size(1) by (simp add: block_ok_def)
  then have "pkg_ok ?e"
    using i(1) unfolding pkg_ok_def tree_ok_def links_ok_def dir_sound_def node_name_def look raw node by blast
  moreover have "sole_entries ?e" using i(2) by (simp add: sole_entries_def listed_in_def raw)
  moreover have "free_inv s' bs"
    by (rule free_inv_frame[OF i(4), where k = k]) (simp_all add: keep bytes size(1) cache)
  moreover have sub: "set (free_blocks s' bs) \<subseteq> set (free_blocks s bs)"
    using set_drop_subset[of k "fs_cache s"] by (auto simp: free_blocks_def cache)
  moreover have "sound_file ?e 0 (lookup_at ?e 0) (file_blocks ?e (lookup_at ?e 0)) (raw_by_id ?e 0)"
    if "file_type (i_type (raw_by_id ?e 0))"
    using kept_file[OF files_soundD[OF i(3)] keep _ size(1), of 0] that by (simp add: look raw kept_file_blocks[OF keep])
  moreover have "set (own_blocks ?e 0) \<inter> set (free_blocks s' bs) = {}" using i(8)[of 0] sub unfolding own by blast
  ultimately show "pkg_inv s' bs"
    using res size keep i(7)[of 0] sub by (intro pkg_inv_step[OF inv, of s' bs 0]) (auto simp: look raw own)
qed

end
