(* ===== verification/Samples.thy ===== *)
theory Samples
  imports Package AppFS_Sound
begin

text \<open>
  Concrete packages at which the properties of the development are applied: a freshly written
  package; the same with two zeroed blocks behind it; the two states after freeing these; and a
  package with one file of ten bytes in one data block.
\<close>

section \<open>A fresh package\<close>

lemma root_node_children: "i_children (root_node t) = replicate 1901 0" "dir_wf (root_node t)"
  by (simp_all add: root_node_def config dir_wf_def used_def)

text \<open>A package just written satisfies the invariant.\<close>

lemma fresh_package_inv:
  assumes d: "fs_disk s = createPackage t a b c e" and s: "fs_cache s = []" "fs_reserved s = []"
  shows "pkg_inv s []"
proof -
  let ?d = "fs_disk s"
  note l = createPackage_layout[OF d] and ok = createPackage_ok[OF d] and raw = createPackage_raw[OF d]
  have ty: "i_type (root_node t) = INT_DIRECTORY" and num: "i_inodeid (root_node t) = 0" by (simp_all add: root_node_def)
  have blk: "block_ok ?d (of_nat OFFSET_DATA)"
    by (simp add: block_ok_def checkINodePositionIsValid_iff unat_OFFSET_DATA l(1)) (simp add: config)
  have tree: "tree_ok ?d" using blk ok(4) by (simp add: tree_ok_def l(5))
  have "dir_sound ?d (root_node t)" using root_node_children by (simp add: dir_sound_def used_def)
  then have "pkg_ok ?d" using tree ty num by (auto simp: pkg_ok_def raw l(5) split: if_splits)
  moreover have "free_inv s []" using fl_inv_package[OF d _ s(1)] s by (simp add: free_inv_def free_blocks_def)
  moreover have "sole_entries ?d" "files_sound ?d"
    by (auto simp: sole_entries_def files_sound_def listed_in_def raw ty split: if_splits)
  moreover have none: "own_blocks ?d j = []" if "j \<noteq> 0" for j using that by (simp add: own_blocks_def l(5))
  have "set (own_blocks ?d i) \<inter> set (own_blocks ?d j) = {}" if "i \<noteq> j" for i j
    using that none[of i] none[of j] by (cases "i = 0") auto
  moreover have "dsize ?d mod 4096 = 0" by (simp add: l(1) config)
  ultimately show ?thesis by (simp add: pkg_inv_def free_blocks_def s)
qed

definition package0 :: fsys where
  "package0 = \<lparr>fs_disk = createPackage 7 [] [] [] [], fs_cache = [], fs_reserved = [],
               fs_clock = (\<lambda>_. 7), fs_ticks = 0\<rparr>"

lemma package0_layout:
  "dsize (fs_disk package0) = OFFSET_DATA + 4096" "fsinfo_ok (fs_disk package0)"
  "table_ok (fs_disk package0)" "links_ok (fs_disk package0)" "fl_inv package0 []"
  "lookup_at (fs_disk package0) i = (if i = 0 then of_nat OFFSET_DATA else 0)"
  "inode_at (fs_disk package0) OFFSET_DATA = root_node 7"
  using createPackage_layout[OF refl, of 7 "[]" "[]" "[]" "[]"] createPackage_ok[OF refl, of 7 "[]" "[]" "[]" "[]"]
    fl_inv_package[OF refl, of package0 7 "[]" "[]" "[]" "[]"]
  by (simp_all add: package0_def stored_root)

lemma package0_fields:
  "fs_cache package0 = []" "fs_reserved package0 = []" "fs_clock package0 = (\<lambda>_. 7)" "fs_ticks package0 = 0"
  by (simp_all add: package0_def)

definition blk :: "nat \<Rightarrow> u32" where
  "blk k = of_nat (OFFSET_DATA + 4096 * k)"

lemma unat_blk: "k < 1000 \<Longrightarrow> unat (blk k) = OFFSET_DATA + 4096 * k"
  unfolding blk_def by (rule unat_of_nat_small) (simp add: config)

lemma blk_ok: "k < 1000 \<Longrightarrow> OFFSET_DATA + 4096 * k + 4096 \<le> dsize d \<Longrightarrow> block_ok d (blk k)"
  by (simp add: block_ok_def checkINodePositionIsValid_iff unat_blk config)

lemma package0_dir: "dir_at (fs_disk package0) 0 (blk 0) (root_node 7)"
  using blk_ok[of 0 "fs_disk package0"]
  by (simp add: dir_at_def package0_layout unat_blk root_node_wf) (simp add: blk_def root_node_def)

section \<open>Two blocks more\<close>

definition package1 :: fsys where
  "package1 = fs_put (OFFSET_DATA + 4096) (replicate 8192 0) package0"

lemma package1_layout:
  "dsize (fs_disk package1) = OFFSET_DATA + 3 * 4096" "fs_cache package1 = []"
  "fs_reserved package1 = []" "fl_inv package1 []"
  "lookup_at (fs_disk package1) i = (if i = 0 then blk 0 else 0)"
proof -
  show "dsize (fs_disk package1) = OFFSET_DATA + 3 * 4096" "fs_cache package1 = []" "fs_reserved package1 = []"
    by (simp_all add: package1_def fd_simps package0_layout package0_fields)
  show "fl_inv package1 []"
    using package0_layout(5) by (simp add: package1_def fd_simps fl_inv_def fsinfo_put_data package0_fields)
  have "OFFSET_FSINFO \<le> OFFSET_DATA + 4096" by (simp add: config)
  then show "lookup_at (fs_disk package1) i = (if i = 0 then blk 0 else 0)"
    by (simp add: package1_def fd_simps lookup_at_put_data package0_layout(6) blk_def)
qed

lemma package1_blocks: "block_ok (fs_disk package1) (blk 0)" "block_ok (fs_disk package1) (blk 1)"
  "block_ok (fs_disk package1) (blk 2)"
  by (rule blk_ok; simp add: package1_layout)+

section \<open>Freed blocks\<close>

definition package2 :: fsys where
  "package2 = the (freeBlock (blk 1) package1)"

lemma package2_inv:
  "freeBlock (blk 1) package1 = Some package2" "fl_inv package2 [blk 1]" "fs_cache package2 = []"
  using freeBlock_first_inv[OF package1_layout(4) package1_blocks(2)]
  by (auto simp: package2_def package1_layout)

lemma first_slot_package2: "\<exists>a. first_slot (fs_disk package2) [blk 1] 0 = Some a"
proof -
  have "\<exists>s'. freeBlock (blk 1) package1 = Some s' \<and> fl_inv s' [blk 1] \<and> fs_cache s' = fs_cache package1
    \<and> disk_entries (fs_disk s') (fl_slots [blk 1]) = {}"
    by (rule freeBlock_first_inv[OF package1_layout(4) package1_blocks(2)])
  then have "disk_entries (fs_disk package2) (fl_slots [blk 1]) = {}" by (auto simp: package2_def)
  moreover have "blk 1 + of_nat 8 \<in> set (fl_slots [blk 1])"
    by (auto simp: fl_slots_def slot_addrs_def entry_offsets_def intro!: image_eqI[of _ _ 0])
  ultimately have "\<exists>a \<in> set (fl_slots [blk 1]). u32_at (fs_disk package2) (unat a) = 0"
    by (auto simp: disk_entries_def)
  then have "first_slot (fs_disk package2) [blk 1] 0 \<noteq> None" unfolding first_slot_def find_None_iff by blast
  then show ?thesis by simp
qed

lemma package2_block: "block_ok (fs_disk package2) (blk 2)"
proof -
  have "dsize (fs_disk package1) \<le> dsize (fs_disk package2)"
    using freeBlock_first[of package1 "blk 1"] package1_layout(4) package1_blocks(2)
    by (simp add: package2_def fl_inv_def block_ok_def fd_simps del: dsize_put_bytes)
       (rule order_trans[OF _ dsize_put_mono], rule dsize_put_mono)
  then show ?thesis using package1_blocks(3) by (auto simp: block_ok_def)
qed

definition package3 :: fsys where
  "package3 = the (freeBlock (blk 2) package2)"

lemma package3_inv:
  "freeBlock (blk 2) package2 = Some package3" "fl_inv package3 [blk 1]"
  "\<exists>a. fs_cache package3 = [(a, blk 2)]"
proof -
  obtain a where a: "first_slot (fs_disk package2) [blk 1] 0 = Some a" using first_slot_package2 by blast
  from freeBlock_slot_inv[OF package2_inv(2) a block_okD(5)[OF package2_block]]
  show f: "freeBlock (blk 2) package2 = Some package3" "fl_inv package3 [blk 1]"
    by (auto simp: package3_def)
  have "fsinfo_ok (fs_disk package2)" "fl_chain (fs_disk package2) (fl_head (fs_disk package2)) [blk 1]"
    using package2_inv(2) by (simp_all add: fl_inv_def)
  from freeBlock_slot[OF this a, of "blk 2"]
  have "fs_cache package3 = fs_cache (fs_put (unat a) (enc32 (blk 2)) (package2\<lparr>fs_cache := [(a, blk 2)]\<rparr>))"
    by (simp add: package3_def package2_inv)
  also have "\<dots> = [(a, blk 2)]" by (simp add: fs_put_def)
  finally have "fs_cache package3 = [(a, blk 2)]" .
  then show "\<exists>a. fs_cache package3 = [(a, blk 2)]" by blast
qed

section \<open>A file\<close>

definition sample_node :: inode where
  "sample_node = (new_inode 1 INT_FILEINFO)
     \<lparr>i_filename := 0x61 # replicate 255 0, i_blocks := 1, i_dat_len := 10\<rparr>"

lemma sample_node_wf: "inode_wf sample_node" "stored sample_node = sample_node" "inode_verify sample_node"
  by (simp_all add: sample_node_def inode_wf_def stored_def stored_head_def stored_named_def
      has_data_fields_def new_inode_def INode_named_def INode_full_def setFilename_def Let_def config
      inode_verify_def)

definition package_f :: fsys where
  "package_f = fs_put (OFFSET_DATA + 4096)
       (getBinaryRepresentation sample_node @ [0, 0] @ enc32 (blk 2) @ replicate 3784 0)
     (fs_put (lookup_addr 1) (enc32 (blk 1)) package1)"

lemma package_f_lookup:
  "lookup_at (fs_disk package_f) i = (if i = 1 then blk 1 else if i = 0 then blk 0 else 0)"
proof -
  have "OFFSET_FSINFO \<le> OFFSET_DATA + 4096" by (simp add: config)
  then show ?thesis
    by (simp add: package_f_def fd_simps lookup_at_put_data lookup_at_put_lookup package1_layout(5))
qed

lemma package_f_size: "dsize (fs_disk package_f) = OFFSET_DATA + 3 * 4096"
proof -
  have len: "length (getBinaryRepresentation sample_node) = 306"
    using length_getBinaryRepresentation[OF sample_node_wf(1)] by (simp add: sample_node_def)
  have "lookup_addr 1 + 4 \<le> OFFSET_DATA" using lookup_addr_bounds(2)[of 1] by (simp add: config)
  then show ?thesis by (simp add: package_f_def fd_simps package1_layout(1) len)
qed

lemma package_f_file: "plain_file (fs_disk package_f) 1 (blk 1) [blk 2] sample_node"
proof -
  let ?d = "fs_disk package_f" and ?bs = "getBinaryRepresentation sample_node @ [0, 0] @ enc32 (blk 2) @ replicate 3784 0"
  let ?e = "put_bytes (lookup_addr 1) (enc32 (blk 1)) (fs_disk package1)"
  have d: "?d = put_bytes (OFFSET_DATA + 4096) ?bs ?e" by (simp add: package_f_def fd_simps)
  have u: "unat (blk 1) = OFFSET_DATA + 4096" "unat (blk 2) = OFFSET_DATA + 8192" by (simp_all add: unat_blk)
  have len: "length (getBinaryRepresentation sample_node) = 306"
    using length_getBinaryRepresentation[OF sample_node_wf(1)] by (simp add: sample_node_def)
  have ok: "block_ok ?d (blk 1)" "block_ok ?d (blk 2)" by (rule blk_ok; simp add: package_f_size)+
  have seg: "u32_at ?d (OFFSET_DATA + 4096 + k) = le_dec (take 4 (drop k ?bs))" if "k + 4 \<le> 4096" for k
    unfolding d by (rule at_put_offset(2)) (use that len in simp)
  have s0: "u32_at ?d (OFFSET_DATA + 4096 + 308) = blk 2" by (subst seg) (simp_all add: len)
  have s1: "u32_at ?d (OFFSET_DATA + 4096 + 312) = 0" by (subst seg) (simp_all add: len le_dec_zeros)
  have node: "inode_at ?d (unat (blk 1)) = sample_node"
    unfolding d u using inode_at_getBinaryRepresentation[of sample_node "OFFSET_DATA + 4096"] sample_node_wf by simp
  have "unat (blk 1) \<noteq> unat (blk 2)" unfolding u by simp
  then have "blk 1 \<noteq> blk 2" by metis
  then show ?thesis
    using ok node s0[folded u] s1[folded u]
    by (simp add: plain_file_def file_at_def blocks_at_def seg_at_def package_f_lookup)
       (simp add: sample_node_def)
qed

lemma package_f_sound: "sound_file (fs_disk package_f) 1 (blk 1) [blk 2] sample_node"
proof -
  let ?d = "fs_disk package_f" and ?bs = "getBinaryRepresentation sample_node @ [0, 0] @ enc32 (blk 2) @ replicate 3784 0"
  let ?e = "put_bytes (lookup_addr 1) (enc32 (blk 1)) (fs_disk package1)"
  have d: "?d = put_bytes (OFFSET_DATA + 4096) ?bs ?e" by (simp add: package_f_def fd_simps)
  have u: "unat (blk 1) = OFFSET_DATA + 4096" by (simp add: unat_blk)
  have len: "length (getBinaryRepresentation sample_node) = 306"
    using length_getBinaryRepresentation[OF sample_node_wf(1)] by (simp add: sample_node_def)
  have "seg_at ?d (blk 1) k = 0" if k: "1 \<le> k" "k < 947" for k
  proof -
    have "u32_at ?d (OFFSET_DATA + 4096 + (308 + 4 * k)) = le_dec (take 4 (drop (308 + 4 * k) ?bs))"
      unfolding d by (rule at_put_offset(2)) (use k len in simp)
    moreover have "drop (308 + 4 * k) ?bs = replicate (3784 - (4 * k - 4)) 0" using k len by simp
    ultimately show ?thesis unfolding seg_at_def u by (simp only: take_replicate le_dec_zeros)
  qed
  then have "roomy ?d (blk 1) [blk 2]" using package_f_file by (auto simp: roomy_def plain_file_def)
  then show ?thesis
    using package_f_file by (simp add: sound_file_def plain_file_def) (simp add: sample_node_def ceil_blocks_def)
qed

lemma package_f_root: "inode_at (fs_disk package_f) (unat (blk 0)) = root_node 7"
proof -
  have u: "unat (blk 0) = OFFSET_DATA" by (simp add: unat_blk)
  have "lookup_addr 1 + 4 \<le> OFFSET_DATA" using lookup_addr_bounds(2)[of 1] by (simp add: config)
  then show ?thesis
    by (simp add: package_f_def package1_def fd_simps inode_at_put_apart u package0_layout)
qed

lemma package_f_dir: "dir_at (fs_disk package_f) 0 (blk 0) (root_node 7)"
proof -
  have "block_ok (fs_disk package_f) (blk 0)" by (rule blk_ok) (simp_all add: package_f_size)
  then show ?thesis
    by (simp add: dir_at_def package_f_lookup package_f_root root_node_wf) (simp add: root_node_def)
qed

lemma package_f_raw:
  "raw_by_id (fs_disk package_f) i =
     (if i = 1 then sample_node else if i = 0 then root_node 7 else new_inode 0 INT_INVALID)"
proof -
  have u: "unat (blk 0) = OFFSET_DATA" "unat (blk 1) = OFFSET_DATA + 4096" by (simp_all add: unat_blk)
  have z: "blk 0 \<noteq> 0" "blk 1 \<noteq> 0" using u by (auto simp: unat_eq_0[symmetric] config)
  have "\<not> OFFSET_DATA < OFFSET_FSINFO" "\<not> OFFSET_DATA + 4096 < OFFSET_FSINFO" by (simp_all add: config)
  moreover have "inode_at (fs_disk package_f) (OFFSET_DATA + 4096) = sample_node"
    using package_f_file u by (simp add: plain_file_def)
  moreover have "inode_at (fs_disk package_f) OFFSET_DATA = root_node 7" using package_f_root u by simp
  ultimately show ?thesis using z by (simp add: raw_by_id_def package_f_lookup u Let_def del: One_nat_def)
qed

lemma package_f_tree: "tree_ok (fs_disk package_f)"
proof -
  have "unat (blk 0) \<noteq> unat (blk 1)" by (simp add: unat_blk)
  then have ne: "blk 0 \<noteq> blk 1" by metis
  have "block_ok (fs_disk package_f) (blk 0)" "block_ok (fs_disk package_f) (blk 1)"
    by (rule blk_ok; simp add: package_f_size)+
  moreover have "links_ok (fs_disk package_f)"
    by (auto simp: links_ok_def package_f_raw sample_node_def root_node_def split: if_splits)
  ultimately show ?thesis using ne by (auto simp: tree_ok_def package_f_lookup split: if_splits)
qed

lemma package_f_child: "node_by_id (fs_disk package_f) 1 = sample_node" "cstr (i_filename sample_node) = [0x61]"
  by (simp_all add: node_by_id_def link_target_view_def package_f_raw sample_node_def cstr_def)

section \<open>The file entered into the root directory\<close>

definition root_node_d :: inode where
  "root_node_d = dir_put 0 1 1 7 7 (root_node 7)"

definition package_d :: fsys where
  "package_d = snd (the (addChildToDirectoryINode 0 1 package_f))"

lemma package_d_state:
  "dir_at (fs_disk package_d) 0 (blk 0) root_node_d" "same_outside (blk 0) package_f package_d"
proof -
  have clk: "fs_clock package_f = (\<lambda>_. 7)"
    by (simp add: package_f_def package1_def fd_simps package0_fields)
  have "slot_index 0 (replicate 1901 0) = 0" by (simp add: slot_index_def numeral_eq_Suc)
  then have rep: "replaced package_f (blk 0) root_node_d 2 package_d"
    using addChild_result[OF package_f_dir, of 1]
    by (auto simp: package_d_def root_node_children clk root_node_d_def) (simp add: root_node_def)
  show "dir_at (fs_disk package_d) 0 (blk 0) root_node_d" "same_outside (blk 0) package_f package_d"
    using dir_replaced[OF package_f_dir _ rep[unfolded root_node_d_def]] by (simp_all add: root_node_d_def)
qed

lemma package_d_tree: "tree_ok (fs_disk package_d)" "dir_wf root_node_d"
  and package_d_child: "ident (node_by_id (fs_disk package_d) 1) = ident sample_node"
proof -
  have id: "ident root_node_d = ident (root_node 7)" by (simp add: root_node_d_def ident_def dir_put_def)
  note t = dir_change_tree[OF package_f_tree package_f_dir package_d_state id]
  show "tree_ok (fs_disk package_d)" by (rule t(1))
  show "ident (node_by_id (fs_disk package_d) 1) = ident sample_node"
    using t(2)[of 1] by (simp add: package_f_child)
  have "slot_index 0 (replicate 1901 0) = 0" "i_children_count (root_node 7) = 0"
    by (simp_all add: slot_index_def numeral_eq_Suc root_node_def)
  then show "dir_wf root_node_d"
    using dir_wf_add[OF root_node_children(2)[of 7], of 1 7 7]
    by (simp add: root_node_d_def root_node_children)
qed

end
