(* ===== verification/Spec_Files.thy ===== *)
theory Spec_Files
  imports Samples
begin

text \<open>
  The properties of reading and writing through \<^verbatim>\<open>FSFile\<close> (\<^verbatim>\<open>libapp/fsfile.cpp\<close>) on files that
  hold their length.
\<close>

text \<open>
  C15. Writing inside the file: \<^verbatim>\<open>FSFile::write\<close> of a non-empty range that ends within the length
  of the file succeeds, puts the data at the range's addresses, changes no other byte of the
  package and not its size, leaves the file as it was otherwise, and moves the write position
  behind the data.
\<close>

theorem file_write_in_place:
  fixes data :: "byte list"
  assumes "plain_file (fs_disk s) (f_inodeid f) p bs n" and "file_ready f" and "data \<noteq> []"
    and "unat (f_posp f) + length data \<le> unat (i_dat_len n)"
  shows "\<exists>f' e. file_write data f s = Some (f', s\<lparr>fs_disk := e\<rparr>) \<and> file_ready f' \<and>
    f_posp f' = f_posp f + of_nat (length data) \<and> f_posg f' = f_posg f \<and>
    plain_file e (f_inodeid f) p bs n \<and> dsize e = dsize (fs_disk s) \<and>
    file_bytes e bs (unat (f_posp f)) (length data) = data \<and>
    (\<forall>a. (\<forall>j < length data. a \<noteq> data_addr bs (unat (f_posp f) + j)) \<longrightarrow>
         byte_at e a = byte_at (fs_disk s) a)"
proof -
  obtain e where e: "file_write data f s =
      Some (write_done (unat (i_dat_len n)) (unat (f_posp f)) (length data) f, s\<lparr>fs_disk := e\<rparr>)"
    "wrote (fs_disk s) bs (unat (f_posp f)) data e" "plain_file e (f_inodeid f) p bs n"
    using write_plain[OF assms] .
  have "file_bytes e bs (unat (f_posp f)) (length data) = data" by (rule wrote_bytes[OF e(2)])
  with e assms(2) show ?thesis
    by - (rule exI, rule exI, intro conjI, rule e(1), simp_all add: write_done_fields wrote_def)
qed

definition handle :: "u32 \<Rightarrow> u32 \<Rightarrow> fsfile" where
  "handle pp pg = (FSFile_new 1)\<lparr>f_opened := True, f_posp := pp, f_posg := pg\<rparr>"

lemma handle_ready: "file_ready (handle pp pg)" "f_inodeid (handle pp pg) = 1" "f_posp (handle pp pg) = pp"
  "f_posg (handle pp pg) = pg"
  by (simp_all add: handle_def file_ready_def FSFile_new_def goodbit_def)

theorem file_write_in_place_witness:
  "\<exists>f' e. file_write [7, 8, 9] (handle 2 0) package_f = Some (f', package_f\<lparr>fs_disk := e\<rparr>) \<and>
     f_posp f' = 5 \<and> file_bytes e [blk 2] 2 3 = [7, 8, 9]"
proof -
  have "plain_file (fs_disk package_f) (f_inodeid (handle 2 0)) (blk 1) [blk 2] sample_node"
    by (simp only: handle_ready package_f_file)
  moreover have "unat (f_posp (handle 2 0)) + length [7, 8, 9 :: byte] \<le> unat (i_dat_len sample_node)"
    by (simp add: handle_ready sample_node_def)
  ultimately obtain f' e where "file_write [7, 8, 9] (handle 2 0) package_f = Some (f', package_f\<lparr>fs_disk := e\<rparr>)"
    "f_posp f' = f_posp (handle 2 0) + of_nat (length [7, 8, 9 :: byte])"
    "file_bytes e [blk 2] (unat (f_posp (handle 2 0))) (length [7, 8, 9 :: byte]) = [7, 8, 9]"
    using file_write_in_place[OF _ handle_ready(1), of package_f 2 0 "blk 1" "[blk 2]" sample_node "[7, 8, 9]"] by blast
  then show ?thesis by (auto simp: handle_ready numeral_3_eq_3)
qed

text \<open>
  C13. What was written is read back: after a write inside the file, a read of as many bytes from
  where the write began, through any open handle on the file, fills the buffer with the data and
  leaves the package as the write left it.
\<close>

theorem file_write_then_read:
  fixes data :: "byte list"
  assumes "plain_file (fs_disk s) (f_inodeid f) p bs n" and "file_ready f" and "data \<noteq> []"
    and "unat (f_posp f) + length data \<le> unat (i_dat_len n)"
    and "file_ready g" and "f_inodeid g = f_inodeid f" and "f_posg g = f_posp f" and "length out = length data"
  shows "\<exists>f' s' g'. file_write data f s = Some (f', s') \<and>
    file_read (length data) out g s' = Some ((of_nat (length data), data, g'), s')"
proof -
  obtain e where e: "file_write data f s =
      Some (write_done (unat (i_dat_len n)) (unat (f_posp f)) (length data) f, s\<lparr>fs_disk := e\<rparr>)"
    "wrote (fs_disk s) bs (unat (f_posp f)) data e" "plain_file e (f_inodeid f) p bs n"
    using write_plain[OF assms(1-4)] .
  let ?s = "s\<lparr>fs_disk := e\<rparr>"
  have pf: "plain_file (fs_disk ?s) (f_inodeid g) p bs n" using e(3) assms(6) by simp
  have len: "0 < length data" "unat (i_dat_len n) < 2 ^ 32" using assms(3) unsigned_less[of "i_dat_len n"] by simp_all
  then have c: "unat (f_posp f) < unat (i_dat_len n)" "length data < 2 ^ 32" "length data \<le> length out"
    "min (length data) (unat (i_dat_len n) - unat (f_posp f)) = length data"
    using assms(4,7,8) by linarith+
  note c = c(1)[folded assms(7)] c(2-4)
  have "file_bytes e bs (unat (f_posg g)) (length data) = data" using wrote_bytes[OF e(2)] assms(7) by simp
  then show ?thesis
    using e(1) read_plain[OF pf assms(5) c(1) len(1) c(2,3)] c(4)[folded assms(7)] assms(8) by (simp add: buf_put_def)
qed

theorem file_write_then_read_witness:
  "\<exists>f' s' g'. file_write [7, 8, 9] (handle 2 0) package_f = Some (f', s') \<and>
     file_read 3 [0, 0, 0] (handle 0 2) s' = Some ((3, [7, 8, 9], g'), s')"
  using file_write_then_read[of package_f "handle 2 0" "blk 1" "[blk 2]" sample_node "[7, 8, 9]" "handle 0 2" "[0, 0, 0]"]
    package_f_file by (simp add: handle_ready sample_node_def numeral_3_eq_3)

text \<open>
  C16. Reading: \<^verbatim>\<open>FSFile::read\<close> from a position inside the file returns how many of the asked
  bytes the file still has, puts exactly those into the front of the buffer, moves the read
  position behind them, sets the end-of-file bit exactly when it reached the end of the file,
  and changes nothing in the package.
\<close>

theorem file_read_range:
  assumes "plain_file (fs_disk s) (f_inodeid f) p bs n" and "file_ready f"
    and "unat (f_posg f) < unat (i_dat_len n)" and "0 < count" "count < 2 ^ 32" "count \<le> length out"
  shows "file_read count out f s =
    (let r = min count (unat (i_dat_len n) - unat (f_posg f))
     in Some ((of_nat r, file_bytes (fs_disk s) bs (unat (f_posg f)) r @ drop r out,
           f\<lparr>f_posg := f_posg f + of_nat r,
             f_state := (if unat (f_posg f) + r = unat (i_dat_len n) then eof_only else f_state f)\<rparr>), s))"
  using read_plain[OF assms] by (simp add: Let_def buf_put_def)

theorem file_read_range_witness:
  "file_read 20 (replicate 20 1) (handle 0 4) package_f =
     Some ((6, file_bytes (fs_disk package_f) [blk 2] 4 6 @ replicate 14 1,
            (handle 0 10)\<lparr>f_state := eof_only\<rparr>), package_f)"
  using file_read_range[of package_f "handle 0 4" "blk 1" "[blk 2]" sample_node 20 "replicate 20 1"] package_f_file
  by (simp add: handle_ready sample_node_def Let_def) (simp add: handle_def FSFile_new_def)

end
