(* ===== verification/Spec_Contents.thy ===== *)
theory Spec_Contents
  imports Spec_Files FSFile_Grow
begin

text \<open>
  The properties of changing a file's length (\<^verbatim>\<open>FS::truncateFile\<close> of
  \<^verbatim>\<open>libapp/lowlevel/fs.cpp\<close>) and of whole contents (\<^verbatim>\<open>FS::setFileContents\<close>,
  \<^verbatim>\<open>FS::getFileContents\<close>).
\<close>

text \<open>
  Growing a file: with no free block in the cache, \<^verbatim>\<open>truncateFile\<close> to a larger length
  of at most 946 blocks succeeds; the file keeps its blocks and their bytes, gets as many
  more from the end of the package as the new length needs, all zero, and records the new length
  and number of blocks; no byte of the package outside the file's own block and behind the old end
  changes.
\<close>

theorem truncateFile_extends:
  fixes len :: u32
  assumes "sound_file (fs_disk s) iid p bs n" and "i_dat_len n < len" and "unat len \<le> 4096 * 946"
    and "fs_cache s = []" and "dsize (fs_disk s) mod 4096 = 0"
    and "dsize (fs_disk s) + 4096 * (ceil_blocks len - length bs) \<le> 2 ^ 31"
  shows "\<exists>e. truncateFile iid len s = Some (E_SUCCESS, s\<lparr>fs_disk := e\<rparr>) \<and>
    (let m = ceil_blocks len - length bs; bs' = bs @ new_blocks (dsize (fs_disk s)) m in
     sound_file e iid p bs' (n\<lparr>i_blocks := of_nat (ceil_blocks len), i_dat_len := len\<rparr>) \<and>
     dsize e = dsize (fs_disk s) + 4096 * m \<and>
     file_bytes e bs' 0 (4096 * length bs) = file_bytes (fs_disk s) bs 0 (4096 * length bs) \<and>
     file_bytes e bs' (4096 * length bs) (4096 * m) = replicate (4096 * m) 0 \<and>
     (\<forall>a < dsize (fs_disk s). \<not> (unat p \<le> a \<and> a < unat p + 4096) \<longrightarrow>
        byte_at e a = byte_at (fs_disk s) a))"
proof -
  let ?d = "fs_disk s" and ?m = "ceil_blocks len - length bs"
  let ?bs = "bs @ new_blocks (dsize ?d) ?m"
  obtain e where e: "truncateFile iid len s = Some (E_SUCCESS, s\<lparr>fs_disk := e\<rparr>)"
    "sound_file e iid p ?bs (resized len n)" "dsize e = dsize ?d + 4096 * ?m" "dpos e = dpos ?d"
    "\<And>a. a < dsize ?d \<Longrightarrow> \<not> (unat p \<le> a \<and> a < unat p + 4096) \<Longrightarrow> byte_at e a = byte_at ?d a"
    "\<And>a. dsize ?d \<le> a \<Longrightarrow> byte_at e a = 0"
    using truncateFile_grow_sound[OF assms] by auto
  have "file_at ?d p bs" using assms(1) by (simp add: sound_file_def roomy_def)
  note b = grown_bytes[OF this e(5,6) assms(6)]
  have "file_bytes e ?bs 0 (4096 * length bs) = file_bytes ?d bs 0 (4096 * length bs)"
    using b(1) by (simp add: file_bytes_def)
  moreover have "file_bytes e ?bs (4096 * length bs) (4096 * ?m) = replicate (4096 * ?m) 0"
    using b(2) by (intro nth_equalityI) (simp_all add: file_bytes_def)
  ultimately show ?thesis
    using e(1,2,3,5) unfolding Let_def resized_def by blast
qed

theorem truncateFile_extends_witness:
  "\<exists>e. truncateFile 1 5000 package_f = Some (E_SUCCESS, package_f\<lparr>fs_disk := e\<rparr>) \<and>
     sound_file e 1 (blk 1) [blk 2, of_nat (OFFSET_DATA + 12288)]
       (sample_node\<lparr>i_blocks := 2, i_dat_len := 5000\<rparr>)"
proof -
  have c: "ceil_blocks 5000 = 2" by (simp add: ceil_blocks_def)
  have al: "dsize (fs_disk package_f) mod 4096 = 0" "dsize (fs_disk package_f) + 4096 * 1 \<le> 2 ^ 31"
    by (simp_all add: package_f_size config)
  have "fs_cache package_f = []" by (simp add: package_f_def package1_def fd_simps package0_fields)
  moreover have "i_dat_len sample_node < 5000" "unat (5000 :: u32) \<le> 4096 * 946" by (simp_all add: sample_node_def)
  moreover have "dsize (fs_disk package_f) + 4096 * (ceil_blocks 5000 - length [blk 2]) \<le> 2 ^ 31"
    using al(2) by (simp add: c)
  ultimately obtain e where "truncateFile 1 5000 package_f = Some (E_SUCCESS, package_f\<lparr>fs_disk := e\<rparr>)"
    "sound_file e 1 (blk 1) ([blk 2] @ new_blocks (dsize (fs_disk package_f)) (2 - 1))
       (sample_node\<lparr>i_blocks := of_nat 2, i_dat_len := 5000\<rparr>)"
    using truncateFile_extends[OF package_f_sound _ _ _ al(1), of 5000] by (auto simp: c Let_def)
  then show ?thesis by (auto simp: new_blocks_def package_f_size)
qed

text \<open>
  C25. Shrinking a file and growing it back gives the cut-off bytes back: as long as the shorter length
  needs as many blocks, \<^verbatim>\<open>truncateFile\<close> to it and then to the old length succeeds both times and leaves
  every byte of the file, and so of what had been cut off, as it was before.
\<close>

theorem truncateFile_keeps_tail:
  assumes "sound_file (fs_disk s) iid p bs n" and "len < i_dat_len n" and "ceil_blocks len = length bs"
    and "fs_cache s = []" and "dsize (fs_disk s) mod 4096 = 0" and "dsize (fs_disk s) \<le> 2 ^ 31"
  shows "\<exists>s1 s2. truncateFile iid len s = Some (E_SUCCESS, s1) \<and>
    truncateFile iid (i_dat_len n) s1 = Some (E_SUCCESS, s2) \<and>
    plain_file (fs_disk s1) iid p bs (n\<lparr>i_dat_len := len\<rparr>) \<and>
    sound_file (fs_disk s2) iid p bs n \<and>
    file_bytes (fs_disk s2) bs 0 (unat (i_dat_len n)) = file_bytes (fs_disk s) bs 0 (unat (i_dat_len n))"
proof -
  let ?d = "fs_disk s"
  have s: "roomy ?d p bs" "inode_at ?d (unat p) = n" "file_type (i_type n)" "length bs = ceil_blocks (i_dat_len n)"
    "i_blocks n = of_nat (length bs)"
    using assms(1) by (simp_all add: sound_file_def)
  have fa: "file_at ?d p bs" using s(1) by (simp add: roomy_def)
  obtain c where c: "truncateFile iid len s = Some (E_SUCCESS, s\<lparr>fs_disk := c\<rparr>)" "sound_file c iid p bs (n\<lparr>i_dat_len := len\<rparr>)"
    "dsize c = dsize ?d" "dpos c = dpos ?d" "\<And>a. \<not> (unat p \<le> a \<and> a < unat p + 4096) \<Longrightarrow> byte_at c a = byte_at ?d a"
    using truncateFile_shrink_sound[OF assms(1-3)] by blast
  let ?s = "s\<lparr>fs_disk := c\<rparr>"
  have "ceil_blocks (i_dat_len n) \<le> 946" using file_atD(6)[OF fa] s(4) by simp
  then have "unat (i_dat_len n) \<le> 4096 * 946" using ceil_blocks_bound(2) by blast
  then obtain e where e: "truncateFile iid (i_dat_len n) ?s = Some (E_SUCCESS, ?s\<lparr>fs_disk := e\<rparr>)"
    "sound_file e iid p (bs @ new_blocks (dsize (fs_disk ?s)) (ceil_blocks (i_dat_len n) - length bs))
       (resized (i_dat_len n) (n\<lparr>i_dat_len := len\<rparr>))"
    "dsize e = dsize (fs_disk ?s) + 4096 * (ceil_blocks (i_dat_len n) - length bs)" "dpos e = dpos (fs_disk ?s)"
    "\<And>a. a < dsize (fs_disk ?s) \<Longrightarrow> \<not> (unat p \<le> a \<and> a < unat p + 4096) \<Longrightarrow> byte_at e a = byte_at (fs_disk ?s) a"
    "\<And>a. dsize (fs_disk ?s) \<le> a \<Longrightarrow> byte_at e a = 0"
    using truncateFile_grow_sound[of ?s iid p bs "n\<lparr>i_dat_len := len\<rparr>" "i_dat_len n"] c(2,3) assms(2,4,5,6) s(4) by auto
  have "resized (i_dat_len n) (n\<lparr>i_dat_len := len\<rparr>) = n"
    using s(4,5) by (simp add: resized_def)
  then have sf2: "sound_file e iid p bs n" using e(2) s(4) by (simp add: new_blocks_def)
  have "byte_at e (data_addr bs j) = byte_at ?d (data_addr bs j)" if j: "j < unat (i_dat_len n)" for j
  proof -
    have j: "j < 4096 * length bs" using j ceil_blocks_bound(1)[of "i_dat_len n"] s(4) by simp
    note b = data_addr_block[OF j]
    have "\<not> (unat p \<le> data_addr bs j \<and> data_addr bs j < unat p + 4096)" using data_addr_not_head[OF fa j] by blast
    moreover have "data_addr bs j < dsize ?d" using block_okD(4)[OF file_atD(4)[OF fa b(1)]] b(4) by simp
    ultimately show ?thesis using e(5)[of "data_addr bs j"] c(3,5) by simp
  qed
  then have "file_bytes e bs 0 (unat (i_dat_len n)) = file_bytes ?d bs 0 (unat (i_dat_len n))"
    by (simp add: file_bytes_def)
  then show ?thesis
    using c(1) e(1) sf2 sound_file_plain[OF c(2)] by auto
qed

theorem truncateFile_keeps_tail_witness:
  "\<exists>s1 s2. truncateFile 1 4 package_f = Some (E_SUCCESS, s1) \<and>
     truncateFile 1 10 s1 = Some (E_SUCCESS, s2) \<and>
     plain_file (fs_disk s1) 1 (blk 1) [blk 2] (sample_node\<lparr>i_dat_len := 4\<rparr>) \<and>
     file_bytes (fs_disk s2) [blk 2] 0 10 = file_bytes (fs_disk package_f) [blk 2] 0 10"
proof -
  have n: "i_dat_len sample_node = 10" by (simp add: sample_node_def)
  have "(4 :: u32) < i_dat_len sample_node" "ceil_blocks 4 = length [blk 2]"
    by (simp_all add: n ceil_blocks_def)
  moreover have "fs_cache package_f = []" by (simp add: package_f_def package1_def fd_simps package0_fields)
  moreover have "dsize (fs_disk package_f) mod 4096 = 0" "dsize (fs_disk package_f) \<le> 2 ^ 31"
    by (simp_all add: package_f_size config)
  ultimately show ?thesis using truncateFile_keeps_tail[OF package_f_sound, of 4] by (auto simp: n)
qed

text \<open>
  C14. Whole contents: on a file that is not longer than the data, with no free block in the cache and
  at most 946 blocks of data, \<^verbatim>\<open>setFileContents\<close> succeeds, and \<^verbatim>\<open>getFileContents\<close> with a
  large enough limit then returns exactly the data and its length and changes nothing.
\<close>

theorem setFileContents_then_getFileContents:
  fixes data :: "byte list"
  assumes "sound_file (fs_disk s) iid p bs n" and "data \<noteq> []" and "length data \<le> 4096 * 946"
    and "unat (i_dat_len n) \<le> length data" and "fs_cache s = []" and "dsize (fs_disk s) mod 4096 = 0"
    and "dsize (fs_disk s) + 4096 * (ceil_blocks (of_nat (length data)) - length bs) \<le> 2 ^ 31"
    and "length data \<le> unat len_max" and "\<And>k. length (fresh k) = k"
  shows "\<exists>s'. setFileContents iid data s = Some (E_SUCCESS, s') \<and>
    getFileContents fresh iid len_max s' = Some ((E_SUCCESS, data, of_nat (length data)), s')"
proof -
  let ?L = "length data" and ?len = "of_nat (length data) :: u32"
  have u: "unat ?len = ?L" using assms(3) by (intro unat_of_nat_small) simp
  have pf0: "plain_file (fs_disk s) iid p bs n" by (rule sound_file_plain[OF assms(1)])
  obtain e1 bs1 n1 where t: "truncateFile iid ?len s = Some (E_SUCCESS, s\<lparr>fs_disk := e1\<rparr>)"
    and sf: "sound_file e1 iid p bs1 n1" and n1: "i_dat_len n1 = ?len"
  proof (cases "i_dat_len n = ?len")
    case True
    have "block_ok (fs_disk s) p" "lookup_at (fs_disk s) iid = p" "inode_at (fs_disk s) (unat p) = n"
      "file_type (i_type n)"
      using pf0 file_atD(5) by (auto simp: plain_file_def)
    then have "truncateFile iid ?len s = Some (E_SUCCESS, s)"
      using getINodeByPosition_plain[of p s] block_okD(4)[of "fs_disk s" p] True
      by (auto simp: truncateFile_def Let_def)
    then show ?thesis using that[of "fs_disk s" bs n] assms(1) True by simp
  next
    case False
    have "unat (i_dat_len n) \<noteq> ?L" using False u by (auto simp: word_unat_eq_iff)
    then have lt: "i_dat_len n < ?len" using assms(4) u by (simp add: word_less_nat_alt)
    have le: "unat ?len \<le> 4096 * 946" using assms(3) u by simp
    show ?thesis
      by (rule truncateFile_grow_sound[OF assms(1) lt le assms(5,6,7)]) (rule that, assumption+, rule resized_len)
  qed
  let ?s1 = "s\<lparr>fs_disk := e1\<rparr>" and ?f = "opened_handle iid"
  have pf: "plain_file (fs_disk ?s1) iid p bs1 n1" using sound_file_plain[OF sf] by simp
  have tr: "file_truncate ?L (getFile iid) s = Some (True, ?s1)"
    using file_truncate_open[OF fresh_handle(1,2), of iid "length data" s E_SUCCESS ?s1] t
    by (simp add: getFile_def fresh_handle)
  have op: "file_open (getFile iid) t = Some (?f, t)" if "plain_file (fs_disk t) iid p bs1 n1" for t
    using file_open_plain[OF that] by (simp add: getFile_def opened_handle_def)
  have fits: "unat (f_posp ?f) + ?L \<le> unat (i_dat_len n1)" by (simp add: opened_handle_fields n1 u)
  have pf': "plain_file (fs_disk ?s1) (f_inodeid ?f) p bs1 n1" using pf by (simp add: opened_handle_fields)
  obtain e2 where w: "file_write data ?f ?s1 = Some (write_done (unat (i_dat_len n1)) (unat (f_posp ?f)) ?L ?f, ?s1\<lparr>fs_disk := e2\<rparr>)"
    "wrote (fs_disk ?s1) bs1 (unat (f_posp ?f)) data e2" "plain_file e2 (f_inodeid ?f) p bs1 n1"
    using write_plain[OF pf' opened_handle_fields(1) assms(2) fits] .
  let ?s2 = "s\<lparr>fs_disk := e2\<rparr>"
  have pf2: "plain_file (fs_disk ?s2) iid p bs1 n1" using w(3) by (simp add: opened_handle_fields)
  have bytes: "file_bytes e2 bs1 0 ?L = data" using wrote_bytes[OF w(2)] by (simp add: opened_handle_fields)
  note ready = write_done_fields(4)[OF opened_handle_fields(1)[of iid], THEN ready_handle_good]
  have close: "file_fail (file_close f) = file_fail f" for f by (simp add: file_close_def file_fail_def)
  have nf: "\<not> file_fail (getFile iid)" by (simp add: getFile_def fresh_handle)
  have set: "setFileContents iid data s = Some (E_SUCCESS, ?s2)"
    unfolding setFileContents_def Let_def
    using tr op[OF pf] w(1) nf by (simp add: opened_handle_fields ready close)
  have sz: "file_size (getFile iid) ?s2 = Some (?len, ?s2)"
    using plain_file_node[OF pf2] by (simp add: file_size_def getFile_def fresh_handle n1)
  have lo: "(if ?len < len_max then ?len else len_max) = ?len"
    using assms(8) u by (auto simp: word_less_nat_alt word_unat_eq_iff)
  have pf2': "plain_file (fs_disk ?s2) (f_inodeid ?f) p bs1 n1" using pf2 by (simp add: opened_handle_fields)
  have L: "0 < ?L" "?L < 2 ^ 32" using assms(2,3) by simp_all
  have "file_read ?L (fresh ?L) ?f ?s2 = Some ((of_nat ?L, buf_put 0 (file_bytes (fs_disk ?s2) bs1 0 ?L) (fresh ?L),
      ?f\<lparr>f_posg := of_nat ?L, f_state := eof_only\<rparr>), ?s2)"
    using read_plain[OF pf2' opened_handle_fields(1) _ L, of "fresh ?L"] assms(9) u L(1)
    by (simp add: opened_handle_fields n1)
  then have rd: "file_read ?L (fresh ?L) ?f ?s2 = Some ((of_nat ?L, data, ?f\<lparr>f_posg := of_nat ?L, f_state := eof_only\<rparr>), ?s2)"
    using bytes assms(9) by (simp add: buf_put_def)
  have "\<not> file_fail (?f\<lparr>f_posg := of_nat ?L, f_state := eof_only\<rparr>)"
    by (simp add: file_fail_def eof_only_def)
  then have "getFileContents fresh iid len_max ?s2 = Some ((E_SUCCESS, data, ?len), ?s2)"
    unfolding getFileContents_def Let_def
    using sz op[OF pf2] rd nf u by (simp add: lo opened_handle_fields close)
  with set show ?thesis by blast
qed

theorem setFileContents_then_getFileContents_witness:
  "\<exists>s'. setFileContents 1 (replicate 5000 7) package_f = Some (E_SUCCESS, s') \<and>
     getFileContents (\<lambda>k. replicate k 0) 1 6000 s' = Some ((E_SUCCESS, replicate 5000 7, 5000), s')"
proof -
  let ?x = "replicate 5000 7 :: byte list"
  have l: "length ?x = 5000" by simp
  have c: "ceil_blocks (of_nat (length ?x)) = 2" by (simp add: ceil_blocks_def)
  have ne: "?x \<noteq> []" by simp
  have b: "length ?x \<le> 4096 * 946" "unat (i_dat_len sample_node) \<le> length ?x" "length ?x \<le> unat (6000 :: u32)"
    unfolding l by (simp_all add: sample_node_def)
  have ca: "fs_cache package_f = []" by (simp add: package_f_def package1_def fd_simps package0_fields)
  have al: "dsize (fs_disk package_f) mod 4096 = 0" by (simp add: package_f_size config)
  have lim: "dsize (fs_disk package_f) + 4096 * (ceil_blocks (of_nat (length ?x)) - length [blk 2]) \<le> 2 ^ 31"
    unfolding c by (simp add: package_f_size config)
  have "\<exists>s'. setFileContents 1 ?x package_f = Some (E_SUCCESS, s') \<and>
     getFileContents (\<lambda>k. replicate k 0) 1 6000 s' = Some ((E_SUCCESS, ?x, of_nat (length ?x)), s')"
    by (rule setFileContents_then_getFileContents[OF package_f_sound ne b(1,2) ca al lim b(3)]) simp
  then show ?thesis unfolding l by simp
qed

end
