(* ===== verification/Spec_Tree.thy ===== *)
theory Spec_Tree
  imports LowFS_Tree Samples
begin

text \<open>
  The properties of directories (\<^verbatim>\<open>libapp/lowlevel/fs.cpp\<close>): adding, removing, enumerating and
  finding children, and resolving paths.
\<close>

text \<open>
  C11. Adding a child refines the update of the directory's map from names: on a directory that
  satisfies its invariant, has a free slot and no child of the new child's name,
  \<^verbatim>\<open>addChildToDirectoryINode\<close> succeeds, touches only the directory's block, keeps the invariants
  of the directory and of the inode table, and afterwards \<^verbatim>\<open>getChildOfDirectory\<close> finds the new
  child under its name and every other name as before.
\<close>

theorem addChild_refines_map_update:
  assumes "tree_ok (fs_disk s)" and "dir_at (fs_disk s) parentid p n" and "dir_wf n"
    and "0 \<in> set (i_children n)" and "childid \<noteq> 0" and "childid \<noteq> parentid" and "childid \<notin> set (i_children n)"
    and "tabled_type (i_type (node_by_id (fs_disk s) childid))"
    and "\<And>c. c \<in> set (used (i_children n)) \<Longrightarrow> cstr (i_filename (node_by_id (fs_disk s) c))
           \<noteq> cstr (i_filename (node_by_id (fs_disk s) childid))"
  shows "\<exists>s' n'. addChildToDirectoryINode parentid childid s = Some (E_SUCCESS, s') \<and> same_outside p s s' \<and>
    tree_ok (fs_disk s') \<and> dir_at (fs_disk s') parentid p n' \<and> dir_wf n' \<and>
    (\<forall>name. getChildOfDirectory parentid name s' = Some (child_named (fs_disk s') parentid name, s') \<and>
      ident (child_named (fs_disk s') parentid name) =
        (if name = cstr (i_filename (node_by_id (fs_disk s) childid)) then ident (node_by_id (fs_disk s) childid)
         else ident (child_named (fs_disk s) parentid name)))"
proof -
  let ?n = "dir_put (slot_index 0 (i_children n)) childid (i_children_count n + 1)
        (fs_clock s (fs_ticks s)) (fs_clock s (Suc (fs_ticks s))) n"
  obtain s' where s': "addChildToDirectoryINode parentid childid s = Some (E_SUCCESS, s')"
    "dir_at (fs_disk s') parentid p ?n" "same_outside p s s'"
    using add_child_state[OF assms(2) assms(6)[symmetric] assms(4)] .
  note tree = dir_change_tree[OF assms(1,2) s'(2,3) ident_dir_put]
  have wf: "dir_wf ?n" by (rule dir_wf_add[OF assms(3,4) dir_atD(7)[OF assms(2)] assms(5,7)])
  have map: "dir_map (fs_disk s') (used (i_children ?n)) =
    (dir_map (fs_disk s) (used (i_children n)))
      (cstr (i_filename (node_by_id (fs_disk s) childid)) := Some (ident (node_by_id (fs_disk s) childid)))"
    using used_add_map[OF assms(9,8,4,5)] dir_map_cong[OF tree(2)] by (simp add: dir_put_def)
  have "ident (child_named (fs_disk s') parentid name) =
        (if name = cstr (i_filename (node_by_id (fs_disk s) childid)) then ident (node_by_id (fs_disk s) childid)
         else ident (child_named (fs_disk s) parentid name))" for name
    unfolding child_named_dir_map[OF s'(2) wf] child_named_dir_map[OF assms(2,3)] map by simp
  then show ?thesis
    using s' tree(1) wf getChildOfDirectory_eq[OF tree_okD(1,2)[OF tree(1)]] by blast
qed

theorem addChild_refines_map_update_witness:
  "\<exists>s' n'. addChildToDirectoryINode 0 1 package_f = Some (E_SUCCESS, s') \<and>
     dir_at (fs_disk s') 0 (blk 0) n' \<and> dir_wf n' \<and>
     ident (child_named (fs_disk s') 0 [0x61]) = ident sample_node"
proof -
  have prem: "0 \<in> set (i_children (root_node 7))" "1 \<notin> set (i_children (root_node 7))"
    "used (i_children (root_node 7)) = []" "tabled_type (i_type (node_by_id (fs_disk package_f) 1))"
    by (simp_all add: root_node_children used_def package_f_child sample_node_def tabled_type_def)
  have "\<exists>s' n'. addChildToDirectoryINode 0 1 package_f = Some (E_SUCCESS, s') \<and> same_outside (blk 0) package_f s' \<and>
    tree_ok (fs_disk s') \<and> dir_at (fs_disk s') 0 (blk 0) n' \<and> dir_wf n' \<and>
    (\<forall>name. getChildOfDirectory 0 name s' = Some (child_named (fs_disk s') 0 name, s') \<and>
      ident (child_named (fs_disk s') 0 name) =
        (if name = cstr (i_filename (node_by_id (fs_disk package_f) 1)) then ident (node_by_id (fs_disk package_f) 1)
         else ident (child_named (fs_disk package_f) 0 name)))"
    by (rule addChild_refines_map_update[OF package_f_tree package_f_dir root_node_children(2)])
       (simp_all add: prem)
  then show ?thesis unfolding package_f_child by auto
qed

text \<open>
  C12. Removing a child refines the deletion in that map: on a directory that satisfies its
  invariant and whose children have different names, \<^verbatim>\<open>removeChildFromDirectoryINode\<close> of one of
  its children succeeds, touches only the directory's block, keeps the invariants, and
  afterwards the child's name is not found and every other name is found as before.
\<close>

theorem removeChild_refines_map_delete:
  assumes "tree_ok (fs_disk s)" and "dir_at (fs_disk s) parentid p n" and "dir_wf n"
    and "childid \<in> set (i_children n)" and "childid \<noteq> 0"
    and "tabled_type (i_type (node_by_id (fs_disk s) childid))"
    and "\<And>c. c \<in> set (used (i_children n)) \<Longrightarrow> c \<noteq> childid \<Longrightarrow> cstr (i_filename (node_by_id (fs_disk s) c))
           \<noteq> cstr (i_filename (node_by_id (fs_disk s) childid))"
  shows "\<exists>s' n'. removeChildFromDirectoryINode parentid childid s = Some (E_SUCCESS, s') \<and> same_outside p s s' \<and>
    tree_ok (fs_disk s') \<and> dir_at (fs_disk s') parentid p n' \<and> dir_wf n' \<and> childid \<notin> set (i_children n') \<and>
    (\<forall>name. getChildOfDirectory parentid name s' = Some (child_named (fs_disk s') parentid name, s') \<and>
      ident (child_named (fs_disk s') parentid name) =
        (if name = cstr (i_filename (node_by_id (fs_disk s) childid)) then ident (new_inode 0 INT_INVALID)
         else ident (child_named (fs_disk s) parentid name)))"
proof -
  let ?n = "dir_put (slot_index childid (i_children n)) 0 (i_children_count n - 1)
        (fs_clock s (fs_ticks s)) (fs_clock s (Suc (fs_ticks s))) n"
  obtain s' where s': "removeChildFromDirectoryINode parentid childid s = Some (E_SUCCESS, s')"
    "dir_at (fs_disk s') parentid p ?n" "same_outside p s s'"
    using remove_child_state[OF assms(2,4)] .
  note tree = dir_change_tree[OF assms(1,2) s'(2,3) ident_dir_put]
  have wf: "dir_wf ?n" "childid \<notin> set (i_children ?n)"
    using dir_wf_remove[OF assms(3-5)] by (simp_all add: dir_put_def)
  have dist: "distinct (used (i_children n))" using assms(3) by (simp add: dir_wf_def)
  have map: "dir_map (fs_disk s') (used (i_children ?n)) =
    (dir_map (fs_disk s) (used (i_children n)))(cstr (i_filename (node_by_id (fs_disk s) childid)) := None)"
    using used_remove_map[OF assms(7,6,4,5) dist] dir_map_cong[OF tree(2)] by (simp add: dir_put_def)
  have "ident (child_named (fs_disk s') parentid name) =
        (if name = cstr (i_filename (node_by_id (fs_disk s) childid)) then ident (new_inode 0 INT_INVALID)
         else ident (child_named (fs_disk s) parentid name))" for name
    unfolding child_named_dir_map[OF s'(2) wf(1)] child_named_dir_map[OF assms(2,3)] map by simp
  then show ?thesis
    using s' tree(1) wf getChildOfDirectory_eq[OF tree_okD(1,2)[OF tree(1)]] by blast
qed

theorem removeChild_refines_map_delete_witness:
  "\<exists>s' n'. removeChildFromDirectoryINode 0 1 package_d = Some (E_SUCCESS, s') \<and>
     dir_at (fs_disk s') 0 (blk 0) n' \<and> dir_wf n' \<and>
     ident (child_named (fs_disk s') 0 [0x61]) = ident (new_inode 0 INT_INVALID)"
proof -
  have node: "i_filename (node_by_id (fs_disk package_d) 1) = i_filename sample_node"
    "i_type (node_by_id (fs_disk package_d) 1) = INT_FILEINFO"
    using package_d_child by (simp_all add: ident_def) (simp add: sample_node_def)
  have ch: "i_children root_node_d = 1 # replicate 1900 0"
    by (simp add: root_node_d_def dir_put_def root_node_children numeral_eq_Suc)
  have prem: "1 \<in> set (i_children root_node_d)" "used (i_children root_node_d) = [1]"
    "tabled_type (i_type (node_by_id (fs_disk package_d) 1))"
    by (simp_all add: ch used_def node tabled_type_def)
  have "\<exists>s' n'. removeChildFromDirectoryINode 0 1 package_d = Some (E_SUCCESS, s') \<and> same_outside (blk 0) package_d s' \<and>
    tree_ok (fs_disk s') \<and> dir_at (fs_disk s') 0 (blk 0) n' \<and> dir_wf n' \<and> 1 \<notin> set (i_children n') \<and>
    (\<forall>name. getChildOfDirectory 0 name s' = Some (child_named (fs_disk s') 0 name, s') \<and>
      ident (child_named (fs_disk s') 0 name) =
        (if name = cstr (i_filename (node_by_id (fs_disk package_d) 1)) then ident (new_inode 0 INT_INVALID)
         else ident (child_named (fs_disk package_d) 0 name)))"
    by (rule removeChild_refines_map_delete[OF package_d_tree(1) package_d_state(1) package_d_tree(2)])
       (simp_all add: prem)
  then show ?thesis unfolding node package_f_child by auto
qed

text \<open>
  Adding a child and removing it again gives back the directory: the same slots and the same
  count, with nothing changed outside its block.
\<close>

theorem addChild_then_removeChild:
  assumes "dir_at (fs_disk s) parentid p n" and "0 \<in> set (i_children n)"
    and "childid \<noteq> parentid" and "childid \<notin> set (i_children n)"
  shows "\<exists>s1 s2 n'. addChildToDirectoryINode parentid childid s = Some (E_SUCCESS, s1) \<and>
    removeChildFromDirectoryINode parentid childid s1 = Some (E_SUCCESS, s2) \<and>
    dir_at (fs_disk s2) parentid p n' \<and> i_children n' = i_children n \<and>
    i_children_count n' = i_children_count n \<and> same_outside p s s2"
proof -
  let ?cs = "i_children n"
  obtain as bs where s: "?cs = as @ 0 # bs" "\<And>v. ?cs[slot_index 0 ?cs := v] = as @ v # bs"
    using slot_split[OF assms(2)] by metis
  let ?n1 = "dir_put (slot_index 0 ?cs) childid (i_children_count n + 1)
        (fs_clock s (fs_ticks s)) (fs_clock s (Suc (fs_ticks s))) n"
  obtain s1 where s1: "addChildToDirectoryINode parentid childid s = Some (E_SUCCESS, s1)"
    "dir_at (fs_disk s1) parentid p ?n1" "same_outside p s s1"
    using add_child_state[OF assms(1) assms(3)[symmetric] assms(2)] .
  have ch: "i_children ?n1 = as @ childid # bs" unfolding dir_put_fields by (rule s(2))
  have new: "childid \<notin> set as" "childid \<in> set (i_children ?n1)" using assms(4) unfolding ch by (simp_all add: s(1))
  have idx: "slot_index childid (i_children ?n1) = length as"
    unfolding ch using new(1) by (rule slot_index_append)
  let ?n2 = "dir_put (slot_index childid (i_children ?n1)) 0 (i_children_count ?n1 - 1)
        (fs_clock s1 (fs_ticks s1)) (fs_clock s1 (Suc (fs_ticks s1))) ?n1"
  obtain s2 where s2: "removeChildFromDirectoryINode parentid childid s1 = Some (E_SUCCESS, s2)"
    "dir_at (fs_disk s2) parentid p ?n2" "same_outside p s1 s2"
    using remove_child_state[OF s1(2) new(2)] .
  have "i_children ?n2 = (i_children ?n1)[slot_index childid (i_children ?n1) := 0]"
    by (rule dir_put_fields)
  also have "\<dots> = ?cs" unfolding idx unfolding ch by (simp add: s(1))
  finally have "i_children ?n2 = ?cs" .
  moreover have "i_children_count ?n2 = i_children_count n" unfolding dir_put_fields by simp
  moreover have "same_outside p s s2" using s1(3) s2(3) by (simp add: same_outside_def)
  ultimately show ?thesis using s1(1) s2(1,2) by blast
qed

theorem addChild_then_removeChild_witness:
  "\<exists>s1 s2 n'. addChildToDirectoryINode 0 1 package_f = Some (E_SUCCESS, s1) \<and>
     removeChildFromDirectoryINode 0 1 s1 = Some (E_SUCCESS, s2) \<and>
     dir_at (fs_disk s2) 0 (blk 0) n' \<and> i_children n' = replicate 1901 0 \<and> i_children_count n' = 0"
proof -
  have "0 \<in> set (i_children (root_node 7))" "1 \<notin> set (i_children (root_node 7))"
    "i_children_count (root_node 7) = 0"
    by (simp_all add: root_node_children) (simp add: root_node_def)
  then show ?thesis
    using addChild_then_removeChild[OF package_f_dir, of 1] unfolding root_node_children by auto
qed

text \<open>
  The failures of the two operations change nothing: a full directory reports the children
  limit, removing a number that is not a child reports an invalid file name, and both report a
  parent that is not a directory.
\<close>

theorem child_operations_fail:
  assumes "dir_at (fs_disk s) parentid p n" and "0 \<notin> set (i_children n)"
    and "childid \<notin> set (i_children n)" and "childid \<noteq> parentid"
    and "block_ok (fs_disk s) (lookup_at (fs_disk s) other)" and "childid \<noteq> other"
    and "u16_at (fs_disk s) (unat (lookup_at (fs_disk s) other) + 2) \<noteq> type_code INT_DIRECTORY"
  shows "addChildToDirectoryINode parentid childid s = Some (E_FAILURE_MAXIMUM_CHILDREN_REACHED, s) \<and>
    removeChildFromDirectoryINode parentid childid s = Some (E_FAILURE_INVALID_FILENAME, s) \<and>
    addChildToDirectoryINode other childid s = Some (E_FAILURE_NOT_A_DIRECTORY, s) \<and>
    removeChildFromDirectoryINode other childid s = Some (E_FAILURE_NOT_A_DIRECTORY, s)"
  using addChild_full[OF assms(1) assms(4)[symmetric] assms(2)] removeChild_absent[OF assms(1,3)]
    addChild_not_directory[OF assms(5) assms(6)[symmetric]] assms(7) by simp

definition full_node :: inode where
  "full_node = (root_node 7)\<lparr>i_children := replicate 1901 9, i_children_count := 1901\<rparr>"

definition package_full :: fsys where
  "package_full = fs_put (unat (blk 0)) (getBinaryRepresentation full_node) package_f"

lemma package_full_dir: "dir_at (fs_disk package_full) 0 (blk 0) full_node"
  and package_full_file: "lookup_at (fs_disk package_full) 1 = blk 1" "block_ok (fs_disk package_full) (blk 1)"
    "u16_at (fs_disk package_full) (unat (blk 1) + 2) = 1"
proof -
  have wf: "inode_wf full_node" "i_type full_node = INT_DIRECTORY" "i_inodeid full_node = 0"
    by (simp_all add: full_node_def root_node_def inode_wf_def config)
  have st: "stored full_node = full_node" "inode_verify full_node"
    by (simp_all add: full_node_def stored_def stored_head_def stored_named_def root_node_def has_data_fields_def
      new_inode_def INode_named_def INode_full_def setFilename_def Let_def inode_verify_def)
  have len: "length (getBinaryRepresentation full_node) = 4096"
    using length_getBinaryRepresentation[OF wf(1)] wf(2) by simp
  have u: "unat (blk 0) = OFFSET_DATA" "unat (blk 1) = OFFSET_DATA + 4096" by (simp_all add: unat_blk)
  have disk: "fs_disk package_full = put_bytes OFFSET_DATA (getBinaryRepresentation full_node) (fs_disk package_f)"
    by (simp add: package_full_def fd_simps u)
  have node: "inode_at (fs_disk package_full) OFFSET_DATA = full_node"
    using inode_at_getBinaryRepresentation[OF wf(1), of OFFSET_DATA "[]"] st by (simp add: disk)
  have "OFFSET_FSINFO \<le> OFFSET_DATA" by (simp add: config)
  then have look: "lookup_at (fs_disk package_full) i = lookup_at (fs_disk package_f) i" for i
    by (simp add: disk lookup_at_put_data)
  have ok: "block_ok (fs_disk package_full) (blk k)" if "k < 3" for k
    unfolding disk by (rule block_ok_put, rule blk_ok) (use that in \<open>simp_all add: package_f_size\<close>)
  show "dir_at (fs_disk package_full) 0 (blk 0) full_node"
    using ok[of 0] wf node by (simp add: dir_at_def look package_f_lookup u)
  show "lookup_at (fs_disk package_full) 1 = blk 1" by (simp add: look package_f_lookup)
  show "block_ok (fs_disk package_full) (blk 1)" using ok[of 1] by simp
  have "inode_at (fs_disk package_f) (unat (blk 1)) = sample_node"
    using package_f_file by (simp add: plain_file_def)
  then have "type_of_code (u16_at (fs_disk package_f) (unat (blk 1) + 2)) = INT_FILEINFO"
    by (intro inode_at_type_code) (simp_all add: sample_node_def)
  then have "u16_at (fs_disk package_f) (unat (blk 1) + 2) = 1"
    by (metis type_code_of_code type_code.simps(2))
  then show "u16_at (fs_disk package_full) (unat (blk 1) + 2) = 1"
    unfolding disk by (subst u16_at_put_other) (simp_all add: len u del: add_2_eq_Suc' One_nat_def)
qed

theorem child_operations_fail_witness:
  "addChildToDirectoryINode 0 5 package_full = Some (E_FAILURE_MAXIMUM_CHILDREN_REACHED, package_full) \<and>
   removeChildFromDirectoryINode 0 5 package_full = Some (E_FAILURE_INVALID_FILENAME, package_full) \<and>
   addChildToDirectoryINode 1 5 package_full = Some (E_FAILURE_NOT_A_DIRECTORY, package_full) \<and>
   removeChildFromDirectoryINode 1 5 package_full = Some (E_FAILURE_NOT_A_DIRECTORY, package_full)"
proof -
  have ch: "0 \<notin> set (i_children full_node)" "5 \<notin> set (i_children full_node)"
    by (simp_all add: full_node_def)
  show ?thesis
    by (rule child_operations_fail[OF package_full_dir ch]) (simp_all add: package_full_file del: One_nat_def add_2_eq_Suc')
qed

text \<open>
  Enumeration: on a sound table \<^verbatim>\<open>getChildrenOfDirectory\<close> returns, in slot order, the inodes of
  the first \<^verbatim>\<open>children_count\<close> used slots that are files, directories, links or devices, nothing for
  a number that is not a directory, and changes nothing.
\<close>

theorem getChildrenOfDirectory_lists:
  assumes "table_ok (fs_disk s)" and "links_ok (fs_disk s)"
  shows "getChildrenOfDirectory pid s =
    (let n = node_by_id (fs_disk s) pid
     in Some (if i_type n = INT_DIRECTORY
              then filter (\<lambda>c. tabled_type (i_type c))
                (map (node_by_id (fs_disk s))
                  (take (unat (i_children_count n)) (filter (\<lambda>c. c \<noteq> 0) (i_children n))))
              else [], s))"
  by (simp add: getChildrenOfDirectory_eq[OF assms] child_nodes_def visited_def Let_def)

theorem getChildrenOfDirectory_lists_witness:
  "getChildrenOfDirectory 1 package_f = Some ([], package_f)"
  using getChildrenOfDirectory_lists[OF tree_okD(1,2)[OF package_f_tree], of 1]
  by (simp add: package_f_child Let_def) (simp add: sample_node_def)

text \<open>
  The check for a free name: \<^verbatim>\<open>filenameIsUnique\<close> reports a clash exactly when a child the
  enumeration shows has that name.
\<close>

theorem filenameIsUnique_iff:
  assumes "table_ok (fs_disk s)" and "links_ok (fs_disk s)"
  shows "\<exists>ns. getChildrenOfDirectory pid s = Some (ns, s) \<and>
    filenameIsUnique pid name s =
      Some (if \<exists>n \<in> set ns. cstr (i_filename n) = name then E_FAILURE_NOT_UNIQUE else E_SUCCESS, s)"
  by (auto simp: filenameIsUnique_eq[OF assms] getChildrenOfDirectory_eq[OF assms])

theorem filenameIsUnique_iff_witness:
  "\<exists>ns. getChildrenOfDirectory 0 package_d = Some (ns, package_d) \<and>
    filenameIsUnique 0 [0x61] package_d =
      Some (if \<exists>n \<in> set ns. cstr (i_filename n) = [0x61] then E_FAILURE_NOT_UNIQUE else E_SUCCESS, package_d)"
  by (rule filenameIsUnique_iff[OF tree_okD(1,2)[OF package_d_tree(1)]])

text \<open>
  Resolving a path: on a sound table \<^verbatim>\<open>resolvePathnameToINodeID\<close> splits the path at its
  separators and walks down from the root, staying at a dot, going to the recorded parent at two
  dots and to the child of that name otherwise; it returns the number reached, or -2 when a step
  finds nothing, and changes nothing.
\<close>

theorem resolvePathname_walks:
  assumes "table_ok (fs_disk s)" and "links_ok (fs_disk s)"
  shows "resolvePathnameToINodeID path s =
    Some (case resolve_spec (fs_disk s) (components path) 0 of Some i \<Rightarrow> int (unat i) | None \<Rightarrow> - 2, s)"
  by (simp add: resolvePathnameToINodeID_def resolve_components_eq resolve_loop_eq[OF assms])

theorem resolvePathname_walks_witness:
  "resolvePathnameToINodeID [slash, 0x2E, slash] package_d = Some (0, package_d)"
  using resolvePathname_walks[OF tree_okD(1,2)[OF package_d_tree(1)], of "[slash, 0x2E, slash]"]
  by (simp add: components_def)

end
