(* ===== verification/Spec_Space.thy ===== *)
theory Spec_Space
  imports Samples
begin

text \<open>
  The properties of the free-block list (\<^verbatim>\<open>libapp/lowlevel/freelist.cpp\<close>) and of the packages
  \<^verbatim>\<open>Util::createPackage\<close> writes.
\<close>

lemma fl_inv_cache: "fl_inv s bs \<Longrightarrow> sorted_map (fs_cache s) \<and> set (fs_cache s) \<subseteq> disk_entries (fs_disk s) (fl_slots bs)"
  by (simp add: fl_inv_def)

lemma fl_inv_sync:
  assumes "fl_inv s bs"
  shows "syncronizeCache s = Some (s\<lparr>fs_cache := add_entries (fs_disk s) (fl_slots bs) []\<rparr>)"
  using assms by (intro syncronizeCache_result) (simp_all add: fl_inv_def)

text \<open>
  C17. Freeing a block keeps the invariant of the free list: the chain of list blocks on disk is
  well formed and duplicate free, the cache is sorted by slot address and every cached pair is
  recorded on disk. Either the block is recorded in a free slot, on disk and in the cache alike,
  or it becomes the last list block and the recorded blocks stay the same.
\<close>

theorem freeBlock_keeps_invariant:
  assumes "fl_inv s bs" and "block_ok (fs_disk s) pos" and "pos \<notin> set bs"
  shows "\<exists>s' bs'. freeBlock pos s = Some s' \<and> fl_inv s' bs' \<and> distinct bs' \<and>
    (bs' = bs \<and> (\<exists>a. a \<in> set (fl_slots bs) \<and> set (fs_cache s') = insert (a, pos) (set (fs_cache s)) \<and>
        disk_entries (fs_disk s') (fl_slots bs') = insert (a, pos) (disk_entries (fs_disk s) (fl_slots bs))) \<or>
     bs' = bs @ [pos] \<and> fs_cache s' = fs_cache s \<and>
        disk_entries (fs_disk s') (fl_slots bs') = disk_entries (fs_disk s) (fl_slots bs))"
proof -
  obtain s' bs' where s': "freeBlock pos s = Some s'" "fl_inv s' bs'"
    "(bs' = bs \<and> (\<exists>a. a \<in> set (fl_slots bs) \<and> set (fs_cache s') = insert (a, pos) (set (fs_cache s)) \<and>
        disk_entries (fs_disk s') (fl_slots bs') = insert (a, pos) (disk_entries (fs_disk s) (fl_slots bs))) \<or>
     bs' = bs @ [pos] \<and> fs_cache s' = fs_cache s \<and>
        disk_entries (fs_disk s') (fl_slots bs') = disk_entries (fs_disk s) (fl_slots bs))"
    using freeBlock_inv[OF assms] by blast
  moreover have "distinct bs'" using s'(2) fl_chain_distinct unfolding fl_inv_def by blast
  ultimately show ?thesis by blast
qed

theorem freeBlock_keeps_invariant_witness:
  "\<exists>s' bs'. freeBlock (blk 2) package2 = Some s' \<and> fl_inv s' bs' \<and> distinct bs'"
proof -
  have "unat (blk 2) \<noteq> unat (blk 1)" by (simp add: unat_blk)
  then have "blk 2 \<notin> set [blk 1]" by auto
  then show ?thesis using freeBlock_keeps_invariant[OF package2_inv(2) package2_block] by blast
qed

text \<open>
  C22. A block allocated from the cache stays on the disk's list: \<^verbatim>\<open>allocateBlock\<close> returns the
  block of the first cache entry, drops the entry and keeps the invariant, but leaves the bytes
  of the package as they were, so that loading the cache again lists the allocated block as free.
\<close>

theorem allocateBlock_leaves_entry_on_disk:
  assumes "fl_inv s bs" and "fs_cache s = (a, b) # rest"
  shows "\<exists>s' c. allocateBlock s = (b, s') \<and> fl_inv s' bs \<and> fs_cache s' = rest \<and>
    byte_at (fs_disk s') = byte_at (fs_disk s) \<and>
    syncronizeCache s' = Some (s'\<lparr>fs_cache := c\<rparr>) \<and> (a, b) \<in> set c"
proof -
  obtain s' where s': "allocateBlock s = (b, s')" "fl_inv s' bs" "fs_cache s' = rest"
    "byte_at (fs_disk s') = byte_at (fs_disk s)" "(a, b) \<in> disk_entries (fs_disk s') (fl_slots bs)"
    using allocateBlock_cached_inv[OF assms] by blast
  then show ?thesis
    using fl_inv_sync[OF s'(2)] syncronizeCache_entries(1)[of "fs_disk s'" "fl_slots bs"] by auto
qed

theorem allocateBlock_leaves_entry_on_disk_witness:
  "\<exists>a s' c. allocateBlock package3 = (blk 2, s') \<and> fs_cache s' = [] \<and>
     syncronizeCache s' = Some (s'\<lparr>fs_cache := c\<rparr>) \<and> (a, blk 2) \<in> set c"
proof -
  obtain a where "fs_cache package3 = [(a, blk 2)]" using package3_inv(3) by blast
  from allocateBlock_leaves_entry_on_disk[OF package3_inv(2) this] show ?thesis by blast
qed

text \<open>
  C27. Loading the cache: on a well-formed chain \<^verbatim>\<open>syncronizeCache\<close> terminates, and the cache is
  then sorted and holds exactly the pairs of slot address and block the list blocks record.
\<close>

theorem syncronizeCache_loads_list:
  assumes "fsinfo_ok (fs_disk s)" and "fl_chain (fs_disk s) (fl_head (fs_disk s)) bs"
  shows "\<exists>c. syncronizeCache s = Some (s\<lparr>fs_cache := c\<rparr>) \<and> sorted_map c \<and>
    set c = {(a, u32_at (fs_disk s) (unat a)) | a. a \<in> set (fl_slots bs) \<and> u32_at (fs_disk s) (unat a) \<noteq> 0}"
  using syncronizeCache_result[OF assms] syncronizeCache_entries[of "fs_disk s" "fl_slots bs"]
  by (auto simp: disk_entries_def)

theorem syncronizeCache_loads_list_witness:
  "\<exists>c. syncronizeCache package3 = Some (package3\<lparr>fs_cache := c\<rparr>) \<and> sorted_map c"
proof -
  have "fsinfo_ok (fs_disk package3)" "fl_chain (fs_disk package3) (fl_head (fs_disk package3)) [blk 1]"
    using package3_inv(2) by (simp_all add: fl_inv_def)
  from syncronizeCache_loads_list[OF this] show ?thesis by blast
qed

text \<open>
  With no cached block \<^verbatim>\<open>allocateBlock\<close> extends the file: on a file whose size is a multiple
  of the block size it returns the old end of the file, the file is one block longer, the new
  block is zero and the old bytes are the same.
\<close>

theorem allocateBlock_extends_file:
  assumes "fs_cache s = []" and "dsize (fs_disk s) mod 4096 = 0" and "dsize (fs_disk s) + 4096 < 2 ^ 32"
  shows "\<exists>s'. allocateBlock s = (of_nat (dsize (fs_disk s)), s') \<and>
    dsize (fs_disk s') = dsize (fs_disk s) + 4096 \<and> fs_cache s' = [] \<and>
    (\<forall>a. byte_at (fs_disk s') a = (if a < dsize (fs_disk s) then byte_at (fs_disk s) a else 0))"
proof -
  let ?n = "dsize (fs_disk s)"
  have n: "?n < 2 ^ 32" "?n mod 2 ^ 32 = ?n" using assms(3) by simp_all
  have al: "align_up ?n = of_nat ?n" by (rule align_up_aligned[OF n(1) assms(2)])
  have u: "unat (of_nat ?n :: u32) = ?n" by (rule unat_of_nat_small[OF n(1)])
  have "byte_at (fs_disk s) a = 0" if "?n \<le> a" for a using that by (simp add: byte_at_def)
  then show ?thesis
    unfolding allocateBlock_new[OF assms(1)] n(2) al Let_def u
    by (auto simp: fd_simps assms(1) byte_at_put_bytes)
qed

theorem allocateBlock_extends_file_witness:
  "\<exists>s'. allocateBlock package0 = (blk 1, s') \<and> dsize (fs_disk s') = OFFSET_DATA + 8192 \<and> fs_cache s' = []"
  using allocateBlock_extends_file[of package0]
  by (auto simp: package0_fields package0_layout blk_def config)

text \<open>
  A freed block is the next one allocated: when nothing else is cached and a list block has
  a free slot, \<^verbatim>\<open>freeBlock\<close> followed by \<^verbatim>\<open>allocateBlock\<close> returns the block that was freed.
\<close>

theorem freeBlock_then_allocateBlock:
  assumes "fl_inv s bs" and "fs_cache s = []" and "first_slot (fs_disk s) bs 0 = Some a" and "pos \<noteq> 0"
  shows "\<exists>s1 s2. freeBlock pos s = Some s1 \<and> allocateBlock s1 = (pos, s2) \<and> fs_cache s2 = []"
proof -
  have "fsinfo_ok (fs_disk s)" "fl_chain (fs_disk s) (fl_head (fs_disk s)) bs"
    using assms(1) by (simp_all add: fl_inv_def)
  from freeBlock_slot[OF this assms(3), of pos]
  have f: "freeBlock pos s = Some (fs_put (unat a) (enc32 pos) (s\<lparr>fs_cache := [(a, pos)]\<rparr>))"
    by (simp add: assms(2))
  have c: "fs_cache (fs_put (unat a) (enc32 pos) (s\<lparr>fs_cache := [(a, pos)]\<rparr>)) = [(a, pos)]"
    by (simp add: fs_put_def)
  show ?thesis using f allocateBlock_cached[OF c] by auto
qed

theorem freeBlock_then_allocateBlock_witness:
  "\<exists>s1 s2. freeBlock (blk 2) package2 = Some s1 \<and> allocateBlock s1 = (blk 2, s2) \<and> fs_cache s2 = []"
  using first_slot_package2 freeBlock_then_allocateBlock[OF package2_inv(2,3) _ block_okD(5)[OF package2_block]]
  by blast

text \<open>
  A package \<^verbatim>\<open>createPackage\<close> wrote opens and is sound: it is 3 MiB + 256 KiB + 8 KiB long, has
  a file system block and an empty free list, its lookup table holds the root directory at the
  first data block and nothing else, the root is an empty directory, opening it gives an
  empty cache, and it satisfies the invariant of the operations on paths.
\<close>

theorem createPackage_opens:
  "\<exists>s. FreeList_new (createPackage rtime appname appver appdesc appauthor) clk = Some s \<and>
    fs_disk s = createPackage rtime appname appver appdesc appauthor \<and> pkg_inv s [] \<and> fs_cache s = [] \<and>
    dsize (fs_disk s) = 3 * 1024 * 1024 + 256 * 1024 + 8192 \<and> tree_ok (fs_disk s) \<and>
    (\<forall>i. lookup_at (fs_disk s) i = (if i = 0 then of_nat OFFSET_DATA else 0)) \<and>
    getChildrenOfDirectory 0 s = Some ([], s) \<and>
    getINodeByID 0 s = Some (root_node rtime, s)"
proof -
  let ?d = "createPackage rtime appname appver appdesc appauthor"
  let ?s = "\<lparr>fs_disk = ?d, fs_cache = [], fs_reserved = [], fs_clock = clk, fs_ticks = 0\<rparr>"
  note l = createPackage_layout[OF refl, of rtime appname appver appdesc appauthor]
  note ok = createPackage_ok[OF refl, of rtime appname appver appdesc appauthor]
  have size: "dsize ?d = 3 * 1024 * 1024 + 256 * 1024 + 8192" by (simp add: l(1) config)
  have blk: "block_ok ?d (of_nat OFFSET_DATA)"
    by (simp add: block_ok_def checkINodePositionIsValid_iff unat_OFFSET_DATA l(1)) (simp add: config)
  have tree: "tree_ok ?d" using blk ok(4) by (simp add: tree_ok_def l(5))
  have root: "node_by_id ?d 0 = root_node rtime"
    by (simp add: node_by_id_def link_target_view_def createPackage_raw[OF refl] root_node_wf)
  have "visited (root_node rtime) = []" by (simp add: visited_def root_node_def)
  then have "getChildrenOfDirectory 0 ?s = Some ([], ?s)"
    using getChildrenOfDirectory_eq[of ?s 0] ok(3,4) by (simp add: root child_nodes_def)
  moreover have "getINodeByID 0 ?s = Some (root_node rtime, ?s)" using getINodeByID_eq[of ?s 0] ok(3,4) root by simp
  moreover have "pkg_inv ?s []" by (rule fresh_package_inv) simp_all
  ultimately show ?thesis using FreeList_new_package[OF refl] tree size l(5) by (intro exI[of _ ?s]) simp
qed

end
