(* ===== verification/Spec_Store.thy ===== *)
theory Spec_Store
  imports Samples
begin

text \<open>
  The properties of the stream and the codec, of the inode table, and of the path and argument
  utilities (\<^verbatim>\<open>libapp/lowlevel\<close>: \<^verbatim>\<open>blockstream.cpp\<close>, \<^verbatim>\<open>endian.cpp\<close>, \<^verbatim>\<open>inode.cpp\<close>, \<^verbatim>\<open>fs.cpp\<close>,
  \<^verbatim>\<open>util.cpp\<close>; \<^verbatim>\<open>libapp/environment.cpp\<close>).
\<close>

lemma tabled_not_special:
  "tabled_type ty \<Longrightarrow> ty \<noteq> INT_SEGINFO \<and> ty \<noteq> INT_FREELIST \<and> ty \<noteq> INT_FSINFO"
  by (auto simp: tabled_type_def)

lemma table_ok_put:
  assumes t: "table_ok d" and size: "dsize d \<le> dsize e"
    and look: "\<And>i. lookup_at e i = lookup_at d i \<or> unat (lookup_at e i) + 4096 \<le> dsize e"
  shows "table_ok e"
  using assms unfolding table_ok_def by (metis order_trans)

text \<open>
  C23. What is written is read back: \<^verbatim>\<open>writeINode\<close> of a well-formed inode of a file, directory,
  link or device at a valid position under an unused number succeeds, enters the position in the
  lookup table, changes no other entry, ends the number's reservation, and reading the number
  returns the fields that inodes of its type store.
\<close>

theorem writeINode_read_back:
  assumes "table_ok (fs_disk s)" and "inode_wf n" and "tabled_type (i_type n)" and "inode_verify n"
    and "inode_verify (stored n)" and "checkINodePositionIsValid pos = E_SUCCESS"
    and "lookup_at (fs_disk s) (i_inodeid n) = 0"
  shows "\<exists>s'. writeINode pos n s = (E_SUCCESS, s') \<and> table_ok (fs_disk s') \<and>
    (\<forall>i. lookup_at (fs_disk s') i = (if i = i_inodeid n then pos else lookup_at (fs_disk s) i)) \<and>
    fs_reserved s' = remove1 (i_inodeid n) (fs_reserved s) \<and>
    getRealINodeByID (i_inodeid n) s' = (stored n, s')"
proof -
  let ?s = "unreserveINodeID (i_inodeid n)
       (fs_put (lookup_addr (i_inodeid n)) (enc32 pos) (fs_put (unat pos) (block_image n) s))"
  let ?d1 = "put_bytes (unat pos) (block_image n) (fs_disk s)"
  have pos: "OFFSET_DATA \<le> unat pos" using assms(6) by (simp add: checkINodePositionIsValid_iff)
  have disk: "fs_disk ?s = put_bytes (lookup_addr (i_inodeid n)) (enc32 pos) ?d1" by (simp add: fd_simps)
  have look: "lookup_at (fs_disk ?s) i = (if i = i_inodeid n then pos else lookup_at (fs_disk s) i)" for i
    using pos lookup_at_put_data[of "unat pos" "block_image n" "fs_disk s" i]
    by (auto simp: disk lookup_at_put_lookup config)
  have size: "dsize (fs_disk s) \<le> dsize ?d1" "dsize ?d1 \<le> dsize (fs_disk ?s)" "unat pos + 4096 \<le> dsize ?d1"
    using length_block_image[OF assms(2)] unfolding disk by (auto simp: le_max_iff_disj)
  have tab: "table_ok (fs_disk ?s)"
    by (rule table_ok_put[OF assms(1)]) (use size look in \<open>auto intro: order_trans\<close>)
  have n: "inode_at (fs_disk ?s) (unat pos) = stored n"
  proof -
    have "lookup_addr (i_inodeid n) + 4 \<le> unat pos"
      using lookup_addr_bounds(2)[of "i_inodeid n"] pos by (simp add: config)
    then show ?thesis
      using inode_at_getBinaryRepresentation[OF assms(2)] assms(5)
      by (subst disk) (simp add: inode_at_put_apart block_image_def)
  qed
  have "raw_by_id (fs_disk ?s) (i_inodeid n) = stored n"
    using pos n by (auto simp: raw_by_id_def look Let_def config)
  then have "getRealINodeByID (i_inodeid n) ?s = (stored n, ?s)" using getRealINodeByID_eq[OF tab] by simp
  then show ?thesis
    using writeINode_tabled[OF assms(6,4,3,7)] tab look
    by (intro exI[of _ ?s]) (simp add: fd_simps)
qed

theorem writeINode_read_back_witness:
  "\<exists>s'. writeINode (blk 1) sample_node package0 = (E_SUCCESS, s') \<and>
     lookup_at (fs_disk s') 1 = blk 1 \<and> getRealINodeByID 1 s' = (sample_node, s')"
proof -
  have n: "i_inodeid sample_node = 1" "tabled_type (i_type sample_node)"
    by (simp_all add: sample_node_def tabled_type_def)
  have v: "inode_verify (stored sample_node)" "checkINodePositionIsValid (blk 1) = E_SUCCESS"
    "lookup_at (fs_disk package0) (i_inodeid sample_node) = 0"
    using sample_node_wf(2,3) package1_blocks(2) by (simp_all add: block_ok_def n package0_layout del: One_nat_def)
  from writeINode_read_back[OF package0_layout(3) sample_node_wf(1) n(2) sample_node_wf(3) v]
  show ?thesis unfolding n(1) sample_node_wf(2) by auto
qed

text \<open>
  Updating an inode in place: \<^verbatim>\<open>updateINode\<close> of a tabled inode whose number is in the table
  succeeds, the package keeps its size and table, the inode's block then holds the new fields and
  the inode of every other block is the same.
\<close>

theorem updateINode_in_place:
  assumes "inode_wf n" and "tabled_type (i_type n)" and "inode_verify n" and "inode_verify (stored n)"
    and "lookup_at (fs_disk s) (i_inodeid n) = p" and "block_ok (fs_disk s) p"
  shows "\<exists>s'. updateINode n s = (E_SUCCESS, s') \<and> dsize (fs_disk s') = dsize (fs_disk s) \<and>
    lookup_at (fs_disk s') = lookup_at (fs_disk s) \<and> inode_at (fs_disk s') (unat p) = stored n \<and>
    (\<forall>q. unat q mod 4096 = 0 \<longrightarrow> q \<noteq> p \<longrightarrow>
       inode_at (fs_disk s') (unat q) = inode_at (fs_disk s) (unat (q :: u32)))"
proof -
  obtain s' where s': "updateINode n s = (E_SUCCESS, s')" and rep: "replaced s p n 0 s'"
    using updateINode_disk[OF assms(2,3,5,6)] by (auto simp: replaced_def)
  show ?thesis
    using s' replaced_size[OF rep assms(6,1)] replaced_lookup[OF rep assms(6)]
      replaced_self[OF rep assms(1)] assms(4) replaced_other[OF rep assms(6,1)] by blast
qed

theorem updateINode_in_place_witness:
  "\<exists>s'. updateINode (sample_node\<lparr>i_mask := 7\<rparr>) package_f = (E_SUCCESS, s') \<and>
     inode_at (fs_disk s') (unat (blk 1)) = sample_node\<lparr>i_mask := 7\<rparr>"
proof -
  let ?n = "sample_node\<lparr>i_mask := 7\<rparr>"
  have n: "inode_wf ?n" "tabled_type (i_type ?n)" "inode_verify ?n" "stored ?n = ?n" "i_inodeid ?n = 1"
    by (simp_all add: sample_node_def inode_wf_def stored_def stored_head_def stored_named_def tabled_type_def
      has_data_fields_def new_inode_def INode_named_def INode_full_def setFilename_def Let_def config inode_verify_def)
  have p: "lookup_at (fs_disk package_f) (i_inodeid ?n) = blk 1" "block_ok (fs_disk package_f) (blk 1)"
    unfolding n(5) using tree_okD(3)[OF package_f_tree, of 1] block_okD(5)[OF package1_blocks(2)]
    by (simp_all add: package_f_lookup del: One_nat_def)
  show ?thesis
    using updateINode_in_place[OF n(1-3) _ p] n(3,4) by auto
qed

text \<open>
  C24. The number of a new inode: with number 65535 not reserved, \<^verbatim>\<open>getFirstFreeINodeNumber\<close>
  terminates and returns the least number that is neither in the table nor reserved, and 0 when
  there is none.
\<close>

theorem getFirstFreeINodeNumber_least:
  assumes "65535 \<notin> set (fs_reserved s)" and "OFFSET_FSINFO \<le> dsize (fs_disk s)"
  shows "\<exists>k. getFirstFreeINodeNumber s = Some (k, s) \<and>
    (if \<exists>i. lookup_at (fs_disk s) i = 0 \<and> i \<notin> set (fs_reserved s)
     then lookup_at (fs_disk s) k = 0 \<and> k \<notin> set (fs_reserved s) \<and>
       (\<forall>j < k. lookup_at (fs_disk s) j \<noteq> 0 \<or> j \<in> set (fs_reserved s))
     else k = 0)"
proof -
  obtain k where k: "\<And>j. unat j < unat k \<Longrightarrow> inode_taken s j"
    "getFirstFreeINodeNumber s = Some (if k = 65535 \<and> inode_taken s k then 0 else k, s)"
    "k = 65535 \<or> \<not> inode_taken s k"
    using getFirstFreeINodeNumber_result[OF assms] by metis
  show ?thesis
  proof (cases "inode_taken s k")
    case True
    then have "k = 65535" using k(3) by simp
    moreover have "inode_taken s i" for i
    proof (cases "i = k")
      case False
      have "unat i < 65536" "unat k = 65535" using unsigned_less[of i] \<open>k = 65535\<close> by simp_all
      moreover have "unat i \<noteq> unat k" using False by (simp add: word_unat_eq_iff)
      ultimately show ?thesis using k(1)[of i] by simp
    qed (use True in simp)
    ultimately show ?thesis using k(2) True by (auto simp: inode_taken_def)
  next
    case False
    then show ?thesis using k(1,2) by (auto simp: inode_taken_def word_less_nat_alt)
  qed
qed

theorem getFirstFreeINodeNumber_least_witness:
  "\<exists>k. getFirstFreeINodeNumber package0 = Some (k, package0) \<and> lookup_at (fs_disk package0) k = 0"
proof -
  have "65535 \<notin> set (fs_reserved package0)" "OFFSET_FSINFO \<le> dsize (fs_disk package0)"
    by (simp_all add: package0_fields package0_layout config)
  moreover have "lookup_at (fs_disk package0) 1 = 0 \<and> 1 \<notin> set (fs_reserved package0)"
    by (simp add: package0_fields package0_layout)
  ultimately show ?thesis using getFirstFreeINodeNumber_least[of package0] by (auto split: if_splits)
qed

text \<open>
  The lookup table is a map: after \<^verbatim>\<open>setINodePositionByID\<close> a lookup of the number returns the
  position and every other number what it had; a position that is neither 0 nor a block of the
  data area below 2 GiB is refused and nothing changes.
\<close>

theorem setINodePositionByID_update:
  "setINodePositionByID i pos s =
     (if pos = 0 \<or> OFFSET_DATA \<le> unat pos \<and> unat pos < 2 ^ 31 \<and> unat pos mod 4096 = 0
      then (E_SUCCESS, snd (setINodePositionByID i pos s)) else (E_FAILURE_INVALID_POSITION, s)) \<and>
   fst (getINodePositionByID j (snd (setINodePositionByID i pos s))) =
     (if i = j \<and> fst (setINodePositionByID i pos s) = E_SUCCESS then pos else fst (getINodePositionByID j s))"
  by (simp add: setINodePositionByID_eq checkINodePositionIsValid_iff fd_simps lookup_at_put_lookup)

text \<open>
  C26. Reading an inode by its number terminates when the table is sound and no hard link leads to
  another, changes nothing, and returns for a hard link the target's fields under the link's name
  with the link's number kept aside.
\<close>

theorem getINodeByID_resolves:
  assumes "table_ok (fs_disk s)" and "links_ok (fs_disk s)"
  shows "getINodeByID iid s = Some
    (let n = fst (getRealINodeByID iid s); t = fst (getRealINodeByID (i_realid n) s)
     in if i_type n = INT_HARDLINK \<and> i_realid n \<noteq> 0
        then t\<lparr>i_realid := i_inodeid n, i_realfilename := copyFilename (i_filename t),
               i_filename := copyFilename (i_filename n)\<rparr>
        else n, s)"
  by (simp add: getINodeByID_eq[OF assms] getRealINodeByID_eq[OF assms(1)] node_by_id_def
      link_target_view_def link_view_def Let_def)

theorem getINodeByID_resolves_witness:
  "getINodeByID 1 package_f = Some (sample_node, package_f)"
  using getINodeByID_resolves[OF tree_okD(1,2)[OF package_f_tree], of 1]
  by (simp add: getRealINodeByID_eq[OF tree_okD(1)[OF package_f_tree]] package_f_raw Let_def)
     (simp add: sample_node_def)

section \<open>Streams\<close>

text \<open>
  C29. On a stream that opened, every call but \<^verbatim>\<open>close\<close> returns, takes effect on the file as the
  operation on the file's bytes does, and leaves the stream ready; so does every sequence of such
  calls.
\<close>

theorem ready_stream_refines_disk:
  assumes "bs_ready s"
  shows "bs_write data s = (Returned (), s\<lparr>bs_disk := disk_write data (bs_disk s)\<rparr>) \<and>
    bs_read n s = (Returned (fst (disk_read n (bs_disk s))), s\<lparr>bs_disk := snd (disk_read n (bs_disk s))\<rparr>) \<and>
    bs_seekp q dir s = (Returned (), s\<lparr>bs_disk := seek_from dir q (bs_disk s)\<rparr>) \<and>
    bs_seekg q dir s = bs_seekp q dir s \<and> bs_tellp s = (Returned (dpos (bs_disk s)), s) \<and> bs_tellg s = bs_tellp s \<and>
    (\<forall>cs t. bs_run s cs t \<longrightarrow> CallClose \<notin> set cs \<longrightarrow> bs_ready t)"
  using bs_run_ready[OF _ assms]
  by (auto simp: bs_call_defs bs_guarded_ready[OF assms] split: prod.split)

theorem ready_stream_refines_disk_witness:
  "bs_write [1] (BlockStream_new (Some empty_file) empty_file)
     = (Returned (), (BlockStream_new (Some empty_file) empty_file)
         \<lparr>bs_disk := disk_write [1] (bs_disk (BlockStream_new (Some empty_file) empty_file))\<rparr>)"
  using ready_stream_refines_disk[OF BlockStream_new_ready] by blast



text \<open>
  The codec on a little-endian machine: what \<^verbatim>\<open>Endian::doW\<close> writes \<^verbatim>\<open>Endian::doR\<close> reads back
  from the same place, whatever the variable held before, and the stream then stands behind it.
\<close>

theorem endian_round_trip:
  assumes "length old = length data"
  shows "\<exists>d'. endian_doW True fresh data d = Some d' \<and> dpos d' = dpos d + length data \<and>
    endian_doR True fresh' old (disk_seek (dpos d) d') = (Some data, d')"
proof -
  let ?d = "disk_write data d"
  have "slice (byte_at ?d) (dpos d) (length data) = data"
    by (rule nth_equalityI) (simp_all add: disk_simps byte_at_put_bytes)
  moreover have "dpos (disk_seek (dpos d) ?d) + length old \<le> dsize (disk_seek (dpos d) ?d) \<or> data = []"
    using assms by (simp add: disk_simps)
  moreover have "disk_seek (dpos d + length data) ?d = ?d"
    using disk_seek_simps(5)[of ?d] by (simp add: disk_simps)
  ultimately have "doR old (disk_seek (dpos d) ?d) = (data, ?d)"
    using assms by (cases "data = []") (auto simp: doR_inside after_read_inside disk_simps doR_def disk_read_def disk_write_def disk_seek_def)
  then show ?thesis
    by (simp add: endian_doR_little endian_doW_little doW_def disk_simps)
qed

theorem endian_round_trip_witness:
  "\<exists>d'. endian_doW True [] [1, 2] empty_file = Some d' \<and>
     endian_doR True [] [0, 0] (disk_seek 0 d') = (Some [1, 2], d')"
  using endian_round_trip[of "[0, 0]" "[1, 2]" "[]" empty_file "[]"] by (auto simp: empty_file_def)

text \<open>
  C30. On a big-endian machine \<^verbatim>\<open>Endian::doR\<close> and \<^verbatim>\<open>Endian::doW\<close> index their buffer at its length, one
  past its end, as soon as there is a byte to move.
\<close>

theorem big_endian_out_of_bounds:
  assumes "data \<noteq> []"
  shows "fst (endian_doR False fresh data d) = None \<and> endian_doW False fresh data d = None"
  using swap_in_out_of_bounds[OF assms] swap_out_out_of_bounds[OF assms]
  by (simp add: endian_doR_def endian_doW_def Let_def split: prod.split)

theorem big_endian_out_of_bounds_witness:
  "endian_doW False [0, 0] [1, 2] empty_file = None"
  using big_endian_out_of_bounds[of "[1, 2]"] by simp

section \<open>Paths and arguments\<close>

text \<open>
  C31. The two path splitters, \<^verbatim>\<open>Util::splitPathBySeperators\<close> and the one inside
  \<^verbatim>\<open>resolvePathnameToINodeID\<close>, agree on every path; no component they return is empty or holds a
  separator, and joining components with separators and splitting gives them back, so the base
  name of a joined path is its last component.
\<close>

theorem path_splitters_agree:
  "splitPathBySeperators path = resolve_components path \<and>
   (\<forall>c \<in> set (splitPathBySeperators path). c \<noteq> [] \<and> slash \<notin> set c) \<and>
   splitPathBySeperators (join (splitPathBySeperators path)) = splitPathBySeperators path \<and>
   splitPathBySeperators (path @ slash # rest) = splitPathBySeperators path @ splitPathBySeperators rest"
  using components_sound[of _ path] components_join[of "components path"]
  by (auto simp: splitPathBySeperators_components resolve_components_eq components_append_slash)

theorem path_splitters_agree_witness:
  "splitPathBySeperators [slash, slash, 0x61, slash, 0x62, slash] = [[0x61], [0x62]] \<and>
   resolve_components [slash, slash, 0x61, slash, 0x62, slash] = [[0x61], [0x62]]"
  using path_splitters_agree[of "[slash, slash, 0x61, slash, 0x62, slash]" "[]"]
  by (auto simp: splitPathBySeperators_components components_def)

text \<open>
  The stored name of a path: for a base name without NUL, \<^verbatim>\<open>copyBasenameToFilename\<close> refuses
  256 characters and more, and otherwise fills the name field with the base name, padded with
  NULs, so that the field read as a C string is the base name.
\<close>

theorem copyBasename_stores_name:
  assumes "0 \<notin> set (extractBasenameFromPath path)"
  shows "case copyBasenameToFilename path old of
      None \<Rightarrow> length (extractBasenameFromPath path) \<ge> 256
    | Some name \<Rightarrow> length (extractBasenameFromPath path) < 256 \<and> length name = 256 \<and>
        cstr name = extractBasenameFromPath path"
  using copyBasenameToFilename_result[OF assms, of old] cstr_append_zeros[OF assms]
  by (simp add: Let_def split: if_split)

theorem copyBasename_stores_name_witness:
  "\<exists>name. copyBasenameToFilename [slash, 0x61] [] = Some name \<and> cstr name = [0x61]"
proof -
  have b: "extractBasenameFromPath [slash, 0x61] = [0x61]"
    by (simp add: extractBasenameFromPath_def splitPathBySeperators_components components_def Let_def)
  then have "0 \<notin> set (extractBasenameFromPath [slash, 0x61])" by simp
  from copyBasename_stores_name[OF this, of "[]"] show ?thesis by (auto simp: b split: option.splits)
qed

text \<open>
  Quoting arguments loses nothing: a reader of double-quoted words in which only the quote and
  the backslash are special gets from what \<^verbatim>\<open>Util::sanitizeArguments\<close> appends exactly the
  arguments, whatever characters they hold.
\<close>

theorem sanitizeArguments_round_trip:
  "\<exists>quoted. sanitizeArguments argv command = command @ quoted \<and> read_words (length argv) quoted = Some argv"
  using sanitizeArguments_append[of argv command "[]"] read_words_sanitize[of argv] by auto

text \<open>
  Searching for binaries: with \<^verbatim>\<open>PATH\<close> a list of non-empty directories without a colon,
  \<^verbatim>\<open>searchForBinaries\<close> answers for each name, in order, whether one of the directories holds it;
  without \<^verbatim>\<open>PATH\<close> nothing is found.
\<close>

theorem searchForBinaries_answers:
  assumes "dirs \<noteq> []" and "\<And>p. p \<in> set dirs \<Longrightarrow> colon \<notin> set p \<and> p \<noteq> []"
  shows "searchForBinaries exists (Some (join_env dirs)) names
       = map (\<lambda>b. \<exists>p \<in> set dirs. exists (p @ slash # b)) names \<and>
    searchForBinaries exists None names = map (\<lambda>_. False) names"
  using searchForBinaries_path[OF assms, where ex = exists and bins = names] by (simp add: searchForBinaries_def)

theorem searchForBinaries_answers_witness:
  "searchForBinaries (\<lambda>p. p = [0x62, slash, 0x78]) (Some [0x61, colon, 0x62]) [[0x78], [0x79]] = [True, False]"
proof -
  have "\<And>p. p \<in> set [[0x61], [0x62]] \<Longrightarrow> colon \<notin> set p \<and> p \<noteq> []" by auto
  from searchForBinaries_answers[where dirs = "[[0x61], [0x62]]" and exists = "\<lambda>p. p = [0x62, slash, 0x78]" and names = "[[0x78], [0x79]]", OF _ this]
  show ?thesis by simp
qed

end
