(* ===== verification/AppFS_PathMap.thy ===== *)
theory AppFS_PathMap
  imports AppFS_Sound
begin

text \<open>
  A package as a map from paths to inodes. An inode has one path, so an operation that changes what one name of one
  directory leads to changes the map at one path.
\<close>

section \<open>An inode has one path\<close>

lemma child_named_listed:
  assumes ok: "pkg_ok d" and ne: "i_type (child_named d q name) \<noteq> INT_INVALID"
  obtains c where "listed_in d q c" and "child_named d q name = node_by_id d c" and "node_name d c = name" and "c \<noteq> 0"
proof -
  obtain c where c: "c \<in> set (visited (node_by_id d q))" "child_named d q name = node_by_id d c"
    "cstr (i_filename (child_named d q name)) = name"
    using child_named_node[OF ne] by metis
  have dir: "i_type (node_by_id d q) = INT_DIRECTORY" using c(1) visited_not_directory[of d q] by fastforce
  have raw: "node_by_id d q = raw_by_id d q"
    using pkg_link(3)[OF ok, of q] dir by (intro node_plain) auto
  have "c \<in> set (i_children (raw_by_id d q))" "c \<noteq> 0" using c(1) unfolding raw by (auto simp: visited_def dest: in_set_takeD)
  then have "listed_in d q c" using dir raw by (simp add: listed_in_def used_def)
  then show ?thesis using that c(2,3) \<open>c \<noteq> 0\<close> by (simp add: node_name_def)
qed

lemma node_number:
  assumes ok: "pkg_ok d" and ne: "i_type (node_by_id d j) \<noteq> INT_INVALID"
  shows "i_type (raw_by_id d (i_inodeid (node_by_id d j))) = i_type (node_by_id d j)"
proof (cases "i_type (raw_by_id d j) = INT_HARDLINK")
  case True
  let ?r = "i_realid (raw_by_id d j)"
  note l = pkg_link[OF ok True]
  have "i_type (raw_by_id d ?r) \<noteq> INT_INVALID" using pkg_okD(5)[OF ok True] by auto
  then have "i_inodeid (raw_by_id d ?r) = ?r" by (intro pkg_okD(3)[OF ok] raw_type_used)
  then show ?thesis by (simp add: l(2) link_view_def)
next
  case False
  note n = node_plain[OF False]
  have "lookup_at d j \<noteq> 0" using raw_type_used[of d j] ne n by simp
  then show ?thesis using pkg_okD(3)[OF ok] n by simp
qed

text \<open>The last step of a path to a directory.\<close>

lemma locate_last:
  assumes ok: "pkg_ok d" and p: "locate d (xs @ [x]) = Some p"
  obtains q c where "locate d xs = Some q" and "i_type q = INT_DIRECTORY" and "listed_in d (i_inodeid q) c"
    and "p = node_by_id d c" and "node_name d c = x" and "c \<noteq> 0"
proof -
  have root: "i_type (node_by_id d 0) \<noteq> INT_INVALID" using pkg_rooted[OF ok] by (simp add: rooted_def)
  obtain q where q: "locate d xs = Some q" "i_type (child_named d (i_inodeid q) x) \<noteq> INT_INVALID"
    "p = child_named d (i_inodeid q) x"
    using p locate_snoc[OF root, of xs x] by (auto split: option.splits if_splits)
  obtain c where c: "listed_in d (i_inodeid q) c" "p = node_by_id d c" "node_name d c = x" "c \<noteq> 0"
    using child_named_listed[OF ok q(2)] q(3) by metis
  obtain j where j: "q = node_by_id d j" "i_type q \<noteq> INT_INVALID" by (rule locate_node[OF q(1)])
  have "i_type q = INT_DIRECTORY" using node_number[OF ok, of j] j c(1) by (simp add: listed_in_def)
  then show ?thesis using that q(1) c by blast
qed

lemma locate_unique:
  assumes ok: "pkg_ok d" and sole: "sole_entries d"
    and "locate d us = Some m" and "locate d vs = Some n" and "i_inodeid m = i_inodeid n"
    and "i_type m = INT_DIRECTORY" and "i_type n = INT_DIRECTORY"
  shows "us = vs"
  using assms(3-)
proof (induction us arbitrary: vs m n rule: rev_induct)
  case Nil
  have "m = node_by_id d 0" using Nil(1) by (auto simp: locate_def split: if_splits)
  then have "i_inodeid n = 0" using pkg_directory(3)[OF ok, of 0] Nil by simp
  then show ?case
    using locate_last[OF ok] Nil(2,5) pkg_directory(3)[OF ok] by (cases vs rule: rev_cases) metis+
next
  case (snoc x xs)
  obtain q c where q: "locate d xs = Some q" "i_type q = INT_DIRECTORY" "listed_in d (i_inodeid q) c"
    "m = node_by_id d c" "node_name d c = x" "c \<noteq> 0"
    using locate_last[OF ok snoc.prems(1)] .
  have mc: "i_inodeid m = c" using pkg_directory(3)[OF ok, of c] q(4) snoc.prems(4) by simp
  show ?case
  proof (cases vs rule: rev_cases)
    case Nil
    have "n = node_by_id d 0" using snoc.prems(2) Nil by (auto simp: locate_def split: if_splits)
    then have "i_inodeid n = 0" using pkg_directory(3)[OF ok, of 0] snoc.prems(5) by simp
    then show ?thesis using mc q(6) snoc.prems(3) by simp
  next
    case (snoc ys y)
    obtain r e where r: "locate d ys = Some r" "i_type r = INT_DIRECTORY" "listed_in d (i_inodeid r) e"
      "n = node_by_id d e" "node_name d e = y"
      using locate_last[OF ok] \<open>locate d vs = Some n\<close> unfolding snoc by metis
    have "e = c" using pkg_directory(3)[OF ok, of e] r(4) snoc.prems(3,5) mc by simp
    then have "i_inodeid q = i_inodeid r" using sole q(3) r(3) unfolding sole_entries_def by blast
    then have "xs = ys" using snoc.IH[OF q(1) r(1)] q(2) r(2) by simp
    then show ?thesis using snoc q(5) r(5) \<open>e = c\<close> by simp
  qed
qed

text \<open>Every inode but \<open>x\<close> is the same, or a directory in both with the same permissions.\<close>

definition others_same :: "disk \<Rightarrow> disk \<Rightarrow> u16 \<Rightarrow> bool" where
  "others_same d e x \<longleftrightarrow> (\<forall>j. j \<noteq> x \<longrightarrow> raw_by_id e j = raw_by_id d j \<or>
     i_type (raw_by_id d j) = INT_DIRECTORY \<and> i_type (raw_by_id e j) = INT_DIRECTORY \<and>
     perms (raw_by_id e j) = perms (raw_by_id d j))"

lemma others_sameD:
  assumes "others_same d e x" and "j \<noteq> x"
  shows "i_type (raw_by_id e j) = i_type (raw_by_id d j)"
    and "perms (raw_by_id e j) = perms (raw_by_id d j)"
    and "i_type (raw_by_id d j) \<noteq> INT_DIRECTORY \<Longrightarrow> raw_by_id e j = raw_by_id d j"
  using assms unfolding others_same_def by metis+

section \<open>The map from paths\<close>

definition path_map :: "disk \<Rightarrow> byte list list \<Rightarrow> (u16 \<times> inodetype \<times> byte list \<times> u16 \<times> u16) option" where
  "path_map d qs = map_option ident (locate d qs)"

lemma path_map_upd:
  assumes ok: "pkg_ok d" and sole: "sole_entries d" and ok': "pkg_ok e" and upd: "names_upd d e pid name r"
    and parent: "locate d cs = Some pn" "i_inodeid pn = pid" "i_type pn = INT_DIRECTORY"
    and leaf: "\<And>x. locate d (cs @ [name, x]) = None"
    and leaf': "\<And>x. e_type r \<noteq> INT_INVALID \<Longrightarrow> i_type (child_named e (fst r) x) = INT_INVALID"
  shows "path_map e = (path_map d)(cs @ [name] := (if e_type r = INT_INVALID then None else Some r))"
proof
  have root: "i_type (node_by_id d 0) \<noteq> INT_INVALID" "i_type (node_by_id e 0) \<noteq> INT_INVALID"
    using pkg_rooted[OF ok] pkg_rooted[OF ok'] by (simp_all add: rooted_def)
  have names: "ident (child_named e q nm) = (if q = pid \<and> nm = name then r else ident (child_named d q nm))" for q nm
    using upd by (simp add: names_upd_def)
  have step: "path_map d (us @ [x]) = (case locate d us of None \<Rightarrow> None
      | Some m \<Rightarrow> if e_type (ident (child_named d (i_inodeid m) x)) = INT_INVALID then None else Some (ident (child_named d (i_inodeid m) x)))"
    if "i_type (node_by_id d 0) \<noteq> INT_INVALID" for d us x
    using locate_snoc[OF that, of us x] by (simp add: path_map_def split: option.split)
  have pid: "i_type (raw_by_id d pid) = INT_DIRECTORY"
    using locate_directory(3)[OF ok parent(1,3)] node_number[OF ok, of pid] parent(2,3) by simp
  fix qs show "path_map e qs = ((path_map d)(cs @ [name] := (if e_type r = INT_INVALID then None else Some r))) qs"
  proof (induction qs rule: rev_induct)
    case Nil
    then show ?case
      using upd root ident_fields[of "node_by_id e 0" "node_by_id d 0"]
      by (simp add: path_map_def locate_def names_upd_def)
  next
    case (snoc x us)
    show ?case
    proof (cases "us = cs @ [name]")
      case True
      have "path_map e (us @ [x]) = None"
      proof (cases "locate e us")
        case (Some m)
        then have "ident m = r" "e_type r \<noteq> INT_INVALID" using snoc True by (auto simp: path_map_def split: if_splits)
        then have "i_type (child_named e (i_inodeid m) x) = INT_INVALID" using leaf'[of x] by (auto simp: ident_def)
        then show ?thesis using Some by (simp add: step[OF root(2)])
      qed (simp add: step[OF root(2)])
      then show ?thesis using leaf[of x] True by (simp add: path_map_def)
    next
      case False
      then have eq: "map_option ident (locate e us) = map_option ident (locate d us)" using snoc by (simp add: path_map_def)
      show ?thesis
      proof (cases "locate d us")
        case None
        then have "us \<noteq> cs" "locate e us = None" using parent(1) eq by auto
        then show ?thesis using None by (simp add: step[OF root(2)] step[OF root(1)])
      next
        case (Some m)
        then obtain m' where m': "locate e us = Some m'" "ident m' = ident m" using eq by (cases "locate e us") auto
        have num: "i_inodeid m' = i_inodeid m" using ident_fields[OF m'(2)] by simp
        have "us = cs" if "i_inodeid m = pid"
        proof -
          obtain j where j: "m = node_by_id d j" "i_type m \<noteq> INT_INVALID" by (rule locate_node[OF Some])
          then have "i_type m = INT_DIRECTORY" using node_number[OF ok, of j] pid that by simp
          then show ?thesis using locate_unique[OF ok sole Some parent(1)] that parent(2,3) by simp
        qed
        then have "us @ [x] = cs @ [name] \<longleftrightarrow> i_inodeid m = pid \<and> x = name" using Some parent(1,2) by auto
        then show ?thesis using Some m'(1) num names by (simp add: step[OF root(2)] step[OF root(1)])
      qed
    qed
  qed
qed

section \<open>A path with all that lies behind it, moved\<close>

definition path_under :: "'a list \<Rightarrow> 'a list \<Rightarrow> bool" where
  "path_under cs qs \<longleftrightarrow> take (length cs) qs = cs"

definition moved :: "'a list \<Rightarrow> 'a list \<Rightarrow> ('a list \<Rightarrow> 'v option) \<Rightarrow> 'a list \<Rightarrow> 'v option" where
  "moved src dst A qs = (if path_under dst qs then A (src @ drop (length dst) qs) else if path_under src qs then None else A qs)"

lemma path_under_iff: "path_under cs qs \<longleftrightarrow> (\<exists>zs. qs = cs @ zs)"
  unfolding path_under_def by (metis append_eq_conv_conj append_take_drop_id)

lemma path_under_append [simp]: "path_under cs (cs @ zs)" "path_under cs cs"
  by (simp_all add: path_under_def)

lemma path_under_snoc: "path_under cs (us @ [x]) \<longleftrightarrow> path_under cs us \<or> cs = us @ [x]"
proof
  assume "path_under cs (us @ [x])"
  then obtain zs where "us @ [x] = cs @ zs" by (auto simp: path_under_iff)
  then show "path_under cs us \<or> cs = us @ [x]" by (cases zs rule: rev_cases) (auto simp: path_under_iff)
qed (auto simp: path_under_iff)

text \<open>The number of a directory determines its path.\<close>

lemma number_path:
  assumes ok: "pkg_ok d" and sole: "sole_entries d" and parent: "locate d cs = Some pn" "i_type pn = INT_DIRECTORY"
    and m: "locate d us = Some m" "i_inodeid m = i_inodeid pn"
  shows "us = cs"
proof -
  have dir: "i_type (raw_by_id d (i_inodeid pn)) = INT_DIRECTORY"
    using locate_directory(3)[OF ok parent] node_number[OF ok, of "i_inodeid pn"] parent(2) by simp
  obtain j where j: "m = node_by_id d j" "i_type m \<noteq> INT_INVALID" by (rule locate_node[OF m(1)])
  then have "i_type m = INT_DIRECTORY" using node_number[OF ok, of j] dir m(2) by simp
  then show ?thesis using locate_unique[OF ok sole m(1) parent(1) m(2)] parent(2) by simp
qed

lemma path_map_snoc:
  assumes "i_type (node_by_id d 0) \<noteq> INT_INVALID"
  shows "path_map d (us @ [x]) = (case path_map d us of None \<Rightarrow> None
    | Some i \<Rightarrow> let r = ident (child_named d (fst i) x) in if e_type r = INT_INVALID then None else Some r)"
proof -
  have "fst (ident m) = i_inodeid m" for m by (simp add: ident_def)
  then show ?thesis using locate_snoc[OF assms, of us x] by (simp add: path_map_def Let_def split: option.split)
qed

lemma path_map_moved:
  assumes ok: "pkg_ok d" and sole: "sole_entries d" and ok': "pkg_ok e"
    and root: "ident (node_by_id e 0) = ident (node_by_id d 0)"
    and names: "\<And>q nm. ident (child_named e q nm) = (if q = i_inodeid q2 \<and> nm = b then r
      else if q = i_inodeid q1 \<and> nm = a then ident (new_inode 0 INT_INVALID) else ident (child_named d q nm))"
    and src: "locate d cs = Some q1" "i_type q1 = INT_DIRECTORY" "locate d (cs @ [a]) = Some n"
    and dst: "locate d ds = Some q2" "i_type q2 = INT_DIRECTORY" "locate d (ds @ [b]) = None"
    and r: "fst r = i_inodeid n" "e_type r \<noteq> INT_INVALID" and apart: "\<not> path_under (cs @ [a]) ds"
  shows "path_map e = (moved (cs @ [a]) (ds @ [b]) (path_map d))(ds @ [b] \<mapsto> r)"
proof
  have rt: "i_type (node_by_id d 0) \<noteq> INT_INVALID" "i_type (node_by_id e 0) \<noteq> INT_INVALID"
    using pkg_rooted[OF ok] pkg_rooted[OF ok'] by (simp_all add: rooted_def)
  note step = path_map_snoc[OF rt(1)] path_map_snoc[OF rt(2)]
  have num: "us = cs" if "path_map d us = Some i" "fst i = i_inodeid q1" for us i
    using that number_path[OF ok sole src(1,2)] by (auto simp: path_map_def ident_def)
  have num2: "us = ds" if "path_map d us = Some i" "fst i = i_inodeid q2" for us i
    using that number_path[OF ok sole dst(1,2)] by (auto simp: path_map_def ident_def)
  have p: "path_map d cs = Some (ident q1)" "path_map d (cs @ [a]) = Some (ident n)" "path_map d ds = Some (ident q2)" "path_map d (ds @ [b]) = None"
    using src dst by (simp_all add: path_map_def)
  have idn: "fst (ident m) = i_inodeid m" for m by (simp add: ident_def)
  let ?M = "(moved (cs @ [a]) (ds @ [b]) (path_map d))(ds @ [b] \<mapsto> r)"
  fix qs show "path_map e qs = ?M qs"
  proof (induction qs rule: rev_induct)
    case Nil
    have "path_map e [] = path_map d []"
      using root rt by (simp add: path_map_def locate_def)
    then show ?case by (simp add: moved_def path_under_def)
  next
    case (snoc x us)
    consider (beyond) vs where "us = ds @ b # vs" | (dst) "us = ds" "x = b" | (src) "\<not> path_under (ds @ [b]) (us @ [x])" "path_under (cs @ [a]) (us @ [x])"
      | (else) "\<not> path_under (ds @ [b]) (us @ [x])" "\<not> path_under (cs @ [a]) (us @ [x])"
      by (auto simp: path_under_snoc) (auto simp: path_under_iff)
    then show ?case
    proof cases
      case beyond
      let ?s = "cs @ a # vs"
      have M: "?M us = (if vs = [] then Some r else path_map d ?s)" "?M (us @ [x]) = path_map d (?s @ [x])"
        using beyond by (auto simp: moved_def path_under_def)
      show ?thesis
      proof (cases "path_map d ?s")
        case None
        then have "path_map e us = None" using snoc M(1) p(2) by (cases "vs = []") simp_all
        then show ?thesis unfolding M(2) step(1)[of ?s] step(2)[of us] None by simp
      next
        case (Some i)
        have ne: "fst i \<noteq> i_inodeid q1" "fst i \<noteq> i_inodeid q2"
          using num[OF Some] num2[OF Some] apart by (auto simp: path_under_iff)
        obtain j where j: "path_map e us = Some j" "fst j = fst i"
          using snoc M(1) Some p(2) r(1) by (cases "vs = []") (auto simp: idn)
        show ?thesis unfolding M(2) step(1)[of ?s] step(2)[of us] Some j(1) using ne j(2) by (simp add: names)
      qed
    next
      case dst
      have "\<not> path_under (ds @ [b]) ds" by (simp add: path_under_def)
      then have "path_map e us = Some (ident q2)" using snoc dst p(3) apart by (simp add: moved_def)
      then show ?thesis using dst r(2) by (simp add: step names idn Let_def)
    next
      case src
      then have M: "?M (us @ [x]) = None" by (auto simp: moved_def)
      show ?thesis
      proof (cases "path_under (cs @ [a]) us")
        case True
        then have "?M us = None" using src(1) by (auto simp: moved_def path_under_snoc)
        then show ?thesis using snoc M by (simp add: step)
      next
        case False
        then have u: "us = cs" "x = a" using src(2) by (auto simp: path_under_snoc)
        have "path_map e us = Some (ident q1)" using snoc u p(1) src(1) False by (auto simp: moved_def path_under_snoc)
        moreover have "\<not> (i_inodeid q1 = i_inodeid q2 \<and> a = b)" using num2[OF p(1)] p(2,4) by (auto simp: idn)
        ultimately show ?thesis using u unfolding M by (auto simp: step names idn Let_def)
      qed
    next
      case else
      then have M: "?M us = path_map d us" "?M (us @ [x]) = path_map d (us @ [x])" by (auto simp: moved_def path_under_snoc)
      have "fst i \<noteq> i_inodeid q2 \<or> x \<noteq> b" "fst i \<noteq> i_inodeid q1 \<or> x \<noteq> a" if "path_map d us = Some i" for i
        using num[OF that] num2[OF that] else by (auto simp: path_under_snoc)
      then show ?thesis using snoc unfolding M by (auto simp: step names Let_def split: option.split)
    qed
  qed
qed


end
