(* ===== verification/AppFS_Create.thy ===== *)
theory AppFS_Create
  imports AppFS_PathMap
begin

text \<open>
  \<^verbatim>\<open>FS::performCreation\<close> (\<^verbatim>\<open>libapp/fs.cpp\<close>): what \<^verbatim>\<open>create\<close>, \<^verbatim>\<open>mkdir\<close>, \<^verbatim>\<open>mknod\<close> and \<^verbatim>\<open>symlink\<close> do on a path that is
  free, composed of allocating a block, choosing a number, writing the inode and entering it in
  its directory.
\<close>

section \<open>The new inode\<close>

definition made_node :: "u16 \<Rightarrow> inodetype \<Rightarrow> byte list \<Rightarrow> cred \<Rightarrow> u32 \<Rightarrow> u64 \<Rightarrow> u64 \<Rightarrow> u64 \<Rightarrow> inode" where
  "made_node iid ty name cred mode ct mt at =
     (new_inode iid ty)\<lparr>i_filename := name @ replicate (256 - length name) 0,
       i_mask := ucast (extractMaskFromMode mode), i_ctime := ct, i_mtime := mt, i_atime := at,
       i_uid := ucast (fst cred), i_gid := ucast (snd cred)\<rparr>"

lemma setFilename_made:
  assumes "length name < 256"
  shows "setFilename name [] ((new_inode 0 INT_UNSET)\<lparr>i_inodeid := iid, i_type := ty,
       i_mask := ucast (extractMaskFromMode mode), i_ctime := ct, i_mtime := mt, i_atime := at,
       i_uid := ucast (fst cred), i_gid := ucast (snd cred), i_dev := dv, i_rdev := rv\<rparr>) =
    (made_node iid ty name cred mode ct mt at)\<lparr>i_dev := dv, i_rdev := rv\<rparr>"
proof -
  have "map (\<lambda>i. if length name \<le> i then 0 else if i < 0 then [] ! i else replicate 256 (0 :: byte) ! i) [0..<256] = replicate 256 0"
    by (rule nth_equalityI) auto
  moreover have "(if length name < 255 then length name else 255) = length name" using assms by simp
  ultimately show ?thesis
    by (intro inode.equality) (simp_all add: setFilename_def made_node_def Let_def cong: if_cong)
qed

lemma made_node_fields:
  "i_inodeid (made_node iid ty name cred mode ct mt at) = iid" "i_type (made_node iid ty name cred mode ct mt at) = ty"
  "i_realid (made_node iid ty name cred mode ct mt at) = 0" "i_children_count (made_node iid ty name cred mode ct mt at) = 0"
  "i_children (made_node iid ty name cred mode ct mt at) = replicate DIRECTORY_CHILDREN_MAX 0"
  by (simp_all add: made_node_def)

text \<open>With the numbers of a device.\<close>

definition made_dev :: "u16 \<Rightarrow> u16 \<Rightarrow> inode \<Rightarrow> inode" where
  "made_dev dv rv n = n\<lparr>i_dev := dv, i_rdev := rv\<rparr>"

lemma made_dev_fields [simp]:
  "i_inodeid (made_dev dv rv n) = i_inodeid n" "i_type (made_dev dv rv n) = i_type n" "i_realid (made_dev dv rv n) = i_realid n"
  "i_children_count (made_dev dv rv n) = i_children_count n" "i_children (made_dev dv rv n) = i_children n"
  "i_filename (made_dev dv rv n) = i_filename n" "i_blocks (made_dev dv rv n) = i_blocks n" "i_dat_len (made_dev dv rv n) = i_dat_len n"
  "i_nlink (made_dev dv rv n) = i_nlink n" "i_mask (made_dev dv rv n) = i_mask n" "i_uid (made_dev dv rv n) = i_uid n"
  "i_gid (made_dev dv rv n) = i_gid n" "i_dev (made_dev dv rv n) = dv" "i_rdev (made_dev dv rv n) = rv"
  by (simp_all add: made_dev_def)

lemma made_dev_none: "made_dev 0 0 (made_node iid ty name cred mode ct mt at) = made_node iid ty name cred mode ct mt at"
  by (simp add: made_dev_def made_node_def)

lemma made_node_sound:
  assumes "length name < 256" "0 \<notin> set name" "name \<noteq> []" and "ty \<in> {INT_FILEINFO, INT_DIRECTORY, INT_SYMLINK, INT_DEVICE}"
    and "ty = INT_DIRECTORY \<Longrightarrow> dv = 0 \<and> rv = 0"
  shows "inode_wf (made_dev dv rv (made_node iid ty name cred mode ct mt at))"
    "stored (made_dev dv rv (made_node iid ty name cred mode ct mt at)) = made_dev dv rv (made_node iid ty name cred mode ct mt at)"
    "inode_verify (made_dev dv rv (made_node iid ty name cred mode ct mt at))" "cstr (i_filename (made_node iid ty name cred mode ct mt at)) = name"
proof -
  let ?n = "made_dev dv rv (made_node iid ty name cred mode ct mt at)"
  have "name ! 0 \<noteq> 0" using assms(2,3) by (cases name) auto
  then show "inode_verify ?n"
    using assms(3) by (simp add: inode_verify_def made_node_def nth_append)
  show "inode_wf ?n"
    using assms(1,4) by (auto simp: inode_wf_def made_node_def made_dev_def)
  show "stored ?n = ?n"
    using assms(4,5) by (intro inode.equality) (auto simp: stored_def stored_head_def stored_named_def has_data_fields_def
        made_node_def made_dev_def Let_def)
  show "cstr (i_filename (made_node iid ty name cred mode ct mt at)) = name"
    using cstr_append_zeros[OF assms(2)] by (simp add: made_node_def)
qed

section \<open>Its block\<close>

text \<open>
  What a sound package needs for one more inode: a free block in the cache or room at the end of the
  package, and a free number.
\<close>

definition has_room :: "fsys \<Rightarrow> bool" where
  "has_room s \<longleftrightarrow> (fs_cache s = [] \<longrightarrow> dsize (fs_disk s) < 2 ^ 31) \<and> (\<exists>i. lookup_at (fs_disk s) i = 0)"

definition next_block :: "fsys \<Rightarrow> u32" where
  "next_block s = (case fs_cache s of [] \<Rightarrow> of_nat (dsize (fs_disk s)) | e # _ \<Rightarrow> snd e)"

text \<open>The state after \<^verbatim>\<open>allocateBlock\<close>.\<close>

definition extended :: "fsys \<Rightarrow> fsys" where
  "extended s = (case fs_cache s of
     [] \<Rightarrow> fs_put (dsize (fs_disk s)) (replicate 4096 0) s
   | e # rest \<Rightarrow> (fs_put (unat (fst e)) (enc32 (snd e)) s)\<lparr>fs_cache := rest\<rparr>)"

text \<open>A block that nothing uses.\<close>

definition spare :: "fsys \<Rightarrow> u32 list \<Rightarrow> u32 \<Rightarrow> bool" where
  "spare s bs pos \<longleftrightarrow> block_ok (fs_disk s) pos \<and> pos \<notin> set (free_blocks s bs) \<and> (\<forall>j. pos \<notin> set (own_blocks (fs_disk s) j))"

lemma pkg_inv_size:
  assumes "pkg_inv s bs"
  shows "OFFSET_DATA \<le> dsize (fs_disk s)" "lookup_at (fs_disk s) 0 \<noteq> 0"
proof -
  note i = pkg_invD[OF assms]
  show root: "lookup_at (fs_disk s) 0 \<noteq> 0" using raw_type_used[of "fs_disk s" 0] pkg_okD(2)[OF i(1)] by simp
  then show "OFFSET_DATA \<le> dsize (fs_disk s)"
    using block_okD(1,4)[OF tree_okD(3)[OF pkg_okD(1)[OF i(1)]], of 0] by simp
qed

lemma new_block:
  assumes inv: "pkg_inv s bs" and room: "has_room s"
  shows "allocateBlock s = (next_block s, extended s)"
proof (cases "fs_cache s")
  case Nil
  have "align_up (dsize (fs_disk s) mod 2 ^ 32) = of_nat (dsize (fs_disk s))"
    "unat (of_nat (dsize (fs_disk s)) :: u32) = dsize (fs_disk s)"
    using Nil room pkg_invD(6)[OF inv] align_up_aligned[of "dsize (fs_disk s)"] unat_of_nat_small[of "dsize (fs_disk s)"]
    by (simp_all add: has_room_def)
  then show ?thesis using Nil by (simp add: allocateBlock_new extended_def next_block_def Let_def)
next
  case (Cons e rest)
  then show ?thesis by (cases e) (simp add: allocateBlock_cached extended_def next_block_def)
qed

lemma extended_bytes:
  assumes inv: "pkg_inv s bs"
  shows "byte_at (fs_disk (extended s)) = byte_at (fs_disk s)"
    and "dsize (fs_disk (extended s)) = dsize (fs_disk s) + (if fs_cache s = [] then 4096 else 0)"
proof -
  have "byte_at (fs_disk (extended s)) = byte_at (fs_disk s) \<and>
    dsize (fs_disk (extended s)) = dsize (fs_disk s) + (if fs_cache s = [] then 4096 else 0)"
  proof (cases "fs_cache s")
    case Nil
    have "byte_at (fs_disk (extended s)) a = byte_at (fs_disk s) a" for a
    proof (cases "dsize (fs_disk s) \<le> a \<and> a < dsize (fs_disk s) + 4096")
      case True
      then have "replicate 4096 (0 :: byte) ! (a - dsize (fs_disk s)) = 0" by (intro nth_replicate) linarith
      then show ?thesis using True Nil by (auto simp: extended_def fd_simps byte_at_put_bytes) (simp add: byte_at_def)
    next
      case False
      then show ?thesis using Nil by (auto simp: extended_def fd_simps byte_at_put_bytes)
    qed
    then show ?thesis using Nil by (auto simp: extended_def fd_simps)
  next
    case (Cons e rest)
    have fl: "fl_inv s bs" using pkg_invD(4)[OF inv] by (simp add: free_inv_def)
    have "e \<in> disk_entries (fs_disk s) (fl_slots bs)" using fl Cons by (auto simp: fl_inv_def)
    then have v: "u32_at (fs_disk s) (unat (fst e)) = snd e" and "fst e \<in> set (fl_slots bs)"
      by (auto simp: disk_entries_def)
    then obtain c where "c \<in> set bs" "fst e \<in> set (slot_addrs c)" unfolding fl_slots_def by auto
    then have "unat (fst e) + 4 \<le> dsize (fs_disk s)"
      using slot_inside fl_chain_block_ok fl by (fastforce simp: fl_inv_def)
    from fs_put_same_bytes[OF v this] show ?thesis using Cons by (simp add: extended_def)
  qed
  then show "byte_at (fs_disk (extended s)) = byte_at (fs_disk s)"
    "dsize (fs_disk (extended s)) = dsize (fs_disk s) + (if fs_cache s = [] then 4096 else 0)" by simp_all
qed

lemma extended_fields:
  "fs_cache (extended s) = tl (fs_cache s)" "fs_reserved (extended s) = fs_reserved s" "fs_clock (extended s) = fs_clock s"
  "fs_ticks (extended s) = fs_ticks s"
  by (auto simp: extended_def fd_simps split: list.split)

lemma same_nodes:
  assumes "node_by_id e = node_by_id d"
  shows "child_named e = child_named d" and "locate e = locate d"
proof -
  show c: "child_named e = child_named d"
    by (simp add: child_named_def[abs_def] child_nodes_def[abs_def] assms cong: if_cong)
  have "walk e cs n = walk d cs n" for cs n by (induction cs arbitrary: n) (simp_all add: c Let_def)
  then show "locate e = locate d" by (simp add: locate_def[abs_def] assms)
qed

lemma extended_sound:
  assumes inv: "pkg_inv s bs" and room: "has_room s"
  shows "pkg_inv (extended s) bs" and "spare (extended s) bs (next_block s)"
    and "own_blocks (fs_disk (extended s)) = own_blocks (fs_disk s)"
    and "node_by_id (fs_disk (extended s)) = node_by_id (fs_disk s)"
    and "lookup_at (fs_disk (extended s)) = lookup_at (fs_disk s)"
    and "raw_by_id (fs_disk (extended s)) = raw_by_id (fs_disk s)"
proof -
  let ?d = "fs_disk s" and ?e = "fs_disk (extended s)"
  note i = pkg_invD[OF inv] and b = extended_bytes[OF inv]
  have size: "dsize ?d \<le> dsize ?e" "dsize ?e mod 4096 = 0" using i(6) by (simp_all add: b(2) mod_add_eq[symmetric])
  have cache: "fs_cache (extended s) = drop 1 (fs_cache s)" by (simp add: extended_fields drop_Suc)
  note k = pkg_inv_bytes[OF inv b(1) size cache, unfolded extended_fields(2), OF i(5)]
  then show "pkg_inv (extended s) bs" "own_blocks ?e = own_blocks ?d" "node_by_id ?e = node_by_id ?d" "lookup_at ?e = lookup_at ?d" "raw_by_id ?e = raw_by_id ?d"
    by blast+
  have own_ok: "block_ok ?d c" if "c \<in> set (own_blocks ?d j)" for c j using own_block_ok[OF i(1,3) that] .
  have free_ok: "block_ok ?d c" if "c \<in> set (free_blocks s bs)" for c using i(4) that by (simp add: free_inv_def)
  show "spare (extended s) bs (next_block s)"
  proof (cases "fs_cache s")
    case Nil
    have lim: "dsize ?d < 2 ^ 31" using room Nil by (simp add: has_room_def)
    have f: "unat (next_block s) = dsize ?d" "block_ok ?e (next_block s)"
      using fresh_block_ok[OF pkg_inv_size(1)[OF inv] i(6) lim, of ?e] Nil by (simp_all add: b(2) next_block_def)
    have "\<not> block_ok ?d (next_block s)" using f(1) by (simp add: block_ok_def)
    then show ?thesis
      using own_ok free_ok f(2) Nil by (auto simp: spare_def k(2) free_blocks_def extended_fields)
  next
    case (Cons e rest)
    have nb: "next_block s = snd e" using Cons by (simp add: next_block_def)
    have mem: "snd e \<in> set (free_blocks s bs)" using Cons by (simp add: free_blocks_def)
    have "block_ok ?e (snd e)" using free_ok[OF mem] size(1) by (simp add: block_ok_def)
    moreover have "snd e \<notin> set (free_blocks (extended s) bs)"
      using i(4) Cons by (auto simp: free_inv_def free_blocks_def extended_fields)
    moreover have "snd e \<notin> set (own_blocks ?d j)" for j using i(8)[of j] mem by blast
    ultimately show ?thesis by (simp add: spare_def nb k(2))
  qed
qed

section \<open>Its number\<close>

lemma new_number:
  assumes inv: "pkg_inv s bs" and room: "has_room s"
  obtains iid where "getFirstFreeINodeNumber (extended s) = Some (iid, extended s)" and "iid \<noteq> 0"
    and "lookup_at (fs_disk s) iid = 0"
proof -
  let ?t = "extended s"
  note sz = pkg_inv_size[OF inv] and x = extended_sound[OF inv room]
  have big: "OFFSET_FSINFO \<le> dsize (fs_disk ?t)" using sz(1) by (simp add: extended_bytes(2)[OF inv] config)
  have taken: "inode_taken ?t k \<longleftrightarrow> lookup_at (fs_disk s) k \<noteq> 0" for k
    using pkg_invD(5)[OF inv] by (simp add: inode_taken_def x(5) extended_fields)
  obtain i where i: "\<not> inode_taken ?t i" using room by (auto simp: taken has_room_def)
  have nores: "65535 \<notin> set (fs_reserved ?t)" using pkg_invD(5)[OF inv] by (simp add: extended_fields)
  obtain k where k: "\<And>j. unat j < unat k \<Longrightarrow> inode_taken ?t j"
    "getFirstFreeINodeNumber ?t = Some (if k = 65535 \<and> inode_taken ?t k then 0 else k, ?t)"
    "k = 65535 \<or> \<not> inode_taken ?t k"
    using getFirstFreeINodeNumber_result[OF nores big] by metis
  have "\<not> inode_taken ?t k"
  proof
    assume t: "inode_taken ?t k"
    then have "k = 65535" using k(3) by simp
    moreover have "i \<noteq> k" using i t by auto
    ultimately have "unat i < unat k"
      using unsigned_less[of i, where 'a = nat] by (auto simp: word_unat_eq_iff)
    then show False using k(1) i by simp
  qed
  moreover then have "k \<noteq> 0" using sz(2) by (auto simp: taken)
  ultimately show ?thesis using that[of k] k(2) by (auto simp: taken)
qed

lemma assignNewINode_result:
  assumes inv: "pkg_inv s bs" and room: "has_room s" and ty: "ty \<in> {INT_FILEINFO, INT_DIRECTORY, INT_SYMLINK, INT_DEVICE}"
  obtains iid where "assignNewINode ty s = Some (Inr ((new_inode 0 INT_UNSET)\<lparr>i_inodeid := iid, i_type := ty\<rparr>,
      next_block s), reserveINodeID iid (extended s))"
    and "iid \<noteq> 0" and "lookup_at (fs_disk s) iid = 0"
proof -
  obtain iid where i: "getFirstFreeINodeNumber (extended s) = Some (iid, extended s)" "iid \<noteq> 0"
    "lookup_at (fs_disk s) iid = 0"
    using new_number[OF inv room] .
  note x = extended_sound[OF inv room]
  have "\<not> unat (next_block s) < OFFSET_DATA" "next_block s \<noteq> 0"
    using block_okD(1,5)[of "fs_disk (extended s)" "next_block s"] x(2) by (auto simp: spare_def)
  then have "assignNewINode ty s = Some (Inr ((new_inode 0 INT_UNSET)\<lparr>i_inodeid := iid, i_type := ty\<rparr>,
      next_block s), reserveINodeID iid (extended s))"
    using ty i new_block[OF inv room]
    by (auto simp: assignNewINode_def bindE_def low_total_def low_def getFirstFreeBlock_def x(5) ret_def Let_def)
  then show ?thesis using that i(2,3) by blast
qed

section \<open>The inode in its block\<close>

text \<open>The disk with the new inode written.\<close>

definition written_node :: "disk \<Rightarrow> u32 \<Rightarrow> inode \<Rightarrow> disk" where
  "written_node d pos n = put_bytes (lookup_addr (i_inodeid n)) (enc32 pos) (put_bytes (unat pos) (block_image n) d)"

lemma written_node_entered:
  assumes inv: "pkg_inv s bs" and spare: "spare s bs pos"
    and wf: "inode_wf n" "stored n = n" "inode_verify n" and free: "lookup_at (fs_disk s) (i_inodeid n) = 0"
  shows "entered (fs_disk s) pos n (written_node (fs_disk s) pos n)"
    and "dsize (written_node (fs_disk s) pos n) = dsize (fs_disk s)"
    and "unat q mod 4096 = 0 \<Longrightarrow> OFFSET_DATA \<le> unat q \<Longrightarrow> q \<noteq> pos \<Longrightarrow> kept (fs_disk s) (written_node (fs_disk s) pos n) q"
    and "OFFSET_FSINFO \<le> a \<Longrightarrow> a < OFFSET_DATA \<Longrightarrow> byte_at (written_node (fs_disk s) pos n) a = byte_at (fs_disk s) a"
    and "k < 947 \<Longrightarrow> file_type (i_type n) \<Longrightarrow> seg_at (written_node (fs_disk s) pos n) pos k = 0"
proof -
  let ?d = "fs_disk s" and ?e = "written_node (fs_disk s) pos n"
  note t = tree_okD[OF pkg_okD(1)[OF pkg_invD(1)[OF inv]]]
  have ok: "block_ok ?d pos" using spare by (simp add: spare_def)
  note b = block_okD[OF ok]
  have len: "length (block_image n) = 4096" by (rule length_block_image[OF wf(1)])
  have la: "lookup_addr (i_inodeid n) + 4 \<le> OFFSET_FSINFO" "OFFSET_FSINFO \<le> OFFSET_DATA"
    using lookup_addr_bounds(2)[of "i_inodeid n"] by (simp_all add: config)
  show size: "dsize ?e = dsize ?d" using len la b(1,4) by (simp add: written_node_def)
  have byte: "byte_at ?e a = byte_at ?d a" if "\<not> in_block pos a" "OFFSET_FSINFO \<le> a" for a
    using that la len by (auto simp: written_node_def byte_at_put_bytes in_block_def)
  show "kept ?d ?e q" if "unat q mod 4096 = 0" "OFFSET_DATA \<le> unat q" "q \<noteq> pos" for q
    unfolding kept_def
  proof (intro allI impI)
    fix a assume a: "in_block q a"
    then have "\<not> in_block pos a" using in_block_unique[OF that(1) b(3)] that(3) by blast
    then show "byte_at ?e a = byte_at ?d a" using a that(2) la by (intro byte) (auto simp: in_block_def)
  qed note keep = this
  show "byte_at ?e a = byte_at ?d a" if "OFFSET_FSINFO \<le> a" "a < OFFSET_DATA" for a
    using that b(1) by (intro byte) (auto simp: in_block_def)
  have look: "lookup_at ?e = (lookup_at ?d)(i_inodeid n := pos)"
    using b(1) la(2) by (simp add: fun_eq_iff written_node_def lookup_at_put_lookup lookup_at_put_data)
  have self: "inode_at ?e (unat pos) = n"
  proof -
    have "inode_at ?e (unat pos) = inode_at (put_bytes (unat pos) (block_image n) ?d) (unat pos)"
      unfolding written_node_def by (rule inode_at_put_apart) (use la b(1) in simp)
    then show ?thesis
      unfolding block_image_def using inode_at_getBinaryRepresentation[OF wf(1), of "unat pos"] wf(2,3) by simp
  qed
  have other: "inode_at ?e (unat q) = inode_at ?d (unat q)" if q: "block_ok ?d q" "q \<noteq> pos" for q
    by (rule kept_inode[OF keep[OF block_okD(3,1)[OF q(1)] q(2)]])
  have "pos \<notin> range (lookup_at ?d)"
    using spare own_head b(5) by (fastforce simp: spare_def)
  then show "entered ?d pos n ?e"
    using size look ok self other free by (simp add: entered_def block_ok_def)
  show "seg_at ?e pos k = 0" if k: "k < 947" and ty: "file_type (i_type n)"
  proof -
    have len': "length (getBinaryRepresentation n) = 306"
      using length_getBinaryRepresentation[OF wf(1)] ty by auto
    have "byte_at ?e a = 0" if a: "unat pos + 308 \<le> a" "a < unat pos + 4096" for a
    proof -
      have "byte_at ?e a = block_image n ! (a - unat pos)"
        using a la b(1) len by (simp add: written_node_def byte_at_put_bytes)
      also have "\<dots> = 0"
      proof -
        have "\<not> a - unat pos < 306" "a - unat pos - 306 < 4096 - 306" using a by linarith+
        then show ?thesis unfolding block_image_def nth_append len' by simp
      qed
      finally show ?thesis .
    qed
    then have "slice (byte_at ?e) (unat pos + (308 + 4 * k)) 4 = replicate 4 0"
      using k by (intro nth_equalityI) (simp_all add: slice_def)
    then show ?thesis by (simp add: seg_at_def u32_at_def eval_nat_numeral)
  qed
qed

lemma file_blocks_none: "seg_at d p 0 = 0 \<Longrightarrow> file_blocks d p = []"
  by (simp add: file_blocks_def takeWhile_eq_Nil_iff hd_map)

lemma written_sound:
  assumes inv: "pkg_inv s bs" and spare: "spare s bs pos"
    and wf: "inode_wf n" "stored n = n" "inode_verify n" and free: "lookup_at (fs_disk s) (i_inodeid n) = 0"
    and ty: "i_type n \<in> {INT_FILEINFO, INT_DIRECTORY, INT_SYMLINK, INT_DEVICE}"
    and empty: "used (i_children n) = []" "i_children_count n = 0" "i_blocks n = 0" "i_dat_len n = 0"
    and w: "fs_disk w = written_node (fs_disk s) pos n" "fs_cache w = fs_cache s" "fs_reserved w = []"
  shows "pkg_inv w bs" and "same_names (fs_disk s) (fs_disk w)" and "data_kept (fs_disk s) (fs_disk w) (i_inodeid n)"
    and "raw_by_id (fs_disk w) j = (if j = i_inodeid n then n else raw_by_id (fs_disk s) j)"
    and "node_by_id (fs_disk w) j = (if j = i_inodeid n then n else node_by_id (fs_disk s) j)"
proof -
  let ?d = "fs_disk s" and ?e = "fs_disk w" and ?x = "i_inodeid n"
  note i = pkg_invD[OF inv] and wr = written_node_entered[OF inv spare wf free, folded w(1)]
  note en = wr(1)[unfolded entered_def]
  have nl: "i_type n \<noteq> INT_HARDLINK" using ty by auto
  note raw = entered_raw[OF i(1) wr(1)] and t = tree_okD[OF pkg_okD(1)[OF i(1)]]
  show "raw_by_id ?e j = (if j = ?x then n else raw_by_id ?d j)" by (rule raw)
  show "node_by_id ?e j = (if j = ?x then n else node_by_id ?d j)" by (rule entered_node[OF i(1) wr(1) nl])
  have "visited n = []" by (simp add: visited_def empty(2))
  then show "same_names ?d ?e" by (rule entered_same_names[OF i(1) wr(1) nl])
  have ok: "pkg_ok ?e" by (rule entered_ok[OF i(1) wr(1) ty]) (simp add: dir_wf_def empty)
  have keep: "kept ?d ?e q" if "block_ok ?d q" "q \<noteq> pos" for q
    by (rule wr(3)) (use that block_okD in blast)+
  have spos: "pos \<notin> set (free_blocks s bs)" "pos \<notin> set (own_blocks ?d j)" for j using spare by (simp_all add: spare_def)
  show "data_kept ?d ?e ?x"
    unfolding data_kept_def
  proof (intro allI impI conjI ballI)
    fix j assume j: "j \<noteq> ?x" "file_type (i_type (raw_by_id ?d j))"
    show "raw_by_id ?e j = raw_by_id ?d j" "lookup_at ?e j = lookup_at ?d j" using j(1) en by (simp_all add: raw)
    show "kept ?d ?e b" if "b \<in> set (own_blocks ?d j)" for b
      using that spos(2)[of j] by (intro keep own_block_ok[OF i(1,3) that]) auto
  qed
  have fb: "free_blocks w bs = free_blocks s bs" by (simp add: free_blocks_def w)
  have segs: "file_blocks ?e pos = []" if "file_type (i_type n)" by (rule file_blocks_none[OF wr(5)]) (use that in simp_all)
  have own: "own_blocks ?e ?x = [pos]" using en segs block_okD(5)[of ?e pos] by (simp add: own_blocks_def raw)
  have "listed_in ?e a c \<Longrightarrow> listed_in ?d a c" for a c
    using empty(1) by (auto simp: listed_in_def raw split: if_splits)
  then have sole: "sole_entries ?e" using i(2) unfolding sole_entries_def by blast
  have finv: "free_inv w bs"
  proof (rule free_inv_frame[OF i(4), where k = 0])
    show "\<forall>b \<in> set bs. kept ?d ?e b"
    proof
      fix b assume "b \<in> set bs"
      then have "b \<in> set (free_blocks s bs)" by (simp add: free_blocks_def)
      then show "kept ?d ?e b" using i(4) spos(1) by (intro keep) (auto simp: free_inv_def)
    qed
  qed (use wr(2,4) w in auto)
  have self: "sound_file ?e ?x pos [] n" if fty: "file_type (i_type n)"
    using en wr(5)[OF _ fty] fty empty(3,4)
    by (auto simp: sound_file_def roomy_def file_at_def blocks_at_def ceil_blocks_def)
  show "pkg_inv w bs"
  proof (rule pkg_inv_step[OF inv ok sole finv w(3), where x = ?x])
    show "dsize ?e mod 4096 = 0" "dsize ?d \<le> dsize ?e" using wr(2) i(6) by simp_all
    show "lookup_at ?e j = lookup_at ?d j \<and> (file_type (i_type (raw_by_id ?d j)) \<longrightarrow> kept ?d ?e (lookup_at ?d j)) \<and>
        i_type (raw_by_id ?e j) = i_type (raw_by_id ?d j)" if "j \<noteq> ?x" for j
    proof -
      have "kept ?d ?e (lookup_at ?d j)" if ty: "file_type (i_type (raw_by_id ?d j))"
      proof -
        have u: "lookup_at ?d j \<noteq> 0" using raw_type_used[of ?d j] ty by auto
        show ?thesis using keep[OF t(3)[OF u]] own_head[OF u] spos(2)[of j] by auto
      qed
      then show ?thesis using that en by (simp add: raw)
    qed
    show "sound_file ?e ?x (lookup_at ?e ?x) (file_blocks ?e (lookup_at ?e ?x)) (raw_by_id ?e ?x)"
      if "file_type (i_type (raw_by_id ?e ?x))"
      using that self segs en by (simp add: raw)
    show "set (free_blocks w bs) \<subseteq> set (free_blocks s bs) \<union> set (own_blocks ?d ?x)" by (simp add: fb)
  qed (use spos own fb in auto)
qed

section \<open>Creation\<close>

text \<open>The state after the new inode was written and its reservation is gone.\<close>

definition written_state :: "fsys \<Rightarrow> inode \<Rightarrow> fsys" where
  "written_state s n = unreserveINodeID (i_inodeid n)
     (fs_put (lookup_addr (i_inodeid n)) (enc32 (next_block s))
       (fs_put (unat (next_block s)) (block_image n)
         ((reserveINodeID (i_inodeid n) (extended s))\<lparr>fs_ticks := fs_ticks s + 3\<rparr>)))"

lemma written_state_fields:
  assumes "fs_reserved s = []"
  shows "fs_disk (written_state s n) = written_node (fs_disk (extended s)) (next_block s) n"
    "fs_cache (written_state s n) = fs_cache (extended s)"
    "fs_reserved (written_state s n) = []" "fs_clock (written_state s n) = fs_clock s"
    "fs_ticks (written_state s n) = fs_ticks s + 3"
  using assms by (simp_all add: written_state_def written_node_def fd_simps reserveINodeID_def extended_fields)

lemma getTime_eq: "getTime s = Some (Inr (fs_clock s (fs_ticks s)), s\<lparr>fs_ticks := Suc (fs_ticks s)\<rparr>)"
  by (simp add: getTime_def low_total_def fs_now_eq)

text \<open>The inode that creation makes at the time of \<open>s\<close>.\<close>

abbreviation made_at :: "fsys \<Rightarrow> u16 \<Rightarrow> inodetype \<Rightarrow> byte list \<Rightarrow> cred \<Rightarrow> u32 \<Rightarrow> inode" where
  "made_at s iid ty b cred mode \<equiv> made_node iid ty b cred mode (fs_clock s (fs_ticks s))
     (fs_clock s (Suc (fs_ticks s))) (fs_clock s (Suc (Suc (fs_ticks s))))"

lemma performCreation_steps:
  assumes inv: "pkg_inv s bs" and room: "has_room s" and ty: "ty \<in> {INT_FILEINFO, INT_DIRECTORY, INT_SYMLINK, INT_DEVICE}"
    and valid: "path_error path = None" and path: "components path = cs @ [b]"
    and parent: "locate (fs_disk s) cs = Some pn" and fresh: "locate (fs_disk s) (cs @ [b]) = None"
    and conf: "\<And>n. i_dev n = 0 \<Longrightarrow> i_rdev n = 0 \<Longrightarrow> conf n = n\<lparr>i_dev := dv, i_rdev := rv\<rparr>" "ty = INT_DIRECTORY \<Longrightarrow> dv = 0 \<and> rv = 0"
    and add: "\<And>iid. iid \<noteq> 0 \<Longrightarrow> lookup_at (fs_disk s) iid = 0 \<Longrightarrow>
      \<exists>s'. addChildToDirectoryINode (i_inodeid pn) iid (written_state s (made_dev dv rv (made_at s iid ty b cred mode))) = Some (E_SUCCESS, s')
        \<and> P iid s'"
  shows "\<exists>iid s'. iid \<noteq> 0 \<and> lookup_at (fs_disk s) iid = 0 \<and> P iid s' \<and>
    performCreation cred ty path mode conf s = Some (Inr (made_dev dv rv (made_at s iid ty b cred mode)), s')"
proof -
  let ?d = "fs_disk s"
  have ro: "rooted ?d" by (rule pkg_rooted[OF pkg_invD(1)[OF inv]])
  have bl: "components path \<noteq> []" "butlast (components path) = cs" by (simp_all add: path)
  have b: "length b < 256" "0 \<notin> set b" "b \<noteq> []"
    using valid_path_parts[OF valid, of b] components_sound[of b path] by (simp_all add: path)
  have avail: "ensurePathIsAvailable path s = Some (Inr (), s)"
    using ensurePathIsAvailable_eq[OF ro bl(1)] valid parent fresh by (simp add: bl(2) path)
  have par: "need (retrieveParentPathToINode path) s = Some (Inr pn, s)"
    using rooted_need(2)[OF ro bl(1)] valid parent by (simp add: bl(2))
  obtain iid where i: "assignNewINode ty s = Some (Inr ((new_inode 0 INT_UNSET)\<lparr>i_inodeid := iid, i_type := ty\<rparr>,
      next_block s), reserveINodeID iid (extended s))"
    "iid \<noteq> 0" "lookup_at ?d iid = 0"
    using assignNewINode_result[OF inv room ty] .
  let ?n = "made_dev dv rv (made_at s iid ty b cred mode)"
  have base: "cstr (extractBasenameFromPath path) = b"
    using cstr_append_zeros[OF b(2), of 0]
    by (simp add: extractBasenameFromPath_def splitPathBySeperators_components path Let_def nth_append)
  note sound = made_node_sound[OF b ty conf(2)] and x = extended_sound[OF inv room]
  have tb: "tabled_type (i_type ?n)" "i_type ?n \<noteq> INT_INVALID" "i_type ?n \<noteq> INT_UNSET"
    using ty by (auto simp: made_node_fields tabled_type_def)
  have valid_pos: "checkINodePositionIsValid (next_block s) = E_SUCCESS"
    using x(2) by (simp add: spare_def block_ok_def)
  let ?s3 = "(reserveINodeID iid (extended s))\<lparr>fs_ticks := fs_ticks s + 3\<rparr>"
  have "lookup_at (fs_disk ?s3) (i_inodeid ?n) = 0"
    using i(3) by (simp add: reserveINodeID_def x(5) made_node_fields)
  from writeINode_tabled[OF valid_pos sound(3) tb(1) this]
  have save: "saveNewINode (next_block s) ?n ?s3 = Some (Inr (), written_state s ?n)"
    using tb by (simp add: saveNewINode_def bindE_def low_total_def throw_if_def ret_def written_state_def made_node_fields)
  obtain s' where s': "addChildToDirectoryINode (i_inodeid pn) iid (written_state s ?n) = Some (E_SUCCESS, s')" "P iid s'"
    using add[OF i(2,3)] by blast
  have clk: "fs_clock (reserveINodeID iid (extended s)) = fs_clock s" "fs_ticks (reserveINodeID iid (extended s)) = fs_ticks s"
    by (simp_all add: reserveINodeID_def extended_fields)
  have numeral3: "(reserveINodeID iid (extended s))\<lparr>fs_ticks := Suc (Suc (Suc (fs_ticks s)))\<rparr> = ?s3"
    by (simp add: numeral_3_eq_3)
  have "performCreation cred ty path mode conf s = Some (Inr ?n, s')"
    using avail par i(1) save s'(1)
    by (simp add: performCreation_def seqE_def bindE_def on_throw_def getTime_eq clk base
        conf(1) setFilename_made[OF b(1)] made_dev_def numeral3 ret_def low_def throw_add_def made_node_fields Let_def)
  then show ?thesis using i(2,3) s'(2) by blast
qed

text \<open>
  What creation promises of the package and of the map from its paths: the path leads to the new inode,
  and nothing else has changed.
\<close>

definition created :: "fsys \<Rightarrow> u32 list \<Rightarrow> byte list list \<Rightarrow> inode \<Rightarrow> fsys \<Rightarrow> bool" where
  "created s bs cs n s' \<longleftrightarrow> pkg_inv s' bs \<and> locate (fs_disk s') cs = Some n \<and>
     path_map (fs_disk s') = (path_map (fs_disk s))(cs := Some (ident n)) \<and> fs_clock s' = fs_clock s \<and>
     fs_cache s' = tl (fs_cache s) \<and> dsize (fs_disk s') = dsize (fs_disk s) + (if fs_cache s = [] then 4096 else 0) \<and>
     (\<forall>j. i_type (raw_by_id (fs_disk s') j) = INT_HARDLINK \<longrightarrow> i_realid (raw_by_id (fs_disk s') j) \<noteq> i_inodeid n) \<and>
     raw_by_id (fs_disk s') (i_inodeid n) = n \<and> others_same (fs_disk s) (fs_disk s') (i_inodeid n) \<and>
     data_kept (fs_disk s) (fs_disk s') (i_inodeid n)"

text \<open>The inode a path leads to is that inode, not a link to it.\<close>

lemma located_is_node:
  assumes ok: "pkg_ok d" and loc: "locate d cs = Some m" and id: "ident m = ident n"
    and raw: "raw_by_id d (i_inodeid n) = n" and plain: "i_realid n = 0"
  shows "m = n"
proof -
  obtain j where j: "m = node_by_id d j" "i_type m \<noteq> INT_INVALID" by (rule locate_node[OF loc])
  have f: "i_inodeid (node_by_id d j) = i_inodeid n" "i_realid (node_by_id d j) = 0"
    using ident_fields[OF id] j(1) plain by simp_all
  have nl: "i_type (raw_by_id d j) \<noteq> INT_HARDLINK"
    using pkg_link(4)[OF ok, of j] pkg_okD(2)[OF ok] f(2) by (cases "j = 0") auto
  have "lookup_at d j \<noteq> 0" using j node_type_used[of d j] by simp
  then have "j = i_inodeid n" using pkg_okD(3)[OF ok] f(1) by (simp add: node_plain[OF nl])
  then show ?thesis using j(1) raw node_plain[OF nl] by simp
qed

text \<open>A new inode written into a spare block and entered in its directory under a free name.\<close>

lemma enter_node:
  assumes inv: "pkg_inv s bs" and spare: "spare s bs pos"
    and wf: "inode_wf m" "stored m = m" "inode_verify m" and free: "lookup_at (fs_disk s) (i_inodeid m) = 0"
    and ty: "i_type m \<in> {INT_FILEINFO, INT_DIRECTORY, INT_SYMLINK, INT_DEVICE}"
    and empty: "used (i_children m) = []" "i_children_count m = 0" "i_blocks m = 0" "i_dat_len m = 0" "i_realid m = 0"
    and w: "fs_disk w = written_node (fs_disk s) pos m" "fs_cache w = fs_cache s" "fs_reserved w = []"
    and num: "i_inodeid m \<noteq> 0" and name: "cstr (i_filename m) = b"
    and parent: "locate (fs_disk s) cs = Some pn" and dir: "i_type pn = INT_DIRECTORY" and slot: "0 \<in> set (i_children pn)"
    and fresh: "locate (fs_disk s) (cs @ [b]) = None"
  shows "\<exists>s'. addChildToDirectoryINode (i_inodeid pn) (i_inodeid m) w = Some (E_SUCCESS, s') \<and> pkg_inv s' bs \<and>
    locate (fs_disk s') (cs @ [b]) = Some m \<and>
    path_map (fs_disk s') = (path_map (fs_disk s))(cs @ [b] := Some (ident m)) \<and> fs_clock s' = fs_clock w \<and>
    fs_cache s' = fs_cache s \<and> dsize (fs_disk s') = dsize (fs_disk s) \<and>
    (\<forall>j. i_type (raw_by_id (fs_disk s') j) = INT_HARDLINK \<longrightarrow> i_realid (raw_by_id (fs_disk s') j) \<noteq> i_inodeid m) \<and>
    raw_by_id (fs_disk s') (i_inodeid m) = m \<and> others_same (fs_disk s) (fs_disk s') (i_inodeid m) \<and>
    data_kept (fs_disk s) (fs_disk s') (i_inodeid m)"
proof -
  let ?d = "fs_disk s" and ?e = "fs_disk w" and ?pid = "i_inodeid pn" and ?iid = "i_inodeid m"
  note i = pkg_invD[OF inv] and loc = locate_directory[OF pkg_invD(1)[OF inv] parent dir]
  have tys: "i_type m \<in> {INT_FILEINFO, INT_DIRECTORY, INT_SYMLINK, INT_DEVICE}" using ty by auto
  note ws = written_sound[OF inv spare wf free tys empty(1-4) w]
  note wi = pkg_invD[OF ws(1)]
  have root: "i_type (node_by_id ?d 0) \<noteq> INT_INVALID" using pkg_rooted[OF i(1)] by (simp add: rooted_def)
  have pid: "?iid \<noteq> ?pid" using free loc(1) dir_atD(1,2) block_okD(5) by metis
  have pnode: "node_by_id ?e ?pid = pn" using ws(5)[of ?pid] pid loc(3) by simp
  have dirw: "dir_at ?e ?pid (lookup_at ?e ?pid) pn"
    using pkg_directory(1)[OF wi(1), of ?pid] dir unfolding pnode by simp
  have nw: "node_by_id ?e ?iid = m" using ws(5)[of ?iid] by simp
  have nm: "node_name ?e ?iid = b" by (simp add: node_name_def nw name)
  have unlisted: "\<not> listed_in ?e a ?iid" for a
    using dir_sound_used[OF pkg_okD(4)[OF i(1)], of a ?iid] free ws(4)[of a] empty(1)
    by (auto simp: listed_in_def split: if_splits)
  have slots: "?iid \<notin> set (i_children pn)"
    using unlisted[of ?pid] dir_atD(8)[OF dirw] dir num by (auto simp: listed_in_def used_def)
  have tw: "tabled_type (i_type (node_by_id ?e ?iid))" unfolding nw using ty by (auto simp: tabled_type_def)
  have childs: "ident (child_named ?e q nm) = ident (child_named ?d q nm)" for q nm
    using ws(2) by (simp add: same_names_def)
  have "i_type (child_named ?d ?pid b) = INT_INVALID"
    using fresh parent locate_snoc[OF root, of cs b] by (auto split: if_splits)
  then have free_name: "i_type (child_named ?e ?pid (node_name ?e ?iid)) = INT_INVALID"
    unfolding nm using ident_fields[OF childs] by simp
  obtain s' n' where s': "addChildToDirectoryINode ?pid ?iid w = Some (E_SUCCESS, s')"
    "same_outside (lookup_at ?e ?pid) w s'" "dir_at (fs_disk s') ?pid (lookup_at ?e ?pid) n'"
    "ident n' = ident pn" "dir_sound ?e n'" "perms n' = perms pn" "set (used (i_children n')) = insert ?iid (set (used (i_children pn)))"
    "names_upd ?e (fs_disk s') ?pid b (ident m)"
    using add_entry[OF wi(1) dirw slot slots pid num tw free_name] unfolding nm nw by metis
  have inv': "pkg_inv s' bs"
    by (rule dir_change_inv[OF ws(1) dirw s'(3,2,4,5)]) (use s'(7) unlisted in auto)
  note i' = pkg_invD[OF inv']
  have upd: "names_upd ?d (fs_disk s') ?pid b (ident m)" by (rule names_upd_after[OF ws(2) s'(8)])
  have "child_named ?d ?iid q = new_inode 0 INT_INVALID" for q
    by (rule child_named_empty) (simp add: node_by_id_def link_target_view_def raw_unused[OF free] visited_def)
  then have leaf': "i_type (child_named (fs_disk s') (fst (ident m)) q) = INT_INVALID" for q
    using upd pid ident_fields[of "child_named (fs_disk s') ?iid q" "new_inode 0 INT_INVALID"]
    by (simp add: names_upd_def ident_def[of m])
  have leaf: "locate ?d (cs @ [b, q]) = None" for q
    using locate_snoc[OF root, of "cs @ [b]" q] fresh by simp
  have "e_type (ident m) \<noteq> INT_INVALID" using ty by auto
  then have ne: "(if e_type (ident m) = INT_INVALID then None else Some (ident m)) = Some (ident m)" by (rule if_not_P)
  note map = path_map_upd[OF i(1,2) i'(1) upd parent refl dir leaf leaf', unfolded ne]
  have "map_option ident (locate (fs_disk s') (cs @ [b])) = Some (ident m)"
    unfolding path_map_def[symmetric] map by (rule fun_upd_same)
  then obtain m' where m': "locate (fs_disk s') (cs @ [b]) = Some m'" "ident m' = ident m"
    unfolding map_option_eq_Some by blast
  note raw' = dir_change_ok(2)[OF wi(1) dirw s'(3,2,4,5)]
  have self: "raw_by_id (fs_disk s') ?iid = m" using raw'[of ?iid] pid ws(4)[of ?iid] by simp
  have "others_same ?d (fs_disk s') ?iid"
    unfolding others_same_def using raw' ws(4) s'(6) dir_atD(4)[OF s'(3)] dir_atD(4,8)[OF dirw] by auto
  moreover have "data_kept ?d (fs_disk s') ?iid"
    by (rule data_kept_trans[OF ws(3) same_outside_data[OF ws(1) s'(2) dirw]]) (simp add: raw')
  moreover from self have "m' = m" by (intro located_is_node[OF i'(1) m']) (simp_all add: empty(5))
  moreover have "i_realid (raw_by_id (fs_disk s') j) \<noteq> ?iid" if h: "i_type (raw_by_id (fs_disk s') j) = INT_HARDLINK" for j
  proof -
    have "raw_by_id (fs_disk s') j = raw_by_id ?d j"
      using raw'[of j] ws(4)[of j] h ty dir_atD(4)[OF s'(3)]
      by (auto split: if_splits)
    moreover then have "lookup_at ?d (i_realid (raw_by_id ?d j)) \<noteq> 0"
      using pkg_okD(5)[OF i(1), of j] h by (intro raw_type_used) auto
    ultimately show ?thesis using free by auto
  qed
  moreover have "dsize ?e = dsize ?d" using written_node_entered(2)[OF inv spare wf free] w(1) by simp
  ultimately show ?thesis using s'(1,2) inv' map m'(1) self w(2) by (auto simp: same_outside_def)
qed

lemma performCreation_made:
  assumes inv: "pkg_inv s bs" and room: "has_room s" and ty: "ty \<in> {INT_FILEINFO, INT_DIRECTORY, INT_SYMLINK, INT_DEVICE}"
    and valid: "path_error path = None" and path: "components path = cs @ [b]"
    and parent: "locate (fs_disk s) cs = Some pn" and dir: "i_type pn = INT_DIRECTORY" and slot: "0 \<in> set (i_children pn)"
    and fresh: "locate (fs_disk s) (cs @ [b]) = None"
    and conf: "\<And>n. i_dev n = 0 \<Longrightarrow> i_rdev n = 0 \<Longrightarrow> conf n = n\<lparr>i_dev := dv, i_rdev := rv\<rparr>" "ty = INT_DIRECTORY \<Longrightarrow> dv = 0 \<and> rv = 0"
  shows "\<exists>iid s'. created s bs (cs @ [b]) (made_dev dv rv (made_at s iid ty b cred mode)) s' \<and>
    performCreation cred ty path mode conf s = Some (Inr (made_dev dv rv (made_at s iid ty b cred mode)), s')"
proof -
  note x = extended_sound[OF inv room]
  note sn = same_nodes(2)[OF x(4)]
  have b: "length b < 256" "0 \<notin> set b" "b \<noteq> []"
    using valid_path_parts[OF valid, of b] components_sound[of b path] by (simp_all add: path)
  note sound = made_node_sound[OF b ty conf(2)]
  have "\<exists>s'. addChildToDirectoryINode (i_inodeid pn) iid (written_state s (made_dev dv rv (made_at s iid ty b cred mode))) = Some (E_SUCCESS, s') \<and>
      created s bs (cs @ [b]) (made_dev dv rv (made_at s iid ty b cred mode)) s'"
    if iid: "iid \<noteq> 0" "lookup_at (fs_disk s) iid = 0" for iid
  proof -
    let ?m = "made_dev dv rv (made_at s iid ty b cred mode)"
    note w = written_state_fields[OF pkg_invD(5)[OF inv], of ?m]
    have free: "lookup_at (fs_disk (extended s)) (i_inodeid ?m) = 0" by (simp add: made_node_fields x(5) iid(2))
    have f: "i_type ?m \<in> {INT_FILEINFO, INT_DIRECTORY, INT_SYMLINK, INT_DEVICE}" "used (i_children ?m) = []" "i_children_count ?m = 0"
      "i_blocks ?m = 0" "i_dat_len ?m = 0" "i_realid ?m = 0" "i_inodeid ?m \<noteq> 0"
      using ty iid(1) by (simp_all add: made_node_def used_def)
    have name: "cstr (i_filename ?m) = b" using sound(4) by simp
    have "data_kept (fs_disk (extended s)) e iid = data_kept (fs_disk s) e iid" for e
      by (simp add: data_kept_def kept_def extended_bytes(1)[OF inv] x(3,5,6))
    then show ?thesis
      using enter_node[OF x(1,2) sound(1-3) free f(1-6) w(1-3) f(7) name] parent dir slot fresh w(4)
      by (simp add: sn x(6) created_def others_same_def made_node_fields path_map_def[abs_def] extended_fields(1)
          extended_bytes(2)[OF inv])
  qed
  then show ?thesis
    using performCreation_steps[OF inv room ty valid path parent fresh conf, where P = "\<lambda>iid s'. created s bs (cs @ [b]) (made_dev dv rv (made_at s iid ty b cred mode)) s'"]
    by blast
qed

text \<open>Creation of inodes other than devices leaves the numbers 0.\<close>

lemma performCreation_plain:
  assumes "pkg_inv s bs" and "has_room s" and "ty \<in> {INT_FILEINFO, INT_DIRECTORY, INT_SYMLINK, INT_DEVICE}"
    and "path_error path = None" and "components path = cs @ [b]"
    and "locate (fs_disk s) cs = Some pn" and "i_type pn = INT_DIRECTORY" and "0 \<in> set (i_children pn)"
    and "locate (fs_disk s) (cs @ [b]) = None"
  shows "\<exists>iid s'. created s bs (cs @ [b]) (made_at s iid ty b cred mode) s' \<and>
    performCreation cred ty path mode (\<lambda>n. n) s = Some (Inr (made_at s iid ty b cred mode), s')"
  using performCreation_made[OF assms, where conf = "\<lambda>n. n" and dv = 0 and rv = 0 and cred = cred and mode = mode]
  by (simp add: made_dev_none)

text \<open>\<^verbatim>\<open>create\<close> and \<^verbatim>\<open>mkdir\<close>.\<close>

definition creates :: "(cred \<Rightarrow> byte list \<Rightarrow> u32 \<Rightarrow> unit act) \<Rightarrow> inodetype \<Rightarrow> bool" where
  "creates op ty \<longleftrightarrow> op = create \<and> ty = INT_FILEINFO \<or> op = mkdir \<and> ty = INT_DIRECTORY"

lemma creates_ops: "creates create INT_FILEINFO" "creates mkdir INT_DIRECTORY"
  by (simp_all add: creates_def)

lemma creation_located:
  assumes "pkg_inv s bs" and "has_room s" and "path_error path = None" and "components path = cs @ [b]"
    and "locate (fs_disk s) cs = Some pn" and "i_type pn = INT_DIRECTORY" and "0 \<in> set (i_children pn)"
    and "locate (fs_disk s) (cs @ [b]) = None" and op: "creates op ty"
  obtains s' iid ct mt at where "op cred path mode s = Some (Inr (), s')"
    and "created s bs (cs @ [b]) (made_node iid ty b cred mode ct mt at) s'"
    and "cstr (i_filename (made_node iid ty b cred mode ct mt at)) = b"
proof -
  have ty: "ty \<in> {INT_FILEINFO, INT_DIRECTORY, INT_SYMLINK, INT_DEVICE}" using op by (auto simp: creates_def)
  have b: "length b < 256" "0 \<notin> set b" "b \<noteq> []"
    using valid_path_parts[OF assms(3), of b] components_sound[of b path] by (simp_all add: assms(4))
  obtain iid s' where s': "created s bs (cs @ [b]) (made_at s iid ty b cred mode) s'"
    "performCreation cred ty path mode (\<lambda>n. n) s = Some (Inr (made_at s iid ty b cred mode), s')"
    using performCreation_plain[OF assms(1,2) ty assms(3-8), of cred mode] by blast
  have "op cred path mode s = Some (Inr (), s')"
    using op s'(2) by (auto simp: creates_def create_def mkdir_def bindE_def ret_def)
  then show ?thesis using s'(1) made_node_sound(4)[OF b ty, of 0 0] by (intro that) simp_all
qed

end
