(* ===== verification/AppFS_Remove.thy ===== *)
theory AppFS_Remove
  imports AppFS_Create
begin

text \<open>
  Taking an inode out of a package: its entry is removed from its directory, its blocks are given back to the
  free list and its number is cleared in the table. \<^verbatim>\<open>FS::rmdir\<close> and \<^verbatim>\<open>FS::unlink\<close> of
  \<^verbatim>\<open>libapp/fs.cpp\<close> are composed of these.
\<close>

section \<open>Removing an entry\<close>

lemma remove_entry:
  assumes ok: "pkg_ok (fs_disk s)" and dir: "dir_at (fs_disk s) pid p n" and v: "v \<in> set (used (i_children n))"
  shows "\<exists>s' n'. removeChildFromDirectoryINode pid v s = Some (E_SUCCESS, s') \<and> same_outside p s s' \<and>
    dir_at (fs_disk s') pid p n' \<and> ident n' = ident n \<and> perms n' = perms n \<and> dir_sound (fs_disk s) n' \<and>
    set (used (i_children n')) = set (used (i_children n)) - {v} \<and> 0 \<in> set (i_children n') \<and>
    names_upd (fs_disk s) (fs_disk s') pid (node_name (fs_disk s) v) (ident (new_inode 0 INT_INVALID))"
proof -
  let ?d = "fs_disk s"
  let ?n = "dir_put (slot_index v (i_children n)) 0 (i_children_count n - 1) (fs_clock s (fs_ticks s)) (fs_clock s (Suc (fs_ticks s))) n"
  have raw: "raw_by_id ?d pid = n" "i_type n = INT_DIRECTORY" using dir_atD[OF dir] by simp_all
  have ds: "dir_sound ?d n" using pkg_okD(4)[OF ok, of pid] raw by simp
  have wf: "dir_wf n" and ty: "tabled_type (i_type (node_by_id ?d v))" and dist: "distinct (map (node_name ?d) (used (i_children n)))"
    using ds v by (simp_all add: dir_sound_def)
  have v': "v \<in> set (i_children n)" "v \<noteq> 0" using v by (simp_all add: used_def)
  obtain s' where s': "removeChildFromDirectoryINode pid v s = Some (E_SUCCESS, s')" "dir_at (fs_disk s') pid p ?n" "same_outside p s s'"
    using remove_child_state[OF dir v'(1)] .
  obtain us vs where u: "used (i_children n) = us @ v # vs" "used (i_children ?n) = us @ vs"
    using used_remove[OF v'] by (metis dir_put_fields(1))
  have names: "node_name ?d c \<noteq> node_name ?d v" if "c \<in> set (used (i_children n))" "c \<noteq> v" for c
    using that dist by (auto simp: distinct_map dest: inj_onD[OF _ _ _ v])
  have sound: "dir_sound ?d ?n" using dir_wf_remove(1)[OF wf v'] ds unfolding dir_sound_def u by auto
  have du: "distinct (used (i_children n))" using wf by (simp add: dir_wf_def)
  have map: "dir_map ?d (used (i_children ?n)) = (dir_map ?d (used (i_children n)))(node_name ?d v := None)"
    using used_remove_map[OF _ ty v' du] names by (simp add: dir_put_fields node_name_def)
  have "slot_index v (i_children n) < length (i_children n)" using slot_index_member[OF v'(1)] by simp
  then have zero: "0 \<in> set (i_children ?n)" by (simp add: dir_put_fields set_update_memI)
  have "set (used (i_children ?n)) = set (used (i_children n)) - {v}" using du unfolding u by auto
  then show ?thesis
    using s' sound zero dir_change_upd[OF ok dir s'(2,3) ident_dir_put sound map]
    by (intro exI[of _ s'] exI[of _ ?n]) (simp add: ident_dir_put)
qed

lemma remove_entry_inv:
  assumes inv: "pkg_inv s bs" and dir: "dir_at (fs_disk s) pid p n" and v: "v \<in> set (used (i_children n))"
  obtains s' where "removeChildFromDirectoryINode pid v s = Some (E_SUCCESS, s')" and "pkg_inv s' bs"
    and "names_upd (fs_disk s) (fs_disk s') pid (node_name (fs_disk s) v) (ident (new_inode 0 INT_INVALID))"
    and "\<And>i. \<not> listed_in (fs_disk s') i v" and "same_outside p s s'"
    and "\<And>j. j \<noteq> pid \<Longrightarrow> raw_by_id (fs_disk s') j = raw_by_id (fs_disk s) j" and "lookup_at (fs_disk s') = lookup_at (fs_disk s)"
    and "i_type (raw_by_id (fs_disk s') pid) = INT_DIRECTORY" and "perms (raw_by_id (fs_disk s') pid) = perms (raw_by_id (fs_disk s) pid)"
    and "0 \<in> set (i_children (raw_by_id (fs_disk s') pid))"
proof -
  note i = pkg_invD[OF inv]
  obtain s' n' where s': "removeChildFromDirectoryINode pid v s = Some (E_SUCCESS, s')" "same_outside p s s'"
    "dir_at (fs_disk s') pid p n'" "ident n' = ident n" "dir_sound (fs_disk s) n'" "perms n' = perms n"
    "set (used (i_children n')) = set (used (i_children n)) - {v}" "0 \<in> set (i_children n')"
    "names_upd (fs_disk s) (fs_disk s') pid (node_name (fs_disk s) v) (ident (new_inode 0 INT_INVALID))"
    using remove_entry[OF i(1) dir v] by metis
  note raw = dir_change_ok(2)[OF i(1) dir s'(3,2,4,5)]
  have inv': "pkg_inv s' bs"
    by (rule dir_change_inv[OF inv dir s'(3,2,4,5)]) (use s'(7) in auto)
  have here: "listed_in (fs_disk s) pid v" using v dir_atD[OF dir] by (simp add: listed_in_def)
  have "\<not> listed_in (fs_disk s') j v" for j
  proof (cases "j = pid")
    case False
    then show ?thesis using i(2) here raw[of j] unfolding sole_entries_def listed_in_def by metis
  qed (use s'(7) raw[of pid] in \<open>simp add: listed_in_def\<close>)
  moreover have "raw_by_id (fs_disk s') j = raw_by_id (fs_disk s) j" if "j \<noteq> pid" for j using raw[of j] that by simp
  moreover have "lookup_at (fs_disk s') = lookup_at (fs_disk s)"
    by (rule same_outside_lookup[OF s'(2) block_okD(1)[OF dir_atD(2)[OF dir]]])
  moreover have "i_type (raw_by_id (fs_disk s') pid) = INT_DIRECTORY"
    using raw[of pid] ident_fields[OF s'(4)] dir_atD[OF dir] by simp
  moreover have "perms (raw_by_id (fs_disk s') pid) = perms (raw_by_id (fs_disk s) pid)"
    using raw[of pid] s'(6) dir_atD[OF dir] by simp
  moreover have "0 \<in> set (i_children (raw_by_id (fs_disk s') pid))" using raw[of pid] s'(8) by simp
  ultimately show ?thesis using that[OF s'(1) inv' s'(9)] s'(2) by blast
qed

section \<open>Dropping an inode\<close>

text \<open>An inode that no directory lists, no link leads to and that has no entries of its own.\<close>

definition orphan :: "disk \<Rightarrow> u16 \<Rightarrow> bool" where
  "orphan d x \<longleftrightarrow> x \<noteq> 0 \<and> (\<forall>i. \<not> listed_in d i x) \<and>
     (\<forall>j. i_type (raw_by_id d j) = INT_HARDLINK \<longrightarrow> i_realid (raw_by_id d j) \<noteq> x) \<and> visited (node_by_id d x) = []"

text \<open>\<open>e\<close> is \<open>d\<close> without the inode \<open>x\<close>, as far as inodes go.\<close>

definition without :: "disk \<Rightarrow> u16 \<Rightarrow> disk \<Rightarrow> bool" where
  "without d x e \<longleftrightarrow> dsize d \<le> dsize e \<and> lookup_at e = (lookup_at d)(x := 0) \<and>
     (\<forall>j. j \<noteq> x \<longrightarrow> raw_by_id e j = raw_by_id d j)"

lemma without_node:
  assumes "without d x e" and "orphan d x"
  shows "raw_by_id e x = new_inode 0 INT_INVALID" and "j \<noteq> x \<Longrightarrow> node_by_id e j = node_by_id d j"
    and "node_by_id e x = new_inode 0 INT_INVALID"
proof -
  have raw: "raw_by_id e j = raw_by_id d j" if "j \<noteq> x" for j using assms(1) that by (simp add: without_def)
  show none: "raw_by_id e x = new_inode 0 INT_INVALID" using assms(1) by (simp add: raw_by_id_def without_def)
  then show "node_by_id e x = new_inode 0 INT_INVALID" by (simp add: node_by_id_def link_target_view_def)
  show "node_by_id e j = node_by_id d j" if "j \<noteq> x"
    using assms(2) raw[OF that] raw by (auto simp: node_by_id_def link_target_view_def orphan_def)
qed

lemma without_ok:
  assumes ok: "pkg_ok d" and wo: "without d x e" and orph: "orphan d x"
  shows "pkg_ok e"
proof -
  note t = tree_okD[OF pkg_okD(1)[OF ok]] and n = without_node[OF wo orph]
  have look: "lookup_at e = (lookup_at d)(x := 0)" and size: "dsize d \<le> dsize e"
    and raw: "\<And>j. j \<noteq> x \<Longrightarrow> raw_by_id e j = raw_by_id d j" using wo by (auto simp: without_def)
  have bok: "block_ok e b" if "block_ok d b" for b using that size by (simp add: block_ok_def)
  have links: "i_type (raw_by_id e (i_realid (raw_by_id e j))) = INT_FILEINFO \<or> i_type (raw_by_id e (i_realid (raw_by_id e j))) = INT_DEVICE"
    if h: "i_type (raw_by_id e j) = INT_HARDLINK" for j
  proof -
    have j: "j \<noteq> x" using h n(1) by auto
    then have "i_type (raw_by_id d j) = INT_HARDLINK" using h raw by simp
    then show ?thesis using pkg_okD(5)[OF ok, of j] orph j by (simp add: raw orphan_def)
  qed
  have "links_ok e" unfolding links_ok_def by (metis links inodetype.distinct(9) inodetype.simps)
  moreover have "block_ok e (lookup_at e i)" if "lookup_at e i \<noteq> 0" for i
    using that t(3)[of i] bok by (auto simp: look split: if_splits)
  moreover have "i = j" if "lookup_at e i = lookup_at e j" "lookup_at e i \<noteq> 0" for i j
    using that t(4)[of i j] by (auto simp: look split: if_splits)
  ultimately have tree: "tree_ok e" unfolding tree_ok_def by blast
  have dirs: "dir_sound e (raw_by_id e j)" if d: "i_type (raw_by_id e j) = INT_DIRECTORY" for j
  proof -
    have j: "j \<noteq> x" using d n(1) by auto
    have ds: "dir_sound d (raw_by_id d j)" using pkg_okD(4)[OF ok, of j] d by (simp add: raw[OF j])
    have "c \<noteq> x" if "c \<in> set (used (i_children (raw_by_id d j)))" for c
      using orph that d by (auto simp: orphan_def listed_in_def raw[OF j])
    then have "node_by_id e c = node_by_id d c" if "c \<in> set (used (i_children (raw_by_id d j)))" for c
      using that by (intro n(2)) auto
    then show ?thesis using ds by (auto simp: dir_sound_def raw[OF j] node_name_def cong: map_cong)
  qed
  have "x \<noteq> 0" using orph by (simp add: orphan_def)
  then show ?thesis
    unfolding pkg_ok_def using tree dirs links pkg_okD(2,3)[OF ok] by (auto simp: raw look)
qed

lemma without_same_names:
  assumes ok: "pkg_ok d" and wo: "without d x e" and orph: "orphan d x"
  shows "same_names d e"
proof -
  note n = without_node[OF wo orph]
  have "ident (child_named e q nm) = ident (child_named d q nm)" for q nm
  proof (cases "q = x")
    case True
    have "child_named e x nm = new_inode 0 INT_INVALID" by (rule child_named_empty) (simp add: n(3) visited_def)
    moreover have "child_named d x nm = new_inode 0 INT_INVALID" by (rule child_named_empty) (use orph in \<open>simp add: orphan_def\<close>)
    ultimately show ?thesis using True by simp
  next
    case False
    have "node_by_id e c = node_by_id d c" if c: "c \<in> set (visited (node_by_id d q))" for c
    proof (rule n(2))
      have dir: "i_type (node_by_id d q) = INT_DIRECTORY" using c visited_not_directory[of d q] by fastforce
      have raw: "node_by_id d q = raw_by_id d q" using pkg_link(3)[OF ok, of q] dir by (intro node_plain) auto
      have "c \<in> set (i_children (raw_by_id d q))" "c \<noteq> 0" using c unfolding raw by (auto simp: visited_def dest: in_set_takeD)
      then have "listed_in d q c" using dir raw by (simp add: listed_in_def used_def)
      then show "c \<noteq> x" using orph by (auto simp: orphan_def)
    qed
    then have "child_nodes e (node_by_id d q) = child_nodes d (node_by_id d q)"
      unfolding child_nodes_def by (intro arg_cong[where f = "filter _"] map_cong) simp_all
    then show ?thesis by (simp add: child_named_def n(2)[OF False] Let_def)
  qed
  moreover have "x \<noteq> 0" using orph by (simp add: orphan_def)
  ultimately show ?thesis by (simp add: same_names_def n(2))
qed

text \<open>
  The inode's blocks \<open>F\<close> released, changing nothing but them and list blocks, and its number cleared.
\<close>

lemma drop_inode:
  assumes inv: "pkg_inv s bs" and orph: "orphan (fs_disk s) x"
    and rel: "released s bs (set (own_blocks (fs_disk s) x)) (set (own_blocks (fs_disk s) x)) u bs'"
    and w: "fs_disk w = put_bytes (lookup_addr x) (enc32 0) (fs_disk u)" "fs_cache w = fs_cache u" "fs_reserved w = []"
  shows "pkg_inv w bs'" and "same_names (fs_disk s) (fs_disk w)" and "without (fs_disk s) x (fs_disk w)"
    and "data_kept (fs_disk s) (fs_disk w) x"
proof -
  let ?d = "fs_disk s" and ?u = "fs_disk u" and ?e = "fs_disk w" and ?F = "set (own_blocks (fs_disk s) x)"
  note i = pkg_invD[OF inv] and t = tree_okD[OF pkg_okD(1)[OF pkg_invD(1)[OF inv]]]
  have ch: "changed_in (?F \<union> set bs) ?d ?u" and fu: "free_inv u bs'"
    and fb: "set (free_blocks u bs') = set (free_blocks s bs) \<union> ?F" and bs': "set bs' \<subseteq> set bs \<union> ?F"
    using rel by (simp_all add: released_def)
  have okC: "\<forall>b \<in> ?F \<union> set bs. block_ok ?d b"
    using own_block_ok[OF i(1,3)] i(4) by (auto simp: free_inv_def free_blocks_def)
  have la: "lookup_addr x + 4 \<le> OFFSET_FSINFO" "OFFSET_FSINFO \<le> OFFSET_DATA"
    using lookup_addr_bounds(2)[of x] by (simp_all add: config)
  have usz: "dsize ?u = dsize ?d" using ch by (simp add: changed_in_def)
  have size: "dsize ?e = dsize ?d" using la pkg_inv_size(1)[OF inv] by (simp add: w(1) usz)
  have byte: "byte_at ?e a = byte_at ?u a" if "OFFSET_FSINFO \<le> a" for a
    using that la by (simp add: w(1) byte_at_put_bytes)
  have keepu: "kept ?u ?e q" if "OFFSET_DATA \<le> unat q" for q
    using byte that la by (auto simp: kept_def in_block_def)
  have keep: "kept ?d ?e q" if "block_ok ?d q" "q \<notin> ?F \<union> set bs" for q
    by (rule kept_trans[OF changed_in_kept[OF ch okC that] keepu[OF block_okD(1)[OF that(1)]]])
  have look: "lookup_at ?e = (lookup_at ?d)(x := 0)"
    by (simp add: fun_eq_iff w(1) lookup_at_put_lookup changed_in_lookup[OF ch okC])
  have lk: "kept ?d ?e (lookup_at ?d j)" if "lookup_at ?d j \<noteq> 0" "j \<noteq> x" for j
  proof (rule keep[OF t(3)[OF that(1)]])
    have "lookup_at ?d j \<notin> ?F" "lookup_at ?d j \<notin> set (free_blocks s bs)"
      using own_head[OF that(1)] i(7)[OF that(2)] i(8)[of j] by blast+
    then show "lookup_at ?d j \<notin> ?F \<union> set bs" by (simp add: free_blocks_def)
  qed
  have raw: "raw_by_id ?e j = raw_by_id ?d j" if "j \<noteq> x" for j
  proof (cases "lookup_at ?d j = 0")
    case False
    then show ?thesis using kept_inode[OF lk[OF False that]] that by (simp add: raw_by_id_def look Let_def)
  qed (use that in \<open>simp add: raw_by_id_def look\<close>)
  show wo: "without ?d x ?e" using size look raw by (simp add: without_def)
  show "same_names ?d ?e" by (rule without_same_names[OF i(1) wo orph])
  show "data_kept ?d ?e x"
    unfolding data_kept_def
  proof (intro allI impI conjI ballI)
    fix j assume j: "j \<noteq> x" "file_type (i_type (raw_by_id ?d j))"
    show "raw_by_id ?e j = raw_by_id ?d j" "lookup_at ?e j = lookup_at ?d j" using j(1) by (simp_all add: raw look)
    show "kept ?d ?e b" if "b \<in> set (own_blocks ?d j)" for b
    proof (rule keep[OF own_block_ok[OF i(1,3) that]])
      show "b \<notin> ?F \<union> set bs" using that i(7)[OF j(1)] i(8)[of j] by (auto simp: free_blocks_def)
    qed
  qed
  note n = without_node[OF wo orph]
  have "listed_in ?e a c \<Longrightarrow> listed_in ?d a c" for a c using n(1) raw by (cases "a = x") (auto simp: listed_in_def)
  then have sole: "sole_entries ?e" using i(2) unfolding sole_entries_def by blast
  have "free_inv w bs'"
  proof (rule free_inv_frame[OF fu, where k = 0])
    show "\<forall>b \<in> set bs'. kept ?u ?e b"
      using bs' okC block_okD(1) by (intro ballI keepu) blast
  qed (use w size usz byte in auto)
  moreover have "own_blocks ?e x = []" by (simp add: own_blocks_def look)
  moreover have "free_blocks w bs' = free_blocks u bs'" by (simp add: free_blocks_def w(2))
  moreover have "lookup_at ?e j = lookup_at ?d j \<and> (file_type (i_type (raw_by_id ?d j)) \<longrightarrow> kept ?d ?e (lookup_at ?d j)) \<and>
      i_type (raw_by_id ?e j) = i_type (raw_by_id ?d j)" if "j \<noteq> x" for j
    using lk[OF _ that] raw_type_used[of ?d j] raw[OF that] that by (auto simp: look)
  ultimately show "pkg_inv w bs'"
    using w(3) i(6) size fb n(1)
    by (intro pkg_inv_step[OF inv without_ok[OF i(1) wo orph] sole, where x = x]) auto
qed

section \<open>Giving back an inode's block and number\<close>

lemma released_own:
  assumes inv: "pkg_inv s bs" and rel: "released s bs F C t cs" and p: "p \<in> set (own_blocks (fs_disk s) x)" "p \<notin> F"
  shows "free_inv t cs" and "block_ok (fs_disk t) p" and "p \<notin> set (free_blocks t cs)" and "fs_reserved t = []"
proof -
  note i = pkg_invD[OF inv]
  have ch: "changed_in (F \<union> C \<union> set bs) (fs_disk s) (fs_disk t)" and fb: "set (free_blocks t cs) = set (free_blocks s bs) \<union> F"
    using rel by (simp_all add: released_def)
  show "free_inv t cs" "fs_reserved t = []" using rel i(5) by (simp_all add: released_def)
  show "block_ok (fs_disk t) p" using own_block_ok[OF i(1,3) p(1)] changed_in_block_ok[OF ch] by simp
  show "p \<notin> set (free_blocks t cs)" using i(8)[of x] p by (auto simp: fb)
qed

lemma free_inode_drop:
  assumes inv: "pkg_inv s bs" and orph: "orphan (fs_disk s) x" and used: "lookup_at (fs_disk s) x \<noteq> 0"
    and rel: "released s bs F C t cs" and own: "set (own_blocks (fs_disk s) x) = insert (lookup_at (fs_disk s) x) F"
    and new: "lookup_at (fs_disk s) x \<notin> F" and C: "C \<subseteq> set (own_blocks (fs_disk s) x)"
  shows "\<exists>w ds. free_inode (lookup_at (fs_disk s) x) x t = Some (Inr (), w) \<and> pkg_inv w ds \<and>
    same_names (fs_disk s) (fs_disk w) \<and> without (fs_disk s) x (fs_disk w) \<and> data_kept (fs_disk s) (fs_disk w) x \<and>
    fs_clock w = fs_clock s \<and>
    set (free_blocks w ds) = set (free_blocks s bs) \<union> set (own_blocks (fs_disk s) x)"
proof -
  let ?p = "lookup_at (fs_disk s) x"
  note r = released_own[OF inv rel own_head[OF used] new]
  obtain u ds where u: "resetBlock ?p t = Some (E_SUCCESS, u)" "released t cs {?p} {} u ds"
    using resetBlock_released[OF r(1-3)] by blast
  let ?w = "fs_put (lookup_addr x) (enc32 0) u"
  have own': "F \<union> {?p} = set (own_blocks (fs_disk s) x)" using own by simp
  have "released s bs (F \<union> {?p}) C u ds" using released_more[OF rel u(2)] by simp
  then have rel': "released s bs (set (own_blocks (fs_disk s) x)) (set (own_blocks (fs_disk s) x)) u ds"
    unfolding own' using C by (auto simp: released_def Un_absorb2 intro: changed_in_mono)
  have "fs_reserved ?w = []" using u(2) r(4) by (simp add: fd_simps released_def)
  note drop = drop_inode[OF inv orph rel', of ?w, OF _ _ this]
  have "pkg_inv ?w ds \<and> same_names (fs_disk s) (fs_disk ?w) \<and> without (fs_disk s) x (fs_disk ?w) \<and> data_kept (fs_disk s) (fs_disk ?w) x" using drop by (simp add: fd_simps)
  moreover have "free_inode ?p x t = Some (Inr (), ?w)"
    using u(1) by (simp add: free_inode_def bindE_def low_def low_total_def setINodePositionByID_eq throw_if_def ret_def)
  moreover have "fs_clock ?w = fs_clock s \<and> set (free_blocks ?w ds) = set (free_blocks s bs) \<union> set (own_blocks (fs_disk s) x)"
    using rel' by (simp add: fd_simps released_def free_blocks_def)
  ultimately show ?thesis by blast
qed

text \<open>The path of an inode whose entry is gone.\<close>

lemma entry_gone:
  assumes ok: "pkg_ok d" and sole: "sole_entries d" and ok': "pkg_ok e"
    and parent: "locate d cs = Some q" "i_type q = INT_DIRECTORY"
    and n: "locate d (cs @ [b]) = Some n" and leaf: "\<And>nm. i_type (child_named d (i_inodeid n) nm) = INT_INVALID"
    and upd: "names_upd d e (i_inodeid q) b (ident (new_inode 0 INT_INVALID))"
  shows "path_map e = (path_map d)(cs @ [b] := None)"
proof -
  have root: "i_type (node_by_id d 0) \<noteq> INT_INVALID" using pkg_rooted[OF ok] by (simp add: rooted_def)
  have "locate d (cs @ [b, x]) = None" for x using locate_snoc[OF root, of "cs @ [b]" x] n leaf by simp
  note pm = path_map_upd[OF ok sole ok' upd parent(1) refl parent(2) this]
  then show ?thesis by simp
qed

lemma pkg_inv_time:
  assumes "pkg_inv s bs"
  shows "pkg_inv (s\<lparr>fs_ticks := k\<rparr>) bs"
  using pkg_inv_bytes(1)[OF assms, of "s\<lparr>fs_ticks := k\<rparr>" 0] pkg_invD[OF assms] by simp

lemma same_outside_own:
  assumes inv: "pkg_inv s bs" and same: "same_outside (lookup_at (fs_disk s) pid) s s'" and look: "lookup_at (fs_disk s') = lookup_at (fs_disk s)"
    and dir: "dir_at (fs_disk s) pid (lookup_at (fs_disk s) pid) q" and ne: "c \<noteq> pid"
    and raw: "raw_by_id (fs_disk s') c = raw_by_id (fs_disk s) c"
  shows "own_blocks (fs_disk s') c = own_blocks (fs_disk s) c"
proof (cases "lookup_at (fs_disk s) c = 0")
  case False
  note t = tree_okD[OF pkg_okD(1)[OF pkg_invD(1)[OF inv]]]
  have "lookup_at (fs_disk s) c \<noteq> lookup_at (fs_disk s) pid" using t(4)[of c pid] False ne by auto
  then have "kept (fs_disk s) (fs_disk s') (lookup_at (fs_disk s) c)"
    using same in_block_unique[OF block_okD(3)[OF t(3)[OF False]] block_okD(3)[OF dir_atD(2)[OF dir]]]
    by (auto simp: kept_def same_outside_def in_block_def)
  then show ?thesis by (simp add: own_blocks_def look raw kept_file_blocks)
qed (simp add: own_blocks_def look)

section \<open>Removing a directory\<close>

text \<open>
  What removal of the inode \<open>x\<close> promises: its path leads nowhere, no other path changes, and exactly
  its blocks have been given back.
\<close>

definition removed :: "fsys \<Rightarrow> u32 list \<Rightarrow> byte list list \<Rightarrow> u16 \<Rightarrow> fsys \<Rightarrow> bool" where
  "removed s bs cs x s' \<longleftrightarrow> (\<exists>bs'. pkg_inv s' bs' \<and>
       set (free_blocks s' bs') = set (free_blocks s bs) \<union> set (own_blocks (fs_disk s) x)) \<and>
     path_map (fs_disk s') = (path_map (fs_disk s))(cs := None) \<and> fs_clock s' = fs_clock s \<and>
     lookup_at (fs_disk s') x = 0 \<and> others_same (fs_disk s) (fs_disk s') x \<and>
     data_kept (fs_disk s) (fs_disk s') x \<and>
     (\<forall>q j. locate (fs_disk s) (butlast cs) = Some q \<longrightarrow> j \<noteq> i_inodeid q \<longrightarrow> j \<noteq> x \<longrightarrow>
        raw_by_id (fs_disk s') j = raw_by_id (fs_disk s) j) \<and>
     (\<forall>q. locate (fs_disk s) (butlast cs) = Some q \<longrightarrow> 0 \<in> set (i_children (raw_by_id (fs_disk s') (i_inodeid q))))"

lemma without_others:
  assumes wo: "without d x e" and same: "\<And>j. j \<noteq> pid \<Longrightarrow> raw_by_id d j = raw_by_id c j"
    and dir: "i_type (raw_by_id c pid) = INT_DIRECTORY" "i_type (raw_by_id d pid) = INT_DIRECTORY"
      "perms (raw_by_id d pid) = perms (raw_by_id c pid)"
  shows "lookup_at e x = 0" and "others_same c e x"
proof -
  show "lookup_at e x = 0" using wo by (simp add: without_def)
  have "raw_by_id e j = raw_by_id d j" if "j \<noteq> x" for j using wo that by (simp add: without_def)
  then show "others_same c e x" unfolding others_same_def using same dir by metis
qed

lemma rmdir_removes:
  assumes inv: "pkg_inv s bs" and valid: "path_error path = None" and path: "components path = cs @ [b]"
    and n: "locate (fs_disk s) (cs @ [b]) = Some n" and dir: "i_type n = INT_DIRECTORY" and empty: "i_children_count n = 0"
  shows "\<exists>s'. rmdir path s = Some (Inr (), s') \<and> removed s bs (cs @ [b]) (i_inodeid n) s'"
proof -
  let ?d = "fs_disk s"
  note i = pkg_invD[OF inv]
  have ro: "rooted ?d" by (rule pkg_rooted[OF i(1)])
  obtain q c where q: "locate ?d cs = Some q" "i_type q = INT_DIRECTORY" "listed_in ?d (i_inodeid q) c"
    "n = node_by_id ?d c" "node_name ?d c = b" "c \<noteq> 0"
    using locate_last[OF i(1) n] .
  let ?pid = "i_inodeid q"
  have nc: "i_inodeid n = c" and dn: "dir_at ?d c (lookup_at ?d c) n"
    using pkg_directory(1,3)[OF i(1), of c] q(4) dir by auto
  note ql = locate_directory[OF i(1) q(1,2)]
  have v: "c \<in> set (used (i_children q))" using q(3) dir_atD(8)[OF ql(1)] by (simp add: listed_in_def)
  have used: "lookup_at ?d c \<noteq> 0" using dir_atD(1,2)[OF dn] block_okD(5) by blast
  have rawc: "raw_by_id ?d c = n" by (rule dir_atD(8)[OF dn])
  have "used (i_children n) = []"
    using pkg_okD(4)[OF i(1), of c] dir empty by (simp add: rawc dir_sound_def dir_wf_def)
  then have cp: "c \<noteq> ?pid" using v ql(3) q(4) by auto
  obtain s1 where s1: "removeChildFromDirectoryINode ?pid c s = Some (E_SUCCESS, s1)" "pkg_inv s1 bs"
    "names_upd ?d (fs_disk s1) ?pid b (ident (new_inode 0 INT_INVALID))" "\<And>j. \<not> listed_in (fs_disk s1) j c"
    "same_outside (lookup_at ?d ?pid) s s1" "\<And>j. j \<noteq> ?pid \<Longrightarrow> raw_by_id (fs_disk s1) j = raw_by_id ?d j"
    "lookup_at (fs_disk s1) = lookup_at ?d" "i_type (raw_by_id (fs_disk s1) ?pid) = INT_DIRECTORY"
    "perms (raw_by_id (fs_disk s1) ?pid) = perms (raw_by_id ?d ?pid)" "0 \<in> set (i_children (raw_by_id (fs_disk s1) ?pid))"
    using remove_entry_inv[OF inv ql(1) v] unfolding q(5) by blast
  note i1 = pkg_invD[OF s1(2)]
  have raw1: "raw_by_id (fs_disk s1) c = n" using s1(6)[OF cp] rawc by simp
  have "node_by_id (fs_disk s1) c = n" using node_plain[of "fs_disk s1" c] raw1 dir by simp
  then have orph: "orphan (fs_disk s1) c"
    using q(6) s1(4) pkg_okD(5)[OF i1(1)] raw1 dir empty by (force simp: orphan_def visited_def)
  have own: "own_blocks (fs_disk s1) c = [lookup_at (fs_disk s1) c]"
    using used dir by (simp add: own_blocks_def s1(7) raw1)
  have refl: "released s1 bs {} {} s1 bs" by (rule released_refl[OF i1(4)]) simp_all
  obtain w ds where w: "free_inode (lookup_at ?d c) c s1 = Some (Inr (), w)" "pkg_inv w ds"
    "same_names (fs_disk s1) (fs_disk w)" "without (fs_disk s1) c (fs_disk w)" "data_kept (fs_disk s1) (fs_disk w) c" "fs_clock w = fs_clock s1"
    "set (free_blocks w ds) = set (free_blocks s1 bs) \<union> set (own_blocks (fs_disk s1) c)"
    using free_inode_drop[OF s1(2) orph _ refl] used own by (auto simp: s1(7))
  have "i_type (child_named ?d c nm) = INT_INVALID" for nm
    using child_named_empty[of ?d c nm] q(4) empty by (simp add: visited_def)
  then have "path_map (fs_disk w) = (path_map ?d)(cs @ [b] := None)"
    using entry_gone[OF i(1,2) pkg_invD(1)[OF w(2)] q(1,2) n _ names_upd_before[OF s1(3) w(3)]] nc by simp
  moreover have "rmdir path s = Some (Inr (), w)"
    using rooted_need[OF ro, of path] valid n q(1) dir empty used s1(1) w(1) nc
    by (simp add: rmdir_def bindE_def seqE_def low_def low_total_def throw_remove_def ret_def path)
  moreover have "own_blocks (fs_disk s1) c = own_blocks ?d c"
    by (rule same_outside_own[OF inv s1(5,7) ql(1) cp]) (use s1(6)[OF cp] in simp)
  moreover have "free_blocks s1 bs = free_blocks s bs" using s1(5) by (simp add: free_blocks_def same_outside_def)
  moreover have "i_type (raw_by_id ?d ?pid) = INT_DIRECTORY" using dir_atD[OF ql(1)] by simp
  note without_others[OF w(4) s1(6) this s1(8,9)] data_kept_trans[OF same_outside_data[OF inv s1(5) ql(1) s1(6)] w(5)]
  moreover have "raw_by_id (fs_disk w) j = raw_by_id ?d j" if "j \<noteq> ?pid" "j \<noteq> c" for j
    using w(4) s1(6) that by (simp add: without_def)
  moreover have "0 \<in> set (i_children (raw_by_id (fs_disk w) ?pid))" using w(4) s1(10) cp by (auto simp: without_def)
  ultimately show ?thesis using w(2,6,7) s1(5) nc q(1) by (auto simp: removed_def same_outside_def free_blocks_def)
qed

section \<open>Removing a file\<close>

text \<open>Releasing the contents, for every type that \<^verbatim>\<open>unlink\<close> takes; a device has none.\<close>

lemma release_contents:
  assumes inv: "pkg_inv s bs" and raw: "raw_by_id (fs_disk s) c = n" and used: "lookup_at (fs_disk s) c \<noteq> 0"
    and ty: "i_type n \<in> {INT_FILEINFO, INT_SYMLINK, INT_DEVICE}"
  shows "\<exists>res F C t cs. truncateFile c 0 s = Some (res, t) \<and> released s bs F C t cs \<and>
    set (own_blocks (fs_disk s) c) = insert (lookup_at (fs_disk s) c) F \<and> lookup_at (fs_disk s) c \<notin> F \<and>
    C \<subseteq> set (own_blocks (fs_disk s) c)"
proof -
  let ?d = "fs_disk s" and ?p = "lookup_at (fs_disk s) c"
  note i = pkg_invD[OF inv]
  show ?thesis
  proof (cases "i_type n = INT_DEVICE")
    case True
    have ok: "block_ok ?d ?p" by (rule tree_okD(3)[OF pkg_okD(1)[OF i(1)] used])
    have "getINodeByPosition ?p s = Some (n, s)"
      using getINodeByPosition_plain[of ?p s] raw_used[OF pkg_okD(1)[OF i(1)] used] raw True block_okD(4)[OF ok] by simp
    then have "truncateFile c 0 s = Some (E_FAILURE_INODE_NOT_VALID, s)" using True by (simp add: truncateFile_def Let_def)
    moreover have "released s bs {} {} s bs" by (rule released_refl[OF i(4)]) simp_all
    moreover have "own_blocks ?d c = [?p]" using used True raw by (simp add: own_blocks_def)
    ultimately show ?thesis by (intro exI[of _ E_FAILURE_INODE_NOT_VALID] exI[of _ "{}"] exI[of _ s] exI[of _ bs]) simp
  next
    case False
    then have ft: "file_type (i_type (raw_by_id ?d c))" using ty raw by auto
    note sf = files_soundD[OF i(3) ft]
    have own: "own_blocks ?d c = ?p # file_blocks ?d ?p" using used ft by (simp add: own_blocks_def)
    have "?p \<notin> set (free_blocks s bs)" "\<forall>b \<in> set (file_blocks ?d ?p). b \<notin> set (free_blocks s bs)"
      using i(8)[of c] unfolding own by auto
    from truncateFile_zero[OF sf i(4) this] obtain t cs where
      "truncateFile c 0 s = Some (E_SUCCESS, t)" "released s bs (set (file_blocks ?d ?p)) {?p} t cs" by blast
    moreover have "?p \<notin> set (file_blocks ?d ?p)" using sf by (simp add: sound_file_def roomy_def file_at_def)
    ultimately show ?thesis unfolding own by (metis insert_subset empty_subsetI list.simps(15) insertI1)
  qed
qed

lemma unlink_removes:
  assumes inv: "pkg_inv s bs" and valid: "path_error path = None" and path: "components path = cs @ [b]"
    and n: "locate (fs_disk s) (cs @ [b]) = Some n" and ty: "i_type n \<in> {INT_FILEINFO, INT_SYMLINK, INT_DEVICE}"
    and plain: "i_realid n = 0" and last: "i_nlink n = 1"
    and links: "\<And>j. i_type (raw_by_id (fs_disk s) j) = INT_HARDLINK \<Longrightarrow> i_realid (raw_by_id (fs_disk s) j) \<noteq> i_inodeid n"
  shows "\<exists>s'. unlink path s = Some (Inr (), s') \<and> removed s bs (cs @ [b]) (i_inodeid n) s'"
proof -
  let ?d = "fs_disk s"
  note i = pkg_invD[OF inv]
  have ro: "rooted ?d" by (rule pkg_rooted[OF i(1)])
  obtain q c where q: "locate ?d cs = Some q" "i_type q = INT_DIRECTORY" "listed_in ?d (i_inodeid q) c"
    "n = node_by_id ?d c" "node_name ?d c = b" "c \<noteq> 0"
    using locate_last[OF i(1) n] .
  let ?pid = "i_inodeid q"
  have nl: "i_type (raw_by_id ?d c) \<noteq> INT_HARDLINK" using pkg_link(4)[OF i(1), of c] q(4,6) plain by auto
  have rawc: "raw_by_id ?d c = n" using node_plain[OF nl] q(4) by simp
  have used: "lookup_at ?d c \<noteq> 0" using raw_type_used[of ?d c] rawc ty by auto
  have nc: "i_inodeid n = c" using pkg_okD(3)[OF i(1) used] rawc by simp
  note ql = locate_directory[OF i(1) q(1,2)]
  have v: "c \<in> set (used (i_children q))" using q(3) dir_atD(8)[OF ql(1)] by (simp add: listed_in_def)
  have cp: "c \<noteq> ?pid" using dir_atD(8)[OF ql(1)] rawc ty q(2) by auto
  obtain s1 where s1: "removeChildFromDirectoryINode ?pid c s = Some (E_SUCCESS, s1)" "pkg_inv s1 bs"
    "names_upd ?d (fs_disk s1) ?pid b (ident (new_inode 0 INT_INVALID))" "\<And>j. \<not> listed_in (fs_disk s1) j c"
    "same_outside (lookup_at ?d ?pid) s s1" "\<And>j. j \<noteq> ?pid \<Longrightarrow> raw_by_id (fs_disk s1) j = raw_by_id ?d j"
    "lookup_at (fs_disk s1) = lookup_at ?d" "i_type (raw_by_id (fs_disk s1) ?pid) = INT_DIRECTORY"
    "perms (raw_by_id (fs_disk s1) ?pid) = perms (raw_by_id ?d ?pid)" "0 \<in> set (i_children (raw_by_id (fs_disk s1) ?pid))"
    using remove_entry_inv[OF inv ql(1) v] unfolding q(5) by blast
  let ?s2 = "s1\<lparr>fs_ticks := Suc (fs_ticks s1)\<rparr>"
  note inv2 = pkg_inv_time[OF s1(2), of "Suc (fs_ticks s1)"]
  note i1 = pkg_invD[OF s1(2)]
  have raw1: "raw_by_id (fs_disk ?s2) c = n" using s1(6)[OF cp] rawc by simp
  have node1: "node_by_id (fs_disk s1) c = n" using node_plain[of "fs_disk s1" c] raw1 ty by auto
  have vis: "visited n = []" using visited_not_directory[of ?d c] q(4) ty by auto
  have "i_realid (raw_by_id (fs_disk s1) j) \<noteq> c" if h: "i_type (raw_by_id (fs_disk s1) j) = INT_HARDLINK" for j
  proof -
    have "j \<noteq> ?pid" using h s1(8) by auto
    then show ?thesis using s1(6) h links nc by simp
  qed
  then have orph: "orphan (fs_disk ?s2) c" using q(6) s1(4) node1 vis by (simp add: orphan_def)
  have used2: "lookup_at (fs_disk ?s2) c \<noteq> 0" by (simp add: s1(7) used)
  obtain res F C t ts where t: "truncateFile c 0 ?s2 = Some (res, t)" "released ?s2 bs F C t ts"
    "set (own_blocks (fs_disk ?s2) c) = insert (lookup_at (fs_disk ?s2) c) F" "lookup_at (fs_disk ?s2) c \<notin> F"
    "C \<subseteq> set (own_blocks (fs_disk ?s2) c)"
    using release_contents[OF inv2 raw1 used2 ty] by blast
  obtain w ds where w: "free_inode (lookup_at ?d c) c t = Some (Inr (), w)" "pkg_inv w ds"
    "same_names (fs_disk s1) (fs_disk w)" "without (fs_disk s1) c (fs_disk w)" "data_kept (fs_disk s1) (fs_disk w) c" "fs_clock w = fs_clock s1"
    "set (free_blocks w ds) = set (free_blocks ?s2 bs) \<union> set (own_blocks (fs_disk ?s2) c)"
    using free_inode_drop[OF inv2 orph used2 t(2-5)] by (auto simp: s1(7))
  have "i_type (child_named ?d c nm) = INT_INVALID" for nm
    using child_named_empty[of ?d c nm] q(4) vis by simp
  then have "path_map (fs_disk w) = (path_map ?d)(cs @ [b] := None)"
    using entry_gone[OF i(1,2) pkg_invD(1)[OF w(2)] q(1,2) n _ names_upd_before[OF s1(3) w(3)]] nc by simp
  moreover have "inode_resolve n s = Some (n, s)" using plain ty by (auto simp: inode_resolve_def)
  then have "unlink path s = Some (Inr (), w)"
    using rooted_need[OF ro, of path] valid n q(1) ty used s1(1) w(1) nc last t(1)
    by (auto simp: unlink_def bindE_def seqE_def low_def low_total_def throw_remove_def ret_def path getTime_eq Let_def)
  moreover have "own_blocks (fs_disk s1) c = own_blocks ?d c"
    by (rule same_outside_own[OF inv s1(5,7) ql(1) cp]) (use s1(6)[OF cp] in simp)
  moreover have "free_blocks s1 bs = free_blocks s bs" using s1(5) by (simp add: free_blocks_def same_outside_def)
  moreover have "i_type (raw_by_id ?d ?pid) = INT_DIRECTORY" using dir_atD[OF ql(1)] by simp
  note without_others[OF w(4) s1(6) this s1(8,9)] data_kept_trans[OF same_outside_data[OF inv s1(5) ql(1) s1(6)] w(5)]
  moreover have "raw_by_id (fs_disk w) j = raw_by_id ?d j" if "j \<noteq> ?pid" "j \<noteq> c" for j
    using w(4) s1(6) that by (simp add: without_def)
  moreover have "0 \<in> set (i_children (raw_by_id (fs_disk w) ?pid))" using w(4) s1(10) cp by (auto simp: without_def)
  ultimately show ?thesis using w(2,6,7) s1(5) nc q(1) by (auto simp: removed_def same_outside_def free_blocks_def)
qed

end
