(* ===== verification/Spec_Paths.thy ===== *)
theory Spec_Paths
  imports AppFS_Remove Samples
begin

text \<open>
  The properties of the operations on paths (\<^verbatim>\<open>libapp/fs.cpp\<close>): looking, refusing and creating;
  and the packages at which they are applied.
\<close>

section \<open>Sound packages\<close>

lemma package0_inv: "pkg_inv package0 []"
  by (rule fresh_package_inv[of _ 7 "[]" "[]" "[]" "[]"]) (simp_all add: package0_def)

lemma package0_ok: "pkg_ok (fs_disk package0)"
  by (rule pkg_invD(1)[OF package0_inv])

lemma package_f_ok: "pkg_ok (fs_disk package_f)"
proof -
  have "dir_sound (fs_disk package_f) (root_node 7)"
    using root_node_children by (simp add: dir_sound_def used_def)
  then show ?thesis
    using package_f_tree
    by (auto simp: pkg_ok_def package_f_lookup package_f_raw split: if_splits) (simp_all add: root_node_def sample_node_def)
qed

lemma package_f_inv: "pkg_inv package_f []"
  and package_f_own: "own_blocks (fs_disk package_f) j = (if j = 1 then [blk 1, blk 2] else if j = 0 then [blk 0] else [])"
proof -
  have ty: "i_type (root_node 7) = INT_DIRECTORY" "i_type sample_node = INT_FILEINFO"
    by (simp_all add: root_node_def sample_node_def)
  have u: "unat (blk 0) \<noteq> unat (blk 1)" "unat (blk 0) \<noteq> unat (blk 2)" by (simp_all add: unat_blk)
  then have ne: "blk 0 \<noteq> blk 1" "blk 0 \<noteq> blk 2" by metis+
  have z: "blk 0 \<noteq> 0" "blk 1 \<noteq> 0" using block_okD(5)[OF package1_blocks(1)] block_okD(5)[OF package1_blocks(2)] by simp_all
  have fb: "file_blocks (fs_disk package_f) (blk 1) = [blk 2]"
    by (rule file_blocks_eq) (use package_f_sound[unfolded sound_file_def roomy_def file_at_def] in blast)
  show own: "own_blocks (fs_disk package_f) j = (if j = 1 then [blk 1, blk 2] else if j = 0 then [blk 0] else [])" for j
    using z ty fb by (simp add: own_blocks_def package_f_lookup package_f_raw)
  have "free_inv package1 []" using package1_layout(2,4) by (simp add: free_inv_def free_blocks_def)
  then have "free_inv package_f []"
  proof (rule free_inv_frame[where k = 0])
    have "lookup_addr 1 + 4 \<le> OFFSET_FSINFO" using lookup_addr_bounds(2) .
    then show "\<forall>a. OFFSET_FSINFO \<le> a \<and> a < OFFSET_DATA \<longrightarrow> byte_at (fs_disk package_f) a = byte_at (fs_disk package1) a"
      by (auto simp: package_f_def fd_simps byte_at_put_bytes)
    show "dsize (fs_disk package1) \<le> dsize (fs_disk package_f)" by (simp only: package_f_size package1_layout(1))
  qed (simp_all add: package_f_def fd_simps)
  moreover have "sole_entries (fs_disk package_f)"
    by (auto simp: sole_entries_def listed_in_def package_f_raw ty root_node_children used_def split: if_splits)
  moreover have "files_sound (fs_disk package_f)"
    using package_f_sound by (auto simp: files_sound_def package_f_raw package_f_lookup ty fb simp del: One_nat_def split: if_splits)
  moreover have "set (own_blocks (fs_disk package_f) i) \<inter> set (own_blocks (fs_disk package_f) j) = {}" if "i \<noteq> j" for i j
    using that ne by (auto simp: own)
  ultimately show "pkg_inv package_f []"
    using package_f_ok unfolding pkg_inv_def
    by (simp add: package_f_size config free_blocks_def) (simp add: package_f_def fd_simps package1_layout)
qed

lemma package_d_inv: "pkg_inv package_d []"
  and package_d_paths: "locate (fs_disk package_d) ([] @ [[0x61]]) = Some sample_node"
    "raw_by_id (fs_disk package_d) j = (if j = 0 then root_node_d else raw_by_id (fs_disk package_f) j)"
proof -
  have node: "node_by_id (fs_disk package_f) 0 = root_node 7"
    using node_plain[of "fs_disk package_f" 0] by (simp add: package_f_raw) (simp add: root_node_def)
  have v: "visited (root_node 7) = []" using visited_all[OF root_node_children(2)] by (simp add: root_node_children used_def)
  have free: "i_type (child_named (fs_disk package_f) 0 nm) = INT_INVALID" for nm
    using child_named_empty[of "fs_disk package_f" 0 nm] v node by simp
  have p: "0 \<in> set (i_children (root_node 7))" "1 \<notin> set (i_children (root_node 7))" "tabled_type (i_type (node_by_id (fs_disk package_f) 1))"
    by (simp_all add: root_node_children package_f_child tabled_type_def sample_node_def del: One_nat_def)
  obtain s' n' where s': "addChildToDirectoryINode 0 1 package_f = Some (E_SUCCESS, s')" "same_outside (blk 0) package_f s'"
    "dir_at (fs_disk s') 0 (blk 0) n'" "ident n' = ident (root_node 7)" "dir_sound (fs_disk package_f) n'"
    "set (used (i_children n')) = insert 1 (set (used (i_children (root_node 7))))"
    "names_upd (fs_disk package_f) (fs_disk s') 0 (node_name (fs_disk package_f) 1) (ident (node_by_id (fs_disk package_f) 1))"
    using add_entry[OF package_f_ok package_f_dir p(1,2) _ _ p(3) free] by auto
  then have s: "package_d = s'" by (simp add: package_d_def)
  have n': "n' = root_node_d" using s'(3) package_d_state(1) dir_atD(3) unfolding s by metis
  have "\<not> listed_in (fs_disk package_f) i c" for i c
    by (auto simp: listed_in_def package_f_raw sample_node_def root_node_children used_def split: if_splits)
  then show inv: "pkg_inv package_d []"
    unfolding s by (intro dir_change_inv[OF package_f_inv package_f_dir s'(3,2,4,5)])
  show raw: "raw_by_id (fs_disk package_d) j = (if j = 0 then root_node_d else raw_by_id (fs_disk package_f) j)" for j
    using dir_change_ok(2)[OF package_f_ok package_f_dir s'(3,2,4,5), of j] unfolding s n' .
  note ok = pkg_invD(1)[OF inv]
  have root: "i_type (node_by_id (fs_disk package_d) 0) \<noteq> INT_INVALID" using pkg_rooted[OF ok] by (simp add: rooted_def)
  have "i_inodeid (node_by_id (fs_disk package_d) 0) = 0"
    using ident_fields[of "node_by_id (fs_disk s') 0" "root_node 7"] s'(7) node unfolding s by (simp add: names_upd_def root_node_def)
  moreover have id: "ident (child_named (fs_disk package_d) 0 [0x61]) = ident sample_node"
    using s'(7) unfolding s names_upd_def by (simp add: node_name_def package_f_child)
  moreover have "i_type sample_node \<noteq> INT_INVALID" by (simp add: sample_node_def)
  ultimately have l: "locate (fs_disk package_d) ([] @ [[0x61]]) = Some (child_named (fs_disk package_d) 0 [0x61])"
    using ident_fields[OF id] by (simp add: locate_walk[OF root] Let_def)
  have "i_inodeid sample_node = 1" "i_realid sample_node = 0" by (simp_all add: sample_node_def)
  then have "child_named (fs_disk package_d) 0 [0x61] = sample_node"
    by (intro located_is_node[OF ok l id]) (simp_all add: raw package_f_raw)
  then show "locate (fs_disk package_d) ([] @ [[0x61]]) = Some sample_node" using l by simp
qed

lemma package_d_ok: "pkg_ok (fs_disk package_d)"
  and package_d_locate: "locate (fs_disk package_d) [[0x61]] \<noteq> None"
  using pkg_invD(1)[OF package_d_inv] package_d_paths(1) by simp_all

lemma package0_paths:
  "locate (fs_disk package0) [] = Some (root_node 7)" "locate (fs_disk package0) [[0x61]] = None"
  "components [0x2F] = []" "components [0x2F, 0x61] = [[0x61]]" "path_error [0x2F] = None" "path_error [0x2F, 0x61] = None"
  "i_type (root_node 7) = INT_DIRECTORY" "components [0x61] = [[0x61]]"
proof -
  have raw: "raw_by_id (fs_disk package0) i = (if i = 0 then root_node 7 else new_inode 0 INT_INVALID)" for i
    by (rule createPackage_raw[of _ 7 "[]" "[]" "[]" "[]"]) (simp add: package0_def)
  have node: "node_by_id (fs_disk package0) 0 = root_node 7"
    using node_plain[of "fs_disk package0" 0] by (simp add: raw) (simp add: root_node_def)
  have v: "visited (root_node 7) = []" using visited_all[OF root_node_children(2)] by (simp add: root_node_children used_def)
  have n: "i_inodeid (root_node 7) = 0" by (simp add: root_node_def)
  show ty: "i_type (root_node 7) = INT_DIRECTORY" by (simp add: root_node_def)
  show "locate (fs_disk package0) [] = Some (root_node 7)" "locate (fs_disk package0) [[0x61]] = None"
    by (simp_all add: locate_def node ty n child_named_def child_nodes_def v Let_def)
  show c: "components [0x2F] = []" "components [0x2F, 0x61] = [[0x61]]" "components [0x61] = [[0x61]]"
    by (simp_all add: components_def)
  show "path_error [0x2F] = None" "path_error [0x2F, 0x61] = None" by (simp_all add: path_error_def c)
qed

lemma package0_room: "has_room package0"
proof -
  have "lookup_at (fs_disk package0) 1 = 0" by (simp add: package0_layout)
  then show ?thesis
    using package0_layout(1) by (auto simp: has_room_def package0_fields config)
qed

section \<open>Looking\<close>

text \<open>
  Attributes: on a sound package \<^verbatim>\<open>getattr\<close> of a valid path returns the attributes of the inode the
  path leads to from the root, throws \<^verbatim>\<open>FileNotFound\<close> when it leads nowhere and the path's own error when
  the path is not valid, and changes nothing.
\<close>

theorem getattr_of_located:
  assumes "pkg_ok (fs_disk s)"
  shows "getattr path s = Some (case path_error path of Some e \<Rightarrow> Inl e
    | None \<Rightarrow> (case locate (fs_disk s) (components path) of None \<Rightarrow> Inl FileNotFound
      | Some n \<Rightarrow> if \<not> tabled_type (i_type n) then Inl FileNotFound
                 else (case stat_of n of Some st \<Rightarrow> Inr st | None \<Rightarrow> Inl InternalInconsistency)), s)"
  by (rule getattr_eq[OF pkg_rooted[OF assms]])

theorem getattr_of_located_witness:
  "getattr [0x2F] package0 = Some (Inr (the (stat_of (root_node 7))), package0) \<and>
   getattr [0x2F, 0x61] package0 = Some (Inl FileNotFound, package0)"
proof -
  obtain st where "stat_of (root_node 7) = Some st" using package0_paths(7) by (simp add: stat_of_def Let_def)
  then show ?thesis
    using getattr_of_located[OF package0_ok] by (simp add: package0_paths tabled_type_def)
qed

text \<open>
  Listing: \<^verbatim>\<open>readdir\<close> of a valid path to a directory returns the names of all its entries in the
  order of their slots, each name once, throws \<^verbatim>\<open>NotADirectory\<close> on anything else, and changes nothing.
\<close>

theorem readdir_names:
  assumes "pkg_ok (fs_disk s)" and "path_error path = None" and "locate (fs_disk s) (components path) = Some n"
  shows "readdir path s = Some (if i_type n \<noteq> INT_DIRECTORY then Inl NotADirectory
      else Inr (map (\<lambda>c. cstr (i_filename (node_by_id (fs_disk s) c))) (used (i_children n))), s) \<and>
    (i_type n = INT_DIRECTORY \<longrightarrow> distinct (map (\<lambda>c. cstr (i_filename (node_by_id (fs_disk s) c))) (used (i_children n))))"
proof (cases "i_type n = INT_DIRECTORY")
  case True
  note l = locate_directory[OF assms(1,3) True]
  have wf: "dir_wf n" and ty: "\<forall>c \<in> set (used (i_children n)). tabled_type (i_type (node_by_id (fs_disk s) c))"
    and dist: "distinct (map (node_name (fs_disk s)) (used (i_children n)))"
    using l(2) by (simp_all add: dir_sound_def)
  have "child_nodes (fs_disk s) n = map (node_by_id (fs_disk s)) (used (i_children n))"
    using ty by (simp add: child_nodes_def visited_all[OF wf])
  then show ?thesis
    using assms(2,3) True dist
    by (simp add: readdir_eq[OF pkg_rooted[OF assms(1)]] l(3)[symmetric] node_name_def[abs_def] o_def)
next
  case False
  then show ?thesis using assms by (simp add: readdir_eq[OF pkg_rooted[OF assms(1)]])
qed

theorem readdir_names_witness: "readdir [0x2F] package0 = Some (Inr [], package0)"
  using readdir_names[OF package0_ok package0_paths(5), of "root_node 7"]
  by (simp add: package0_paths root_node_children used_def)

section \<open>Refusing\<close>




section \<open>Creating\<close>

text \<open>
  C9. Creation: on a sound package with a free block or room at its end and a free inode number, \<^verbatim>\<open>create\<close> and
  \<^verbatim>\<open>mkdir\<close> of a free name in a directory with a free slot succeed and refine inserting the path into the
  package's map from paths: the path leads to a new
  inode of the right type, name, mode and owner that is empty, and every other path leads where it did. The
  package is sound afterwards: no block is used twice and the free list is well-formed.
\<close>

theorem creation_makes_inode:
  assumes "pkg_inv s bs" and "has_room s" and "path_error path = None" and "components path = cs @ [b]"
    and "locate (fs_disk s) cs = Some pn" and "i_type pn = INT_DIRECTORY" and "0 \<in> set (i_children pn)"
    and "locate (fs_disk s) (cs @ [b]) = None" and "creates op ty"
  shows "\<exists>s' n. op cred path mode s = Some (Inr (), s') \<and> pkg_inv s' bs \<and>
    locate (fs_disk s') (components path) = Some n \<and> i_type n = ty \<and> cstr (i_filename n) = b \<and>
    i_mask n = ucast (extractMaskFromMode mode) \<and> i_uid n = ucast (fst cred) \<and> i_gid n = ucast (snd cred) \<and>
    i_dat_len n = 0 \<and> used (i_children n) = [] \<and>
    path_map (fs_disk s') = (path_map (fs_disk s))(components path := Some (ident n))"
proof -
  obtain s' iid ct mt at where s': "op cred path mode s = Some (Inr (), s')"
    "created s bs (cs @ [b]) (made_node iid ty b cred mode ct mt at) s'"
    "cstr (i_filename (made_node iid ty b cred mode ct mt at)) = b"
    using creation_located[OF assms] .
  then show ?thesis
    unfolding created_def assms(4) by (intro exI conjI) (assumption | simp add: made_node_def used_def)+
qed

theorem creation_makes_inode_witness:
  "\<exists>s' n. create (5, 6) [0x2F, 0x61] 0x81A4 package0 = Some (Inr (), s') \<and> pkg_inv s' [] \<and>
     locate (fs_disk s') [[0x61]] = Some n \<and> i_type n = INT_FILEINFO \<and> i_mask n = 0x1A4"
proof -
  have c: "components [0x2F, 0x61] = [] @ [[0x61]]" by (simp add: package0_paths)
  have z: "0 \<in> set (i_children (root_node 7))" by (simp add: root_node_children)
  have f: "locate (fs_disk package0) ([] @ [[0x61]]) = None" by (simp add: package0_paths)
  have o: "creates create INT_FILEINFO" by (simp add: creates_def)
  have "(ucast (extractMaskFromMode 0x81A4) :: u16) = 0x1A4"
    by (simp add: extractMaskFromMode_def S_IFDIR_def S_IFLNK_def S_IFREG_def)
  then show ?thesis
    using creation_makes_inode[OF package0_inv package0_room package0_paths(6) c package0_paths(1,7) z f o, where cred = "(5, 6)" and mode = "0x81A4"]
    by (auto simp: package0_paths(8))
qed

section \<open>Removing\<close>

text \<open>
  C20. Removing a directory: on a sound package \<^verbatim>\<open>rmdir\<close> of a path to an empty directory succeeds and refines
  deleting the path from the map from paths; the package stays sound, and the directory's
  block, and no other, has become free.
\<close>

theorem rmdir_clears_path:
  assumes "pkg_inv s bs" and "path_error path = None" and "components path = cs @ [b]"
    and "locate (fs_disk s) (cs @ [b]) = Some n" and "i_type n = INT_DIRECTORY" and "i_children_count n = 0"
  shows "\<exists>s' bs'. rmdir path s = Some (Inr (), s') \<and> pkg_inv s' bs' \<and>
    path_map (fs_disk s') = (path_map (fs_disk s))(components path := None) \<and>
    set (free_blocks s' bs') = insert (lookup_at (fs_disk s) (i_inodeid n)) (set (free_blocks s bs))"
proof -
  obtain s' where s': "rmdir path s = Some (Inr (), s')" "removed s bs (cs @ [b]) (i_inodeid n) s'"
    using rmdir_removes[OF assms] by blast
  note d = locate_directory(1)[OF pkg_invD(1)[OF assms(1)] assms(4,5)]
  have "set (own_blocks (fs_disk s) (i_inodeid n)) = {lookup_at (fs_disk s) (i_inodeid n)}"
    using dir_atD(8)[OF d] dir_atD(1,2)[OF d] block_okD(5) assms(5) by (auto simp: own_blocks_def)
  then show ?thesis using s' unfolding removed_def assms(3) by auto
qed

theorem rmdir_clears_path_witness:
  "\<exists>s1 s2. mkdir (5, 6) [0x2F, 0x61] 0x1ED package0 = Some (Inr (), s1) \<and> rmdir [0x2F, 0x61] s1 = Some (Inr (), s2) \<and>
     path_map (fs_disk s2) = path_map (fs_disk package0)"
proof -
  have c: "components [0x2F, 0x61] = [] @ [[0x61]]" by (simp add: package0_paths)
  have z: "0 \<in> set (i_children (root_node 7))" by (simp add: root_node_children)
  have f: "locate (fs_disk package0) ([] @ [[0x61]]) = None" by (simp add: package0_paths)
  obtain s1 iid ct mt at where s1: "mkdir (5, 6) [0x2F, 0x61] 0x1ED package0 = Some (Inr (), s1)"
    "created package0 [] ([] @ [[0x61]]) (made_node iid INT_DIRECTORY [0x61] (5, 6) 0x1ED ct mt at) s1"
    using creation_located[OF package0_inv package0_room package0_paths(6) c package0_paths(1,7) z f creates_ops(2)] by metis
  let ?n = "made_node iid INT_DIRECTORY [0x61] (5, 6) 0x1ED ct mt at"
  have i: "pkg_inv s1 []" and l: "locate (fs_disk s1) ([] @ [[0x61]]) = Some ?n"
    and m: "path_map (fs_disk s1) = (path_map (fs_disk package0))([] @ [[0x61]] := Some (ident ?n))"
    using s1(2) by (simp_all add: created_def)
  have ty: "i_type ?n = INT_DIRECTORY" "i_children_count ?n = 0" by (simp_all add: made_node_fields)
  have "path_map (fs_disk package0) ([] @ [[0x61]]) = None" using f by (simp add: path_map_def)
  then have "(path_map (fs_disk s1))([] @ [[0x61]] := None) = path_map (fs_disk package0)"
    unfolding m by (simp add: fun_upd_idem)
  then show ?thesis using s1(1) rmdir_clears_path[OF i package0_paths(6) c l ty] unfolding c by metis
qed

text \<open>
  C10. Removing a file: on a sound package \<^verbatim>\<open>unlink\<close> of a path to a file, a symbolic link or a device that has no other
  name succeeds and refines deleting the path from the map from paths; the package stays sound, and the inode's block
  and every block of its contents, and no others, have become free.
\<close>

theorem unlink_clears_path:
  assumes "pkg_inv s bs" and "path_error path = None" and "components path = cs @ [b]"
    and "locate (fs_disk s) (cs @ [b]) = Some n" and "i_type n \<in> {INT_FILEINFO, INT_SYMLINK, INT_DEVICE}"
    and "i_realid n = 0" and "i_nlink n = 1"
    and "\<And>j. i_type (raw_by_id (fs_disk s) j) = INT_HARDLINK \<Longrightarrow> i_realid (raw_by_id (fs_disk s) j) \<noteq> i_inodeid n"
  shows "\<exists>s' bs'. unlink path s = Some (Inr (), s') \<and> pkg_inv s' bs' \<and>
    path_map (fs_disk s') = (path_map (fs_disk s))(components path := None) \<and>
    set (free_blocks s' bs') = set (free_blocks s bs) \<union> set (own_blocks (fs_disk s) (i_inodeid n))"
  using unlink_removes[OF assms] unfolding removed_def assms(3) by auto

theorem unlink_clears_path_witness:
  "\<exists>s' bs'. unlink [0x2F, 0x61] package_d = Some (Inr (), s') \<and> pkg_inv s' bs' \<and> set (free_blocks s' bs') = {blk 1, blk 2}"
proof -
  have c: "components [0x2F, 0x61] = [] @ [[0x61]]" by (simp add: package0_paths)
  have n: "i_type sample_node \<in> {INT_FILEINFO, INT_SYMLINK, INT_DEVICE}" "i_realid sample_node = 0" "i_nlink sample_node = 1"
    "i_inodeid sample_node = 1"
    by (simp_all add: sample_node_def)
  have l: "i_realid (raw_by_id (fs_disk package_d) j) \<noteq> i_inodeid sample_node"
    if "i_type (raw_by_id (fs_disk package_d) j) = INT_HARDLINK" for j
    using that by (auto simp: package_d_paths(2) package_f_raw sample_node_def root_node_d_def dir_put_def root_node_def split: if_splits)
  have e: "free_blocks package_d [] = []" "own_blocks (fs_disk package_d) 1 = [blk 1, blk 2]"
  proof -
    have so: "same_outside (lookup_at (fs_disk package_f) 0) package_f package_d"
      and d0: "dir_at (fs_disk package_f) 0 (lookup_at (fs_disk package_f) 0) (root_node 7)"
      using package_d_state(2) package_f_dir by (simp_all add: package_f_lookup)
    show "free_blocks package_d [] = []"
      using so by (simp add: free_blocks_def same_outside_def) (simp add: package_f_def fd_simps package1_layout)
    have "lookup_at (fs_disk package_d) = lookup_at (fs_disk package_f)"
      using same_outside_lookup[OF package_d_state(2)] block_okD(1)[OF package1_blocks(1)] by simp
    from same_outside_own[OF package_f_inv so this d0, of 1] show "own_blocks (fs_disk package_d) 1 = [blk 1, blk 2]"
      by (simp add: package_d_paths(2) package_f_own)
  qed
  show ?thesis
    using unlink_clears_path[OF package_d_inv package0_paths(6) c package_d_paths(1) n(1-3) l] unfolding n(4) e by auto
qed

end
