(* ===== verification/Logging.thy ===== *)
theory Logging
  imports INode
begin

text \<open>
  \<^verbatim>\<open>libapp/logging.cpp\<close>: the messages of the library and of its tools. The class keeps two switches, the name
  of the application and as many blanks; every message is one call of \<^verbatim>\<open>vprintf\<close> whose format is a prefix,
  the text and a newline. The terminal is the list of the calls that write to it, in their order.
\<close>

section \<open>Text and the terminal\<close>

definition chars :: "string \<Rightarrow> byte list" where
  "chars s = map of_char s"

abbreviation blank :: byte where "blank \<equiv> 0x20"
abbreviation newline :: byte where "newline \<equiv> 0x0A"

text \<open>An argument behind a format; a call of the printf family, or characters sent to \<^verbatim>\<open>std::cout\<close>.\<close>

datatype vararg = Int_arg int | Str_arg "byte list"

datatype outcall = Printf "byte list" "vararg list" | Cout "byte list"

record console =
  co_debug :: bool
  co_verbose :: bool
  co_appname :: "byte list"
  co_appblnk :: "byte list"
  co_out :: "outcall list"

definition console0 :: console where
  "console0 = \<lparr>co_debug = False, co_verbose = True, co_appname = chars ''apptools'',
               co_appblnk = chars ''        '', co_out = []\<rparr>"

definition vprintf :: "byte list \<Rightarrow> vararg list \<Rightarrow> console \<Rightarrow> console" where
  "vprintf fmt args s = s\<lparr>co_out := co_out s @ [Printf fmt args]\<rparr>"

definition cout :: "byte list \<Rightarrow> console \<Rightarrow> console" where
  "cout bs s = s\<lparr>co_out := co_out s @ [Cout bs]\<rparr>"

section \<open>Prefixes\<close>

text \<open>\<^verbatim>\<open>while (text.length() < len) text += " ";\<close> which \<^verbatim>\<open>alignText\<close> and \<^verbatim>\<open>setApplicationName\<close> share.\<close>

function pad_to :: "nat \<Rightarrow> byte list \<Rightarrow> byte list" where
  "pad_to len buf = (if length buf < len then pad_to len (buf @ [blank]) else buf)"
  by pat_completeness auto
termination by (relation "measure (\<lambda>(len, buf). len - length buf)") auto

declare pad_to.simps [simp del]

lemma pad_to_eq: "pad_to len buf = buf @ replicate (len - length buf) blank"
proof (induction len buf rule: pad_to.induct)
  case (1 len buf)
  show ?case
  proof (cases "length buf < len")
    case True
    then obtain k where "len - length buf = Suc k" "len - length (buf @ [blank]) = k"
      by (metis Suc_diff_Suc length_append_singleton)
    then show ?thesis using 1[OF True] True by (subst pad_to.simps) simp
  next
    case False
    then show ?thesis by (subst pad_to.simps) simp
  qed
qed

definition setApplicationName :: "byte list \<Rightarrow> console \<Rightarrow> console" where
  "setApplicationName name s =
     (let s = s\<lparr>co_appname := name, co_appblnk := []\<rparr>
      in s\<lparr>co_appblnk := pad_to (length (co_appname s)) (co_appblnk s)\<rparr>)"

definition alignText :: "byte list \<Rightarrow> nat \<Rightarrow> byte list" where
  "alignText text len = pad_to len text"

definition buildPrefix :: "byte list \<Rightarrow> console \<Rightarrow> byte list" where
  "buildPrefix type s = co_appname s @ chars '': [ '' @ alignText type 7 @ chars '' ] ''"

text \<open>\<^verbatim>\<open>c_str()\<close> ends the format at its first NUL.\<close>

definition showMsgW :: "byte list \<Rightarrow> byte list \<Rightarrow> vararg list \<Rightarrow> console \<Rightarrow> console" where
  "showMsgW type msg arglist s = vprintf (cstr (buildPrefix type s @ msg @ [newline])) arglist s"

definition showMsgO :: "byte list \<Rightarrow> vararg list \<Rightarrow> console \<Rightarrow> console" where
  "showMsgO msg arglist s =
     vprintf (cstr (co_appblnk s @ chars ''    '' @ chars ''       '' @ chars ''   '' @ msg @ [newline])) arglist s"

section \<open>The messages\<close>

definition showErrorW :: "string \<Rightarrow> vararg list \<Rightarrow> console \<Rightarrow> console" where
  "showErrorW msg args = showMsgW (chars ''error'') (chars msg) args"

definition showErrorO :: "string \<Rightarrow> vararg list \<Rightarrow> console \<Rightarrow> console" where
  "showErrorO msg args = showMsgO (chars msg) args"

definition showWarningW :: "string \<Rightarrow> vararg list \<Rightarrow> console \<Rightarrow> console" where
  "showWarningW msg args = showMsgW (chars ''warning'') (chars msg) args"

definition showWarningO :: "string \<Rightarrow> vararg list \<Rightarrow> console \<Rightarrow> console" where
  "showWarningO msg args = showMsgO (chars msg) args"

definition showInfoW :: "string \<Rightarrow> vararg list \<Rightarrow> console \<Rightarrow> console" where
  "showInfoW msg args s = (if co_verbose s then showMsgW (chars ''info'') (chars msg) args s else s)"

definition showInfoO :: "string \<Rightarrow> vararg list \<Rightarrow> console \<Rightarrow> console" where
  "showInfoO msg args s = (if co_verbose s then showMsgO (chars msg) args s else s)"

definition showSuccessW :: "string \<Rightarrow> vararg list \<Rightarrow> console \<Rightarrow> console" where
  "showSuccessW msg args = showMsgW (chars ''success'') (chars msg) args"

definition showSuccessO :: "string \<Rightarrow> vararg list \<Rightarrow> console \<Rightarrow> console" where
  "showSuccessO msg args = showMsgO (chars msg) args"

definition showDebugW :: "string \<Rightarrow> vararg list \<Rightarrow> console \<Rightarrow> console" where
  "showDebugW msg args s = (if co_debug s then showMsgW (chars ''debug'') (chars msg) args s else s)"

definition showDebugO :: "string \<Rightarrow> vararg list \<Rightarrow> console \<Rightarrow> console" where
  "showDebugO msg args s = (if co_debug s then showMsgO (chars msg) args s else s)"

lemmas show_defs =
  showErrorW_def showErrorO_def showWarningW_def showWarningO_def showInfoW_def showInfoO_def
  showSuccessW_def showSuccessO_def showDebugW_def showDebugO_def

section \<open>What a message leaves behind\<close>

lemma chars_simps [simp]:
  "chars [] = []" "chars (c # cs) = of_char c # chars cs" "length (chars s) = length s"
  by (simp_all add: chars_def)

lemma of_char_nonzero: "(of_char c :: byte) \<noteq> 0 \<longleftrightarrow> c \<noteq> CHR 0x00"
proof -
  have "(of_char c :: byte) = of_char (CHR 0x00) \<longleftrightarrow> c = CHR 0x00"
  proof
    assume eq: "(of_char c :: byte) = of_char (CHR 0x00)"
    have "unat (of_char d :: byte) = of_char d" for d
    proof -
      have "(of_char d :: byte) = of_nat (of_char d)" by (simp add: of_nat_of_char)
      moreover have "(of_char d :: nat) < 2 ^ LENGTH(8)" using nat_of_char_less_256[of d] by simp
      ultimately show ?thesis by (simp add: unat_of_nat)
    qed
    then have "(of_char c :: nat) = of_char (CHR 0x00)" using eq by metis
    then show "c = CHR 0x00" by (rule inj_onD[OF inj_of_char]) simp_all
  qed simp
  then show ?thesis by simp
qed

lemma zero_notin_chars: "CHR 0x00 \<notin> set s \<Longrightarrow> 0 \<notin> set (chars s)"
  by (induction s) (auto simp: of_char_nonzero)

lemma cstr_eq: "0 \<notin> set bs \<Longrightarrow> cstr bs = bs"
  by (auto simp: cstr_def takeWhile_eq_all_conv)

lemma show_frame [simp]:
  "co_debug (showMsgW t m a s) = co_debug s" "co_verbose (showMsgW t m a s) = co_verbose s"
  "co_appname (showMsgW t m a s) = co_appname s" "co_appblnk (showMsgW t m a s) = co_appblnk s"
  "co_debug (showMsgO m a s) = co_debug s" "co_verbose (showMsgO m a s) = co_verbose s"
  "co_appname (showMsgO m a s) = co_appname s" "co_appblnk (showMsgO m a s) = co_appblnk s"
  by (simp_all add: showMsgW_def showMsgO_def vprintf_def)

text \<open>After \<^verbatim>\<open>setApplicationName\<close>, and on the state the program starts with, the blanks are as long as the name.\<close>

definition aligned :: "console \<Rightarrow> bool" where
  "aligned s \<longleftrightarrow> co_appblnk s = replicate (length (co_appname s)) blank \<and> 0 \<notin> set (co_appname s)"

lemma aligned_console0: "aligned console0"
  by (simp add: aligned_def console0_def)

lemma aligned_setApplicationName: "0 \<notin> set name \<Longrightarrow> aligned (setApplicationName name s)"
  by (simp add: aligned_def setApplicationName_def pad_to_eq Let_def)

lemma showMsgW_line:
  assumes "aligned s" and "0 \<notin> set type" and "0 \<notin> set msg" and "length type \<le> 7"
  shows "\<exists>p. length p = length (co_appname s) + 14 \<and>
             co_out (showMsgW type msg args s) = co_out s @ [Printf (p @ msg @ [newline]) args]"
  using assms
  by (intro exI[of _ "buildPrefix type s"])
     (auto simp: showMsgW_def vprintf_def buildPrefix_def alignText_def pad_to_eq aligned_def cstr_eq)

lemma showMsgO_line:
  assumes "aligned s" and "0 \<notin> set msg"
  shows "co_out (showMsgO msg args s) =
           co_out s @ [Printf (replicate (length (co_appname s) + 14) blank @ msg @ [newline]) args]"
proof -
  have "replicate n blank @ chars ''    '' @ chars ''       '' @ chars ''   '' = replicate (n + 14) blank" for n
    by (induction n) (simp_all add: numeral_eq_Suc)
  then have line: "co_appblnk s @ chars ''    '' @ chars ''       '' @ chars ''   '' @ msg @ [newline]
           = replicate (length (co_appname s) + 14) blank @ msg @ [newline]"
    using assms(1) by (metis aligned_def append.assoc)
  show ?thesis
    unfolding showMsgO_def line using assms(2) by (simp add: vprintf_def cstr_eq)
qed

end
