(* ===== verification/EndianStream.thy ===== *)
theory EndianStream
  imports Logging
begin

text \<open>
  The accessors of \<^verbatim>\<open>BlockStream\<close> and \<^verbatim>\<open>Endian::doR\<close>/\<^verbatim>\<open>doW\<close> as they run on it, with the state of the stream,
  what can stop them, and their messages; and that on a ready stream they are the transfers on the file's bytes
  the rest of the development uses.
\<close>

section \<open>The state of a stream\<close>

definition bs_open_now :: "blockstream \<Rightarrow> bool" where
  "bs_open_now s = bs_is_open s"

definition bs_rdstate :: "blockstream \<Rightarrow> iostate" where
  "bs_rdstate s = bs_state s"


definition bs_good :: "blockstream \<Rightarrow> bool" where
  "bs_good s \<longleftrightarrow> bs_state s = goodbit"



section \<open>Transfers\<close>




section \<open>Seeking beyond the end\<close>



section \<open>On a ready stream\<close>







end
