(* ===== verification/LowFS_Open.thy ===== *)
theory LowFS_Open
  imports EndianStream FuseLink
begin

text \<open>
  Opening and closing a package: the constructors of \<^verbatim>\<open>LowLevel::FS\<close> (\<^verbatim>\<open>lowlevel/fs.cpp\<close>) and of \<^verbatim>\<open>AppLib::FS\<close>
  (\<^verbatim>\<open>fs.cpp\<close>) on the state of the stream, with what they print; and \<^verbatim>\<open>FS::getTemporaryBlock\<close>, which nothing calls.
\<close>

section \<open>The handle\<close>

text \<open>How a constructor ends when it returns: with an object, an exception of the stream, or a failed assertion.\<close>

datatype 'a start = Started 'a | Threw | Aborted

text \<open>\<open>lf_stream\<close> is the pointer \<^verbatim>\<open>fd\<close> with the stream behind it, \<open>lf_fs\<close> what the operations work on.\<close>

record lowfs =
  lf_stream :: "blockstream option"
  lf_fs :: fsys

definition LowFS_isValid :: "lowfs \<Rightarrow> bool" where
  "LowFS_isValid lf \<longleftrightarrow> lf_stream lf \<noteq> None"

text \<open>
  The constructor on a little-endian host. Building the cache of the free list first asserts that there is a stream and
  then asks it for its position: a stream that keeps its mutex never answers again, \<open>None\<close>.
\<close>

definition LowFS_new :: "blockstream option \<Rightarrow> (nat \<Rightarrow> u64) \<Rightarrow> console \<Rightarrow> (lowfs start \<times> console) option" where
  "LowFS_new fd clk co =
     (case fd of
        None \<Rightarrow> Some (Aborted, showDebugW ''NULL file descriptor passed to FS constructor.'' [] co)
      | Some b \<Rightarrow>
          (case bs_tellg b of
             (Deadlock, _) \<Rightarrow> None
           | (IosFailure, _) \<Rightarrow> Some (Threw, co)
           | (Returned _, b) \<Rightarrow>
               if bs_locked b then None
               else map_option (\<lambda>s. (Started \<lparr>lf_stream = Some (b\<lparr>bs_disk := fs_disk s\<rparr>), lf_fs = s\<rparr>, co))
                      (FreeList_new (bs_disk b) clk)))"

text \<open>\<^verbatim>\<open>FS::close\<close>\<close>

definition LowFS_close :: "lowfs \<Rightarrow> (unit io start \<times> lowfs)" where
  "LowFS_close lf =
     (case lf_stream lf of
        None \<Rightarrow> (Aborted, lf)
      | Some b \<Rightarrow> (case bs_close b of (r, b) \<Rightarrow> (Started r, lf\<lparr>lf_stream := Some b\<rparr>)))"

section \<open>Opening a package\<close>

text \<open>\<open>file\<close> is the file at the path, \<open>scratch\<close> the state of a stream that was not opened.\<close>

definition AppFS_ctor ::
    "disk option \<Rightarrow> disk \<Rightarrow> (nat \<Rightarrow> u64) \<Rightarrow> u32 \<Rightarrow> u32 \<Rightarrow> console \<Rightarrow> ((exn + mounted) start \<times> console) option" where
  "AppFS_ctor file scratch clk uid gid co =
     (let stream = BlockStream_new file scratch;
          co = (if bs_open_now stream then co else showErrorW ''Unable to open specified file as BlockStream.'' [] co)
      in if \<not> bs_open_now stream then Some (Started (Inl PackageNotFound), co)
         else case LowFS_new (Some stream) clk co of
                None \<Rightarrow> None
              | Some (Threw, co) \<Rightarrow> Some (Threw, co)
              | Some (Aborted, co) \<Rightarrow> Some (Aborted, co)
              | Some (Started lf, co) \<Rightarrow>
                  if \<not> LowFS_isValid lf then
                    (case bs_close stream of
                       (Deadlock, _) \<Rightarrow> None
                     | (IosFailure, _) \<Rightarrow> Some (Threw, co)
                     | (Returned _, _) \<Rightarrow> Some (Started (Inl PackageNotValid), co))
                  else Some (Started (Inr \<lparr>m_fs = lf_fs lf, m_uid = uid, m_gid = gid\<rparr>), co))"

lemma LowFS_new_ready:
  assumes "bs_ready b"
  shows "LowFS_new (Some b) clk co =
    map_option (\<lambda>s. (Started \<lparr>lf_stream = Some (b\<lparr>bs_disk := fs_disk s\<rparr>), lf_fs = s\<rparr>, co)) (FreeList_new (bs_disk b) clk)"
proof -
  have "bs_tellg b = (Returned (dpos (bs_disk b)), b)"
    using bs_guarded_ready[OF assms, of "\<lambda>d. (dpos d, d)"] by (simp add: bs_tellg_def)
  then show ?thesis using assms by (simp add: LowFS_new_def bs_ready_def)
qed

text \<open>
  The layers above use the short form \<open>AppFS_new\<close>. A file that opens is never reported as an invalid package: only the
  pointer to the stream is tested.
\<close>

lemma AppFS_ctor_eq:
  "AppFS_ctor None scratch clk uid gid co =
     Some (Started (Inl PackageNotFound), showErrorW ''Unable to open specified file as BlockStream.'' [] co)"
  "AppFS_ctor (Some d) scratch clk uid gid co = map_option (\<lambda>r. (Started r, co)) (AppFS_new (Some d) clk uid gid)"
proof -
  show "AppFS_ctor None scratch clk uid gid co =
     Some (Started (Inl PackageNotFound), showErrorW ''Unable to open specified file as BlockStream.'' [] co)"
    by (simp add: AppFS_ctor_def BlockStream_new_def bs_open_now_def)
  note r = BlockStream_new_ready[of d scratch]
  have "bs_open_now (BlockStream_new (Some d) scratch)" "bs_disk (BlockStream_new (Some d) scratch) = disk_seek 0 d"
    by (simp_all add: BlockStream_new_def bs_open_now_def)
  then show "AppFS_ctor (Some d) scratch clk uid gid co = map_option (\<lambda>r. (Started r, co)) (AppFS_new (Some d) clk uid gid)"
    by (cases "FreeList_new (disk_seek 0 d) clk")
      (simp_all add: AppFS_ctor_def LowFS_new_ready[OF r] AppFS_new_def LowFS_isValid_def Let_def)
qed

text \<open>A second \<^verbatim>\<open>close\<close> throws with the mutex held.\<close>

lemma LowFS_close_ready:
  assumes "lf_stream lf = Some b" and "bs_ready b"
  shows "LowFS_close lf = (Started (Returned ()), lf\<lparr>lf_stream := Some (b\<lparr>bs_is_open := False, bs_opened := False, bs_locked := False\<rparr>)\<rparr>)"
  using assms by (simp add: LowFS_close_def bs_close_def bs_ready_def Let_def)

section \<open>The temporary block\<close>

text \<open>
  The loop of \<^verbatim>\<open>getTemporaryBlock\<close>; a left result is the value it returns with the static variable it leaves, a right one
  says that no block was found. An unset type is read again from the next two bytes, for ever at the end of the file.
\<close>

partial_function (option) temp_loop :: "u32 \<Rightarrow> u16 \<Rightarrow> u32 \<Rightarrow> u32 \<Rightarrow> fsys \<Rightarrow> ((u32 \<times> u32 + unit) \<times> fsys) option" where
  "temp_loop cpos type_stor block_position static s =
     (if cpos = block_position \<and> \<not> isBlockFree cpos s then
        let (type_stor, s) = fd_doR16 type_stor s; ty = type_of_code type_stor in
        if ty = INT_DIRECTORY then
          temp_loop cpos type_stor (block_position + of_nat BSIZE_DIRECTORY) static
            (seekg (unat (block_position + of_nat BSIZE_DIRECTORY)) s)
        else if ty = INT_FILEINFO \<or> ty = INT_SEGINFO then
          temp_loop cpos type_stor (block_position + of_nat BSIZE_FILE) static
            (seekg (unat (block_position + of_nat BSIZE_FILE)) s)
        else if ty = INT_INVALID then Some (Inl (0, static), s)
        else if ty = INT_TEMPORARY then Some (Inl (block_position + 2, block_position + 2), s)
        else if ty = INT_UNSET then temp_loop cpos type_stor block_position static s
        else Some (Inl (0, static), s)
      else Some (Inr (), s))"

text \<open>
  \<open>asserts\<close> says whether assertions are compiled in, \<open>static\<close> is the variable that keeps the position between calls; the
  result is the position and the variable.
\<close>

definition getTemporaryBlock :: "bool \<Rightarrow> bool \<Rightarrow> u32 \<Rightarrow> fsys \<Rightarrow> ((u32 \<times> u32) start \<times> fsys) option" where
  "getTemporaryBlock asserts forceRecheck static s =
     (if asserts then Some (Aborted, s)
      else if static \<noteq> 0 \<and> \<not> forceRecheck then Some (Started (static, static), s)
      else
        let block_position = of_nat OFFSET_DATA + 2; oldg = tellg s; oldp = tellp s;
            s = seekg (unat block_position) s; cpos = of_nat (tellg s)
        in do { (r, s) \<leftarrow> temp_loop cpos (type_code INT_UNSET) block_position static s;
                let s = seekg oldg s in
                case r of
                  Inl v \<Rightarrow> Some (Started v, s)
                | Inr _ \<Rightarrow>
                    let (newpos, s) = allocateBlock s in
                    if newpos = 0 then Some (Started (0, static), s)
                    else let s = seekp_ex (unat newpos) s;
                             s = fd_doW16 0 s;
                             s = fd_doW16 (type_code INT_TEMPORARY) s;
                             s = seekp_ex oldp s
                         in Some (Started (newpos + 4, newpos + 4), s) })"

text \<open>
  Without assertions, in a package whose first block is the root's, the scan ends after that block, as \<^verbatim>\<open>cpos\<close> is not
  moved with it: every call that checks again takes another block, whatever temporary block there is.
\<close>

lemma temp_loop_directory:
  assumes "\<not> isBlockFree bp t" and rd: "fd_doR16 v t = (type_code INT_DIRECTORY, u)" and next0: "bp + of_nat BSIZE_DIRECTORY \<noteq> bp"
  shows "temp_loop bp v bp static t = Some (Inr (), seekg (unat (bp + of_nat BSIZE_DIRECTORY)) u)"
proof -
  have leave: "temp_loop bp w (bp + of_nat BSIZE_DIRECTORY) static x = Some (Inr (), x)" for w x
    using next0 by (subst temp_loop.simps) simp
  have ty: "type_of_code (type_code INT_DIRECTORY) = INT_DIRECTORY" by (rule type_of_code_code) simp
  show ?thesis
    by (subst temp_loop.simps) (simp only: assms(1) rd ty leave Let_def prod.case simp_thms if_True)
qed

lemma getTemporaryBlock_allocates:
  assumes root: "u16_at (fs_disk s) (OFFSET_DATA + 2) = type_code INT_DIRECTORY" and size: "OFFSET_DATA + 4 \<le> dsize (fs_disk s)"
    and used: "\<not> isBlockFree (of_nat OFFSET_DATA + 2) s" and pos: "fst (allocateBlock s) \<noteq> 0"
  shows "\<exists>s'. getTemporaryBlock False True static s = Some (Started (fst (allocateBlock s) + 4, fst (allocateBlock s) + 4), s')"
proof -
  let ?bp = "of_nat OFFSET_DATA + 2 :: u32" and ?t = "seekg (OFFSET_DATA + 2) s" and ?u = "seekg (OFFSET_DATA + 2 + 2) s"
  have bp: "unat ?bp = OFFSET_DATA + 2" by (simp add: config)
  have rd: "fd_doR16 (type_code INT_UNSET) ?t = (type_code INT_DIRECTORY, ?u)"
    unfolding root[symmetric] by (rule fd_doR16_seek) (use size in linarith)
  have free: "\<not> isBlockFree ?bp ?t" using used unfolding isBlockFree_def fd_simps .
  have "?bp + of_nat BSIZE_DIRECTORY \<noteq> ?bp" by (simp add: config)
  note loop = temp_loop_directory[OF free rd this, of static]
  have cp: "of_nat (fd_tell ?t) = ?bp" unfolding fd_seek_seek(2) by simp
  have restore: "seekg (fd_tell s) (seekg a (seekg b s)) = s" for a b by (simp add: fd_simps)
  show ?thesis
    using pos unfolding getTemporaryBlock_def Let_def bp cp loop
    by (simp add: restore case_prod_unfold Let_def)
qed

end
