(* ===== verification/AppFS_Update.thy ===== *)
theory AppFS_Update
  imports AppFS_Remove
begin

text \<open>
  Saving an inode in place (\<^verbatim>\<open>FS::saveINode\<close> of \<^verbatim>\<open>libapp/fs.cpp\<close>): \<^verbatim>\<open>chmod\<close>, \<^verbatim>\<open>chown\<close>, \<^verbatim>\<open>utimens\<close> and
  \<^verbatim>\<open>touch\<close> change the attributes of an inode and neither its place in the tree nor its blocks.
\<close>

section \<open>Inodes as they are stored\<close>

abbreviation plain_types :: "inodetype set" where
  "plain_types \<equiv> {INT_FILEINFO, INT_DIRECTORY, INT_SYMLINK, INT_DEVICE}"

lemma stored_plain:
  assumes "i_type n \<in> plain_types" and "i_realid n = 0"
  shows "stored n = (let m = (new_inode 0 INT_INVALID)\<lparr>i_inodeid := i_inodeid n, i_type := i_type n, i_filename := i_filename n,
      i_uid := i_uid n, i_gid := i_gid n, i_mask := i_mask n, i_atime := i_atime n, i_mtime := i_mtime n, i_ctime := i_ctime n\<rparr>
    in if i_type n = INT_DIRECTORY
       then m\<lparr>i_parent := i_parent n, i_children_count := i_children_count n, i_children := i_children n\<rparr>
       else m\<lparr>i_dev := i_dev n, i_rdev := i_rdev n, i_nlink := i_nlink n, i_blocks := i_blocks n,
              i_dat_len := i_dat_len n, i_info_next := i_info_next n\<rparr>)"
  using assms by (auto simp: stored_def stored_head_def stored_named_def has_data_fields_def Let_def)

lemma named_at_type: "i_type (named_at d p n) = i_type n"
  by (simp add: named_at_def Let_def split del: if_split) simp

text \<open>An inode with the fields every plain type stores, as a directory and as a file.\<close>

definition base_node :: "u16 \<Rightarrow> inodetype \<Rightarrow> byte list \<Rightarrow> u16 \<Rightarrow> u16 \<Rightarrow> u16 \<Rightarrow> u64 \<Rightarrow> u64 \<Rightarrow> u64 \<Rightarrow> inode" where
  "base_node iid ty name u g m at mt ct = (new_inode 0 INT_INVALID)\<lparr>i_inodeid := iid, i_type := ty, i_filename := name,
     i_uid := u, i_gid := g, i_mask := m, i_atime := at, i_mtime := mt, i_ctime := ct\<rparr>"

lemma stored_forms:
  "stored ((base_node iid INT_DIRECTORY name u g m at mt ct)\<lparr>i_parent := x, i_children_count := c, i_children := cs\<rparr>)
   = (base_node iid INT_DIRECTORY name u g m at mt ct)\<lparr>i_parent := x, i_children_count := c, i_children := cs\<rparr>"
  "ty = INT_FILEINFO \<or> ty = INT_SYMLINK \<or> ty = INT_DEVICE \<Longrightarrow>
   stored ((base_node iid ty name u g m at mt ct)\<lparr>i_dev := v, i_rdev := w, i_nlink := nl, i_blocks := b, i_dat_len := l, i_info_next := nx\<rparr>)
   = (base_node iid ty name u g m at mt ct)\<lparr>i_dev := v, i_rdev := w, i_nlink := nl, i_blocks := b, i_dat_len := l, i_info_next := nx\<rparr>"
  by (auto simp: stored_plain base_node_def Let_def)

lemma wf_forms:
  assumes "length name = 256"
  shows "length cs = DIRECTORY_CHILDREN_MAX \<Longrightarrow>
      inode_wf ((base_node iid INT_DIRECTORY name u g m at mt ct)\<lparr>i_parent := x, i_children_count := c, i_children := cs\<rparr>)"
    and "ty = INT_FILEINFO \<or> ty = INT_SYMLINK \<or> ty = INT_DEVICE \<Longrightarrow>
      inode_wf ((base_node iid ty name u g m at mt ct)\<lparr>i_dev := v, i_rdev := w, i_nlink := nl, i_blocks := b, i_dat_len := l, i_info_next := nx\<rparr>)"
  using assms by (auto simp: base_node_def inode_wf_def config)

lemma named_at_forms:
  assumes "i_type (head_at d p) = ty"
  shows "ty = INT_DIRECTORY \<Longrightarrow> \<exists>name u g m at mt ct x c cs. length name = 256 \<and> length cs = DIRECTORY_CHILDREN_MAX \<and>
      named_at d p (head_at d p) = (base_node (u16_at d p) ty name u g m at mt ct)\<lparr>i_parent := x, i_children_count := c, i_children := cs\<rparr>"
    and "ty = INT_FILEINFO \<or> ty = INT_SYMLINK \<or> ty = INT_DEVICE \<Longrightarrow> \<exists>name u g m at mt ct v w nl b l nx. length name = 256 \<and>
      named_at d p (head_at d p) = (base_node (u16_at d p) ty name u g m at mt ct)
        \<lparr>i_dev := v, i_rdev := w, i_nlink := nl, i_blocks := b, i_dat_len := l, i_info_next := nx\<rparr>"
proof -
  have h: "head_at d p = (new_inode 0 INT_INVALID)\<lparr>i_inodeid := u16_at d p, i_type := ty\<rparr>"
    using assms by (simp add: head_at_def)
  have len: "length (slice (byte_at d) (p + 4) 256) = 256"
    "length (dec16s DIRECTORY_CHILDREN_MAX (slice (byte_at d) (p + 294) 3802)) = DIRECTORY_CHILDREN_MAX" by simp_all
  assume ty: "ty = INT_DIRECTORY"
  show "\<exists>name u g m at mt ct x c cs. length name = 256 \<and> length cs = DIRECTORY_CHILDREN_MAX \<and>
      named_at d p (head_at d p) = (base_node (u16_at d p) ty name u g m at mt ct)\<lparr>i_parent := x, i_children_count := c, i_children := cs\<rparr>"
    unfolding h named_at_def base_node_def Let_def ty by (intro exI conjI, rule len(1), rule len(2)) simp
next
  have h: "head_at d p = (new_inode 0 INT_INVALID)\<lparr>i_inodeid := u16_at d p, i_type := ty\<rparr>"
    using assms by (simp add: head_at_def)
  have len: "length (slice (byte_at d) (p + 4) 256) = 256" by simp
  assume ty: "ty = INT_FILEINFO \<or> ty = INT_SYMLINK \<or> ty = INT_DEVICE"
  then have nh: "ty \<noteq> INT_HARDLINK" by auto
  show "\<exists>name u g m at mt ct v w nl b l nx. length name = 256 \<and>
      named_at d p (head_at d p) = (base_node (u16_at d p) ty name u g m at mt ct)
        \<lparr>i_dev := v, i_rdev := w, i_nlink := nl, i_blocks := b, i_dat_len := l, i_info_next := nx\<rparr>"
    unfolding h named_at_def base_node_def Let_def by (intro exI conjI, rule len) (use ty nh in simp)
qed

lemma named_at_plain:
  assumes ty: "i_type (head_at d p) \<in> plain_types"
  shows "inode_wf (named_at d p (head_at d p)) \<and> stored (named_at d p (head_at d p)) = named_at d p (head_at d p) \<and>
    i_realid (named_at d p (head_at d p)) = 0"
proof (cases "i_type (head_at d p) = INT_DIRECTORY")
  case True
  from named_at_forms(1)[OF refl True] show ?thesis
    unfolding True by (elim exE conjE) (simp add: stored_forms wf_forms, simp add: base_node_def)
next
  case False
  then have t: "i_type (head_at d p) = INT_FILEINFO \<or> i_type (head_at d p) = INT_SYMLINK \<or> i_type (head_at d p) = INT_DEVICE"
    using ty by auto
  from named_at_forms(2)[OF refl t] show ?thesis
    by (elim exE conjE) (simp add: stored_forms(2)[OF t] wf_forms(2)[OF _ t], simp add: base_node_def)
qed

lemma inode_at_wf:
  assumes "i_type (inode_at d p) \<in> plain_types"
  shows "inode_wf (inode_at d p)" and "stored (inode_at d p) = inode_at d p" and "inode_verify (inode_at d p)"
    and "i_realid (inode_at d p) = 0"
proof -
  let ?n = "named_at d p (head_at d p)"
  have eq: "inode_at d p = ?n" and ver: "inode_verify ?n" and ty: "i_type ?n \<in> plain_types"
    using assms by (auto simp: inode_at_def Let_def head_at_def split: if_splits)
  show "inode_verify (inode_at d p)" using eq ver by simp
  have "i_type (head_at d p) \<in> plain_types" using ty by (simp add: named_at_type)
  from named_at_plain[OF this]
  show "inode_wf (inode_at d p)" "stored (inode_at d p) = inode_at d p" "i_realid (inode_at d p) = 0" unfolding eq by blast+
qed

text \<open>\<open>n'\<close> is \<open>n\<close> with other attributes: the owner, the permissions and the times.\<close>

definition attrs :: "u16 \<Rightarrow> u16 \<Rightarrow> u16 \<Rightarrow> u64 \<Rightarrow> u64 \<Rightarrow> u64 \<Rightarrow> inode \<Rightarrow> inode" where
  "attrs m u g at mt ct n =
     n\<lparr>i_mask := m, i_uid := u, i_gid := g, i_atime := at, i_mtime := mt, i_ctime := ct\<rparr>"

lemma attrs_simps [simp]:
  "i_type (attrs m u g at mt ct n) = i_type n" "i_inodeid (attrs m u g at mt ct n) = i_inodeid n"
  "i_filename (attrs m u g at mt ct n) = i_filename n" "i_realid (attrs m u g at mt ct n) = i_realid n"
  "i_parent (attrs m u g at mt ct n) = i_parent n" "i_children (attrs m u g at mt ct n) = i_children n"
  "i_children_count (attrs m u g at mt ct n) = i_children_count n" "i_blocks (attrs m u g at mt ct n) = i_blocks n"
  "i_dat_len (attrs m u g at mt ct n) = i_dat_len n" "i_nlink (attrs m u g at mt ct n) = i_nlink n"
  "ident (attrs m u g at mt ct n) = ident n" "i_mask (attrs m u g at mt ct n) = m" "i_uid (attrs m u g at mt ct n) = u"
  "i_gid (attrs m u g at mt ct n) = g" "i_atime (attrs m u g at mt ct n) = at" "i_mtime (attrs m u g at mt ct n) = mt"
  "i_ctime (attrs m u g at mt ct n) = ct" "i_dev (attrs m u g at mt ct n) = i_dev n" "i_rdev (attrs m u g at mt ct n) = i_rdev n"
  "i_info_next (attrs m u g at mt ct n) = i_info_next n"
  by (simp_all add: attrs_def ident_def)

lemma attrs_wf:
  assumes "inode_wf n" and "stored n = n" and "inode_verify n" and "i_type n \<in> plain_types" and "i_realid n = 0"
  shows "inode_wf (attrs m u g at mt ct n)" and "stored (attrs m u g at mt ct n) = attrs m u g at mt ct n"
    and "inode_verify (attrs m u g at mt ct n)"
proof -
  let ?a = "attrs m u g at mt ct n"
  show "inode_wf ?a" using assms(1) by (simp add: inode_wf_def attrs_def)
  show "inode_verify ?a" using assms(3) by (simp add: inode_verify_def)
  show "stored ?a = ?a"
  proof -
    have "stored ?a = attrs m u g at mt ct (stored n)"
      using assms(4,5) stored_plain[of n] stored_plain[of ?a] by (simp add: attrs_def Let_def)
    then show ?thesis by (simp add: assms(2))
  qed
qed

section \<open>Changes that keep the tree\<close>

text \<open>What of an inode the tree depends on.\<close>

definition shape :: "inode \<Rightarrow> (u16 \<times> inodetype \<times> byte list \<times> u16 \<times> u16) \<times> u16 list \<times> u16" where
  "shape n = (ident n, i_children n, i_children_count n)"

lemma shape_ok:
  assumes ok: "pkg_ok d" and size: "dsize d \<le> dsize e" and look: "lookup_at e = lookup_at d"
    and shape: "\<And>j. shape (raw_by_id e j) = shape (raw_by_id d j)"
  shows "pkg_ok e" and "same_names d e" and "listed_in e = listed_in d"
proof -
  note t = tree_okD[OF pkg_okD(1)[OF ok]]
  have id: "ident (raw_by_id e j) = ident (raw_by_id d j)" "i_children (raw_by_id e j) = i_children (raw_by_id d j)"
    "i_children_count (raw_by_id e j) = i_children_count (raw_by_id d j)" for j
    using shape[of j] by (simp_all add: shape_def)
  note f = ident_fields[OF id(1)]
  note node = same_raw_ident[OF id(1) t(2)]
  have nf: "i_type (node_by_id e j) = i_type (node_by_id d j)" "node_name e j = node_name d j" for j
    using ident_fields[OF node(2), of j] by (simp_all add: node_name_def)
  show "listed_in e = listed_in d" using f id by (auto simp: listed_in_def fun_eq_iff)
  have "block_ok e b" if "block_ok d b" for b using that size by (simp add: block_ok_def)
  then have "tree_ok e" using t(3,4) node(1) unfolding tree_ok_def look by blast
  moreover have "dir_sound e (raw_by_id e j) \<longleftrightarrow> dir_sound d (raw_by_id d j)" for j
    by (simp add: dir_sound_def dir_wf_def id nf cong: map_cong)
  ultimately show "pkg_ok e" using ok unfolding pkg_ok_def look using f by simp
  have vis: "visited (node_by_id e j) = visited (node_by_id d j)" for j
    using f id by (simp add: visited_def node_by_id_def link_target_view_def link_view_def Let_def)
  have "ident (child_named e q nm) = ident (child_named d q nm)" for q nm
    using find_ident_type[OF child_nodes_ident[OF node(2) vis]] nf(1) by (simp add: child_named_def Let_def)
  then show "same_names d e" using node(2) by (simp add: same_names_def)
qed

lemma same_names_map:
  assumes "rooted d" and "rooted e" and same: "same_names d e"
  shows "path_map e = path_map d"
proof
  have root: "i_type (node_by_id d 0) \<noteq> INT_INVALID" "i_type (node_by_id e 0) \<noteq> INT_INVALID"
    using assms(1,2) by (simp_all add: rooted_def)
  have child: "ident (child_named e q nm) = ident (child_named d q nm)" for q nm using same by (simp add: same_names_def)
  fix qs show "path_map e qs = path_map d qs"
  proof (induction qs rule: rev_induct)
    case Nil
    then show ?case using root same by (simp add: path_map_def locate_def same_names_def)
  next
    case (snoc x us)
    show ?case
    proof (cases "locate d us")
      case None
      then have "locate e us = None" using snoc by (simp add: path_map_def)
      then show ?thesis using None by (simp add: path_map_def locate_snoc[OF root(1)] locate_snoc[OF root(2)])
    next
      case (Some m)
      then obtain m' where m': "locate e us = Some m'" "ident m' = ident m"
        using snoc by (cases "locate e us") (auto simp: path_map_def)
      then have "i_inodeid m' = i_inodeid m" using ident_fields by blast
      then show ?thesis
        using Some m'(1) child[of "i_inodeid m" x] ident_fields[OF child, of "i_inodeid m" x]
        by (simp add: path_map_def locate_snoc[OF root(1)] locate_snoc[OF root(2)])
    qed
  qed
qed

section \<open>Saving an inode\<close>

text \<open>
  What saving new attributes of the inode \<open>x\<close> promises: the inode is the new one, every other inode and the tree stay.
\<close>

definition updated :: "fsys \<Rightarrow> u32 list \<Rightarrow> inode \<Rightarrow> fsys \<Rightarrow> bool" where
  "updated s bs n s' \<longleftrightarrow> pkg_inv s' bs \<and> path_map (fs_disk s') = path_map (fs_disk s) \<and> fs_clock s' = fs_clock s \<and>
     fs_ticks s' = fs_ticks s \<and> fs_cache s' = fs_cache s \<and> dsize (fs_disk s') = dsize (fs_disk s) \<and>
     (\<forall>j. raw_by_id (fs_disk s') j = (if j = i_inodeid n then n else raw_by_id (fs_disk s) j)) \<and>
     lookup_at (fs_disk s') = lookup_at (fs_disk s) \<and>
     (\<forall>j. \<forall>b \<in> set (own_blocks (fs_disk s) j). b \<noteq> lookup_at (fs_disk s) (i_inodeid n) \<longrightarrow> kept (fs_disk s) (fs_disk s') b) \<and>
     own_blocks (fs_disk s') = own_blocks (fs_disk s)"

lemma saved_bytes:
  assumes inv: "pkg_inv s bs" and used: "lookup_at (fs_disk s) x \<noteq> 0" and n: "raw_by_id (fs_disk s) x = n"
    and ty: "i_type n \<in> plain_types" and n': "n' = attrs m u g at mt ct n"
    and s': "disk_eq (fs_disk s') (put_bytes (unat (lookup_at (fs_disk s) x)) (getBinaryRepresentation n') (fs_disk s))"
      "fs_cache s' = fs_cache s" "fs_reserved s' = fs_reserved s" "fs_clock s' = fs_clock s"
  shows "same_outside (lookup_at (fs_disk s) x) s s'"
    and "inode_at (fs_disk s') (unat (lookup_at (fs_disk s) x)) = n'"
    and "file_type (i_type n) \<Longrightarrow> unat (lookup_at (fs_disk s) x) + 306 \<le> a \<Longrightarrow> byte_at (fs_disk s') a = byte_at (fs_disk s) a"
proof -
  let ?d = "fs_disk s" and ?e = "fs_disk s'" and ?p = "lookup_at (fs_disk s) x"
  note i = pkg_invD[OF inv]
  note b = block_okD[OF tree_okD(3)[OF pkg_okD(1)[OF i(1)] used]]
  have "inode_at ?d (unat ?p) = n" using raw_used[OF pkg_okD(1)[OF i(1)] used] n by simp
  then have old: "inode_wf n" "stored n = n" "inode_verify n" "i_realid n = 0" using inode_at_wf[of ?d "unat ?p"] ty by simp_all
  note new = attrs_wf[OF old(1-3) ty old(4), of m u g at mt ct, folded n']
  have len: "length (getBinaryRepresentation n') = repr_size (i_type n)"
    using length_getBinaryRepresentation[OF new(1)] by (simp add: n')
  have le: "length (getBinaryRepresentation n') \<le> 4096" using len repr_size_le by simp
  have size: "dsize ?e = dsize ?d" using s'(1) le b(4) by (simp add: disk_eq_def)
  have byte: "byte_at ?e a = byte_at ?d a" if "\<not> (unat ?p \<le> a \<and> a < unat ?p + length (getBinaryRepresentation n'))" for a
    using s'(1) that by (auto simp: disk_eq_def byte_at_put_bytes)
  show "same_outside ?p s s'" using size s'(2-4) byte le by (auto simp: same_outside_def)
  show "inode_at ?e (unat ?p) = n'"
    using inode_at_getBinaryRepresentation[OF new(1), where rest = "[]" and p = "unat ?p" and d = ?d] new(2,3)
      disk_eq_fields(4)[OF s'(1)] by simp
  show "byte_at ?e a = byte_at ?d a" if "file_type (i_type n)" "unat ?p + 306 \<le> a"
  proof -
    have "length (getBinaryRepresentation n') = 306" using len that(1) by auto
    then show ?thesis using that(2) by (intro byte) auto
  qed
qed

text \<open>
  An inode written over the one at its position: what does not depend on names is as before.
\<close>

lemma inode_write:
  assumes inv: "pkg_inv s bs" and used: "lookup_at (fs_disk s) x \<noteq> 0" and n: "raw_by_id (fs_disk s) x = n"
    and same: "same_outside (lookup_at (fs_disk s) x) s s'" and self: "inode_at (fs_disk s') (unat (lookup_at (fs_disk s) x)) = n'"
    and "\<forall>a. file_type (i_type n) \<longrightarrow> unat (lookup_at (fs_disk s) x) + 306 \<le> a \<longrightarrow> byte_at (fs_disk s') a = byte_at (fs_disk s) a"
    and n'f: "i_type n' = i_type n" "i_blocks n' = i_blocks n" "i_dat_len n' = i_dat_len n"
  shows "raw_by_id (fs_disk s') j = (if j = x then n' else raw_by_id (fs_disk s) j)"
    and "lookup_at (fs_disk s') = lookup_at (fs_disk s)" and "own_blocks (fs_disk s') = own_blocks (fs_disk s)"
    and "unat q mod 4096 = 0 \<Longrightarrow> q \<noteq> lookup_at (fs_disk s) x \<Longrightarrow> kept (fs_disk s) (fs_disk s') q"
    and "pkg_ok (fs_disk s') \<Longrightarrow> sole_entries (fs_disk s') \<Longrightarrow> pkg_inv s' bs"
proof -
  let ?d = "fs_disk s" and ?e = "fs_disk s'" and ?p = "lookup_at (fs_disk s) x"
  note i = pkg_invD[OF inv] and t = tree_okD[OF pkg_okD(1)[OF pkg_invD(1)[OF inv]]] and tail = assms(6)[rule_format]
  note b = block_okD[OF t(3)[OF used]]
  have size: "dsize ?e = dsize ?d" using same by (simp add: same_outside_def)
  have raw: "inode_at ?d (unat ?p) = n" using raw_used[OF pkg_okD(1)[OF i(1)] used] n by simp
  show look: "lookup_at ?e = lookup_at ?d" by (rule same_outside_lookup[OF same b(1)])
  show keep: "kept ?d ?e q" if "unat q mod 4096 = 0" "q \<noteq> ?p" for q
    using same in_block_unique[OF that(1) b(3)] that(2) by (auto simp: kept_def same_outside_def in_block_def)
  have other: "kept ?d ?e (lookup_at ?d j)" if "lookup_at ?d j \<noteq> 0" "j \<noteq> x" for j
    using that t(4)[of j x] by (intro keep block_okD(3)[OF t(3)]) auto
  have big: "OFFSET_FSINFO \<le> unat ?p" using b(1) by (simp add: config)
  show rawe: "raw_by_id ?e j = (if j = x then n' else raw_by_id ?d j)" for j
  proof (cases "lookup_at ?d j = 0 \<or> j = x")
    case True
    then show ?thesis using self big used raw by (auto simp: raw_by_id_def look Let_def config)
  next
    case False
    then show ?thesis using kept_inode[OF other[of j]] by (simp add: raw_by_id_def look Let_def)
  qed
  have seg: "seg_at ?e ?p k = seg_at ?d ?p k" if f: "file_type (i_type n)" for k
  proof -
    have "slice (byte_at ?e) (unat ?p + (308 + 4 * k)) 4 = slice (byte_at ?d) (unat ?p + (308 + 4 * k)) 4"
      unfolding slice_def by (intro map_cong refl tail[OF f]) simp
    then show ?thesis by (simp add: seg_at_def u32_at_def)
  qed
  have fb: "file_blocks ?e ?p = file_blocks ?d ?p" if "file_type (i_type n)"
    using seg[OF that] by (simp add: file_blocks_def cong: map_cong)
  have own: "own_blocks ?e x = own_blocks ?d x" using fb by (auto simp: own_blocks_def look rawe n n'f)
  have "own_blocks ?e j = own_blocks ?d j" if "j \<noteq> x" for j
    using kept_file_blocks[OF other[of j]] that by (auto simp: own_blocks_def look rawe)
  then show "own_blocks ?e = own_blocks ?d" using own by (metis ext)
  have "free_inv s' bs"
  proof (rule free_inv_frame[OF i(4), where k = 0])
    show "\<forall>c \<in> set bs. kept ?d ?e c"
    proof
      fix c assume c: "c \<in> set bs"
      then have "block_ok ?d c" using i(4) by (auto simp: free_inv_def free_blocks_def)
      moreover have "c \<noteq> ?p" using own_head[OF used] i(8)[of x] c by (auto simp: free_blocks_def)
      ultimately show "kept ?d ?e c" by (intro keep block_okD(3))
    qed
    show "\<forall>a. OFFSET_FSINFO \<le> a \<and> a < OFFSET_DATA \<longrightarrow> byte_at ?e a = byte_at ?d a"
      using same b(1) by (auto simp: same_outside_def)
  qed (use same in \<open>simp_all add: same_outside_def\<close>)
  moreover have "lookup_at ?e j = lookup_at ?d j \<and>
      (file_type (i_type (raw_by_id ?d j)) \<longrightarrow> kept ?d ?e (lookup_at ?d j)) \<and>
      i_type (raw_by_id ?e j) = i_type (raw_by_id ?d j)" if "j \<noteq> x" for j
    using that other[of j] raw_type_used[of ?d j] by (auto simp: look rawe)
  moreover have "sound_file ?e x (lookup_at ?e x) (file_blocks ?e (lookup_at ?e x)) (raw_by_id ?e x)"
    if "file_type (i_type (raw_by_id ?e x))"
  proof -
    have f: "file_type (i_type n)" using that by (simp add: rawe n'f)
    have sf: "sound_file ?d x ?p (file_blocks ?d ?p) n" using files_soundD[OF i(3), of x] f n by simp
    have "roomy ?e ?p (file_blocks ?d ?p)"
      by (rule roomy_cong[of ?d]) (use sf tail[OF f] size in \<open>simp_all add: sound_file_def\<close>)
    then show ?thesis using sf self f by (simp add: sound_file_def look fb[OF f] rawe n'f)
  qed
  moreover have "free_blocks s' bs = free_blocks s bs" using same by (simp add: free_blocks_def same_outside_def)
  moreover have "fs_reserved s' = []" using i(5) same by (simp add: same_outside_def)
  ultimately show "pkg_ok ?e \<Longrightarrow> sole_entries ?e \<Longrightarrow> pkg_inv s' bs"
    using i(6) size own i(7)[of x] i(8)[of x] by (intro pkg_inv_step[OF inv, of s' bs x]) auto
qed

lemma saved_keeps:
  assumes inv: "pkg_inv s bs" and used: "lookup_at (fs_disk s) x \<noteq> 0" and n: "raw_by_id (fs_disk s) x = n"
    and ty: "i_type n \<in> plain_types" and n': "n' = attrs m u g at mt ct n"
    and s': "disk_eq (fs_disk s') (put_bytes (unat (lookup_at (fs_disk s) x)) (getBinaryRepresentation n') (fs_disk s))"
      "fs_cache s' = fs_cache s" "fs_reserved s' = fs_reserved s" "fs_clock s' = fs_clock s"
  shows "pkg_inv s' bs" and "same_names (fs_disk s) (fs_disk s')"
    and "raw_by_id (fs_disk s') j = (if j = x then n' else raw_by_id (fs_disk s) j)"
    and "lookup_at (fs_disk s') = lookup_at (fs_disk s)" and "own_blocks (fs_disk s') = own_blocks (fs_disk s)"
    and "unat q mod 4096 = 0 \<Longrightarrow> q \<noteq> lookup_at (fs_disk s) x \<Longrightarrow> kept (fs_disk s) (fs_disk s') q"
proof -
  let ?d = "fs_disk s" and ?e = "fs_disk s'"
  note i = pkg_invD[OF inv] and sv = saved_bytes[OF assms]
  have n'f: "ident n' = ident n" "i_children n' = i_children n" "i_children_count n' = i_children_count n"
    "i_type n' = i_type n" "i_blocks n' = i_blocks n" "i_dat_len n' = i_dat_len n" by (simp_all add: n')
  have "\<forall>a. file_type (i_type n) \<longrightarrow> unat (lookup_at ?d x) + 306 \<le> a \<longrightarrow> byte_at ?e a = byte_at ?d a" using sv(3) by blast
  note w = inode_write[OF inv used n sv(1,2) this n'f(4-6)]
  show raw: "raw_by_id ?e j = (if j = x then n' else raw_by_id ?d j)" for j by (rule w(1))
  show "lookup_at ?e = lookup_at ?d" "own_blocks ?e = own_blocks ?d" by (rule w(2)) (rule w(3))
  show "unat q mod 4096 = 0 \<Longrightarrow> q \<noteq> lookup_at ?d x \<Longrightarrow> kept ?d ?e q" by (rule w(4))
  have sh: "shape (raw_by_id ?e j) = shape (raw_by_id ?d j)" for j using n n'f by (simp add: raw shape_def)
  have "dsize ?d \<le> dsize ?e" using sv(1) by (simp add: same_outside_def)
  note shp = shape_ok[OF i(1) this w(2) sh]
  show "same_names ?d ?e" by (rule shp(2))
  show "pkg_inv s' bs" by (rule w(5)[OF shp(1)]) (use i(2) in \<open>simp add: sole_entries_def shp(3)\<close>)
qed

lemma saveINode_attrs:
  assumes inv: "pkg_inv s bs" and used: "lookup_at (fs_disk s) x \<noteq> 0" and n: "raw_by_id (fs_disk s) x = n"
    and ty: "i_type n \<in> plain_types"
  shows "\<exists>s'. saveINode (attrs m u g at mt ct n) s = Some (Inr (), s') \<and> updated s bs (attrs m u g at mt ct n) s'"
proof -
  let ?d = "fs_disk s" and ?n = "attrs m u g at mt ct n"
  note i = pkg_invD[OF inv]
  have x: "i_inodeid n = x" using pkg_okD(3)[OF i(1) used] n by simp
  have "inode_at ?d (unat (lookup_at ?d x)) = n" using raw_used[OF pkg_okD(1)[OF i(1)] used] n by simp
  then have "inode_verify ?n" using inode_at_wf(3)[of ?d "unat (lookup_at ?d x)"] ty by (simp add: inode_verify_def)
  moreover have "tabled_type (i_type ?n)" "i_type ?n \<noteq> INT_INVALID" "i_type ?n \<noteq> INT_UNSET"
    using ty by (auto simp: tabled_type_def)
  moreover have "lookup_at ?d (i_inodeid ?n) = lookup_at ?d x" by (simp add: x)
  ultimately obtain s' where s': "updateINode ?n s = (E_SUCCESS, s')"
    "disk_eq (fs_disk s') (put_bytes (unat (lookup_at ?d x)) (getBinaryRepresentation ?n) ?d)"
    "fs_cache s' = fs_cache s" "fs_reserved s' = fs_reserved s" "fs_clock s' = fs_clock s" "fs_ticks s' = fs_ticks s"
    using updateINode_disk[OF _ _ _ tree_okD(3)[OF pkg_okD(1)[OF i(1)] used]] by metis
  have "saveINode ?n s = Some (Inr (), s')"
    using s'(1) ty by (auto simp: saveINode_def bindE_def low_total_def throw_if_def ret_def)
  moreover note k = saved_keeps[OF inv used n ty refl s'(2-5)]
  moreover have "dsize (fs_disk s') = dsize ?d" using saved_bytes(1)[OF inv used n ty refl s'(2-5)] by (simp add: same_outside_def)
  moreover have "path_map (fs_disk s') = path_map ?d"
    using same_names_map[OF pkg_rooted pkg_rooted k(2)] i(1) pkg_invD(1)[OF k(1)] by blast
  moreover have "kept ?d (fs_disk s') b" if "b \<in> set (own_blocks ?d j)" "b \<noteq> lookup_at ?d x" for j b
    by (rule k(6)[OF block_okD(3)[OF own_block_ok[OF i(1,3) that(1)]] that(2)])
  ultimately show ?thesis using s'(3,5,6) x by (auto simp: updated_def)
qed

end
