(* ===== verification/FSFile_Take.thy ===== *)
theory FSFile_Take
  imports FSFile_Shrink
begin

text \<open>
  \<^verbatim>\<open>FS::truncateFile\<close> (\<^verbatim>\<open>libapp/lowlevel/fs.cpp\<close>) to a larger length when the free list offers blocks: the slots get
  blocks from its cache first, with the bytes they have, and then new ones from the end of the package.
\<close>

section \<open>One block\<close>

lemma allocate_one:
  assumes inv: "free_inv s bs" and al: "dsize (fs_disk s) mod 4096 = 0"
    and room: "fs_cache s = [] \<Longrightarrow> dsize (fs_disk s) < 2 ^ 31"
  obtains b t where "allocateBlock s = (b, t)" and "byte_at (fs_disk t) = byte_at (fs_disk s)"
    and "dsize (fs_disk t) = dsize (fs_disk s) + (if fs_cache s = [] then 4096 else 0)" and "dpos (fs_disk t) = dpos (fs_disk s)"
    and "fs_cache t = drop 1 (fs_cache s)" and "free_inv t bs" and "block_ok (fs_disk t) b" and "b \<notin> set (free_blocks t bs)"
    and "b \<in> snd ` set (fs_cache s) \<or> dsize (fs_disk s) \<le> unat b"
    and "fs_reserved t = fs_reserved s" "fs_clock t = fs_clock s" "fs_ticks t = fs_ticks s"
proof -
  have fl: "fl_inv s bs" and dist: "distinct (free_blocks s bs)" and ok: "\<And>b. b \<in> set (free_blocks s bs) \<Longrightarrow> block_ok (fs_disk s) b"
    using inv by (simp_all add: free_inv_def)
  have big: "OFFSET_DATA \<le> dsize (fs_disk s)" using fl by (simp add: fl_inv_def fsinfo_ok_def)
  have frame: "free_inv t bs" if "byte_at (fs_disk t) = byte_at (fs_disk s)" "dsize (fs_disk s) \<le> dsize (fs_disk t)"
      "fs_cache t = drop 1 (fs_cache s)" for t
    by (rule free_inv_frame[OF inv _ _ _ that(3)]) (simp_all add: kept_def that(1,2))
  show ?thesis
  proof (cases "fs_cache s")
    case Nil
    let ?n = "dsize (fs_disk s)"
    let ?t = "fs_put ?n (replicate 4096 0) s"
    have lim: "?n < 2 ^ 31" by (rule room[OF Nil])
    have u: "align_up (?n mod 2 ^ 32) = of_nat ?n" "unat (of_nat ?n :: u32) = ?n"
      using align_up_aligned[of ?n] al lim unat_of_nat_small[of ?n] by simp_all
    have bytes: "byte_at (fs_disk ?t) = byte_at (fs_disk s)"
    proof
      fix a
      have "replicate 4096 (0 :: byte) ! (a - ?n) = 0" if "?n \<le> a" "a < ?n + 4096"
        using that by (intro nth_replicate) linarith
      moreover have "byte_at (fs_disk s) a = 0" if "?n \<le> a" using that by (simp add: byte_at_def)
      ultimately show "byte_at (fs_disk ?t) a = byte_at (fs_disk s) a" by (auto simp: fd_simps byte_at_put_bytes)
    qed
    have size: "dsize (fs_disk ?t) = ?n + 4096" by (simp add: fd_simps)
    have b: "block_ok (fs_disk ?t) (of_nat ?n)" using fresh_block_ok[OF big al lim] size by simp
    have "of_nat ?n \<notin> set (free_blocks s bs)" using ok block_okD(4)[of "fs_disk s" "of_nat ?n"] u(2) by fastforce
    then have "of_nat ?n \<notin> set (free_blocks ?t bs)" by (simp add: free_blocks_def fd_simps)
    moreover have "free_inv ?t bs" by (rule frame) (use bytes size Nil in \<open>simp_all add: fd_simps\<close>)
    ultimately show ?thesis
      using that[of "of_nat ?n" ?t] bytes size b u Nil by (simp add: allocateBlock_new fd_simps)
  next
    case (Cons e rest)
    obtain a b where e: "e = (a, b)" by (cases e)
    let ?t = "(fs_put (unat a) (enc32 b) s)\<lparr>fs_cache := rest\<rparr>"
    have "(a, b) \<in> disk_entries (fs_disk s) (fl_slots bs)" using fl Cons e by (auto simp: fl_inv_def)
    then have v: "u32_at (fs_disk s) (unat a) = b" and "a \<in> set (fl_slots bs)" by (auto simp: disk_entries_def)
    then obtain c where "c \<in> set bs" "a \<in> set (slot_addrs c)" unfolding fl_slots_def by auto
    then have "unat a + 4 \<le> dsize (fs_disk s)"
      using slot_inside fl_chain_block_ok fl by (fastforce simp: fl_inv_def)
    note same = fs_put_same_bytes[OF v this]
    have bytes: "byte_at (fs_disk ?t) = byte_at (fs_disk s)" "dsize (fs_disk ?t) = dsize (fs_disk s)" using same by simp_all
    have mem: "b \<in> set (free_blocks s bs)" using Cons e by (simp add: free_blocks_def)
    have "block_ok (fs_disk ?t) b" using ok[OF mem] bytes(2) by (simp add: block_ok_def)
    moreover have "b \<notin> set (free_blocks ?t bs)" using dist Cons e by (auto simp: free_blocks_def)
    moreover have "free_inv ?t bs" by (rule frame) (use bytes Cons in simp_all)
    moreover have "b \<in> snd ` set (fs_cache s)" using Cons e by simp
    ultimately show ?thesis
      using that[of b ?t] bytes Cons e by (simp add: allocateBlock_cached fd_simps)
  qed
qed

lemma allocateBlock_seek: "allocateBlock (fd_seek q s) = (fst (allocateBlock s), fd_seek q (snd (allocateBlock s)))"
proof (cases "fs_cache s")
  case Nil
  then show ?thesis by (simp add: allocateBlock_new fd_simps disk_simps Let_def)
next
  case (Cons e rest)
  obtain a b where "fs_cache s = (a, b) # rest" using Cons by (cases e) simp
  then have "allocateBlock s = (b, (fs_put (unat a) (enc32 b) s)\<lparr>fs_cache := rest\<rparr>)"
    "allocateBlock (fd_seek q s) = (b, (fs_put (unat a) (enc32 b) (fd_seek q s))\<lparr>fs_cache := rest\<rparr>)"
    by (rule allocateBlock_cached) (simp add: allocateBlock_cached fd_simps \<open>fs_cache s = (a, b) # rest\<close>)
  then show ?thesis by (simp add: fd_seek_def fs_put_def put_bytes_seek)
qed

lemma roomy_append:
  assumes r: "roomy d p fs" and k: "length fs < 946" and b: "block_ok d b" "b \<noteq> p" "b \<notin> set fs"
  shows "roomy (put_bytes (unat p + (308 + 4 * length fs)) (enc32 b) d) p (fs @ [b])"
proof -
  let ?e = "put_bytes (unat p + (308 + 4 * length fs)) (enc32 b) d"
  have fa: "file_at d p fs" using r by (simp add: roomy_def)
  note f = file_atD[OF fa]
  have size: "dsize ?e = dsize d" using block_okD(4)[OF f(5)] k by simp
  have ok: "block_ok ?e c = block_ok d c" for c using size by (simp add: block_ok_def)
  have seg: "seg_at ?e p j = (if j = length fs then b else seg_at d p j)" for j
  proof (cases "j = length fs")
    case True
    then show ?thesis by (simp add: seg_at_def u32_at_put_same)
  next
    case False
    then have "unat p + (308 + 4 * length fs) + length (enc32 b) \<le> unat p + (308 + 4 * j) \<or>
        unat p + (308 + 4 * j) + 4 \<le> unat p + (308 + 4 * length fs)" by auto
    from put_outside_seg[OF this, of d] show ?thesis using False by simp
  qed
  have z: "seg_at d p (Suc (length fs)) = 0" using r k by (simp add: roomy_def)
  have "blocks_at ?e p (fs @ [b])"
    using f(1) b(1) k z by (auto simp: blocks_at_def ok seg nth_append less_Suc_eq)
  then show ?thesis
    using f(2,3) b(2,3) r by (auto simp: roomy_def file_at_def seg)
qed

text \<open>A write into a block that is not free keeps the free list.\<close>

lemma free_inv_outside:
  assumes inv: "free_inv s bs" and p: "block_ok (fs_disk s) p" "p \<notin> set (free_blocks s bs)"
    and out: "\<And>a. \<not> in_block p a \<Longrightarrow> byte_at (fs_disk t) a = byte_at (fs_disk s) a"
    and rest: "dsize (fs_disk t) = dsize (fs_disk s)" "fs_cache t = fs_cache s"
  shows "free_inv t bs"
proof (rule free_inv_frame[OF inv, where k = 0])
  show "\<forall>c \<in> set bs. kept (fs_disk s) (fs_disk t) c"
  proof
    fix c assume c: "c \<in> set bs"
    then have "block_ok (fs_disk s) c" "c \<noteq> p" using inv p(2) by (auto simp: free_inv_def free_blocks_def)
    then have "\<not> in_block p a" if "in_block c a" for a
      using that in_block_unique[OF block_okD(3) block_okD(3)[OF p(1)]] by blast
    then show "kept (fs_disk s) (fs_disk t) c" using out by (simp add: kept_def)
  qed
  show "\<forall>x. OFFSET_FSINFO \<le> x \<and> x < OFFSET_DATA \<longrightarrow> byte_at (fs_disk t) x = byte_at (fs_disk s) x"
    using out block_okD(1)[OF p(1)] by (auto simp: in_block_def)
qed (use rest in simp_all)

section \<open>The loop\<close>

text \<open>
  \<open>t\<close> is \<open>s\<close> with the blocks \<open>new\<close> taken and entered in the slots of \<open>p\<close> behind \<open>fs\<close>.
\<close>

definition took :: "fsys \<Rightarrow> u32 list \<Rightarrow> u32 \<Rightarrow> u32 list \<Rightarrow> u32 list \<Rightarrow> fsys \<Rightarrow> bool" where
  "took s bs p fs new t \<longleftrightarrow> roomy (fs_disk t) p (fs @ new) \<and> free_inv t bs \<and> fs_cache t = drop (length new) (fs_cache s) \<and>
     dsize (fs_disk t) = dsize (fs_disk s) + 4096 * (length new - length (fs_cache s)) \<and>
     (\<forall>b \<in> set new. b \<notin> set (free_blocks t bs) \<and> (b \<in> snd ` set (fs_cache s) \<or> dsize (fs_disk s) \<le> unat b)) \<and>
     (\<forall>a. \<not> (unat p + 308 \<le> a \<and> a < unat p + 4096) \<longrightarrow> byte_at (fs_disk t) a = byte_at (fs_disk s) a) \<and>
     dpos (fs_disk t) = dpos (fs_disk s) \<and> fs_reserved t = fs_reserved s \<and> fs_clock t = fs_clock s \<and> fs_ticks t = fs_ticks s"

lemma grow_scan_take:
  assumes "roomy (fs_disk s) p fs" and "length fs + m < 947" and "free_inv s bs"
    and "p \<notin> set (free_blocks s bs)" and "set fs \<inter> set (free_blocks s bs) = {}"
    and "dsize (fs_disk s) mod 4096 = 0" and "dsize (fs_disk s) + 4096 * (m - length (fs_cache s)) \<le> 2 ^ 31"
  shows "\<exists>q' t new. grow_scan p (c + m) (slots_from (length fs)) c (fd_seek q s) = ((True, c + m), fd_seek q' t) \<and>
    length new = m \<and> took s bs p fs new t"
  using assms
proof (induction m arbitrary: fs s c q)
  case 0
  have fa: "file_at (fs_disk s) p fs" and z: "seg_at (fs_disk s) p (length fs) = 0"
    using 0(1,2) by (auto simp: roomy_def)
  have "grow_scan p (c + 0) (slots_from (length fs)) c (fd_seek q s) = ((True, c + 0), fd_seek (unat p + (308 + 4 * length fs) + 4) s)"
    using fd_doR32_slot[OF file_atD(5,6)[OF fa]] z file_atD(6)[OF fa] by (simp add: slots_from_Cons fd_simps del: of_nat_add)
  moreover have "took s bs p fs [] s" using 0 by (simp add: took_def)
  ultimately show ?case by blast
next
  case (Suc m)
  let ?d = "fs_disk s" and ?k = "length fs" and ?P = "unat p + (308 + 4 * length fs)"
  have fa: "file_at ?d p fs" and z: "seg_at ?d p ?k = 0"
    using Suc.prems(1,2) by (auto simp: roomy_def)
  note f = file_atD[OF fa]
  have k: "?k < 946" "?k < 947" using Suc.prems(2) by simp_all
  have lim: "dsize ?d < 2 ^ 31" if "fs_cache s = []" using Suc.prems(7) that by simp
  obtain b t where a: "allocateBlock s = (b, t)" "byte_at (fs_disk t) = byte_at ?d"
    "dsize (fs_disk t) = dsize ?d + (if fs_cache s = [] then 4096 else 0)" "dpos (fs_disk t) = dpos ?d"
    "fs_cache t = drop 1 (fs_cache s)" "free_inv t bs" "block_ok (fs_disk t) b" "b \<notin> set (free_blocks t bs)"
    "b \<in> snd ` set (fs_cache s) \<or> dsize ?d \<le> unat b"
    "fs_reserved t = fs_reserved s" "fs_clock t = fs_clock s" "fs_ticks t = fs_ticks s"
    using allocate_one[OF Suc.prems(3,6) lim] by metis
  let ?u = "fs_put ?P (enc32 b) t"
  have sub: "set (free_blocks t bs) \<subseteq> set (free_blocks s bs)"
    using set_drop_subset[of 1 "fs_cache s"] by (auto simp: free_blocks_def a(5))
  have in_free: "b \<in> set (free_blocks s bs)" if "block_ok ?d b"
    using a(9) block_okD(4)[OF that] by (auto simp: free_blocks_def)
  have b: "b \<noteq> p" "b \<notin> set fs"
    using in_free f(4,5) Suc.prems(4,5) by blast+
  have size: "dsize ?d \<le> dsize (fs_disk t)" "dsize (fs_disk ?u) = dsize (fs_disk t)"
    using a(3) block_okD(4)[OF f(5)] k by (simp_all add: fd_simps)
  have tok: "block_ok (fs_disk t) p" using f(5) size(1) by (simp add: block_ok_def)
  have rt: "roomy (fs_disk t) p fs" by (rule roomy_cong[OF Suc.prems(1) size(1)]) (simp add: a(2))
  have ru: "roomy (fs_disk ?u) p (fs @ [b])" using roomy_append[OF rt k(1) a(7) b] by (simp add: fd_simps)
  have out: "byte_at (fs_disk ?u) x = byte_at ?d x" if "\<not> (unat p + 308 \<le> x \<and> x < unat p + 4096)" for x
    using that k(1) by (auto simp: fd_simps byte_at_put_bytes a(2))
  have pt: "p \<notin> set (free_blocks t bs)" using sub Suc.prems(4) by blast
  have fbu: "free_blocks ?u bs = free_blocks t bs" by (simp add: free_blocks_def fd_simps)
  have fu: "free_inv ?u bs"
    by (rule free_inv_outside[OF a(6) tok pt]) (use out size in \<open>auto simp: fd_simps in_block_def a(2)\<close>)
  have u: "unat (p + of_nat (308 + 4 * ?k)) = ?P" using k by (intro unat_block_plus[OF f(5)]) simp
  have rd: "fd_doR32 0 (fd_seek ?P s) = (0, fd_seek (?P + 4) s)"
    using fd_doR32_slot[OF f(5) k(2)] z unfolding u by simp
  have step: "grow_scan p (c + Suc m) (slots_from ?k) c (fd_seek q s)
    = grow_scan p (Suc c + m) (slots_from (length (fs @ [b]))) (Suc c) (fd_seek (?P + 4) ?u)"
    using k(2) rd u a(1) by (simp add: slots_from_Cons allocateBlock_seek fd_simps Let_def del: of_nat_add)
  have dis: "set (fs @ [b]) \<inter> set (free_blocks ?u bs) = {}" using Suc.prems(5) sub a(8) by (auto simp: fbu)
  have len: "length (fs @ [b]) + m < 947" using Suc.prems(2) by simp
  have cu: "fs_cache ?u = drop 1 (fs_cache s)" by (simp add: fd_simps a(5))
  have "dsize (fs_disk ?u) mod 4096 = 0" using size(2) a(3) Suc.prems(6) by (simp add: mod_Suc)
  moreover have "dsize (fs_disk ?u) + 4096 * (m - length (fs_cache ?u)) = dsize ?d + 4096 * (Suc m - length (fs_cache s))"
    unfolding cu using size(2) a(3) by (cases "fs_cache s") simp_all
  ultimately obtain q' v new where v: "grow_scan p (Suc c + m) (slots_from (length (fs @ [b]))) (Suc c) (fd_seek (?P + 4) ?u)
      = ((True, Suc c + m), fd_seek q' v)" "length new = m" "took ?u bs p (fs @ [b]) new v"
    using Suc.IH[OF ru len fu _ dis, of "Suc c" "?P + 4"] Suc.prems(7) pt by (auto simp: fbu)
  have vb: "b \<notin> set (free_blocks v bs)"
    using a(8) v(3) set_drop_subset[of "length new" "fs_cache ?u"] by (auto simp: took_def free_blocks_def fd_simps)
  have "took s bs p fs (b # new) v"
    unfolding took_def
  proof (intro conjI)
    show "dsize (fs_disk v) = dsize ?d + 4096 * (length (b # new) - length (fs_cache s))"
      using v(3) \<open>dsize (fs_disk ?u) + _ = _\<close> v(2) by (simp add: took_def)
    show "\<forall>x \<in> set (b # new). x \<notin> set (free_blocks v bs) \<and> (x \<in> snd ` set (fs_cache s) \<or> dsize ?d \<le> unat x)"
    proof
      fix x assume x: "x \<in> set (b # new)"
      show "x \<notin> set (free_blocks v bs) \<and> (x \<in> snd ` set (fs_cache s) \<or> dsize ?d \<le> unat x)"
      proof (cases "x = b")
        case True
        then show ?thesis using vb a(9) by simp
      next
        case False
        then have "x \<notin> set (free_blocks v bs) \<and> (x \<in> snd ` set (drop 1 (fs_cache s)) \<or> dsize (fs_disk ?u) \<le> unat x)"
          using x v(3) unfolding took_def cu by simp
        then show ?thesis using size image_mono[OF set_drop_subset[of 1 "fs_cache s"], of snd] by auto
      qed
    qed
    show "\<forall>x. \<not> (unat p + 308 \<le> x \<and> x < unat p + 4096) \<longrightarrow> byte_at (fs_disk v) x = byte_at ?d x"
      using v(3) out by (simp add: took_def)
  qed (use v(3) a(4,10-12) cu in \<open>simp_all add: took_def fd_simps\<close>)
  then show ?case using v(1,2) unfolding step by (intro exI[of _ q'] exI[of _ v] exI[of _ "b # new"]) simp
qed

lemma grow_rounds_take:
  assumes r: "roomy (fs_disk s) p fs" and "length fs + m < 947" and "free_inv s bs"
    and "p \<notin> set (free_blocks s bs)" and "set fs \<inter> set (free_blocks s bs) = {}"
    and "dsize (fs_disk s) mod 4096 = 0" and "dsize (fs_disk s) + 4096 * (m - length (fs_cache s)) \<le> 2 ^ 31"
  shows "\<exists>q t new. grow_rounds p m p HSIZE_FILE 0 s = Some (True, fd_seek q t) \<and> length new = m \<and> took s bs p fs new t"
proof -
  have b: "blocks_at (fs_disk s) p fs" "p \<noteq> 0"
    using r block_okD(5) by (auto simp: roomy_def file_at_def blocks_at_def)
  obtain q where q: "grow_scan p m (slots_from 0) 0 (fd_seek (fd_tell s) s)
      = grow_scan p m (slots_from (length fs)) 0 (fd_seek q s)"
    using grow_scan_skip[OF b(1), of 0 m 0 "fd_tell s"] by blast
  obtain q' t new where t: "grow_scan p m (slots_from (length fs)) 0 (fd_seek q s) = ((True, m), fd_seek q' t)"
    "length new = m" "took s bs p fs new t"
    using grow_scan_take[OF assms, of 0 q] by auto
  then have "grow_rounds p m p HSIZE_FILE 0 s = Some (True, fd_seek q' t)"
    using q b(2) by (subst grow_rounds.simps) (auto simp: segment_offsets_file fd_simps)
  then show ?thesis using t(2,3) by blast
qed

section \<open>The operation\<close>

lemma truncateFile_take:
  assumes sf: "sound_file (fs_disk s) iid p fs n"
    and longer: "i_dat_len n < len" and fits: "unat len \<le> 4096 * 946"
    and free: "free_inv s bs" "p \<notin> set (free_blocks s bs)" "set fs \<inter> set (free_blocks s bs) = {}"
    and al: "dsize (fs_disk s) mod 4096 = 0"
    and lim: "dsize (fs_disk s) + 4096 * (ceil_blocks len - length fs - length (fs_cache s)) \<le> 2 ^ 31"
  obtains t new where "truncateFile iid len s = Some (E_SUCCESS, t)"
    and "sound_file (fs_disk t) iid p (fs @ new) (resized len n)" and "length new = ceil_blocks len - length fs"
    and "free_inv t bs" and "fs_cache t = drop (length new) (fs_cache s)"
    and "dsize (fs_disk t) = dsize (fs_disk s) + 4096 * (length new - length (fs_cache s))" and "fd_tell t = fd_tell s"
    and "\<And>b. b \<in> set new \<Longrightarrow> b \<notin> set (free_blocks t bs) \<and> (b \<in> snd ` set (fs_cache s) \<or> dsize (fs_disk s) \<le> unat b)"
    and "\<And>a. \<not> in_block p a \<Longrightarrow> byte_at (fs_disk t) a = byte_at (fs_disk s) a"
    and "fs_reserved t = fs_reserved s" "fs_clock t = fs_clock s" "fs_ticks t = fs_ticks s"
proof -
  let ?d = "fs_disk s" and ?k = "length fs"
  define m where "m = ceil_blocks len - ?k"
  have sd: "lookup_at ?d iid = p" "roomy ?d p fs" "inode_at ?d (unat p) = n" "file_type (i_type n)"
    "i_blocks n = of_nat ?k" "?k = ceil_blocks (i_dat_len n)"
    using sf by (simp_all add: sound_file_def)
  have km: "ceil_blocks len = ?k + m" "?k + m < 947"
    using ceil_blocks_mono[of "i_dat_len n" len] longer sd(6) ceil_blocks_bound(2)[of len 946] fits
    by (auto simp: m_def)
  have fa: "file_at ?d p fs" using sd(2) by (simp add: roomy_def)
  note p = block_okD[OF file_atD(5)[OF fa]]
  have node: "getINodeByPosition p s = Some (n, s)"
    using getINodeByPosition_plain[of p s] sd(3,4) p(4) by auto
  have "unat (i_blocks n) = ?k" using km(2) by (simp add: sd(5) unat_of_nat take_bit_eq_mod)
  then have info: "allocateInfoListBlocks p len s = Some (E_SUCCESS, s)"
    using km(2) fits by (intro allocateInfoListBlocks_none[OF node]) simp_all
  have "(of_nat (ceil_blocks len) :: u16) - i_blocks n = of_nat m" by (simp add: sd(5) km(1))
  moreover have "unat (of_nat m :: u16) = m" using km(2) by (simp add: unat_of_nat take_bit_eq_mod)
  ultimately have add: "unat ((of_nat (ceil_blocks len) :: u16) - i_blocks n) = m" by simp
  obtain q u new where g: "grow_rounds p m p HSIZE_FILE 0 s = Some (True, fd_seek q u)"
    and lnew: "length new = m" and tk: "took s bs p fs new u"
    using grow_rounds_take[OF sd(2) km(2) free al] lim by (auto simp: m_def)
  have u: "roomy (fs_disk u) p (fs @ new)" "free_inv u bs" "fs_cache u = drop (length new) (fs_cache s)"
    "dsize (fs_disk u) = dsize ?d + 4096 * (length new - length (fs_cache s))" "dpos (fs_disk u) = dpos ?d"
    "fs_reserved u = fs_reserved s" "fs_clock u = fs_clock s" "fs_ticks u = fs_ticks s"
    and new: "\<And>b. b \<in> set new \<Longrightarrow> b \<notin> set (free_blocks u bs) \<and> (b \<in> snd ` set (fs_cache s) \<or> dsize ?d \<le> unat b)"
    and out: "\<And>a. \<not> (unat p + 308 \<le> a \<and> a < unat p + 4096) \<Longrightarrow> byte_at (fs_disk u) a = byte_at ?d a"
    using tk unfolding took_def by blast+
  have gn: "inode_at (fs_disk u) (unat p) = n"
    using inode_at_file_cong[of "unat p" "fs_disk u" ?d] sd(3,4) out by simp
  have gok: "block_ok (fs_disk u) p" using u(1) file_atD(5) unfolding roomy_def by blast
  let ?t = "u\<lparr>fs_disk := disk_seek (fd_tell s) (set_len p len (fs_disk u))\<rparr>"
  have "setFileLengthDirect p len (fd_seek q u) = (E_SUCCESS, (fd_seek q u)\<lparr>fs_disk := set_len p len (disk_seek q (fs_disk u))\<rparr>)"
    using setFileLengthDirect_eq[of "fd_seek q u" p len] gok gn sd(4) by (simp add: fd_simps disk_simps block_ok_def)
  moreover have "set_len p len (disk_seek q (fs_disk u)) = disk_seek q (set_len p len (fs_disk u))"
    by (simp add: set_len_def put_bytes_seek)
  ultimately have len_set: "setFileLengthDirect p len (fd_seek q u) = (E_SUCCESS, fd_seek q (u\<lparr>fs_disk := set_len p len (fs_disk u)\<rparr>))"
    by (simp add: fd_seek_def)
  have "\<not> (i_dat_len n = len)" "\<not> (i_dat_len n > len)" using longer by auto
  then have tr: "truncateFile iid len s = Some (E_SUCCESS, ?t)"
    using sd(1,4) node info g len_set add by (auto simp: truncateFile_def Let_def fd_simps fd_seek_def disk_seek_def)
  note l = set_len_facts[OF gok, where len = len]
  have size: "dsize (fs_disk ?t) = dsize (fs_disk u)" using l(1) by (simp add: disk_simps)
  have byte: "byte_at (fs_disk ?t) a = byte_at (set_len p len (fs_disk u)) a" for a by (simp add: disk_simps)
  have bu: "byte_at (fs_disk ?t) a = byte_at (fs_disk u) a" if "\<not> in_block p a" for a
    unfolding byte by (rule l(2)) (use that in \<open>auto simp: in_block_def\<close>)
  have same: "byte_at (fs_disk ?t) a = byte_at ?d a" if "\<not> in_block p a" for a
    unfolding bu[OF that] by (rule out) (use that in \<open>auto simp: in_block_def\<close>)
  have nodet: "inode_at (fs_disk ?t) (unat p) = resized len n"
    using inode_at_length_writes[of "fs_disk u" "unat p" "of_nat (ceil_blocks len)" len] sd(4) gn
    by (simp add: resized_def set_len_def disk_simps)
  have room: "roomy (fs_disk ?t) p (fs @ new)"
    using roomy_cong[OF u(1), of "set_len p len (fs_disk u)"] l by (simp add: roomy_seek)
  have "lookup_at (fs_disk ?t) = lookup_at ?d"
    by (rule lookup_at_cong, rule same) (use p(1) in \<open>auto simp: config in_block_def\<close>)
  then have "sound_file (fs_disk ?t) iid p (fs @ new) (resized len n)"
    using sd(1,4) nodet room km(1) lnew by (simp add: sound_file_def) (simp add: resized_def)
  moreover have "p \<notin> set (free_blocks u bs)"
    using free(2) u(3) set_drop_subset[of "length new" "fs_cache s"] by (auto simp: free_blocks_def)
  then have "free_inv ?t bs" by (rule free_inv_outside[OF u(2) gok]) (use bu size in simp_all)
  moreover have "free_blocks ?t bs = free_blocks u bs" by (simp add: free_blocks_def)
  ultimately show ?thesis
    using that[of ?t new] tr lnew u(3,4,6-8) size new same by (simp add: m_def fd_tell_def disk_simps)
qed

end
