(* ===== verification/AppFS_Data.thy ===== *)
theory AppFS_Data
  imports AppFS_Update FSFile_Take
begin

text \<open>
  Steps that change the contents or the length of one file: writing into its blocks and growing it. The file stays
  sound, and the invariant of the package and all other files are kept.
\<close>

section \<open>The bytes a file's blocks hold\<close>

definition file_store :: "disk \<Rightarrow> u16 \<Rightarrow> byte list" where
  "file_store d j = (let fs = file_blocks d (lookup_at d j) in file_bytes d fs 0 (4096 * length fs))"

lemma file_store_cong:
  assumes "lookup_at e j = lookup_at d j" and fa: "file_at d (lookup_at d j) (file_blocks d (lookup_at d j))"
    and "file_blocks e (lookup_at d j) = file_blocks d (lookup_at d j)"
    and keep: "\<And>b. b \<in> set (file_blocks d (lookup_at d j)) \<Longrightarrow> kept d e b"
  shows "file_store e j = file_store d j"
proof -
  let ?fs = "file_blocks d (lookup_at d j)"
  have "byte_at e (data_addr ?fs k) = byte_at d (data_addr ?fs k)" if "k < 4096 * length ?fs" for k
    using keep[OF data_addr_block(1)[OF that]] data_addr_block(3,4)[OF that] by (simp add: kept_def in_block_def)
  then show ?thesis using assms(1,3) by (simp add: file_store_def file_bytes_def Let_def)
qed

lemma data_kept_store:
  assumes k: "data_kept d e x" and j: "j \<noteq> x" "file_type (i_type (raw_by_id d j))" and fsd: "files_sound d"
  shows "file_store e j = file_store d j"
proof (rule file_store_cong)
  note dk = data_keptD[OF k j]
  have sf: "sound_file d j (lookup_at d j) (file_blocks d (lookup_at d j)) (raw_by_id d j)" by (rule files_soundD[OF fsd j(2)])
  show fa: "file_at d (lookup_at d j) (file_blocks d (lookup_at d j))" using sf by (simp add: sound_file_def roomy_def)
  have used: "lookup_at d j \<noteq> 0" using block_okD(5)[OF file_atD(5)[OF fa]] .
  then have own: "own_blocks d j = lookup_at d j # file_blocks d (lookup_at d j)" using j(2) by (simp add: own_blocks_def)
  show "lookup_at e j = lookup_at d j" by (rule dk(2))
  show "file_blocks e (lookup_at d j) = file_blocks d (lookup_at d j)" by (rule kept_file_blocks[OF dk(3)]) (simp add: own)
  show "kept d e b" if "b \<in> set (file_blocks d (lookup_at d j))" for b by (rule dk(3)) (simp add: own that)
qed

section \<open>A step that changes one file\<close>

text \<open>
  \<open>s'\<close> differs from \<open>s\<close> only in the file \<open>x\<close>: its own block, its blocks, and blocks \<open>new\<close> that were free or lie behind
  the end.
\<close>

definition file_step :: "fsys \<Rightarrow> u32 list \<Rightarrow> u16 \<Rightarrow> inode \<Rightarrow> u32 list \<Rightarrow> inode \<Rightarrow> fsys \<Rightarrow> bool" where
  "file_step s bs x n new n' s' \<longleftrightarrow>
     (let d = fs_disk s; e = fs_disk s'; p = lookup_at d x; fs = file_blocks d p
      in file_type (i_type n) \<and> raw_by_id d x = n \<and> sound_file e x p (fs @ new) n' \<and> shape n' = shape n \<and>
         perms n' = perms n \<and>
         dsize d \<le> dsize e \<and> dsize e mod 4096 = 0 \<and>
         (\<forall>b \<in> set new. b \<notin> set (free_blocks s' bs) \<and> (b \<in> set (free_blocks s bs) \<or> dsize d \<le> unat b)) \<and>
         (\<forall>a < dsize d. \<not> in_block p a \<longrightarrow> (\<forall>b \<in> set fs. \<not> in_block b a) \<longrightarrow> byte_at e a = byte_at d a) \<and>
         free_inv s' bs \<and> set (free_blocks s' bs) \<subseteq> set (free_blocks s bs) \<and>
         fs_reserved s' = fs_reserved s \<and> fs_clock s' = fs_clock s)"

text \<open>Blocks that are not the file's keep their bytes.\<close>

lemma own_frame:
  assumes inv: "pkg_inv s bs"
    and byte: "\<forall>a < dsize (fs_disk s). (\<forall>b \<in> set (own_blocks (fs_disk s) x). \<not> in_block b a) \<longrightarrow> byte_at e a = byte_at (fs_disk s) a"
  shows "block_ok (fs_disk s) q \<Longrightarrow> q \<notin> set (own_blocks (fs_disk s) x) \<Longrightarrow> kept (fs_disk s) e q"
    and "a < OFFSET_DATA \<Longrightarrow> byte_at e a = byte_at (fs_disk s) a"
proof -
  let ?d = "fs_disk s"
  note i = pkg_invD[OF inv]
  have ok: "block_ok ?d b" if "b \<in> set (own_blocks ?d x)" for b by (rule own_block_ok[OF i(1,3) that])
  show "kept ?d e q" if q: "block_ok ?d q" "q \<notin> set (own_blocks ?d x)"
    unfolding kept_def
  proof (intro allI impI)
    fix a assume a: "in_block q a"
    have "\<not> in_block b a" if "b \<in> set (own_blocks ?d x)" for b
      using in_block_unique[OF block_okD(3)[OF ok[OF that]] block_okD(3)[OF q(1)], of a] that q(2) a by auto
    moreover have "a < dsize ?d" using a block_okD(4)[OF q(1)] by (simp add: in_block_def)
    ultimately show "byte_at e a = byte_at ?d a" using byte by blast
  qed
  show "byte_at e a = byte_at ?d a" if "a < OFFSET_DATA"
  proof (rule byte[rule_format])
    show "a < dsize ?d" using that pkg_inv_size(1)[OF inv] by simp
    show "\<not> in_block b a" if "b \<in> set (own_blocks ?d x)" for b
      using block_okD(1)[OF ok[OF that]] \<open>a < OFFSET_DATA\<close> by (simp add: in_block_def)
  qed
qed

lemma own_frame_free:
  assumes inv: "pkg_inv s bs"
    and byte: "\<forall>a < dsize (fs_disk s). (\<forall>b \<in> set (own_blocks (fs_disk s) x). \<not> in_block b a) \<longrightarrow>
      byte_at (fs_disk s') a = byte_at (fs_disk s) a"
    and st: "dsize (fs_disk s) \<le> dsize (fs_disk s')" "fs_cache s' = fs_cache s"
  shows "free_inv s' bs"
proof (rule free_inv_frame[OF pkg_invD(4)[OF inv], where k = 0])
  note i = pkg_invD[OF inv] and fr = own_frame[OF inv byte]
  have "block_ok (fs_disk s) c \<and> c \<notin> set (own_blocks (fs_disk s) x)" if "c \<in> set bs" for c
    using that i(4) i(8)[of x] by (auto simp: free_inv_def free_blocks_def)
  then show "\<forall>c \<in> set bs. kept (fs_disk s) (fs_disk s') c" using fr(1) by blast
  show "\<forall>a. OFFSET_FSINFO \<le> a \<and> a < OFFSET_DATA \<longrightarrow> byte_at (fs_disk s') a = byte_at (fs_disk s) a" using fr(2) by blast
qed (use st in auto)

lemma file_step_keeps:
  assumes inv: "pkg_inv s bs" and step: "file_step s bs x n new n' s'"
  shows "pkg_inv s' bs" and "path_map (fs_disk s') = path_map (fs_disk s)"
    and "raw_by_id (fs_disk s') j = (if j = x then n' else raw_by_id (fs_disk s) j)"
    and "data_kept (fs_disk s) (fs_disk s') x" and "lookup_at (fs_disk s') = lookup_at (fs_disk s)"
    and "file_blocks (fs_disk s') (lookup_at (fs_disk s) x) = file_blocks (fs_disk s) (lookup_at (fs_disk s) x) @ new"
proof -
  let ?d = "fs_disk s" and ?e = "fs_disk s'" and ?p = "lookup_at (fs_disk s) x"
  let ?fs = "file_blocks ?d ?p"
  note i = pkg_invD[OF inv] and t = tree_okD[OF pkg_okD(1)[OF pkg_invD(1)[OF inv]]]
  have ft: "file_type (i_type n)" and n: "raw_by_id ?d x = n" and sf: "sound_file ?e x ?p (?fs @ new) n'"
    and sh: "shape n' = shape n" and size: "dsize ?d \<le> dsize ?e" "dsize ?e mod 4096 = 0"
    and new: "\<And>b. b \<in> set new \<Longrightarrow> b \<notin> set (free_blocks s' bs)" "\<And>b. b \<in> set new \<Longrightarrow> b \<in> set (free_blocks s bs) \<or> dsize ?d \<le> unat b"
    and byte: "\<And>a. a < dsize ?d \<Longrightarrow> \<not> in_block ?p a \<Longrightarrow> (\<forall>b \<in> set ?fs. \<not> in_block b a) \<Longrightarrow> byte_at ?e a = byte_at ?d a"
    and finv: "free_inv s' bs" and sub: "set (free_blocks s' bs) \<subseteq> set (free_blocks s bs)" and st: "fs_reserved s' = fs_reserved s"
    using step by (auto simp: file_step_def Let_def)
  have used: "?p \<noteq> 0" using raw_type_used[of ?d x] ft n by auto
  have own: "own_blocks ?d x = ?p # ?fs" using used ft n by (simp add: own_blocks_def)
  have ok: "block_ok ?d b" if "b \<in> set (?p # ?fs)" for b using own_block_ok[OF i(1,3), of b x] that own by simp
  have fe: "file_at ?e ?p (?fs @ new)" using sf by (simp add: sound_file_def roomy_def)
  show fb: "file_blocks ?e ?p = ?fs @ new" by (rule file_blocks_eq[OF file_atD(1)[OF fe]])
  have "\<forall>a < dsize ?d. (\<forall>b \<in> set (own_blocks ?d x). \<not> in_block b a) \<longrightarrow> byte_at ?e a = byte_at ?d a"
    using byte own by simp
  note fr = own_frame[OF inv this]
  note keep = fr(1) and low = fr(2)
  show look: "lookup_at ?e = lookup_at ?d" by (rule lookup_at_cong, rule low) (simp add: config)
  have other: "kept ?d ?e b" if "j \<noteq> x" "b \<in> set (own_blocks ?d j)" for j b
    using i(7)[OF that(1)] that(2) by (intro keep own_block_ok[OF i(1,3) that(2)]) auto
  have self: "inode_at ?e (unat ?p) = n'" using sf by (simp add: sound_file_def)
  have big: "OFFSET_FSINFO \<le> unat ?p" using block_okD(1)[OF ok, of ?p] by (simp add: config)
  show rawe: "raw_by_id ?e j = (if j = x then n' else raw_by_id ?d j)" for j
  proof (cases "lookup_at ?d j = 0 \<or> j = x")
    case True
    then show ?thesis using self big used by (auto simp: raw_by_id_def look Let_def config)
  next
    case False
    then show ?thesis using kept_inode[OF other[of j "lookup_at ?d j"]] own_head[of ?d j] by (simp add: raw_by_id_def look Let_def)
  qed
  show dk: "data_kept ?d ?e x" using other by (simp add: data_kept_def rawe look)
  have "shape (raw_by_id ?e j) = shape (raw_by_id ?d j)" for j using n sh by (simp add: rawe)
  note shp = shape_ok[OF i(1) size(1) look this]
  show "path_map ?e = path_map ?d" using same_names_map[OF pkg_rooted[OF i(1)] pkg_rooted[OF shp(1)] shp(2)] .
  have ty: "i_type n' = i_type n" using sh ident_fields[of n' n] by (simp add: shape_def)
  have own': "own_blocks ?e x = own_blocks ?d x @ new" using used ft ty fb own by (simp add: own_blocks_def look rawe)
  have apart: "b \<notin> set new" if "block_ok ?d b" "b \<notin> set (free_blocks s bs)" for b
    using new(2)[of b] block_okD(4)[OF that(1)] that(2) by auto
  have sole: "sole_entries ?e" using i(2) by (simp add: sole_entries_def shp(3))
  show "pkg_inv s' bs"
  proof (rule pkg_inv_step[OF inv shp(1) sole finv, where x = x])
    show "lookup_at ?e j = lookup_at ?d j \<and> (file_type (i_type (raw_by_id ?d j)) \<longrightarrow> kept ?d ?e (lookup_at ?d j)) \<and>
        i_type (raw_by_id ?e j) = i_type (raw_by_id ?d j)" if "j \<noteq> x" for j
      using that other[OF that own_head] raw_type_used[of ?d j] by (auto simp: look rawe)
    show "sound_file ?e x (lookup_at ?e x) (file_blocks ?e (lookup_at ?e x)) (raw_by_id ?e x)"
      using sf by (simp add: look fb rawe)
    show "set (own_blocks ?e x) \<inter> set (own_blocks ?d j) = {}" if "j \<noteq> x" for j
      using that i(7)[of x j] i(8)[of j] apart own_block_ok[OF i(1,3), of _ j] unfolding own' by auto
    show "set (own_blocks ?e x) \<inter> set (free_blocks s' bs) = {}"
      using i(8)[of x] sub new(1) unfolding own' by auto
    show "set (free_blocks s' bs) \<subseteq> set (free_blocks s bs) \<union> set (own_blocks ?d x)" using sub by blast
  qed (use st i(5) size in auto)
qed

section \<open>What a file changes into\<close>

text \<open>
  The file \<open>x\<close>, which was the inode \<open>n\<close>, is now \<open>n'\<close> and its blocks hold \<open>st\<close>; the package is sound and
  everything else is as it was.
\<close>

definition file_changed :: "fsys \<Rightarrow> u32 list \<Rightarrow> u16 \<Rightarrow> inode \<Rightarrow> byte list \<Rightarrow> fsys \<Rightarrow> bool" where
  "file_changed s bs x n' st s' \<longleftrightarrow> pkg_inv s' bs \<and> path_map (fs_disk s') = path_map (fs_disk s) \<and>
     (\<forall>j. raw_by_id (fs_disk s') j = (if j = x then n' else raw_by_id (fs_disk s) j)) \<and>
     data_kept (fs_disk s) (fs_disk s') x \<and> file_store (fs_disk s') x = st \<and>
     lookup_at (fs_disk s') = lookup_at (fs_disk s) \<and> fs_clock s' = fs_clock s"

lemma file_changed_trans:
  "file_changed s bs x m st t \<Longrightarrow> file_changed t bs x n st' u \<Longrightarrow> file_changed s bs x n st' u"
  unfolding file_changed_def using data_kept_trans by simp blast

lemma file_step_changed:
  assumes "pkg_inv s bs" and "file_step s bs x n new n' s'" and "file_store (fs_disk s') x = st"
  shows "file_changed s bs x n' st s'"
  unfolding file_changed_def
  using file_step_keeps[OF assms(1,2)] assms(2,3) by (simp add: file_step_def Let_def)

section \<open>Writing into the blocks\<close>

lemma wrote_store:
  assumes w: "wrote d fs pos data e" and fa: "file_at d p fs" and range: "pos + length data \<le> 4096 * length fs"
  shows "file_bytes e fs 0 (4096 * length fs) = buf_put pos data (file_bytes d fs 0 (4096 * length fs))"
proof (rule nth_equalityI)
  show "length (file_bytes e fs 0 (4096 * length fs)) = length (buf_put pos data (file_bytes d fs 0 (4096 * length fs)))"
    using range by (simp add: buf_put_def)
  fix j assume "j < length (file_bytes e fs 0 (4096 * length fs))"
  then have j: "j < 4096 * length fs" by simp
  have nth: "file_bytes d fs 0 (4096 * length fs) ! j = byte_at d (data_addr fs j)" if "j < 4096 * length fs" for d j
    using that by (simp add: file_bytes_def)
  show "file_bytes e fs 0 (4096 * length fs) ! j = buf_put pos data (file_bytes d fs 0 (4096 * length fs)) ! j"
  proof (cases "pos \<le> j \<and> j < pos + length data")
    case True
    then obtain k where k: "j = pos + k" "k < length data" using le_Suc_ex by force
    then have "byte_at e (data_addr fs j) = data ! k" using w by (simp add: wrote_def)
    then show ?thesis using k j range by (simp add: nth buf_put_def nth_append)
  next
    case False
    have "data_addr fs j \<noteq> data_addr fs (pos + k)" if "k < length data" for k
      using data_addr_inj[OF file_atD(2,4)[OF fa] j, of "pos + k"] that False range by auto
    then have "byte_at e (data_addr fs j) = byte_at d (data_addr fs j)" using w by (simp add: wrote_def)
    then show ?thesis using False j range nth[OF j] by (auto simp: nth[OF j] buf_put_def nth_append)
  qed
qed

lemma file_step_write:
  assumes inv: "pkg_inv s bs" and n: "raw_by_id (fs_disk s) x = n" "file_type (i_type n)"
    and fs: "file_blocks (fs_disk s) (lookup_at (fs_disk s) x) = fs" and w: "wrote (fs_disk s) fs pos data e"
    and range: "pos + length data \<le> 4096 * length fs"
  shows "file_changed s bs x n (buf_put pos data (file_store (fs_disk s) x)) (s\<lparr>fs_disk := e\<rparr>)"
proof (rule file_step_changed[OF inv])
  let ?d = "fs_disk s" and ?p = "lookup_at (fs_disk s) x"
  note i = pkg_invD[OF inv]
  have sf: "sound_file ?d x ?p fs n" using files_soundD[OF i(3), of x] n fs by simp
  then have fa: "file_at ?d ?p fs" by (simp add: sound_file_def roomy_def)
  note head = wrote_head[OF fa w range]
  have size: "dsize e = dsize ?d" using w by (simp add: wrote_def)
  have out: "byte_at e a = byte_at ?d a" if "\<forall>b \<in> set fs. \<not> in_block b a" for a
  proof -
    have "a \<noteq> data_addr fs (pos + j)" if j: "j < length data" for j
    proof -
      have k: "pos + j < 4096 * length fs" using j range by simp
      show ?thesis using data_addr_block[OF k] \<open>\<forall>b \<in> set fs. \<not> in_block b a\<close> by (auto simp: in_block_def)
    qed
    then show ?thesis using w by (simp add: wrote_def)
  qed
  have "roomy e ?p fs"
    by (rule roomy_cong[of ?d]) (use sf head size in \<open>simp_all add: sound_file_def\<close>)
  moreover have "inode_at e (unat ?p) = n"
    using sf inode_at_cong[of "unat ?p" e ?d] head by (simp add: sound_file_def)
  moreover have "lookup_at e x = ?p"
  proof -
    have "byte_at e a = byte_at ?d a" if "a < OFFSET_FSINFO" for a
    proof (rule out, rule ballI)
      fix b assume "b \<in> set fs"
      then show "\<not> in_block b a" using block_okD(1)[OF file_atD(4)[OF fa]] that by (force simp: in_block_def config)
    qed
    then have "lookup_at e = lookup_at ?d" by (rule lookup_at_cong)
    then show ?thesis by simp
  qed
  ultimately have se: "sound_file e x ?p fs n" using sf by (simp add: sound_file_def)
  have fbe: "file_blocks e ?p = fs"
    by (rule file_blocks_eq) (use se in \<open>simp add: sound_file_def roomy_def file_at_def\<close>)
  have "free_inv (s\<lparr>fs_disk := e\<rparr>) bs"
    by (rule own_frame_free[OF inv, where x = x])
       (use n fs out size raw_type_used[of ?d x] in \<open>auto simp: own_blocks_def\<close>)
  then show "file_step s bs x n [] n (s\<lparr>fs_disk := e\<rparr>)"
    using n fs se size i(6) out by (simp add: file_step_def free_blocks_def)
  show "file_store (fs_disk (s\<lparr>fs_disk := e\<rparr>)) x = buf_put pos data (file_store ?d x)"
    using wrote_store[OF w fa range] se fbe fs by (simp add: file_store_def Let_def sound_file_def)
qed

section \<open>Growing\<close>

text \<open>The package has room for the file \<open>x\<close>, now \<open>n\<close>, to get the length \<open>len\<close>: from the free list's cache, and then from its end.\<close>

definition can_grow :: "fsys \<Rightarrow> inode \<Rightarrow> nat \<Rightarrow> bool" where
  "can_grow s n len \<longleftrightarrow> len \<le> 4096 * 946 \<and>
     dsize (fs_disk s) + 4096 * (ceil_blocks (of_nat len) - ceil_blocks (i_dat_len n) - length (fs_cache s)) \<le> 2 ^ 31"

text \<open>
  The blocks' bytes after the file grew to hold \<open>len\<close> bytes: what they were, and \<open>gap\<close>, the bytes that the blocks from the
  free list have. Without such blocks these are zeros.
\<close>

definition padded :: "(nat \<Rightarrow> byte) \<Rightarrow> u32 \<Rightarrow> byte list \<Rightarrow> byte list" where
  "padded gap len st = st @ map gap [0..<4096 * ceil_blocks len - length st]"

abbreviation zeros :: "nat \<Rightarrow> byte" where
  "zeros \<equiv> \<lambda>_. 0"

definition gap_ok :: "fsys \<Rightarrow> (nat \<Rightarrow> byte) \<Rightarrow> bool" where
  "gap_ok s gap \<longleftrightarrow> (fs_cache s = [] \<longrightarrow> gap = zeros)"

lemma file_step_grow:
  assumes inv: "pkg_inv s bs" and n: "raw_by_id (fs_disk s) x = n" "file_type (i_type n)"
    and longer: "unat (i_dat_len n) < len" and grow: "can_grow s n len"
  shows "\<exists>t gap. truncateFile x (of_nat len) s = Some (E_SUCCESS, t) \<and> fd_tell t = fd_tell s \<and> gap_ok s gap \<and>
    file_changed s bs x (resized (of_nat len) n) (padded gap (of_nat len) (file_store (fs_disk s) x)) t"
proof -
  let ?d = "fs_disk s" and ?p = "lookup_at (fs_disk s) x" and ?len = "of_nat len :: u32"
  let ?fs = "file_blocks ?d ?p"
  note i = pkg_invD[OF inv]
  have g: "len \<le> 4096 * 946" using grow by (simp add: can_grow_def)
  have u: "unat ?len = len" using g by (intro unat_of_nat_small) simp
  have sf: "sound_file ?d x ?p ?fs n" using files_soundD[OF i(3), of x] n by simp
  then have fa: "file_at ?d ?p ?fs" and lfs: "length ?fs = ceil_blocks (i_dat_len n)" by (simp_all add: sound_file_def roomy_def)
  have used: "?p \<noteq> 0" using raw_type_used[of ?d x] n by auto
  have own: "own_blocks ?d x = ?p # ?fs" using used n by (simp add: own_blocks_def)
  have lim: "dsize ?d + 4096 * (ceil_blocks ?len - length ?fs - length (fs_cache s)) \<le> 2 ^ 31" using grow by (simp add: can_grow_def lfs)
  have lt: "i_dat_len n < ?len" "unat ?len \<le> 4096 * 946" using longer u g by (simp_all add: word_less_nat_alt)
  have fresh: "?p \<notin> set (free_blocks s bs)" "set ?fs \<inter> set (free_blocks s bs) = {}" using i(8)[of x] by (auto simp: own)
  obtain t new where t: "truncateFile x ?len s = Some (E_SUCCESS, t)" "sound_file (fs_disk t) x ?p (?fs @ new) (resized ?len n)"
    "length new = ceil_blocks ?len - length ?fs" "free_inv t bs" "fs_cache t = drop (length new) (fs_cache s)"
    "dsize (fs_disk t) = dsize ?d + 4096 * (length new - length (fs_cache s))" "fd_tell t = fd_tell s"
    "fs_reserved t = fs_reserved s" "fs_clock t = fs_clock s"
    and new: "\<And>b. b \<in> set new \<Longrightarrow> b \<notin> set (free_blocks t bs) \<and> (b \<in> snd ` set (fs_cache s) \<or> dsize ?d \<le> unat b)"
    and out: "\<And>a. \<not> in_block ?p a \<Longrightarrow> byte_at (fs_disk t) a = byte_at ?d a"
    using truncateFile_take[OF sf lt i(4) fresh i(6) lim] by metis
  have sub: "set (free_blocks t bs) \<subseteq> set (free_blocks s bs)"
    using image_mono[OF set_drop_subset, of snd "length new" "fs_cache s"] by (auto simp: free_blocks_def t(5))
  have step: "file_step s bs x n new (resized ?len n) t"
    unfolding file_step_def Let_def using n t(2,4,6,8,9) i(6) new out sub
    by (auto simp: shape_def ident_def perms_def resized_def mod_add_eq[symmetric] free_blocks_def)
  note k = file_step_keeps[OF inv step]
  define gap where "gap = (if fs_cache s = [] then (\<lambda>_. 0) else (\<lambda>j. byte_at ?d (data_addr (?fs @ new) (4096 * length ?fs + j))))"
  have fe: "file_at (fs_disk t) ?p (?fs @ new)" using t(2) by (simp add: sound_file_def roomy_def)
  have same: "byte_at (fs_disk t) (data_addr (?fs @ new) j) = byte_at ?d (data_addr (?fs @ new) j)" if "j < 4096 * length (?fs @ new)" for j
    using data_addr_not_head[OF fe that] by (intro out) (auto simp: in_block_def)
  then have old: "byte_at (fs_disk t) (data_addr ?fs j) = byte_at ?d (data_addr ?fs j)" if "j < 4096 * length ?fs" for j
    using same[of j] that by (simp add: data_addr_append)
  have zero: "byte_at ?d (data_addr (?fs @ new) (4096 * length ?fs + j)) = gap j" if j: "j < 4096 * length new" for j
  proof (cases "fs_cache s = []")
    case True
    have l: "4096 * length ?fs + j < 4096 * length (?fs @ new)" using j by simp
    have "(?fs @ new) ! ((4096 * length ?fs + j) div 4096) \<in> set new" using j by (simp add: nth_append less_mult_imp_div_less)
    then have "dsize ?d \<le> unat ((?fs @ new) ! ((4096 * length ?fs + j) div 4096))" using new True by auto
    then show ?thesis using data_addr_block(3)[OF l] True by (simp add: byte_at_def gap_def)
  qed (simp add: gap_def)
  have "file_store (fs_disk t) x = file_bytes (fs_disk t) (?fs @ new) 0 (4096 * length ?fs + 4096 * length new)"
    using k(5,6) by (simp add: file_store_def Let_def add_mult_distrib2)
  also have "\<dots> = file_bytes ?d ?fs 0 (4096 * length ?fs) @ map gap [0..<4096 * length new]"
    unfolding file_bytes_append using same old zero
    by (intro arg_cong2[where f = "(@)"]) (auto intro!: nth_equalityI simp: file_bytes_def data_addr_append)
  also have "\<dots> = padded gap ?len (file_store ?d x)"
    using t(3) by (simp add: padded_def file_store_def Let_def diff_mult_distrib2)
  finally have "file_changed s bs x (resized ?len n) (padded gap ?len (file_store ?d x)) t"
    by (intro file_step_changed[OF inv step]) simp
  moreover have "gap_ok s gap" by (simp add: gap_ok_def gap_def)
  ultimately show ?thesis using t(1,7) by blast
qed

text \<open>The inode and the blocks' bytes after a write of \<open>data\<close> at \<open>pos\<close>, with the growth it may need.\<close>

definition written_inode :: "inode \<Rightarrow> nat \<Rightarrow> inode" where
  "written_inode n len = (if unat (i_dat_len n) < len then resized (of_nat len) n else n)"

definition written_store :: "(nat \<Rightarrow> byte) \<Rightarrow> inode \<Rightarrow> nat \<Rightarrow> byte list \<Rightarrow> byte list \<Rightarrow> byte list" where
  "written_store gap n pos data st =
     buf_put pos data (if unat (i_dat_len n) < pos + length data then padded gap (of_nat (pos + length data)) st else st)"

lemma sound_plain: "pkg_inv s bs \<Longrightarrow> raw_by_id (fs_disk s) x = n \<Longrightarrow> file_type (i_type n) \<Longrightarrow>
    plain_file (fs_disk s) x (lookup_at (fs_disk s) x) (file_blocks (fs_disk s) (lookup_at (fs_disk s) x)) n"
  using sound_file_plain[OF files_soundD[OF pkg_invD(3), of s bs x]] by auto

lemma file_write_inside:
  assumes inv: "pkg_inv s bs" and n: "raw_by_id (fs_disk s) (f_inodeid f) = n" "file_type (i_type n)"
    and ready: "file_ready f" and ne: "data \<noteq> []" and fits: "unat (f_posp f) + length data \<le> unat (i_dat_len n)"
  shows "\<exists>f' s'. file_write data f s = Some (f', s') \<and> file_ready f' \<and>
    file_changed s bs (f_inodeid f) n (buf_put (unat (f_posp f)) data (file_store (fs_disk s) (f_inodeid f))) s'"
proof -
  let ?p = "lookup_at (fs_disk s) (f_inodeid f)"
  let ?fs = "file_blocks (fs_disk s) ?p"
  note pf = sound_plain[OF inv n]
  have len: "unat (i_dat_len n) \<le> 4096 * length ?fs" using pf by (simp add: plain_file_def)
  obtain e where e: "file_write data f s =
      Some (write_done (unat (i_dat_len n)) (unat (f_posp f)) (length data) f, s\<lparr>fs_disk := e\<rparr>)"
    "wrote (fs_disk s) ?fs (unat (f_posp f)) data e"
    using write_plain[OF pf ready ne fits] by metis
  have "file_changed s bs (f_inodeid f) n (buf_put (unat (f_posp f)) data (file_store (fs_disk s) (f_inodeid f))) (s\<lparr>fs_disk := e\<rparr>)"
    by (rule file_step_write[OF inv n refl e(2)]) (use fits len in simp)
  then show ?thesis using e(1) write_done_fields(4)[OF ready] by blast
qed

text \<open>A write that ends behind the file's length is the truncation to that end, and the write.\<close>

lemma file_write_grown:
  assumes ready: "file_ready f" and node: "getINodeByID (f_inodeid f) s = Some (n, s)"
    and tr: "truncateFile (f_inodeid f) (of_nat (unat (f_posp f) + length data)) s = Some (E_SUCCESS, t)"
    and longer: "unat (i_dat_len n) < unat (f_posp f) + length data"
    and node': "getINodeByID (f_inodeid f) t = Some (n', t)" and len: "unat (i_dat_len n') = unat (f_posp f) + length data"
    and same: "fd_tell t = fd_tell s" "lookup_at (fs_disk t) (f_inodeid f) = lookup_at (fs_disk s) (f_inodeid f)"
  shows "file_write data f s = file_write data f t"
  using assms by (simp add: file_write_def file_ready_def file_bad_def file_fail_def file_size_def file_truncate_def Let_def)

lemma file_write_any:
  assumes inv: "pkg_inv s bs" and n: "raw_by_id (fs_disk s) (f_inodeid f) = n" "file_type (i_type n)"
    and ready: "file_ready f" and ne: "data \<noteq> []"
    and room: "unat (i_dat_len n) < unat (f_posp f) + length data \<Longrightarrow> can_grow s n (unat (f_posp f) + length data)"
  shows "\<exists>f' s' gap. file_write data f s = Some (f', s') \<and> file_ready f' \<and> gap_ok s gap \<and>
    file_changed s bs (f_inodeid f) (written_inode n (unat (f_posp f) + length data))
      (written_store gap n (unat (f_posp f)) data (file_store (fs_disk s) (f_inodeid f))) s'"
proof (cases "unat (i_dat_len n) < unat (f_posp f) + length data")
  case False
  moreover have "gap_ok s (\<lambda>_. 0)" by (simp add: gap_ok_def)
  ultimately show ?thesis using file_write_inside[OF inv n ready ne] by (auto simp: written_inode_def written_store_def)
next
  case True
  let ?len = "unat (f_posp f) + length data" and ?x = "f_inodeid f"
  let ?n = "resized (of_nat ?len) n"
  obtain t gap where t: "truncateFile ?x (of_nat ?len) s = Some (E_SUCCESS, t)" "fd_tell t = fd_tell s" "gap_ok s gap"
    "file_changed s bs ?x ?n (padded gap (of_nat ?len) (file_store (fs_disk s) ?x)) t"
    using file_step_grow[OF inv n True room[OF True]] by blast
  have c: "pkg_inv t bs" "raw_by_id (fs_disk t) ?x = ?n" "lookup_at (fs_disk t) ?x = lookup_at (fs_disk s) ?x"
    "file_store (fs_disk t) ?x = padded gap (of_nat ?len) (file_store (fs_disk s) ?x)"
    using t(4) by (simp_all add: file_changed_def)
  have ty: "file_type (i_type ?n)" using n(2) by (simp add: resized_def)
  have "unat (of_nat ?len :: u32) = ?len" using room[OF True] by (intro unat_of_nat_small) (simp add: can_grow_def)
  then have len: "unat (i_dat_len ?n) = ?len" by (simp only: resized_len)
  have eq: "file_write data f s = file_write data f t"
    using plain_file_node[OF sound_plain[OF inv n]] plain_file_node[OF sound_plain[OF c(1,2) ty]] t(2) c(3)
    by (intro file_write_grown[OF ready _ t(1) True _ len]) simp_all
  obtain f' s' where w: "file_write data f t = Some (f', s')" "file_ready f'"
    "file_changed t bs ?x ?n (buf_put (unat (f_posp f)) data (file_store (fs_disk t) ?x)) s'"
    using file_write_inside[OF c(1,2) ty ready ne eq_refl[OF len[symmetric]]] by blast
  have "file_changed s bs ?x (written_inode n ?len) (written_store gap n (unat (f_posp f)) data (file_store (fs_disk s) ?x)) s'"
    using file_changed_trans[OF t(4) w(3)] True c(4) by (simp add: written_inode_def written_store_def)
  then show ?thesis using eq w(1,2) t(3) by auto
qed

section \<open>Cutting\<close>

lemma file_step_cut:
  assumes inv: "pkg_inv s bs" and n: "raw_by_id (fs_disk s) x = n" "file_type (i_type n)" and shorter: "len < i_dat_len n"
  shows "\<exists>t cs. truncateFile x len s = Some (E_SUCCESS, t) \<and>
    file_changed s cs x (resized len n) (take (4096 * ceil_blocks len) (file_store (fs_disk s) x)) t"
proof -
  let ?d = "fs_disk s" and ?p = "lookup_at (fs_disk s) x" and ?k = "ceil_blocks len" and ?n = "resized len n"
  let ?fs = "file_blocks ?d ?p"
  let ?new = "take ?k ?fs" and ?old = "drop ?k ?fs"
  note i = pkg_invD[OF inv]
  have sf: "sound_file ?d x ?p ?fs n" using files_soundD[OF i(3), of x] n by simp
  then have lfs: "length ?fs = ceil_blocks (i_dat_len n)" and fa: "file_at ?d ?p ?fs" by (simp_all add: sound_file_def roomy_def)
  note f = file_atD[OF fa]
  have used: "?p \<noteq> 0" using raw_type_used[of ?d x] n by auto
  have own: "own_blocks ?d x = ?p # ?fs" using used n by (simp add: own_blocks_def)
  have k: "?k \<le> length ?fs" using ceil_blocks_mono[of len "i_dat_len n"] shorter lfs by simp
  have fresh: "?p \<notin> set (free_blocks s bs)" "\<forall>b \<in> set ?fs. b \<notin> set (free_blocks s bs)"
    using i(8)[of x] by (auto simp: own)
  obtain t cs where t: "truncateFile x len s = Some (E_SUCCESS, t)" "released s bs (set ?old) {?p} t cs"
    "inode_at (fs_disk t) (unat ?p) = ?n" "roomy (fs_disk t) ?p ?new"
    using truncateFile_cut[OF sf i(4) fresh shorter] by blast
  let ?e = "fs_disk t" and ?C = "set ?old \<union> {?p} \<union> set bs"
  have ch: "changed_in ?C ?d ?e" and finv: "free_inv t cs" and fb: "set (free_blocks t cs) = set (free_blocks s bs) \<union> set ?old"
    and res: "fs_reserved t = []" and clk: "fs_clock t = fs_clock s"
    using t(2) i(5) by (simp_all add: released_def)
  have bsok: "\<forall>b \<in> set bs. block_ok ?d b \<and> b \<in> set (free_blocks s bs)" using i(4) by (simp add: free_inv_def free_blocks_def)
  have okC: "\<forall>b \<in> ?C. block_ok ?d b" using f(4,5) bsok by (auto dest: in_set_dropD)
  have keep: "kept ?d ?e q" if "block_ok ?d q" "q \<notin> ?C" for q by (rule changed_in_kept[OF ch okC that])
  have look: "lookup_at ?e = lookup_at ?d" by (simp add: fun_eq_iff changed_in_lookup[OF ch okC])
  have size: "dsize ?e = dsize ?d" using ch by (simp add: changed_in_def)
  have other: "kept ?d ?e b" if "j \<noteq> x" "b \<in> set (own_blocks ?d j)" for j b
    using that i(7)[OF that(1)] i(8)[of j] bsok
    by (intro keep own_block_ok[OF i(1,3) that(2)]) (auto simp: own dest: in_set_dropD)
  have big: "OFFSET_FSINFO \<le> unat ?p" using block_okD(1)[OF f(5)] by (simp add: config)
  have raw: "raw_by_id ?e j = (if j = x then ?n else raw_by_id ?d j)" for j
  proof (cases "lookup_at ?d j = 0 \<or> j = x")
    case True
    then show ?thesis using t(3) big used by (auto simp: raw_by_id_def look Let_def config)
  next
    case False
    then show ?thesis using kept_inode[OF other[of j "lookup_at ?d j"]] own_head[of ?d j] by (simp add: raw_by_id_def look Let_def)
  qed
  have dk: "data_kept ?d ?e x" using other by (simp add: data_kept_def raw look)
  have "shape (raw_by_id ?e j) = shape (raw_by_id ?d j)" for j using n by (simp add: raw resized_def shape_def ident_def)
  note shp = shape_ok[OF i(1) eq_refl[OF size[symmetric]] look this]
  have pm: "path_map ?e = path_map ?d" using same_names_map[OF pkg_rooted[OF i(1)] pkg_rooted[OF shp(1)] shp(2)] .
  have fe: "file_at ?e ?p ?new" using t(4) by (simp add: roomy_def)
  have fbe: "file_blocks ?e ?p = ?new" by (rule file_blocks_eq[OF file_atD(1)[OF fe]])
  have se: "sound_file ?e x ?p ?new ?n" using t(3,4) n(2) k by (simp add: sound_file_def look resized_def)
  have own': "own_blocks ?e x = ?p # ?new" using used n by (simp add: own_blocks_def look raw fbe resized_def)
  have apart: "set ?new \<inter> set ?old = {}" using f(2) by (rule set_take_disj_set_drop_if_distinct) simp
  have sub: "set ?new \<subseteq> set ?fs" by (rule set_take_subset)
  have inv': "pkg_inv t cs"
  proof (rule pkg_inv_step[OF inv shp(1) _ finv res, where x = x])
    show "sole_entries ?e" using i(2) by (simp add: sole_entries_def shp(3))
    show "lookup_at ?e j = lookup_at ?d j \<and> (file_type (i_type (raw_by_id ?d j)) \<longrightarrow> kept ?d ?e (lookup_at ?d j)) \<and>
        i_type (raw_by_id ?e j) = i_type (raw_by_id ?d j)" if "j \<noteq> x" for j
      using that other[OF that own_head] raw_type_used[of ?d j] by (auto simp: look raw)
    show "sound_file ?e x (lookup_at ?e x) (file_blocks ?e (lookup_at ?e x)) (raw_by_id ?e x)" using se by (simp add: look fbe raw)
    show "set (own_blocks ?e x) \<inter> set (own_blocks ?d j) = {}" if "j \<noteq> x" for j
      using that i(7)[of x j] sub unfolding own' own by auto
    show "set (own_blocks ?e x) \<inter> set (free_blocks t cs) = {}"
      using fresh f(3) sub apart unfolding own' fb by (auto dest: in_set_dropD)
    show "set (free_blocks t cs) \<subseteq> set (free_blocks s bs) \<union> set (own_blocks ?d x)" unfolding fb own by (auto dest: in_set_dropD)
  qed (use i(6) size in auto)
  have "byte_at ?e (data_addr ?new j) = byte_at ?d (data_addr ?fs j)" if j: "j < 4096 * ?k" for j
  proof -
    have l: "j < 4096 * length ?new" using j k by simp
    have b: "?new ! (j div 4096) \<in> set ?new" by (rule data_addr_block(1)[OF l])
    have "kept ?d ?e (?new ! (j div 4096))"
      using b sub apart f(3,4) fresh(2) bsok by (intro keep) auto
    moreover have "data_addr ?new j = data_addr ?fs j" using l by (simp add: data_addr_def div_less_iff_less_mult)
    ultimately show ?thesis using data_addr_block(3,4)[OF l] by (simp add: kept_def in_block_def)
  qed
  then have "file_store ?e x = take (4096 * ?k) (file_store ?d x)"
    using k by (intro nth_equalityI) (simp_all add: file_store_def Let_def look fbe file_bytes_def)
  then show ?thesis using t(1) inv' pm raw dk look clk unfolding file_changed_def by blast
qed

end
