(* ===== verification/AppFS_Abs.thy ===== *)
theory AppFS_Abs
  imports AppFS_Data
begin

text \<open>
  The abstract package: a map from paths to entries, with the type, the permissions and the contents. A sound package
  without hard links is such a map, and a step that changes one inode changes it at one path.
\<close>

section \<open>Packages without hard links\<close>

definition no_links :: "disk \<Rightarrow> bool" where
  "no_links d \<longleftrightarrow> (\<forall>j. i_type (raw_by_id d j) \<noteq> INT_HARDLINK \<and>
     (i_type (raw_by_id d j) \<in> {INT_FILEINFO, INT_SYMLINK, INT_DEVICE} \<longrightarrow> i_nlink (raw_by_id d j) = 1))"

definition ses_inv :: "fsys \<Rightarrow> u32 list \<Rightarrow> bool" where
  "ses_inv s bs \<longleftrightarrow> pkg_inv s bs \<and> no_links (fs_disk s)"

lemma ses_invD: "ses_inv s bs \<Longrightarrow> pkg_inv s bs" "ses_inv s bs \<Longrightarrow> no_links (fs_disk s)"
  by (simp_all add: ses_inv_def)

lemma no_linksD:
  assumes "no_links d"
  shows "i_type (raw_by_id d j) \<noteq> INT_HARDLINK" and "node_by_id d = raw_by_id d"
    and "i_type (raw_by_id d j) \<in> {INT_FILEINFO, INT_SYMLINK, INT_DEVICE} \<Longrightarrow> i_nlink (raw_by_id d j) = 1"
proof -
  show nl: "i_type (raw_by_id d j) \<noteq> INT_HARDLINK"
    and "i_type (raw_by_id d j) \<in> {INT_FILEINFO, INT_SYMLINK, INT_DEVICE} \<Longrightarrow> i_nlink (raw_by_id d j) = 1" for j
    using assms unfolding no_links_def by blast+
  show "node_by_id d = raw_by_id d" using node_plain[OF nl] by (simp add: fun_eq_iff)
qed

lemma no_links_step:
  assumes nl: "no_links d" and o: "others_same d e x"
    and x: "i_type (raw_by_id e x) \<noteq> INT_HARDLINK"
      "i_type (raw_by_id e x) \<in> {INT_FILEINFO, INT_SYMLINK, INT_DEVICE} \<Longrightarrow> i_nlink (raw_by_id e x) = 1"
  shows "no_links e"
  unfolding no_links_def
proof
  fix j
  show "i_type (raw_by_id e j) \<noteq> INT_HARDLINK \<and>
     (i_type (raw_by_id e j) \<in> {INT_FILEINFO, INT_SYMLINK, INT_DEVICE} \<longrightarrow> i_nlink (raw_by_id e j) = 1)"
  proof (cases "j = x")
    case False
    then have "raw_by_id e j = raw_by_id d j \<or> i_type (raw_by_id e j) = INT_DIRECTORY"
      using o unfolding others_same_def by blast
    then show ?thesis using nl unfolding no_links_def by auto
  qed (use x in simp)
qed

text \<open>What a path leads to.\<close>

lemma plain_last:
  assumes ok: "pkg_ok d" and nl: "no_links d" and n: "locate d (xs @ [x]) = Some n"
  shows "\<exists>q c. locate d xs = Some q \<and> i_type q = INT_DIRECTORY \<and> listed_in d (i_inodeid q) c \<and> n = raw_by_id d c \<and>
    node_name d c = x"
  by (rule locate_last[OF ok n]) (auto simp: no_linksD(2)[OF nl])

lemma plain_root:
  assumes ok: "pkg_ok d" and nl: "no_links d" and n: "locate d [] = Some n"
  shows "n = raw_by_id d 0" and "i_type n = INT_DIRECTORY"
  using n pkg_okD(2)[OF ok] by (simp_all add: locate_def no_linksD(2)[OF nl])

lemma located_plain:
  assumes ok: "pkg_ok d" and nl: "no_links d" and n: "locate d qs = Some n"
  shows "raw_by_id d (i_inodeid n) = n" and "lookup_at d (i_inodeid n) \<noteq> 0" and "i_type n \<in> plain_types" and "i_realid n = 0"
proof -
  note node = no_linksD(2)[OF nl]
  obtain j where j: "n = raw_by_id d j" "i_type n \<noteq> INT_INVALID" using locate_node[OF n] unfolding node by blast
  have u: "lookup_at d j \<noteq> 0" using raw_type_used[of d j] j by simp
  have num: "i_inodeid n = j" using pkg_okD(3)[OF ok u] j(1) by simp
  show "raw_by_id d (i_inodeid n) = n" "lookup_at d (i_inodeid n) \<noteq> 0" using j(1) u num by simp_all
  show ty: "i_type n \<in> plain_types"
  proof (cases qs rule: rev_cases)
    case Nil
    then show ?thesis using plain_root(2)[OF ok nl] n by simp
  next
    case (snoc xs x)
    obtain q :: inode and c where c: "listed_in d (i_inodeid q) c" "n = raw_by_id d c" using plain_last[OF ok nl n[unfolded snoc]] by metis
    then have "tabled_type (i_type (raw_by_id d c))"
      using pkg_okD(4)[OF ok] unfolding listed_in_def dir_sound_def node by blast
    then show ?thesis using no_linksD(1)[OF nl, of c] c(2) by (auto simp: tabled_type_def)
  qed
  have "inode_at d (unat (lookup_at d j)) = n" using raw_used[OF pkg_okD(1)[OF ok] u] j(1) by simp
  then show "i_realid n = 0" using inode_at_wf(4)[of d] ty by metis
qed

lemma located_inj:
  assumes ok: "pkg_ok d" and sole: "sole_entries d" and nl: "no_links d"
    and m: "locate d us = Some m" and n: "locate d vs = Some n" and eq: "i_inodeid m = i_inodeid n"
  shows "us = vs"
proof -
  note pm = located_plain[OF ok nl m] and pn = located_plain[OF ok nl n]
  have mn: "m = n" using trans[OF trans[OF pm(1)[symmetric] arg_cong[OF eq, of "raw_by_id d"]] pn(1)] .
  show ?thesis
  proof (cases "i_type m = INT_DIRECTORY")
    case True
    then show ?thesis using locate_unique[OF ok sole m n eq] mn by simp
  next
    case False
    have "us \<noteq> []" "vs \<noteq> []" using plain_root(2)[OF ok nl] False m n mn by auto
    then obtain xs x ys y where us: "us = xs @ [x]" and vs: "vs = ys @ [y]" using rev_exhaust by metis
    obtain q c where q: "locate d xs = Some q" "i_type q = INT_DIRECTORY" "listed_in d (i_inodeid q) c"
      "m = raw_by_id d c" "node_name d c = x" using plain_last[OF ok nl m[unfolded us]] by metis
    obtain r e where r: "locate d ys = Some r" "i_type r = INT_DIRECTORY" "listed_in d (i_inodeid r) e"
      "n = raw_by_id d e" "node_name d e = y" using plain_last[OF ok nl n[unfolded vs]] by metis
    have used: "i_inodeid (raw_by_id d c) = c" if "listed_in d k c" for k c
      using dir_sound_used[OF pkg_okD(4)[OF ok]] pkg_okD(3)[OF ok] that by (auto simp: listed_in_def)
    have "c = e" using used[OF q(3)] used[OF r(3)] q(4) r(4) mn by simp
    then have "i_inodeid q = i_inodeid r" using sole q(3) r(3) unfolding sole_entries_def by blast
    then have "xs = ys" using locate_unique[OF ok sole q(1) r(1)] q(2) r(2) by simp
    then show ?thesis using us vs q(5) r(5) \<open>c = e\<close> by simp
  qed
qed

section \<open>The abstract package\<close>

record entry =
  en_type :: inodetype
  en_mask :: u16
  en_uid :: u16
  en_gid :: u16
  en_len :: nat
  en_store :: "byte list"
  en_dev :: "u16 \<times> u16"

type_synonym absfs = "byte list list \<Rightarrow> entry option"

text \<open>
  \<open>en_store\<close> is all the bytes in the blocks of a file, of which the first \<open>en_len\<close> are its contents: those behind show
  again when the file grows. \<open>en_dev\<close> holds the numbers of a device.
\<close>

definition entry_at :: "disk \<Rightarrow> u16 \<Rightarrow> entry" where
  "entry_at d j = (let n = raw_by_id d j; f = file_type (i_type n) in
     \<lparr>en_type = i_type n, en_mask = i_mask n, en_uid = i_uid n, en_gid = i_gid n,
      en_len = (if f then unat (i_dat_len n) else 0), en_store = (if f then file_store d j else []),
      en_dev = (if i_type n = INT_DEVICE then (i_dev n, i_rdev n) else (0, 0))\<rparr>)"

definition abs_of :: "disk \<Rightarrow> absfs" where
  "abs_of d qs = map_option (\<lambda>i. entry_at d (fst i)) (path_map d qs)"

lemma abs_of_locate: "abs_of d qs = map_option (\<lambda>n. entry_at d (i_inodeid n)) (locate d qs)"
  by (simp add: abs_of_def path_map_def ident_def option.map_comp o_def)

lemma entry_at_frame:
  assumes o: "others_same d e x" and k: "data_kept d e x" and fsd: "files_sound d" and j: "j \<noteq> x"
  shows "entry_at e j = entry_at d j"
proof -
  note s = others_sameD[OF o j]
  have p: "i_mask (raw_by_id e j) = i_mask (raw_by_id d j)" "i_uid (raw_by_id e j) = i_uid (raw_by_id d j)"
    "i_gid (raw_by_id e j) = i_gid (raw_by_id d j)" using s(2) by (simp_all add: perms_def)
  show ?thesis
  proof (cases "file_type (i_type (raw_by_id d j))")
    case True
    then show ?thesis
      using data_keptD(1)[OF k j True] data_kept_store[OF k j True fsd] by (simp add: entry_at_def)
  next
    case False
    then show ?thesis using s(1,3) p by (cases "i_type (raw_by_id d j) = INT_DEVICE") (simp_all add: entry_at_def Let_def)
  qed
qed

text \<open>A step that changes the inode \<open>x\<close>, and the map of paths at the one path \<open>cs\<close>.\<close>

lemma abs_upd:
  assumes pm: "path_map e = (path_map d)(cs := v)" and fsd: "files_sound d"
    and o: "others_same d e x" and k: "data_kept d e x"
    and only: "\<And>qs n. qs \<noteq> cs \<Longrightarrow> locate d qs = Some n \<Longrightarrow> i_inodeid n \<noteq> x"
  shows "abs_of e = (abs_of d)(cs := map_option (\<lambda>i. entry_at e (fst i)) v)"
proof
  fix qs show "abs_of e qs = ((abs_of d)(cs := map_option (\<lambda>i. entry_at e (fst i)) v)) qs"
  proof (cases "qs = cs")
    case False
    then have "path_map e qs = path_map d qs" by (simp add: pm)
    moreover have "entry_at e (fst i) = entry_at d (fst i)" if i: "path_map d qs = Some i" for i
    proof -
      obtain n where "locate d qs = Some n" "i = ident n" using i unfolding path_map_def map_option_eq_Some by blast
      then show ?thesis using entry_at_frame[OF o k fsd only[OF False]] by (simp add: ident_def)
    qed
    ultimately show ?thesis using False by (cases "path_map d qs") (simp_all add: abs_of_def)
  qed (simp add: abs_of_def pm)
qed

lemma abs_upd_same:
  assumes pm: "path_map e = path_map d" and ok: "pkg_ok d" "sole_entries d" "no_links d" and fsd: "files_sound d"
    and o: "others_same d e x" and k: "data_kept d e x" and n: "locate d cs = Some n" "i_inodeid n = x"
  shows "abs_of e = (abs_of d)(cs \<mapsto> entry_at e x)"
proof -
  have "path_map e = (path_map d)(cs := Some (ident n))" using n(1) by (simp add: pm path_map_def fun_upd_idem)
  from abs_upd[OF this fsd o k] have "abs_of e = (abs_of d)(cs := map_option (\<lambda>i. entry_at e (fst i)) (Some (ident n)))"
    using located_inj[OF ok n(1)] n(2) by metis
  then show ?thesis using n(2) by (simp add: ident_def)
qed

end
