(* ===== verification/AppFS_Effect.thy ===== *)
theory AppFS_Effect
  imports AppFS_Abs
begin

text \<open>
  What a request does to the abstract package: the number it returns, the package after it, and what it answers. This is
  the contract of the callbacks, in terms of paths and bytes only; blocks, numbers of inodes and free lists do not occur.
\<close>

section \<open>The effect of a request\<close>

definition resolve :: "byte list \<Rightarrow> absfs \<Rightarrow> (entry \<Rightarrow> int \<times> absfs) \<Rightarrow> int \<times> absfs" where
  "resolve path A f = (case path_error path of Some e \<Rightarrow> (handleException e, A)
     | None \<Rightarrow> (case A (components path) of None \<Rightarrow> (- 2, A) | Some en \<Rightarrow> f en))"

definition put_at :: "byte list \<Rightarrow> absfs \<Rightarrow> entry \<Rightarrow> int \<times> absfs" where
  "put_at path A en = (0, A(components path \<mapsto> en))"

definition new_entry :: "inodetype \<Rightarrow> cred \<Rightarrow> u32 \<Rightarrow> entry" where
  "new_entry ty cred mode = \<lparr>en_type = ty, en_mask = ucast (extractMaskFromMode mode), en_uid = ucast (fst cred),
     en_gid = ucast (snd cred), en_len = 0, en_store = [], en_dev = (0, 0)\<rparr>"

definition creation :: "byte list \<Rightarrow> entry \<Rightarrow> absfs \<Rightarrow> int \<times> absfs" where
  "creation path en A = (case path_error path of Some e \<Rightarrow> (handleException e, A)
     | None \<Rightarrow> if A (butlast (components path)) = None then (- 2, A)
              else if A (components path) \<noteq> None then (- 17, A)
              else put_at path A en)"

definition has_child :: "absfs \<Rightarrow> byte list list \<Rightarrow> bool" where
  "has_child A cs \<longleftrightarrow> (\<exists>x. A (cs @ [x]) \<noteq> None)"

text \<open>
  Renaming: in a directory with the sticky bit only the owner of the directory or of the entry replaces an entry; a
  directory is replaced when it is empty. Renaming a path to itself removes it and fails.
\<close>

definition sticky :: "cred \<Rightarrow> entry \<Rightarrow> entry \<Rightarrow> bool" where
  "sticky cred p old \<longleftrightarrow> en_mask p AND 0x200 \<noteq> 0 \<and> \<not> (ucast (en_uid old) = fst cred \<or> ucast (en_uid p) = fst cred)"

definition renaming :: "cred \<Rightarrow> byte list \<Rightarrow> byte list \<Rightarrow> absfs \<Rightarrow> int \<times> absfs" where
  "renaming cred src dst A = (let p = components src; q = components dst in
     case path_error dst of Some e \<Rightarrow> (handleException e, A)
     | None \<Rightarrow> case A (butlast q) of None \<Rightarrow> (- 2, A)
     | Some dir \<Rightarrow> if \<exists>old. A q = Some old \<and> sticky cred dir old then (handleException AccessDenied, A)
     else resolve src A (\<lambda>_.
       if \<exists>old. A q = Some old \<and> en_type old = INT_DIRECTORY \<and> has_child A q then (- 39, A)
       else if p = q then (handleException INodeSaveFailed, A(q := None))
       else (0, moved p q A)))"

text \<open>
  One request has no contract here, and \<open>admissible\<close> below leaves it out: \<^verbatim>\<open>link\<close>, after which an inode has two
  paths.
\<close>

text \<open>
  The bytes of whole blocks for a length. A file that grows gets \<open>gap\<close> behind its bytes: zeros in blocks from the end of the
  package, and whatever they hold in blocks that were freed before.
\<close>

definition pad_to :: "(nat \<Rightarrow> byte) \<Rightarrow> nat \<Rightarrow> byte list \<Rightarrow> byte list" where
  "pad_to gap len st = st @ map gap [0..<4096 * ((len + 4095) div 4096) - length st]"

definition fit_to :: "(nat \<Rightarrow> byte) \<Rightarrow> nat \<Rightarrow> byte list \<Rightarrow> byte list" where
  "fit_to gap len st = take (4096 * ((len + 4095) div 4096)) (pad_to gap len st)"

definition write_entry :: "(nat \<Rightarrow> byte) \<Rightarrow> nat \<Rightarrow> byte list \<Rightarrow> entry \<Rightarrow> entry" where
  "write_entry gap off data en = (let len = off + length data in
     en\<lparr>en_len := max (en_len en) len,
        en_store := buf_put off data (if en_len en < len then pad_to gap len (en_store en) else en_store en)\<rparr>)"

definition resize_entry :: "(nat \<Rightarrow> byte) \<Rightarrow> nat \<Rightarrow> entry \<Rightarrow> entry" where
  "resize_entry gap len en = en\<lparr>en_len := len, en_store := fit_to gap len (en_store en)\<rparr>"

fun effect :: "(nat \<Rightarrow> byte) \<Rightarrow> cred \<Rightarrow> request \<Rightarrow> absfs \<Rightarrow> int \<times> absfs" where
  "effect gap cred (Req_create p mode) A = creation p (new_entry INT_FILEINFO cred mode) A"
| "effect gap cred (Req_mkdir p mode) A = creation p (new_entry INT_DIRECTORY cred mode) A"
| "effect gap cred (Req_unlink p) A = resolve p A (\<lambda>en.
     if en_type en = INT_DIRECTORY then (- 21, A) else (0, A(components p := None)))"
| "effect gap cred (Req_rmdir p) A = resolve p A (\<lambda>en.
     if en_type en \<noteq> INT_DIRECTORY then (- 20, A)
     else if has_child A (components p) then (- 39, A) else (0, A(components p := None)))"
| "effect gap cred (Req_chmod p mode) A = resolve p A (\<lambda>en. put_at p A (en\<lparr>en_mask := ucast (extractMaskFromMode mode)\<rparr>))"
| "effect gap cred (Req_chown p u g) A = resolve p A (\<lambda>en. put_at p A
     (en\<lparr>en_uid := if u = - 1 then en_uid en else ucast u, en_gid := if g = - 1 then en_gid en else ucast g\<rparr>))"
| "effect gap cred (Req_readdir p) A = resolve p A (\<lambda>en. (if en_type en = INT_DIRECTORY then 0 else - 20, A))"
| "effect gap cred (Req_read p out n off) A =
     (if too_big off n then (- 27, A)
      else resolve p A (\<lambda>en. (if file_type (en_type en) then int (min n (en_len en - nat off)) else - 5, A)))"
| "effect gap cred (Req_write p data off) A =
     (if too_big off (length data) then (- 27, A)
      else resolve p A (\<lambda>en. if file_type (en_type en)
        then (int (length data), A(components p \<mapsto> write_entry gap (nat off) data en)) else (- 5, A)))"
| "effect gap cred (Req_truncate p sz) A =
     (if sz > int MSIZE_FILE then (- 27, A)
      else resolve p A (\<lambda>en. if file_type (en_type en) then put_at p A (resize_entry gap (nat sz) en) else (- 5, A)))"
| "effect gap cred (Req_getattr p) A = resolve p A (\<lambda>_. (0, A))"
| "effect gap cred (Req_open p) A = resolve p A (\<lambda>_. (0, A))"
| "effect gap cred (Req_utimens p a mt) A = resolve p A (\<lambda>_. (0, A))"
| "effect gap cred (Req_symlink target p) A = (case creation p (new_entry INT_SYMLINK cred 0x1ED) A of
     (n, B) \<Rightarrow> if n < 0 then (n, A) else put_at p B (write_entry gap 0 target (new_entry INT_SYMLINK cred 0x1ED)))"
| "effect gap cred (Req_readlink p k out) A = resolve p A (\<lambda>en. (if en_type en = INT_SYMLINK then 0 else - 95, A))"
| "effect gap cred (Req_mknod p mode mj mn) A = creation p ((new_entry INT_DEVICE cred mode)\<lparr>en_dev := (of_nat mn, of_nat mj)\<rparr>) A"
| "effect gap cred (Req_rename p q) A = renaming cred p q A"
| "effect gap cred (Req_link target p) A = (0, A)"

text \<open>What a request answers besides the number.\<close>

fun type_bits :: "inodetype \<Rightarrow> u32" where
  "type_bits INT_FILEINFO = S_IFREG"
| "type_bits INT_SYMLINK = S_IFLNK"
| "type_bits INT_DIRECTORY = S_IFDIR"
| "type_bits _ = 0"

definition shows_entry :: "stat \<Rightarrow> entry \<Rightarrow> bool" where
  "shows_entry st en \<longleftrightarrow> st_mode st = type_bits (en_type en) OR ucast (en_mask en) \<and> st_uid st = en_uid en \<and>
     st_gid st = en_gid en \<and> (file_type (en_type en) \<longrightarrow> st_size st = of_nat (en_len en)) \<and>
     (en_type en = INT_DIRECTORY \<longrightarrow> st_size st = 4096) \<and> (en_type en = INT_DEVICE \<longrightarrow> (st_dev st, st_rdev st) = en_dev en)"

fun answers :: "request \<Rightarrow> absfs \<Rightarrow> int \<Rightarrow> reply \<Rightarrow> bool" where
  "answers (Req_getattr p) A n rep = (if n = 0 then \<exists>st en. rep = Rep_stat (Some st) \<and> A (components p) = Some en \<and> shows_entry st en
     else rep = Rep_stat None)"
| "answers (Req_readdir p) A n rep = (if n = 0
     then \<exists>ns. rep = Rep_names ([[0x2E], [0x2E, 0x2E]] @ ns) \<and> distinct ns \<and> set ns = {x. A (components p @ [x]) \<noteq> None}
     else rep = Rep_names [])"
| "answers (Req_read p out k off) A n rep = (if n < 0 then rep = Rep_buffer out
     else \<exists>en. A (components p) = Some en \<and>
       rep = Rep_buffer (take (nat n) (drop (nat off) (en_store en)) @ drop (nat n) out))"
| "answers (Req_readlink p k out) A n rep = (if n < 0 then rep = Rep_buffer out
     else \<exists>en. A (components p) = Some en \<and> (let t = cstr (take (en_len en) (en_store en))
       in rep = Rep_buffer (take k t @ replicate (k - length t) 0 @ drop k out)))"
| "answers _ A n rep = (rep = Rep_none)"

section \<open>The requests with a contract\<close>

definition on_node :: "disk \<Rightarrow> byte list \<Rightarrow> (inode \<Rightarrow> bool) \<Rightarrow> bool" where
  "on_node d path P \<longleftrightarrow> (\<forall>n. path_error path = None \<longrightarrow> locate d (components path) = Some n \<longrightarrow> P n)"

text \<open>
  Creating needs a directory with a free slot, room for the inode and a free number; without them the package does not
  stay sound. The root has no parent to create or remove it in.
\<close>

definition creatable :: "fsys \<Rightarrow> byte list \<Rightarrow> bool" where
  "creatable s path \<longleftrightarrow> components path \<noteq> [] \<and>
     (\<forall>pn. path_error path = None \<longrightarrow> locate (fs_disk s) (butlast (components path)) = Some pn \<longrightarrow>
        locate (fs_disk s) (components path) = None \<longrightarrow> i_type pn = INT_DIRECTORY \<and> 0 \<in> set (i_children pn) \<and> has_room s)"

text \<open>
  Renaming needs the same of a directory that the entry is new in. A directory is not moved behind itself, which the code
  does not check.
\<close>

definition renamable :: "fsys \<Rightarrow> byte list \<Rightarrow> byte list \<Rightarrow> bool" where
  "renamable s src dst \<longleftrightarrow> (let p = components src; q = components dst in
     p \<noteq> [] \<and> q \<noteq> [] \<and> \<not> path_under p (butlast q) \<and>
     (\<forall>dir. path_error dst = None \<longrightarrow> locate (fs_disk s) (butlast q) = Some dir \<longrightarrow>
        i_type dir = INT_DIRECTORY \<and> (butlast p \<noteq> butlast q \<longrightarrow> locate (fs_disk s) q = None \<longrightarrow> 0 \<in> set (i_children dir))))"

fun admissible :: "fsys \<Rightarrow> request \<Rightarrow> bool" where
  "admissible s (Req_create p mode) = creatable s p"
| "admissible s (Req_mkdir p mode) = creatable s p"
| "admissible s (Req_unlink p) = (components p \<noteq> [])"
| "admissible s (Req_rmdir p) = (components p \<noteq> [])"
| "admissible s (Req_symlink target p) = (creatable s p \<and> target \<noteq> [] \<and> length target \<le> 4096 * 946 \<and>
     dsize (fs_disk s) + 4096 * (1 + ceil_blocks (of_nat (length target)) - length (fs_cache s)) \<le> 2 ^ 31)"
| "admissible s (Req_readlink p k out) = on_node (fs_disk s) p (\<lambda>n. i_type n = INT_SYMLINK \<longrightarrow> i_dat_len n \<noteq> 0)"
| "admissible s (Req_read p out k off) = (0 \<le> off \<and> 0 < k \<and> k < 2 ^ 32 \<and> k \<le> length out \<and>
     (\<not> too_big off k \<longrightarrow> on_node (fs_disk s) p (\<lambda>n. file_type (i_type n) \<longrightarrow> nat off < unat (i_dat_len n))))"
| "admissible s (Req_write p data off) = (0 \<le> off \<and> data \<noteq> [] \<and> (\<not> too_big off (length data) \<longrightarrow>
     on_node (fs_disk s) p (\<lambda>n. file_type (i_type n) \<longrightarrow> unat (i_dat_len n) < nat off + length data \<longrightarrow>
       can_grow s n (nat off + length data))))"
| "admissible s (Req_truncate p sz) = (0 \<le> sz \<and> (sz \<le> int MSIZE_FILE \<longrightarrow>
     on_node (fs_disk s) p (\<lambda>n. file_type (i_type n) \<longrightarrow> unat (i_dat_len n) < nat sz \<longrightarrow> can_grow s n (nat sz))))"
| "admissible s (Req_mknod p mode mj mn) = creatable s p"
| "admissible s (Req_rename p q) = renamable s p q"
| "admissible s (Req_link target p) = False"
| "admissible s _ = True"

end
