(* ===== verification/AppFS_Steps.thy ===== *)
theory AppFS_Steps
  imports AppFS_Effect
begin

text \<open>
  The operations on the package as steps of the abstract one: a step keeps the invariant and changes the map from paths to
  entries as \<open>effect\<close> says.
\<close>

section \<open>Entries\<close>

lemma entry_located:
  assumes ok: "pkg_ok d" and nl: "no_links d" and n: "locate d qs = Some n"
  shows "entry_at d (i_inodeid n) = \<lparr>en_type = i_type n, en_mask = i_mask n, en_uid = i_uid n, en_gid = i_gid n,
    en_len = (if file_type (i_type n) then unat (i_dat_len n) else 0),
    en_store = (if file_type (i_type n) then file_store d (i_inodeid n) else []),
    en_dev = (if i_type n = INT_DEVICE then (i_dev n, i_rdev n) else (0, 0))\<rparr>"
  by (simp only: entry_at_def Let_def located_plain(1)[OF assms])

lemma abs_resolve:
  "resolve path (abs_of d) f = (case path_error path of Some e \<Rightarrow> (handleException e, abs_of d)
     | None \<Rightarrow> (case locate d (components path) of None \<Rightarrow> (- 2, abs_of d) | Some n \<Rightarrow> f (entry_at d (i_inodeid n))))"
  by (simp add: resolve_def abs_of_locate split: option.split)

lemma abs_none: "abs_of d qs = None \<longleftrightarrow> locate d qs = None"
  by (simp add: abs_of_locate)

section \<open>Attributes\<close>

lemma touch_fields:
  "\<exists>t k. touch_field b modes (\<lambda>t. i_atime_update (\<lambda>_. t)) c s = Some (Inr (c\<lparr>i_atime := t\<rparr>), s\<lparr>fs_ticks := k\<rparr>)"
  "\<exists>t k. touch_field b modes (\<lambda>t. i_mtime_update (\<lambda>_. t)) c s = Some (Inr (c\<lparr>i_mtime := t\<rparr>), s\<lparr>fs_ticks := k\<rparr>)"
  "\<exists>t k. touch_field b modes (\<lambda>t. i_ctime_update (\<lambda>_. t)) c s = Some (Inr (c\<lparr>i_ctime := t\<rparr>), s\<lparr>fs_ticks := k\<rparr>)"
proof -
  have same: "\<exists>k. s = s\<lparr>fs_ticks := k\<rparr>" "\<exists>t. c = c\<lparr>i_atime := t\<rparr>" "\<exists>t. c = c\<lparr>i_mtime := t\<rparr>" "\<exists>t. c = c\<lparr>i_ctime := t\<rparr>"
    by (rule exI[of _ "fs_ticks s"], simp) (rule exI[of _ "i_atime c"], simp, rule exI[of _ "i_mtime c"], simp, rule exI[of _ "i_ctime c"], simp)
  show "\<exists>t k. touch_field b modes (\<lambda>t. i_atime_update (\<lambda>_. t)) c s = Some (Inr (c\<lparr>i_atime := t\<rparr>), s\<lparr>fs_ticks := k\<rparr>)"
    "\<exists>t k. touch_field b modes (\<lambda>t. i_mtime_update (\<lambda>_. t)) c s = Some (Inr (c\<lparr>i_mtime := t\<rparr>), s\<lparr>fs_ticks := k\<rparr>)"
    "\<exists>t k. touch_field b modes (\<lambda>t. i_ctime_update (\<lambda>_. t)) c s = Some (Inr (c\<lparr>i_ctime := t\<rparr>), s\<lparr>fs_ticks := k\<rparr>)"
    by (simp_all add: touch_field_def bindE_def getTime_eq ret_def) (use same in blast)+
qed

lemma touchINode_times:
  "\<exists>at mt ct k. touchINode c modes s = Some (Inr (c\<lparr>i_atime := at, i_mtime := mt, i_ctime := ct\<rparr>), s\<lparr>fs_ticks := k\<rparr>)"
proof -
  obtain x k1 where 1: "touch_field 0x61 modes (\<lambda>t. i_atime_update (\<lambda>_. t)) c s = Some (Inr (c\<lparr>i_atime := x\<rparr>), s\<lparr>fs_ticks := k1\<rparr>)"
    using touch_fields(1) by blast
  let ?c1 = "c\<lparr>i_atime := x\<rparr>" and ?s1 = "s\<lparr>fs_ticks := k1\<rparr>"
  obtain y k2 where 2: "touch_field 0x6D modes (\<lambda>t. i_mtime_update (\<lambda>_. t)) ?c1 ?s1 = Some (Inr (?c1\<lparr>i_mtime := y\<rparr>), ?s1\<lparr>fs_ticks := k2\<rparr>)"
    using touch_fields(2) by blast
  let ?c2 = "?c1\<lparr>i_mtime := y\<rparr>" and ?s2 = "?s1\<lparr>fs_ticks := k2\<rparr>"
  obtain z k3 where 3: "touch_field 0x63 modes (\<lambda>t. i_ctime_update (\<lambda>_. t)) ?c2 ?s2 = Some (Inr (?c2\<lparr>i_ctime := z\<rparr>), ?s2\<lparr>fs_ticks := k3\<rparr>)"
    using touch_fields(3) by blast
  have "touchINode c modes s = Some (Inr (?c2\<lparr>i_ctime := z\<rparr>), ?s2\<lparr>fs_ticks := k3\<rparr>)"
    unfolding touchINode_def bindE_def 1 by (simp only: option.case sum.case prod.case 2 3)
  then show ?thesis by auto
qed

lemma ses_inv_time: "ses_inv s bs \<Longrightarrow> ses_inv (s\<lparr>fs_ticks := k\<rparr>) bs"
  using pkg_inv_time by (simp add: ses_inv_def)

lemma ses_facts:
  assumes "ses_inv s bs"
  shows "pkg_inv s bs" "pkg_ok (fs_disk s)" "sole_entries (fs_disk s)" "files_sound (fs_disk s)" "no_links (fs_disk s)" "rooted (fs_disk s)"
  using ses_invD[OF assms] pkg_invD[OF ses_invD(1)[OF assms]] pkg_rooted by blast+

text \<open>An inode changed at the path that leads to it.\<close>

lemma ses_change:
  assumes ses: "ses_inv s bs" and inv: "pkg_inv s' bs'" and pm: "path_map (fs_disk s') = path_map (fs_disk s)"
    and raw: "\<And>j. raw_by_id (fs_disk s') j = (if j = i_inodeid n then n' else raw_by_id (fs_disk s) j)"
    and k: "data_kept (fs_disk s) (fs_disk s') (i_inodeid n)" and n: "locate (fs_disk s) cs = Some n"
    and same: "i_type n' = i_type n" "i_nlink n' = i_nlink n"
  shows "ses_inv s' bs'" and "abs_of (fs_disk s') = (abs_of (fs_disk s))(cs \<mapsto> entry_at (fs_disk s') (i_inodeid n))"
proof -
  note f = ses_facts[OF ses] and l = located_plain[OF ses_facts(2,5)[OF ses] n]
  have o: "others_same (fs_disk s) (fs_disk s') (i_inodeid n)" by (simp add: others_same_def raw)
  have "no_links (fs_disk s')"
    by (rule no_links_step[OF f(5) o]) (use l(3) no_linksD(3)[OF f(5), of "i_inodeid n"] l(1) same in \<open>auto simp: raw\<close>)
  then show "ses_inv s' bs'" using inv by (simp add: ses_inv_def)
  show "abs_of (fs_disk s') = (abs_of (fs_disk s))(cs \<mapsto> entry_at (fs_disk s') (i_inodeid n))"
    by (rule abs_upd_same[OF pm f(2,3,5,4) o k n refl])
qed

lemma updated_kept:
  assumes u: "updated s bs n' s'" and inv: "pkg_inv s bs" and l: "lookup_at (fs_disk s) (i_inodeid n') \<noteq> 0"
  shows "data_kept (fs_disk s) (fs_disk s') (i_inodeid n')"
    and "file_type (i_type (raw_by_id (fs_disk s) (i_inodeid n'))) \<Longrightarrow> i_type n' = i_type (raw_by_id (fs_disk s) (i_inodeid n')) \<Longrightarrow>
      file_store (fs_disk s') (i_inodeid n') = file_store (fs_disk s) (i_inodeid n')"
proof -
  let ?d = "fs_disk s" and ?e = "fs_disk s'" and ?x = "i_inodeid n'"
  note i = pkg_invD[OF inv]
  have look: "lookup_at ?e = lookup_at ?d" and own: "own_blocks ?e = own_blocks ?d"
    and raw: "\<And>j. raw_by_id ?e j = (if j = ?x then n' else raw_by_id ?d j)"
    and keep: "\<And>j b. b \<in> set (own_blocks ?d j) \<Longrightarrow> b \<noteq> lookup_at ?d ?x \<Longrightarrow> kept ?d ?e b"
    using u by (simp_all add: updated_def)
  have "lookup_at ?d ?x \<notin> set (own_blocks ?d j)" if "j \<noteq> ?x" for j using i(7)[OF that] own_head[OF l] by blast
  then show "data_kept ?d ?e ?x" using keep unfolding data_kept_def by (auto simp: look raw)
  assume ty: "file_type (i_type (raw_by_id ?d ?x))" "i_type n' = i_type (raw_by_id ?d ?x)"
  let ?fs = "file_blocks ?d (lookup_at ?d ?x)"
  have sf: "sound_file ?d ?x (lookup_at ?d ?x) ?fs (raw_by_id ?d ?x)" by (rule files_soundD[OF i(3) ty(1)])
  then have fa: "file_at ?d (lookup_at ?d ?x) ?fs" by (simp add: sound_file_def roomy_def)
  have o: "own_blocks ?d ?x = lookup_at ?d ?x # ?fs" "own_blocks ?e ?x = lookup_at ?d ?x # file_blocks ?e (lookup_at ?d ?x)"
    using l ty by (simp_all add: own_blocks_def look raw)
  show "file_store ?e ?x = file_store ?d ?x"
  proof (rule file_store_cong[OF _ fa])
    show "file_blocks ?e (lookup_at ?d ?x) = ?fs" using o own by simp
    show "kept ?d ?e b" if "b \<in> set ?fs" for b
      by (rule keep[of _ ?x]) (use that o(1) file_atD(3)[OF fa] in auto)
  qed (simp add: look)
qed

lemma attrs_step:
  assumes ses: "ses_inv s bs" and n: "locate (fs_disk s) cs = Some n"
  shows "\<exists>s'. saveINode (attrs m u g at mt ct n) s = Some (Inr (), s') \<and> ses_inv s' bs \<and> fs_cache s' = fs_cache s \<and>
    dsize (fs_disk s') = dsize (fs_disk s) \<and> locate (fs_disk s') cs = Some (attrs m u g at mt ct n) \<and>
    abs_of (fs_disk s') = (abs_of (fs_disk s))
      (cs \<mapsto> (entry_at (fs_disk s) (i_inodeid n))\<lparr>en_mask := m, en_uid := u, en_gid := g\<rparr>)"
proof -
  note f = ses_facts[OF ses] and l = located_plain[OF ses_facts(2,5)[OF ses] n]
  let ?n = "attrs m u g at mt ct n" and ?d = "fs_disk s"
  obtain s' where s': "saveINode ?n s = Some (Inr (), s')" "updated s bs ?n s'"
    using saveINode_attrs[OF f(1) l(2,1,3)] by blast
  have u: "pkg_inv s' bs" "path_map (fs_disk s') = path_map ?d" "fs_cache s' = fs_cache s" "dsize (fs_disk s') = dsize ?d"
    "\<And>j. raw_by_id (fs_disk s') j = (if j = i_inodeid n then ?n else raw_by_id ?d j)"
    using s'(2) by (simp_all add: updated_def)
  note k = updated_kept[OF s'(2) f(1), unfolded attrs_simps, OF l(2)]
  have nl: "i_nlink ?n = i_nlink n" by simp
  note c = ses_change[OF ses u(1,2,5) k(1) n attrs_simps(1) nl]
  note f' = ses_facts[OF c(1)]
  have "entry_at (fs_disk s') (i_inodeid n) = (entry_at ?d (i_inodeid n))\<lparr>en_mask := m, en_uid := u, en_gid := g\<rparr>"
    using k(2) unfolding l(1) entry_located[OF f(2,5) n] by (simp add: entry_at_def Let_def u(5))
  moreover have "map_option ident (locate (fs_disk s') cs) = Some (ident n)"
    using n unfolding path_map_def[symmetric] u(2) by (simp add: path_map_def)
  then obtain n2 where n2: "locate (fs_disk s') cs = Some n2" "ident n2 = ident n" unfolding map_option_eq_Some by blast
  have "i_inodeid n2 = i_inodeid n" using ident_fields[OF n2(2)] by blast
  then have "n2 = ?n" using located_plain(1)[OF f'(2,5) n2(1)] by (simp add: u(5))
  ultimately show ?thesis using s'(1) c u(3,4) n2(1) by (intro exI[of _ s'] conjI) simp_all
qed

section \<open>Operations that obey their contract\<close>

fun number :: "exn + 'a \<Rightarrow> int" where
  "number (Inl e) = handleException e"
| "number (Inr x) = 0"

definition obeys :: "cred \<Rightarrow> request \<Rightarrow> fsys \<Rightarrow> unit act \<Rightarrow> bool" where
  "obeys cred req s op \<longleftrightarrow> (\<exists>r s' bs gap. op s = Some (r, s') \<and> ses_inv s' bs \<and> gap_ok s gap \<and>
     effect gap cred req (abs_of (fs_disk s)) = (number r, abs_of (fs_disk s')))"

lemma obeysI_gap:
  "op s = Some (r, s') \<Longrightarrow> ses_inv s' bs \<Longrightarrow> effect gap cred req (abs_of (fs_disk s)) = (number r, abs_of (fs_disk s')) \<Longrightarrow>
   gap_ok s gap \<Longrightarrow> obeys cred req s op"
  unfolding obeys_def by blast

lemma obeysI:
  "op s = Some (r, s') \<Longrightarrow> ses_inv s' bs \<Longrightarrow> effect zeros cred req (abs_of (fs_disk s)) = (number r, abs_of (fs_disk s')) \<Longrightarrow>
   obeys cred req s op"
  by (rule obeysI_gap[where gap = zeros]) (assumption | simp add: gap_ok_def)+

text \<open>An operation that begins with finding the inode of its path.\<close>

lemma need_cases:
  assumes "ses_inv s bs"
  shows "path_error path = Some e \<Longrightarrow> bindE (need (retrievePathToINode path)) k s = Some (Inl e, s)"
    and "path_error path = None \<Longrightarrow> locate (fs_disk s) (components path) = None \<Longrightarrow>
      bindE (need (retrievePathToINode path)) k s = Some (Inl FileNotFound, s)"
    and "path_error path = None \<Longrightarrow> locate (fs_disk s) (components path) = Some n \<Longrightarrow>
      bindE (need (retrievePathToINode path)) k s = k n s"
  by (simp_all add: bindE_def rooted_need(1)[OF ses_facts(6)[OF assms]])

lemma exists_need:
  assumes "ses_inv s bs"
  shows "seqE (ensurePathExists path) (bindE (need (retrievePathToINode path)) k) s = bindE (need (retrievePathToINode path)) k s"
proof -
  note ro = ses_facts(6)[OF assms]
  show ?thesis
    by (simp add: seqE_def bindE_def ensurePathExists_eq[OF ro] rooted_need(1)[OF ro] split: option.split)
qed

lemma obeys_path_gap:
  assumes ses: "ses_inv s bs"
    and bad: "\<And>e. path_error path = Some e \<Longrightarrow> op s = Some (Inl e, s)"
    and none: "path_error path = None \<Longrightarrow> locate (fs_disk s) (components path) = None \<Longrightarrow> op s = Some (Inl FileNotFound, s)"
    and G: "zeros \<in> G" "\<And>gap. gap \<in> G \<Longrightarrow> gap_ok s gap"
    and eff: "\<And>gap. gap \<in> G \<Longrightarrow> effect gap cred req (abs_of (fs_disk s)) = resolve path (abs_of (fs_disk s)) (f gap)"
    and found: "\<And>n. path_error path = None \<Longrightarrow> locate (fs_disk s) (components path) = Some n \<Longrightarrow>
      \<exists>r s' bs'. op s = Some (r, s') \<and> ses_inv s' bs' \<and>
        (\<exists>gap \<in> G. f gap (entry_at (fs_disk s) (i_inodeid n)) = (number r, abs_of (fs_disk s')))"
  shows "obeys cred req s op"
proof (cases "path_error path")
  case (Some e)
  then show ?thesis using bad[OF Some] ses by (intro obeysI[of op s "Inl e" s bs]) (simp_all add: eff[OF G(1)] abs_resolve)
next
  case None
  show ?thesis
  proof (cases "locate (fs_disk s) (components path)")
    case N: None
    then show ?thesis
      using none[OF None N] ses None by (intro obeysI[of op s "Inl FileNotFound" s bs]) (simp_all add: eff[OF G(1)] abs_resolve)
  next
    case (Some n)
    obtain r s' bs' gap where "op s = Some (r, s')" "ses_inv s' bs'" and g: "gap \<in> G"
      and "f gap (entry_at (fs_disk s) (i_inodeid n)) = (number r, abs_of (fs_disk s'))"
      using found[OF None Some] by blast
    then show ?thesis using None Some by (intro obeysI_gap[of op s r s' bs' gap]) (simp_all add: eff[OF g] G(2)[OF g] abs_resolve)
  qed
qed

lemma obeys_path:
  assumes ses: "ses_inv s bs"
    and bad: "\<And>e. path_error path = Some e \<Longrightarrow> op s = Some (Inl e, s)"
    and none: "path_error path = None \<Longrightarrow> locate (fs_disk s) (components path) = None \<Longrightarrow> op s = Some (Inl FileNotFound, s)"
    and eff: "effect zeros cred req (abs_of (fs_disk s)) = resolve path (abs_of (fs_disk s)) f"
    and found: "\<And>n. path_error path = None \<Longrightarrow> locate (fs_disk s) (components path) = Some n \<Longrightarrow>
      \<exists>r s' bs'. op s = Some (r, s') \<and> ses_inv s' bs' \<and> f (entry_at (fs_disk s) (i_inodeid n)) = (number r, abs_of (fs_disk s'))"
  shows "obeys cred req s op"
  by (rule obeys_path_gap[where G = "{zeros}" and f = "\<lambda>_. f", OF ses]) (use bad none eff found in \<open>simp_all add: gap_ok_def\<close>)

lemma obeys_need:
  assumes ses: "ses_inv s bs" and op: "op s = bindE (need (retrievePathToINode path)) k s"
    and eff: "effect zeros cred req (abs_of (fs_disk s)) = resolve path (abs_of (fs_disk s)) f"
    and k: "\<And>n. path_error path = None \<Longrightarrow> locate (fs_disk s) (components path) = Some n \<Longrightarrow>
      \<exists>r s' bs'. k n s = Some (r, s') \<and> ses_inv s' bs' \<and> f (entry_at (fs_disk s) (i_inodeid n)) = (number r, abs_of (fs_disk s'))"
  shows "obeys cred req s op"
  by (rule obeys_path[OF ses _ _ eff]) (simp_all only: op need_cases[OF ses] k)

lemma obeys_need_gap:
  assumes ses: "ses_inv s bs" and op: "op s = bindE (need (retrievePathToINode path)) k s"
    and eff: "\<And>gap. effect gap cred req (abs_of (fs_disk s)) = resolve path (abs_of (fs_disk s)) (f gap)"
    and k: "\<And>n. path_error path = None \<Longrightarrow> locate (fs_disk s) (components path) = Some n \<Longrightarrow>
      \<exists>r s' bs'. k n s = Some (r, s') \<and> ses_inv s' bs' \<and>
        (\<exists>gap. gap_ok s gap \<and> f gap (entry_at (fs_disk s) (i_inodeid n)) = (number r, abs_of (fs_disk s')))"
  shows "obeys cred req s op"
proof (rule obeys_path_gap[where G = "{gap. gap_ok s gap}" and f = f, OF ses])
  show "zeros \<in> {gap. gap_ok s gap}" by (simp add: gap_ok_def)
  fix n assume n: "path_error path = None" "locate (fs_disk s) (components path) = Some n"
  show "\<exists>r s' bs'. op s = Some (r, s') \<and> ses_inv s' bs' \<and>
      (\<exists>gap \<in> {gap. gap_ok s gap}. f gap (entry_at (fs_disk s) (i_inodeid n)) = (number r, abs_of (fs_disk s')))"
    unfolding op need_cases(3)[OF ses n] using k[OF n] by simp
qed (simp_all only: op need_cases[OF ses] eff mem_Collect_eq)

lemma touch_save:
  assumes ses: "ses_inv s bs" and n: "locate (fs_disk s) cs = Some n"
  shows "\<exists>s' n'. bindE (touchINode (n\<lparr>i_mask := m, i_uid := u, i_gid := g\<rparr>) modes) saveINode s = Some (Inr (), s') \<and> ses_inv s' bs \<and>
    fs_cache s' = fs_cache s \<and> dsize (fs_disk s') = dsize (fs_disk s) \<and> locate (fs_disk s') cs = Some n' \<and>
    i_type n' = i_type n \<and> i_inodeid n' = i_inodeid n \<and> i_dat_len n' = i_dat_len n \<and>
    abs_of (fs_disk s') = (abs_of (fs_disk s))
      (cs \<mapsto> (entry_at (fs_disk s) (i_inodeid n))\<lparr>en_mask := m, en_uid := u, en_gid := g\<rparr>)"
proof -
  obtain at mt ct k where t: "touchINode (n\<lparr>i_mask := m, i_uid := u, i_gid := g\<rparr>) modes s =
      Some (Inr (n\<lparr>i_mask := m, i_uid := u, i_gid := g\<rparr>\<lparr>i_atime := at, i_mtime := mt, i_ctime := ct\<rparr>), s\<lparr>fs_ticks := k\<rparr>)"
    using touchINode_times by blast
  have a: "n\<lparr>i_mask := m, i_uid := u, i_gid := g\<rparr>\<lparr>i_atime := at, i_mtime := mt, i_ctime := ct\<rparr> = attrs m u g at mt ct n"
    by (simp add: attrs_def)
  have d: "fs_disk (s\<lparr>fs_ticks := k\<rparr>) = fs_disk s" "fs_cache (s\<lparr>fs_ticks := k\<rparr>) = fs_cache s" by simp_all
  obtain s' where s': "saveINode (attrs m u g at mt ct n) (s\<lparr>fs_ticks := k\<rparr>) = Some (Inr (), s')" "ses_inv s' bs"
    "fs_cache s' = fs_cache s" "dsize (fs_disk s') = dsize (fs_disk s)" "locate (fs_disk s') cs = Some (attrs m u g at mt ct n)"
    "abs_of (fs_disk s') = (abs_of (fs_disk s))
      (cs \<mapsto> (entry_at (fs_disk s) (i_inodeid n))\<lparr>en_mask := m, en_uid := u, en_gid := g\<rparr>)"
    using attrs_step[OF ses_inv_time[OF ses, of k], where cs = cs and n = n and m = m and u = u and g = g and at = at and mt = mt and ct = ct,
        unfolded d, OF n] by blast
  have "bindE (touchINode (n\<lparr>i_mask := m, i_uid := u, i_gid := g\<rparr>) modes) saveINode s = Some (Inr (), s')"
    using s'(1) unfolding bindE_def t a by simp
  then show ?thesis
    using s'(2-6) by (intro exI[of _ s'] exI[of _ "attrs m u g at mt ct n"] conjI) (assumption | rule attrs_simps)+
qed

lemma entry_at_fields:
  assumes ok: "pkg_ok d" and nl: "no_links d" and n: "locate d qs = Some n"
  shows "en_mask (entry_at d (i_inodeid n)) = i_mask n" "en_uid (entry_at d (i_inodeid n)) = i_uid n"
    "en_gid (entry_at d (i_inodeid n)) = i_gid n" "en_type (entry_at d (i_inodeid n)) = i_type n"
    "file_type (i_type n) \<Longrightarrow> en_len (entry_at d (i_inodeid n)) = unat (i_dat_len n)"
    "file_type (i_type n) \<Longrightarrow> en_store (entry_at d (i_inodeid n)) = file_store d (i_inodeid n)"
  by (simp_all add: entry_located[OF assms])

text \<open>Saving a changed time changes nothing the abstract package knows.\<close>

lemma entry_same:
  assumes "ses_inv s bs" and n: "locate (fs_disk s) cs = Some n"
  shows "(abs_of (fs_disk s))(cs \<mapsto> (entry_at (fs_disk s) (i_inodeid n))\<lparr>en_mask := i_mask n, en_uid := i_uid n, en_gid := i_gid n\<rparr>)
    = abs_of (fs_disk s)"
proof -
  note f = ses_facts[OF assms(1)]
  have "(entry_at (fs_disk s) (i_inodeid n))\<lparr>en_mask := i_mask n, en_uid := i_uid n, en_gid := i_gid n\<rparr> = entry_at (fs_disk s) (i_inodeid n)"
    by (simp add: entry_located[OF f(2,5) n])
  then show ?thesis by (simp add: abs_of_locate n fun_upd_idem)
qed

lemma touch_same:
  assumes ses: "ses_inv s bs" and n: "locate (fs_disk s) cs = Some n"
  shows "\<exists>s' n'. bindE (touchINode n modes) saveINode s = Some (Inr (), s') \<and> ses_inv s' bs \<and>
    fs_cache s' = fs_cache s \<and> dsize (fs_disk s') = dsize (fs_disk s) \<and> locate (fs_disk s') cs = Some n' \<and>
    i_type n' = i_type n \<and> i_inodeid n' = i_inodeid n \<and> i_dat_len n' = i_dat_len n \<and> abs_of (fs_disk s') = abs_of (fs_disk s)"
proof -
  have "n\<lparr>i_mask := i_mask n, i_uid := i_uid n, i_gid := i_gid n\<rparr> = n" by simp
  then show ?thesis using touch_save[OF assms, where m = "i_mask n" and u = "i_uid n" and g = "i_gid n" and modes = modes] unfolding entry_same[OF assms] by simp
qed

lemma chmod_obeys:
  assumes ses: "ses_inv s bs"
  shows "obeys cred (Req_chmod path mode) s (chmod path mode)"
proof (rule obeys_need[OF ses])
  show "chmod path mode s = bindE (need (retrievePathToINode path)) (\<lambda>n.
      bindE (touchINode (n\<lparr>i_mask := ucast (extractMaskFromMode mode)\<rparr>) mode_ca) saveINode) s" by (simp add: chmod_def)
  show "effect zeros cred (Req_chmod path mode) (abs_of (fs_disk s)) = resolve path (abs_of (fs_disk s))
      (\<lambda>en. put_at path (abs_of (fs_disk s)) (en\<lparr>en_mask := ucast (extractMaskFromMode mode)\<rparr>))" by simp
  fix n assume n: "locate (fs_disk s) (components path) = Some n"
  let ?m = "ucast (extractMaskFromMode mode) :: u16"
  have c: "n\<lparr>i_mask := ?m, i_uid := i_uid n, i_gid := i_gid n\<rparr> = n\<lparr>i_mask := ?m\<rparr>" by simp
  note f = ses_facts[OF ses]
  have en: "(entry_at (fs_disk s) (i_inodeid n))\<lparr>en_mask := ?m, en_uid := i_uid n, en_gid := i_gid n\<rparr> = (entry_at (fs_disk s) (i_inodeid n))\<lparr>en_mask := ?m\<rparr>"
    by (simp add: entry_located[OF f(2,5) n])
  show "\<exists>r s' bs'. bindE (touchINode (n\<lparr>i_mask := ?m\<rparr>) mode_ca) saveINode s = Some (r, s') \<and> ses_inv s' bs' \<and>
      put_at path (abs_of (fs_disk s)) ((entry_at (fs_disk s) (i_inodeid n))\<lparr>en_mask := ?m\<rparr>) = (number r, abs_of (fs_disk s'))"
    using touch_save[OF ses n, where m = ?m and u = "i_uid n" and g = "i_gid n" and modes = mode_ca] unfolding c en put_at_def
    by (elim exE conjE) (intro exI conjI, assumption, assumption, simp)
qed

lemma chown_obeys:
  assumes ses: "ses_inv s bs"
  shows "obeys cred (Req_chown path u g) s (chown path u g)"
proof (rule obeys_need[OF ses])
  let ?u = "\<lambda>x. if u = - 1 then x else ucast u" and ?g = "\<lambda>x. if g = - 1 then x else ucast g"
  show "chown path u g s = bindE (need (retrievePathToINode path)) (\<lambda>n.
      bindE (touchINode (n\<lparr>i_uid := ?u (i_uid n), i_gid := ?g (i_gid n)\<rparr>) mode_ca) saveINode) s"
  proof -
    have "(let child = (if u \<noteq> - 1 then n\<lparr>i_uid := ucast u\<rparr> else n); child = (if g \<noteq> - 1 then child\<lparr>i_gid := ucast g\<rparr> else child)
        in bindE (touchINode child mode_ca) saveINode) =
      bindE (touchINode (n\<lparr>i_uid := ?u (i_uid n), i_gid := ?g (i_gid n)\<rparr>) mode_ca) saveINode" for n
      by (cases "u = - 1"; cases "g = - 1") (simp_all add: Let_def)
    then show ?thesis by (simp add: chown_def)
  qed
  show "effect zeros cred (Req_chown path u g) (abs_of (fs_disk s)) = resolve path (abs_of (fs_disk s))
      (\<lambda>en. put_at path (abs_of (fs_disk s)) (en\<lparr>en_uid := ?u (en_uid en), en_gid := ?g (en_gid en)\<rparr>))" by simp
  fix n assume n: "locate (fs_disk s) (components path) = Some n"
  note f = ses_facts[OF ses]
  have c: "n\<lparr>i_mask := i_mask n, i_uid := ?u (i_uid n), i_gid := ?g (i_gid n)\<rparr> = n\<lparr>i_uid := ?u (i_uid n), i_gid := ?g (i_gid n)\<rparr>" by simp
  have en: "(entry_at (fs_disk s) (i_inodeid n))\<lparr>en_mask := i_mask n, en_uid := ?u (i_uid n), en_gid := ?g (i_gid n)\<rparr> =
      (entry_at (fs_disk s) (i_inodeid n))\<lparr>en_uid := ?u (en_uid (entry_at (fs_disk s) (i_inodeid n))),
        en_gid := ?g (en_gid (entry_at (fs_disk s) (i_inodeid n)))\<rparr>"
    by (simp only: entry_located[OF f(2,5) n] entry.simps)
  show "\<exists>r s' bs'. bindE (touchINode (n\<lparr>i_uid := ?u (i_uid n), i_gid := ?g (i_gid n)\<rparr>) mode_ca) saveINode s = Some (r, s') \<and>
      ses_inv s' bs' \<and> put_at path (abs_of (fs_disk s)) ((entry_at (fs_disk s) (i_inodeid n))
        \<lparr>en_uid := ?u (en_uid (entry_at (fs_disk s) (i_inodeid n))), en_gid := ?g (en_gid (entry_at (fs_disk s) (i_inodeid n)))\<rparr>)
      = (number r, abs_of (fs_disk s'))"
    using touch_save[OF ses n, where m = "i_mask n" and u = "?u (i_uid n)" and g = "?g (i_gid n)" and modes = mode_ca]
    unfolding c en put_at_def by (elim exE conjE) (intro exI conjI, assumption, assumption, simp)
qed

lemma utimens_obeys:
  assumes ses: "ses_inv s bs"
  shows "obeys cred (Req_utimens path at mt) s (utimens path at mt)"
proof (rule obeys_need[OF ses])
  show "utimens path at mt s = bindE (need (retrievePathToINode path)) (\<lambda>n. saveINode (n\<lparr>i_atime := at, i_mtime := mt\<rparr>)) s"
    by (simp add: utimens_def exists_need[OF ses])
  show "effect zeros cred (Req_utimens path at mt) (abs_of (fs_disk s)) = resolve path (abs_of (fs_disk s)) (\<lambda>_. (0, abs_of (fs_disk s)))" by simp
  fix n assume n: "locate (fs_disk s) (components path) = Some n"
  have a: "attrs (i_mask n) (i_uid n) (i_gid n) at mt (i_ctime n) n = n\<lparr>i_atime := at, i_mtime := mt\<rparr>" by (simp add: attrs_def)
  show "\<exists>r s' bs'. saveINode (n\<lparr>i_atime := at, i_mtime := mt\<rparr>) s = Some (r, s') \<and> ses_inv s' bs' \<and>
      (0 :: int, abs_of (fs_disk s)) = (number r, abs_of (fs_disk s'))"
    using attrs_step[OF ses n, where m = "i_mask n" and u = "i_uid n" and g = "i_gid n" and at = at and mt = mt and ct = "i_ctime n"]
    unfolding a entry_same[OF ses n] by (elim exE conjE) (intro exI conjI, assumption, assumption, simp)
qed

lemma getFile_open:
  assumes "ses_inv s bs"
  shows "file_open (getFile i) s = Some (if file_type (i_type (raw_by_id (fs_disk s) i)) then opened_handle i
    else file_clear bad_fail ((FSFile_new i)\<lparr>f_invalid := True\<rparr>), s)"
proof -
  note f = ses_facts[OF assms]
  have "table_ok (fs_disk s)" "links_ok (fs_disk s)" using f(6) by (simp_all add: rooted_def)
  then have g: "getINodeByID i s = Some (raw_by_id (fs_disk s) i, s)" using getINodeByID_eq no_linksD(2)[OF f(5)] by simp
  show ?thesis
    by (auto simp: file_open_def getFile_def fresh_handle g file_clear_def opened_handle_def) (simp_all add: FSFile_new_def)
qed

lemma open_obeys:
  assumes ses: "ses_inv s bs"
  shows "obeys cred (Req_open path) s (bindE (open_path path) (\<lambda>file. let file = file_close file in ret ()))"
proof (rule obeys_need[OF ses])
  show "bindE (open_path path) (\<lambda>file. let file = file_close file in ret ()) s =
      bindE (need (retrievePathToINode path)) (\<lambda>n. bindE (low (file_open (getFile (i_inodeid n)))) (\<lambda>_. ret ())) s"
    by (simp add: open_path_def bindE_def[of "seqE _ _"] exists_need[OF ses])
       (simp add: bindE_def split: option.split sum.split)
  show "effect zeros cred (Req_open path) (abs_of (fs_disk s)) = resolve path (abs_of (fs_disk s)) (\<lambda>_. (0, abs_of (fs_disk s)))" by simp
  show "\<exists>r s' bs'. bindE (low (file_open (getFile (i_inodeid n)))) (\<lambda>_. ret ()) s = Some (r, s') \<and> ses_inv s' bs' \<and>
      (0 :: int, abs_of (fs_disk s)) = (number r, abs_of (fs_disk s'))" for n
    using ses by (simp add: bindE_def low_def getFile_open[OF ses] ret_def) blast
qed

end
