(* ===== verification/AppFS_Tree.thy ===== *)
theory AppFS_Tree
  imports AppFS_Steps
begin

text \<open>
  Creating and removing as steps of the abstract package.
\<close>

section \<open>Creating\<close>

lemma created_step:
  assumes ses: "ses_inv s bs" and c: "created s bs cs n s'" and fresh: "locate (fs_disk s) cs = None"
    and n: "i_type n \<in> {INT_FILEINFO, INT_DIRECTORY, INT_SYMLINK, INT_DEVICE}" "i_nlink n = 1" "i_dat_len n = 0"
  shows "ses_inv s' bs" and "abs_of (fs_disk s') = (abs_of (fs_disk s))
    (cs \<mapsto> \<lparr>en_type = i_type n, en_mask = i_mask n, en_uid = i_uid n, en_gid = i_gid n, en_len = 0, en_store = [],
      en_dev = (if i_type n = INT_DEVICE then (i_dev n, i_rdev n) else (0, 0))\<rparr>)"
proof -
  let ?d = "fs_disk s" and ?e = "fs_disk s'" and ?x = "i_inodeid n"
  note f = ses_facts[OF ses]
  have inv: "pkg_inv s' bs" and loc: "locate ?e cs = Some n" and pm: "path_map ?e = (path_map ?d)(cs := Some (ident n))"
    and raw: "raw_by_id ?e ?x = n" and o: "others_same ?d ?e ?x" and k: "data_kept ?d ?e ?x"
    using c by (simp_all add: created_def)
  note i = pkg_invD[OF inv]
  have nl: "no_links ?e" by (rule no_links_step[OF f(5) o]) (use n in \<open>auto simp: raw\<close>)
  then show ses': "ses_inv s' bs" using inv by (simp add: ses_inv_def)
  have only: "i_inodeid m \<noteq> ?x" if q: "qs \<noteq> cs" "locate ?d qs = Some m" for qs m
  proof
    assume eq: "i_inodeid m = ?x"
    have "map_option ident (locate ?e qs) = Some (ident m)"
      using q unfolding path_map_def[symmetric] pm by (simp add: path_map_def)
    then obtain m' where m': "locate ?e qs = Some m'" "ident m' = ident m" unfolding map_option_eq_Some by blast
    then have "i_inodeid m' = ?x" using ident_fields eq by metis
    then show False using located_inj[OF i(1,2) nl m'(1) loc] q(1) by blast
  qed
  have "entry_at ?e ?x = \<lparr>en_type = i_type n, en_mask = i_mask n, en_uid = i_uid n, en_gid = i_gid n, en_len = 0, en_store = [],
      en_dev = (if i_type n = INT_DEVICE then (i_dev n, i_rdev n) else (0, 0))\<rparr>"
  proof -
    have "file_store ?e ?x = []" if "file_type (i_type n)"
    proof -
      have "sound_file ?e ?x (lookup_at ?e ?x) (file_blocks ?e (lookup_at ?e ?x)) n"
        using files_soundD[OF i(3), of ?x] that by (simp add: raw)
      then have "file_blocks ?e (lookup_at ?e ?x) = []" using n(3) by (simp add: sound_file_def ceil_blocks_def)
      then show ?thesis by (simp add: file_store_def file_bytes_def)
    qed
    then show ?thesis using n(3) by (simp add: entry_at_def raw Let_def)
  qed
  then show "abs_of ?e = (abs_of ?d)(cs \<mapsto> \<lparr>en_type = i_type n, en_mask = i_mask n, en_uid = i_uid n, en_gid = i_gid n, en_len = 0, en_store = [],
      en_dev = (if i_type n = INT_DEVICE then (i_dev n, i_rdev n) else (0, 0))\<rparr>)"
    using abs_upd[OF pm f(4) o k only] by (simp add: ident_def)
qed

text \<open>What a creation needs, and what it does, for each outcome.\<close>

lemma creation_cases:
  assumes ses: "ses_inv s bs" and can: "creatable s path" and ty: "ty \<in> {INT_FILEINFO, INT_DIRECTORY, INT_SYMLINK, INT_DEVICE}"
    and conf: "\<And>n. i_dev n = 0 \<Longrightarrow> i_rdev n = 0 \<Longrightarrow> conf n = n\<lparr>i_dev := dv, i_rdev := rv\<rparr>" "ty \<noteq> INT_DEVICE \<Longrightarrow> dv = 0 \<and> rv = 0"
    and en: "en = (new_entry ty cred mode)\<lparr>en_dev := (dv, rv)\<rparr>"
  shows "(\<exists>e. performCreation cred ty path mode conf s = Some (Inl e, s) \<and>
       creation path en (abs_of (fs_disk s)) = (handleException e, abs_of (fs_disk s))) \<or>
    (\<exists>n s'. performCreation cred ty path mode conf s = Some (Inr n, s') \<and> path_error path = None \<and>
       created s bs (components path) n s' \<and> i_type n = ty \<and> i_dat_len n = 0 \<and> ses_inv s' bs \<and>
       creation path en (abs_of (fs_disk s)) = (0, abs_of (fs_disk s')) \<and>
       abs_of (fs_disk s') (components path) = Some en)"
proof -
  let ?d = "fs_disk s" and ?A = "abs_of (fs_disk s)" and ?cs = "butlast (components path)" and ?b = "last (components path)"
  note f = ses_facts[OF ses]
  have ne: "components path \<noteq> []" and room: "\<And>pn. path_error path = None \<Longrightarrow> locate ?d ?cs = Some pn \<Longrightarrow>
      locate ?d (components path) = None \<Longrightarrow> i_type pn = INT_DIRECTORY \<and> 0 \<in> set (i_children pn) \<and> has_room s"
    using can by (simp_all add: creatable_def)
  note refused = performCreation_refused[OF f(6) ne]
  show ?thesis
  proof (cases "path_error path")
    case (Some e)
    then show ?thesis using refused(1)[OF Some] by (intro disjI1) (simp add: creation_def)
  next
    case None
    show ?thesis
    proof (cases "locate ?d ?cs")
      case N: None
      then show ?thesis using refused(2)[OF None N] None by (intro disjI1 exI[of _ FileNotFound]) (simp add: creation_def abs_none)
    next
      case (Some pn)
      show ?thesis
      proof (cases "locate ?d (components path)")
        case (Some n)
        then show ?thesis using refused(3)[OF None Some] None \<open>locate ?d ?cs = Some pn\<close>
          by (intro disjI1 exI[of _ FileExists]) (simp add: creation_def abs_of_locate)
      next
        case fresh: None
        have path: "components path = ?cs @ [?b]" using ne by simp
        have fresh': "locate ?d (?cs @ [?b]) = None" using fresh ne by simp
        note r = room[OF None Some fresh]
        have dir0: "ty = INT_DIRECTORY \<Longrightarrow> dv = 0 \<and> rv = 0" using conf(2) by simp
        obtain iid s' where s': "created s bs (?cs @ [?b]) (made_dev dv rv (made_at s iid ty ?b cred mode)) s'"
          "performCreation cred ty path mode conf s = Some (Inr (made_dev dv rv (made_at s iid ty ?b cred mode)), s')"
          using performCreation_made[OF f(1) _ ty None path Some _ _ fresh' conf(1) dir0, of cred mode] r by blast
        let ?n = "made_dev dv rv (made_at s iid ty ?b cred mode)"
        have n: "i_type ?n = ty" "i_nlink ?n = 1" "i_dat_len ?n = 0" "i_mask ?n = ucast (extractMaskFromMode mode)"
          "i_uid ?n = ucast (fst cred)" "i_gid ?n = ucast (snd cred)" "i_dev ?n = dv" "i_rdev ?n = rv"
          by (simp_all add: made_node_def)
        have cr: "created s bs (components path) ?n s'" using s'(1) by (simp only: path[symmetric])
        have en': "en = \<lparr>en_type = ty, en_mask = ucast (extractMaskFromMode mode), en_uid = ucast (fst cred), en_gid = ucast (snd cred),
            en_len = 0, en_store = [], en_dev = (if ty = INT_DEVICE then (dv, rv) else (0, 0))\<rparr>"
          using conf(2) by (simp add: en new_entry_def)
        note st = created_step[OF ses cr fresh, unfolded n(1), OF ty n(2,3), unfolded n(4-8), folded en']
        have "creation path en ?A = (0, abs_of (fs_disk s'))"
          using None Some fresh st(2) by (simp add: creation_def abs_of_locate put_at_def)
        then show ?thesis using s'(2) cr None n(1,3) st(1) by (intro disjI2 exI[of _ ?n] exI[of _ s']) (simp add: st(2))
      qed
    qed
  qed
qed

lemma creation_plain:
  assumes "ses_inv s bs" and "creatable s path" and "ty \<in> {INT_FILEINFO, INT_DIRECTORY, INT_SYMLINK}"
  shows "(\<exists>e. performCreation cred ty path mode (\<lambda>n. n) s = Some (Inl e, s) \<and>
       creation path (new_entry ty cred mode) (abs_of (fs_disk s)) = (handleException e, abs_of (fs_disk s))) \<or>
    (\<exists>n s'. performCreation cred ty path mode (\<lambda>n. n) s = Some (Inr n, s') \<and> path_error path = None \<and>
       created s bs (components path) n s' \<and> i_type n = ty \<and> i_dat_len n = 0 \<and> ses_inv s' bs \<and>
       creation path (new_entry ty cred mode) (abs_of (fs_disk s)) = (0, abs_of (fs_disk s')) \<and>
       abs_of (fs_disk s') (components path) = Some (new_entry ty cred mode))"
proof (rule creation_cases[OF assms(1,2), where dv = 0 and rv = 0])
  show "ty \<in> {INT_FILEINFO, INT_DIRECTORY, INT_SYMLINK, INT_DEVICE}" using assms(3) by blast
qed (simp_all add: new_entry_def)

lemma created_obeys:
  assumes eff: "effect zeros cred req (abs_of (fs_disk s)) = creation path en (abs_of (fs_disk s))" and ses: "ses_inv s bs"
    and c: "(\<exists>e. perform s = Some (Inl e, s) \<and> creation path en (abs_of (fs_disk s)) = (handleException e, abs_of (fs_disk s))) \<or>
      (\<exists>n s'. perform s = Some (Inr n, s') \<and> ses_inv s' bs \<and>
        creation path en (abs_of (fs_disk s)) = (0, abs_of (fs_disk s')))"
  shows "obeys cred req s (bindE perform (\<lambda>_. ret ()))"
  using c
proof
  assume "\<exists>e. perform s = Some (Inl e, s) \<and> creation path en (abs_of (fs_disk s)) = (handleException e, abs_of (fs_disk s))"
  then obtain e where "perform s = Some (Inl e, s)" "creation path en (abs_of (fs_disk s)) = (handleException e, abs_of (fs_disk s))" by blast
  then show ?thesis using ses by (intro obeysI[of _ s "Inl e" s bs]) (simp_all add: eff bindE_def)
next
  assume "\<exists>n s'. perform s = Some (Inr n, s') \<and> ses_inv s' bs \<and>
      creation path en (abs_of (fs_disk s)) = (0, abs_of (fs_disk s'))"
  then obtain n s' where "perform s = Some (Inr n, s')" "ses_inv s' bs" "creation path en (abs_of (fs_disk s)) = (0, abs_of (fs_disk s'))" by blast
  then show ?thesis by (intro obeysI[of _ s "Inr ()" s' bs]) (simp_all add: eff bindE_def ret_def)
qed

lemma create_obeys:
  assumes ses: "ses_inv s bs" and can: "creatable s path"
  shows "obeys cred (Req_create path mode) s (create cred path mode)" and "obeys cred (Req_mkdir path mode) s (mkdir cred path mode)"
    and "obeys cred (Req_mknod path mode mj mn) s (mknod cred path mode mj mn)"
proof -
  let ?conf = "\<lambda>n. n\<lparr>i_dev := of_nat mn, i_rdev := of_nat mj\<rparr>" and ?en = "(new_entry INT_DEVICE cred mode)\<lparr>en_dev := (of_nat mn, of_nat mj)\<rparr>"
  have ty: "INT_FILEINFO \<in> {INT_FILEINFO, INT_DIRECTORY, INT_SYMLINK}" "INT_DIRECTORY \<in> {INT_FILEINFO, INT_DIRECTORY, INT_SYMLINK}"
    "INT_DEVICE \<in> {INT_FILEINFO, INT_DIRECTORY, INT_SYMLINK, INT_DEVICE}" by simp_all
  have plain: "effect zeros cred (Req_create path mode) (abs_of (fs_disk s)) = creation path (new_entry INT_FILEINFO cred mode) (abs_of (fs_disk s))"
    "effect zeros cred (Req_mkdir path mode) (abs_of (fs_disk s)) = creation path (new_entry INT_DIRECTORY cred mode) (abs_of (fs_disk s))"
    "effect zeros cred (Req_mknod path mode mj mn) (abs_of (fs_disk s)) = creation path ?en (abs_of (fs_disk s))" by simp_all
  show "obeys cred (Req_create path mode) s (create cred path mode)"
    unfolding create_def
    by (rule created_obeys[OF plain(1) ses]) (use creation_plain[OF ses can ty(1), of cred mode] in blast)
  show "obeys cred (Req_mkdir path mode) s (mkdir cred path mode)"
    unfolding mkdir_def
    by (rule created_obeys[OF plain(2) ses]) (use creation_plain[OF ses can ty(2), of cred mode] in blast)
  show "obeys cred (Req_mknod path mode mj mn) s (mknod cred path mode mj mn)"
    unfolding mknod_def
    by (rule created_obeys[OF plain(3) ses])
       (use creation_cases[OF ses can ty(3), where conf = ?conf and dv = "of_nat mn" and rv = "of_nat mj" and cred = cred and mode = mode and en = ?en]
        in \<open>simp, blast\<close>)
qed

section \<open>Removing\<close>

lemma removed_step:
  assumes ses: "ses_inv s bs" and r: "removed s bs cs (i_inodeid n) s'" and n: "locate (fs_disk s) cs = Some n"
  shows "\<exists>bs'. ses_inv s' bs'" and "abs_of (fs_disk s') = (abs_of (fs_disk s))(cs := None)"
proof -
  let ?d = "fs_disk s" and ?e = "fs_disk s'" and ?x = "i_inodeid n"
  note f = ses_facts[OF ses]
  obtain bs' where inv: "pkg_inv s' bs'" using r by (auto simp: removed_def)
  have pm: "path_map ?e = (path_map ?d)(cs := None)" and raw: "i_type (raw_by_id ?e ?x) = INT_INVALID"
    and o: "others_same ?d ?e ?x" and k: "data_kept ?d ?e ?x"
    using r raw_unused[of ?e ?x] by (simp_all add: removed_def)
  have "no_links ?e" by (rule no_links_step[OF f(5) o]) (simp_all add: raw)
  then show "\<exists>bs'. ses_inv s' bs'" using inv by (auto simp: ses_inv_def)
  have "i_inodeid m \<noteq> ?x" if "qs \<noteq> cs" "locate ?d qs = Some m" for qs m
    using located_inj[OF f(2,3,5) that(2) n] that(1) by blast
  from abs_upd[OF pm f(4) o k this] show "abs_of ?e = (abs_of ?d)(cs := None)" by simp
qed

text \<open>A directory has no entries exactly when nothing lies behind its path.\<close>

lemma no_children_iff:
  assumes ses: "ses_inv s bs" and n: "locate (fs_disk s) cs = Some n" and dir: "i_type n = INT_DIRECTORY"
  shows "has_child (abs_of (fs_disk s)) cs \<longleftrightarrow> i_children_count n \<noteq> 0"
    and "abs_of (fs_disk s) (cs @ [x]) \<noteq> None \<longleftrightarrow> x \<in> node_name (fs_disk s) ` set (used (i_children n))"
proof -
  let ?d = "fs_disk s"
  note f = ses_facts[OF ses]
  have root: "i_type (node_by_id ?d 0) \<noteq> INT_INVALID" using f(6) by (simp add: rooted_def)
  note l = locate_directory(1,2)[OF f(2) n dir] locate_directory(3)[OF f(2) n dir, symmetric]
  have wf: "dir_wf n" and ty: "\<And>c. c \<in> set (used (i_children n)) \<Longrightarrow> tabled_type (i_type (node_by_id ?d c))"
    and dist: "distinct (map (node_name ?d) (used (i_children n)))"
    using l(2) by (simp_all add: dir_sound_def)
  have vis: "visited (node_by_id ?d (i_inodeid n)) = used (i_children n)" unfolding l(3) by (rule visited_all[OF wf])
  have names: "abs_of ?d (cs @ [x]) \<noteq> None \<longleftrightarrow> x \<in> node_name ?d ` set (used (i_children n))" for x
  proof -
    have "abs_of ?d (cs @ [x]) \<noteq> None \<longleftrightarrow> i_type (child_named ?d (i_inodeid n) x) \<noteq> INT_INVALID"
      by (simp add: abs_none locate_snoc[OF root] n)
    also have "\<dots> \<longleftrightarrow> x \<in> node_name ?d ` set (used (i_children n))"
    proof
      assume "i_type (child_named ?d (i_inodeid n) x) \<noteq> INT_INVALID"
      then obtain c where "c \<in> set (visited (node_by_id ?d (i_inodeid n)))" "child_named ?d (i_inodeid n) x = node_by_id ?d c"
        "cstr (i_filename (child_named ?d (i_inodeid n) x)) = x" using child_named_node by metis
      then show "x \<in> node_name ?d ` set (used (i_children n))" unfolding vis by (auto simp: node_name_def)
    next
      assume "x \<in> node_name ?d ` set (used (i_children n))"
      then obtain c where c: "c \<in> set (used (i_children n))" "node_name ?d c = x" by blast
      have mem: "node_by_id ?d c \<in> set (child_nodes ?d (node_by_id ?d (i_inodeid n)))"
        using c(1) ty[OF c(1)] by (simp add: child_nodes_def vis)
      have "find (\<lambda>m. x = cstr (i_filename m)) (child_nodes ?d (node_by_id ?d (i_inodeid n))) \<noteq> None"
        using mem c(2) by (auto simp: find_None_iff node_name_def)
      then obtain m where m: "find (\<lambda>m. x = cstr (i_filename m)) (child_nodes ?d (node_by_id ?d (i_inodeid n))) = Some m" by blast
      then have "m \<in> set (child_nodes ?d (node_by_id ?d (i_inodeid n)))" by (auto simp: find_Some_iff)
      then have "i_type m \<noteq> INT_INVALID" by (auto simp: child_nodes_def tabled_type_def)
      then show "i_type (child_named ?d (i_inodeid n) x) \<noteq> INT_INVALID" using m dir by (simp add: child_named_def l(3) Let_def)
    qed
    finally show ?thesis .
  qed
  then show "abs_of ?d (cs @ [x]) \<noteq> None \<longleftrightarrow> x \<in> node_name ?d ` set (used (i_children n))" .
  have "i_children_count n \<noteq> 0 \<longleftrightarrow> used (i_children n) \<noteq> []"
    using wf unat_eq_zero[of "i_children_count n"] by (auto simp: dir_wf_def)
  then show "has_child (abs_of ?d) cs \<longleftrightarrow> i_children_count n \<noteq> 0" using names by (force simp: has_child_def)
qed

lemma unlink_obeys:
  assumes ses: "ses_inv s bs" and ne: "components path \<noteq> []"
  shows "obeys cred (Req_unlink path) s (unlink path)"
proof (rule obeys_path[OF ses])
  let ?d = "fs_disk s" and ?A = "abs_of (fs_disk s)"
  note f = ses_facts[OF ses]
  show "unlink path s = Some (Inl e, s)" if "path_error path = Some e" for e
    unfolding unlink_def by (rule need_cases(1)[OF ses that])
  show "unlink path s = Some (Inl FileNotFound, s)" if "path_error path = None" "locate ?d (components path) = None"
    unfolding unlink_def by (rule need_cases(2)[OF ses that])
  show "effect zeros cred (Req_unlink path) ?A = resolve path ?A
      (\<lambda>en. if en_type en = INT_DIRECTORY then (- 21, ?A) else (0, ?A(components path := None)))" by simp
  fix n assume v: "path_error path = None" and n: "locate ?d (components path) = Some n"
  note l = located_plain[OF f(2,5) n] and en = entry_at_fields(4)[OF f(2,5) n]
  show "\<exists>r s' bs'. unlink path s = Some (r, s') \<and> ses_inv s' bs' \<and>
      (if en_type (entry_at ?d (i_inodeid n)) = INT_DIRECTORY then (- 21, ?A) else (0, ?A(components path := None)))
      = (number r, abs_of (fs_disk s'))"
  proof (cases "i_type n = INT_DIRECTORY")
    case True
    then show ?thesis using unlink_directory[OF f(6) v ne n True] ses en by auto
  next
    case False
    have path: "components path = butlast (components path) @ [last (components path)]" using ne by simp
    have n': "locate ?d (butlast (components path) @ [last (components path)]) = Some n" using n ne by simp
    have ty: "i_type n \<in> {INT_FILEINFO, INT_SYMLINK, INT_DEVICE}" using l(3) False by auto
    have nlk: "i_nlink n = 1" using no_linksD(3)[OF f(5), of "i_inodeid n"] ty unfolding l(1) by blast
    obtain s' where s': "unlink path s = Some (Inr (), s')" "removed s bs (components path) (i_inodeid n) s'"
      using unlink_removes[OF f(1) v path n' ty l(4) nlk] no_linksD(1)[OF f(5)] ne by auto
    then show ?thesis using removed_step[OF ses s'(2) n] False en by (auto intro!: exI[of _ "Inr ()"])
  qed
qed

lemma rmdir_obeys:
  assumes ses: "ses_inv s bs" and ne: "components path \<noteq> []"
  shows "obeys cred (Req_rmdir path) s (rmdir path)"
proof (rule obeys_path[OF ses])
  let ?d = "fs_disk s" and ?A = "abs_of (fs_disk s)"
  note f = ses_facts[OF ses]
  show "rmdir path s = Some (Inl e, s)" if "path_error path = Some e" for e
    unfolding rmdir_def by (rule need_cases(1)[OF ses that])
  show "rmdir path s = Some (Inl FileNotFound, s)" if "path_error path = None" "locate ?d (components path) = None"
    unfolding rmdir_def by (rule need_cases(2)[OF ses that])
  show "effect zeros cred (Req_rmdir path) ?A = resolve path ?A (\<lambda>en. if en_type en \<noteq> INT_DIRECTORY then (- 20, ?A)
      else if has_child ?A (components path) then (- 39, ?A) else (0, ?A(components path := None)))" by simp
  fix n assume v: "path_error path = None" and n: "locate ?d (components path) = Some n"
  note en = entry_at_fields(4)[OF f(2,5) n]
  show "\<exists>r s' bs'. rmdir path s = Some (r, s') \<and> ses_inv s' bs' \<and>
      (if en_type (entry_at ?d (i_inodeid n)) \<noteq> INT_DIRECTORY then (- 20, ?A)
       else if has_child ?A (components path) then (- 39, ?A) else (0, ?A(components path := None)))
      = (number r, abs_of (fs_disk s'))"
  proof (cases "i_type n = INT_DIRECTORY")
    case False
    then show ?thesis using rmdir_refused(1)[OF f(6) v ne n False] ses en by auto
  next
    case True
    note ch = no_children_iff(1)[OF ses n True]
    show ?thesis
    proof (cases "i_children_count n = 0")
      case False
      then show ?thesis using rmdir_refused(2)[OF f(6) v ne n True False] ses en True ch by auto
    next
      case empty: True
      have path: "components path = butlast (components path) @ [last (components path)]" using ne by simp
      have n': "locate ?d (butlast (components path) @ [last (components path)]) = Some n" using n ne by simp
      obtain s' where s': "rmdir path s = Some (Inr (), s')" "removed s bs (components path) (i_inodeid n) s'"
        using rmdir_removes[OF f(1) v path n' True empty] ne by auto
      then show ?thesis using removed_step[OF ses s'(2) n] True en ch empty by (auto intro!: exI[of _ "Inr ()"])
    qed
  qed
qed

section \<open>Looking\<close>

lemma getattr_shows:
  assumes ses: "ses_inv s bs"
  shows "\<exists>r. getattr path s = Some (r, s) \<and> effect zeros cred (Req_getattr path) (abs_of (fs_disk s)) = (number r, abs_of (fs_disk s)) \<and>
    (\<forall>st. r = Inr st \<longrightarrow> (\<exists>en. abs_of (fs_disk s) (components path) = Some en \<and> shows_entry st en))"
proof -
  let ?d = "fs_disk s"
  note f = ses_facts[OF ses]
  have st: "tabled_type (i_type n) \<and> (\<exists>st. stat_of n = Some st \<and> shows_entry st (entry_at ?d (i_inodeid n)))"
    if n: "locate ?d (components path) = Some n" for n
  proof -
    note l = located_plain[OF f(2,5) n]
    show ?thesis
      using l(3) by (auto simp: entry_located[OF f(2,5) n] stat_of_def shows_entry_def tabled_type_def config Let_def)
  qed
  show ?thesis
  proof (cases "path_error path")
    case None
    show ?thesis
    proof (cases "locate ?d (components path)")
      case (Some n)
      then obtain st where "tabled_type (i_type n)" "stat_of n = Some st" "shows_entry st (entry_at ?d (i_inodeid n))" using st by blast
      then show ?thesis
        using None Some by (intro exI[of _ "Inr st"]) (simp add: getattr_eq[OF f(6)] abs_resolve abs_of_locate)
    qed (use None in \<open>simp add: getattr_eq[OF f(6)] abs_resolve\<close>)
  qed (simp add: getattr_eq[OF f(6)] abs_resolve)
qed

lemma readdir_shows:
  assumes ses: "ses_inv s bs"
  shows "\<exists>r. readdir path s = Some (r, s) \<and> effect zeros cred (Req_readdir path) (abs_of (fs_disk s)) = (number r, abs_of (fs_disk s)) \<and>
    (\<forall>ns. r = Inr ns \<longrightarrow> distinct ns \<and> set ns = {x. abs_of (fs_disk s) (components path @ [x]) \<noteq> None})"
proof -
  let ?d = "fs_disk s"
  note f = ses_facts[OF ses]
  show ?thesis
  proof (cases "path_error path")
    case None
    show ?thesis
    proof (cases "locate ?d (components path)")
      case (Some n)
      note en = entry_at_fields(4)[OF f(2,5) Some]
      show ?thesis
      proof (cases "i_type n = INT_DIRECTORY")
        case True
        note l = locate_directory(2)[OF f(2) Some True] locate_directory(3)[OF f(2) Some True, symmetric]
        have wf: "dir_wf n" and ty: "\<forall>c \<in> set (used (i_children n)). tabled_type (i_type (node_by_id ?d c))"
          and dist: "distinct (map (node_name ?d) (used (i_children n)))"
          using l(1) by (simp_all add: dir_sound_def)
        have cn: "map (\<lambda>c. cstr (i_filename c)) (child_nodes ?d n) = map (node_name ?d) (used (i_children n))"
          using ty by (simp add: child_nodes_def visited_all[OF wf] node_name_def[abs_def] o_def)
        have "set (map (node_name ?d) (used (i_children n))) = {x. abs_of ?d (components path @ [x]) \<noteq> None}"
          using no_children_iff(2)[OF ses Some True] by auto
        then show ?thesis
          using None Some True en dist
          by (intro exI[of _ "Inr (map (node_name ?d) (used (i_children n)))"]) (simp add: readdir_eq[OF f(6)] l(2) cn abs_resolve)
      qed (use None Some en in \<open>simp add: readdir_eq[OF f(6)] abs_resolve\<close>)
    qed (use None in \<open>simp add: readdir_eq[OF f(6)] abs_resolve\<close>)
  qed (simp add: readdir_eq[OF f(6)] abs_resolve)
qed

end
