(* ===== verification/AppFS_Rename.thy ===== *)
theory AppFS_Rename
  imports AppFS_Tree
begin

text \<open>
  \<^verbatim>\<open>FS::rename\<close> (\<^verbatim>\<open>libapp/fs.cpp\<close>): an inode leaves one directory, enters another under the new name, and is saved with that
  name. The invariant does not hold between these calls, in which the inode has two entries or an entry under the old name; the
  package at the end is the one reached by taking the entry out, renaming the inode while no directory lists it, and
  entering it again.
\<close>

section \<open>An entry less, an entry more\<close>

lemma unlist_entry:
  assumes inv: "pkg_inv s bs" and dir: "dir_at (fs_disk s) pid p n" and dir': "dir_at (fs_disk s') pid p n'"
    and same: "same_outside p s s'" and id: "ident n' = ident n"
    and u: "used (i_children n) = us @ v # vs" "used (i_children n') = us @ vs" and cnt: "unat (i_children_count n') = length (us @ vs)"
  shows "pkg_inv s' bs" and "\<not> listed_in (fs_disk s') j v"
    and "raw_by_id (fs_disk s') j = (if j = pid then n' else raw_by_id (fs_disk s) j)"
    and "names_upd (fs_disk s) (fs_disk s') pid (node_name (fs_disk s) v) (ident (new_inode 0 INT_INVALID))"
proof -
  let ?d = "fs_disk s" and ?e = "fs_disk s'"
  note i = pkg_invD[OF inv]
  have raw: "raw_by_id ?d pid = n" "i_type n = INT_DIRECTORY" using dir_atD[OF dir] by simp_all
  have ds: "dir_sound ?d n" using pkg_okD(4)[OF i(1), of pid] raw by simp
  have ty: "tabled_type (i_type (node_by_id ?d v))" and dist: "distinct (map (node_name ?d) (us @ v # vs))" and du: "distinct (us @ v # vs)"
    using ds by (simp_all add: dir_sound_def dir_wf_def u)
  have names: "node_name ?d c \<noteq> node_name ?d v" if "c \<in> set (us @ vs)" for c using dist that by (fastforce simp: image_iff)
  have sound: "dir_sound ?d n'" using ds du cnt by (auto simp: dir_sound_def dir_wf_def u)
  have map: "dir_map ?d (used (i_children n')) = (dir_map ?d (used (i_children n)))(node_name ?d v := None)"
    unfolding u node_name_def by (rule dir_map_delete[OF _ ty]) (use names in \<open>simp add: node_name_def\<close>)
  show "names_upd ?d ?e pid (node_name ?d v) (ident (new_inode 0 INT_INVALID))"
    using dir_change_upd[OF i(1) dir dir' same id sound map] by simp
  show eqv: "raw_by_id ?e j = (if j = pid then n' else raw_by_id ?d j)" for j by (rule dir_change_ok(2)[OF i(1) dir dir' same id sound])
  show "pkg_inv s' bs" by (rule dir_change_inv[OF inv dir dir' same id sound]) (auto simp: u)
  have here: "listed_in ?d pid v" using raw by (simp add: listed_in_def u)
  show "\<not> listed_in ?e j v"
  proof (cases "j = pid")
    case False
    then show ?thesis using i(2) here eqv[of j] unfolding sole_entries_def listed_in_def by metis
  qed (use du eqv[of pid] in \<open>simp add: listed_in_def u\<close>)
qed

lemma list_entry:
  assumes inv: "pkg_inv s bs" and dir: "dir_at (fs_disk s) pid p n" and dir': "dir_at (fs_disk s') pid p n'"
    and same: "same_outside p s s'" and id: "ident n' = ident n"
    and u: "used (i_children n) = us @ vs" "used (i_children n') = us @ v # vs" and cnt: "unat (i_children_count n') = length (us @ v # vs)"
    and ty: "tabled_type (i_type (node_by_id (fs_disk s) v))" and unl: "\<And>i. \<not> listed_in (fs_disk s) i v"
    and fresh: "i_type (child_named (fs_disk s) pid (node_name (fs_disk s) v)) = INT_INVALID"
  shows "pkg_inv s' bs" and "raw_by_id (fs_disk s') j = (if j = pid then n' else raw_by_id (fs_disk s) j)"
    and "names_upd (fs_disk s) (fs_disk s') pid (node_name (fs_disk s) v) (ident (node_by_id (fs_disk s) v))"
proof -
  let ?d = "fs_disk s" and ?e = "fs_disk s'"
  note i = pkg_invD[OF inv]
  have raw: "raw_by_id ?d pid = n" "i_type n = INT_DIRECTORY" using dir_atD[OF dir] by simp_all
  have ds: "dir_sound ?d n" using pkg_okD(4)[OF i(1), of pid] raw by simp
  have node: "node_by_id ?d pid = n" using node_plain[of ?d pid] raw by simp
  have names: "node_name ?d c \<noteq> node_name ?d v" if "c \<in> set (us @ vs)" for c
    using listed_name_found[OF ds, of c pid] that fresh node raw(2) by (auto simp: u)
  have new: "v \<notin> set (us @ vs)" using unl[of pid] raw by (simp add: listed_in_def u)
  have "node_name ?d v \<notin> node_name ?d ` set (us @ vs)" using names by fastforce
  then have sound: "dir_sound ?d n'" using ds ty cnt new by (auto simp: dir_sound_def dir_wf_def u)
  have map: "dir_map ?d (used (i_children n')) = (dir_map ?d (used (i_children n)))(node_name ?d v := Some (ident (node_by_id ?d v)))"
    unfolding u node_name_def by (rule dir_map_insert[OF ty]) (use names in \<open>simp add: node_name_def\<close>)
  show "names_upd ?d ?e pid (node_name ?d v) (ident (node_by_id ?d v))"
    using dir_change_upd[OF i(1) dir dir' same id sound map] by simp
  show "raw_by_id ?e j = (if j = pid then n' else raw_by_id ?d j)" by (rule dir_change_ok(2)[OF i(1) dir dir' same id sound])
  show "pkg_inv s' bs" by (rule dir_change_inv[OF inv dir dir' same id sound]) (use unl in \<open>auto simp: u\<close>)
qed

section \<open>Renaming an inode that no directory lists\<close>

lemma unlisted_child:
  assumes ok: "pkg_ok d" and unl: "\<And>i. \<not> listed_in d i x" and c: "c \<in> set (visited (node_by_id d q))"
  shows "c \<noteq> x"
proof -
  have dir: "i_type (node_by_id d q) = INT_DIRECTORY" using c visited_not_directory[of d q] by fastforce
  have raw: "node_by_id d q = raw_by_id d q" using pkg_link(3)[OF ok, of q] dir by (intro node_plain) auto
  have "c \<in> set (i_children (raw_by_id d q))" "c \<noteq> 0" using c unfolding raw by (auto simp: visited_def dest: in_set_takeD)
  then have "listed_in d q c" using dir raw by (simp add: listed_in_def used_def)
  then show ?thesis using unl by blast
qed

lemma relabel:
  assumes inv: "pkg_inv s bs" and nl: "no_links (fs_disk s)" and used: "lookup_at (fs_disk s) x \<noteq> 0" and x: "x \<noteq> 0"
    and n: "raw_by_id (fs_disk s) x = n" and unl: "\<And>i. \<not> listed_in (fs_disk s) i x"
    and same: "same_outside (lookup_at (fs_disk s) x) s s'" and self: "inode_at (fs_disk s') (unat (lookup_at (fs_disk s) x)) = n'"
    and tail: "\<forall>a. file_type (i_type n) \<longrightarrow> unat (lookup_at (fs_disk s) x) + 306 \<le> a \<longrightarrow> byte_at (fs_disk s') a = byte_at (fs_disk s) a"
    and f: "i_type n' = i_type n" "i_blocks n' = i_blocks n" "i_dat_len n' = i_dat_len n" "i_inodeid n' = i_inodeid n"
      "i_children n' = i_children n" "i_children_count n' = i_children_count n"
  shows "pkg_inv s' bs" and "same_names (fs_disk s) (fs_disk s')" and "\<not> listed_in (fs_disk s') j x"
proof -
  let ?d = "fs_disk s" and ?e = "fs_disk s'"
  note i = pkg_invD[OF inv] and w = inode_write[OF inv used n same self tail f(1-3)]
  note raw = w(1) and look = w(2) and node = no_linksD(2)[OF nl]
  have nh: "i_type (raw_by_id ?e k) \<noteq> INT_HARDLINK" for k using no_linksD(1)[OF nl] n f(1) by (metis raw)
  have node': "node_by_id ?e k = raw_by_id ?e k" for k by (rule node_plain[OF nh])
  have ty: "i_type (raw_by_id ?e k) = i_type (raw_by_id ?d k)" for k using n f(1) by (simp add: raw)
  have lst: "listed_in ?e = listed_in ?d" using n f(1,5) by (auto simp: listed_in_def fun_eq_iff raw)
  show "\<not> listed_in ?e j x" using unl by (simp add: lst)
  have cnode: "node_by_id ?e c = node_by_id ?d c" if "c \<noteq> x" for c using that by (simp add: node' node raw)
  have dsd: "dir_sound ?e (raw_by_id ?e k)" if k: "i_type (raw_by_id ?e k) = INT_DIRECTORY" for k
  proof -
    have "i_type (raw_by_id ?d k) = INT_DIRECTORY" using k ty by simp
    then have ds: "dir_sound ?d (raw_by_id ?d k)" and "\<And>c. c \<in> set (used (i_children (raw_by_id ?d k))) \<Longrightarrow> listed_in ?d k c"
      using pkg_okD(4)[OF i(1)] by (auto simp: listed_in_def)
    then have "node_by_id ?e c = node_by_id ?d c" if "c \<in> set (used (i_children (raw_by_id ?d k)))" for c using that unl cnode by metis
    moreover have "i_children (raw_by_id ?e k) = i_children (raw_by_id ?d k)" "i_children_count (raw_by_id ?e k) = i_children_count (raw_by_id ?d k)"
      using n f(5,6) by (simp_all add: raw)
    ultimately show ?thesis using ds by (auto simp: dir_sound_def dir_wf_def node_name_def cong: map_cong)
  qed
  have "dsize ?d = dsize ?e" using same by (simp add: same_outside_def)
  then have "block_ok ?e = block_ok ?d" by (auto simp: block_ok_def)
  then have "tree_ok ?e" using pkg_okD(1)[OF i(1)] nh unfolding tree_ok_def look links_ok_def by metis
  moreover have "i_inodeid (raw_by_id ?e k) = k" if "lookup_at ?d k \<noteq> 0" for k
    using pkg_okD(3)[OF i(1) that] n f(4) by (cases "k = x") (simp_all add: raw)
  ultimately have ok: "pkg_ok ?e" unfolding pkg_ok_def look using ty pkg_okD(2)[OF i(1)] dsd nh by simp
  show "pkg_inv s' bs" by (rule w(5)[OF ok]) (use i(2) in \<open>simp add: sole_entries_def lst\<close>)
  have vis: "visited (node_by_id ?e q) = visited (node_by_id ?d q)" for q using n f(5,6) by (simp add: node' node visited_def raw)
  have "child_nodes ?e (node_by_id ?e q) = child_nodes ?d (node_by_id ?d q)" for q
    unfolding child_nodes_def vis
    by (intro arg_cong[where f = "filter _"] map_cong refl cnode unlisted_child[OF i(1) unl])
  moreover have "i_type (node_by_id ?e q) = i_type (node_by_id ?d q)" for q using ty by (simp add: node node')
  ultimately have "child_named ?e q nm = child_named ?d q nm" for q nm by (simp add: child_named_def Let_def)
  then show "same_names ?d ?e" using cnode[of 0] x by (simp add: same_names_def)
qed


section \<open>What the steps keep\<close>

text \<open>A change of one directory's entries.\<close>

lemma dir_step:
  assumes inv: "pkg_inv s bs" and dir: "dir_at (fs_disk s) pid p n" and same: "same_outside p s s'"
    and raw: "\<And>j. raw_by_id (fs_disk s') j = (if j = pid then n' else raw_by_id (fs_disk s) j)"
    and n': "i_type n' = INT_DIRECTORY" "perms n' = perms n"
  shows "others_same (fs_disk s) (fs_disk s') y" and "data_kept (fs_disk s) (fs_disk s') y" and "entry_at (fs_disk s') j = entry_at (fs_disk s) j"
    and "no_links (fs_disk s) \<Longrightarrow> no_links (fs_disk s')"
proof -
  let ?d = "fs_disk s" and ?e = "fs_disk s'"
  have o: "others_same ?d ?e y" for y using dir_atD(4,8)[OF dir] n' by (auto simp: others_same_def raw)
  have k: "data_kept ?d ?e y" for y by (rule same_outside_data[OF inv same dir]) (simp add: raw)
  show "others_same ?d ?e y" "data_kept ?d ?e y" by (rule o, rule k)
  show "entry_at ?e j = entry_at ?d j" by (rule entry_at_frame[OF o[of "j + 1"] k pkg_invD(3)[OF inv]]) simp
  show "no_links ?d \<Longrightarrow> no_links ?e" using n'(1) by (simp add: no_links_def raw)
qed

text \<open>A change of the name and the times of an inode.\<close>

lemma relabel_step:
  assumes inv: "pkg_inv s bs" and nl: "no_links (fs_disk s)" and used: "lookup_at (fs_disk s) x \<noteq> 0" and n: "raw_by_id (fs_disk s) x = n"
    and same: "same_outside (lookup_at (fs_disk s) x) s s'" and self: "inode_at (fs_disk s') (unat (lookup_at (fs_disk s) x)) = n'"
    and tail: "\<forall>a. file_type (i_type n) \<longrightarrow> unat (lookup_at (fs_disk s) x) + 306 \<le> a \<longrightarrow> byte_at (fs_disk s') a = byte_at (fs_disk s) a"
    and f: "i_type n' = i_type n" "i_blocks n' = i_blocks n" "i_dat_len n' = i_dat_len n"
    and g: "perms n' = perms n" "i_nlink n' = i_nlink n" "i_dev n' = i_dev n" "i_rdev n' = i_rdev n"
  shows "others_same (fs_disk s) (fs_disk s') x" and "data_kept (fs_disk s) (fs_disk s') x" and "entry_at (fs_disk s') x = entry_at (fs_disk s) x"
    and "no_links (fs_disk s')"
proof -
  let ?d = "fs_disk s" and ?e = "fs_disk s'" and ?p = "lookup_at (fs_disk s) x"
  note i = pkg_invD[OF inv] and w = inode_write[OF inv used n same self tail f]
  note raw = w(1) and look = w(2) and own = w(3)
  show "others_same ?d ?e x" by (simp add: others_same_def raw)
  have keep: "kept ?d ?e b" if "b \<in> set (own_blocks ?d j)" "b \<noteq> ?p" for j b
    by (rule w(4)[OF block_okD(3)[OF own_block_ok[OF i(1,3) that(1)]] that(2)])
  have "b \<noteq> ?p" if "b \<in> set (own_blocks ?d j)" "j \<noteq> x" for j b using that own_head[OF used] i(7)[OF that(2)] by blast
  then show "data_kept ?d ?e x" using keep unfolding data_kept_def by (auto simp: raw look)
  show "no_links ?e" unfolding no_links_def raw using no_linksD(1,3)[OF nl] n f(1) g(2) by auto
  have store: "file_store ?e x = file_store ?d x" if ft: "file_type (i_type n)"
  proof -
    let ?fs = "file_blocks ?d ?p"
    have sf: "sound_file ?d x ?p ?fs n" using files_soundD[OF i(3), of x] ft n by simp
    then have fa: "file_at ?d ?p ?fs" by (simp add: sound_file_def roomy_def)
    have o: "own_blocks ?d x = ?p # ?fs" "own_blocks ?e x = ?p # file_blocks ?e ?p"
      using used ft n f(1) by (simp_all add: own_blocks_def look raw)
    show ?thesis
    proof (rule file_store_cong[OF _ fa])
      show "file_blocks ?e ?p = ?fs" using o own by simp
      show "kept ?d ?e b" if "b \<in> set ?fs" for b by (rule keep[of _ x]) (use that o(1) file_atD(3)[OF fa] in auto)
    qed (simp add: look)
  qed
  have "i_mask n' = i_mask n" "i_uid n' = i_uid n" "i_gid n' = i_gid n" using g(1) by (simp_all add: perms_def)
  then show "entry_at ?e x = entry_at ?d x" using store n f g(3,4) by (simp add: entry_at_def raw Let_def)
qed

section \<open>The move\<close>

text \<open>
  \<open>s'\<close> is \<open>s\<close> with the inode \<open>n\<close> of the directory \<open>q1\<close> saved as \<open>m\<close> and listed in the directory \<open>q2\<close>: reached through
  \<open>t1\<close>, in which no directory lists it, and \<open>t2\<close>, in which it has its new name.
\<close>

definition unlisted_in :: "fsys \<Rightarrow> inode \<Rightarrow> u16 \<Rightarrow> fsys \<Rightarrow> inode \<Rightarrow> bool" where
  "unlisted_in s q v t q' \<longleftrightarrow> (let p = lookup_at (fs_disk s) (i_inodeid q) in
     dir_at (fs_disk s) (i_inodeid q) p q \<and> dir_at (fs_disk t) (i_inodeid q) p q' \<and> same_outside p s t \<and> ident q' = ident q \<and>
     perms q' = perms q \<and> (\<exists>us vs. used (i_children q) = us @ v # vs \<and> used (i_children q') = us @ vs \<and>
       unat (i_children_count q') = length (us @ vs)))"

definition relisted_in :: "fsys \<Rightarrow> inode \<Rightarrow> u16 \<Rightarrow> fsys \<Rightarrow> inode \<Rightarrow> bool" where
  "relisted_in s q v t q' \<longleftrightarrow> (let p = lookup_at (fs_disk s) (i_inodeid q) in
     dir_at (fs_disk s) (i_inodeid q) p q \<and> dir_at (fs_disk t) (i_inodeid q) p q' \<and> same_outside p s t \<and> ident q' = ident q \<and>
     perms q' = perms q \<and> (\<exists>us vs. used (i_children q) = us @ vs \<and> used (i_children q') = us @ v # vs \<and>
       unat (i_children_count q') = length (us @ v # vs)))"

definition renamed_in :: "fsys \<Rightarrow> inode \<Rightarrow> fsys \<Rightarrow> inode \<Rightarrow> bool" where
  "renamed_in s n t m \<longleftrightarrow> (let p = lookup_at (fs_disk s) (i_inodeid n) in
     same_outside p s t \<and> inode_at (fs_disk t) (unat p) = m \<and>
     (\<forall>a. file_type (i_type n) \<longrightarrow> unat p + 306 \<le> a \<longrightarrow> byte_at (fs_disk t) a = byte_at (fs_disk s) a) \<and>
     (i_type m, i_blocks m, i_dat_len m, i_inodeid m, i_children m, i_children_count m, perms m, i_nlink m, i_dev m, i_rdev m) =
     (i_type n, i_blocks n, i_dat_len n, i_inodeid n, i_children n, i_children_count n, perms n, i_nlink n, i_dev n, i_rdev n))"

lemma move_keeps:
  assumes ses: "ses_inv s bs" and src: "locate (fs_disk s) cs = Some q1" "i_type q1 = INT_DIRECTORY" "locate (fs_disk s) (cs @ [a]) = Some n"
    and dst: "locate (fs_disk s) ds = Some q2" "i_type q2 = INT_DIRECTORY" "locate (fs_disk s) (ds @ [b]) = None"
    and apart: "\<not> path_under (cs @ [a]) ds"
    and t1: "unlisted_in s q1 (i_inodeid n) t1 q1'" and t2: "renamed_in t1 n t2 m" and name: "cstr (i_filename m) = b"
    and s': "relisted_in t2 r2 (i_inodeid n) s' r2'" "i_inodeid r2 = i_inodeid q2" "perms r2 = perms q2"
  shows "ses_inv s' bs" and "abs_of (fs_disk s') = moved (cs @ [a]) (ds @ [b]) (abs_of (fs_disk s))"
proof -
  let ?d = "fs_disk s" and ?d1 = "fs_disk t1" and ?d2 = "fs_disk t2" and ?e = "fs_disk s'" and ?x = "i_inodeid n"
  note f = ses_facts[OF ses]
  obtain c where c: "listed_in ?d (i_inodeid q1) c" "n = raw_by_id ?d c" "node_name ?d c = a"
    using plain_last[OF f(2,5) src(3)] src(1) by auto
  note ln = located_plain[OF f(2,5) src(3)]
  have cx: "c = ?x" using dir_sound_used[OF pkg_okD(4)[OF f(2)]] pkg_okD(3)[OF f(2)] c(1,2) by (auto simp: listed_in_def)
  have x: "?x \<noteq> 0" using c(1) cx by (auto simp: listed_in_def used_def)
  obtain us vs where u1: "dir_at ?d (i_inodeid q1) (lookup_at ?d (i_inodeid q1)) q1" "dir_at ?d1 (i_inodeid q1) (lookup_at ?d (i_inodeid q1)) q1'"
    "same_outside (lookup_at ?d (i_inodeid q1)) s t1" "ident q1' = ident q1" "perms q1' = perms q1"
    "used (i_children q1) = us @ ?x # vs" "used (i_children q1') = us @ vs" "unat (i_children_count q1') = length (us @ vs)"
    using t1 unfolding unlisted_in_def Let_def by blast
  note k1 = unlist_entry[OF f(1) u1(1-4,6-8)]
  have ne1: "?x \<noteq> i_inodeid q1" using located_inj[OF f(2,3,5) src(3) src(1)] by auto
  note d1 = dir_step[OF f(1) u1(1,3) k1(3) dir_atD(4)[OF u1(2)] u1(5)]
  have look1: "lookup_at ?d1 = lookup_at ?d" by (rule same_outside_lookup[OF u1(3) block_okD(1)[OF dir_atD(2)[OF u1(1)]]])
  have raw1: "raw_by_id ?d1 ?x = n" using k1(3)[of ?x] ne1 ln(1) by simp
  have used1: "lookup_at ?d1 ?x \<noteq> 0" using ln(2) by (simp add: look1)
  have r: "same_outside (lookup_at ?d1 ?x) t1 t2" "inode_at ?d2 (unat (lookup_at ?d1 ?x)) = m"
    "\<forall>a. file_type (i_type n) \<longrightarrow> unat (lookup_at ?d1 ?x) + 306 \<le> a \<longrightarrow> byte_at ?d2 a = byte_at ?d1 a"
    "i_type m = i_type n" "i_blocks m = i_blocks n" "i_dat_len m = i_dat_len n" "i_inodeid m = i_inodeid n"
    "i_children m = i_children n" "i_children_count m = i_children_count n" "perms m = perms n" "i_nlink m = i_nlink n"
    "i_dev m = i_dev n" "i_rdev m = i_rdev n"
    using t2 unfolding renamed_in_def Let_def by simp_all
  note k2 = relabel[OF k1(1) d1(4)[OF f(5)] used1 x raw1 k1(2) r(1-9)]
  note d2 = relabel_step[OF k1(1) d1(4)[OF f(5)] used1 raw1 r(1-6,10-13)]
  note w2 = inode_write[OF k1(1) used1 raw1 r(1-6)]
  obtain ws zs where u3: "dir_at ?d2 (i_inodeid q2) (lookup_at ?d2 (i_inodeid q2)) r2" "dir_at ?e (i_inodeid q2) (lookup_at ?d2 (i_inodeid q2)) r2'"
    "same_outside (lookup_at ?d2 (i_inodeid q2)) t2 s'" "ident r2' = ident r2" "perms r2' = perms r2"
    "used (i_children r2) = ws @ zs" "used (i_children r2') = ws @ ?x # zs" "unat (i_children_count r2') = length (ws @ ?x # zs)"
    using s'(1) unfolding relisted_in_def Let_def s'(2) by blast
  have node2: "node_by_id ?d2 ?x = m" using no_linksD(2)[OF d2(4)] w2(1)[of ?x] by simp
  have nm: "node_name ?d2 ?x = b" by (simp add: node_name_def node2 name)
  have ch1: "ident (child_named ?d1 q y) = (if q = i_inodeid q1 \<and> y = a then ident (new_inode 0 INT_INVALID) else ident (child_named ?d q y))" for q y
    using k1(4) c(3) by (simp add: names_upd_def cx)
  have ch2: "ident (child_named ?d2 q y) = ident (child_named ?d1 q y)" for q y using k2(2) by (simp add: same_names_def)
  have root: "i_type (node_by_id ?d 0) \<noteq> INT_INVALID" using f(6) by (simp add: rooted_def)
  have free0: "i_type (child_named ?d (i_inodeid q2) b) = INT_INVALID" using dst(1,3) by (simp add: locate_snoc[OF root] split: if_splits)
  then have "e_type (ident (child_named ?d2 (i_inodeid q2) b)) = INT_INVALID" by (simp add: ch2 ch1 del: ident_simps) (simp add: ident_simps)
  then have free: "i_type (child_named ?d2 (i_inodeid q2) (node_name ?d2 ?x)) = INT_INVALID" by (simp add: nm)
  have ty: "tabled_type (i_type (node_by_id ?d2 ?x))" using ln(3) r(4) by (auto simp: node2 tabled_type_def)
  note k3 = list_entry[OF k2(1) u3(1-4,6-8) ty k2(3) free]
  note d3 = dir_step[OF k2(1) u3(1,3) k3(2) dir_atD(4)[OF u3(2)] u3(5)]
  show ses': "ses_inv s' bs" using k3(1) d3(4)[OF d2(4)] by (simp add: ses_inv_def)
  have names: "ident (child_named ?e q y) = (if q = i_inodeid q2 \<and> y = b then ident m
      else if q = i_inodeid q1 \<and> y = a then ident (new_inode 0 INT_INVALID) else ident (child_named ?d q y))" for q y
    using k3(3) ch1 ch2 by (simp add: names_upd_def nm node2)
  have rt: "ident (node_by_id ?e 0) = ident (node_by_id ?d 0)" using k3(3) k2(2) k1(4) by (simp add: names_upd_def same_names_def)
  have im: "fst (ident m) = i_inodeid n" "e_type (ident m) \<noteq> INT_INVALID" using r(4,7) ln(3) by (auto simp: ident_def e_type_def)
  note pm = path_map_moved[OF f(2,3) pkg_invD(1)[OF k3(1)] rt names src dst im apart]
  have entry: "entry_at ?e j = entry_at ?d j" for j
  proof -
    have "entry_at ?d2 j = entry_at ?d1 j"
      using d2(3) entry_at_frame[OF d2(1,2) pkg_invD(3)[OF k1(1)], of j] by (cases "j = ?x") auto
    then show ?thesis using d1(3)[of j] d3(3)[of j] by simp
  qed
  show "abs_of ?e = moved (cs @ [a]) (ds @ [b]) (abs_of ?d)"
  proof
    fix qs show "abs_of ?e qs = moved (cs @ [a]) (ds @ [b]) (abs_of ?d) qs"
    proof (cases "qs = ds @ [b]")
      case True
      have "moved (cs @ [a]) (ds @ [b]) (abs_of ?d) qs = abs_of ?d (cs @ [a])" using True by (simp add: moved_def)
      also have "\<dots> = Some (entry_at ?d ?x)" by (simp add: abs_of_locate src(3))
      finally show ?thesis using True im(1) by (simp add: abs_of_def pm entry)
    next
      case False
      then show ?thesis by (simp add: abs_of_def pm moved_def entry)
    qed
  qed
qed

end
