(* ===== verification/AppFS_Move.thy ===== *)
theory AppFS_Move
  imports AppFS_Rename
begin

text \<open>
  \<^verbatim>\<open>FS::rename\<close> (\<^verbatim>\<open>libapp/fs.cpp\<close>) as a step of the abstract package.
\<close>

section \<open>The inode with its new name\<close>

definition with_name :: "byte list \<Rightarrow> u64 \<Rightarrow> u64 \<Rightarrow> u64 \<Rightarrow> inode \<Rightarrow> inode" where
  "with_name b at mt ct n = (setFilename b [] n)\<lparr>i_atime := at, i_mtime := mt, i_ctime := ct\<rparr>"

lemma with_name_fields:
  "i_type (with_name b at mt ct n) = i_type n" "i_blocks (with_name b at mt ct n) = i_blocks n" "i_dat_len (with_name b at mt ct n) = i_dat_len n"
  "i_inodeid (with_name b at mt ct n) = i_inodeid n" "i_children (with_name b at mt ct n) = i_children n"
  "i_children_count (with_name b at mt ct n) = i_children_count n" "perms (with_name b at mt ct n) = perms n" "i_nlink (with_name b at mt ct n) = i_nlink n"
  "i_dev (with_name b at mt ct n) = i_dev n" "i_rdev (with_name b at mt ct n) = i_rdev n"
  "i_realid (with_name b at mt ct n) = i_realid n"
  by (simp_all add: with_name_def setFilename_def Let_def perms_def)

lemma with_name_sound:
  assumes name: "length b < 256" "0 \<notin> set b" "b \<noteq> []" and n: "inode_wf n" "stored n = n" "i_type n \<in> plain_types" "i_realid n = 0"
  shows "inode_wf (with_name b at mt ct n)" "stored (with_name b at mt ct n) = with_name b at mt ct n" "inode_verify (with_name b at mt ct n)"
    "cstr (i_filename (with_name b at mt ct n)) = b"
proof -
  let ?m = "with_name b at mt ct n"
  have real: "i_realfilename n = replicate 256 0"
    using arg_cong[OF stored_plain[OF n(3,4)], of i_realfilename] n(2) by (simp add: Let_def split: if_splits)
  have size: "(if length b < 255 then length b else 255) = length b" using name(1) by simp
  have m: "?m = n\<lparr>i_filename := b @ replicate (256 - length b) 0, i_atime := at, i_mtime := mt, i_ctime := ct\<rparr>"
  proof -
    have "map (\<lambda>i. if length b \<le> i then 0 else if i < 0 then [] ! i else i_realfilename n ! i) [0..<256] = i_realfilename n"
      unfolding real by (rule nth_equalityI) auto
    then show ?thesis by (intro inode.equality) (simp_all add: with_name_def setFilename_def Let_def size cong: if_cong)
  qed
  show "cstr (i_filename ?m) = b" using cstr_append_zeros[OF name(2)] by (simp add: m)
  show "inode_wf ?m" using n(1) name(1) by (simp add: m inode_wf_def)
  have "b ! 0 \<noteq> 0" using name(2,3) by (cases b) auto
  then show "inode_verify ?m" using name(3) by (simp add: m inode_verify_def nth_append)
  have "stored ?m = (stored n)\<lparr>i_filename := b @ replicate (256 - length b) 0, i_atime := at, i_mtime := mt, i_ctime := ct\<rparr>"
    using stored_plain[OF n(3,4)] stored_plain[of ?m] n(3,4) by (simp add: m Let_def)
  then show "stored ?m = ?m" by (simp add: m n(2))
qed

section \<open>Saving it\<close>

lemma save_named:
  assumes pos: "lookup_at (fs_disk w) (i_inodeid m) = p" and ok: "block_ok (fs_disk w) p"
    and m: "inode_wf m" "stored m = m" "inode_verify m" "i_type m \<in> plain_types"
  shows "\<exists>s'. saveINode m w = Some (Inr (), s') \<and> same_outside p w s' \<and> inode_at (fs_disk s') (unat p) = m \<and>
    (\<forall>a. file_type (i_type m) \<longrightarrow> unat p + 306 \<le> a \<longrightarrow> byte_at (fs_disk s') a = byte_at (fs_disk w) a)"
proof -
  let ?d = "fs_disk w" and ?r = "getBinaryRepresentation m"
  have ty: "tabled_type (i_type m)" "i_type m \<noteq> INT_INVALID" "i_type m \<noteq> INT_UNSET" using m(4) by (auto simp: tabled_type_def)
  obtain s' where s': "updateINode m w = (E_SUCCESS, s')" "disk_eq (fs_disk s') (put_bytes (unat p) ?r ?d)"
    "fs_cache s' = fs_cache w" "fs_reserved s' = fs_reserved w" "fs_clock s' = fs_clock w"
    using updateINode_disk[OF ty(1) m(3) pos ok] by blast
  have len: "length ?r = repr_size (i_type m)" by (rule length_getBinaryRepresentation[OF m(1)])
  then have le: "length ?r \<le> 4096" using repr_size_le by simp
  have byte: "byte_at (fs_disk s') a = byte_at ?d a" if "\<not> (unat p \<le> a \<and> a < unat p + length ?r)" for a
    using s'(2) that by (auto simp: disk_eq_def byte_at_put_bytes)
  have "dsize (fs_disk s') = dsize ?d" using s'(2) le block_okD(4)[OF ok] by (simp add: disk_eq_def)
  then have "same_outside p w s'" using s'(3-5) byte le by (auto simp: same_outside_def)
  moreover have "inode_at (fs_disk s') (unat p) = m"
    using inode_at_getBinaryRepresentation[OF m(1), where rest = "[]" and p = "unat p" and d = ?d] m(2,3) disk_eq_fields(4)[OF s'(2)] by simp
  moreover have "byte_at (fs_disk s') a = byte_at ?d a" if "file_type (i_type m)" "unat p + 306 \<le> a" for a
  proof -
    have "length ?r = 306" using len that(1) by auto
    then show ?thesis using that(2) by (intro byte) auto
  qed
  moreover have "saveINode m w = Some (Inr (), s')"
    using s'(1) ty by (simp add: saveINode_def bindE_def low_total_def throw_if_def ret_def)
  ultimately show ?thesis by blast
qed

section \<open>A block taken from another package\<close>

text \<open>The states of \<open>move_keeps\<close> between the first and the last are made of blocks of both.\<close>

definition blend :: "u32 \<Rightarrow> fsys \<Rightarrow> fsys \<Rightarrow> fsys" where
  "blend p u s = s\<lparr>fs_disk := put_bytes (unat p) (slice (byte_at (fs_disk u)) (unat p) 4096) (fs_disk s)\<rparr>"

lemma blend_byte: "byte_at (fs_disk (blend p u s)) a = byte_at (fs_disk (if in_block p a then u else s)) a"
  by (auto simp: blend_def byte_at_put_bytes in_block_def)

lemma blend_same:
  assumes "block_ok (fs_disk s) p"
  shows "same_outside p s (blend p u s)" and "dsize (fs_disk (blend p u s)) = dsize (fs_disk s)"
    and "inode_at (fs_disk (blend p u s)) (unat p) = inode_at (fs_disk u) (unat p)"
proof -
  have ne: "slice g (unat p) 4096 \<noteq> []" for g using length_slice[of g "unat p" 4096] by (metis list.size(3) zero_neq_numeral)
  show size: "dsize (fs_disk (blend p u s)) = dsize (fs_disk s)" using block_okD(4)[OF assms] ne by (simp add: blend_def)
  show "same_outside p s (blend p u s)" using size blend_byte[of p u s] by (auto simp: same_outside_def in_block_def blend_def)
  show "inode_at (fs_disk (blend p u s)) (unat p) = inode_at (fs_disk u) (unat p)"
    by (rule inode_at_cong) (simp add: blend_byte in_block_def)
qed

lemma same_outside_block:
  assumes "same_outside q s t" and "block_ok (fs_disk s) q"
  shows "block_ok (fs_disk t) = block_ok (fs_disk s)" and "lookup_at (fs_disk t) = lookup_at (fs_disk s)"
    and "\<not> in_block q a \<Longrightarrow> byte_at (fs_disk t) a = byte_at (fs_disk s) a"
    and "block_ok (fs_disk s) p \<Longrightarrow> p \<noteq> q \<Longrightarrow> inode_at (fs_disk t) (unat p) = inode_at (fs_disk s) (unat p)"
proof -
  show "block_ok (fs_disk t) = block_ok (fs_disk s)" using assms(1) by (auto simp: block_ok_def same_outside_def)
  show "lookup_at (fs_disk t) = lookup_at (fs_disk s)" by (rule same_outside_lookup[OF assms(1) block_okD(1)[OF assms(2)]])
  show b: "\<not> in_block q a \<Longrightarrow> byte_at (fs_disk t) a = byte_at (fs_disk s) a" for a
    using assms(1) by (simp add: same_outside_def in_block_def)
  show "inode_at (fs_disk t) (unat p) = inode_at (fs_disk s) (unat p)" if "block_ok (fs_disk s) p" "p \<noteq> q"
    by (rule inode_at_cong, rule b) (use in_block_unique[OF block_okD(3)[OF that(1)] block_okD(3)[OF assms(2)]] that(2) in \<open>auto simp: in_block_def\<close>)
qed

lemma dir_at_same:
  assumes "dir_at (fs_disk s) pid p n" and "same_outside q s t" and "block_ok (fs_disk s) q" and "p \<noteq> q"
  shows "dir_at (fs_disk t) pid p n"
  using assms(1,4) same_outside_block[OF assms(2,3)] by (auto simp: dir_at_def)

lemma dir_at_blend:
  assumes "dir_at (fs_disk u) pid p n" and "dir_at (fs_disk s) pid p n'"
  shows "dir_at (fs_disk (blend p u s)) pid p n"
proof -
  note b = blend_same[OF dir_atD(2)[OF assms(2)], of u]
  show ?thesis using assms same_outside_block(1,2)[OF b(1) dir_atD(2)[OF assms(2)]] b(3) by (simp add: dir_at_def)
qed

section \<open>The move on disk\<close>

lemma dir_put_perms_ident: "ident (dir_put m v c mt ct n) = ident n" "perms (dir_put m v c mt ct n) = perms n"
  by (simp_all add: ident_dir_put)

lemma unlisted_dir_put:
  assumes "dir_at (fs_disk s) (i_inodeid q) p q" and "dir_sound (fs_disk s) q" and v: "v \<in> set (used (i_children q))"
    and "dir_at (fs_disk t) (i_inodeid q) p (dir_put (slot_index v (i_children q)) 0 (i_children_count q - 1) mt ct q)" and "same_outside p s t"
  shows "unlisted_in s q v t (dir_put (slot_index v (i_children q)) 0 (i_children_count q - 1) mt ct q)"
proof -
  have v': "v \<in> set (i_children q)" "v \<noteq> 0" using v by (simp_all add: used_def)
  have wf: "dir_wf q" using assms(2) by (simp add: dir_sound_def)
  obtain us vs where u: "used (i_children q) = us @ v # vs" "used ((i_children q)[slot_index v (i_children q) := 0]) = us @ vs"
    using used_remove[OF v'] by metis
  have "unat (i_children_count q - 1) = length (us @ vs)"
    using dir_wf_remove(1)[OF wf v', of mt ct] u(2) by (simp add: dir_wf_def dir_put_fields)
  then have "\<exists>us vs. used (i_children q) = us @ v # vs \<and> used ((i_children q)[slot_index v (i_children q) := 0]) = us @ vs \<and>
      unat (i_children_count q - 1) = length (us @ vs)" using u by blast
  then show ?thesis using assms(1,4,5) dir_atD(1)[OF assms(1)] by (simp add: unlisted_in_def dir_put_fields dir_put_perms_ident Let_def)
qed

lemma relisted_dir_put:
  assumes "dir_at (fs_disk s) (i_inodeid q) p q" and wf: "dir_wf q" and v: "v \<noteq> 0" "v \<notin> set (i_children q)" and room: "0 \<in> set (i_children q)"
    and "dir_at (fs_disk t) (i_inodeid q) p (dir_put (slot_index 0 (i_children q)) v (i_children_count q + 1) mt ct q)" and "same_outside p s t"
  shows "relisted_in s q v t (dir_put (slot_index 0 (i_children q)) v (i_children_count q + 1) mt ct q)"
proof -
  obtain us vs where u: "used (i_children q) = us @ vs" "used ((i_children q)[slot_index 0 (i_children q) := v]) = us @ v # vs"
    using used_add[OF room v(1)] by metis
  have "unat (i_children_count q + 1) = length (us @ v # vs)"
    using dir_wf_add[OF wf room dir_atD(7)[OF assms(1)] v, of mt ct] u(2) by (simp add: dir_wf_def dir_put_fields)
  then have "\<exists>us vs. used (i_children q) = us @ vs \<and> used ((i_children q)[slot_index 0 (i_children q) := v]) = us @ v # vs \<and>
      unat (i_children_count q + 1) = length (us @ v # vs)" using u by blast
  then show ?thesis using assms(1,6,7) dir_atD(1)[OF assms(1)] by (simp add: relisted_in_def dir_put_fields dir_put_perms_ident Let_def)
qed

text \<open>What the source of a move is.\<close>

lemma move_source:
  assumes ses: "ses_inv s bs" and src: "locate (fs_disk s) cs = Some q1" "i_type q1 = INT_DIRECTORY" "locate (fs_disk s) (cs @ [a]) = Some n"
  shows "i_inodeid n \<in> set (used (i_children q1))" and "i_inodeid n \<noteq> i_inodeid q1"
    and "dir_at (fs_disk s) (i_inodeid q1) (lookup_at (fs_disk s) (i_inodeid q1)) q1" and "dir_sound (fs_disk s) q1"
proof -
  let ?d = "fs_disk s"
  note f = ses_facts[OF ses]
  note l = locate_directory[OF f(2) src(1,2)]
  obtain c where c: "listed_in ?d (i_inodeid q1) c" "n = raw_by_id ?d c"
    using plain_last[OF f(2,5) src(3)] src(1) by auto
  have "c = i_inodeid n" using dir_sound_used[OF pkg_okD(4)[OF f(2)]] pkg_okD(3)[OF f(2)] c by (auto simp: listed_in_def)
  then show "i_inodeid n \<in> set (used (i_children q1))" using c(1) dir_atD(8)[OF l(1)] by (simp add: listed_in_def)
  show "i_inodeid n \<noteq> i_inodeid q1" using located_inj[OF f(2,3,5) src(3,1)] by auto
  show "dir_at ?d (i_inodeid q1) (lookup_at ?d (i_inodeid q1)) q1" "dir_sound ?d q1" by (rule l(1), rule l(2))
qed

definition relink :: "u16 \<Rightarrow> u16 \<Rightarrow> inode \<Rightarrow> byte list \<Rightarrow> byte list \<Rightarrow> unit act" where
  "relink i1 i2 n b modes = seqE (if i1 \<noteq> i2 then
       bindE (low (addChildToDirectoryINode i2 (i_inodeid n))) (\<lambda>res. seqE (throw_add res)
         (bindE (low (removeChildFromDirectoryINode i1 (i_inodeid n))) throw_remove))
     else ret ()) (bindE (touchINode (setFilename b [] n) modes) saveINode)"

lemma touch_named:
  "\<exists>at mt ct k. touchINode (setFilename b [] n) modes s = Some (Inr (with_name b at mt ct n), s\<lparr>fs_ticks := k\<rparr>)"
  using touchINode_times[of "setFilename b [] n" modes s] by (simp add: with_name_def)

lemma relink_same:
  assumes ses: "ses_inv s bs" and src: "locate (fs_disk s) cs = Some q1" "i_type q1 = INT_DIRECTORY" "locate (fs_disk s) (cs @ [a]) = Some n"
    and free: "locate (fs_disk s) (cs @ [b]) = None" and name: "length b < 256" "0 \<notin> set b" "b \<noteq> []"
  shows "\<exists>s'. relink (i_inodeid q1) (i_inodeid q1) n b modes s = Some (Inr (), s') \<and> ses_inv s' bs \<and>
    abs_of (fs_disk s') = moved (cs @ [a]) (cs @ [b]) (abs_of (fs_disk s))"
proof -
  let ?d = "fs_disk s" and ?x = "i_inodeid n" and ?P = "lookup_at (fs_disk s) (i_inodeid q1)" and ?X = "lookup_at (fs_disk s) (i_inodeid n)"
  note f = ses_facts[OF ses] and m = move_source[OF ses src] and ln = located_plain[OF ses_facts(2,5)[OF ses] src(3)]
  obtain at mt ct k where t: "touchINode (setFilename b [] n) modes s = Some (Inr (with_name b at mt ct n), s\<lparr>fs_ticks := k\<rparr>)"
    using touch_named by blast
  let ?m = "with_name b at mt ct n" and ?w = "s\<lparr>fs_ticks := k\<rparr>"
  have "inode_at ?d (unat ?X) = n" using raw_used[OF pkg_okD(1)[OF f(2)] ln(2)] ln(1) by simp
  note nw = inode_at_wf(1,2)[of ?d "unat ?X", unfolded this, OF ln(3)]
  note wm = with_name_sound[OF name nw ln(3,4)] and wf = with_name_fields[of b at mt ct n]
  have okX: "block_ok ?d ?X" by (rule tree_okD(3)[OF pkg_okD(1)[OF f(2)] ln(2)])
  have okP: "block_ok ?d ?P" by (rule dir_atD(2)[OF m(3)])
  have XP: "?X \<noteq> ?P" using tree_okD(4)[OF pkg_okD(1)[OF f(2)], of ?x "i_inodeid q1"] ln(2) m(2) by auto
  obtain s' where s': "saveINode ?m ?w = Some (Inr (), s')" "same_outside ?X ?w s'" "inode_at (fs_disk s') (unat ?X) = ?m"
    "\<forall>a. file_type (i_type n) \<longrightarrow> unat ?X + 306 \<le> a \<longrightarrow> byte_at (fs_disk s') a = byte_at ?d a"
    using save_named[of ?w ?m ?X] okX wm(1-3) ln(3) by (auto simp: wf)
  have so: "same_outside ?X s s'" using s'(2) by (simp add: same_outside_def)
  have vc: "?x \<in> set (i_children q1)" using m(1) by (simp add: used_def)
  obtain t1 where t1: "dir_at (fs_disk t1) (i_inodeid q1) ?P (dir_put (slot_index ?x (i_children q1)) 0 (i_children_count q1 - 1)
      (fs_clock s (fs_ticks s)) (fs_clock s (Suc (fs_ticks s))) q1)" (is "dir_at _ _ _ ?q'") "same_outside ?P s t1"
    using remove_child_state[OF m(3) vc] by metis
  have un: "unlisted_in s q1 ?x t1 ?q'" by (rule unlisted_dir_put[OF m(3,4,1) t1])
  have ok1: "block_ok (fs_disk t1) = block_ok ?d" "lookup_at (fs_disk t1) = lookup_at ?d" by (rule same_outside_block[OF t1(2) okP])+
  let ?t2 = "blend ?X s' t1"
  note bl = blend_same[of t1 ?X s'] and byte = blend_byte[of ?X s' t1]
  have okX1: "block_ok (fs_disk t1) ?X" using okX by (simp add: ok1)
  have apartX: "\<not> in_block ?P c" if "in_block ?X c" for c
    using in_block_unique[OF block_okD(3)[OF okX] block_okD(3)[OF okP] that] XP by blast
  have rn: "renamed_in t1 n ?t2 ?m"
    unfolding renamed_in_def Let_def ok1(2)
  proof (intro conjI allI impI)
    show "same_outside ?X t1 ?t2" "inode_at (fs_disk ?t2) (unat ?X) = ?m" using bl(1,3)[OF okX1] s'(3) by simp_all
    show "byte_at (fs_disk ?t2) c = byte_at (fs_disk t1) c" if "file_type (i_type n)" "unat ?X + 306 \<le> c" for c
      using s'(4) that same_outside_block(3)[OF t1(2) okP apartX] by (auto simp: byte)
  qed (simp add: wf)
  have d2: "dir_at (fs_disk ?t2) (i_inodeid q1) ?P ?q'" by (rule dir_at_same[OF t1(1) bl(1)[OF okX1] okX1 XP[symmetric]])
  have look2: "lookup_at (fs_disk ?t2) = lookup_at ?d" using same_outside_block(2)[OF bl(1)[OF okX1] okX1] ok1(2) by simp
  have d3: "dir_at (fs_disk s') (i_inodeid q1) ?P q1" by (rule dir_at_same[OF m(3) so okX XP[symmetric]])
  have so3: "same_outside ?P ?t2 s'"
    using so t1(2) bl(1)[OF okX1] byte by (auto simp: same_outside_def in_block_def)
  obtain us vs where u: "used (i_children q1) = us @ ?x # vs" "used (i_children ?q') = us @ vs"
    using un by (auto simp: unlisted_in_def Let_def)
  have cnt: "unat (i_children_count q1) = length (us @ ?x # vs)" using m(4) u(1) by (simp add: dir_sound_def dir_wf_def)
  have idq: "ident q1 = ident ?q'" "perms q1 = perms ?q'" "i_inodeid ?q' = i_inodeid q1"
    using ident_fields[OF dir_put_perms_ident(1)] by (simp_all add: dir_put_perms_ident)
  have rl: "relisted_in ?t2 ?q' ?x s' q1"
    using d2 d3 so3 idq(1,2) u cnt unfolding relisted_in_def Let_def idq(3) look2 by blast
  have ap: "\<not> path_under (cs @ [a]) cs" by (simp add: path_under_def)
  note mv = move_keeps[OF ses src src(1,2) free ap un rn wm(4) rl idq(3) idq(2)[symmetric]]
  have "relink (i_inodeid q1) (i_inodeid q1) n b modes s = Some (Inr (), s')"
    by (simp add: relink_def seqE_def bindE_def ret_def t s'(1))
  then show ?thesis using mv by blast
qed

lemma relink_other:
  assumes ses: "ses_inv s bs" and src: "locate (fs_disk s) cs = Some q1" "i_type q1 = INT_DIRECTORY" "locate (fs_disk s) (cs @ [a]) = Some n"
    and dst: "locate (fs_disk s) ds = Some q2" "i_type q2 = INT_DIRECTORY" "locate (fs_disk s) (ds @ [b]) = None"
    and apart: "\<not> path_under (cs @ [a]) ds" and ne: "cs \<noteq> ds" and slot: "0 \<in> set (i_children q2)"
    and name: "length b < 256" "0 \<notin> set b" "b \<noteq> []"
  shows "\<exists>s'. relink (i_inodeid q1) (i_inodeid q2) n b modes s = Some (Inr (), s') \<and> ses_inv s' bs \<and>
    abs_of (fs_disk s') = moved (cs @ [a]) (ds @ [b]) (abs_of (fs_disk s))"
proof -
  let ?d = "fs_disk s" and ?x = "i_inodeid n" and ?p1 = "i_inodeid q1" and ?p2 = "i_inodeid q2"
  let ?P = "lookup_at ?d ?p1" and ?Q = "lookup_at ?d ?p2" and ?X = "lookup_at ?d ?x"
  note f = ses_facts[OF ses] and m = move_source[OF ses src] and ln = located_plain[OF ses_facts(2,5)[OF ses] src(3)]
  note l2 = locate_directory[OF f(2) dst(1,2)]
  have p12: "?p1 \<noteq> ?p2" using located_inj[OF f(2,3,5) src(1) dst(1)] ne by blast
  have p2x: "?p2 \<noteq> ?x" using located_inj[OF f(2,3,5) dst(1) src(3)] apart by auto
  have "inode_at ?d (unat ?X) = n" using raw_used[OF pkg_okD(1)[OF f(2)] ln(2)] ln(1) by simp
  note nw = inode_at_wf(1,2)[of ?d "unat ?X", unfolded this, OF ln(3)]
  have okX: "block_ok ?d ?X" by (rule tree_okD(3)[OF pkg_okD(1)[OF f(2)] ln(2)])
  have okP: "block_ok ?d ?P" and okQ: "block_ok ?d ?Q" by (rule dir_atD(2)[OF m(3)], rule dir_atD(2)[OF l2(1)])
  note tid = tree_okD(4)[OF pkg_okD(1)[OF f(2)]]
  have XP: "?X \<noteq> ?P" using tid[of ?x ?p1] ln(2) m(2) by auto
  have XQ: "?X \<noteq> ?Q" using tid[of ?x ?p2] ln(2) p2x by auto
  have PQ: "?P \<noteq> ?Q" using tid[of ?p1 ?p2] block_okD(5)[OF okP] p12 by auto
  obtain s1 where s1: "addChildToDirectoryINode ?p2 ?x s = Some (E_SUCCESS, s1)" "dir_at (fs_disk s1) ?p2 ?Q
      (dir_put (slot_index 0 (i_children q2)) ?x (i_children_count q2 + 1) (fs_clock s (fs_ticks s)) (fs_clock s (Suc (fs_ticks s))) q2)"
      (is "dir_at _ _ _ ?r2") "same_outside ?Q s s1"
    using add_child_state[OF l2(1) p2x slot] by metis
  note b1 = same_outside_block[OF s1(3) okQ]
  have vc: "?x \<in> set (i_children q1)" using m(1) by (simp add: used_def)
  obtain s2 where s2: "removeChildFromDirectoryINode ?p1 ?x s1 = Some (E_SUCCESS, s2)" "dir_at (fs_disk s2) ?p1 ?P
      (dir_put (slot_index ?x (i_children q1)) 0 (i_children_count q1 - 1) (fs_clock s1 (fs_ticks s1)) (fs_clock s1 (Suc (fs_ticks s1))) q1)"
      (is "dir_at _ _ _ ?r1") "same_outside ?P s1 s2"
    using remove_child_state[OF dir_at_same[OF m(3) s1(3) okQ PQ] vc] by metis
  have ok2: "block_ok (fs_disk s1) ?P" using okP by (simp add: b1)
  note b2 = same_outside_block[OF s2(3) ok2]
  obtain at mt ct k where t: "touchINode (setFilename b [] n) modes s2 = Some (Inr (with_name b at mt ct n), s2\<lparr>fs_ticks := k\<rparr>)"
    using touch_named by blast
  let ?m = "with_name b at mt ct n" and ?w = "s2\<lparr>fs_ticks := k\<rparr>"
  note wm = with_name_sound[OF name nw ln(3,4)] and wf = with_name_fields[of b at mt ct n]
  have okX2: "block_ok (fs_disk s2) ?X" using okX by (simp add: b1 b2)
  obtain s' where s': "saveINode ?m ?w = Some (Inr (), s')" "same_outside ?X ?w s'" "inode_at (fs_disk s') (unat ?X) = ?m"
    "\<forall>a. file_type (i_type n) \<longrightarrow> unat ?X + 306 \<le> a \<longrightarrow> byte_at (fs_disk s') a = byte_at (fs_disk s2) a"
    using save_named[of ?w ?m ?X] okX2 wm(1-3) ln(3) by (auto simp: wf b1(2) b2(2))
  have so: "same_outside ?X s2 s'" using s'(2) by (simp add: same_outside_def)
  note b3 = same_outside_block[OF so okX2]
  let ?t1 = "blend ?P s' s" and ?t2 = "blend ?X s' (blend ?P s' s)"
  note bl1 = blend_same[OF okP, of s'] and byte = blend_byte
  note c1 = same_outside_block[OF bl1(1) okP]
  have okX1: "block_ok (fs_disk ?t1) ?X" using okX by (simp add: c1)
  note bl2 = blend_same[OF okX1, of s'] and c2 = same_outside_block[OF blend_same(1)[OF okX1, of s'] okX1]
  have apart3: "\<not> in_block ?P c \<and> \<not> in_block ?Q c" if "in_block ?X c" for c
    using in_block_unique[OF block_okD(3)[OF okX] _ that] block_okD(3)[OF okP] block_okD(3)[OF okQ] XP XQ by metis
  have r1: "dir_at (fs_disk s') ?p1 ?P ?r1" by (rule dir_at_same[OF s2(2) so okX2 XP[symmetric]])
  have un: "unlisted_in s q1 ?x ?t1 ?r1" by (rule unlisted_dir_put[OF m(3,4,1) dir_at_blend[OF r1 m(3)] bl1(1)])
  have rn: "renamed_in ?t1 n ?t2 ?m"
    unfolding renamed_in_def Let_def c1(2)
  proof (intro conjI allI impI)
    show "same_outside ?X ?t1 ?t2" "inode_at (fs_disk ?t2) (unat ?X) = ?m" using bl2(1,3) s'(3) by simp_all
    show "byte_at (fs_disk ?t2) c = byte_at (fs_disk ?t1) c" if "file_type (i_type n)" "unat ?X + 306 \<le> c" for c
      using s'(4) that apart3[of c] b1(3)[of c] b2(3)[of c] by (auto simp: byte)
  qed (simp add: wf)
  have d2: "dir_at (fs_disk ?t2) ?p2 ?Q q2"
    by (rule dir_at_same[OF dir_at_same[OF l2(1) bl1(1) okP PQ[symmetric]] bl2(1) okX1 XQ[symmetric]])
  have d3: "dir_at (fs_disk s') ?p2 ?Q ?r2"
    by (rule dir_at_same[OF dir_at_same[OF s1(2) s2(3) ok2 PQ[symmetric]] so okX2 XQ[symmetric]])
  have so3: "same_outside ?Q ?t2 s'"
    using s1(3) s2(3) so bl1(1) bl2(1) byte by (auto simp: same_outside_def in_block_def)
  have wf2: "dir_wf q2" using l2(2) by (simp add: dir_sound_def)
  have x0: "?x \<noteq> 0" using m(1) by (simp add: used_def)
  have "\<not> listed_in ?d ?p2 ?x"
    using f(3) m(1) dir_atD(4,8)[OF m(3)] p12 unfolding sole_entries_def listed_in_def by metis
  then have new: "?x \<notin> set (i_children q2)" using dir_atD(4,8)[OF l2(1)] x0 by (simp add: listed_in_def used_def)
  have rl: "relisted_in ?t2 q2 ?x s' ?r2"
    using relisted_dir_put[OF _ wf2 x0 new slot] d2 d3 so3 by blast
  note mv = move_keeps[OF ses src dst apart un rn wm(4) rl refl refl]
  have "relink ?p1 ?p2 n b modes s = Some (Inr (), s')"
    using p12 by (simp add: relink_def seqE_def bindE_def low_def ret_def t s'(1) s1(1) s2(1) throw_add_def throw_remove_def)
  then show ?thesis using mv by blast
qed

lemma relink_moves:
  assumes "ses_inv s bs" and src: "locate (fs_disk s) cs = Some q1" "i_type q1 = INT_DIRECTORY" "locate (fs_disk s) (cs @ [a]) = Some n"
    and dst: "locate (fs_disk s) ds = Some q2" "i_type q2 = INT_DIRECTORY" "locate (fs_disk s) (ds @ [b]) = None"
    and "\<not> path_under (cs @ [a]) ds" and "cs \<noteq> ds \<Longrightarrow> 0 \<in> set (i_children q2)" and "length b < 256" "0 \<notin> set b" "b \<noteq> []"
  shows "\<exists>s'. relink (i_inodeid q1) (i_inodeid q2) n b modes s = Some (Inr (), s') \<and> ses_inv s' bs \<and>
    abs_of (fs_disk s') = moved (cs @ [a]) (ds @ [b]) (abs_of (fs_disk s))"
proof (cases "cs = ds")
  case True
  then have "q2 = q1" using src(1) dst(1) by simp
  then show ?thesis using relink_same[OF assms(1-4)] assms(7,10-12) True by simp
qed (use relink_other assms in blast)

section \<open>The checks\<close>

lemma sticky_entry:
  assumes ses: "ses_inv s bs" and "locate (fs_disk s) ds = Some q" and "locate (fs_disk s) us = Some old"
  shows "sticky cred (entry_at (fs_disk s) (i_inodeid q)) (entry_at (fs_disk s) (i_inodeid old)) \<longleftrightarrow>
    i_mask q AND 0x200 \<noteq> 0 \<and> \<not> (ucast (i_uid old) = fst cred \<or> ucast (i_uid q) = fst cred)"
  unfolding sticky_def using entry_at_fields(1,2)[OF ses_facts(2,5)[OF ses]] assms(2,3) by metis

lemma ensurePathRenamability_eq:
  assumes ses: "ses_inv s bs" and ne: "components path \<noteq> []"
  shows "ensurePathRenamability path (fst cred) s = Some (case path_error path of Some e \<Rightarrow> Inl e
    | None \<Rightarrow> case abs_of (fs_disk s) (butlast (components path)) of None \<Rightarrow> Inl FileNotFound
    | Some dir \<Rightarrow> if \<exists>old. abs_of (fs_disk s) (components path) = Some old \<and> sticky cred dir old then Inl AccessDenied else Inr (), s)"
proof -
  let ?d = "fs_disk s"
  note ro = ses_facts(6)[OF ses]
  note eqs = ensurePathIsAvailable_eq[OF ro ne] rooted_need(1)[OF ro, of path] rooted_need(2)[OF ro ne]
  show ?thesis
  proof (cases "path_error path")
    case None
    show ?thesis
    proof (cases "locate ?d (butlast (components path))")
      case N: None
      then show ?thesis using None by (simp add: ensurePathRenamability_def catch_exn_def eqs abs_of_locate)
    next
      case (Some q)
      show ?thesis
      proof (cases "locate ?d (components path)")
        case N: None
        then show ?thesis using None Some by (simp add: ensurePathRenamability_def catch_exn_def eqs abs_of_locate)
      next
        case old: (Some old)
        show ?thesis using None Some old
          by (simp add: ensurePathRenamability_def catch_exn_def bindE_def eqs abs_of_locate throw_if_def throw_def ret_def
              sticky_entry[OF ses Some old])
      qed
    qed
  qed (simp add: ensurePathRenamability_def catch_exn_def eqs path_error_def split: if_splits)
qed

text \<open>What is at the new path goes first.\<close>

lemma retrieve_eq:
  assumes "ses_inv s bs" and "path_error path = None"
  shows "\<exists>out. retrievePathToINode path s =
    Some (Inr (case locate (fs_disk s) (components path) of Some n \<Rightarrow> (True, n) | None \<Rightarrow> (False, out)), s)"
proof -
  have t: "table_ok (fs_disk s)" "links_ok (fs_disk s)" using ses_facts(6)[OF assms(1)] by (simp_all add: rooted_def)
  then show ?thesis
    using need_retrieve_components[OF t, of "components path"] assms(2)
    by (simp add: retrievePathToINode_def seqE_def bindE_def ensurePathIsValid_eq splitPathBySeperators_components)
qed

lemma replace_old:
  assumes ses: "ses_inv s bs" and valid: "path_error path = None" and ne: "components path \<noteq> []"
    and old: "locate (fs_disk s) (components path) = Some old"
  shows "i_type old = INT_DIRECTORY \<Longrightarrow> has_child (abs_of (fs_disk s)) (components path) \<Longrightarrow> rmdir path s = Some (Inl DirectoryNotEmpty, s)"
    and "\<not> (i_type old = INT_DIRECTORY \<and> has_child (abs_of (fs_disk s)) (components path)) \<Longrightarrow>
      \<exists>s'. (if i_type old = INT_DIRECTORY then rmdir path else unlink path) s = Some (Inr (), s') \<and> removed s bs (components path) (i_inodeid old) s'"
proof -
  let ?d = "fs_disk s"
  note f = ses_facts[OF ses] and l = located_plain[OF ses_facts(2,5)[OF ses] old]
  have path: "components path = butlast (components path) @ [last (components path)]" using ne by simp
  have old': "locate ?d (butlast (components path) @ [last (components path)]) = Some old" using old ne by simp
  show "rmdir path s = Some (Inl DirectoryNotEmpty, s)" if "i_type old = INT_DIRECTORY" "has_child (abs_of ?d) (components path)"
    using rmdir_refused(2)[OF f(6) valid ne old that(1)] no_children_iff(1)[OF ses old that(1)] that(2) by simp
  assume a: "\<not> (i_type old = INT_DIRECTORY \<and> has_child (abs_of ?d) (components path))"
  show "\<exists>s'. (if i_type old = INT_DIRECTORY then rmdir path else unlink path) s = Some (Inr (), s') \<and> removed s bs (components path) (i_inodeid old) s'"
  proof (cases "i_type old = INT_DIRECTORY")
    case True
    then have "i_children_count old = 0" using a no_children_iff(1)[OF ses old True] by simp
    from rmdir_removes[OF f(1) valid path old' True this] show ?thesis using True ne by simp
  next
    case False
    have ty: "i_type old \<in> {INT_FILEINFO, INT_SYMLINK, INT_DEVICE}" using l(3) False by auto
    have nlk: "i_nlink old = 1" using no_linksD(3)[OF f(5), of "i_inodeid old"] ty unfolding l(1) by blast
    from unlink_removes[OF f(1) valid path old' ty l(4) nlk] show ?thesis using no_linksD(1)[OF f(5)] ne False by auto
  qed
qed

text \<open>The package without the entry that is replaced.\<close>

lemma moved_replaced: "\<not> path_under src dst \<Longrightarrow> moved src dst (A(dst := v)) = moved src dst A"
proof
  fix qs assume "\<not> path_under src dst"
  then have "src @ zs \<noteq> dst" for zs by (metis path_under_append(1))
  then show "moved src dst (A(dst := v)) qs = moved src dst A qs" by (auto simp: moved_def)
qed

lemma relink_replaces:
  assumes ses: "ses_inv s bs" and src: "locate (fs_disk s) cs = Some q1" "i_type q1 = INT_DIRECTORY" "locate (fs_disk s) (cs @ [a]) = Some n"
    and dst: "locate (fs_disk s) ds = Some q2" "i_type q2 = INT_DIRECTORY" "locate (fs_disk s) (ds @ [b]) = Some old"
    and apart: "\<not> path_under (cs @ [a]) ds" and leaf: "\<not> (i_type old = INT_DIRECTORY \<and> has_child (abs_of (fs_disk s)) (ds @ [b]))"
    and name: "length b < 256" "0 \<notin> set b" "b \<noteq> []" and ne: "cs @ [a] \<noteq> ds @ [b]"
    and r: "removed s bs (ds @ [b]) (i_inodeid old) t"
  shows "\<exists>s' bs'. relink (i_inodeid q1) (i_inodeid q2) n b modes t = Some (Inr (), s') \<and> ses_inv s' bs' \<and>
    abs_of (fs_disk s') = moved (cs @ [a]) (ds @ [b]) (abs_of (fs_disk s))"
proof -
  let ?d = "fs_disk s" and ?e = "fs_disk t"
  note f = ses_facts[OF ses]
  obtain bs' where ses': "ses_inv t bs'" and abs: "abs_of ?e = (abs_of ?d)(ds @ [b] := None)" using removed_step[OF ses r dst(3)] by blast
  note g = ses_facts[OF ses']
  have pm: "path_map ?e = (path_map ?d)(ds @ [b] := None)" using r by (simp add: removed_def)
  have other: "\<exists>m'. locate ?e us = Some m' \<and> ident m' = ident m" if "locate ?d us = Some m" "us \<noteq> ds @ [b]" for us m
    using fun_cong[OF pm, of us] that by (auto simp: path_map_def)
  have csd: "cs \<noteq> ds @ [b]"
  proof
    assume eq: "cs = ds @ [b]"
    then have "old = q1" using src(1) dst(3) by simp
    moreover have "abs_of ?d ((ds @ [b]) @ [a]) \<noteq> None" using src(3) eq by (simp add: abs_of_locate)
    ultimately show False using leaf src(2) unfolding has_child_def by blast
  qed
  obtain q1' where q1': "locate ?e cs = Some q1'" "ident q1' = ident q1" using other[OF src(1) csd] by blast
  obtain q2' where q2': "locate ?e ds = Some q2'" "ident q2' = ident q2" using other[OF dst(1)] by auto
  obtain n' where n': "locate ?e (cs @ [a]) = Some n'" "ident n' = ident n" using other[OF src(3) ne] by blast
  note i = ident_fields[OF q1'(2)] ident_fields[OF q2'(2)] ident_fields[OF n'(2)]
  have "i_inodeid n \<noteq> i_inodeid old" using located_inj[OF f(2,3,5) src(3) dst(3)] ne by blast
  moreover have "i_inodeid n \<noteq> i_inodeid q2" using located_inj[OF f(2,3,5) src(3) dst(1)] apart by auto
  ultimately have "raw_by_id ?e (i_inodeid n) = raw_by_id ?d (i_inodeid n)" using r dst(1) by (simp add: removed_def)
  moreover have ni: "i_inodeid n' = i_inodeid n" using i by blast
  moreover note located_plain(1)[OF g(2,5) n'(1)] located_plain(1)[OF f(2,5) src(3)]
  ultimately have n: "n' = n" by metis
  have free: "locate ?e (ds @ [b]) = None" using fun_cong[OF pm, of "ds @ [b]"] by (simp add: path_map_def)
  have "0 \<in> set (i_children (raw_by_id ?e (i_inodeid q2)))" using r dst(1) by (simp add: removed_def)
  moreover have qi: "i_inodeid q1' = i_inodeid q1" "i_inodeid q2' = i_inodeid q2" using i by blast+
  moreover note located_plain(1)[OF g(2,5) q2'(1)]
  ultimately have slot: "0 \<in> set (i_children q2')" by metis
  have ty: "i_type q1' = INT_DIRECTORY" "i_type q2' = INT_DIRECTORY" using i src(2) dst(2) by simp_all
  obtain s' where s': "relink (i_inodeid q1) (i_inodeid q2) n b modes t = Some (Inr (), s')" "ses_inv s' bs'"
    "abs_of (fs_disk s') = moved (cs @ [a]) (ds @ [b]) (abs_of ?e)"
    using relink_moves[OF ses' q1'(1) ty(1) n'(1) q2'(1) ty(2) free apart slot name, of modes] unfolding qi n by blast
  have "\<not> path_under (cs @ [a]) (ds @ [b])" using apart ne by (simp add: path_under_snoc)
  then show ?thesis using s' unfolding abs by (metis moved_replaced)
qed

text \<open>An inode whose own entry was the one replaced cannot be saved.\<close>

lemma relink_gone:
  assumes "lookup_at (fs_disk t) (i_inodeid n) = 0" and "i_type n \<in> plain_types"
  shows "\<exists>k. relink i i n b modes t = Some (Inl INodeSaveFailed, t\<lparr>fs_ticks := k\<rparr>)"
proof -
  obtain at mt ct k where t: "touchINode (setFilename b [] n) modes t = Some (Inr (with_name b at mt ct n), t\<lparr>fs_ticks := k\<rparr>)"
    using touch_named by blast
  have "saveINode (with_name b at mt ct n) (t\<lparr>fs_ticks := k\<rparr>) = Some (Inl INodeSaveFailed, t\<lparr>fs_ticks := k\<rparr>)"
    using assms by (auto simp: saveINode_def bindE_def low_total_def throw_if_def throw_def updateINode_def with_name_fields getINodePositionByID_eq)
  then show ?thesis using t by (intro exI[of _ k]) (simp add: relink_def seqE_def bindE_def ret_def)
qed

section \<open>Renaming obeys its contract\<close>

definition rename_found :: "byte list \<Rightarrow> byte list \<Rightarrow> inode \<Rightarrow> unit act" where
  "rename_found src dst n =
     bindE (need (retrieveParentPathToINode src)) (\<lambda>q1. bindE (need (retrieveParentPathToINode dst)) (\<lambda>q2.
     bindE (retrievePathToINode dst) (\<lambda>(found, prev).
     seqE (if found then (if i_type prev = INT_DIRECTORY then rmdir dst else unlink dst) else ret ())
       (relink (i_inodeid q1) (i_inodeid q2) n (cstr (extractBasenameFromPath dst)) mode_c))))"

lemma rename_eq:
  "rename cred src dst = seqE (ensurePathRenamability dst (fst cred)) (seqE (ensurePathExists src)
     (bindE (need (retrievePathToINode src)) (rename_found src dst)))"
  unfolding rename_def rename_found_def relink_def ..

lemma basename_last:
  assumes "path_error path = None" and "components path = ds @ [b]"
  shows "cstr (extractBasenameFromPath path) = b" and "length b < 256" "0 \<notin> set b" "b \<noteq> []"
proof -
  show b: "length b < 256" "0 \<notin> set b" "b \<noteq> []"
    using valid_path_parts[OF assms(1), of b] components_sound[of b path] by (simp_all add: assms(2))
  show "cstr (extractBasenameFromPath path) = b"
    using cstr_append_zeros[OF b(2), of 0]
    by (simp add: extractBasenameFromPath_def splitPathBySeperators_components assms(2) Let_def nth_append)
qed

lemma rename_found_cases:
  assumes ses: "ses_inv s bs" and can: "renamable s src dst" and valid: "path_error src = None" "path_error dst = None"
    and n: "locate (fs_disk s) (components src) = Some n" and dir: "locate (fs_disk s) (butlast (components dst)) = Some q2"
  shows "\<exists>r s' bs'. rename_found src dst n s = Some (r, s') \<and> ses_inv s' bs' \<and>
    (if \<exists>old. abs_of (fs_disk s) (components dst) = Some old \<and> en_type old = INT_DIRECTORY \<and> has_child (abs_of (fs_disk s)) (components dst)
     then (- 39, abs_of (fs_disk s))
     else if components src = components dst then (handleException INodeSaveFailed, (abs_of (fs_disk s))(components dst := None))
     else (0, moved (components src) (components dst) (abs_of (fs_disk s)))) = (number r, abs_of (fs_disk s'))"
proof -
  let ?d = "fs_disk s" and ?A = "abs_of (fs_disk s)"
  note f = ses_facts[OF ses]
  obtain cs a ds b where p: "components src = cs @ [a]" "components dst = ds @ [b]"
    using can by (metis renamable_def rev_exhaust)
  have ne: "components src \<noteq> []" "components dst \<noteq> []" by (simp_all add: p)
  have apart: "\<not> path_under (cs @ [a]) ds" and q2: "i_type q2 = INT_DIRECTORY" and
    slot: "cs \<noteq> ds \<longrightarrow> locate ?d (ds @ [b]) = None \<longrightarrow> 0 \<in> set (i_children q2)"
    using can valid(2) dir by (simp_all add: renamable_def p Let_def)
  obtain q1 c where q1: "locate ?d cs = Some q1" "i_type q1 = INT_DIRECTORY"
    using plain_last[OF f(2,5) n[unfolded p]] by blast
  note name = basename_last[OF valid(2) p(2)]
  have par: "need (retrieveParentPathToINode src) s = Some (Inr q1, s)" "need (retrieveParentPathToINode dst) s = Some (Inr q2, s)"
    using rooted_need(2)[OF f(6) ne(1)] rooted_need(2)[OF f(6) ne(2)] valid q1(1) dir by (simp_all add: p)
  have old_entry: "(\<exists>old. ?A (components dst) = Some old \<and> en_type old = INT_DIRECTORY \<and> has_child ?A (components dst)) \<longleftrightarrow>
      i_type old = INT_DIRECTORY \<and> has_child ?A (components dst)" if "locate ?d (components dst) = Some old" for old
    using that entry_at_fields(4)[OF f(2,5) that] by (simp add: abs_of_locate)
  obtain out where ret: "retrievePathToINode dst s = Some (Inr (case locate ?d (components dst) of Some n \<Rightarrow> (True, n) | None \<Rightarrow> (False, out)), s)"
    using retrieve_eq[OF ses valid(2)] by blast
  show ?thesis
  proof (cases "locate ?d (components dst)")
    case None
    have run: "rename_found src dst n s = relink (i_inodeid q1) (i_inodeid q2) n b mode_c s"
      by (simp add: rename_found_def bindE_def seqE_def par ret None ret_def name(1))
    have df: "locate ?d (ds @ [b]) = None" using None by (simp add: p)
    have diff: "components src \<noteq> components dst" using n None by auto
    show ?thesis
      using relink_moves[OF ses q1 n[unfolded p] dir[unfolded p butlast_snoc] q2 df apart _ name(2-4), of mode_c] slot df diff None unfolding run
      by (auto simp: abs_of_locate p intro!: exI[of _ "Inr ()"])
  next
    case (Some old)
    note gone = replace_old[OF ses valid(2) ne(2) Some]
    let ?rm = "if i_type old = INT_DIRECTORY then rmdir dst else unlink dst"
    have run: "rename_found src dst n s = (case ?rm s of None \<Rightarrow> None | Some (Inl e, t) \<Rightarrow> Some (Inl e, t)
      | Some (Inr x, t) \<Rightarrow> relink (i_inodeid q1) (i_inodeid q2) n b mode_c t)"
      by (simp add: rename_found_def bindE_def[of "need _"] par bindE_def[of "retrievePathToINode _"] ret Some name(1))
         (simp add: seqE_def bindE_def)
    show ?thesis
    proof (cases "i_type old = INT_DIRECTORY \<and> has_child ?A (components dst)")
      case True
      have "rename_found src dst n s = Some (Inl DirectoryNotEmpty, s)" using gone(1) True unfolding run by simp
      then show ?thesis using ses True unfolding old_entry[OF Some] by (intro exI[of _ "Inl DirectoryNotEmpty"] exI[of _ s] exI[of _ bs]) simp
    next
      case False
      obtain t where t: "?rm s = Some (Inr (), t)" "removed s bs (components dst) (i_inodeid old) t" using gone(2)[OF False] by blast
      obtain bs' where st: "ses_inv t bs'" "abs_of (fs_disk t) = ?A(components dst := None)" using removed_step[OF ses t(2) Some] by blast
      show ?thesis
      proof (cases "components src = components dst")
        case True
        then have eq: "old = n" "q1 = q2" using n Some q1(1) dir p by auto
        have "lookup_at (fs_disk t) (i_inodeid n) = 0" using t(2) eq by (simp add: removed_def)
        then obtain k where k: "relink (i_inodeid q1) (i_inodeid q2) n b mode_c t = Some (Inl INodeSaveFailed, t\<lparr>fs_ticks := k\<rparr>)"
          using relink_gone[OF _ located_plain(3)[OF f(2,5) n]] eq(2) by blast
        show ?thesis
          using False True k t(1) st ses_inv_time[OF st(1), of k] unfolding run old_entry[OF Some]
          by (intro exI[of _ "Inl INodeSaveFailed"] exI[of _ "t\<lparr>fs_ticks := k\<rparr>"] exI[of _ bs']) simp
      next
        case diff: False
        obtain s' bs'' where s': "relink (i_inodeid q1) (i_inodeid q2) n b mode_c t = Some (Inr (), s')" "ses_inv s' bs''"
          "abs_of (fs_disk s') = moved (cs @ [a]) (ds @ [b]) ?A"
          using relink_replaces[OF ses q1 n[unfolded p] dir[unfolded p butlast_snoc] q2 Some[unfolded p] apart _ name(2-4) _ t(2)[unfolded p], of mode_c]
            False diff unfolding p by blast
        show ?thesis
          using False diff s' t(1) unfolding run old_entry[OF Some] unfolding p
          by (intro exI[of _ "Inr ()"] exI[of _ s'] exI[of _ bs'']) simp
      qed
    qed
  qed
qed

lemma rename_obeys:
  assumes ses: "ses_inv s bs" and can: "renamable s src dst"
  shows "obeys cred (Req_rename src dst) s (rename cred src dst)"
proof -
  let ?A = "abs_of (fs_disk s)" and ?q = "components dst"
  have ne: "?q \<noteq> []" using can by (simp add: renamable_def Let_def)
  note check = ensurePathRenamability_eq[OF ses ne, of cred]
  have refused: "obeys cred (Req_rename src dst) s (rename cred src dst)"
    if "ensurePathRenamability dst (fst cred) s = Some (Inl e, s)" "renaming cred src dst ?A = (handleException e, ?A)" for e
    using that ses by (intro obeysI[where r = "Inl e" and s' = s and bs = bs]) (simp_all add: rename_eq seqE_def bindE_def)
  show ?thesis
  proof (cases "path_error dst")
    case (Some e)
    then show ?thesis using refused[of e] check by (simp add: renaming_def)
  next
    case valid: None
    show ?thesis
    proof (cases "locate (fs_disk s) (butlast ?q)")
      case None
      then show ?thesis using refused[of FileNotFound] check valid by (simp add: renaming_def abs_of_locate)
    next
      case (Some q2)
      let ?dir = "entry_at (fs_disk s) (i_inodeid q2)"
      have dir: "?A (butlast ?q) = Some ?dir" using Some by (simp add: abs_of_locate)
      show ?thesis
      proof (cases "\<exists>old. ?A ?q = Some old \<and> sticky cred ?dir old")
        case True
        then show ?thesis using refused[of AccessDenied] check valid dir by (simp add: renaming_def)
      next
        case False
        show ?thesis
        proof (rule obeys_need[OF ses])
          have "rename cred src dst s = seqE (ensurePathExists src) (bindE (need (retrievePathToINode src)) (rename_found src dst)) s"
            using check valid dir False by (simp add: rename_eq seqE_def[of "ensurePathRenamability _ _"] bindE_def[of "ensurePathRenamability _ _"])
          then show "rename cred src dst s = bindE (need (retrievePathToINode src)) (rename_found src dst) s"
            by (simp only: exists_need[OF ses])
          show "effect zeros cred (Req_rename src dst) ?A = resolve src ?A (\<lambda>_.
              if \<exists>old. ?A ?q = Some old \<and> en_type old = INT_DIRECTORY \<and> has_child ?A ?q then (- 39, ?A)
              else if components src = ?q then (handleException INodeSaveFailed, ?A(?q := None))
              else (0, moved (components src) ?q ?A))"
            unfolding effect.simps renaming_def Let_def valid dir option.case if_not_P[OF False] ..
          fix n assume "path_error src = None" "locate (fs_disk s) (components src) = Some n"
          from rename_found_cases[OF ses can this(1) valid this(2) Some]
          show "\<exists>r s' bs'. rename_found src dst n s = Some (r, s') \<and> ses_inv s' bs' \<and>
            (if \<exists>old. ?A ?q = Some old \<and> en_type old = INT_DIRECTORY \<and> has_child ?A ?q then (- 39, ?A)
             else if components src = ?q then (handleException INodeSaveFailed, ?A(?q := None))
             else (0, moved (components src) ?q ?A)) = (number r, abs_of (fs_disk s'))" .
        qed
      qed
    qed
  qed
qed

end
