(* ===== verification/AppFS_Content.thy ===== *)
theory AppFS_Content
  imports AppFS_Move
begin

text \<open>
  Reading, writing and truncating as steps of the abstract package.
\<close>

section \<open>A file that changed\<close>

lemma file_changed_abs:
  assumes ses: "ses_inv s bs" and n: "locate (fs_disk s) cs = Some n" and ty: "file_type (i_type n)"
    and ch: "file_changed s bs' (i_inodeid n) n' st s'"
    and same: "i_type n' = i_type n" "i_nlink n' = i_nlink n" "perms n' = perms n"
  shows "ses_inv s' bs'" and "abs_of (fs_disk s') = (abs_of (fs_disk s))
    (cs \<mapsto> (entry_at (fs_disk s) (i_inodeid n))\<lparr>en_len := unat (i_dat_len n'), en_store := st\<rparr>)"
proof -
  note f = ses_facts[OF ses]
  have c: "pkg_inv s' bs'" "path_map (fs_disk s') = path_map (fs_disk s)"
    "\<And>j. raw_by_id (fs_disk s') j = (if j = i_inodeid n then n' else raw_by_id (fs_disk s) j)"
    "data_kept (fs_disk s) (fs_disk s') (i_inodeid n)" "file_store (fs_disk s') (i_inodeid n) = st"
    using ch by (simp_all add: file_changed_def)
  note k = ses_change[OF ses c(1-4) n same(1,2)]
  show "ses_inv s' bs'" by (rule k(1))
  have "entry_at (fs_disk s') (i_inodeid n) = (entry_at (fs_disk s) (i_inodeid n))\<lparr>en_len := unat (i_dat_len n'), en_store := st\<rparr>"
    unfolding entry_located[OF f(2,5) n] using ty same c(5) by (auto simp: entry_at_def c(3) perms_def Let_def)
  then show "abs_of (fs_disk s') = (abs_of (fs_disk s))
    (cs \<mapsto> (entry_at (fs_disk s) (i_inodeid n))\<lparr>en_len := unat (i_dat_len n'), en_store := st\<rparr>)" using k(2) by simp
qed

lemma padded_pad_to: "len < 2 ^ 32 \<Longrightarrow> padded gap (of_nat len) st = pad_to gap len st"
  by (simp add: padded_def pad_to_def ceil_blocks_def unat_of_nat_small)

lemma file_length_bound:
  assumes inv: "pkg_inv s bs" and "raw_by_id (fs_disk s) x = n" and "file_type (i_type n)"
  shows "unat (i_dat_len n) \<le> 4096 * 946"
    and "length (file_store (fs_disk s) x) = 4096 * ceil_blocks (i_dat_len n)"
    and "i_blocks n = of_nat (ceil_blocks (i_dat_len n))"
proof -
  have sf: "sound_file (fs_disk s) x (lookup_at (fs_disk s) x) (file_blocks (fs_disk s) (lookup_at (fs_disk s) x)) n"
    using files_soundD[OF pkg_invD(3)[OF inv], of x] assms(2,3) by simp
  then have l: "length (file_blocks (fs_disk s) (lookup_at (fs_disk s) x)) = ceil_blocks (i_dat_len n)"
    and fa: "file_at (fs_disk s) (lookup_at (fs_disk s) x) (file_blocks (fs_disk s) (lookup_at (fs_disk s) x))"
    by (simp_all add: sound_file_def roomy_def)
  then show "unat (i_dat_len n) \<le> 4096 * 946" using ceil_blocks_bound(2)[of "i_dat_len n" 946] file_atD(6)[OF fa] by simp
  show "length (file_store (fs_disk s) x) = 4096 * ceil_blocks (i_dat_len n)" using l by (simp add: file_store_def Let_def)
  show "i_blocks n = of_nat (ceil_blocks (i_dat_len n))" using sf l by (simp add: sound_file_def)
qed

section \<open>Truncating\<close>

lemma zeros_ok: "gap_ok s zeros"
  by (simp add: gap_ok_def)

lemma fit_to_cases:
  "length st \<le> 4096 * ((len + 4095) div 4096) \<Longrightarrow> fit_to gap len st = pad_to gap len st"
  "4096 * ((len + 4095) div 4096) \<le> length st \<Longrightarrow> fit_to gap len st = take (4096 * ((len + 4095) div 4096)) st"
  by (simp_all add: fit_to_def pad_to_def)

lemma file_resize:
  assumes inv: "pkg_inv s bs" and n: "raw_by_id (fs_disk s) x = n" "file_type (i_type n)" and sz: "sz < 2 ^ 32"
    and grow: "unat (i_dat_len n) < sz \<Longrightarrow> can_grow s n sz"
  shows "\<exists>t bs' gap. truncateFile x (of_nat sz) s = Some (E_SUCCESS, t) \<and> gap_ok s gap \<and>
    file_changed s bs' x (resized (of_nat sz) n) (fit_to gap sz (file_store (fs_disk s) x)) t"
proof -
  let ?st = "file_store (fs_disk s) x"
  have u: "unat (of_nat sz :: u32) = sz" by (rule unat_of_nat_small[OF sz])
  have blocks: "4096 * ((sz + 4095) div 4096) = 4096 * ceil_blocks (of_nat sz)" by (simp add: ceil_blocks_def u)
  note len = file_length_bound(2)[OF inv n] and mono = ceil_blocks_mono
  consider "i_dat_len n < of_nat sz" | "of_nat sz < i_dat_len n" | "i_dat_len n = of_nat sz" by fastforce
  then show ?thesis
  proof cases
    case 1
    then have lt: "unat (i_dat_len n) < sz" by (simp add: word_less_nat_alt u)
    have "fit_to gap sz ?st = pad_to gap sz ?st" for gap by (rule fit_to_cases(1)) (use mono[of "i_dat_len n" "of_nat sz"] 1 in \<open>simp add: blocks len\<close>)
    then show ?thesis using file_step_grow[OF inv n lt grow[OF lt]] unfolding padded_pad_to[OF sz] by metis
  next
    case 2
    have "fit_to zeros sz ?st = take (4096 * ceil_blocks (of_nat sz)) ?st"
      using fit_to_cases(2)[of sz ?st zeros] mono[of "of_nat sz" "i_dat_len n"] 2 by (simp add: blocks len)
    then show ?thesis using file_step_cut[OF inv n 2] zeros_ok[of s] by metis
  next
    case 3
    have res: "resized (i_dat_len n) n = n" using file_length_bound(3)[OF inv n] by (simp add: resized_def)
    have sf: "sound_file (fs_disk s) x (lookup_at (fs_disk s) x) (file_blocks (fs_disk s) (lookup_at (fs_disk s) x)) n"
      using files_soundD[OF pkg_invD(3)[OF inv], of x] n by simp
    have "file_step s bs x n [] n s"
      using n sf pkg_invD(4,6)[OF inv] by (simp add: file_step_def)
    from file_step_changed[OF inv this refl] have "file_changed s bs x n ?st s" .
    moreover have "truncateFile x (of_nat sz) s = Some (E_SUCCESS, s)"
    proof -
      have "block_ok (fs_disk s) (lookup_at (fs_disk s) x)" using sf file_atD(5) by (auto simp: sound_file_def roomy_def)
      note b = block_okD[OF this]
      have "getINodeByPosition (lookup_at (fs_disk s) x) s = Some (n, s)"
        using getINodeByPosition_plain[of "lookup_at (fs_disk s) x" s] sf b(4) n(2) by (auto simp: sound_file_def)
      then show ?thesis using 3 n(2) by (auto simp: truncateFile_def Let_def)
    qed
    moreover have "fit_to zeros sz ?st = ?st" using fit_to_cases(2)[of sz ?st zeros] by (simp add: blocks len 3)
    ultimately show ?thesis using 3 res zeros_ok[of s] by metis
  qed
qed

section \<open>Handles\<close>

lemma open_located:
  assumes ses: "ses_inv s bs" and v: "path_error path = None" and n: "locate (fs_disk s) (components path) = Some n"
  shows "open_path path s = Some (Inr (if file_type (i_type n) then opened_handle (i_inodeid n)
    else file_clear bad_fail ((FSFile_new (i_inodeid n))\<lparr>f_invalid := True\<rparr>)), s)"
proof -
  note f = ses_facts[OF ses]
  have "open_path path s = low (file_open (getFile (i_inodeid n))) s"
    by (simp only: open_path_def exists_need[OF ses] need_cases(3)[OF ses v n])
  then show ?thesis using getFile_open[OF ses, of "i_inodeid n"] located_plain(1)[OF f(2,5) n] by (simp add: low_def)
qed

lemma bad_handle:
  fixes i :: u16
  defines "f \<equiv> file_clear bad_fail ((FSFile_new i)\<lparr>f_invalid := True\<rparr>)"
  shows "file_fail f" "file_seekp p f = f" "file_seekg p f = f" "file_write data f s = Some (f, s)"
    "file_read k out f s = Some ((0, out, f), s)" "file_truncate k f s = Some (False, s)" "file_fail (file_close f)"
  by (simp_all add: f_def file_clear_def file_fail_def file_bad_def bad_fail_def file_seekp_def file_seekg_def file_write_def file_read_def
      file_truncate_def file_close_def)

lemma seeked_handle:
  "file_seekp p (opened_handle i) = (opened_handle i)\<lparr>f_posp := of_nat p\<rparr>" "file_seekg p (opened_handle i) = (opened_handle i)\<lparr>f_posg := of_nat p\<rparr>"
  "file_ready ((opened_handle i)\<lparr>f_posp := q\<rparr>)" "file_ready ((opened_handle i)\<lparr>f_posg := q\<rparr>)"
  by (simp_all add: opened_handle_def FSFile_new_def file_ready_def goodbit_def file_seekp_def file_seekg_def file_bad_def file_fail_def)

lemma opened_good: "\<not> file_fail (opened_handle i) \<and> \<not> file_bad (opened_handle i)"
  by (simp add: opened_handle_def fresh_handle[unfolded file_bad_def file_fail_def] file_bad_def file_fail_def)

lemma closed_ready: "file_ready f \<Longrightarrow> \<not> file_fail (file_close f) \<and> \<not> file_bad (file_close f)"
  by (simp add: file_ready_def file_close_def file_fail_def file_bad_def)

section \<open>Touching first\<close>

text \<open>After the times of the inode \<open>n\<close> were updated the abstract package is the same.\<close>

definition touched :: "fsys \<Rightarrow> u32 list \<Rightarrow> byte list list \<Rightarrow> inode \<Rightarrow> fsys \<Rightarrow> inode \<Rightarrow> bool" where
  "touched s bs cs n t m \<longleftrightarrow> ses_inv t bs \<and> locate (fs_disk t) cs = Some m \<and> i_inodeid m = i_inodeid n \<and> i_type m = i_type n \<and>
     i_dat_len m = i_dat_len n \<and> abs_of (fs_disk t) = abs_of (fs_disk s) \<and>
     entry_at (fs_disk t) (i_inodeid n) = entry_at (fs_disk s) (i_inodeid n) \<and> (\<forall>len. can_grow t m len \<longleftrightarrow> can_grow s n len) \<and>
     gap_ok t = gap_ok s"

lemma touch_touched:
  assumes ses: "ses_inv s bs" and n: "locate (fs_disk s) cs = Some n"
  obtains t m where "bindE (touchINode n modes) saveINode s = Some (Inr (), t)" and "touched s bs cs n t m"
proof -
  obtain t m where t: "bindE (touchINode n modes) saveINode s = Some (Inr (), t)" "ses_inv t bs"
    "fs_cache t = fs_cache s" "dsize (fs_disk t) = dsize (fs_disk s)" "locate (fs_disk t) cs = Some m"
    "i_type m = i_type n" "i_inodeid m = i_inodeid n" "i_dat_len m = i_dat_len n" "abs_of (fs_disk t) = abs_of (fs_disk s)"
    using touch_same[OF assms, of modes] by blast
  have "abs_of (fs_disk t) cs = abs_of (fs_disk s) cs" by (simp add: t(9))
  then have "entry_at (fs_disk t) (i_inodeid n) = entry_at (fs_disk s) (i_inodeid n)"
    unfolding abs_of_locate n t(5) by (simp add: t(7))
  then have "touched s bs cs n t m" using t by (simp add: touched_def can_grow_def gap_ok_def fun_eq_iff)
  then show ?thesis using that t(1) by blast
qed

lemma touch_then:
  assumes "bindE (touchINode n modes) saveINode s = Some (Inr (), t)"
  shows "bindE (touchINode n modes) (\<lambda>b. seqE (saveINode b) (R (i_inodeid b))) s = R (i_inodeid n) t"
proof -
  obtain at mt ct k where "touchINode n modes s = Some (Inr (n\<lparr>i_atime := at, i_mtime := mt, i_ctime := ct\<rparr>), s\<lparr>fs_ticks := k\<rparr>)"
    using touchINode_times by blast
  then show ?thesis using assms by (auto simp: bindE_def seqE_def)
qed

lemma touch_path:
  assumes "ses_inv s bs" and "path_error path = None" and "locate (fs_disk s) (components path) = Some n"
  shows "touch path modes s = bindE (touchINode n modes) saveINode s"
  unfolding touch_def by (rule need_cases(3)[OF assms])

lemma open_touched:
  assumes t: "touched s bs (components path) n t m" and v: "path_error path = None"
  shows "open_path path t = Some (Inr (if file_type (i_type n) then opened_handle (i_inodeid n)
    else file_clear bad_fail ((FSFile_new (i_inodeid n))\<lparr>f_invalid := True\<rparr>)), t)"
  using open_located[OF _ v, of t bs m] t by (simp add: touched_def)

lemma touched_raw:
  assumes "touched s bs cs n t m"
  shows "raw_by_id (fs_disk t) (i_inodeid n) = m" "pkg_inv t bs"
proof -
  have c: "ses_inv t bs" "locate (fs_disk t) cs = Some m" "i_inodeid m = i_inodeid n" using assms by (simp_all add: touched_def)
  note f = ses_facts[OF c(1)]
  show "raw_by_id (fs_disk t) (i_inodeid n) = m" "pkg_inv t bs" using located_plain(1)[OF f(2,5) c(2)] c(3) f(1) by simp_all
qed

lemma touched_store:
  assumes "touched s bs cs n t m" and "file_type (i_type n)"
  shows "file_store (fs_disk t) (i_inodeid n) = en_store (entry_at (fs_disk s) (i_inodeid n))"
proof -
  have c: "ses_inv t bs" "locate (fs_disk t) cs = Some m" "file_type (i_type m)" "i_inodeid m = i_inodeid n"
    "entry_at (fs_disk t) (i_inodeid n) = entry_at (fs_disk s) (i_inodeid n)" using assms by (simp_all add: touched_def)
  note f = ses_facts[OF c(1)]
  show ?thesis using entry_at_fields(6)[OF f(2,5) c(2,3)] c(4,5) by simp
qed

text \<open>The file at the end of the path changed, after its times.\<close>

lemma touched_change:
  assumes t: "touched s bs cs n t m" and ty: "file_type (i_type n)" and ch: "file_changed t bs' (i_inodeid n) n' st s'"
    and same: "i_type n' = i_type m" "i_nlink n' = i_nlink m" "perms n' = perms m"
  shows "ses_inv s' bs'" and "abs_of (fs_disk s') = (abs_of (fs_disk s))
    (cs \<mapsto> (entry_at (fs_disk s) (i_inodeid n))\<lparr>en_len := unat (i_dat_len n'), en_store := st\<rparr>)"
proof -
  have c: "ses_inv t bs" "locate (fs_disk t) cs = Some m" "file_type (i_type m)" "i_inodeid m = i_inodeid n"
    "abs_of (fs_disk t) = abs_of (fs_disk s)" "entry_at (fs_disk t) (i_inodeid n) = entry_at (fs_disk s) (i_inodeid n)"
    using t ty by (simp_all add: touched_def)
  note k = file_changed_abs[OF c(1-3) ch[folded c(4)] same]
  show "ses_inv s' bs'" "abs_of (fs_disk s') = (abs_of (fs_disk s))
    (cs \<mapsto> (entry_at (fs_disk s) (i_inodeid n))\<lparr>en_len := unat (i_dat_len n'), en_store := st\<rparr>)"
    using k by (simp_all add: c(4-6))
qed

lemma resized_same: "i_type (resized len n) = i_type n" "i_nlink (resized len n) = i_nlink n" "perms (resized len n) = perms n"
  by (simp_all add: resized_def perms_def)

section \<open>Truncate\<close>

lemma truncate_obeys:
  assumes ses: "ses_inv s bs" and adm: "admissible s (Req_truncate path sz)"
  shows "obeys cred (Req_truncate path sz) s (truncate_path path sz)"
proof (cases "sz > int MSIZE_FILE")
  case True
  then show ?thesis
    using ses by (intro obeysI[of "truncate_path path sz" s "Inl FileTooBig" s bs]) (simp_all add: truncate_path_def throw_def)
next
  case False
  let ?A = "abs_of (fs_disk s)" and ?sz = "nat (sz mod 2 ^ 32)"
  define R where "R i = bindE (low (file_open (getFile i))) (\<lambda>file. bindE (low (file_truncate ?sz file)) (\<lambda>_.
      let file = file_close file in throw_if (file_fail file \<or> file_bad file) InternalInconsistency))" for i
  have sz: "0 \<le> sz" "sz < 2 ^ 32" using adm False by (simp_all add: config)
  then have u: "?sz = nat sz" "nat sz < 2 ^ 32" by (simp_all add: nat_less_iff)
  show ?thesis
  proof (rule obeys_need_gap[OF ses])
    show "truncate_path path sz s = bindE (need (retrievePathToINode path))
        (\<lambda>n. bindE (touchINode n mode_cma) (\<lambda>b. seqE (saveINode b) (R (i_inodeid b)))) s"
      using False by (simp add: truncate_path_def exists_need[OF ses] R_def)
    show "effect gap cred (Req_truncate path sz) ?A = resolve path ?A
        (\<lambda>en. if file_type (en_type en) then put_at path ?A (resize_entry gap (nat sz) en) else (- 5, ?A))" for gap
      using False by simp
    fix n assume v: "path_error path = None" and n: "locate (fs_disk s) (components path) = Some n"
    note f = ses_facts[OF ses] and en = entry_at_fields[OF ses_facts(2,5)[OF ses] n]
    obtain t m where t: "bindE (touchINode n mode_cma) saveINode s = Some (Inr (), t)" "touched s bs (components path) n t m"
      using touch_touched[OF ses n] .
    have tt: "ses_inv t bs" "i_type m = i_type n" "i_dat_len m = i_dat_len n" "abs_of (fs_disk t) = ?A" "can_grow t m l = can_grow s n l" "gap_ok t = gap_ok s" for l
      using t(2) by (simp_all add: touched_def)
    note rt = touched_raw[OF t(2)]
    have "\<exists>r s' bs'. R (i_inodeid n) t = Some (r, s') \<and> ses_inv s' bs' \<and> (\<exists>gap. gap_ok s gap \<and>
        (if file_type (en_type (entry_at (fs_disk s) (i_inodeid n))) then put_at path ?A (resize_entry gap (nat sz) (entry_at (fs_disk s) (i_inodeid n)))
         else (- 5, ?A)) = (number r, abs_of (fs_disk s')))"
    proof (cases "file_type (i_type n)")
      case False
      then have "R (i_inodeid n) t = Some (Inl InternalInconsistency, t)"
        using getFile_open[OF tt(1), of "i_inodeid n"] rt(1) tt(2) bad_handle(6,7)
        by (simp add: R_def bindE_def low_def throw_if_def throw_def)
      then show ?thesis using False en(4) tt(1,4) zeros_ok[of s] by auto
    next
      case True
      have adm': "unat (i_dat_len m) < nat sz \<Longrightarrow> can_grow t m (nat sz)"
        using adm \<open>\<not> sz > int MSIZE_FILE\<close> v n True by (auto simp: on_node_def tt(3,5))
      have tym: "file_type (i_type m)" using True tt(2) by simp
      obtain w bs' gap where w: "truncateFile (i_inodeid n) (of_nat (nat sz)) t = Some (E_SUCCESS, w)"
        "file_changed t bs' (i_inodeid n) (resized (of_nat (nat sz)) m)
          (fit_to gap (nat sz) (file_store (fs_disk t) (i_inodeid n))) w" "gap_ok t gap"
        using file_resize[OF rt(2,1) tym u(2) adm'] by blast
      note c = touched_change[OF t(2) True w(2) resized_same]
      have len: "unat (of_nat (nat sz) :: u32) = nat sz" using u(2) by (rule unat_of_nat_small)
      have "R (i_inodeid n) t = Some (Inr (), w)"
        using getFile_open[OF tt(1), of "i_inodeid n"] rt(1) True tt(2) w(1) u(1) closed_ready[OF opened_handle_fields(1)] opened_good
        by (simp add: R_def bindE_def low_def throw_if_def ret_def file_truncate_def opened_handle_fields(2))
      moreover have "file_store (fs_disk t) (i_inodeid n) = en_store (entry_at (fs_disk s) (i_inodeid n))"
        by (rule touched_store[OF t(2) True])
      ultimately show ?thesis
        using c True en(4,5) tt(3,6) len w(3) by (auto simp: put_at_def resize_entry_def resized_len)
    qed
    then show "\<exists>r s' bs'. bindE (touchINode n mode_cma) (\<lambda>b. seqE (saveINode b) (R (i_inodeid b))) s = Some (r, s') \<and> ses_inv s' bs' \<and> (\<exists>gap. gap_ok s gap \<and>
        (if file_type (en_type (entry_at (fs_disk s) (i_inodeid n))) then put_at path ?A (resize_entry gap (nat sz) (entry_at (fs_disk s) (i_inodeid n)))
         else (- 5, ?A)) = (number r, abs_of (fs_disk s')))"
      unfolding touch_then[OF t(1)] by blast
  qed
qed

end
