(* ===== verification/AppFS_IO.thy ===== *)
theory AppFS_IO
  imports AppFS_Content
begin

text \<open>
  The callbacks that move bytes: \<^verbatim>\<open>write\<close>, \<^verbatim>\<open>read\<close>, \<^verbatim>\<open>symlink\<close> and \<^verbatim>\<open>readlink\<close>.
\<close>

lemma touch_fails:
  assumes "ses_inv s bs"
  shows "path_error path = Some e \<Longrightarrow> touch path modes s = Some (Inl e, s)"
    and "path_error path = None \<Longrightarrow> locate (fs_disk s) (components path) = None \<Longrightarrow> touch path modes s = Some (Inl FileNotFound, s)"
  unfolding touch_def by (rule need_cases[OF assms]; assumption)+

section \<open>Writing\<close>

text \<open>The operation of \<^verbatim>\<open>FuseLink::write\<close> when the sizes are in range.\<close>

definition write_op :: "byte list \<Rightarrow> byte list \<Rightarrow> int \<Rightarrow> int act" where
  "write_op path data off = seqE (touch path mode_cma) (bindE (open_path path) (\<lambda>file.
     bindE (low (file_write data (file_seekp (nat (off mod 2 ^ 32)) file))) (\<lambda>file.
     let file = file_close file
     in ret (if file_fail file \<or> file_bad file then - 5 else sint (of_nat (length data) :: u32)))))"

lemma fuse_write_op:
  "fuse_write ctx path data off m = callback ctx (\<lambda>_. if too_big off (length data) then ret (- 27) else write_op path data off)
     (\<lambda>r. (r, ())) () m"
  by (simp add: fuse_write_def write_op_def)

lemma not_too_big:
  assumes "0 \<le> off" and "\<not> too_big off k"
  shows "nat (off mod 2 ^ 32) = nat off" and "nat off < 2 ^ 32"
proof -
  have "off < 2 ^ 32" using assms by (simp add: too_big_def config)
  then show "nat (off mod 2 ^ 32) = nat off" "nat off < 2 ^ 32" using assms(1) by (simp_all add: nat_less_iff)
qed

lemma sint_small: "k < 2 ^ 31 \<Longrightarrow> sint (of_nat k :: u32) = int k"
proof -
  assume k: "k < 2 ^ 31"
  have "sint (of_nat k :: u32) = signed_take_bit 31 (int k)" by (simp add: signed_of_nat)
  then show ?thesis using k by (simp add: signed_take_bit_int_eq_self)
qed

lemma write_node_same:
  "i_type (written_inode n len) = i_type n" "i_nlink (written_inode n len) = i_nlink n" "perms (written_inode n len) = perms n"
  by (simp_all add: written_inode_def resized_same)

lemma written_entry:
  assumes "unat (i_dat_len m) = en_len en" and "off + length data < 2 ^ 32"
  shows "en\<lparr>en_len := unat (i_dat_len (written_inode m (off + length data))), en_store := written_store gap m off data (en_store en)\<rparr>
    = write_entry gap off data en"
  using assms unat_of_nat_small[OF assms(2)]
  by (simp add: write_entry_def written_inode_def written_store_def resized_len padded_pad_to Let_def max_def del: of_nat_add)

lemma write_obeys:
  assumes ses: "ses_inv s bs" and adm: "admissible s (Req_write path data off)" and small: "\<not> too_big off (length data)"
  shows "\<exists>r s' gap. write_op path data off s = Some (r, s') \<and> ses_inv s' bs \<and> gap_ok s gap \<and>
    effect gap cred (Req_write path data off) (abs_of (fs_disk s)) = (case r of Inl e \<Rightarrow> handleException e | Inr n \<Rightarrow> n, abs_of (fs_disk s'))"
proof -
  let ?A = "abs_of (fs_disk s)"
  note f = ses_facts[OF ses]
  have off: "0 \<le> off" "data \<noteq> []" using adm by simp_all
  note o = not_too_big[OF off(1) small]
  show ?thesis
  proof (cases "path_error path")
    case (Some e)
    then show ?thesis
      using small ses touch_fails(1)[OF ses Some] by (intro exI[of _ "Inl e"] exI[of _ s] exI[of _ zeros]) (simp add: zeros_ok write_op_def seqE_def bindE_def abs_resolve)
  next
    case v: None
    show ?thesis
    proof (cases "locate (fs_disk s) (components path)")
      case None
      then show ?thesis
        using small ses v touch_fails(2)[OF ses v None]
        by (intro exI[of _ "Inl FileNotFound"] exI[of _ s] exI[of _ zeros]) (simp add: zeros_ok write_op_def seqE_def bindE_def abs_resolve)
    next
      case n: (Some n)
      note en = entry_at_fields[OF f(2,5) n]
      let ?en = "entry_at (fs_disk s) (i_inodeid n)" and ?h = "(opened_handle (i_inodeid n))\<lparr>f_posp := of_nat (nat off)\<rparr>"
      obtain t m where t: "bindE (touchINode n mode_cma) saveINode s = Some (Inr (), t)" "touched s bs (components path) n t m"
        using touch_touched[OF ses n] .
      have tt: "ses_inv t bs" "i_type m = i_type n" "i_dat_len m = i_dat_len n" "abs_of (fs_disk t) = ?A" "can_grow t m l = can_grow s n l" "gap_ok t = gap_ok s" for l
        using t(2) by (simp_all add: touched_def)
      note rt = touched_raw[OF t(2)] and op = open_touched[OF t(2) v]
      have step: "write_op path data off s = bindE (open_path path) (\<lambda>file.
          bindE (low (file_write data (file_seekp (nat off) file))) (\<lambda>file. let file = file_close file
          in ret (if file_fail file \<or> file_bad file then - 5 else sint (of_nat (length data) :: u32)))) t"
        unfolding write_op_def seqE_def bindE_def[of "touch _ _"] touch_path[OF ses v n] t(1) o(1) by simp
      show ?thesis
      proof (cases "file_type (i_type n)")
        case False
        then have "write_op path data off s = Some (Inr (- 5), t)"
          by (simp add: step bindE_def op low_def bad_handle ret_def)
        then show ?thesis using False en(4) tt(1,4) small v n zeros_ok[of s] by (auto simp: abs_resolve)
      next
        case True
        have tym: "file_type (i_type m)" using True tt(2) by simp
        have h: "f_inodeid ?h = i_inodeid n" "unat (f_posp ?h) = nat off" "file_ready ?h"
          using unat_of_nat_small[OF o(2)] by (simp_all add: opened_handle_fields(2) seeked_handle)
        have grow: "unat (i_dat_len m) < nat off + length data \<Longrightarrow> can_grow t m (nat off + length data)"
          using adm small v n True by (auto simp: on_node_def tt(3,5))
        have bound: "nat off + length data \<le> 4096 * 946"
          using grow file_length_bound(1)[OF rt(2,1) tym] by (cases "unat (i_dat_len m) < nat off + length data") (auto simp: can_grow_def)
        obtain f' w gap where w: "file_write data ?h t = Some (f', w)" "file_ready f'"
          "file_changed t bs (i_inodeid n) (written_inode m (nat off + length data))
             (written_store gap m (nat off) data (file_store (fs_disk t) (i_inodeid n))) w" "gap_ok t gap"
          using file_write_any[OF rt(2), of ?h m data] unfolding h(1,2) using rt(1) tym h(3) off(2) grow by blast
        note c = touched_change[OF t(2) True w(3) write_node_same]
        have "write_op path data off s = Some (Inr (int (length data)), w)"
          using w(1) closed_ready[OF w(2)] bound True sint_small[of "length data"]
          by (simp add: step bindE_def op low_def seeked_handle(1) ret_def)
        moreover have "?en\<lparr>en_len := unat (i_dat_len (written_inode m (nat off + length data))),
            en_store := written_store gap m (nat off) data (file_store (fs_disk t) (i_inodeid n))\<rparr> = write_entry gap (nat off) data ?en"
          unfolding touched_store[OF t(2) True] by (rule written_entry) (use en(5)[OF True] tt(3) bound in simp_all)
        ultimately show ?thesis using c True en(4) small v n w(4) tt(6)
          by (intro exI[of _ "Inr (int (length data))"] exI[of _ w] exI[of _ gap]) (simp add: abs_resolve)
      qed
    qed
  qed
qed

section \<open>Reading\<close>

definition read_op :: "byte list \<Rightarrow> byte list \<Rightarrow> nat \<Rightarrow> int \<Rightarrow> (int \<times> byte list) act" where
  "read_op path out k off = seqE (touch path mode_a) (bindE (open_path path) (\<lambda>file.
     bindE (low (file_read k out (file_seekg (nat (off mod 2 ^ 32)) file))) (\<lambda>(n, out, file).
     let file = file_close file
     in ret (if file_fail file \<or> file_bad file then - 5 else sint n, out))))"

lemma fuse_read_op:
  "fuse_read ctx path out k off m = callback ctx (\<lambda>_. if too_big off k then ret (- 27, out) else read_op path out k off) (\<lambda>r. r) out m"
  by (simp add: fuse_read_def read_op_def)

lemma store_range:
  assumes "file_blocks d (lookup_at d x) = fs" and "pos + k \<le> 4096 * length fs"
  shows "file_bytes d fs pos k = take k (drop pos (file_store d x))"
  using assms by (intro nth_equalityI) (simp_all add: file_store_def file_bytes_def Let_def)

lemma read_obeys:
  assumes ses: "ses_inv s bs" and adm: "admissible s (Req_read path out k off)" and small: "\<not> too_big off k"
  shows "\<exists>r s'. read_op path out k off s = Some (r, s') \<and> ses_inv s' bs \<and>
    (case r of
       Inl e \<Rightarrow> effect zeros cred (Req_read path out k off) (abs_of (fs_disk s)) = (handleException e, abs_of (fs_disk s'))
     | Inr (n, buf) \<Rightarrow> effect zeros cred (Req_read path out k off) (abs_of (fs_disk s)) = (n, abs_of (fs_disk s')) \<and>
         answers (Req_read path out k off) (abs_of (fs_disk s)) n (Rep_buffer buf))"
proof -
  let ?A = "abs_of (fs_disk s)"
  note f = ses_facts[OF ses]
  have a: "0 \<le> off" "0 < k" "k < 2 ^ 32" "k \<le> length out" using adm by simp_all
  note o = not_too_big[OF a(1) small]
  show ?thesis
  proof (cases "path_error path")
    case (Some e)
    then show ?thesis
      using small ses touch_fails(1)[OF ses Some] by (intro exI[of _ "Inl e"] exI[of _ s]) (simp add: read_op_def seqE_def bindE_def abs_resolve)
  next
    case v: None
    show ?thesis
    proof (cases "locate (fs_disk s) (components path)")
      case None
      then show ?thesis
        using small ses v touch_fails(2)[OF ses v None]
        by (intro exI[of _ "Inl FileNotFound"] exI[of _ s]) (simp add: read_op_def seqE_def bindE_def abs_resolve)
    next
      case n: (Some n)
      note en = entry_at_fields[OF f(2,5) n]
      let ?en = "entry_at (fs_disk s) (i_inodeid n)" and ?h = "(opened_handle (i_inodeid n))\<lparr>f_posg := of_nat (nat off)\<rparr>"
      obtain t m where t: "bindE (touchINode n mode_a) saveINode s = Some (Inr (), t)" "touched s bs (components path) n t m"
        using touch_touched[OF ses n] .
      have tt: "ses_inv t bs" "i_type m = i_type n" "i_dat_len m = i_dat_len n" "abs_of (fs_disk t) = ?A"
        using t(2) by (simp_all add: touched_def)
      note rt = touched_raw[OF t(2)] and op = open_touched[OF t(2) v]
      have step: "read_op path out k off s = bindE (open_path path) (\<lambda>file.
          bindE (low (file_read k out (file_seekg (nat off) file))) (\<lambda>(n, out, file). let file = file_close file
          in ret (if file_fail file \<or> file_bad file then - 5 else sint n, out))) t"
        unfolding read_op_def seqE_def bindE_def[of "touch _ _"] touch_path[OF ses v n] t(1) o(1) by simp
      show ?thesis
      proof (cases "file_type (i_type n)")
        case False
        then have "read_op path out k off s = Some (Inr (- 5, out), t)"
          by (simp add: step bindE_def op low_def bad_handle ret_def)
        then show ?thesis using False en(4) tt(1,4) small v n by (auto simp: abs_resolve)
      next
        case True
        have tym: "file_type (i_type m)" using True tt(2) by simp
        have h: "f_inodeid ?h = i_inodeid n" "unat (f_posg ?h) = nat off" "file_ready ?h"
          using unat_of_nat_small[OF o(2)] by (simp_all add: opened_handle_fields(2) seeked_handle)
        have pos: "nat off < unat (i_dat_len m)" using adm small v n True by (auto simp: on_node_def tt(3))
        define r where "r = min k (unat (i_dat_len m) - nat off)"
        note pf = sound_plain[OF rt(2,1) tym]
        let ?fs = "file_blocks (fs_disk t) (lookup_at (fs_disk t) (i_inodeid n))"
        have pfh: "plain_file (fs_disk t) (f_inodeid ?h) (lookup_at (fs_disk t) (i_inodeid n)) ?fs m" unfolding h(1) by (rule pf)
        obtain f' where rd: "file_read k out ?h t = Some ((of_nat r, buf_put 0 (file_bytes (fs_disk t) ?fs (nat off) r) out, f'), t)"
          "f' = ?h\<lparr>f_posg := of_nat (nat off) + of_nat r, f_state := (if nat off + r = unat (i_dat_len m) then eof_only else f_state ?h)\<rparr>"
          using read_plain[OF pfh h(3), of k out] unfolding h(2) using pos a r_def by (simp add: opened_handle_fields)
        have fr: "file_ready f'" using h(3) by (simp add: rd(2) file_ready_def eof_only_def)
        have len: "unat (i_dat_len m) \<le> 4096 * length ?fs" using pf by (simp add: plain_file_def)
        have r: "nat off + r \<le> unat (i_dat_len m)" "r \<le> k" using pos by (simp_all add: r_def)
        have bp: "buf_put 0 (file_bytes (fs_disk t) ?fs (nat off) r) out = file_bytes (fs_disk t) ?fs (nat off) r @ drop r out"
          by (simp add: buf_put_def)
        have "file_bytes (fs_disk t) ?fs (nat off) r = take r (drop (nat off) (en_store ?en))"
          using store_range[OF refl, of "nat off" r "fs_disk t" "i_inodeid n"] r len touched_store[OF t(2) True] by simp
        moreover have "r < 2 ^ 31" using r(1) file_length_bound(1)[OF rt(2,1) tym] by simp
        ultimately have "read_op path out k off s = Some (Inr (int r, take r (drop (nat off) (en_store ?en)) @ drop r out), t)"
          using rd(1)[unfolded bp] closed_ready[OF fr] True sint_small[of r]
          by (simp add: step bindE_def op low_def seeked_handle(2) ret_def)
        then show ?thesis using True en(4,5) small v n tt(1,3,4) by (auto simp: abs_resolve abs_of_locate r_def)
      qed
    qed
  qed
qed

section \<open>Symbolic links\<close>

lemma created_room:
  assumes ses: "ses_inv s bs" and c: "created s bs cs n t" and n: "i_dat_len n = 0"
    and room: "len \<le> 4096 * 946" "dsize (fs_disk s) + 4096 * (1 + ceil_blocks (of_nat len) - length (fs_cache s)) \<le> 2 ^ 31"
  shows "can_grow t n len" and "gap_ok t gap \<Longrightarrow> gap_ok s gap"
proof -
  have t: "fs_cache t = tl (fs_cache s)" "dsize (fs_disk t) = dsize (fs_disk s) + (if fs_cache s = [] then 4096 else 0)"
    using c by (simp_all add: created_def)
  show "can_grow t n len" using t room n by (cases "fs_cache s") (simp_all add: can_grow_def ceil_blocks_def[of 0])
  show "gap_ok t gap \<Longrightarrow> gap_ok s gap" using t(1) by (simp add: gap_ok_def)
qed

lemma symlink_obeys:
  assumes ses: "ses_inv s bs" and adm: "admissible s (Req_symlink target path)"
  shows "obeys cred (Req_symlink target path) s (symlink cred path target)"
proof -
  let ?A = "abs_of (fs_disk s)" and ?new = "new_entry INT_SYMLINK cred 0x1ED"
  have can: "creatable s path" and tgt: "target \<noteq> []" "length target \<le> 4096 * 946"
    "dsize (fs_disk s) + 4096 * (1 + ceil_blocks (of_nat (length target)) - length (fs_cache s)) \<le> 2 ^ 31" using adm by simp_all
  have ty: "INT_SYMLINK \<in> {INT_FILEINFO, INT_DIRECTORY, INT_SYMLINK}" by simp
  consider (err) e where "performCreation cred INT_SYMLINK path 0x1ED (\<lambda>n. n) s = Some (Inl e, s)"
      "creation path (new_entry INT_SYMLINK cred 0x1ED) ?A = (handleException e, ?A)"
    | (made) n t where "performCreation cred INT_SYMLINK path 0x1ED (\<lambda>n. n) s = Some (Inr n, t)" "path_error path = None"
      "created s bs (components path) n t" "i_type n = INT_SYMLINK" "i_dat_len n = 0" "ses_inv t bs"
      "creation path (new_entry INT_SYMLINK cred 0x1ED) ?A = (0, abs_of (fs_disk t))" "abs_of (fs_disk t) (components path) = Some ?new"
    using creation_plain[OF ses can ty, of cred "0x1ED"] by blast
  then show ?thesis
  proof cases
    case err
    then show ?thesis using ses handleException_negative[of e]
      by (intro obeysI[of _ s "Inl e" s bs]) (simp_all add: symlink_def bindE_def)
  next
    case made
    let ?h = "opened_handle (i_inodeid n)"
    note f = ses_facts[OF made(6)]
    have loc: "locate (fs_disk t) (components path) = Some n" and raw: "raw_by_id (fs_disk t) (i_inodeid n) = n"
      using made(3) by (simp_all add: created_def)
    have fty: "file_type (i_type n)" by (simp add: made(4))
    have en: "entry_at (fs_disk t) (i_inodeid n) = ?new" using made(8) loc by (simp add: abs_of_locate)
    have st: "file_store (fs_disk t) (i_inodeid n) = []"
      using entry_at_fields(6)[OF f(2,5) loc fty] en by (simp add: new_entry_def)
    have h: "file_ready ?h" "f_inodeid ?h = i_inodeid n" "unat (f_posp ?h) = 0" by (simp_all add: opened_handle_fields)
    note room = created_room[OF ses made(3,5) tgt(2,3)]
    have grow: "can_grow t n (length target)" by (rule room(1))
    obtain f' w gap where w: "file_write target ?h t = Some (f', w)" "file_ready f'"
      "file_changed t bs (i_inodeid n) (written_inode n (0 + length target)) (written_store gap n 0 target []) w" "gap_ok t gap"
      using file_write_any[OF f(1), of ?h n target] unfolding h(2,3) using raw fty h(1) tgt(1) grow st by auto
    note c = file_changed_abs[OF made(6) loc fty w(3) write_node_same]
    have "?new\<lparr>en_len := unat (i_dat_len (written_inode n (0 + length target))), en_store := written_store gap n 0 target (en_store ?new)\<rparr>
        = write_entry gap 0 target ?new"
      by (rule written_entry) (use made(5) tgt(2) in \<open>simp_all add: new_entry_def\<close>)
    then have abs: "abs_of (fs_disk w) = (abs_of (fs_disk t))(components path \<mapsto> write_entry gap 0 target ?new)"
      using c(2) en by (simp add: new_entry_def)
    have op: "file_open (getFile (i_inodeid n)) t = Some (?h, t)" using getFile_open[OF made(6), of "i_inodeid n"] raw fty by simp
    have "symlink cred path target s = bindE (need (retrievePathToINode path)) (\<lambda>buf. on_throw
        (bindE (low (file_open (getFile (i_inodeid buf)))) (\<lambda>f. bindE (low (file_write target f)) (\<lambda>f.
          let f = file_close f in throw_if (file_fail f \<or> file_bad f) InternalInconsistency))) (unlink path)) t"
      unfolding symlink_def bindE_def[of "performCreation _ _ _ _ _"] made(1) by simp
    also have "\<dots> = Some (Inr (), w)"
      unfolding need_cases(3)[OF made(6,2) loc]
      using op w(1) closed_ready[OF w(2)] by (simp add: on_throw_def bindE_def low_def throw_if_def ret_def)
    finally show ?thesis
      using c(1) made(7) abs by (intro obeysI_gap[of _ s "Inr ()" w bs gap] room(2)[OF w(4)]) (simp_all add: put_at_def)
  qed
qed

text \<open>A buffer from \<^verbatim>\<open>malloc\<close> has the length asked for.\<close>

definition malloc_ok :: "(nat \<Rightarrow> byte list) \<Rightarrow> bool" where
  "malloc_ok fresh \<longleftrightarrow> (\<forall>n. length (fresh n) = n)"

lemma cstr_end: "cstr (xs @ [0]) = cstr xs"
  by (induction xs) (simp_all add: cstr_def)

lemma readlink_shows:
  assumes ses: "ses_inv s bs" and adm: "admissible s (Req_readlink path k out)" and fresh: "malloc_ok fresh"
  shows "\<exists>r. readlink fresh path s = Some (r, s) \<and>
    effect zeros cred (Req_readlink path k out) (abs_of (fs_disk s)) = (number r, abs_of (fs_disk s)) \<and>
    (\<forall>t. r = Inr t \<longrightarrow> (\<exists>en. abs_of (fs_disk s) (components path) = Some en \<and> t = cstr (take (en_len en) (en_store en))))"
proof -
  let ?d = "fs_disk s"
  note f = ses_facts[OF ses]
  show ?thesis
  proof (cases "path_error path")
    case (Some e)
    show ?thesis unfolding readlink_def need_cases(1)[OF ses Some] by (simp add: Some abs_resolve)
  next
    case v: None
    show ?thesis
    proof (cases "locate ?d (components path)")
      case None
      show ?thesis unfolding readlink_def need_cases(2)[OF ses v None] by (simp add: v None abs_resolve)
    next
      case n: (Some n)
      note en = entry_at_fields[OF f(2,5) n] and l = located_plain[OF f(2,5) n]
      show ?thesis
      proof (cases "i_type n = INT_SYMLINK")
        case False
        then show ?thesis unfolding readlink_def need_cases(3)[OF ses v n] using v n en(4) by (simp add: abs_resolve throw_def)
      next
        case True
        let ?x = "i_inodeid n" and ?L = "unat (i_dat_len n)" and ?h = "opened_handle (i_inodeid n)"
        have fty: "file_type (i_type n)" by (simp add: True)
        have pos: "0 < ?L" "?L < 2 ^ 32" using adm v n True unat_gt_0[of "i_dat_len n"] unsigned_less[of "i_dat_len n"] by (auto simp: on_node_def)
        note pf = sound_plain[OF f(1) l(1) fty]
        let ?fs = "file_blocks ?d (lookup_at ?d ?x)" and ?b = "fresh (?L + 1)"
        have h: "f_inodeid ?h = ?x" "unat (f_posg ?h) = 0" "file_ready ?h" by (simp_all add: opened_handle_fields)
        have pfh: "plain_file ?d (f_inodeid ?h) (lookup_at ?d ?x) ?fs n" unfolding h(1) by (rule pf)
        have lb: "length ?b = ?L + 1" using fresh by (simp add: malloc_ok_def)
        let ?c = "take ?L (file_store ?d ?x)"
        have len: "?L \<le> 4096 * length ?fs" using pf by (simp add: plain_file_def)
        have bytes: "file_bytes ?d ?fs 0 ?L = ?c" using store_range[OF refl, of 0 ?L ?d ?x] len by simp
        then have lc: "length ?c = ?L" by (metis length_file_bytes)
        have bp: "buf_put 0 (file_bytes ?d ?fs 0 ?L) ?b = ?c @ drop ?L ?b" using lc by (simp add: buf_put_def bytes)
        obtain f' where rd: "file_read ?L ?b ?h s = Some ((i_dat_len n, ?c @ drop ?L ?b, f'), s)"
          using read_plain[OF pfh h(3), of ?L ?b] unfolding h(2) using pos lb bp by simp
        obtain z where z: "drop ?L ?b = [z]" using lb by (cases "drop ?L ?b") (auto simp: drop_eq_Nil2 dest: arg_cong[of _ _ length])
        have cut: "cstr ((?c @ drop ?L ?b)[?L := 0]) = cstr ?c"
          unfolding z using lc by (simp add: list_update_append cstr_end)
        have op: "file_open (FSFile_new ?x) s = Some (?h, s)" using getFile_open[OF ses, of ?x] l(1) fty by (simp add: getFile_def)
        have "readlink fresh path s = Some (Inr (cstr ?c), s)"
          unfolding readlink_def need_cases(3)[OF ses v n] using op rd cut True by (simp add: bindE_def low_def ret_def Let_def)
        then show ?thesis
          using v n en(4-6) fty True by (intro exI[of _ "Inr (cstr ?c)"]) (simp add: abs_resolve abs_of_locate)
      qed
    qed
  qed
qed

end
