(* ===== verification/Session.thy ===== *)
theory Session
  imports AppFS_IO Samples
begin

text \<open>
  A session with a mounted package: requests served one after the other (\<^verbatim>\<open>fuse_main\<close> with the option \<open>-s\<close> has one thread).
  The interface \<open>contract\<close> is what a server promises of one request; its lemmas are what follows for sessions, and the
  callbacks of \<^verbatim>\<open>libapp/internal/fuselink.cpp\<close> provide it.
\<close>

section \<open>Servers with a contract\<close>

text \<open>A session with a server: the requests, each allowed in the state it meets, with their answers.\<close>

inductive session :: "('q \<Rightarrow> 's \<Rightarrow> ('a \<times> 's) option) \<Rightarrow> ('s \<Rightarrow> 'q \<Rightarrow> bool) \<Rightarrow> 's \<Rightarrow> ('q \<times> 'a) list \<Rightarrow> 's \<Rightarrow> bool"
  for server adm where
  session_nil: "session server adm s [] s"
| session_snoc: "session server adm s log t \<Longrightarrow> adm t q \<Longrightarrow> server q t = Some (a, u) \<Longrightarrow> session server adm s (log @ [(q, a)]) u"

inductive_cases session_nilE: "session server adm s [] t"
inductive_cases session_snocE: "session server adm s (log @ [(q, a)]) u"

text \<open>What the log of a session says of the abstract state.\<close>

inductive follows :: "('q \<Rightarrow> 'b \<Rightarrow> 'a \<Rightarrow> 'b \<Rightarrow> bool) \<Rightarrow> 'b \<Rightarrow> ('q \<times> 'a) list \<Rightarrow> 'b \<Rightarrow> bool" for spec where
  follows_nil: "follows spec A [] A"
| follows_snoc: "follows spec A log B \<Longrightarrow> spec q B a C \<Longrightarrow> follows spec A (log @ [(q, a)]) C"

locale contract =
  fixes server :: "'q \<Rightarrow> 's \<Rightarrow> ('a \<times> 's) option" and inv :: "'s \<Rightarrow> bool" and adm :: "'s \<Rightarrow> 'q \<Rightarrow> bool"
    and abs :: "'s \<Rightarrow> 'b" and spec :: "'q \<Rightarrow> 'b \<Rightarrow> 'a \<Rightarrow> 'b \<Rightarrow> bool"
  assumes served: "inv s \<Longrightarrow> adm s q \<Longrightarrow> \<exists>a t. server q s = Some (a, t) \<and> inv t \<and> spec q (abs s) a (abs t)"
begin

lemma served_by: "inv s \<Longrightarrow> adm s q \<Longrightarrow> server q s = Some (a, t) \<Longrightarrow> inv t \<and> spec q (abs s) a (abs t)"
  using served by fastforce

lemma session_inv: "session server adm s log t \<Longrightarrow> inv s \<Longrightarrow> inv t"
  by (induction rule: session.induct) (use served_by in blast)+

lemma session_follows: "session server adm s log t \<Longrightarrow> inv s \<Longrightarrow> follows spec (abs s) log (abs t)"
proof (induction rule: session.induct)
  case (session_snoc s log t q a u)
  then show ?case using served_by[OF session_inv[OF session_snoc.hyps(1) session_snoc.prems]] follows_snoc by metis
qed (rule follows_nil)

text \<open>A session never gets stuck: whatever it may be asked next, it answers.\<close>

lemma session_extends:
  assumes "session server adm s log t" and "inv s" and "adm t q"
  shows "\<exists>a u. session server adm s (log @ [(q, a)]) u"
  using served[OF session_inv[OF assms(1,2)] assms(3)] session_snoc[OF assms(1,3)] by blast

text \<open>What every step keeps of the abstract state, every session keeps.\<close>

lemma session_keeps:
  assumes "session server adm s log t" and "inv s" and "P (abs s)"
    and step: "\<And>q a A B. P A \<Longrightarrow> spec q A a B \<Longrightarrow> P B"
  shows "P (abs t)"
proof -
  have "follows spec (abs s) log (abs t)" by (rule session_follows[OF assms(1,2)])
  then show ?thesis using assms(3) by (induction rule: follows.induct) (use step in blast)+
qed

end

section \<open>The mounted package as a server\<close>

text \<open>A request with the user and group it comes from.\<close>

type_synonym query = "cred \<times> request"

definition server :: "(nat \<Rightarrow> byte list) \<Rightarrow> query \<Rightarrow> mounted \<Rightarrow> ((int \<times> reply) \<times> mounted) option" where
  "server fresh q m = serve fresh (fst q) (snd q) m"

definition mount_inv :: "mounted \<Rightarrow> bool" where
  "mount_inv m \<longleftrightarrow> (\<exists>bs. ses_inv (m_fs m) bs)"

definition mount_adm :: "(nat \<Rightarrow> byte list) \<Rightarrow> mounted \<Rightarrow> query \<Rightarrow> bool" where
  "mount_adm fresh m q \<longleftrightarrow> malloc_ok fresh \<and> admissible (m_fs m) (snd q)"

definition mount_abs :: "mounted \<Rightarrow> absfs" where
  "mount_abs m = abs_of (fs_disk (m_fs m))"

text \<open>
  The effect is that for some bytes \<open>gap\<close> behind the old end of a file that grew; \<open>serves\<close> also says that these are zeros
  when no blocks are waiting to be used again.
\<close>

definition mount_spec :: "query \<Rightarrow> absfs \<Rightarrow> int \<times> reply \<Rightarrow> absfs \<Rightarrow> bool" where
  "mount_spec q A a B \<longleftrightarrow> (\<exists>gap. effect gap (fst q) (snd q) A = (fst a, B)) \<and> answers (snd q) A (fst a) (snd a)"

definition serves :: "(nat \<Rightarrow> byte list) \<Rightarrow> cred \<Rightarrow> request \<Rightarrow> mounted \<Rightarrow> bool" where
  "serves fresh ctx req m \<longleftrightarrow> (\<exists>n rep t gap. serve fresh ctx req m = Some ((n, rep), t) \<and> mount_inv t \<and> gap_ok (m_fs m) gap \<and>
     effect gap ctx req (mount_abs m) = (n, mount_abs t) \<and> answers req (mount_abs m) n rep)"

lemma servesI_gap:
  assumes "serve fresh ctx req m = Some ((n, rep), \<lparr>m_fs = s', m_uid = fst ctx, m_gid = snd ctx\<rparr>)" and "ses_inv s' bs"
    and "effect gap ctx req (abs_of (fs_disk (m_fs m))) = (n, abs_of (fs_disk s'))" and "gap_ok (m_fs m) gap"
    and "answers req (abs_of (fs_disk (m_fs m))) n rep"
  shows "serves fresh ctx req m"
  using assms unfolding serves_def mount_inv_def mount_abs_def by force

lemma servesI:
  assumes "serve fresh ctx req m = Some ((n, rep), \<lparr>m_fs = s', m_uid = fst ctx, m_gid = snd ctx\<rparr>)" and "ses_inv s' bs"
    and "effect zeros ctx req (abs_of (fs_disk (m_fs m))) = (n, abs_of (fs_disk s'))"
    and "answers req (abs_of (fs_disk (m_fs m))) n rep"
  shows "serves fresh ctx req m"
  by (rule servesI_gap[OF assms(1-3) zeros_ok assms(4)])

lemma obeys_serves:
  assumes ob: "obeys ctx req (m_fs m) op" and eq: "serve fresh ctx req m = replied (\<lambda>_. Rep_none) (simple_callback ctx (\<lambda>_. op) m)"
    and ans: "\<And>A n. answers req A n Rep_none"
  shows "serves fresh ctx req m"
proof -
  obtain r s' bs gap where o: "op (m_fs m) = Some (r, s')" "ses_inv s' bs"
    "effect gap ctx req (abs_of (fs_disk (m_fs m))) = (number r, abs_of (fs_disk s'))" "gap_ok (m_fs m) gap"
    using ob by (auto simp: obeys_def)
  have "serve fresh ctx req m = Some ((number r, Rep_none), \<lparr>m_fs = s', m_uid = fst ctx, m_gid = snd ctx\<rparr>)"
    unfolding eq by (cases r) (simp_all add: replied_def simple_callback_def callback_eq o(1))
  then show ?thesis by (rule servesI_gap) (use o ans in auto)
qed

lemma serves_write:
  assumes ses: "ses_inv (m_fs m) bs" and adm: "admissible (m_fs m) (Req_write p data off)"
  shows "serves fresh ctx (Req_write p data off) m"
proof (cases "too_big off (length data)")
  case True
  show ?thesis
    by (rule servesI[where s' = "m_fs m" and n = "- 27" and rep = Rep_none and bs = bs])
       (use True ses in \<open>simp_all add: replied_def fuse_write_op callback_eq ret_def\<close>)
next
  case False
  obtain r s' gap where w: "write_op p data off (m_fs m) = Some (r, s')" "ses_inv s' bs" "gap_ok (m_fs m) gap"
    "effect gap ctx (Req_write p data off) (abs_of (fs_disk (m_fs m))) = (case r of Inl e \<Rightarrow> handleException e | Inr n \<Rightarrow> n, abs_of (fs_disk s'))"
    using write_obeys[OF ses adm False] by blast
  show ?thesis
    by (rule servesI_gap[where gap = gap and s' = s' and n = "case r of Inl e \<Rightarrow> handleException e | Inr n \<Rightarrow> n" and rep = Rep_none and bs = bs])
       (use False w in \<open>auto simp: replied_def fuse_write_op callback_eq split: sum.split\<close>)
qed

lemma serves_read:
  assumes ses: "ses_inv (m_fs m) bs" and adm: "admissible (m_fs m) (Req_read p out k off)"
  shows "serves fresh ctx (Req_read p out k off) m"
proof (cases "too_big off k")
  case True
  show ?thesis
    by (rule servesI[where s' = "m_fs m" and n = "- 27" and rep = "Rep_buffer out" and bs = bs])
       (use True ses in \<open>simp_all add: replied_def fuse_read_op callback_eq ret_def\<close>)
next
  case False
  obtain r s' where w: "read_op p out k off (m_fs m) = Some (r, s')" "ses_inv s' bs"
    "case r of Inl e \<Rightarrow> effect zeros ctx (Req_read p out k off) (abs_of (fs_disk (m_fs m))) = (handleException e, abs_of (fs_disk s'))
     | Inr (n, buf) \<Rightarrow> effect zeros ctx (Req_read p out k off) (abs_of (fs_disk (m_fs m))) = (n, abs_of (fs_disk s')) \<and>
         answers (Req_read p out k off) (abs_of (fs_disk (m_fs m))) n (Rep_buffer buf)"
    using read_obeys[OF ses adm False] by blast
  show ?thesis
  proof (cases r)
    case (Inl e)
    show ?thesis
      by (rule servesI[where s' = s' and n = "handleException e" and rep = "Rep_buffer out" and bs = bs])
         (use False w Inl handleException_negative[of e] in \<open>simp_all add: replied_def fuse_read_op callback_eq\<close>)
  next
    case (Inr nb)
    show ?thesis
      by (rule servesI[where s' = s' and n = "fst nb" and rep = "Rep_buffer (snd nb)" and bs = bs])
         (use False w Inr in \<open>auto simp: replied_def fuse_read_op callback_eq simp del: effect.simps answers.simps\<close>)
  qed
qed

lemma serves_look:
  assumes ses: "ses_inv (m_fs m) bs" and fresh: "malloc_ok fresh"
  shows "serves fresh ctx (Req_getattr p) m" and "serves fresh ctx (Req_readdir p) m"
    and "admissible (m_fs m) (Req_readlink p k out) \<Longrightarrow> serves fresh ctx (Req_readlink p k out) m"
proof -
  let ?A = "abs_of (fs_disk (m_fs m))"
  obtain r where r: "getattr p (m_fs m) = Some (r, m_fs m)" "effect zeros ctx (Req_getattr p) ?A = (number r, ?A)"
    "\<And>st. r = Inr st \<Longrightarrow> \<exists>en. ?A (components p) = Some en \<and> shows_entry st en" using getattr_shows[OF ses] by blast
  show "serves fresh ctx (Req_getattr p) m"
    by (rule servesI[where s' = "m_fs m" and n = "number r" and rep = "Rep_stat (case r of Inl e \<Rightarrow> None | Inr st \<Rightarrow> Some st)" and bs = bs])
       (use ses r handleException_negative in \<open>auto simp: replied_def fuse_getattr_def callback_eq less_le split: sum.split\<close>)
  obtain q where q: "readdir p (m_fs m) = Some (q, m_fs m)" "effect zeros ctx (Req_readdir p) ?A = (number q, ?A)"
    "\<And>ns. q = Inr ns \<Longrightarrow> distinct ns \<and> set ns = {x. ?A (components p @ [x]) \<noteq> None}" using readdir_shows[OF ses] by blast
  show "serves fresh ctx (Req_readdir p) m"
    by (rule servesI[where s' = "m_fs m" and n = "number q" and
          rep = "Rep_names (case q of Inl e \<Rightarrow> [] | Inr ns \<Rightarrow> [[0x2E], [0x2E, 0x2E]] @ ns)" and bs = bs])
       (use ses q handleException_negative in \<open>auto simp: replied_def fuse_readdir_def callback_eq less_le split: sum.split\<close>)
  assume adm: "admissible (m_fs m) (Req_readlink p k out)"
  obtain l where l: "readlink fresh p (m_fs m) = Some (l, m_fs m)" "effect zeros ctx (Req_readlink p k out) ?A = (number l, ?A)"
    "\<And>t. l = Inr t \<Longrightarrow> \<exists>en. ?A (components p) = Some en \<and> t = cstr (take (en_len en) (en_store en))"
    using readlink_shows[OF ses adm fresh] by blast
  show "serves fresh ctx (Req_readlink p k out) m"
    by (rule servesI[where s' = "m_fs m" and n = "number l" and
          rep = "Rep_buffer (case l of Inl e \<Rightarrow> out | Inr t \<Rightarrow> take k t @ replicate (k - length t) 0 @ drop k out)" and bs = bs])
       (use ses l handleException_negative in \<open>auto simp: replied_def fuse_readlink_def callback_eq less_le Let_def split: sum.split\<close>)
qed

lemma serves_all:
  assumes ses: "ses_inv (m_fs m) bs" and fresh: "malloc_ok fresh" and adm: "admissible (m_fs m) req"
  shows "serves fresh ctx req m"
proof (cases req)
  case (Req_getattr p)
  then show ?thesis using serves_look(1)[OF ses fresh] by simp
next
  case (Req_readdir p)
  then show ?thesis using serves_look(2)[OF ses fresh] by simp
next
  case (Req_readlink p k out)
  then show ?thesis using serves_look(3)[OF ses fresh] adm by blast
next
  case (Req_read p out k off)
  then show ?thesis using serves_read[OF ses] adm by blast
next
  case (Req_write p data off)
  then show ?thesis using serves_write[OF ses] adm by blast
next
  case (Req_create p mode)
  show ?thesis unfolding Req_create
    by (rule obeys_serves[OF create_obeys(1)[OF ses]]) (use adm Req_create in \<open>simp_all add: fuse_create_def simple_callback_def callback_eq\<close>)
next
  case (Req_mkdir p mode)
  show ?thesis unfolding Req_mkdir
    by (rule obeys_serves[OF create_obeys(2)[OF ses]]) (use adm Req_mkdir in \<open>simp_all add: fuse_mkdir_def simple_callback_def callback_eq\<close>)
next
  case (Req_mknod p mode mj mn)
  show ?thesis unfolding Req_mknod
    by (rule obeys_serves[OF create_obeys(3)[OF ses]]) (use adm Req_mknod in \<open>simp_all add: fuse_mknod_def simple_callback_def callback_eq\<close>)
next
  case (Req_unlink p)
  show ?thesis unfolding Req_unlink
    by (rule obeys_serves[OF unlink_obeys[OF ses]]) (use adm Req_unlink in \<open>simp_all add: fuse_unlink_def\<close>)
next
  case (Req_rmdir p)
  show ?thesis unfolding Req_rmdir
    by (rule obeys_serves[OF rmdir_obeys[OF ses]]) (use adm Req_rmdir in \<open>simp_all add: fuse_rmdir_def\<close>)
next
  case (Req_symlink t p)
  show ?thesis unfolding Req_symlink
    by (rule obeys_serves[OF symlink_obeys[OF ses]]) (use adm Req_symlink in \<open>simp_all add: fuse_symlink_def simple_callback_def callback_eq\<close>)
next
  case (Req_chmod p mode)
  show ?thesis unfolding Req_chmod
    by (rule obeys_serves[OF chmod_obeys[OF ses]]) (simp_all add: fuse_chmod_def)
next
  case (Req_chown p u g)
  show ?thesis unfolding Req_chown
    by (rule obeys_serves[OF chown_obeys[OF ses]]) (simp_all add: fuse_chown_def)
next
  case (Req_truncate p sz)
  show ?thesis unfolding Req_truncate
    by (rule obeys_serves[OF truncate_obeys[OF ses adm[unfolded Req_truncate]]]) (simp_all add: fuse_truncate_def)
next
  case (Req_open p)
  show ?thesis unfolding Req_open
    by (rule obeys_serves[OF open_obeys[OF ses]]) (simp_all add: fuse_open_def)
next
  case (Req_utimens p a mt)
  show ?thesis unfolding Req_utimens
    by (rule obeys_serves[OF utimens_obeys[OF ses]]) (simp_all add: fuse_utimens_def)
next
  case (Req_rename p q)
  show ?thesis unfolding Req_rename
    by (rule obeys_serves[OF rename_obeys[OF ses]]) (use adm Req_rename in \<open>simp_all add: fuse_rename_def simple_callback_def callback_eq\<close>)
qed (use adm in simp_all)

interpretation mount: contract "server fresh" mount_inv "mount_adm fresh" mount_abs mount_spec
  for fresh
proof
  fix m q assume "mount_inv m" and adm: "mount_adm fresh m q"
  then obtain bs where "ses_inv (m_fs m) bs" by (auto simp: mount_inv_def)
  then have "serves fresh (fst q) (snd q) m" using serves_all adm by (simp add: mount_adm_def)
  then show "\<exists>a t. server fresh q m = Some (a, t) \<and> mount_inv t \<and> mount_spec q (mount_abs m) a (mount_abs t)"
    by (auto simp: serves_def server_def mount_spec_def)
qed

section \<open>The type of the abstract package\<close>

text \<open>
  Names lead from directories only, the root is one, and every entry is a directory, a device, or a file or symbolic link
  of at most 946 blocks whose bytes fill whole blocks.
\<close>

definition entry_typed :: "entry \<Rightarrow> bool" where
  "entry_typed en \<longleftrightarrow> en_type en \<in> plain_types \<and>
     (if file_type (en_type en)
      then en_len en \<le> length (en_store en) \<and> length (en_store en) \<le> 4096 * 946 \<and> length (en_store en) mod 4096 = 0
      else en_len en = 0 \<and> en_store en = [])"

definition well_typed :: "absfs \<Rightarrow> bool" where
  "well_typed A \<longleftrightarrow> (\<exists>en. A [] = Some en \<and> en_type en = INT_DIRECTORY) \<and>
     (\<forall>cs x. A (cs @ [x]) \<noteq> None \<longrightarrow> (\<exists>p. A cs = Some p \<and> en_type p = INT_DIRECTORY)) \<and>
     (\<forall>cs en. A cs = Some en \<longrightarrow> entry_typed en)"

lemma abs_well_typed:
  assumes ses: "ses_inv s bs"
  shows "well_typed (abs_of (fs_disk s))"
  unfolding well_typed_def
proof (intro conjI allI impI)
  let ?d = "fs_disk s"
  note f = ses_facts[OF ses]
  have root: "i_type (node_by_id ?d 0) \<noteq> INT_INVALID" using f(6) by (simp add: rooted_def)
  then have n: "locate ?d [] = Some (node_by_id ?d 0)" by (simp add: locate_def)
  then show "\<exists>en. abs_of ?d [] = Some en \<and> en_type en = INT_DIRECTORY"
    using plain_root(2)[OF f(2,5) n] entry_at_fields(4)[OF f(2,5) n] by (simp add: abs_of_locate)
next
  let ?d = "fs_disk s"
  note f = ses_facts[OF ses]
  fix cs x assume "abs_of ?d (cs @ [x]) \<noteq> None"
  then obtain n where n: "locate ?d (cs @ [x]) = Some n" by (auto simp: abs_none)
  obtain q :: inode where q: "locate ?d cs = Some q" "i_type q = INT_DIRECTORY" using plain_last[OF f(2,5) n] by metis
  then show "\<exists>p. abs_of ?d cs = Some p \<and> en_type p = INT_DIRECTORY"
    using entry_at_fields(4)[OF f(2,5) q(1)] by (simp add: abs_of_locate)
next
  let ?d = "fs_disk s"
  note f = ses_facts[OF ses]
  fix cs en assume "abs_of ?d cs = Some en"
  then obtain n where n: "locate ?d cs = Some n" "en = entry_at ?d (i_inodeid n)" by (auto simp: abs_of_locate)
  note l = located_plain[OF f(2,5) n(1)]
  show "entry_typed en"
  proof (cases "file_type (i_type n)")
    case True
    note b = file_length_bound[OF f(1) l(1) True]
    have "ceil_blocks (i_dat_len n) \<le> 946" using b(1) ceil_blocks_bound(2) by blast
    then show ?thesis
      using b(2) ceil_blocks_bound(1)[of "i_dat_len n"] l(3) True by (simp add: entry_typed_def n(2) entry_located[OF f(2,5) n(1)])
  next
    case False
    then show ?thesis using l(3) by (simp add: entry_typed_def n(2) entry_located[OF f(2,5) n(1)])
  qed
qed

lemma mount_well_typed: "mount_inv m \<Longrightarrow> well_typed (mount_abs m)"
  using abs_well_typed by (auto simp: mount_inv_def mount_abs_def)

text \<open>The path a request is about; the paths it may touch, for renaming all behind the two; and that no other path is touched.\<close>

fun req_path :: "request \<Rightarrow> byte list" where
  "req_path (Req_getattr p) = p" | "req_path (Req_readlink p n out) = p" | "req_path (Req_mknod p mode mj mn) = p"
| "req_path (Req_mkdir p mode) = p" | "req_path (Req_unlink p) = p" | "req_path (Req_rmdir p) = p"
| "req_path (Req_symlink t p) = p" | "req_path (Req_rename p q) = p" | "req_path (Req_link t p) = p"
| "req_path (Req_chmod p mode) = p" | "req_path (Req_chown p u g) = p" | "req_path (Req_truncate p n) = p"
| "req_path (Req_open p) = p" | "req_path (Req_read p out n off) = p" | "req_path (Req_write p data off) = p"
| "req_path (Req_readdir p) = p" | "req_path (Req_create p mode) = p" | "req_path (Req_utimens p a mt) = p"

definition touched :: "request \<Rightarrow> byte list list \<Rightarrow> bool" where
  "touched req qs \<longleftrightarrow> (case req of Req_rename p q \<Rightarrow> path_under (components p) qs \<or> path_under (components q) qs
     | _ \<Rightarrow> qs = components (req_path req))"

lemma resolve_local:
  assumes "resolve p A f = (n, B)" and "\<And>en n B. f en = (n, B) \<Longrightarrow> B qs = A qs"
  shows "B qs = A qs"
  using assms by (auto simp: resolve_def split: option.splits)

lemma creation_local: "creation p en A = (n, B) \<Longrightarrow> qs \<noteq> components p \<Longrightarrow> B qs = A qs"
  by (auto simp: creation_def put_at_def split: option.splits if_splits)

lemma moved_local: "\<not> path_under src qs \<Longrightarrow> \<not> path_under dst qs \<Longrightarrow> moved src dst A qs = A qs"
  by (simp add: moved_def)

lemma effect_local:
  assumes "effect gap cred req A = (n, B)" and ne: "\<not> touched req qs"
  shows "B qs = A qs"
proof (cases req)
  case (Req_symlink t p)
  then show ?thesis
    using assms creation_local[of p "new_entry INT_SYMLINK cred 0x1ED" A _ _ qs]
    by (auto simp: touched_def put_at_def split: prod.splits if_splits)
next
  case (Req_rename p q)
  then have u: "\<not> path_under (components p) qs" "\<not> path_under (components q) qs" "qs \<noteq> components q"
    using ne by (auto simp: touched_def)
  show ?thesis
    using assms(1) u moved_local unfolding Req_rename effect.simps renaming_def Let_def
    by (auto elim!: resolve_local split: option.splits if_splits)
qed (use assms creation_local in \<open>auto simp: touched_def put_at_def elim!: resolve_local split: if_splits\<close>)

section \<open>A new package\<close>

lemma new_package_session:
  fixes t a b c e and clk :: "nat \<Rightarrow> u64" and uid gid :: u32
  defines "d \<equiv> createPackage t a b c e"
  shows "\<exists>m. AppFS_new (Some d) clk uid gid = Some (Inr m) \<and> ses_inv (m_fs m) [] \<and> fs_cache (m_fs m) = [] \<and>
    byte_at (fs_disk (m_fs m)) = byte_at d \<and> dsize (fs_disk (m_fs m)) = dsize d \<and>
    mount_abs m = [[] \<mapsto> \<lparr>en_type = INT_DIRECTORY, en_mask = 0x1FF, en_uid = 0, en_gid = 1000, en_len = 0, en_store = [], en_dev = (0, 0)\<rparr>]"
proof -
  let ?d = "disk_seek 0 d"
  let ?s = "\<lparr>fs_disk = d, fs_cache = [], fs_reserved = [], fs_clock = clk, fs_ticks = 0\<rparr>"
  let ?t = "?s\<lparr>fs_disk := ?d\<rparr>"
  note ok = createPackage_ok[OF d_def[THEN meta_eq_to_obj_eq]]
  have inv: "pkg_inv ?s []" by (rule fresh_package_inv) (simp_all add: d_def)
  have bytes: "byte_at (fs_disk ?t) = byte_at (fs_disk ?s)" by (simp add: disk_simps fun_eq_iff)
  note pb = pkg_inv_bytes[OF inv bytes, of 0]
  have inv': "pkg_inv ?t []" by (rule pb(1)) (use pkg_invD(6)[OF inv] in \<open>simp_all add: disk_simps\<close>)
  have node: "node_by_id ?d = node_by_id d" and raw: "raw_by_id ?d = raw_by_id d"
    using pb(3,5) pkg_invD(6)[OF inv] by (simp_all add: disk_simps)
  have r: "raw_by_id ?d i = (if i = 0 then root_node t else new_inode 0 INT_INVALID)" for i
    unfolding raw by (rule createPackage_raw) (simp add: d_def)
  have ty: "i_type (root_node t) = INT_DIRECTORY" by (simp add: root_node_def)
  have nl: "no_links ?d" by (auto simp: no_links_def r ty)
  then have ses: "ses_inv ?t []" using inv' by (simp add: ses_inv_def)
  have open_eq: "FreeList_new ?d clk = Some ?t"
  proof -
    have "fsinfo_ok ?d" "fl_head ?d = 0" using ok(1,2) by (simp_all add: fsinfo_ok_def fl_head_def disk_simps)
    then show ?thesis by (simp add: FreeList_new_def syncronizeCache_result[where bs = "[]"] fl_slots_def)
  qed
  have n0: "node_by_id ?d 0 = root_node t" using no_linksD(2)[OF nl] r by simp
  have locnil: "locate ?d [] = Some (root_node t)" by (simp add: locate_def n0 ty)
  have loc: "locate ?d cs = (if cs = [] then Some (root_node t) else None)" for cs
  proof (cases cs)
    case (Cons x xs)
    have "i_inodeid (root_node t) = 0" by (simp add: root_node_def)
    moreover have "child_named ?d 0 x = new_inode 0 INT_INVALID"
      by (rule child_named_empty) (simp add: n0 visited_all[OF root_node_children(2)] root_node_children(1) used_def)
    ultimately show ?thesis using Cons by (simp add: locate_def n0)
  qed (simp add: locnil)
  have "entry_at ?d 0 = \<lparr>en_type = INT_DIRECTORY, en_mask = 0x1FF, en_uid = 0, en_gid = 1000, en_len = 0, en_store = [], en_dev = (0, 0)\<rparr>"
    by (simp add: entry_at_def r) (simp add: root_node_def)
  then have "abs_of ?d = [[] \<mapsto> \<lparr>en_type = INT_DIRECTORY, en_mask = 0x1FF, en_uid = 0, en_gid = 1000, en_len = 0, en_store = [], en_dev = (0, 0)\<rparr>]"
    by (auto simp: fun_eq_iff abs_of_locate loc root_node_def)
  then show ?thesis
    using ses open_eq bytes
    by (intro exI[of _ "\<lparr>m_fs = ?t, m_uid = uid, m_gid = gid\<rparr>"]) (simp add: AppFS_new_def mount_abs_def disk_simps)
qed

end
