(* ===== verification/Spec_Session.thy ===== *)
theory Spec_Session
  imports LowFS_Open Session Spec_Paths
begin

text \<open>
  The properties of sessions with a mounted package: the callbacks refine their contract on the abstract package, never
  get stuck, keep its type, touch only the path they are asked about, and give back what was written.
\<close>

section \<open>A session to evaluate\<close>

definition fresh0 :: "nat \<Rightarrow> byte list" where
  "fresh0 n = replicate n 0"

definition mount0 :: mounted where
  "mount0 = (case AppFS_new (Some (createPackage 7 [] [] [] [])) (\<lambda>_. 7) 0 0 of Some (Inr m) \<Rightarrow> m)"

lemma path_a: "components [0x2F, 0x61] = [[0x61]]" "components [0x61] = [[0x61]]" "path_error [0x2F, 0x61] = None"
  "path_error [0x61] = None"
  by (simp_all add: components_def path_error_def)

definition create_a :: query where
  "create_a = ((5, 6), Req_create [0x2F, 0x61] 0x81A4)"

lemma mount0_state:
  "ses_inv (m_fs mount0) []" "mount_inv mount0" "fs_cache (m_fs mount0) = []" "dsize (fs_disk (m_fs mount0)) = OFFSET_DATA + 4096"
  "mount_abs mount0 = [[] \<mapsto> \<lparr>en_type = INT_DIRECTORY, en_mask = 0x1FF, en_uid = 0, en_gid = 1000, en_len = 0, en_store = [], en_dev = (0, 0)\<rparr>]"
  "lookup_at (fs_disk (m_fs mount0)) 1 = 0" "raw_by_id (fs_disk (m_fs mount0)) 0 = root_node 7"
proof -
  let ?d = "createPackage 7 [] [] [] []"
  obtain m where m: "AppFS_new (Some ?d) (\<lambda>_. 7) 0 0 = Some (Inr m)" "ses_inv (m_fs m) []" "fs_cache (m_fs m) = []"
    "byte_at (fs_disk (m_fs m)) = byte_at ?d" "dsize (fs_disk (m_fs m)) = dsize ?d"
    "mount_abs m = [[] \<mapsto> \<lparr>en_type = INT_DIRECTORY, en_mask = 0x1FF, en_uid = 0, en_gid = 1000, en_len = 0, en_store = [], en_dev = (0, 0)\<rparr>]"
    using new_package_session by blast
  have e: "mount0 = m" by (simp add: mount0_def m(1))
  have look: "lookup_at (fs_disk (m_fs m)) = lookup_at ?d" by (rule lookup_at_cong) (simp add: m(4))
  have ino: "inode_at (fs_disk (m_fs m)) = inode_at ?d" by (rule ext, rule inode_at_cong) (simp add: m(4))
  show "ses_inv (m_fs mount0) []" "mount_inv mount0" "fs_cache (m_fs mount0) = []" using m(2,3) by (auto simp: e mount_inv_def)
  show "dsize (fs_disk (m_fs mount0)) = OFFSET_DATA + 4096" using createPackage_layout(1)[OF refl] by (simp add: e m(5))
  show "mount_abs mount0 = [[] \<mapsto> \<lparr>en_type = INT_DIRECTORY, en_mask = 0x1FF, en_uid = 0, en_gid = 1000, en_len = 0, en_store = [], en_dev = (0, 0)\<rparr>]"
    by (simp add: e m(6))
  show "lookup_at (fs_disk (m_fs mount0)) 1 = 0" by (simp add: e look createPackage_layout(5)[OF refl])
  show "raw_by_id (fs_disk (m_fs mount0)) 0 = root_node 7"
    using createPackage_raw[OF refl, of 7 "[]" "[]" "[]" "[]" 0] by (simp add: e raw_by_id_def look ino cong: if_cong)
qed

lemma mount0_allows: "mount_adm fresh0 mount0 create_a"
proof -
  let ?s = "m_fs mount0"
  note f = ses_facts[OF mount0_state(1)]
  have root: "locate (fs_disk ?s) [] = Some (root_node 7)"
    using no_linksD(2)[OF f(5)] mount0_state(7) by (simp add: locate_def) (simp add: root_node_def)
  have "has_room ?s" using mount0_state(4,6) by (auto simp: has_room_def config)
  then have "creatable ?s [0x2F, 0x61]" using root by (simp add: creatable_def path_a root_node_children) (simp add: root_node_def)
  then show ?thesis by (simp add: mount_adm_def create_a_def malloc_ok_def fresh0_def)
qed

lemma create_a_effect:
  "mount_spec create_a (mount_abs mount0) a B \<Longrightarrow> a = (0, Rep_none) \<and> B = (mount_abs mount0)([[0x61]] \<mapsto> new_entry INT_FILEINFO (5, 6) 0x81A4)"
  by (cases a) (auto simp: mount_spec_def create_a_def creation_def path_a put_at_def mount0_state(5))

lemma session_a:
  obtains m where "session (server fresh0) (mount_adm fresh0) mount0 [(create_a, (0, Rep_none))] m"
    and "server fresh0 create_a mount0 = Some ((0, Rep_none), m)"
    and "mount_inv m" and "mount_abs m = (mount_abs mount0)([[0x61]] \<mapsto> new_entry INT_FILEINFO (5, 6) 0x81A4)"
proof -
  obtain a m where m: "server fresh0 create_a mount0 = Some (a, m)" "mount_inv m" "mount_spec create_a (mount_abs mount0) a (mount_abs m)"
    using mount.served[OF mount0_state(2) mount0_allows] by blast
  from create_a_effect[OF m(3)] have a: "a = (0, Rep_none)" "mount_abs m = (mount_abs mount0)([[0x61]] \<mapsto> new_entry INT_FILEINFO (5, 6) 0x81A4)" by simp_all
  have "session (server fresh0) (mount_adm fresh0) mount0 ([] @ [(create_a, a)]) m"
    by (rule session_snoc) (rule session_nil, rule mount0_allows, rule m(1))
  then show ?thesis using that a m(1,2) by simp
qed

section \<open>Sessions\<close>

text \<open>
  C1. A mounted package refines its contract: however many requests a session serves, each allowed in the state it meets,
  the log of numbers and answers is one that the abstract package, a map from paths to entries, gives for the same
  requests, its last state is what the bytes of the package represent, and the package is sound: no block has two uses,
  the free list is well-formed, every file's blocks fit its length. Only the bytes that a file gets in new blocks when it grows
  are left open.
\<close>

theorem session_refines:
  assumes "session (server fresh) (mount_adm fresh) m log m'" and "mount_inv m"
  shows "mount_inv m' \<and> follows mount_spec (mount_abs m) log (mount_abs m')"
  using mount.session_inv[OF assms] mount.session_follows[OF assms] by simp

theorem session_refines_witness:
  "\<exists>m. session (server fresh0) (mount_adm fresh0) mount0 [(create_a, (0, Rep_none))] m \<and> mount_inv m \<and>
     follows mount_spec (mount_abs mount0) [(create_a, (0, Rep_none))] (mount_abs m)"
  by (rule session_a) (use session_refines[OF _ mount0_state(2)] in blast)

text \<open>
  C2. A mounted package never gets stuck: after any session, every request that is allowed then returns a number and an
  answer; no loop over blocks, chains or entries runs for ever and no lookup leaves a vector.
\<close>

theorem session_never_stuck:
  assumes "session (server fresh) (mount_adm fresh) m log m'" and "mount_inv m" and "mount_adm fresh m' q"
  shows "\<exists>n rep m''. session (server fresh) (mount_adm fresh) m (log @ [(q, (n, rep))]) m''"
  using mount.session_extends[OF assms] by (metis surj_pair)

theorem session_never_stuck_witness:
  "\<exists>n rep m. session (server fresh0) (mount_adm fresh0) mount0 [(create_a, (n, rep))] m"
  using session_never_stuck[OF session_nil mount0_state(2) mount0_allows] by simp

text \<open>
  C3. Type soundness: after any session the package is a tree of typed entries. The root is a directory, only directories
  have names in them, every entry is a file, a directory, a symbolic link or a device, and the bytes of a file's blocks
  are whole blocks, at most 946, that hold its length.
\<close>

theorem session_well_typed:
  assumes "session (server fresh) (mount_adm fresh) m log m'" and "mount_inv m"
  shows "well_typed (mount_abs m')"
  using mount_well_typed mount.session_inv[OF assms] by blast

theorem session_well_typed_witness:
  "\<exists>m. session (server fresh0) (mount_adm fresh0) mount0 [(create_a, (0, Rep_none))] m \<and> well_typed (mount_abs m)"
  by (rule session_a) (use session_well_typed[OF _ mount0_state(2)] in blast)

text \<open>
  C5. A request touches only its path, and renaming only what is at or behind its two paths: after any allowed request,
  whatever it answers, every other path leads to an entry with the same type, permissions, owner, length and bytes as
  before, or still to nothing.
\<close>

theorem request_touches_one_path:
  assumes "mount_inv m" and "mount_adm fresh m q" and "server fresh q m = Some (a, m')" and "\<not> touched (snd q) cs"
  shows "mount_abs m' cs = mount_abs m cs"
proof -
  have "mount_spec q (mount_abs m) a (mount_abs m')" using mount.served_by[OF assms(1-3)] by blast
  then obtain gap where "effect gap (fst q) (snd q) (mount_abs m) = (fst a, mount_abs m')" by (auto simp: mount_spec_def)
  then show ?thesis by (rule effect_local[OF _ assms(4)])
qed

theorem request_touches_one_path_witness:
  "\<exists>m. server fresh0 create_a mount0 = Some ((0, Rep_none), m) \<and> mount_abs m [] = mount_abs mount0 []"
proof -
  obtain m where m: "server fresh0 create_a mount0 = Some ((0, Rep_none), m)" using session_a by blast
  have "\<not> touched (snd create_a) []" by (simp add: touched_def create_a_def components_def)
  from request_touches_one_path[OF mount0_state(2) mount0_allows m this] show ?thesis using m by blast
qed

text \<open>
  C4. What was written is read: on a mounted package, \<^verbatim>\<open>FuseLink::write\<close> of some bytes to a file, inside it or with
  room to grow, returns how many they are, and \<^verbatim>\<open>FuseLink::read\<close> of as many from the same offset, for any caller and into
  any buffer of that size, then returns the same number and exactly those bytes.
\<close>

theorem fuse_write_then_read:
  assumes inv: "mount_inv m" and path: "path_error path = None" and en: "mount_abs m (components path) = Some en"
    and ty: "file_type (en_type en)" and adm: "admissible (m_fs m) (Req_write path data off)"
    and small: "\<not> too_big off (length data)" and fresh: "malloc_ok fresh"
    and out: "length out = length data" "length data < 2 ^ 32"
  shows "\<exists>m1 m2. serve fresh ctx (Req_write path data off) m = Some ((int (length data), Rep_none), m1) \<and>
    serve fresh ctx' (Req_read path out (length data) off) m1 = Some ((int (length data), Rep_buffer data), m2)"
proof -
  let ?A = "mount_abs m"
  have off: "0 \<le> off" "data \<noteq> []" using adm by simp_all
  obtain a m1 where m1: "server fresh (ctx, Req_write path data off) m = Some (a, m1)" "mount_inv m1"
    "mount_spec (ctx, Req_write path data off) ?A a (mount_abs m1)"
    using mount.served[OF inv, of fresh "(ctx, Req_write path data off)"] adm fresh by (auto simp: mount_adm_def)
  obtain gap where eff: "effect gap ctx (Req_write path data off) ?A = (fst a, mount_abs m1)" using m1(3) by (auto simp: mount_spec_def)
  let ?en = "write_entry gap (nat off) data en"
  have "effect gap ctx (Req_write path data off) ?A = (int (length data), ?A(components path \<mapsto> ?en))"
    using small path en ty by (simp add: resolve_def)
  then have a: "a = (int (length data), Rep_none)" and abs: "mount_abs m1 = ?A(components path \<mapsto> ?en)"
    using m1(3) eff by (cases a; simp add: mount_spec_def)+
  have typed: "entry_typed en" using mount_well_typed[OF inv] en by (auto simp: well_typed_def)
  then have st: "en_len en \<le> length (en_store en)" using ty by (simp add: entry_typed_def)
  let ?st = "if en_len en < nat off + length data then pad_to gap (nat off + length data) (en_store en) else en_store en"
  have room: "nat off + length data \<le> length ?st"
  proof (cases "en_len en < nat off + length data")
    case True
    have "nat off + length data \<le> 4096 * ((nat off + length data + 4095) div 4096)" by linarith
    then show ?thesis using True by (simp add: pad_to_def)
  qed (use st in simp)
  have bytes: "take (length data) (drop (nat off) (en_store ?en)) = data"
    using room by (simp add: write_entry_def buf_put_def Let_def split del: if_split)
  have len: "nat off + length data \<le> en_len ?en" by (simp add: write_entry_def Let_def)
  have adm': "mount_adm fresh m1 (ctx', Req_read path out (length data) off)"
  proof -
    obtain bs where ses: "ses_inv (m_fs m1) bs" using m1(2) by (auto simp: mount_inv_def)
    note f = ses_facts[OF ses]
    have "nat off < unat (i_dat_len n)" if n: "locate (fs_disk (m_fs m1)) (components path) = Some n" "file_type (i_type n)" for n
    proof -
      have "entry_at (fs_disk (m_fs m1)) (i_inodeid n) = ?en" using fun_cong[OF abs, of "components path"] n(1) by (simp add: mount_abs_def abs_of_locate)
      then have "unat (i_dat_len n) = en_len ?en" using entry_at_fields(5)[OF f(2,5) n] by simp
      then show ?thesis using len off(2) by (cases data) auto
    qed
    then show ?thesis using off out fresh by (auto simp: mount_adm_def on_node_def)
  qed
  obtain b m2 where m2: "server fresh (ctx', Req_read path out (length data) off) m1 = Some (b, m2)"
    "mount_spec (ctx', Req_read path out (length data) off) (mount_abs m1) b (mount_abs m2)"
    using mount.served[OF m1(2) adm'] by blast
  have "min (length data) (en_len ?en - nat off) = length data" using len by simp
  moreover have "file_type (en_type ?en)" using ty by (simp add: write_entry_def Let_def)
  ultimately have "effect gap' ctx' (Req_read path out (length data) off) (mount_abs m1) = (int (length data), mount_abs m1)" for gap'
    using small path by (simp add: resolve_def abs)
  then have "b = (int (length data), Rep_buffer data)"
    using m2(2) bytes out(1) by (cases b) (simp add: mount_spec_def abs)
  then show ?thesis using m1(1) m2(1) a by (auto simp: server_def)
qed

definition mount_d :: mounted where
  "mount_d = \<lparr>m_fs = package_d, m_uid = 0, m_gid = 0\<rparr>"

lemma mount_d_state:
  "mount_inv mount_d" "locate (fs_disk (m_fs mount_d)) [[0x61]] = Some sample_node"
  "\<exists>en. mount_abs mount_d [[0x61]] = Some en \<and> file_type (en_type en)"
proof -
  have ty: "i_type root_node_d = INT_DIRECTORY" by (simp add: root_node_d_def dir_put_def root_node_def)
  have sn: "i_type sample_node = INT_FILEINFO" "i_nlink sample_node = 1" "i_inodeid sample_node = 1" by (simp_all add: sample_node_def)
  have raw: "raw_by_id (fs_disk package_d) j = (if j = 0 then root_node_d else if j = 1 then sample_node else new_inode 0 INT_INVALID)" for j
    by (simp add: package_d_paths(2) package_f_raw)
  have nl: "no_links (fs_disk package_d)" by (simp add: no_links_def raw ty sn)
  then have "ses_inv package_d []" using package_d_inv by (simp add: ses_inv_def)
  then show "mount_inv mount_d" by (auto simp: mount_inv_def mount_d_def)
  have l: "locate (fs_disk package_d) [[0x61]] = Some sample_node" using package_d_paths(1) by simp
  then show "locate (fs_disk (m_fs mount_d)) [[0x61]] = Some sample_node" by (simp add: mount_d_def)
  show "\<exists>en. mount_abs mount_d [[0x61]] = Some en \<and> file_type (en_type en)"
    using l sn by (simp add: mount_abs_def mount_d_def abs_of_locate entry_at_def raw Let_def)
qed

theorem fuse_write_then_read_witness:
  "\<exists>m1 m2. serve fresh0 (5, 6) (Req_write [0x2F, 0x61] [1, 2, 3] 4) mount_d = Some ((3, Rep_none), m1) \<and>
     serve fresh0 (7, 7) (Req_read [0x2F, 0x61] [0, 0, 0] 3 4) m1 = Some ((3, Rep_buffer [1, 2, 3]), m2)"
proof -
  obtain en where en: "mount_abs mount_d (components [0x2F, 0x61]) = Some en" "file_type (en_type en)"
    using mount_d_state(3) by (auto simp: path_a)
  have "i_dat_len sample_node = 10" by (simp add: sample_node_def)
  then have "admissible (m_fs mount_d) (Req_write [0x2F, 0x61] [1, 2, 3] 4)"
    using mount_d_state(2) by (simp add: on_node_def path_a)
  moreover have "\<not> too_big 4 (length [1, 2, 3 :: byte])" by (simp add: too_big_def config)
  moreover have "malloc_ok fresh0" by (simp add: malloc_ok_def fresh0_def)
  ultimately show ?thesis
    using fuse_write_then_read[OF mount_d_state(1) path_a(3) en, of "[1, 2, 3]" 4 fresh0 "[0, 0, 0]" "(5, 6)" "(7, 7)"]
    by (simp add: numeral_3_eq_3)
qed

section \<open>Renaming\<close>

text \<open>
  C6. Renaming moves: on a mounted package, \<^verbatim>\<open>FuseLink::rename\<close> of a path that exists to a free name in a directory
  returns 0; every path at or behind the new one then leads to what was at or behind the old one (type, permissions, owner,
  length and bytes), the old path and what was behind it lead to nothing, every other path is as before, and the package is
  sound.
\<close>

theorem fuse_rename_moves:
  assumes inv: "mount_inv m" and can: "admissible (m_fs m) (Req_rename src dst)" and valid: "path_error src = None" "path_error dst = None"
    and found: "mount_abs m (components src) \<noteq> None" and dir: "mount_abs m (butlast (components dst)) \<noteq> None"
    and free: "mount_abs m (components dst) = None"
  shows "\<exists>m'. fuse_rename ctx src dst m = Some ((0, ()), m') \<and> mount_inv m' \<and>
    (\<forall>zs. mount_abs m' (components dst @ zs) = mount_abs m (components src @ zs)) \<and>
    (\<forall>zs. \<not> path_under (components dst) (components src @ zs) \<longrightarrow> mount_abs m' (components src @ zs) = None) \<and>
    (\<forall>qs. \<not> path_under (components dst) qs \<longrightarrow> \<not> path_under (components src) qs \<longrightarrow> mount_abs m' qs = mount_abs m qs)"
proof -
  let ?A = "mount_abs m" and ?p = "components src" and ?q = "components dst"
  have adm: "mount_adm fresh0 m (ctx, Req_rename src dst)" using can by (simp add: mount_adm_def malloc_ok_def fresh0_def)
  obtain a m' where m': "server fresh0 (ctx, Req_rename src dst) m = Some (a, m')" "mount_inv m'"
    "mount_spec (ctx, Req_rename src dst) ?A a (mount_abs m')"
    using mount.served[OF inv adm] by blast
  have "?p \<noteq> ?q" using found free by auto
  then have "effect gap ctx (Req_rename src dst) ?A = (0, moved ?p ?q ?A)" for gap
    using valid found dir free by (auto simp: renaming_def resolve_def Let_def)
  then have a: "a = (0, Rep_none)" and B: "mount_abs m' = moved ?p ?q ?A"
    using m'(3) by (cases a; simp add: mount_spec_def)+
  have "fuse_rename ctx src dst m = Some ((0, ()), m')"
    using m'(1) a by (auto simp: server_def replied_def split: option.splits)
  then show ?thesis using m'(2) by (intro exI[of _ m']) (simp add: B moved_def)
qed

definition mount_e :: mounted where
  "mount_e = snd (the (server fresh0 create_a mount0))"

lemma mount_e_state:
  "mount_inv mount_e" "mount_abs mount_e = (mount_abs mount0)([[0x61]] \<mapsto> new_entry INT_FILEINFO (5, 6) 0x81A4)"
  using session_a by (metis mount_e_def option.sel snd_conv)+

lemma path_b: "components [0x2F, 0x62] = [[0x62]]" "path_error [0x2F, 0x62] = None" "components [0x62] = [[0x62]]"
  by (simp_all add: components_def path_error_def)

lemma mount_e_allows: "components dst = [b] \<Longrightarrow> admissible (m_fs mount_e) (Req_rename [0x2F, 0x61] dst)"
proof -
  obtain bs where ses: "ses_inv (m_fs mount_e) bs" using mount_e_state(1) by (auto simp: mount_inv_def)
  note f = ses_facts[OF ses]
  show "components dst = [b] \<Longrightarrow> admissible (m_fs mount_e) (Req_rename [0x2F, 0x61] dst)"
    using plain_root(2)[OF f(2,5)] by (simp add: renamable_def path_a Let_def path_under_def)
qed

theorem fuse_rename_moves_witness:
  "\<exists>m'. fuse_rename (7, 7) [0x2F, 0x61] [0x2F, 0x62] mount_e = Some ((0, ()), m') \<and>
     mount_abs m' [[0x62]] = Some (new_entry INT_FILEINFO (5, 6) 0x81A4) \<and> mount_abs m' [[0x61]] = None"
proof -
  have "\<not> path_under [[0x62]] [[0x61 :: byte]]" by (simp add: path_under_def)
  moreover have "mount_abs mount_e [] \<noteq> None" "mount_abs mount_e [[0x61]] \<noteq> None" "mount_abs mount_e [[0x62]] = None"
    by (simp_all add: mount_e_state(2) mount0_state(5))
  ultimately obtain m' where m': "fuse_rename (7, 7) [0x2F, 0x61] [0x2F, 0x62] mount_e = Some ((0, ()), m')"
    "\<forall>zs. mount_abs m' ([[0x62]] @ zs) = mount_abs mount_e ([[0x61]] @ zs)" "\<forall>zs. \<not> path_under [[0x62]] ([[0x61]] @ zs) \<longrightarrow> mount_abs m' ([[0x61]] @ zs) = None"
    using fuse_rename_moves[OF mount_e_state(1) mount_e_allows[OF path_b(1)] path_a(3) path_b(2), where ctx = "(7, 7)"]
    by (auto simp: path_a path_b)
  have "mount_abs m' [[0x62]] = Some (new_entry INT_FILEINFO (5, 6) 0x81A4)" using m'(2)[rule_format, of "[]"] by (simp add: mount_e_state(2))
  moreover have "mount_abs m' [[0x61]] = None" using m'(3)[rule_format, of "[]"] by (simp add: path_under_def)
  ultimately show ?thesis using m'(1) by blast
qed

text \<open>
  C7. Renaming a path to itself destroys what is there: \<^verbatim>\<open>FuseLink::rename\<close> of a file, a symbolic link, a device or an empty
  directory to its own path, which should do nothing, removes it as the old entry of the new path and then
  fails to save the inode it has removed: the number is -5 and the path leads to nothing.
\<close>

theorem fuse_rename_to_itself:
  assumes inv: "mount_inv m" and can: "admissible (m_fs m) (Req_rename path path)" and valid: "path_error path = None"
    and en: "mount_abs m (components path) = Some en" and leaf: "\<not> has_child (mount_abs m) (components path)"
    and dir: "mount_abs m (butlast (components path)) = Some d" and plain: "\<not> sticky ctx d en"
  shows "\<exists>m'. fuse_rename ctx path path m = Some ((- 5, ()), m') \<and> mount_abs m' = (mount_abs m)(components path := None)"
proof -
  let ?A = "mount_abs m" and ?p = "components path"
  have adm: "mount_adm fresh0 m (ctx, Req_rename path path)" using can by (simp add: mount_adm_def malloc_ok_def fresh0_def)
  obtain a m' where m': "server fresh0 (ctx, Req_rename path path) m = Some (a, m')"
    "mount_spec (ctx, Req_rename path path) ?A a (mount_abs m')"
    using mount.served[OF inv adm] by blast
  have "effect gap ctx (Req_rename path path) ?A = (- 5, ?A(?p := None))" for gap
    using valid en leaf dir plain by (simp add: renaming_def resolve_def Let_def)
  then have a: "a = (- 5, Rep_none)" and B: "mount_abs m' = ?A(?p := None)"
    using m'(2) by (cases a; simp add: mount_spec_def)+
  have "fuse_rename ctx path path m = Some ((- 5, ()), m')"
    using m'(1) a by (auto simp: server_def replied_def split: option.splits)
  then show ?thesis using B by blast
qed

theorem fuse_rename_to_itself_witness:
  "\<exists>m'. fuse_rename (7, 7) [0x2F, 0x61] [0x2F, 0x61] mount_e = Some ((- 5, ()), m') \<and> mount_abs m' [[0x61]] = None"
proof -
  let ?root = "\<lparr>en_type = INT_DIRECTORY, en_mask = 0x1FF, en_uid = 0, en_gid = 1000, en_len = 0, en_store = [], en_dev = (0, 0)\<rparr>"
  have "mount_abs mount_e (components [0x2F, 0x61]) = Some (new_entry INT_FILEINFO (5, 6) 0x81A4)"
    "mount_abs mount_e (butlast (components [0x2F, 0x61])) = Some ?root" "\<not> has_child (mount_abs mount_e) (components [0x2F, 0x61])"
    by (simp_all add: path_a has_child_def mount_e_state(2) mount0_state(5))
  moreover have "\<not> sticky (7, 7) ?root (new_entry INT_FILEINFO (5, 6) 0x81A4)" by (simp add: sticky_def)
  ultimately obtain m' where "fuse_rename (7, 7) [0x2F, 0x61] [0x2F, 0x61] mount_e = Some ((- 5, ()), m')"
    "mount_abs m' = (mount_abs mount_e)(components [0x2F, 0x61] := None)"
    using fuse_rename_to_itself[OF mount_e_state(1) mount_e_allows[OF path_a(1)] path_a(3)] by blast
  then show ?thesis by (auto simp: path_a)
qed

text \<open>
  C21. A new package mounts as an empty one: the constructor of \<^verbatim>\<open>AppLib::FS\<close>, through its stream and its low-level
  filesystem, opens what \<^verbatim>\<open>Util::createPackage\<close> wrote, whatever the name, version, description, author and time, and the mounted package is sound and holds the root directory only.
\<close>

theorem new_package_is_empty:
  "\<exists>m. AppFS_ctor (Some (createPackage rtime appname appver appdesc appauthor)) scratch clk uid gid co = Some (Started (Inr m), co) \<and>
     mount_inv m \<and>
     mount_abs m = [[] \<mapsto> \<lparr>en_type = INT_DIRECTORY, en_mask = 0x1FF, en_uid = 0, en_gid = 1000, en_len = 0, en_store = [], en_dev = (0, 0)\<rparr>]"
  using new_package_session[of rtime appname appver appdesc appauthor clk uid gid] by (auto simp: mount_inv_def AppFS_ctor_eq(2))

end
