(* ===== verification/Inspect.thy ===== *)
theory Inspect
  imports Logging LowFS_File PathUtil
begin

text \<open>
  \<^verbatim>\<open>appfs/appinspect.cpp\<close>: the interactive tool that shows what a package holds. The state is the open
  package, the terminal and the keyboard. A function returns an option, \<open>None\<close> meaning that it does not
  return, of either a state or \<open>Undefined\<close>, where the C++ standard gives the execution no meaning.
\<close>

section \<open>The state of the tool\<close>

text \<open>
  \<open>in_keys\<close> are the results of \<^verbatim>\<open>getchar()\<close>, -1 standing for the end of the input, of which \<open>in_nkeys\<close> have
  been taken; \<open>in_stack\<close> is what an uninitialised variable of \<^verbatim>\<open>DoShow\<close> happens to hold.
\<close>

record inspect =
  in_fs :: fsys
  in_co :: console
  in_keys :: "nat \<Rightarrow> int"
  in_nkeys :: nat
  in_stack :: "nat \<Rightarrow> byte"

datatype 'a run = Returns 'a | Undefined

definition printf :: "string \<Rightarrow> vararg list \<Rightarrow> inspect \<Rightarrow> inspect" where
  "printf fmt args s = s\<lparr>in_co := vprintf (chars fmt) args (in_co s)\<rparr>"

definition echo :: "byte list \<Rightarrow> inspect \<Rightarrow> inspect" where
  "echo bs s = s\<lparr>in_co := cout bs (in_co s)\<rparr>"

definition on_co :: "(console \<Rightarrow> console) \<Rightarrow> inspect \<Rightarrow> inspect" where
  "on_co f s = s\<lparr>in_co := f (in_co s)\<rparr>"

text \<open>\<^verbatim>\<open>_getch\<close> between its two changes of the terminal's mode, and the assignment of its result to a \<^verbatim>\<open>char\<close>.\<close>

definition getch :: "inspect \<Rightarrow> byte \<times> inspect" where
  "getch s = (word_of_int (in_keys s (in_nkeys s)), s\<lparr>in_nkeys := in_nkeys s + 1\<rparr>)"

section \<open>Reading a line\<close>

abbreviation cr :: byte where "cr \<equiv> 0x0D"
abbreviation bsp :: byte where "bsp \<equiv> 0x08"

text \<open>\<^verbatim>\<open>continue\<close> goes to the condition of the loop, which the key after a special key can end.\<close>

partial_function (option) read_loop :: "byte list \<Rightarrow> inspect \<Rightarrow> (byte list \<times> inspect) option" where
  "read_loop ret s =
     (let (c, s) = getch s
      in if c = 0 \<or> c = - 32 then
           let (c, s) = getch s
           in if c \<noteq> cr \<and> c \<noteq> newline then read_loop ret s else Some (ret, s)
         else if sint c < 32 \<and> c \<noteq> bsp \<and> c \<noteq> cr \<and> c \<noteq> newline then
           read_loop ret (printf ''(%i)'' [Int_arg (sint c)] s)
         else if c = cr \<or> c = newline then Some (ret, echo [newline] s)
         else if c = bsp then
           (if length ret > 0
            then read_loop (take (length ret - 1) ret) (echo [bsp, blank, bsp] s)
            else read_loop ret s)
         else read_loop (ret @ [c]) (echo [c] s))"

definition ReadLine :: "inspect \<Rightarrow> (byte list \<times> inspect) option" where
  "ReadLine s = read_loop [] s"

section \<open>Commands\<close>

text \<open>The loop of \<^verbatim>\<open>ParseCommand\<close>: the words so far, the word begun, \<^verbatim>\<open>quoteOn\<close> and \<^verbatim>\<open>isEscaping\<close>.\<close>

fun parse_loop ::
    "byte list \<Rightarrow> byte list list \<Rightarrow> byte list \<Rightarrow> bool \<Rightarrow> bool \<Rightarrow> byte list list \<times> byte list \<times> bool" where
  "parse_loop [] ret buf quoteOn isEscaping = (ret, buf, quoteOn)"
| "parse_loop (c # cmd) ret buf quoteOn isEscaping =
     (if isEscaping then parse_loop cmd ret (buf @ [c]) quoteOn False
      else if c = backslash then parse_loop cmd ret buf quoteOn True
      else if c = dquote then parse_loop cmd ret buf (\<not> quoteOn) False
      else if c = space \<and> \<not> quoteOn \<and> buf \<noteq> [] then parse_loop cmd (ret @ [buf]) [] quoteOn False
      else if quoteOn \<or> c \<noteq> space then parse_loop cmd ret (buf @ [c]) quoteOn False
      else parse_loop cmd ret buf quoteOn False)"

definition ParseCommand :: "byte list \<Rightarrow> byte list list" where
  "ParseCommand cmd =
     (let (ret, buf, quoteOn) = parse_loop cmd [] [] False False;
          ret = (if length buf > 0 then ret @ [buf] else ret)
      in if quoteOn then [chars ''__continue''] else ret)"

text \<open>\<^verbatim>\<open>args.size() - 1\<close> is a \<^verbatim>\<open>size_t\<close>, to which the two limits are converted.\<close>

definition CheckArguments_range :: "string \<Rightarrow> byte list list \<Rightarrow> int \<Rightarrow> int \<Rightarrow> inspect \<Rightarrow> bool \<times> inspect" where
  "CheckArguments_range name args minargs maxargs s =
     (let maxargs = (if maxargs = - 1 then minargs else maxargs);
          given = (of_nat (length args) - 1 :: u64)
      in if given < word_of_int minargs \<or> given > word_of_int maxargs then
           (False,
            on_co (showErrorO ''Type 'help' for usage details.'' [])
             (on_co (showErrorW ''Invalid number of arguments to command '%s'.'' [Str_arg (chars name)]) s))
         else (True, s))"

definition CheckArguments :: "string \<Rightarrow> byte list list \<Rightarrow> int \<Rightarrow> inspect \<Rightarrow> bool \<times> inspect" where
  "CheckArguments name args argcount = CheckArguments_range name args argcount argcount"

text \<open>The two tables, indexed by the number of a type up to 255; what \<^verbatim>\<open>SetTypeNames\<close> leaves out stays empty.\<close>

definition TypeNames :: "nat \<Rightarrow> byte list" where
  "TypeNames = (\<lambda>_. [])
     (unat (type_code INT_FREEBLOCK) := chars ''free'',
      unat (type_code INT_FILEINFO) := chars ''file info'',
      unat (type_code INT_SEGINFO) := chars ''segment info'',
      unat (type_code INT_DATA) := chars ''data'',
      unat (type_code INT_DIRECTORY) := chars ''directory'',
      unat (type_code INT_SYMLINK) := chars ''symbolic link'',
      unat (type_code INT_DEVICE) := chars ''device'',
      unat (type_code INT_TEMPORARY) := chars ''temporary data'',
      unat (type_code INT_FREELIST) := chars ''freelist block'',
      unat (type_code INT_FSINFO) := chars ''filesystem info'',
      unat (type_code INT_INVALID) := chars ''invalid'',
      unat (type_code INT_UNSET) := chars ''unset'')"

definition TypeChars :: "nat \<Rightarrow> byte" where
  "TypeChars = (\<lambda>_. 0)
     (unat (type_code INT_FREEBLOCK) := of_char (CHR ''_''),
      unat (type_code INT_FILEINFO) := of_char (CHR ''F''),
      unat (type_code INT_SEGINFO) := of_char (CHR ''S''),
      unat (type_code INT_DATA) := of_char (CHR ''#''),
      unat (type_code INT_DIRECTORY) := of_char (CHR ''D''),
      unat (type_code INT_SYMLINK) := of_char (CHR ''L''),
      unat (type_code INT_DEVICE) := of_char (CHR ''D''),
      unat (type_code INT_TEMPORARY) := of_char (CHR ''T''),
      unat (type_code INT_FREELIST) := of_char (CHR ''%''),
      unat (type_code INT_FSINFO) := of_char (CHR ''I''),
      unat (type_code INT_INVALID) := of_char (CHR ''?''),
      unat (type_code INT_UNSET) := of_char (CHR '' ''))"

text \<open>
  \<^verbatim>\<open>std::istringstream\<close> reading an \<^verbatim>\<open>int\<close>: white space, a sign and the digits that follow; 0 where there are
  none, and the nearest \<^verbatim>\<open>int\<close> where the number is too large.
\<close>

definition is_space :: "byte \<Rightarrow> bool" where
  "is_space c \<longleftrightarrow> c = blank \<or> 9 \<le> c \<and> c \<le> 13"

definition is_digit :: "byte \<Rightarrow> bool" where
  "is_digit c \<longleftrightarrow> 0x30 \<le> c \<and> c \<le> 0x39"

definition digits_value :: "byte list \<Rightarrow> int" where
  "digits_value ds = foldl (\<lambda>n d. 10 * n + (uint d - 0x30)) 0 ds"

definition parse_int :: "byte list \<Rightarrow> int" where
  "parse_int bs =
     (let bs = dropWhile is_space bs;
          negative = (bs \<noteq> [] \<and> hd bs = 0x2D);
          bs = (if bs \<noteq> [] \<and> (hd bs = 0x2D \<or> hd bs = 0x2B) then tl bs else bs);
          n = digits_value (takeWhile is_digit bs);
          n = (if negative then - n else n)
      in max (- (2 ^ 31)) (min (2 ^ 31 - 1) n))"

definition DoHelp :: "byte list list \<Rightarrow> inspect \<Rightarrow> inspect run option" where
  "DoHelp cmd s =
     (let s = printf ''children <inode id> - List the children of the specified INode by ID.  Use 0 for the root INode.\<newline>'' [] s;
          s = printf ''show <block num>    - Shows the binary representation of a block.\<newline>'' [] s;
          s = printf ''segments            - Displays a representation of the types of each block in the package.\<newline>'' [] s;
          s = printf ''clean               - Removes any temporary or invalid blocks in the package.\<newline>'' [] s
      in Some (Returns s))"

definition GetChildren :: "byte list list \<Rightarrow> inspect \<Rightarrow> inspect run option" where
  "GetChildren cmd s =
     (let (ok, s) = CheckArguments ''children'' cmd 1 s
      in if \<not> ok then Some (Returns s)
         else
           let id = parse_int (cmd ! 1)
           in do { (children, fs) \<leftarrow> getChildrenOfDirectory (word_of_int id) (in_fs s);
                   let s = s\<lparr>in_fs := fs\<rparr>;
                   let s = printf ''Children of directory with INode %i:\<newline>'' [Int_arg id] s;
                   Some (if list_all (\<lambda>c. unat (type_code (i_type c)) \<le> 255) children
                         then Returns (foldl (\<lambda>s c. printf '' * %i (%s)\<newline>''
                                 [Int_arg (uint (i_inodeid c)), Str_arg (TypeNames (unat (type_code (i_type c))))] s)
                                 s children)
                         else Undefined) })"

section \<open>The blocks in use\<close>

text \<open>\<^verbatim>\<open>std::merge\<close> writes through the iterator it is given, which must have room for every element.\<close>

fun merged :: "u32 list \<Rightarrow> u32 list \<Rightarrow> u32 list" where
  "merged [] ys = ys"
| "merged xs [] = xs"
| "merged (x # xs) (y # ys) = (if y < x then y # merged (x # xs) ys else x # merged xs (y # ys))"

definition merge_into :: "u32 list \<Rightarrow> u32 list \<Rightarrow> u32 list \<Rightarrow> u32 list run" where
  "merge_into xs ys dest =
     (let m = merged xs ys
      in if length m \<le> length dest then Returns (m @ drop (length m) dest) else Undefined)"

text \<open>
  The loop over the children with the accumulated vectors, and in it the recursive call for a directory: its
  node, its children and their loop, which starts with the directory's own position as the only header.
\<close>

partial_function (option) data_loop ::
    "inode list \<Rightarrow> u32 list \<Rightarrow> u32 list \<Rightarrow> u32 list \<Rightarrow> u32 list \<Rightarrow> fsys
      \<Rightarrow> ((u32 list \<times> u32 list) run \<times> fsys) option" where
  "data_loop children positions headers result1 result2 s =
     (case children of
        [] \<Rightarrow> Some (Returns (positions, headers), s)
      | c # rest \<Rightarrow>
          if i_type c = INT_DIRECTORY then
            let (spos, s) = getINodePositionByID (i_inodeid c) s
            in do { (node, s) \<leftarrow> getINodeByPosition spos s;
                    (below, s) \<leftarrow> getChildrenOfDirectory (i_inodeid node) s;
                    (r, s) \<leftarrow> data_loop below [] [spos] [] [] s;
                    (case r of
                       Undefined \<Rightarrow> Some (Undefined, s)
                     | Returns accessible \<Rightarrow>
                         (case merge_into positions (fst accessible) result1 of
                            Undefined \<Rightarrow> Some (Undefined, s)
                          | Returns result1 \<Rightarrow>
                              (case merge_into headers (snd accessible) result2 of
                                 Undefined \<Rightarrow> Some (Undefined, s)
                               | Returns result2 \<Rightarrow> data_loop rest result1 result2 result1 result2 s))) }
          else if i_type c = INT_FILEINFO then
            let (bpos, s) = getINodePositionByID (i_inodeid c) s;
                headers = bpos # headers;
                (r, s) = seg_scan (\<lambda>i spos acc s. if spos = 0 then (Stop acc, s) else (Go (spos # acc), s))
                           bpos (segment_offsets HSIZE_FILE) positions s
            in data_loop rest (case r of Stop acc \<Rightarrow> acc | Go acc \<Rightarrow> acc) headers result1 result2 s
          else data_loop rest positions headers result1 result2 s)"

definition GetDataBlocks :: "u32 \<Rightarrow> fsys \<Rightarrow> ((u32 list \<times> u32 list) run \<times> fsys) option" where
  "GetDataBlocks pos s =
     do { (node, s) \<leftarrow> getINodeByPosition pos s;
          (children, s) \<leftarrow> getChildrenOfDirectory (i_inodeid node) s;
          data_loop children [] [pos] [] [] s }"

text \<open>
  The body of the \<^verbatim>\<open>try\<close> blocks begins with \<^verbatim>\<open>getINodeByPosition\<close>. Whether a call on the stream throws is
  what \<^verbatim>\<open>BlockStream\<close>'s model says: on a ready stream none does, and past the end of the file reading
  yields nothing (\<open>Spec_Store.ready_stream_refines_disk\<close>).
\<close>

definition try_node :: "u32 \<Rightarrow> inspect \<Rightarrow> (inode io \<times> inspect) option" where
  "try_node pos s =
     do { (node, fs) \<leftarrow> getINodeByPosition pos (in_fs s); Some (Returned node, s\<lparr>in_fs := fs\<rparr>) }"

section \<open>The map of the blocks\<close>

definition segment_cell :: "u32 list \<Rightarrow> u32 list \<Rightarrow> u32 \<Rightarrow> inode \<Rightarrow> inspect \<Rightarrow> inspect" where
  "segment_cell datablocks headerblocks pos node s =
     (if fs_isBlockFree pos (in_fs s) then printf '' _ |'' [] s
      else
        let data = pos \<in> set datablocks;
            header = pos \<in> set headerblocks;
            ty = unat (type_code (i_type node))
        in if data then printf '' # |'' [] s
           else if ty > 255 \<or> TypeChars ty = 0 then printf '' ? |'' [] s
           else if header \<or> i_type node \<noteq> INT_FILEINFO \<and> i_type node \<noteq> INT_DIRECTORY
           then printf '' %c |'' [Int_arg (uint (TypeChars ty))] s
           else printf '' %c!|'' [Int_arg (uint (TypeChars ty))] s)"

partial_function (option) segments_loop ::
    "u32 list \<Rightarrow> u32 list \<Rightarrow> u32 \<Rightarrow> nat \<Rightarrow> inspect \<Rightarrow> inspect run option" where
  "segments_loop datablocks headerblocks pos i s =
     do { (r, s) \<leftarrow> try_node pos s;
          (case r of
             Returned node \<Rightarrow>
               let s = (if i = 16 then
                          let s = printf ''\<newline>'' [] s;
                              s = printf ''+---+---+---+---+---+---+---+---+---+---+---+---+---+---+---+---+\<newline>'' [] s
                          in printf ''|'' [] s
                        else s);
                   i = (if i = 16 then 1 else i + 1);
                   s = segment_cell datablocks headerblocks pos node s
               in segments_loop datablocks headerblocks (pos + of_nat BSIZE_FILE) i s
           | IosFailure \<Rightarrow>
               let s = (if i = 16 then printf ''\<newline>'' [] s else s);
                   s = foldl (\<lambda>s a. if a = 16 then printf ''   |\<newline>'' [] s else printf ''    '' [] s) s [i + 1..<17];
                   s = printf (CHR 0x5C # ''===============================================================/\<newline>'') [] s
               in Some (Returns s)
           | Deadlock \<Rightarrow> None) }"

definition DoSegments :: "byte list list \<Rightarrow> inspect \<Rightarrow> inspect run option" where
  "DoSegments cmd s =
     (let (ok, s) = CheckArguments ''segments'' cmd 0 s
      in if \<not> ok then Some (Returns s)
         else do {
           (info, fs) \<leftarrow> getINodeByPosition (of_nat OFFSET_FSINFO) (in_fs s);
           (r, fs) \<leftarrow> GetDataBlocks (i_pos_root info) fs;
           let s = s\<lparr>in_fs := fs\<rparr>;
           (case r of
              Undefined \<Rightarrow> Some Undefined
            | Returns (datablocks, headerblocks) \<Rightarrow>
                let s = printf ''_ = free block          F = file info       S = segment info\<newline>'' [] s;
                    s = printf ''# = data                D = directory       L = symbolic link\<newline>'' [] s;
                    s = printf ''T = temporary data      %% = freelist        H = hard link\<newline>'' [] s;
                    s = printf ''I = filesystem info     ? = invalid           = unset\<newline>'' [] s;
                    s = printf ''! = inaccessible (will be removed by the clean operation)\<newline>'' [] s;
                    s = printf ''\<newline>'' [] s;
                    s = printf ''Header blocks: %i\<newline>'' [Int_arg (int (length headerblocks))] s;
                    s = printf ''Data blocks: %i\<newline>'' [Int_arg (int (length datablocks))] s;
                    s = printf ''\<newline>'' [] s;
                    s = printf (''/==============================================================='' @ [CHR 0x5C] @ ''\<newline>'') [] s;
                    s = printf ''|'' [] s
                in segments_loop datablocks headerblocks (of_nat OFFSET_FSINFO) 0 s) })"

section \<open>Cleaning\<close>

record clean_counts =
  cl_failed :: nat
  cl_cleaned :: nat
  cl_temporary :: nat
  cl_invalid :: nat
  cl_files :: nat
  cl_directories :: nat

text \<open>The four cases of the \<^verbatim>\<open>switch\<close> differ in the counter, which a successful \<^verbatim>\<open>resetBlock\<close> increments.\<close>

definition reset_counted ::
    "(clean_counts \<Rightarrow> clean_counts) \<Rightarrow> u32 \<Rightarrow> clean_counts \<times> inspect \<Rightarrow> (clean_counts \<times> inspect) option" where
  "reset_counted bump pos = (\<lambda>(n, s).
     do { (res, fs) \<leftarrow> resetBlock pos (in_fs s);
          let s = s\<lparr>in_fs := fs\<rparr>;
          Some (if res = E_SUCCESS then bump (n\<lparr>cl_cleaned := cl_cleaned n + 1\<rparr>)
                else n\<lparr>cl_failed := cl_failed n + 1\<rparr>, s) })"

definition clean_block ::
    "u32 list \<Rightarrow> u32 list \<Rightarrow> u32 \<Rightarrow> inode \<Rightarrow> clean_counts \<times> inspect \<Rightarrow> (clean_counts \<times> inspect) option" where
  "clean_block datablocks headerblocks pos node = (\<lambda>(n, s).
     if fs_isBlockFree pos (in_fs s) \<or> pos \<in> set datablocks \<or> pos \<in> set headerblocks then Some (n, s)
     else if i_type node = INT_TEMPORARY
     then reset_counted (\<lambda>n. n\<lparr>cl_temporary := cl_temporary n + 1\<rparr>) pos (n, s)
     else if i_type node = INT_INVALID
     then reset_counted (\<lambda>n. n\<lparr>cl_invalid := cl_invalid n + 1\<rparr>) pos (n, s)
     else if i_type node = INT_FILEINFO
     then reset_counted (\<lambda>n. n\<lparr>cl_files := cl_files n + 1\<rparr>) pos (n, s)
     else if i_type node = INT_DIRECTORY
     then reset_counted (\<lambda>n. n\<lparr>cl_directories := cl_directories n + 1\<rparr>) pos (n, s)
     else Some (n, s))"

partial_function (option) clean_loop ::
    "u32 list \<Rightarrow> u32 list \<Rightarrow> u32 \<Rightarrow> clean_counts \<Rightarrow> inspect \<Rightarrow> inspect run option" where
  "clean_loop datablocks headerblocks pos n s =
     do { (r, s) \<leftarrow> try_node pos s;
          (case r of
             Returned node \<Rightarrow>
               do { (n, s) \<leftarrow> clean_block datablocks headerblocks pos node (n, s);
                    clean_loop datablocks headerblocks (pos + of_nat BSIZE_FILE) n s }
           | IosFailure \<Rightarrow>
               let s = printf ''Cleaned %i blocks (%i temporary, %i invalid, %i files, %i directories).\<newline>''
                         (map (Int_arg \<circ> int) [cl_cleaned n, cl_temporary n, cl_invalid n, cl_files n, cl_directories n]) s;
                   s = (if cl_failed n > 0
                        then printf ''%i blocks could not be freed during cleaning.\<newline>'' [Int_arg (int (cl_failed n))] s
                        else s)
               in Some (Returns s)
           | Deadlock \<Rightarrow> None) }"

definition DoClean :: "byte list list \<Rightarrow> inspect \<Rightarrow> inspect run option" where
  "DoClean cmd s =
     (let (ok, s) = CheckArguments ''clean'' cmd 0 s
      in if \<not> ok then Some (Returns s)
         else do {
           (info, fs) \<leftarrow> getINodeByPosition (of_nat OFFSET_FSINFO) (in_fs s);
           (r, fs) \<leftarrow> GetDataBlocks (i_pos_root info) fs;
           let s = s\<lparr>in_fs := fs\<rparr>;
           (case r of
              Undefined \<Rightarrow> Some Undefined
            | Returns (datablocks, headerblocks) \<Rightarrow>
                clean_loop datablocks headerblocks (of_nat OFFSET_FSINFO)
                  \<lparr>cl_failed = 0, cl_cleaned = 0, cl_temporary = 0, cl_invalid = 0, cl_files = 0,
                   cl_directories = 0\<rparr> s) })"

section \<open>A block in hexadecimal\<close>

text \<open>
  One round of the loop of \<^verbatim>\<open>DoShow\<close> and the loop over the bytes, with its counters and the characters collected for the line. The
  variable a byte is read into keeps what it held where the file has no byte.
\<close>

definition show_char :: "byte \<Rightarrow> byte list" where
  "show_char c = (if sint c < 32 \<or> c = 127 then [blank, blank] else [c, blank])"

definition show_byte :: "u32 \<Rightarrow> nat \<Rightarrow> nat \<times> nat \<times> byte list \<Rightarrow> inspect \<Rightarrow> (nat \<times> nat \<times> byte list) \<times> inspect" where
  "show_byte pos i = (\<lambda>(a, b, charcache) s.
     let fs = seekg (unat (pos + of_nat i)) (in_fs s);
         (byte, fs) = fd_doR [in_stack s i] fs;
         s = s\<lparr>in_fs := fs\<rparr>;
         s = printf ''%02X '' [Int_arg (uint (byte ! 0))] s;
         charcache = charcache @ show_char (byte ! 0);
         a = a + 1;
         s = (if a \<ge> 16 then printf '' %s\<newline>'' [Str_arg charcache] s else s);
         charcache = (if a \<ge> 16 then [] else charcache);
         a = (if a \<ge> 16 then 0 else a);
         b = b + 1
     in if b \<ge> 16 * 16 \<and> i \<noteq> BSIZE_FILE - 1 then
          let s = printf ''Showing %04X to %04X (page %i of %i). Press any key to view next 256 bytes.''
                    (map (Int_arg \<circ> int) [i + 1 - 16 * 16, i, (i + 1 - 16 * 16) div 256 + 1, 16]) s;
              (_, s) = getch s;
              s = printf ''\<newline>'' [] s
          in ((a, 0, charcache), s)
        else ((a, b, charcache), s))"

fun show_loop :: "u32 \<Rightarrow> nat list \<Rightarrow> nat \<times> nat \<times> byte list \<Rightarrow> inspect \<Rightarrow> inspect" where
  "show_loop pos [] acc s = s"
| "show_loop pos (i # is) acc s = (let (acc, s) = show_byte pos i acc s in show_loop pos is acc s)"

definition DoShow :: "byte list list \<Rightarrow> inspect \<Rightarrow> inspect run option" where
  "DoShow cmd s =
     (let (ok, s) = CheckArguments ''show'' cmd 1 s
      in if \<not> ok then Some (Returns s)
         else
           let id = parse_int (cmd ! 1);
               position = int OFFSET_FSINFO + id * int BSIZE_FILE
           in if id * int BSIZE_FILE < - (2 ^ 31) \<or> position \<ge> 2 ^ 31 then Some Undefined
              else Some (Returns (show_loop (word_of_int position) [0..<BSIZE_FILE] (0, 0, []) s)))"

section \<open>The main loop\<close>

text \<open>\<^verbatim>\<open>std::map\<close> holds the commands in the order of their names; the loop looks for the one typed.\<close>

definition AvailableCommands :: "(byte list \<times> (byte list list \<Rightarrow> inspect \<Rightarrow> inspect run option)) list" where
  "AvailableCommands =
     [(chars ''children'', GetChildren), (chars ''clean'', DoClean), (chars ''help'', DoHelp),
      (chars ''segments'', DoSegments), (chars ''show'', DoShow)]"

definition run_command :: "byte list list \<Rightarrow> inspect \<Rightarrow> inspect run option" where
  "run_command command s =
     (case map_of AvailableCommands (command ! 0) of
        Some f \<Rightarrow> f command s
      | None \<Rightarrow> Some (Returns (echo (chars ''# Bad command.\<newline>'') s)))"

partial_function (option) continue_loop ::
    "byte list \<Rightarrow> byte list list \<Rightarrow> inspect \<Rightarrow> (byte list list \<times> inspect) option" where
  "continue_loop cmdstr command s =
     (if length command \<noteq> 0 \<and> command ! 0 = chars ''__continue'' then
        do { (line, s) \<leftarrow> ReadLine (echo (chars ''.. '') s);
             let cmdstr = cmdstr @ line;
             continue_loop cmdstr (ParseCommand cmdstr) s }
      else Some (command, s))"

definition read_command :: "inspect \<Rightarrow> (byte list list \<times> inspect) option" where
  "read_command s =
     do { (cmdstr, s) \<leftarrow> ReadLine (echo (chars ''>> '') s);
          continue_loop cmdstr (ParseCommand cmdstr) s }"

partial_function (option) command_loop :: "inspect \<Rightarrow> (int \<times> inspect) run option" where
  "command_loop s =
     do { (command, s) \<leftarrow> read_command s;
          if length command = 0 then command_loop (echo (chars ''# Bad input.\<newline>'') s)
          else if command ! 0 = chars ''exit'' then Some (Returns (0, s))
          else do { r \<leftarrow> run_command command s;
                    (case r of Returns s \<Rightarrow> command_loop s | Undefined \<Rightarrow> Some Undefined) } }"

definition show_package :: "inode \<Rightarrow> inspect \<Rightarrow> inspect" where
  "show_package node s =
     (let s = on_co (showInfoW ''INode ID: %i'' [Int_arg (uint (i_inodeid node))]) s;
          s = on_co (showInfoO ''INode Type: %i'' [Int_arg (uint (type_code (i_type node)))]) s;
          s = on_co (showInfoO ''Filesystem Name: %s'' [Str_arg (cstr (i_fs_name node))]) s;
          s = on_co (showInfoO ''Filesystem Version: %i.%i.%i''
                (map (Int_arg \<circ> uint) [i_ver_major node, i_ver_minor node, i_ver_revision node])) s;
          s = on_co (showInfoO ''Application Name: %s'' [Str_arg (cstr (i_app_name node))]) s;
          s = on_co (showInfoO ''Application Version: %s'' [Str_arg (cstr (i_app_ver node))]) s;
          s = on_co (showInfoO ''Application Description: %s'' [Str_arg (cstr (i_app_desc node))]) s;
          s = on_co (showInfoO ''Application Author: %s'' [Str_arg (cstr (i_app_author node))]) s;
          s = on_co (showInfoO ''Position of root directory INode: %p'' [Int_arg (uint (i_pos_root node))]) s
      in on_co (showInfoO ''Position of freelist INode: %p'' [Int_arg (uint (i_pos_freelist node))]) s)"

text \<open>
  \<^verbatim>\<open>main\<close>: \<open>open_file\<close> is the file system of the host (\<open>None\<close>: the file cannot be opened), \<open>clk\<close> its clock. The message of the constructor of
  \<^verbatim>\<open>BlockStream\<close> comes before the tool's own.
\<close>

definition inspect_main ::
    "(byte list \<Rightarrow> disk option) \<Rightarrow> (nat \<Rightarrow> u64) \<Rightarrow> byte list list \<Rightarrow> inspect \<Rightarrow> (int \<times> inspect) run option" where
  "inspect_main open_file clk argv s =
     (let s = on_co (setApplicationName (chars ''appinspect'')) s;
          s = on_co (co_verbose_update (\<lambda>_. True)) s
      in if length argv \<noteq> 2 then
           Some (Returns (1,
             on_co (showErrorO ''Usage: appinspect <filename>'' [])
               (on_co (showErrorW ''Invalid arguments provided.'' []) s)))
         else
           case open_file (argv ! 1) of
             None \<Rightarrow>
               let s = on_co (showErrorW ''Unable to open specified file as BlockStream.'' []) s;
                   s = on_co (showErrorW ''Unable to open specified file as a block stream.  Make'' []) s
               in Some (Returns (1, on_co (showErrorO ''sure the file is not currently in use.'' []) s))
           | Some d \<Rightarrow>
               do { fs \<leftarrow> FreeList_new (disk_seek 0 d) clk;
                    (node, fs) \<leftarrow> getINodeByPosition (of_nat OFFSET_FSINFO) fs;
                    command_loop (show_package node (s\<lparr>in_fs := fs\<rparr>)) })"

end
