(* ===== verification/Inspect_Props.thy ===== *)
theory Inspect_Props
  imports Inspect LowFS_DirProps
begin

text \<open>
  What the parts of \<^verbatim>\<open>appinspect\<close> compute: the line that is typed, the words of a command, the blocks a
  directory reaches, the two loops that have no way out, and what \<^verbatim>\<open>show\<close> and \<^verbatim>\<open>children\<close> print.
\<close>

section \<open>Typing a line\<close>

definition edit_key :: "byte list \<Rightarrow> byte \<Rightarrow> byte list" where
  "edit_key line c = (if c = bsp then butlast line else line @ [c])"

text \<open>A key that stands for itself, and the backspace.\<close>

definition plain_key :: "int \<Rightarrow> bool" where
  "plain_key k \<longleftrightarrow> k = 8 \<or> 32 \<le> k \<and> k \<le> 127"

lemma plain_key_byte:
  assumes "plain_key k" and "c = (word_of_int k :: byte)"
  shows "c \<noteq> 0" "c \<noteq> - 32" "c \<noteq> cr" "c \<noteq> newline" "c \<noteq> bsp \<Longrightarrow> 32 \<le> sint c"
proof -
  have k: "0 \<le> k" "k \<le> 127" using assms(1) by (auto simp: plain_key_def)
  then have u: "uint c = k" using assms(2) by (simp add: uint_word_of_int)
  have s: "sint c = k" using k by (simp add: sint_uint u signed_take_bit_int_eq_self)
  have "c = w \<longleftrightarrow> k = uint w" for w by (metis u word_uint_eqI)
  note eq = this
  show "c \<noteq> 0" "c \<noteq> - 32" "c \<noteq> cr" "c \<noteq> newline" "c \<noteq> bsp \<Longrightarrow> 32 \<le> sint c"
    using assms(1) k s by (auto simp: eq plain_key_def)
qed

lemma read_loop_step:
  assumes "in_keys s (in_nkeys s) = k" and "plain_key k"
  shows "\<exists>co. read_loop line s = read_loop (edit_key line (word_of_int k)) (s\<lparr>in_nkeys := in_nkeys s + 1, in_co := co\<rparr>)"
proof -
  let ?c = "word_of_int k :: byte" and ?s = "s\<lparr>in_nkeys := in_nkeys s + 1\<rparr>"
  note c = plain_key_byte[OF assms(2) refl]
  have g: "getch s = (?c, ?s)" using assms(1) by (simp add: getch_def)
  consider "?c \<noteq> bsp" | "?c = bsp" "line = []" | "?c = bsp" "line \<noteq> []" by metis
  then show ?thesis
  proof cases
    case 1
    then have "read_loop line s = read_loop (line @ [?c]) (echo [?c] ?s)"
      using c by (subst read_loop.simps) (simp add: g)
    then show ?thesis using 1 by (auto simp: edit_key_def echo_def)
  next
    case 2
    then have "read_loop line s = read_loop [] ?s"
      using c by (subst read_loop.simps) (simp add: g)
    then show ?thesis using 2 by (auto simp: edit_key_def intro!: exI[of _ "in_co s"])
  next
    case 3
    then have "read_loop line s = read_loop (butlast line) (echo [bsp, blank, bsp] ?s)"
      using c by (subst read_loop.simps) (simp add: g butlast_conv_take)
    then show ?thesis using 3 by (auto simp: edit_key_def echo_def)
  qed
qed

lemma read_loop_edits:
  assumes "map (in_keys s) [in_nkeys s..<in_nkeys s + length ks] = ks" and "list_all plain_key ks"
    and "in_keys s (in_nkeys s + length ks) \<in> {10, 13}"
  shows "\<exists>co. read_loop line s =
    Some (foldl edit_key line (map word_of_int ks), s\<lparr>in_nkeys := in_nkeys s + length ks + 1, in_co := co\<rparr>)"
  using assms
proof (induction ks arbitrary: line s)
  case Nil
  then show ?case
    by (subst read_loop.simps) (auto simp: getch_def echo_def Let_def intro!: exI)
next
  case (Cons k ks)
  have keys: "in_keys s (in_nkeys s) = k"
    "map (in_keys s) [Suc (in_nkeys s)..<Suc (in_nkeys s) + length ks] = ks"
    using Cons.prems(1) by (simp_all add: upt_conv_Cons del: upt_Suc)
  obtain co where step: "read_loop line s =
      read_loop (edit_key line (word_of_int k)) (s\<lparr>in_nkeys := in_nkeys s + 1, in_co := co\<rparr>)"
    using read_loop_step[OF keys(1)] Cons.prems(2) by auto
  show ?case
    unfolding step
    using Cons.IH[of "s\<lparr>in_nkeys := in_nkeys s + 1, in_co := co\<rparr>" "edit_key line (word_of_int k)"]
      Cons.prems(2,3) keys(2)
    by (simp add: ac_simps)
qed

text \<open>At the end of the input every key is -1, which is a control character to the loop.\<close>

lemma read_loop_end_of_input:
  "read_loop line s = Some r \<Longrightarrow> \<exists>i \<ge> in_nkeys s. in_keys s i \<noteq> - 1"
proof (erule read_loop.raw_induct[rotated], goal_cases)
  case (1 f line s r)
  show ?case
  proof (cases "in_keys s (in_nkeys s) = - 1")
    case True
    then have "f line (printf ''(%i)'' [Int_arg (- 1)] (s\<lparr>in_nkeys := in_nkeys s + 1\<rparr>)) = Some r"
      using 1(2) by (simp add: getch_def)
    from 1(1)[OF this] show ?thesis by (auto simp: printf_def dest: Suc_leD)
  qed auto
qed

section \<open>The words of a command\<close>

lemma parse_sane:
  "parse_loop (concat (map sane_char cs) @ dquote # rest) ret buf True False =
     parse_loop rest ret (buf @ cs) False False"
  by (induction cs arbitrary: buf) (auto simp: sane_char_def)

lemma parse_plain:
  "set w \<inter> {backslash, dquote, space} = {} \<Longrightarrow>
   parse_loop (w @ rest) ret buf False False = parse_loop rest ret (buf @ w) False False"
  by (induction w arbitrary: buf) auto

lemma sanitizeArguments_Cons:
  "sanitizeArguments (a # argv) [] =
     space # dquote # (concat (map sane_char a) @ dquote # sanitizeArguments argv [])"
  using sanitizeArguments_append[of argv "[space, dquote] @ sane_argv a [] @ [dquote]" "[]"]
  by (simp add: sane_argv_eq)

definition close_word :: "byte list list \<times> byte list \<times> bool \<Rightarrow> byte list list \<times> bool" where
  "close_word = (\<lambda>(ret, buf, quoteOn). (if buf \<noteq> [] then ret @ [buf] else ret, quoteOn))"

lemma parse_sanitized:
  "close_word (parse_loop (sanitizeArguments argv []) ret buf False False) =
     ((if buf \<noteq> [] then ret @ [buf] else ret) @ filter (\<lambda>a. a \<noteq> []) argv, False)"
proof (induction argv arbitrary: ret buf)
  case Nil
  then show ?case by (simp add: close_word_def)
next
  case (Cons a argv)
  show ?case
    unfolding sanitizeArguments_Cons
    by (cases "buf = []"; cases "a = []") (simp_all add: parse_sane Cons)
qed

lemma ParseCommand_close:
  "ParseCommand cmd =
     (let (ret, quoteOn) = close_word (parse_loop cmd [] [] False False)
      in if quoteOn then [chars ''__continue''] else ret)"
  by (simp add: ParseCommand_def close_word_def case_prod_unfold Let_def)

section \<open>The blocks a directory reaches\<close>

lemma merge_into_Nil: "ys \<noteq> [] \<Longrightarrow> merge_into xs ys [] = Undefined"
  by (cases xs; cases ys) (simp_all add: merge_into_def)

text \<open>
  Every directory contributes its own position as a header, so a child that is a directory makes
  \<^verbatim>\<open>std::merge\<close> write through the end of an empty vector.
\<close>

lemma data_loop_directory:
  assumes "data_loop children positions headers result1 [] s = Some (Returns r, t)" and "headers \<noteq> []"
  shows "snd r \<noteq> [] \<and> (\<forall>c \<in> set children. i_type c \<noteq> INT_DIRECTORY)"
proof -
  have "case y of (Returns r, t) \<Rightarrow>
          headers \<noteq> [] \<longrightarrow> result2 = [] \<longrightarrow>
          snd r \<noteq> [] \<and> (\<forall>c \<in> set children. i_type c \<noteq> INT_DIRECTORY) | _ \<Rightarrow> True"
    if "data_loop children positions headers result1 result2 s = Some y" for result2 and y :: "(u32 list \<times> u32 list) run \<times> fsys"
    using that
  proof (rule data_loop.raw_induct[rotated], goal_cases)
    case (1 f children positions headers result1 result2 s y)
    note IH = 1(1) and eq = 1(2)
    show ?case
    proof (cases children)
      case Nil
      then show ?thesis using eq by auto
    next
      case (Cons c rest)
      consider "i_type c = INT_DIRECTORY" | "i_type c = INT_FILEINFO"
        | "i_type c \<noteq> INT_DIRECTORY" "i_type c \<noteq> INT_FILEINFO" by blast
      then show ?thesis
      proof cases
        case 1
        obtain spos u where "getINodePositionByID (i_inodeid c) s = (spos, u)" by fastforce
        then obtain node v below w q x where
          inner: "f below [] [spos] [] [] w = Some (q, x)" and
          y: "(case q of Undefined \<Rightarrow> Some (Undefined, x)
               | Returns accessible \<Rightarrow>
                   (case merge_into positions (fst accessible) result1 of
                      Undefined \<Rightarrow> Some (Undefined, x)
                    | Returns result1 \<Rightarrow>
                        (case merge_into headers (snd accessible) result2 of
                           Undefined \<Rightarrow> Some (Undefined, x)
                         | Returns result2 \<Rightarrow> f rest result1 result2 result1 result2 x))) = Some y"
          using eq Cons 1 by (auto simp: Let_def bind_eq_Some_conv split: prod.splits)
        show ?thesis
        proof (cases q)
          case (Returns accessible)
          then have "snd accessible \<noteq> []" using IH[OF inner] by simp
          then have "result2 = [] \<Longrightarrow> y = (Undefined, x)"
            using y Returns by (auto simp: merge_into_Nil split: run.splits)
          then show ?thesis by (cases y) (auto split: run.splits)
        next
          case Undefined
          then show ?thesis using y by auto
        qed
      next
        case 2
        then obtain a b c' d where "f rest a (b # headers) result1 result2 d = Some y"
          using eq Cons by (auto simp: Let_def split: prod.splits)
        from IH[OF this] show ?thesis using 2 Cons by (auto split: prod.splits run.splits)
      next
        case 3
        then have "f rest positions headers result1 result2 s = Some y"
          using eq Cons by auto
        from IH[OF this] show ?thesis using 3 Cons by (auto split: prod.splits run.splits)
      qed
    qed
  qed
  from this[OF assms(1)] show ?thesis using assms(2) by simp
qed

lemma GetDataBlocks_flat:
  assumes "GetDataBlocks pos s = Some (Returns r, t)"
  shows "\<exists>node u children v. getINodeByPosition pos s = Some (node, u) \<and>
    getChildrenOfDirectory (i_inodeid node) u = Some (children, v) \<and>
    (\<forall>c \<in> set children. i_type c \<noteq> INT_DIRECTORY)"
proof -
  obtain node u children v where parts: "getINodeByPosition pos s = Some (node, u)"
      "getChildrenOfDirectory (i_inodeid node) u = Some (children, v)"
      "data_loop children [] [pos] [] [] v = Some (Returns r, t)"
    using assms by (auto simp: GetDataBlocks_def bind_eq_Some_conv)
  with data_loop_directory[OF parts(3)] show ?thesis by auto
qed

section \<open>Loops without a way out\<close>

lemma try_node_returned: "try_node pos s = Some (r, t) \<Longrightarrow> \<exists>node. r = Returned node"
  by (auto simp: try_node_def bind_eq_Some_conv)

lemma clean_loop_never: "clean_loop db hb pos n s = None"
proof (rule ccontr)
  assume "clean_loop db hb pos n s \<noteq> None"
  then obtain y where "clean_loop db hb pos n s = Some y" by blast
  then have False
  proof (rule clean_loop.raw_induct[rotated], goal_cases)
    case (1 f db hb pos n s y)
    then obtain r u where "try_node pos s = Some (r, u)" by (auto simp: bind_eq_Some_conv)
    with 1 show ?case
      by (auto simp: bind_eq_Some_conv dest!: try_node_returned)
  qed
  then show False .
qed

lemma segments_loop_never: "segments_loop db hb pos i s = None"
proof (rule ccontr)
  assume "segments_loop db hb pos i s \<noteq> None"
  then obtain y where "segments_loop db hb pos i s = Some y" by blast
  then have False
  proof (rule segments_loop.raw_induct[rotated], goal_cases)
    case (1 f db hb pos i s y)
    then obtain r u where "try_node pos s = Some (r, u)" by (auto simp: bind_eq_Some_conv)
    with 1 show ?case
      by (auto simp: Let_def dest!: try_node_returned)
  qed
  then show False .
qed

section \<open>The dump of a block\<close>

text \<open>The bytes printed in hexadecimal.\<close>

fun hex_byte :: "outcall \<Rightarrow> int list" where
  "hex_byte (Printf fmt [Int_arg n]) = (if fmt = chars ''%02X '' then [n] else [])"
| "hex_byte _ = []"

definition dumped :: "inspect \<Rightarrow> int list" where
  "dumped s = concat (map hex_byte (co_out (in_co s)))"

lemma dumped_printf: "dumped (printf fmt args s) = dumped s @ hex_byte (Printf (chars fmt) args)"
  by (simp add: dumped_def printf_def vprintf_def)

lemma dumped_frame [simp]:
  "dumped (s\<lparr>in_fs := fs\<rparr>) = dumped s" "dumped (s\<lparr>in_nkeys := n\<rparr>) = dumped s"
  by (simp_all add: dumped_def)

lemma printf_frame [simp]:
  "in_fs (printf fmt args s) = in_fs s" "in_stack (printf fmt args s) = in_stack s"
  by (simp_all add: printf_def)

lemma show_byte_dumps:
  assumes "unat (pos + of_nat i) < dsize (fs_disk (in_fs s))"
  shows "\<exists>acc' s'. show_byte pos i acc s = (acc', s') \<and>
    dumped s' = dumped s @ [uint (byte_at (fs_disk (in_fs s)) (unat (pos + of_nat i)))] \<and>
    (\<exists>q. in_fs s' = fd_seek q (in_fs s))"
proof -
  have "fd_doR [in_stack s i] (fd_seek (unat (pos + of_nat i)) (in_fs s)) =
      ([byte_at (fs_disk (in_fs s)) (unat (pos + of_nat i))], fd_seek (unat (pos + of_nat i) + 1) (in_fs s))"
    using assms fd_doR_seek[of "unat (pos + of_nat i)" "[in_stack s i]" "in_fs s"] by (simp add: slice_def)
  then show ?thesis
    by (cases acc) (auto simp: show_byte_def Let_def dumped_printf getch_def split: prod.splits)
qed

lemma show_loop_dumps:
  assumes "\<And>i. i \<in> set is \<Longrightarrow> unat (pos + of_nat i) < dsize (fs_disk (in_fs s))"
  shows "dumped (show_loop pos is acc s) =
           dumped s @ map (\<lambda>i. uint (byte_at (fs_disk (in_fs s)) (unat (pos + of_nat i)))) is \<and>
         (\<exists>q. in_fs (show_loop pos is acc s) = fd_seek q (in_fs s))"
  using assms
proof (induction "is" arbitrary: acc s)
  case Nil
  then show ?case by (simp add: exI[of _ "fd_tell (in_fs s)"] fd_simps)
next
  case (Cons i js)
  obtain acc' s' q where step: "show_byte pos i acc s = (acc', s')"
      "dumped s' = dumped s @ [uint (byte_at (fs_disk (in_fs s)) (unat (pos + of_nat i)))]"
      "in_fs s' = fd_seek q (in_fs s)"
    using show_byte_dumps[of pos i s acc] Cons.prems by auto
  have same: "byte_at (fs_disk (in_fs s')) = byte_at (fs_disk (in_fs s))"
    "dsize (fs_disk (in_fs s')) = dsize (fs_disk (in_fs s))"
    by (simp_all add: step fd_simps disk_simps)
  show ?case
    using Cons.IH[of s' acc'] Cons.prems same step by (auto simp: fd_simps)
qed

section \<open>The children of a directory\<close>

definition child_line :: "inode \<Rightarrow> outcall" where
  "child_line c = Printf (chars '' * %i (%s)\<newline>'')
     [Int_arg (uint (i_inodeid c)), Str_arg (TypeNames (unat (type_code (i_type c))))]"

lemma fold_child_lines:
  "foldl (\<lambda>s c. printf '' * %i (%s)\<newline>''
      [Int_arg (uint (i_inodeid c)), Str_arg (TypeNames (unat (type_code (i_type c))))] s) s cs =
   s\<lparr>in_co := (in_co s)\<lparr>co_out := co_out (in_co s) @ map child_line cs\<rparr>\<rparr>"
  by (induction cs arbitrary: s) (simp_all add: printf_def vprintf_def child_line_def del: chars_simps)

lemma tabled_type_name: "tabled_type ty \<Longrightarrow> unat (type_code ty) \<le> 255"
  by (auto simp: tabled_type_def)

lemma CheckArguments_ok: "CheckArguments name [c] 0 s = (True, s)" "CheckArguments name [c, a] 1 s = (True, s)"
  by (simp_all add: CheckArguments_def CheckArguments_range_def)

lemma GetChildren_lines:
  assumes "getChildrenOfDirectory (word_of_int (parse_int a)) (in_fs s) = Some (cs, in_fs s)"
    and "\<And>c. c \<in> set cs \<Longrightarrow> tabled_type (i_type c)"
  shows "\<exists>co. GetChildren [w, a] s = Some (Returns (s\<lparr>in_co := co\<rparr>)) \<and>
    co_out co = co_out (in_co s) @
      Printf (chars ''Children of directory with INode %i:\<newline>'') [Int_arg (parse_int a)] # map child_line cs"
proof -
  have "list_all (\<lambda>c. unat (type_code (i_type c)) \<le> 255) cs"
    using assms(2) tabled_type_name by (auto simp: list_all_iff)
  then show ?thesis
    using assms(1)
    by (intro exI[of _ "(in_co s)\<lparr>co_out := co_out (in_co s) @
          Printf (chars ''Children of directory with INode %i:\<newline>'') [Int_arg (parse_int a)] # map child_line cs\<rparr>"])
       (simp add: GetChildren_def CheckArguments_ok fold_child_lines, simp add: printf_def vprintf_def)
qed

end
