(* ===== verification/World.thy ===== *)
theory World
  imports Logging PathUtil
begin

text \<open>
  The operating system as the tools see it. What a call answers is outside the program: it is a function of the
  calls made before and of the call, and the state keeps the calls made, in their order, beside the terminal.
  The two functions of \<^verbatim>\<open>libapp/lowlevel/util.cpp\<close> that only make such calls are here too.
\<close>

section \<open>Calls and answers\<close>

datatype syscall =
    Mkdtemp "byte list" | Chmod "byte list" nat | Execv "byte list" "byte list list"
  | Unlink "byte list" | Rmdir "byte list" | Stat "byte list" | Readlink "byte list"
  | Getcwd | Chdir "byte list" | System "byte list" | Sleep nat | Kill_self string
  | Fopen "byte list" string | Fread nat | Ferror "byte list" | Malloc nat | Fwrite "byte list" | Fclose "byte list"
  | Pthread_create "byte list" "byte list" "byte list list"
  | Open_package "byte list" | Fuse_add_arg "byte list" | Fuse_free_args
  | Fuse_main "byte list list"
  | Py_initialize | Py_run_string "byte list" | Py_run_file "byte list" | Py_finalize

text \<open>
  \<open>w_answer\<close> gives the number a call returns (for \<^verbatim>\<open>mkdtemp\<close>, \<^verbatim>\<open>fopen\<close> and \<^verbatim>\<open>getcwd\<close>, 0 unless it is \<^verbatim>\<open>NULL\<close>)
  and the bytes it delivers, \<open>w_errno\<close> the number of the error; \<open>w_exists\<close> and \<open>w_path\<close> are what \<^verbatim>\<open>Util::fileExists\<close> and \<^verbatim>\<open>getenv("PATH")\<close> say.
\<close>

record world =
  w_answer :: "syscall list \<Rightarrow> syscall \<Rightarrow> int \<times> byte list"
  w_errno :: "syscall list \<Rightarrow> int"
  w_exists :: "byte list \<Rightarrow> bool"
  w_path :: "byte list option"
  w_calls :: "syscall list"
  w_co :: console

definition sys :: "syscall \<Rightarrow> world \<Rightarrow> (int \<times> byte list) \<times> world" where
  "sys c w = (w_answer w (w_calls w) c, w\<lparr>w_calls := w_calls w @ [c]\<rparr>)"

definition do_sys :: "syscall \<Rightarrow> world \<Rightarrow> world" where
  "do_sys c w = snd (sys c w)"

definition tell :: "(console \<Rightarrow> console) \<Rightarrow> world \<Rightarrow> world" where
  "tell f w = w\<lparr>w_co := f (w_co w)\<rparr>"

lemma sys_simps [simp]:
  "snd (sys c w) = w\<lparr>w_calls := w_calls w @ [c]\<rparr>" "do_sys c w = w\<lparr>w_calls := w_calls w @ [c]\<rparr>"
  by (simp_all add: sys_def do_sys_def)

lemma tell_frame [simp]:
  "w_calls (tell f w) = w_calls w" "w_answer (tell f w) = w_answer w"
  "w_exists (tell f w) = w_exists w" "w_path (tell f w) = w_path w"
  by (simp_all add: tell_def)

section \<open>Two functions of Util\<close>

text \<open>
  \<^verbatim>\<open>extractBootstrap\<close>. The buffer of 1 MiB is what \<^verbatim>\<open>malloc\<close> delivers, its start overwritten by what was read;
  all of it is written. The early returns leave the files open.
\<close>

abbreviation mebibyte :: nat where "mebibyte \<equiv> 1024 * 1024"

definition extractBootstrap :: "byte list \<Rightarrow> byte list \<Rightarrow> world \<Rightarrow> bool \<times> world" where
  "extractBootstrap source dest w =
     (let ((r, _), w) = sys (Fopen source ''r'') w
      in if r \<noteq> 0 then (False, w)
         else
           let ((r, _), w) = sys (Fopen dest ''w'') w
           in if r \<noteq> 0 then (False, w)
              else
                let ((_, buffer), w) = sys (Malloc mebibyte) w;
                    ((_, got), w) = sys (Fread mebibyte) w;
                    buffer = got @ drop (length got) buffer;
                    ((r, _), w) = sys (Ferror source) w
                in if r \<noteq> 0 then (False, w)
                   else
                     let w = do_sys (Fwrite buffer) w;
                         ((r, _), w) = sys (Ferror dest) w
                     in if r \<noteq> 0 then (False, w)
                        else
                          let ((r, _), w) = sys (Fclose source) w
                          in if r \<noteq> 0 then (False, w)
                             else
                               let ((r, _), w) = sys (Fclose dest) w
                               in (r = 0, w))"

text \<open>\<^verbatim>\<open>getProcessFilename\<close>: the buffer is zeroed, so the path ends where \<^verbatim>\<open>readlink\<close> stopped.\<close>

definition getProcessFilename :: "world \<Rightarrow> byte list option \<times> world" where
  "getProcessFilename w =
     (let ((ret, buf), w) = sys (Readlink (chars ''/proc/self/exe'')) w
      in if ret = - 1 then (None, w) else (Some (cstr buf), w))"

end
