(* ===== verification/Mount.thy ===== *)
theory Mount
  imports World FuseLink Package
begin

text \<open>
  Mounting: the constructor of \<^verbatim>\<open>FUSE::Mounter\<close>, \<^verbatim>\<open>FuseLink::init\<close> and \<^verbatim>\<open>API::load\<close>/\<^verbatim>\<open>unload\<close>
  (\<^verbatim>\<open>libapp/internal/fuselink.cpp\<close>), and the tools \<^verbatim>\<open>appfs/appmount.cpp\<close> and \<^verbatim>\<open>appfs/appcreate.cpp\<close>. libfuse and
  argtable2 are not part of the program: \<open>Fuse_main\<close> is the call that serves the requests (\<open>FuseLink.serve\<close>)
  until the package is unmounted, and the parsed arguments are a record.
\<close>

section \<open>Mounting with libfuse\<close>

text \<open>How a function ends: with a value, or with an exception it does not catch.\<close>

datatype 'a outcome = Value 'a | Throws exn

text \<open>The texts of the exceptions, which an uncaught one ends the program with, by the file that holds them.\<close>

fun what_package :: "exn \<Rightarrow> string" where
  "what_package FileNotFound = ''The specified file was not found.''"
| "what_package PackageNotFound = ''The specified package was not found.''"
| "what_package PackageNotValid = ''The specified package was not valid.''"
| "what_package NoFreeSpace = ''There was no free space on the containing medium with which to expand the package.''"
| "what_package AccessDenied = ''Access was denied to the specified file or directory.''"
| "what_package PathNotValid = ''The specified path was not in the correct format.''"
| "what_package FileExists = ''The specified file already exists.''"
| "what_package NotADirectory = ''The specified path is not a directory.''"
| "what_package IsADirectory = ''The specified path is a directory, but directories are not permitted for this operation.''"
| "what_package DirectoryNotEmpty = ''The directory is not empty.''"
| "what_package FileTooBig = ''The specified file can not be increased to the required size.''"
| "what_package _ = []"

fun what_fs :: "exn \<Rightarrow> string" where
  "what_fs INodeSaveInvalid = ''Attempted to save UNSET or INVALID inode.  This usually indicates the filesystem is corrupt.''"
| "what_fs INodeSaveFailed = ''Unable to save inode data to disk.''"
| "what_fs INodeExhaustion = ''Unable to save new data as there are no more available IDs (inodes) for addressing content in the package.''"
| "what_fs InternalInconsistency = ''An internal inconsistency occurred while reading or writing to the package.  Close or unmount the package and check it with the appropriate tool to ensure the package is not corrupt.''"
| "what_fs DirectoryChildLimitReached = ''No more files or subdirectories can be stored in the specified directory due to filesystem limitations.''"
| "what_fs FilenameTooLong = ''One or more of the path components are too long.''"
| "what_fs _ = []"

fun what_util :: "exn \<Rightarrow> string" where
  "what_util NotSupported = ''The specified operation is not supported.''"
| "what_util _ = []"

definition what :: "exn \<Rightarrow> string" where
  "what e = what_package e @ what_fs e @ what_util e"

lemma what_nonempty: "what e \<noteq> []"
  by (cases e) (simp_all add: what_def)

text \<open>\<^verbatim>\<open>new FS(image)\<close> throws when the file cannot be opened.\<close>

definition open_image :: "byte list \<Rightarrow> world \<Rightarrow> unit outcome \<times> world" where
  "open_image img w =
     (let ((r, _), w) = sys (Open_package img) w
      in (if r \<noteq> 0 then Throws PackageNotFound else Value (), w))"

text \<open>
  One \<^verbatim>\<open>fuse_opt_add_arg\<close> and the argument vector; \<open>add_args\<close> is a disjunction of such calls, which stops at
  the first that fails. The test of \<^verbatim>\<open>"-o"\<close> is for a result other than 0, the others are for -1.
\<close>

fun add_args :: "(byte list \<times> (int \<Rightarrow> bool)) list \<Rightarrow> byte list list \<Rightarrow> world \<Rightarrow> (bool \<times> byte list list) \<times> world" where
  "add_args [] args w = ((False, args), w)"
| "add_args ((a, failed) # rest) args w =
     (let ((r, _), w) = sys (Fuse_add_arg a) w
      in if failed r then ((True, args), w) else add_args rest (args @ [a]) w)"

definition minus_one :: "int \<Rightarrow> bool" where "minus_one r \<longleftrightarrow> r = - 1"

definition options_failed :: "world \<Rightarrow> int outcome \<times> world" where
  "options_failed w =
     (let w = tell (showErrorW ''Unable to set FUSE options.'' []) w;
          w = do_sys Fuse_free_args w
      in (Value (- 5), w))"

definition normal_opts :: "byte list" where
  "normal_opts = chars ''default_permissions,use_ino,attr_timeout=0,entry_timeout=0''"

definition allow_opts :: "byte list" where
  "allow_opts = chars ''allow_other,default_permissions,use_ino,attr_timeout=0,entry_timeout=0''"

text \<open>The constructor and \<^verbatim>\<open>getResult\<close>, without the debug build's \<^verbatim>\<open>-d\<close>.\<close>

definition Mounter :: "byte list \<Rightarrow> byte list \<Rightarrow> bool \<Rightarrow> bool \<Rightarrow> world \<Rightarrow> int outcome \<times> world" where
  "Mounter img mount foreground allow_other w =
     (let (opened, w) = open_image img w
      in case opened of
           Throws e \<Rightarrow> (Throws e, w)
         | Value _ \<Rightarrow>
             let ((failed, args), w) = add_args [(chars ''appfs'', minus_one)] [] w
             in if failed then options_failed w
                else
                  let ((failed, args), w) = add_args (if foreground then [(chars ''-f'', minus_one)] else []) args w
                  in if failed then options_failed w
                     else
                       let w = (if allow_other then tell (showInfoW ''Allowing other users access to filesystem.'' []) w else w);
                           opts = (if allow_other then allow_opts else normal_opts);
                           ((failed, args), w) =
                             add_args [(chars ''-s'', minus_one), (chars ''-o'', \<lambda>r. r \<noteq> 0), (opts, minus_one),
                                       (mount, minus_one)] args w
                       in if failed then options_failed w
                          else let ((r, _), w) = sys (Fuse_main args) w in (Value r, w))"

text \<open>\<^verbatim>\<open>FuseLink::init\<close> calls the continuation it was given, if any.\<close>

definition fuse_init :: "(world \<Rightarrow> world) option \<Rightarrow> world \<Rightarrow> world" where
  "fuse_init continuefunc w = (case continuefunc of None \<Rightarrow> w | Some f \<Rightarrow> f w)"

section \<open>The package of the API\<close>

text \<open>
  \<^verbatim>\<open>API::load\<close> and \<^verbatim>\<open>API::unload\<close> keep the open package in \<^verbatim>\<open>FuseLink::filesystem\<close>, which is \<open>None\<close> for \<^verbatim>\<open>NULL\<close>;
  an exception of the constructor leaves what \<^verbatim>\<open>unload\<close> set.
\<close>

definition api_unload :: "mounted option \<Rightarrow> mounted option" where
  "api_unload filesystem = (if filesystem \<noteq> None then None else filesystem)"

definition api_load ::
    "disk option \<Rightarrow> (nat \<Rightarrow> u64) \<Rightarrow> mounted option \<Rightarrow> (unit outcome \<times> mounted option) option" where
  "api_load img clk filesystem =
     (let filesystem = (if filesystem \<noteq> None then api_unload filesystem else filesystem)
      in do { r \<leftarrow> AppFS_new img clk 0 0;
              Some (case r of Inl e \<Rightarrow> (Throws e, filesystem) | Inr m \<Rightarrow> (Value (), Some m)) })"

section \<open>appmount\<close>

text \<open>What \<^verbatim>\<open>arg_nullcheck\<close>, \<^verbatim>\<open>arg_parse\<close> and the table hold; \<open>pa_usage\<close> and \<open>pa_errors\<close> are what argtable2 prints.\<close>

record parsed =
  pa_nullcheck :: bool
  pa_nerrors :: int
  pa_help :: nat
  pa_debug :: nat
  pa_allow_other :: nat
  pa_diskimage :: "byte list"
  pa_mountpoint :: "byte list"
  pa_syntax :: "byte list"
  pa_errors :: "byte list"
  pa_glossary :: "byte list"

definition say :: "byte list \<Rightarrow> world \<Rightarrow> world" where
  "say bs w = tell (cout bs) w"

definition print :: "string \<Rightarrow> world \<Rightarrow> world" where
  "print s w = tell (vprintf (chars s) []) w"

definition mount_failed :: "world \<Rightarrow> world" where
  "mount_failed w =
     (let w = tell (showErrorW ''FUSE was unable to mount the application package.'' []) w;
          w = tell (showErrorO ''Check that the package is a valid AppFS filesystem and'' []) w
      in tell (showErrorO ''run 'apputil check' to scan for filesystem errors.'' []) w)"

definition appmount_start :: "parsed \<Rightarrow> world \<Rightarrow> int outcome \<times> world" where
  "appmount_start p w =
     (let w = tell (setApplicationName (chars ''appmount'')) w
      in if pa_nullcheck p then (Value 1, tell (showErrorW ''Insufficient memory.'' []) w)
         else if pa_nerrors p > 0 \<and> pa_help p = 0 then
           (Value 1, say (pa_errors p) (say (pa_syntax p) (print ''Usage: appmount'' w)))
         else if pa_help p = 1 then
           (Value 0, say (pa_glossary p)
             (print ''AppFS - An application storage filesystem.\<newline>\<newline>'' (say (pa_syntax p) (print ''Usage: appmount'' w))))
         else
           let w = tell (co_debug_update (\<lambda>_. pa_debug p \<noteq> 0)) w;
               w = tell (showInfoW ''The application package will now be mounted at:'' []) w;
               w = tell (showInfoO ''  * %s'' [Str_arg (pa_mountpoint p)]) w;
               w = tell (showInfoO ''You can use fusermount (or umount if root) to unmount the'' []) w;
               w = tell (showInfoO ''application package.  Please note that the package is locked'' []) w;
               w = tell (showInfoO ''while mounted and that no other operations can be performed'' []) w;
               w = tell (showInfoO ''on it while this is the case.'' []) w;
               (res, w) = Mounter (pa_diskimage p) (pa_mountpoint p) True (pa_allow_other p \<noteq> 0) w
           in case res of
                Throws e \<Rightarrow> (Throws e, w)
              | Value r \<Rightarrow> (Value r, if r \<noteq> 0 then mount_failed w else w))"

section \<open>appcreate\<close>

abbreviation quote :: byte where "quote \<equiv> 0x27"

text \<open>\<open>writable\<close> says whether the path can be opened for writing; \<open>rtime\<close> is the time of creation.\<close>

definition appcreate_main ::
    "(byte list \<Rightarrow> bool) \<Rightarrow> u64 \<Rightarrow> byte list list \<Rightarrow> console \<Rightarrow> (int \<times> (byte list \<times> disk) option) \<times> console" where
  "appcreate_main writable rtime argv co =
     (let co = setApplicationName (chars ''appcreate'') co
      in if length argv \<noteq> 2 then
           let co = showErrorW ''Invalid arguments provided.'' [] co
           in ((1, None), showErrorO ''Usage: appcreate <filename>'' [] co)
         else
           let path = argv ! 1;
               co = cout (chars ''Attempting to create '' @ [quote] @ path @ [quote] @ chars '' ... \<newline>'') co
           in if \<not> writable path then
                let co = showErrorW ''Unable to open new package path for writing.'' [] co
                in ((1, None), cout (chars ''Unable to create blank AppFS package '' @ [quote] @ path @ [quote] @ chars ''.\<newline>'') co)
              else
                let d = createPackage rtime (chars ''Test Application'') (chars ''1.0.0'') (chars ''A test package.'') (chars ''AppTools'')
                in ((0, Some (path, d)), cout (chars ''Package successfully created.\<newline>'') co))"

end
