(* ===== verification/Stage.thy ===== *)
theory Stage
  imports Mount
begin

text \<open>
  \<^verbatim>\<open>appfs/appfs.cpp\<close>: the program a package starts with. Run from the package it is larger than 1 MiB and copies
  itself to a temporary directory (stage 1); the copy removes itself and its directory, mounts the package and
  starts the application in a sandbox from a second thread, which ends the mount with a signal (stage 2).
\<close>

section \<open>Stage 1\<close>

definition appfs_stage1 :: "byte list list \<Rightarrow> world \<Rightarrow> int \<times> world" where
  "appfs_stage1 argv w =
     (let w = tell (setApplicationName (chars ''appfs'')) w;
          ((r, stage2_path), w) = sys (Mkdtemp (chars ''/tmp/appfs_stage2.XXXXXX'')) w
      in if r \<noteq> 0 then
           (1, tell (showErrorW ''Unable to create temporary directory for stage 2 of execution.'' []) w)
         else
           let final_path = stage2_path @ chars ''/appfs_'' @ chars ''0_1_0'';
               (extracted, w) = extractBootstrap (argv ! 0) final_path w
           in if \<not> extracted then
                (1, tell (showErrorW ''Unable to extract bootstrap component to temporary directory.'' []) w)
              else
                let ((r, _), w) = sys (Chmod final_path 0x1C0) w
                in if r \<noteq> 0 then
                     (1, tell (showErrorW ''Unable to mark new bootstrap application as executable.'' []) w)
                   else
                     let ((r, _), w) = sys (Execv final_path argv) w
                     in if r = - 1 then
                          let w = tell (showErrorW ''Unable to initiate stage 2 of bootstrap execution.'' []) w
                          in (1, tell (showErrorO ''The errno value is %i'' [Int_arg (w_errno w (w_calls w))]) w)
                        else (0, w))"

section \<open>Stage 2\<close>

text \<open>
  The thread that runs the application is started by \<^verbatim>\<open>FuseLink::init\<close> while \<^verbatim>\<open>fuse_main\<close> runs; it has its own
  function below. The globals it reads are the arguments of \<open>appfs_continue\<close>.
\<close>

definition appfs_continue :: "byte list \<Rightarrow> byte list \<Rightarrow> byte list list \<Rightarrow> world \<Rightarrow> world" where
  "appfs_continue global_disk_path global_mount_path global_argv w =
     do_sys (Pthread_create global_disk_path global_mount_path global_argv) w"

definition appfs_stage2 :: "byte list list \<Rightarrow> world \<Rightarrow> int outcome \<times> world" where
  "appfs_stage2 argv w =
     (let w = tell (setApplicationName (chars ''appfs'')) w;
          ((r, mount_tmp), w) = sys (Mkdtemp (chars ''/tmp/appfs_mount.XXXXXX'')) w
      in if r \<noteq> 0 then
           (Value 1, tell (showErrorW ''Unable to create temporary directory for mounting.'' []) w)
         else
           let global_mount_path = mount_tmp;
               ((r, cwdbuf), w) = sys Getcwd w
           in if r \<noteq> 0 then
                (Value 1, tell (showErrorW ''Unable to retrieve current working directory.'' []) w)
              else
                let global_disk_path = cwdbuf @ [slash] @ argv ! 0;
                    (res, w) = Mounter global_disk_path global_mount_path True False w
                in case res of
                     Throws e \<Rightarrow> (Throws e, w)
                   | Value code \<Rightarrow>
                       if code \<noteq> 0 then (Value code, mount_failed w)
                       else
                         let ((r, _), w) = sys (Rmdir global_mount_path) w
                         in if r \<noteq> 0 then
                              let w = tell (showWarningW ''Unable to delete temporary mountpoint directory.  You may'' []) w;
                                  w = tell (showWarningO ''have to clean it up yourself by deleting:'' []) w
                              in (Value 0, tell (showWarningO '' * %s'' [Str_arg global_mount_path]) w)
                            else (Value 0, w))"

section \<open>The thread of the application\<close>

text \<open>\<^verbatim>\<open>while (ret != 0 && count_tries < 10)\<close>\<close>

function umount_loop :: "byte list \<Rightarrow> int \<Rightarrow> nat \<Rightarrow> world \<Rightarrow> int \<times> world" where
  "umount_loop fusermount_command res count_tries w =
     (if res \<noteq> 0 \<and> count_tries < 10 then
        let ((res, _), w) = sys (System fusermount_command) w
        in if res \<noteq> 0 then umount_loop fusermount_command res (count_tries + 1) (do_sys (Sleep 1) w)
           else umount_loop fusermount_command res count_tries w
      else (res, w))"
  by pat_completeness auto
termination
  by (relation "measure (\<lambda>(_, res, n, _). if res = 0 then 0 else Suc (10 - n))") auto

declare umount_loop.simps [simp del]

definition search_apps :: "byte list list" where
  "search_apps = map chars [''unionfs-fuse'', ''uchroot'', ''fakechroot'', ''chroot'', ''fusermount'']"

definition sandbox_tools :: "world \<Rightarrow> bool \<times> bool" where
  "sandbox_tools w =
     (let search_result = searchForBinaries (w_exists w) (w_path w) search_apps;
          found_sandboxer = search_result ! 0;
          found_chrooter = search_result ! 1 \<or> search_result ! 2 \<and> search_result ! 3;
          found_unmounter = search_result ! 4;
          alternative_sandbox = (\<not> search_result ! 1 \<and> found_chrooter)
      in (found_sandboxer \<and> found_chrooter \<and> found_unmounter, alternative_sandbox))"

definition sandbox_command :: "byte list \<Rightarrow> byte list \<Rightarrow> byte list" where
  "sandbox_command mount_path sandbox_mount_path =
     chars ''unionfs-fuse -o cow,max_files=32768,allow_other,use_ino,suid,dev,nonempty '' @ mount_path
       @ chars ''=RW:/=RO '' @ sandbox_mount_path"

definition chroot_command :: "bool \<Rightarrow> byte list \<Rightarrow> byte list \<Rightarrow> byte list" where
  "chroot_command alternative_sandbox sandbox_mount_path command =
     (if \<not> alternative_sandbox then chars ''uchroot '' else chars ''fakechroot chroot '')
       @ sandbox_mount_path @ [space] @ command"

definition fusermount_command :: "byte list \<Rightarrow> byte list" where
  "fusermount_command sandbox_mount_path =
     chars ''fusermount -u '' @ sandbox_mount_path @ chars ''>/dev/null 2>/dev/null''"

definition remove_sandbox :: "byte list \<Rightarrow> world \<Rightarrow> world" where
  "remove_sandbox sandbox_mount_path w =
     (let ((r, _), w) = sys (Rmdir sandbox_mount_path) w;
          w = (if r \<noteq> 0 then
                 let w = tell (showErrorW ''Unable to cleanup sandbox (unable to delete temporary directory)'' []) w;
                     w = tell (showErrorO ''You may have to manually remove the mountpoint.  The path to the'' []) w;
                     w = tell (showErrorO ''mountpoint is:'' []) w
                 in tell (showErrorO '' * %s'' [Str_arg sandbox_mount_path]) w
               else w)
      in do_sys (Kill_self ''SIGHUP'') w)"

definition appfs_thread :: "byte list \<Rightarrow> byte list \<Rightarrow> byte list list \<Rightarrow> world \<Rightarrow> world" where
  "appfs_thread disk_path mount_path argv w =
     (let command = mount_path @ chars ''/EntryPoint''
      in if w_exists w command then
           let command = sanitizeArguments (drop 1 argv) command;
               template = chars ''/tmp/appfs_sandbox.XXXXXX'';
               ((r, made), w) = sys (Mkdtemp template) w;
               should_run = (r = 0);
               sandbox_mount_path = (if should_run then made else template);
               w = (if \<not> should_run
                    then tell (showErrorW ''Unable to sandbox application (unable to create temporary directory).'' []) w
                    else w);
               w = tell (showInfoW ''Created sandboxing directory at: %s'' [Str_arg sandbox_mount_path]) w;
               (tools, alternative_sandbox) = sandbox_tools w;
               inside_sandbox = (should_run \<and> tools)
           in if should_run \<and> inside_sandbox then
                let w = tell (showInfoW ''Setting up sandbox (via unionfs-fuse)...'' []) w;
                    w = do_sys (System (sandbox_command mount_path sandbox_mount_path)) w;
                    command = chroot_command alternative_sandbox sandbox_mount_path command;
                    ((_, old_cwd), w) = sys Getcwd w;
                    w = do_sys (Chdir mount_path) w;
                    w = do_sys (System command) w;
                    w = do_sys (Chdir old_cwd) w;
                    (res, w) = umount_loop (fusermount_command sandbox_mount_path) (- 1) 0 w
                in if res \<noteq> 0 then
                     let w = tell (showErrorW ''Unable to cleanup sandbox (mount point still in use after 10 attempts)'' []) w;
                         w = tell (showErrorO ''You may have to manually unmount the sandbox and remove the'' []) w;
                         w = tell (showErrorO ''mountpoint manually.  The mountpoint is:'' []) w;
                         w = tell (showErrorO '' * %s'' [Str_arg sandbox_mount_path]) w
                     in do_sys (Kill_self ''SIGHUP'') w
                   else remove_sandbox sandbox_mount_path w
              else
                let w = tell (showErrorW ''Sandboxing prerequisites not found.  One or more of the following applications:'' []) w;
                    w = tell (showErrorO '' * uchroot (or fakechroot AND chroot)'' []) w;
                    w = tell (showErrorO '' * unionfs-fuse'' []) w;
                    w = tell (showErrorO '' * fusermount'' []) w;
                    w = tell (showErrorO ''were not found in PATH.  Since they are not available on the system'' []) w;
                    w = tell (showErrorO ''you must install the application system-wide to run it.'' []) w
                in remove_sandbox sandbox_mount_path w
         else
           let w = tell (showErrorW ''No /EntryPoint found in this application package.  Use AppMount'' []) w;
               w = tell (showErrorO ''to create one.'' []) w
           in do_sys (Kill_self ''SIGHUP'') w)"

section \<open>Choosing the stage\<close>

text \<open>
  \<^verbatim>\<open>dirname(drpath)\<close> changes its argument: the path is cut before its last separator, and the root stays. A path
  without a separator is left as it is. The path of a running program ends in a name and has no double separators.
\<close>

definition dirname_buf :: "byte list \<Rightarrow> byte list" where
  "dirname_buf p =
     (if slash \<notin> set p then p
      else
        let d = rev (dropWhile (\<lambda>c. c = slash) (dropWhile (\<lambda>c. c \<noteq> slash) (rev p)))
        in if d = [] then [slash] else d)"

text \<open>\<^verbatim>\<open>std::string::substr\<close>; \<open>None\<close> is \<^verbatim>\<open>std::out_of_range\<close>. The position is a \<^verbatim>\<open>size_t\<close>.\<close>

definition substr :: "byte list \<Rightarrow> u64 \<Rightarrow> nat \<Rightarrow> byte list option" where
  "substr s pos n = (if unat pos > length s then None else Some (take n (drop (unat pos) s)))"

definition remove_stage2 :: "byte list \<Rightarrow> world \<Rightarrow> world" where
  "remove_stage2 exepath w =
     (let ((r, _), w) = sys (Unlink exepath) w;
          w = (if r \<noteq> 0 then
                 let w = tell (showWarningW ''Unable to delete temporary bootstrap file.  You may'' []) w;
                     w = tell (showWarningO ''have to clean it up yourself by deleting:'' []) w
                 in tell (showWarningO '' * %s'' [Str_arg exepath]) w
               else w);
          drpath = dirname_buf exepath
      in case substr drpath (of_nat (length drpath) - 20) 14 of
           None \<Rightarrow> w
         | Some part \<Rightarrow>
             if part = chars ''/appfs_stage2.'' then
               let ((r, _), w) = sys (Rmdir drpath) w
               in if r \<noteq> 0 then
                    let w = tell (showWarningW ''Unable to delete temporary bootstrap directory.  You may'' []) w;
                        w = tell (showWarningO ''have to clean it up yourself by deleting:'' []) w
                    in tell (showWarningO '' * %s'' [Str_arg drpath]) w
                  else w
             else w)"

definition appfs_main :: "byte list list \<Rightarrow> world \<Rightarrow> int outcome \<times> world" where
  "appfs_main argv w =
     (let (exepath, w) = getProcessFilename w;
          w = tell (setApplicationName (chars ''appfs'')) w
      in case exepath of
           None \<Rightarrow>
             let w = tell (showErrorW ''Unable to determine process's filename on this system.'' []) w;
                 w = tell (showErrorO ''If you are running Linux, make sure /proc is mounted'' []) w
             in (Value 1, tell (showErrorO ''and that /proc/self/exe exists.'' []) w)
         | Some exepath \<Rightarrow>
             let ((st_size, _), w) = sys (Stat exepath) w
             in if st_size < 0 then
                  (Value 1, tell (showErrorW ''Unable to detect size of bootstrap application.'' []) w)
                else if st_size \<le> 1024 * 1024 then appfs_stage2 argv (remove_stage2 exepath w)
                else let (r, w) = appfs_stage1 argv w in (Value r, w))"

end
