(* ===== verification/Stage_Props.thy ===== *)
theory Stage_Props
  imports Stage
begin

text \<open>
  The system calls the start of a package makes, as traces: the arguments given to libfuse, the attempts to
  unmount, the whole run of the application's thread, and the two stages.
\<close>

section \<open>Mounting\<close>

definition last_answer :: "world \<Rightarrow> int" where
  "last_answer w = fst (w_answer w (butlast (w_calls w)) (last (w_calls w)))"

lemma add_args_trace:
  assumes "add_args opts args w = ((failed, args'), w')"
  shows "w_answer w' = w_answer w \<and>
    (if failed then \<exists>k. 0 < k \<and> k \<le> length opts \<and>
        w_calls w' = w_calls w @ map Fuse_add_arg (take k (map fst opts))
     else args' = args @ map fst opts \<and> w_calls w' = w_calls w @ map Fuse_add_arg (map fst opts))"
  using assms
proof (induction opts arbitrary: args w)
  case Nil
  then show ?case by simp
next
  case (Cons o1 opts)
  obtain a bad where o1: "o1 = (a, bad)" by fastforce
  let ?w = "w\<lparr>w_calls := w_calls w @ [Fuse_add_arg a]\<rparr>" and ?r = "fst (w_answer w (w_calls w) (Fuse_add_arg a))"
  show ?case
  proof (cases "bad ?r")
    case True
    then show ?thesis using Cons.prems o1 by (auto simp: sys_def split: prod.splits intro!: exI[of _ 1])
  next
    case False
    then have "add_args opts (args @ [a]) ?w = ((failed, args'), w')"
      using Cons.prems o1 by (auto simp: sys_def split: prod.splits)
    note IH = Cons.IH[OF this]
    show ?thesis
    proof (cases failed)
      case True
      then obtain k where "0 < k" "k \<le> length opts"
          "w_calls w' = w_calls ?w @ map Fuse_add_arg (take k (map fst opts))" "w_answer w' = w_answer w"
        using IH by auto
      then show ?thesis using True o1 by (auto intro!: exI[of _ "Suc k"])
    next
      case False
      then show ?thesis using IH o1 by simp
    qed
  qed
qed

text \<open>The arguments of \<^verbatim>\<open>fuse_main\<close>, and the three ways the constructor ends.\<close>

definition fuse_args :: "bool \<Rightarrow> byte list \<Rightarrow> byte list list" where
  "fuse_args allow_other m =
     [chars ''appfs'', chars ''-f'', chars ''-s'', chars ''-o'', if allow_other then allow_opts else normal_opts, m]"

definition mount_ended :: "byte list \<Rightarrow> byte list list \<Rightarrow> world \<Rightarrow> int outcome \<Rightarrow> world \<Rightarrow> bool" where
  "mount_ended img args w res w' \<longleftrightarrow>
     res = Throws PackageNotFound \<and> w_calls w' = w_calls w @ [Open_package img] \<or>
     (\<exists>k \<in> {1..length args}. res = Value (- 5) \<and>
        w_calls w' = w_calls w @ Open_package img # map Fuse_add_arg (take k args) @ [Fuse_free_args]) \<or>
     res = Value (fst (w_answer w (w_calls w @ Open_package img # map Fuse_add_arg args) (Fuse_main args))) \<and>
        w_calls w' = w_calls w @ Open_package img # map Fuse_add_arg args @ [Fuse_main args]"

lemma options_failed_eq: "\<exists>v. options_failed w = (Value (- 5), v) \<and> w_calls v = w_calls w @ [Fuse_free_args]"
  by (simp add: options_failed_def Let_def)

lemma Mounter_ended:
  assumes "Mounter img m True allow w = (res, w')"
  shows "mount_ended img (fuse_args allow m) w res w'"
proof -
  let ?opts = "if allow then allow_opts else normal_opts"
  let ?first = "[(chars ''appfs'', minus_one)]" and ?second = "[(chars ''-f'', minus_one)]"
    and ?third = "[(chars ''-s'', minus_one), (chars ''-o'', \<lambda>r. r \<noteq> 0), (?opts, minus_one), (m, minus_one)]"
  let ?w = "w\<lparr>w_calls := w_calls w @ [Open_package img]\<rparr>"
  have failing: "mount_ended img (fuse_args allow m) w res w'"
    if "options_failed v = (res, w')" "w_calls v = w_calls w @ Open_package img # map Fuse_add_arg (take k (fuse_args allow m))"
      "0 < k" "k \<le> 6" for v k
    using that options_failed_eq[of v]
    by (auto simp: mount_ended_def fuse_args_def intro!: bexI[of _ k])
  show ?thesis
  proof (cases "fst (w_answer w (w_calls w) (Open_package img)) = 0")
    case False
    then show ?thesis using assms by (auto simp: Mounter_def open_image_def sys_def mount_ended_def split: prod.splits)
  next
    case True
    obtain f1 a1 w1 where s1: "add_args ?first [] ?w = ((f1, a1), w1)" by (metis prod.collapse)
    obtain f2 a2 w2 where s2: "add_args ?second a1 w1 = ((f2, a2), w2)" by (metis prod.collapse)
    define v where "v = (if allow then tell (showInfoW ''Allowing other users access to filesystem.'' []) w2 else w2)"
    obtain f3 a3 w3 where s3: "add_args ?third a2 v = ((f3, a3), w3)" by (metis prod.collapse)
    have res: "(res, w') = (if f1 then options_failed w1 else if f2 then options_failed w2
        else if f3 then options_failed w3 else let ((r, _), w) = sys (Fuse_main a3) w3 in (Value r, w))"
      using assms True s1 s2 s3
      by (auto simp: Mounter_def open_image_def sys_def v_def case_prod_unfold Let_def
          simp del: chars_simps add_args.simps split: if_splits)
    have v: "w_calls v = w_calls w2" "w_answer v = w_answer w2" by (simp_all add: v_def)
    note t1 = add_args_trace[OF s1] and t2 = add_args_trace[OF s2] and t3 = add_args_trace[OF s3, unfolded v]
    consider f1 | "\<not> f1" f2 | "\<not> f1" "\<not> f2" f3 | "\<not> f1" "\<not> f2" "\<not> f3" by blast
    then show ?thesis
    proof cases
      case 1
      then show ?thesis using t1 res by (intro failing[of w1 1]) (auto simp: fuse_args_def)
    next
      case 2
      then show ?thesis using t1 t2 res by (intro failing[of w2 2]) (auto simp: fuse_args_def)
    next
      case 3
      then obtain k where "0 < k" "k \<le> 4" "w_calls w3 = w_calls w2 @ map Fuse_add_arg (take k (map fst ?third))"
        using t3 by auto
      then show ?thesis using 3 t1 t2 res by (intro failing[of w3 "Suc (Suc k)"]) (auto simp: fuse_args_def)
    next
      case 4
      then show ?thesis using t1 t2 t3 res by (auto simp: mount_ended_def fuse_args_def sys_def case_prod_unfold)
    qed
  qed
qed

section \<open>Unmounting\<close>

definition attempts :: "byte list \<Rightarrow> nat \<Rightarrow> syscall list" where
  "attempts command k = concat (replicate k [System command, Sleep 1])"

lemma attempts_Suc: "[System u, Sleep 1] @ attempts u k = attempts u (Suc k)"
  by (simp add: attempts_def)

lemma umount_loop_trace:
  assumes "res \<noteq> 0" and "n \<le> 10"
  shows "\<exists>k r w'. umount_loop u res n w = (r, w') \<and>
    w_calls w' = w_calls w @ attempts u k @ (if r = 0 then [System u] else []) \<and>
    (if r = 0 then n + k < 10 else n + k = 10)"
  using assms
proof (induction "10 - n" arbitrary: res n w)
  case 0
  then show ?case
    by (subst umount_loop.simps) (auto simp: attempts_def intro!: exI[of _ 0])
next
  case (Suc d)
  let ?w = "w\<lparr>w_calls := w_calls w @ [System u]\<rparr>"
  obtain r bs where ans: "w_answer w (w_calls w) (System u) = (r, bs)" by fastforce
  have n: "n < 10" using Suc.hyps by simp
  show ?case
  proof (cases "r = 0")
    case True
    have "umount_loop u res n w = (0, ?w)"
      using True ans n Suc.prems(1)
      by (subst umount_loop.simps, simp add: sys_def) (subst umount_loop.simps, simp)
    then show ?thesis using n by (auto simp: attempts_def intro!: exI[of _ 0])
  next
    case False
    let ?v = "?w\<lparr>w_calls := w_calls w @ [System u, Sleep 1]\<rparr>"
    have step: "umount_loop u res n w = umount_loop u r (n + 1) ?v"
      using False ans n Suc.prems(1) by (subst umount_loop.simps) (simp add: sys_def)
    have "d = 10 - (n + 1)" "n + 1 \<le> 10" using Suc.hyps(2) n by simp_all
    note IH = Suc.hyps(1)[OF this(1) False this(2), of ?v]
    obtain k r' w' where rest: "umount_loop u r (n + 1) ?v = (r', w')"
        "w_calls w' = w_calls ?v @ attempts u k @ (if r' = 0 then [System u] else [])"
        "if r' = 0 then n + 1 + k < 10 else n + 1 + k = 10"
      using IH by blast
    have "w_calls w' = w_calls w @ attempts u (Suc k) @ (if r' = 0 then [System u] else [])"
      using rest(2) by (simp flip: attempts_Suc)
    then show ?thesis
      using step rest(1,3) by (intro exI[of _ "Suc k"] exI[of _ r'] exI[of _ w']) (simp split: if_splits)
  qed
qed

section \<open>The thread of the application\<close>

lemma sandbox_tools_frame: "w_exists v = w_exists w \<Longrightarrow> w_path v = w_path w \<Longrightarrow> sandbox_tools v = sandbox_tools w"
  by (simp add: sandbox_tools_def)

lemma remove_sandbox_calls:
  "w_calls (remove_sandbox t w) = w_calls w @ [Rmdir t, Kill_self ''SIGHUP'']"
  by (simp add: remove_sandbox_def case_prod_unfold Let_def)

text \<open>
  The calls of a run: the application is started only behind a sandbox, and whatever happens the last call is
  the signal that ends the mount.
\<close>

definition entry_point :: "byte list \<Rightarrow> byte list" where
  "entry_point mount_path = mount_path @ chars ''/EntryPoint''"

definition sandbox_template :: "byte list" where
  "sandbox_template = chars ''/tmp/appfs_sandbox.XXXXXX''"

definition sandboxed_run :: "byte list \<Rightarrow> byte list list \<Rightarrow> bool \<Rightarrow> byte list \<Rightarrow> byte list \<Rightarrow> nat \<Rightarrow> syscall list" where
  "sandboxed_run m argv alternative t old k =
     [Mkdtemp sandbox_template, System (sandbox_command m t), Getcwd, Chdir m,
      System (chroot_command alternative t (sanitizeArguments (drop 1 argv) (entry_point m))), Chdir old]
     @ attempts (fusermount_command t) k
     @ (if k < 10 then [System (fusermount_command t), Rmdir t] else [])"

lemma appfs_thread_no_entry:
  "\<not> w_exists w (entry_point m) \<Longrightarrow> w_calls (appfs_thread d m argv w) = w_calls w @ [Kill_self ''SIGHUP'']"
  by (simp add: appfs_thread_def entry_point_def Let_def del: chars_simps)

lemma appfs_thread_no_sandbox:
  assumes "w_exists w (entry_point m)" and "w_answer w (w_calls w) (Mkdtemp sandbox_template) = (r, t)"
    and "r \<noteq> 0 \<or> \<not> fst (sandbox_tools w)"
  shows "w_calls (appfs_thread d m argv w) =
    w_calls w @ [Mkdtemp sandbox_template, Rmdir (if r = 0 then t else sandbox_template), Kill_self ''SIGHUP'']"
proof -
  have "sandbox_tools (tell f v) = sandbox_tools w" if "w_exists v = w_exists w" "w_path v = w_path w" for f v
    using that by (intro sandbox_tools_frame) simp_all
  then show ?thesis
    using assms
    by (auto simp: appfs_thread_def entry_point_def sandbox_template_def sys_def remove_sandbox_calls Let_def
        split: prod.splits simp del: chars_simps)
qed

lemma appfs_thread_sandbox:
  assumes "w_exists w (entry_point m)" and "w_answer w (w_calls w) (Mkdtemp sandbox_template) = (0, t)"
    and "fst (sandbox_tools w)"
  shows "\<exists>k \<le> 10. \<exists>old. w_calls (appfs_thread d m argv w) =
    w_calls w @ sandboxed_run m argv (snd (sandbox_tools w)) t old k @ [Kill_self ''SIGHUP'']"
proof -
  have tools: "sandbox_tools (tell f v) = sandbox_tools w" if "w_exists v = w_exists w" "w_path v = w_path w" for f v
    using that by (intro sandbox_tools_frame) simp_all
  let ?u = "fusermount_command t"
  let ?pre = "w_calls w @ [Mkdtemp sandbox_template, System (sandbox_command m t)]"
  let ?old = "snd (w_answer w ?pre Getcwd)"
  let ?app = "System (chroot_command (snd (sandbox_tools w)) t (sanitizeArguments (drop 1 argv) (entry_point m)))"
  let ?v = "tell (showInfoW ''Setting up sandbox (via unionfs-fuse)...'' [])
       (tell (showInfoW ''Created sandboxing directory at: %s'' [Str_arg t]) (w\<lparr>w_calls := w_calls w @ [Mkdtemp sandbox_template]\<rparr>))
     \<lparr>w_calls := ?pre @ [Getcwd, Chdir m, ?app, Chdir ?old]\<rparr>"
  obtain k r w' where u: "umount_loop ?u (- 1) 0 ?v = (r, w')"
      "w_calls w' = w_calls ?v @ attempts ?u k @ (if r = 0 then [System ?u] else [])"
      "if r = 0 then 0 + k < 10 else 0 + k = 10"
    using umount_loop_trace[of "- 1" 0 ?u ?v] by auto
  have "w_calls (appfs_thread d m argv w) =
      (if r \<noteq> 0 then w_calls w' @ [Kill_self ''SIGHUP''] else w_calls w' @ [Rmdir t, Kill_self ''SIGHUP''])"
    using assms(1)[unfolded entry_point_def] assms(2)[unfolded sandbox_template_def] assms(3)
      u(1)[unfolded entry_point_def sandbox_template_def]
    by (simp add: appfs_thread_def sys_def tools remove_sandbox_calls case_prod_unfold Let_def del: chars_simps)
  then show ?thesis
    using u(2,3) by (intro exI[of _ k] conjI exI[of _ ?old]) (auto simp: sandboxed_run_def split: if_splits)
qed

section \<open>The two stages\<close>

lemma dirname_buf_name:
  assumes "slash \<notin> set name" and "d \<noteq> []" and "last d \<noteq> slash"
  shows "dirname_buf (d @ slash # name) = d"
proof -
  have "dropWhile (\<lambda>c. c \<noteq> slash) (rev name @ slash # rev d) = slash # rev d"
    using assms(1) by (subst dropWhile_append2) auto
  moreover have "dropWhile (\<lambda>c. c = slash) (slash # rev d) = rev d"
    using assms(2,3) by (cases d rule: rev_cases) auto
  ultimately show ?thesis using assms(2) by (simp add: dirname_buf_def)
qed

definition stage2_file :: "byte list \<Rightarrow> byte list" where
  "stage2_file t = t @ chars ''/appfs_0_1_0''"

text \<open>A name \<^verbatim>\<open>mkdtemp\<close> makes of the template.\<close>

definition stage2_dir :: "byte list \<Rightarrow> bool" where
  "stage2_dir t \<longleftrightarrow> (\<exists>x. t = chars ''/tmp/appfs_stage2.'' @ x \<and> length x = 6 \<and> slash \<notin> set x)"

lemma remove_stage2_calls:
  assumes "stage2_dir t"
  shows "w_calls (remove_stage2 (stage2_file t) w) = w_calls w @ [Unlink (stage2_file t), Rmdir t]"
proof -
  obtain x where x: "t = chars ''/tmp/appfs_stage2.'' @ x" "length x = 6" "slash \<notin> set x"
    using assms by (auto simp: stage2_dir_def)
  then have "x \<noteq> []" by auto
  then have "last t \<noteq> slash" using x(3) last_in_set[of x] by (metis last_appendR x(1))
  moreover have "stage2_file t = t @ slash # chars ''appfs_0_1_0''" "slash \<notin> set (chars ''appfs_0_1_0'')" "t \<noteq> []"
    using x(1) by (simp_all add: stage2_file_def)
  ultimately have "dirname_buf (stage2_file t) = t" using dirname_buf_name by metis
  moreover have "substr t (of_nat (length t) - 20) 14 = Some (chars ''/appfs_stage2.'')"
    using x by (simp add: substr_def)
  ultimately show ?thesis
    by (simp add: remove_stage2_def sys_def case_prod_unfold Let_def)
qed

text \<open>
  The calls of a stage 1 that hands over. What is written is what \<^verbatim>\<open>fread\<close> delivered, over what the buffer held
  before; \<open>ans\<close> and \<open>cs\<close> are the answers of the operating system and the calls before.
\<close>

definition stage2_template :: "byte list" where
  "stage2_template = chars ''/tmp/appfs_stage2.XXXXXX''"

definition extraction ::
    "(syscall list \<Rightarrow> syscall \<Rightarrow> int \<times> byte list) \<Rightarrow> syscall list \<Rightarrow> byte list \<Rightarrow> byte list \<Rightarrow> syscall list" where
  "extraction ans cs source dest =
     (let opens = [Fopen source ''r'', Fopen dest ''w''];
          fresh = snd (ans (cs @ opens) (Malloc mebibyte));
          got = snd (ans (cs @ opens @ [Malloc mebibyte]) (Fread mebibyte))
      in opens @ [Malloc mebibyte, Fread mebibyte, Ferror source, Fwrite (got @ drop (length got) fresh),
           Ferror dest, Fclose source, Fclose dest])"

definition stage1_run ::
    "(syscall list \<Rightarrow> syscall \<Rightarrow> int \<times> byte list) \<Rightarrow> syscall list \<Rightarrow> byte list list \<Rightarrow> byte list \<Rightarrow> syscall list" where
  "stage1_run ans cs argv t =
     Mkdtemp stage2_template # extraction ans (cs @ [Mkdtemp stage2_template]) (argv ! 0) (stage2_file t) @
       [Chmod (stage2_file t) 0x1C0, Execv (stage2_file t) argv]"

lemma extractBootstrap_calls:
  assumes "extractBootstrap a b w = (True, v)"
  shows "w_calls v = w_calls w @ extraction (w_answer w) (w_calls w) a b"
  using assms
  by (auto simp: extraction_def extractBootstrap_def sys_def case_prod_unfold Let_def split: if_splits)

lemma appfs_stage1_calls:
  assumes "appfs_stage1 argv w = (0, w')" and "t = snd (w_answer w (w_calls w) (Mkdtemp stage2_template))"
  shows "w_calls w' = w_calls w @ stage1_run (w_answer w) (w_calls w) argv t"
proof -
  let ?v = "(tell (setApplicationName (chars ''appfs'')) w)\<lparr>w_calls := w_calls w @ [Mkdtemp stage2_template]\<rparr>"
  have f: "u @ chars ''/appfs_'' @ chars ''0_1_0'' = stage2_file u" for u by (simp add: stage2_file_def)
  obtain ok v where e: "extractBootstrap (argv ! 0) (stage2_file t) ?v = (ok, v)" by fastforce
  have ok: ok and calls: "w_calls w' = w_calls v @ [Chmod (stage2_file t) 0x1C0, Execv (stage2_file t) argv]"
    using assms(1) e[unfolded stage2_template_def assms(2)] assms(2)
    by (auto simp: appfs_stage1_def sys_def f stage2_template_def case_prod_unfold Let_def
        simp del: chars_simps split: if_splits)
  then show ?thesis
    using extractBootstrap_calls[of "argv ! 0" "stage2_file t" ?v v] e by (auto simp: stage1_run_def)
qed

end
