(* ===== verification/Spec_Tools.thy ===== *)
theory Spec_Tools
  imports Spec_Paths Inspect_Props Stage_Props
begin

text \<open>
  The tools: the messages of \<^verbatim>\<open>Logging\<close>, the commands of \<^verbatim>\<open>appinspect\<close>, and the start of a package by
  \<^verbatim>\<open>appfs\<close>.
\<close>

text \<open>
  C32. The run of an application by \<^verbatim>\<open>appfs_thread\<close>, call by call. If the package has an entry point, a temporary
  directory can be made and the tools are found, the sandbox is set up, the application runs in it with its
  arguments quoted, and unmounting is tried until it succeeds, ten times at most with a second's wait after
  each failure; otherwise no command is run at all. In every case the last call is the signal that makes
  libfuse unmount the package.
\<close>

theorem appfs_thread_calls:
  "\<exists>cs. w_calls (appfs_thread d m argv w) = w_calls w @ cs @ [Kill_self ''SIGHUP''] \<and>
     (let (r, t) = w_answer w (w_calls w) (Mkdtemp sandbox_template);
          (tools, alternative) = sandbox_tools w
      in if \<not> w_exists w (entry_point m) then cs = []
         else if r = 0 \<and> tools then \<exists>k \<le> 10. \<exists>old. cs = sandboxed_run m argv alternative t old k
         else cs = [Mkdtemp sandbox_template, Rmdir (if r = 0 then t else sandbox_template)])"
proof -
  obtain r t where ans: "w_answer w (w_calls w) (Mkdtemp sandbox_template) = (r, t)" by fastforce
  show ?thesis
    using appfs_thread_no_entry[of w m d argv] appfs_thread_no_sandbox[of w m r t d argv]
      appfs_thread_sandbox[of w m t d argv] ans
    by (cases "w_exists w (entry_point m)"; cases "r = 0 \<and> fst (sandbox_tools w)") (auto simp: case_prod_unfold)
qed

text \<open>
  C33. Stage 2 removes what stage 1 made. When stage 1 hands over, its last call is the execution of the file it
  wrote, and stage 2, started from that file, deletes the file and then the directory \<^verbatim>\<open>mkdtemp\<close> made for it.
\<close>

theorem stage2_removes_stage1:
  assumes "appfs_stage1 argv w = (0, w')"
    and "t = snd (w_answer w (w_calls w) (Mkdtemp stage2_template))" and "stage2_dir t"
  shows "w_calls w' = w_calls w @ stage1_run (w_answer w) (w_calls w) argv t \<and>
    w_calls (remove_stage2 (stage2_file t) v) = w_calls v @ [Unlink (stage2_file t), Rmdir t]"
  using appfs_stage1_calls[OF assms(1,2)] remove_stage2_calls[OF assms(3)] by simp

definition world0 :: world where
  "world0 = \<lparr>w_answer = (\<lambda>_ c. (0, case c of Mkdtemp _ \<Rightarrow> chars ''/tmp/appfs_stage2.abcdef'' | _ \<Rightarrow> [])), w_errno = (\<lambda>_. 0),
     w_exists = (\<lambda>_. True), w_path = None, w_calls = [], w_co = console0\<rparr>"

theorem stage2_removes_stage1_witness:
  "let t = chars ''/tmp/appfs_stage2.abcdef'' in
   \<exists>w'. appfs_stage1 [[0x78]] world0 = (0, w') \<and> w_calls w' = stage1_run (w_answer world0) [] [[0x78]] t \<and>
     w_calls (remove_stage2 (stage2_file t) world0) = [Unlink (stage2_file t), Rmdir t]"
proof -
  obtain r w' where run: "appfs_stage1 [[0x78]] world0 = (r, w')" by fastforce
  then have "r = 0"
    by (auto simp: appfs_stage1_def extractBootstrap_def sys_def world0_def tell_def Let_def case_prod_unfold
        simp del: chars_simps)
  moreover have "stage2_dir (chars ''/tmp/appfs_stage2.abcdef'')"
    by (simp add: stage2_dir_def)
  moreover have "snd (w_answer world0 (w_calls world0) (Mkdtemp stage2_template)) = chars ''/tmp/appfs_stage2.abcdef''"
    "w_calls world0 = []" by (simp_all add: world0_def)
  ultimately show ?thesis
    using stage2_removes_stage1[of "[[0x78]]" world0 w' "chars ''/tmp/appfs_stage2.abcdef''" world0] run
    by (simp del: chars_simps)
qed


section \<open>The inspector\<close>

text \<open>
  C35. \<^verbatim>\<open>ParseCommand\<close> reads back what \<^verbatim>\<open>Util::sanitizeArguments\<close> quotes: behind a plain command word, every
  argument comes back as it was, with its blanks, quotes and backslashes, except that empty ones are dropped.
\<close>

theorem ParseCommand_sanitized:
  assumes "word \<noteq> []" and "set word \<inter> {backslash, dquote, space} = {}"
  shows "ParseCommand (sanitizeArguments argv word) = word # filter (\<lambda>a. a \<noteq> []) argv"
proof -
  have "sanitizeArguments argv word = word @ sanitizeArguments argv []"
    using sanitizeArguments_append[of argv word "[]"] by simp
  then show ?thesis
    using assms parse_sanitized[of argv "[]" word]
    by (simp add: ParseCommand_close parse_plain[OF assms(2)])
qed

theorem ParseCommand_sanitized_witness:
  "ParseCommand (sanitizeArguments [[0x61, space, 0x62], [], [backslash, dquote]] (chars ''show'')) =
     [chars ''show'', [0x61, space, 0x62], [backslash, dquote]]"
  using ParseCommand_sanitized[of "chars ''show''" "[[0x61, space, 0x62], [], [backslash, dquote]]"] by simp

text \<open>
  \<^verbatim>\<open>ReadLine\<close> returns the line that was edited: on keys that are characters or the backspace, followed by a
  return, it comes back with the characters not erased, having taken these keys and no more, and leaves the
  package alone.
\<close>

theorem ReadLine_edits:
  assumes "map (in_keys s) [in_nkeys s..<in_nkeys s + length ks] = ks" and "list_all plain_key ks"
    and "in_keys s (in_nkeys s + length ks) \<in> {10, 13}"
  shows "\<exists>co. ReadLine s =
    Some (foldl edit_key [] (map word_of_int ks), s\<lparr>in_nkeys := in_nkeys s + length ks + 1, in_co := co\<rparr>)"
  unfolding ReadLine_def by (rule read_loop_edits[OF assms])

definition inspect0 :: "fsys \<Rightarrow> (nat \<Rightarrow> int) \<Rightarrow> inspect" where
  "inspect0 fs keys = \<lparr>in_fs = fs, in_co = console0, in_keys = keys, in_nkeys = 0, in_stack = \<lambda>_. 0\<rparr>"

theorem ReadLine_edits_witness:
  "\<exists>co. ReadLine (inspect0 package_f (\<lambda>i. [0x68, 0x78, 8, 0x69, 13] ! i)) =
     Some ([0x68, 0x69], (inspect0 package_f (\<lambda>i. [0x68, 0x78, 8, 0x69, 13] ! i))\<lparr>in_nkeys := 5, in_co := co\<rparr>)"
proof -
  have "map ((!) [0x68, 0x78, 8, 0x69, 13]) [0..<4] = [0x68, 0x78, 8, 0x69 :: int]"
    by (simp add: upt_rec)
  moreover have "foldl edit_key [] (map word_of_int [0x68, 0x78, 8, 0x69]) = [0x68, 0x69]"
    by (simp add: edit_key_def)
  moreover have "list_all plain_key [0x68, 0x78, 8, 0x69]" by (simp add: plain_key_def)
  ultimately show ?thesis
    using ReadLine_edits[of "inspect0 package_f (\<lambda>i. [0x68, 0x78, 8, 0x69, 13] ! i)" "[0x68, 0x78, 8, 0x69]"]
    by (simp add: inspect0_def eval_nat_numeral)
qed


text \<open>
  C37. \<^verbatim>\<open>show\<close> prints the block with the number it is given, all its 4096 bytes in their order, and changes nothing
  of the package but the position of the stream.
\<close>

theorem DoShow_dumps_block:
  assumes "parse_int a = int k" and "p = OFFSET_FSINFO + k * 4096" and "p + 4096 \<le> dsize (fs_disk (in_fs s))"
    and "p + 4096 \<le> 2 ^ 31"
  shows "\<exists>s'. DoShow [c, a] s = Some (Returns s') \<and>
    dumped s' = dumped s @ map uint (slice (byte_at (fs_disk (in_fs s))) p 4096) \<and>
    (\<exists>q. in_fs s' = fd_seek q (in_fs s))"
proof -
  have pos: "int OFFSET_FSINFO + int k * int BSIZE_FILE = int p"
    using assms(2) by (simp add: config)
  have u: "unat (of_nat p + of_nat i :: u32) = p + i" if "i < 4096" for i
  proof -
    have "of_nat p + of_nat i = (of_nat (p + i) :: u32)" by simp
    moreover have "p + i < 2 ^ LENGTH(32)" using that assms(4) by simp
    ultimately show ?thesis by (simp only: unat_of_nat mod_less)
  qed
  have lt: "int p < 2 ^ 31" using assms(4) by simp
  have ge: "\<not> int k * int BSIZE_FILE < - (2 ^ 31)"
    by (simp add: BSIZE_FILE_def)
  have bytes: "map (\<lambda>i. uint (byte_at (fs_disk (in_fs s)) (unat (of_nat p + of_nat i :: u32)))) [0..<BSIZE_FILE]
      = map uint (slice (byte_at (fs_disk (in_fs s))) p 4096)"
    by (auto simp: slice_def u BSIZE_FILE_def)
  have run: "DoShow [c, a] s = Some (Returns (show_loop (of_nat p) [0..<BSIZE_FILE] (0, 0, []) s))"
    using lt ge by (simp add: DoShow_def CheckArguments_ok assms(1) pos Let_def)
  have inside: "unat (of_nat p + of_nat i :: u32) < dsize (fs_disk (in_fs s))" if "i \<in> set [0..<BSIZE_FILE]" for i
    using that assms(3) by (simp add: u BSIZE_FILE_def)
  let ?t = "show_loop (of_nat p) [0..<BSIZE_FILE] (0, 0, []) s"
  have "dumped ?t = dumped s @ map uint (slice (byte_at (fs_disk (in_fs s))) p 4096)"
    "\<exists>q. in_fs ?t = fd_seek q (in_fs s)"
    using show_loop_dumps[of "[0..<BSIZE_FILE]" "of_nat p" s "(0, 0, [])", OF inside] unfolding bytes
    by (blast, blast)
  then show ?thesis unfolding run by (intro exI[of _ ?t] conjI refl)
qed

theorem DoShow_dumps_block_witness:
  "\<exists>s'. DoShow [chars ''show'', chars ''1''] (inspect0 package_f (\<lambda>_. - 1)) = Some (Returns s') \<and>
    dumped s' = map uint (slice (byte_at (fs_disk package_f)) OFFSET_DATA 4096)"
proof -
  have "parse_int (chars ''1'') = int 1"
    by (simp add: parse_int_def is_space_def is_digit_def digits_value_def)
  then show ?thesis
    using DoShow_dumps_block[of "chars ''1''" 1 OFFSET_DATA "inspect0 package_f (\<lambda>_. - 1)" "chars ''show''"]
    by (simp add: inspect0_def package_f_size config dumped_def console0_def del: chars_simps) blast
qed




section \<open>Messages\<close>

text \<open>
  The text of messages is aligned: once the application has its name, the first line of a message and the lines
  that follow it begin their text in the same column, 14 characters behind the length of the name, for every
  kind of message.
\<close>

theorem messages_aligned:
  assumes "0 \<notin> set name" and "t = setApplicationName name s" and "CHR 0x00 \<notin> set msg" and "co_verbose s" and "co_debug s"
    and "showW \<in> {showErrorW, showWarningW, showInfoW, showSuccessW, showDebugW}"
    and "showO \<in> {showErrorO, showWarningO, showInfoO, showSuccessO, showDebugO}"
  shows "\<exists>p q. length p = length name + 14 \<and> length q = length name + 14 \<and>
    co_out (showW msg args t) = co_out s @ [Printf (p @ chars msg @ [newline]) args] \<and>
    co_out (showO msg args t) = co_out s @ [Printf (q @ chars msg @ [newline]) args]"
proof -
  have al: "aligned t" unfolding assms(2) by (rule aligned_setApplicationName[OF assms(1)])
  have t: "co_appname t = name" "co_out t = co_out s" "co_verbose t" "co_debug t"
    using assms(4,5) by (simp_all add: assms(2) setApplicationName_def Let_def)
  have w: "\<exists>p. length p = length name + 14 \<and>
      co_out (showMsgW (chars ty) (chars msg) args t) = co_out s @ [Printf (p @ chars msg @ [newline]) args]"
    if "ty \<in> {''error'', ''warning'', ''info'', ''success'', ''debug''}" for ty
  proof -
    have "0 \<notin> set (chars ty)" "length (chars ty) \<le> 7" using that by auto
    from showMsgW_line[OF al this(1) zero_notin_chars[OF assms(3)] this(2), of args] show ?thesis by (simp add: t)
  qed
  have "\<exists>q. length q = length name + 14 \<and>
      co_out (showMsgO (chars msg) args t) = co_out s @ [Printf (q @ chars msg @ [newline]) args]"
    using showMsgO_line[OF al zero_notin_chars[OF assms(3)], of args] by (auto simp: t)
  moreover have "showO msg args t = showMsgO (chars msg) args t" using assms(7) t by (auto simp: show_defs)
  moreover have "\<exists>ty \<in> {''error'', ''warning'', ''info'', ''success'', ''debug''}.
      showW msg args t = showMsgW (chars ty) (chars msg) args t"
    using assms(6) t by (auto simp: show_defs simp del: chars_simps)
  ultimately show ?thesis using w by metis
qed

theorem messages_aligned_witness:
  "\<exists>p q. length p = 19 \<and> length q = 19 \<and>
    co_out (showErrorW ''no'' [] (setApplicationName (chars ''appfs'') (console0\<lparr>co_debug := True\<rparr>))) = [Printf (p @ chars ''no'' @ [newline]) []] \<and>
    co_out (showErrorO ''no'' [] (setApplicationName (chars ''appfs'') (console0\<lparr>co_debug := True\<rparr>))) = [Printf (q @ chars ''no'' @ [newline]) []]"
  using messages_aligned[of "chars ''appfs''" _ "console0\<lparr>co_debug := True\<rparr>" "''no''" showErrorW showErrorO "[]", OF _ refl]
  by (simp add: console0_def)

end
