(* ===== verification/IoStream.thy ===== *)
theory IoStream
  imports EndianStream
begin

text \<open>
  \<^verbatim>\<open>Endian::doR\<close> and \<^verbatim>\<open>doW\<close> on a plain \<^verbatim>\<open>std::iostream\<close> (\<^verbatim>\<open>libapp/lowlevel/endian.cpp\<close>): there is no mutex, and a read
  that meets the end of the file sets the end and fail bits, which \<^verbatim>\<open>BlockStream\<close>, reading with \<^verbatim>\<open>readsome\<close>, never
  does. What the test after the transfer makes of that is shown at the end.
\<close>

section \<open>The stream\<close>

record iostream =
  io_disk :: disk
  io_state :: iostate
  io_exceptions :: iostate

definition io_clear_to :: "iostate \<Rightarrow> iostream \<Rightarrow> unit io \<times> iostream" where
  "io_clear_to st s = (if ios_masked (io_exceptions s) st then IosFailure else Returned (), s\<lparr>io_state := st\<rparr>)"

definition io_setstate :: "iostate \<Rightarrow> iostream \<Rightarrow> unit io \<times> iostream" where
  "io_setstate st s = io_clear_to \<lparr>badbit = badbit (io_state s) \<or> badbit st, failbit = failbit (io_state s) \<or> failbit st,
     eofbit = eofbit (io_state s) \<or> eofbit st\<rparr> s"

definition fail_only :: iostate where
  "fail_only = \<lparr>badbit = False, failbit = True, eofbit = False\<rparr>"

text \<open>A transfer on a stream that is not good sets the fail bit and moves no bytes.\<close>

definition io_read :: "nat \<Rightarrow> iostream \<Rightarrow> byte list io \<times> iostream" where
  "io_read n s =
     (if io_state s \<noteq> goodbit then (case io_setstate fail_only s of (r, s) \<Rightarrow> (map_io (\<lambda>_. []) r, s))
      else let (got, d) = disk_read n (io_disk s); s = s\<lparr>io_disk := d\<rparr>
           in if length got < n then (case io_setstate eof_fail s of (r, s) \<Rightarrow> (map_io (\<lambda>_. got) r, s))
              else (Returned got, s))"

definition io_write :: "byte list \<Rightarrow> iostream \<Rightarrow> unit io \<times> iostream" where
  "io_write data s =
     (if io_state s \<noteq> goodbit then io_setstate fail_only s
      else (Returned (), s\<lparr>io_disk := disk_write data (io_disk s)\<rparr>))"

section \<open>The transfers\<close>

definition plain_after :: "string \<Rightarrow> string \<Rightarrow> iostream \<Rightarrow> console \<Rightarrow> (unit io \<times> iostream) \<times> console" where
  "plain_after err warn s co =
     (let st = io_state s in
      if ios_fail st \<and> eofbit st then (io_clear_to eof_only s, co)
      else if ios_fail st \<and> badbit st then (io_clear_to goodbit s, showErrorW err [] co)
      else if ios_fail st then (io_clear_to goodbit s, showWarningW warn [] co)
      else ((Returned (), s), co))"

definition plain_doR ::
    "bool \<Rightarrow> byte list \<Rightarrow> byte list \<Rightarrow> iostream \<Rightarrow> console \<Rightarrow> (byte list option io \<times> iostream) \<times> console" where
  "plain_doR little_endian fresh data s co =
     (case io_read (length data) s of
        (Returned got, s) \<Rightarrow>
          let data = (if little_endian then Some (got @ drop (length got) data)
                      else swap_in (got @ drop (length got) fresh) [0..<length data] data)
          in (case plain_after ''I/O error occurred while reading from file.''
                ''Unexpected failure while reading from file.'' s co of
                ((r, s), co) \<Rightarrow> ((map_io (\<lambda>_. data) r, s), co))
      | (IosFailure, s) \<Rightarrow> ((IosFailure, s), co)
      | (Deadlock, s) \<Rightarrow> ((Deadlock, s), co))"

definition plain_doW ::
    "bool \<Rightarrow> byte list \<Rightarrow> byte list \<Rightarrow> iostream \<Rightarrow> console \<Rightarrow> (unit option io \<times> iostream) \<times> console" where
  "plain_doW little_endian fresh data s co =
     (case (if little_endian then Some data else swap_out data [0..<length data] fresh) of
        None \<Rightarrow> ((Returned None, s), co)
      | Some stored \<Rightarrow>
          (case io_write stored s of
             (Returned _, s) \<Rightarrow>
               (case plain_after ''I/O error occurred while writing to file.''
                  ''Unexpected failure while writing to file.'' s co of
                  ((r, s), co) \<Rightarrow> ((map_io Some r, s), co))
           | (IosFailure, s) \<Rightarrow> ((IosFailure, s), co)
           | (Deadlock, s) \<Rightarrow> ((Deadlock, s), co)))"

section \<open>What they do\<close>

definition io_ready :: "iostream \<Rightarrow> bool" where
  "io_ready s \<longleftrightarrow> io_state s = goodbit \<and> io_exceptions s = goodbit"

lemma good_not_masked [simp]: "\<not> ios_masked goodbit st"
  by (simp add: ios_masked_def goodbit_def)

lemma length_disk_read: "length (fst (disk_read n d)) = min n (dsize d - dpos d)"
  by (simp add: disk_read_def Let_def)

text \<open>With enough bytes before the end they are the transfers on the file's bytes, as on a ready \<^verbatim>\<open>BlockStream\<close>.\<close>

lemma plain_doR_inside:
  assumes "io_ready s" and "dpos (io_disk s) + length data \<le> dsize (io_disk s)"
  shows "plain_doR le fresh data s co =
    ((Returned (fst (endian_doR le fresh data (io_disk s))), s\<lparr>io_disk := snd (endian_doR le fresh data (io_disk s))\<rparr>), co)"
proof -
  have "length (fst (disk_read (length data) (io_disk s))) = length data" using assms(2) by (simp add: length_disk_read)
  then show ?thesis
    using assms(1) by (simp add: plain_doR_def io_read_def io_ready_def plain_after_def ios_fail_def goodbit_def endian_doR_def
        case_prod_unfold Let_def)
qed

lemma plain_doW_ready:
  assumes "io_ready s"
  shows "plain_doW True fresh data s co = ((Returned (Some ()), s\<lparr>io_disk := disk_write data (io_disk s)\<rparr>), co)"
  using assms by (simp add: plain_doW_def io_write_def io_ready_def plain_after_def ios_fail_def goodbit_def Let_def)

text \<open>
  A short read leaves the end bit set, as \<^verbatim>\<open>clear(std::ios::eofbit)\<close> sets the bit it names instead of clearing it. From then
  on no transfer moves a byte, and none says so: reads leave the variable as it was, writes are lost.
\<close>

lemma plain_doR_short:
  assumes "io_ready s" and "dsize (io_disk s) - dpos (io_disk s) < length data"
  shows "plain_doR True fresh data s co =
    ((Returned (Some (fst (doR data (io_disk s)))), s\<lparr>io_disk := snd (doR data (io_disk s)), io_state := eof_only\<rparr>), co)"
proof -
  have "length (fst (disk_read (length data) (io_disk s))) < length data" using assms(2) by (auto simp: length_disk_read)
  then show ?thesis
    using assms(1) by (simp add: plain_doR_def io_read_def io_ready_def io_setstate_def io_clear_to_def plain_after_def
        ios_fail_def eof_fail_def doR_def case_prod_unfold Let_def)
qed

lemma plain_stuck:
  assumes "io_state s = eof_only" and "io_exceptions s = goodbit"
  shows "plain_doR True fresh data s co = ((Returned (Some data), s), co)"
    and "plain_doW True fresh data s co = ((Returned (Some ()), s), co)"
proof -
  have s: "s\<lparr>io_state := eof_only\<rparr> = s" using assms(1) by simp
  have bits: "eof_only \<noteq> goodbit" "badbit eof_only = False" "failbit eof_only = False" "eofbit eof_only"
    by (simp_all add: eof_only_def goodbit_def)
  show "plain_doR True fresh data s co = ((Returned (Some data), s), co)"
    "plain_doW True fresh data s co = ((Returned (Some ()), s), co)"
    using assms s bits
    by (simp_all add: plain_doR_def plain_doW_def io_read_def io_write_def io_setstate_def io_clear_to_def plain_after_def
        ios_fail_def fail_only_def Let_def)
qed

end
