(* ===== verification/AuditHook.thy ===== *)
theory AuditHook
  imports Logging
begin

text \<open>
  \<^verbatim>\<open>appaudit/audit.c\<close>: the library the dynamic linker loads (\<^verbatim>\<open>LD_AUDIT\<close>) to find missing shared objects. It asks
  the service \<^verbatim>\<open>appd\<close> over D-Bus, first on the system bus, then on the session bus, and remembers which bus
  answered. D-Bus is not part of the program: a call is a question whose outcome is a parameter.
\<close>

section \<open>State\<close>




section \<open>Asking the service\<close>





section \<open>The hook of the linker\<close>


section \<open>What a search does\<close>









end
