(* ===== verification/Apputil.thy ===== *)
theory Apputil
  imports Stage
begin

text \<open>
  \<^verbatim>\<open>apputil/apputil.cpp\<close>: runs a Python script with the directory of the program at the front of the search path.
  The interpreter is not part of the program; its calls are system calls of the model.
\<close>

text \<open>
  \<^verbatim>\<open>dirname\<close> returns its argument, cut in place, or the constant \<^verbatim>\<open>"."\<close> for a path without a separator; the
  pointer comparison of the source tells the two apart.
\<close>

definition dirname_of :: "byte list \<Rightarrow> byte list" where
  "dirname_of p = (if slash \<notin> set p then chars ''.'' else dirname_buf p)"

definition getInit :: "world \<Rightarrow> byte list \<times> world" where
  "getInit w =
     (let (path, w) = getProcessFilename w
      in case path of
           None \<Rightarrow> ([], w)
         | Some path \<Rightarrow>
             (chars ''import sys\<newline>'' @ chars ''sys.path.insert(0, '' @ [dquote] @ dirname_of path @ [dquote] @ chars '')\<newline>''
                @ chars ''del sys\<newline>'', w))"

text \<open>\<^verbatim>\<open>fopen\<close> is not checked: running a null file is undefined, \<open>None\<close>.\<close>

definition runPython :: "byte list \<Rightarrow> world \<Rightarrow> (int \<times> world) option" where
  "runPython path w =
     (let w = do_sys Py_initialize w;
          (init, w) = getInit w;
          w = do_sys (Py_run_string init) w;
          ((r, _), w) = sys (Fopen path ''r'') w
      in if r \<noteq> 0 then None
         else
           let w = do_sys (Py_run_file path) w;
               w = do_sys (Fclose path) w;
               w = do_sys Py_finalize w
           in Some (0, w))"

text \<open>\<open>nullcheck\<close>, \<open>nerrors\<close>, \<open>script\<close> and the three texts are argtable2's; \<open>script\<close> is \<open>None\<close> when there was no argument.\<close>

definition apputil_main ::
    "bool \<Rightarrow> int \<Rightarrow> byte list option \<Rightarrow> byte list \<Rightarrow> byte list \<Rightarrow> byte list \<Rightarrow> world \<Rightarrow> (int \<times> world) option" where
  "apputil_main nullcheck nerrors script usage_text error_text glossary_text w =
     (let w = tell (setApplicationName (chars ''apputil'')) w
      in if nullcheck then Some (1, tell (showErrorW ''Insufficient memory.'' []) w)
         else if nerrors > 0 \<and> script = None then
           let w = print ''Usage: apputil'' w;
               w = say usage_text w;
               w = say error_text w;
               w = print ''AppUtil - The application scripting utility.\<newline>\<newline>'' w
           in Some (1, say glossary_text w)
         else (case script of None \<Rightarrow> None | Some path \<Rightarrow> runPython path w))"

text \<open>A script that can be opened is run once, between the initialisation and the end of the interpreter.\<close>

lemma runPython_calls:
  assumes "runPython path w = Some (r, w')"
  shows "\<exists>init. w_calls w' = w_calls w @ [Py_initialize, Readlink (chars ''/proc/self/exe''), Py_run_string init,
    Fopen path ''r'', Py_run_file path, Fclose path, Py_finalize]"
  using assms
  by (auto simp: runPython_def getInit_def getProcessFilename_def sys_def case_prod_unfold Let_def
      simp del: chars_simps split: if_splits)

end
