(* ===== verification/Spec2Isabelle.thy ===== *)
theory Spec2Isabelle
  imports Spec_Files Spec_Contents Spec_Tree Spec_Space Spec_Store Spec_Paths Spec_Session Spec_Tools EndianStream IoStream AuditHook Apputil
begin

text \<open>
  AppTools keeps an application in a package: one file that holds a small filesystem, mounted through FUSE. This
  library models the C++ library \<^verbatim>\<open>src/libapp\<close> that reads and writes packages, bottom up, and proves that each layer
  does what the next one relies on.

  The program and its layers:

  \<^item> \<^verbatim>\<open>lowlevel/blockstream\<close>, \<^verbatim>\<open>lowlevel/endian\<close>: a file stream behind a mutex, and little-endian numbers on it.
  \<^item> \<^verbatim>\<open>lowlevel/inode\<close>: the record of an inode and its form in a block of 4096 bytes.
  \<^item> \<^verbatim>\<open>lowlevel/fs\<close>: the package: the lookup table from inode numbers to positions, inodes, directory entries, the
    segment tables of files, truncation, the filesystem's information block.
  \<^item> \<^verbatim>\<open>lowlevel/freelist\<close>: the list of free blocks on disk and its cache, from which the layer above takes blocks.
  \<^item> \<^verbatim>\<open>fsfile\<close>: an open file, with the interface of a stream; \<^verbatim>\<open>fs\<close>: the operations on paths, which throw exceptions.
  \<^item> \<^verbatim>\<open>internal/fuselink\<close>: the FUSE callbacks, which turn exceptions into error numbers.
  \<^item> \<^verbatim>\<open>lowlevel/util\<close>, \<^verbatim>\<open>environment\<close>: paths, names and arguments, and the creation of an empty package.
  \<^item> The tools: \<^verbatim>\<open>appfs\<close> (a package that mounts and runs itself), \<^verbatim>\<open>appmount\<close>, \<^verbatim>\<open>appcreate\<close>, \<^verbatim>\<open>appinspect\<close> (an
    interactive inspector), \<^verbatim>\<open>apputil\<close> and \<^verbatim>\<open>appaudit\<close> (a hook of the dynamic linker).

  How the code is represented. A package is its bytes and one position (\<open>disk\<close>); a stream adds the state bits and the
  mutex. Every operation that can fail to return (a loop over a chain on disk, a mutex that is not released) is a
  \<open>partial_function (option)\<close> or gives \<open>option\<close>, with \<open>None\<close> for not returning; properties say that it returns. Fields
  have the widths of the C++ types, as words. The time is an oracle \<open>fs_clock\<close> in the state, which
  each call of \<^verbatim>\<open>time(NULL)\<close> reads at the number of calls so far. An exception is the left side of a sum.
  The tools run in a \<open>world\<close>: a call to the operating system, to libfuse or to argtable2 is an entry of its trace, and what
  it answers is an argument (\<open>w_answer\<close>), on which no assumption is made; the keyboard and the terminal are lists.

  Theories and what they model:

  \<^item> \<open>AppFS_Prelude\<close>: words, byte lists, files as byte lists (\<open>get_range\<close>, \<open>put_range\<close>), the loops shared by the
    components, and the interfaces \<open>codec\<close> (numbers and bytes), \<open>byte_store\<close> (a file of bytes) and \<open>ordered_map\<close>
    (\<^verbatim>\<open>std::map\<close>).
  \<^item> \<open>BlockStream\<close> (\<^verbatim>\<open>blockstream.cpp\<close>), \<open>Endian\<close> (\<^verbatim>\<open>endian.cpp\<close>), \<open>INode\<close> (\<^verbatim>\<open>inode.cpp\<close>, \<^verbatim>\<open>config.h\<close>). \<open>codec\<close> is
    interpreted for 16, 32 and 64 bits in \<open>Endian\<close>, \<open>byte_store\<close> on the bytes of a package.
  \<^item> \<open>LowFS_Core\<close>, \<open>LowFS_INode\<close>, \<open>LowFS_Write\<close>, \<open>LowFS_Dir\<close>, \<open>LowFS_File\<close>: \<^verbatim>\<open>lowlevel/fs.cpp\<close>, in its order: the
    lookup table, reading inodes, writing them, directories and path resolution, segments and truncation.
    \<open>LowFS_DirProps\<close> and \<open>LowFS_Tree\<close>: the facts on directory blocks.
  \<^item> \<open>FreeList\<close> (\<^verbatim>\<open>freelist.cpp\<close>), with \<open>FreeList_Chain\<close> (the chain on disk), \<open>FreeList_Props\<close> (allocation),
    \<open>FreeList_Free\<close> (freeing and the invariant \<open>fl_inv\<close>) and \<open>FreeList_Frame\<close> (several blocks freed, and changes
    outside the chain). \<open>ordered_map\<close> is interpreted on the cache.
  \<^item> \<open>FSFile\<close> (\<^verbatim>\<open>fsfile.cpp\<close>), with \<open>FSFile_Read\<close>, \<open>FSFile_Write\<close>, \<open>FSFile_Grow\<close>, \<open>FSFile_Take\<close>, \<open>FSFile_Shrink\<close>: what
    reading, writing, growing (from the end of the package, and from the free list) and cutting do to the bytes of a file.
  \<^item> \<open>PathUtil\<close>, \<open>Package\<close> (\<^verbatim>\<open>util.cpp\<close>, \<^verbatim>\<open>environment.cpp\<close>, \<^verbatim>\<open>Util::createPackage\<close>).
  \<^item> \<open>AppFS_FS\<close> (\<^verbatim>\<open>fs.cpp\<close>), \<open>FuseLink\<close> (\<^verbatim>\<open>fuselink.cpp\<close>); \<open>AppFS_Walk\<close>: where a path leads
    (\<open>locate\<close>); \<open>AppFS_Inv\<close>, \<open>AppFS_Sound\<close>: the invariant of a package (\<open>pkg_ok\<close> for its tree, \<open>pkg_inv\<close> also for
    its files and free blocks: every block has at most one use); \<open>AppFS_PathMap\<close>: the abstract package, a map from
    paths to inodes (\<open>path_map\<close>); \<open>AppFS_Create\<close>, \<open>AppFS_Remove\<close>: what creating and removing do to it.
  \<^item> \<open>LowFS_Open\<close>: the constructors of \<^verbatim>\<open>LowLevel::FS\<close> and \<^verbatim>\<open>AppLib::FS\<close> on the state of the stream (\<open>AppFS_ctor\<close>, of which
    \<open>AppFS_new\<close> is the short form), \<^verbatim>\<open>close\<close> and \<^verbatim>\<open>getTemporaryBlock\<close>; \<open>IoStream\<close>: \<^verbatim>\<open>endian.cpp\<close> on a \<^verbatim>\<open>std::iostream\<close>.
  \<^item> \<open>AppFS_Update\<close> (saving an inode in place), \<open>AppFS_Data\<close> (what of the files a step keeps), \<open>AppFS_Abs\<close>: the abstract
    package of a session (\<open>absfs\<close>: paths to type, permissions, owner, length, bytes and device numbers); \<open>AppFS_Effect\<close>: the contract of a
    request (\<open>effect\<close>, \<open>answers\<close>) and when it has one (\<open>admissible\<close>: creation needs a directory with a free slot and room,
    reading starts inside the file, a file grows while the package has room, renaming does not move a directory behind
    itself). The bytes a growing file gets are a parameter of \<open>effect\<close>: zeros from the end of the package, and what freed
    blocks still hold (\<open>gap_ok\<close>). \<open>AppFS_Steps\<close>, \<open>AppFS_Tree\<close>, \<open>AppFS_Content\<close>, \<open>AppFS_IO\<close>: each operation obeys its contract.
    \<open>AppFS_Rename\<close>, \<open>AppFS_Move\<close>: the same for \<^verbatim>\<open>rename\<close>, which takes an entry off a directory, saves it under its
    new name and lists it in a directory (\<open>moved\<close>). Only \<^verbatim>\<open>link\<close> has no contract: after it an inode has two paths,
    which a map from paths to entries does not show.
  \<^item> \<open>Session\<close>: the interface \<open>contract\<close> of a server (a locale) with what follows for sessions, and its interpretation
    \<open>mount\<close> on the callbacks.
  \<^item> \<open>Logging\<close> (\<^verbatim>\<open>logging.cpp\<close>), \<open>EndianStream\<close> (\<^verbatim>\<open>endian.cpp\<close> on the state of a stream, with what it prints), \<open>World\<close> (calls to
    the operating system), \<open>Mount\<close> (\<^verbatim>\<open>Mounter\<close>, \<^verbatim>\<open>API::load\<close>, \<^verbatim>\<open>appmount.cpp\<close>, \<^verbatim>\<open>appcreate.cpp\<close>, the texts of exceptions),
    \<open>Stage\<close> (\<^verbatim>\<open>appfs.cpp\<close>) with the traces in \<open>Stage_Props\<close>, \<open>Inspect\<close> (\<^verbatim>\<open>appinspect.cpp\<close>) with its facts in
    \<open>Inspect_Props\<close>, \<open>Apputil\<close> (\<^verbatim>\<open>apputil.cpp\<close>), \<open>AuditHook\<close> (\<^verbatim>\<open>audit.c\<close>). In these \<open>None\<close> stands for a call that does
    not return and \<open>Undefined\<close> for behaviour that C++ leaves undefined.
  \<^item> \<open>Samples\<close>: packages on which the witnesses are evaluated. \<open>Spec_Store\<close>, \<open>Spec_Space\<close>, \<open>Spec_Tree\<close>, \<open>Spec_Files\<close>,
    \<open>Spec_Contents\<close>, \<open>Spec_Paths\<close>, \<open>Spec_Session\<close>, \<open>Spec_Tools\<close> and this theory: the properties, from the stream up to the
    callbacks and the tools.

  What the properties show. \<open>Spec_Store\<close>: the stream, the codec, the lookup table and inodes as a store (what is
  written is read back, the rest stays). \<open>Spec_Space\<close>: blocks taken and given back keep the chain on disk well formed;
  a new package is well formed. \<open>Spec_Tree\<close>: a directory's block is a map from names to inodes, which adding and
  removing a child update. \<open>Spec_Files\<close>, \<open>Spec_Contents\<close>: a file's blocks are a byte string, of which reading returns
  a range, writing replaces one, and truncation changes the end. \<open>Spec_Paths\<close>: on a well-formed package the
  operations on paths are those of a tree; creating an inode inserts its path into the map of paths, removing one
  deletes it, and both keep the invariant of the whole package, so that no block is lost or used twice. \<open>Spec_Session\<close>: a session of requests refines one on a map from paths to
  entries, never gets stuck and keeps its type. Here: single requests through the callbacks. \<open>Spec_Tools\<close>,
  \<open>EndianStream\<close>, \<open>AuditHook\<close>: which calls the tools make in which order, for every answer they may get.

  Bounds. A block has 4096 bytes. A file's own block has room for 946 segments, and growth is proved up to 946 blocks. The lookup
  table has 65536 entries of four bytes, of which 0 means no inode, and a directory 1901 slots. Positions passed
  through the checks of the table are below 2 GiB, which \<open>has_room\<close> and \<open>roomy\<close> ask for where a block is taken from
  the end of the package. No property uses fuel: loops are structural or partial functions, and the properties
  with a loop show that it returns.

  Not modelled, and why:

  \<^item> \<^verbatim>\<open>src/apputil/old\<close>: a retired version of \<^verbatim>\<open>apputil\<close>, bindings to the stack interface of Lua. Python packages, tests
    and third-party code. What argtable2, libfuse, D-Bus, Python and the operating system do is a parameter.
  \<^item> \<^verbatim>\<open>readsome\<close> on a file may return fewer bytes than are there; it is modelled as reading up to the end of the file. A
    stream has one position for reading and writing, as a \<^verbatim>\<open>std::fstream\<close> has; where the code leaves a stream in a failed
    state, what a later failing call adds is not modelled beyond the state bits.
\<close>

section \<open>Through the callbacks\<close>

text \<open>
  C8. Creation as a caller of the mounted package sees it: \<^verbatim>\<open>FuseLink::create\<close> of a free name in a directory
  with a free slot returns 0, and \<^verbatim>\<open>FuseLink::getattr\<close> of the path then returns 0 and the attributes
  of an empty regular file with the caller's user and group and the given mode, without changing the package.
\<close>

theorem fuse_create_then_getattr:
  assumes "pkg_inv (m_fs m) bs" and "has_room (m_fs m)" and "path_error path = None" and "components path = cs @ [b]"
    and "locate (fs_disk (m_fs m)) cs = Some pn" and "i_type pn = INT_DIRECTORY" and "0 \<in> set (i_children pn)"
    and "locate (fs_disk (m_fs m)) (cs @ [b]) = None"
  shows "\<exists>m1 st. fuse_create ctx path mode m = Some ((0, ()), m1) \<and> fuse_getattr ctx path m1 = Some ((0, Some st), m1) \<and>
    st_mode st = (S_IFREG OR ucast (ucast (extractMaskFromMode mode) :: u16)) \<and> st_uid st = ucast (fst ctx) \<and>
    st_gid st = ucast (snd ctx) \<and> st_size st = 0 \<and> st_nlink st = 1"
proof -
  obtain s' iid ct mt at where s': "create ctx path mode (m_fs m) = Some (Inr (), s')"
    "created (m_fs m) bs (cs @ [b]) (made_node iid INT_FILEINFO b ctx mode ct mt at) s'"
    using creation_located[OF assms] creates_ops by metis
  let ?n = "made_node iid INT_FILEINFO b ctx mode ct mt at" and ?m = "\<lparr>m_fs = s', m_uid = fst ctx, m_gid = snd ctx\<rparr>"
  have l: "locate (fs_disk s') (components path) = Some ?n" and ok: "pkg_ok (fs_disk s')"
    using s'(2) pkg_invD(1)[of s' bs] by (simp_all add: created_def assms(4))
  have ty: "tabled_type (i_type ?n)" by (simp add: made_node_fields tabled_type_def)
  obtain st where st: "stat_of ?n = Some st"
    "st_mode st = (S_IFREG OR ucast (ucast (extractMaskFromMode mode) :: u16))" "st_uid st = ucast (fst ctx)"
    "st_gid st = ucast (snd ctx)" "st_size st = 0" "st_nlink st = 1"
    by (simp add: stat_of_def made_node_def Let_def)
  have "getattr path s' = Some (Inr st, s')"
    using getattr_eq[OF pkg_rooted[OF ok], of path] l ty st(1) assms(3) by simp
  then have "fuse_getattr ctx path ?m = Some ((0, Some st), ?m)" by (simp add: fuse_getattr_def callback_eq)
  moreover have "fuse_create ctx path mode m = Some ((0, ()), ?m)"
    using s'(1) by (simp add: fuse_create_def simple_callback_def callback_eq)
  ultimately show ?thesis using st(2-6) by blast
qed

definition mounted0 :: mounted where
  "mounted0 = \<lparr>m_fs = package0, m_uid = 0, m_gid = 0\<rparr>"

theorem fuse_create_then_getattr_witness:
  "\<exists>m1 st. fuse_create (5, 6) [0x2F, 0x61] 0x81A4 mounted0 = Some ((0, ()), m1) \<and>
     fuse_getattr (5, 6) [0x2F, 0x61] m1 = Some ((0, Some st), m1) \<and> st_mode st = 0x81A4 \<and> st_uid st = 5 \<and> st_size st = 0"
proof -
  have m: "m_fs mounted0 = package0" by (simp add: mounted0_def)
  have c: "components [0x2F, 0x61] = [] @ [[0x61]]" and f: "locate (fs_disk (m_fs mounted0)) ([] @ [[0x61]]) = None"
    by (simp_all add: package0_paths m)
  have z: "0 \<in> set (i_children (root_node 7))" by (simp add: root_node_children)
  have o: "pkg_inv (m_fs mounted0) []" "has_room (m_fs mounted0)" "locate (fs_disk (m_fs mounted0)) [] = Some (root_node 7)"
    by (simp_all add: m package0_inv package0_room package0_paths)
  have "(S_IFREG OR ucast (ucast (extractMaskFromMode 0x81A4) :: u16)) = 0x81A4"
    by (simp add: extractMaskFromMode_def S_IFDIR_def S_IFLNK_def S_IFREG_def)
  then show ?thesis
    using fuse_create_then_getattr[OF o(1,2) package0_paths(6) c o(3) package0_paths(7) z f, where ctx = "(5, 6)" and mode = "0x81A4"]
    by auto
qed

text \<open>
  Creation and removal as a caller sees them: after \<^verbatim>\<open>FuseLink::create\<close> of a free name, \<^verbatim>\<open>FuseLink::unlink\<close> of the path
  returns 0 too; \<^verbatim>\<open>getattr\<close> of it then returns -2, every path leads where it led before the creation, and the
  package is sound.
\<close>

theorem fuse_create_then_unlink:
  assumes "pkg_inv (m_fs m) bs" and "has_room (m_fs m)" and "path_error path = None" and "components path = cs @ [b]"
    and "locate (fs_disk (m_fs m)) cs = Some pn" and "i_type pn = INT_DIRECTORY" and "0 \<in> set (i_children pn)"
    and "locate (fs_disk (m_fs m)) (cs @ [b]) = None"
  shows "\<exists>m1 m2 bs'. fuse_create ctx path mode m = Some ((0, ()), m1) \<and> fuse_unlink ctx path m1 = Some ((0, ()), m2) \<and>
    fuse_getattr ctx path m2 = Some ((- 2, None), m2) \<and> pkg_inv (m_fs m2) bs' \<and>
    path_map (fs_disk (m_fs m2)) = path_map (fs_disk (m_fs m))"
proof -
  obtain s1 iid ct mt at where s1: "create ctx path mode (m_fs m) = Some (Inr (), s1)"
    "created (m_fs m) bs (cs @ [b]) (made_node iid INT_FILEINFO b ctx mode ct mt at) s1"
    using creation_located[OF assms] creates_ops by metis
  let ?n = "made_node iid INT_FILEINFO b ctx mode ct mt at" and ?m = "\<lambda>s. \<lparr>m_fs = s, m_uid = fst ctx, m_gid = snd ctx\<rparr>"
  have c: "pkg_inv s1 bs" "locate (fs_disk s1) (cs @ [b]) = Some ?n"
    "path_map (fs_disk s1) = (path_map (fs_disk (m_fs m)))(cs @ [b] := Some (ident ?n))"
    "\<And>j. i_type (raw_by_id (fs_disk s1) j) = INT_HARDLINK \<Longrightarrow> i_realid (raw_by_id (fs_disk s1) j) \<noteq> i_inodeid ?n"
    using s1(2) by (auto simp: created_def)
  have f: "i_type ?n \<in> {INT_FILEINFO, INT_SYMLINK, INT_DEVICE}" "i_realid ?n = 0" "i_nlink ?n = 1"
    by (simp_all add: made_node_def)
  obtain s2 bs' where s2: "unlink path s1 = Some (Inr (), s2)" "pkg_inv s2 bs'"
    "path_map (fs_disk s2) = (path_map (fs_disk s1))(cs @ [b] := None)"
    using unlink_removes[OF c(1) assms(3,4) c(2) f c(4)] by (auto simp: removed_def)
  have "path_map (fs_disk (m_fs m)) (cs @ [b]) = None" using assms(8) by (simp add: path_map_def)
  then have map: "path_map (fs_disk s2) = path_map (fs_disk (m_fs m))" unfolding s2(3) c(3) by (simp add: fun_upd_idem)
  have "path_map (fs_disk s2) (cs @ [b]) = None" unfolding s2(3) by simp
  then have "locate (fs_disk s2) (components path) = None" by (simp add: path_map_def assms(4))
  then have "getattr path s2 = Some (Inl FileNotFound, s2)"
    using getattr_eq[OF pkg_rooted[OF pkg_invD(1)[OF s2(2)]], of path] assms(3) by simp
  then have "fuse_getattr ctx path (?m s2) = Some ((- 2, None), ?m s2)" by (simp add: fuse_getattr_def callback_eq)
  moreover have "fuse_unlink ctx path (?m s1) = Some ((0, ()), ?m s2)"
    using s2(1) by (simp add: fuse_unlink_def simple_callback_def callback_eq)
  moreover have "fuse_create ctx path mode m = Some ((0, ()), ?m s1)"
    using s1(1) by (simp add: fuse_create_def simple_callback_def callback_eq)
  ultimately show ?thesis using s2(2) map by (intro exI[of _ "?m s1"] exI[of _ "?m s2"] exI[of _ bs']) simp
qed

theorem fuse_create_then_unlink_witness:
  "\<exists>m1 m2. fuse_create (5, 6) [0x2F, 0x61] 0x81A4 mounted0 = Some ((0, ()), m1) \<and>
     fuse_unlink (5, 6) [0x2F, 0x61] m1 = Some ((0, ()), m2) \<and> fuse_getattr (5, 6) [0x2F, 0x61] m2 = Some ((- 2, None), m2)"
proof -
  have m: "m_fs mounted0 = package0" by (simp add: mounted0_def)
  have c: "components [0x2F, 0x61] = [] @ [[0x61]]" and f: "locate (fs_disk (m_fs mounted0)) ([] @ [[0x61]]) = None"
    by (simp_all add: package0_paths m)
  have z: "0 \<in> set (i_children (root_node 7))" by (simp add: root_node_children)
  have o: "pkg_inv (m_fs mounted0) []" "has_room (m_fs mounted0)" "locate (fs_disk (m_fs mounted0)) [] = Some (root_node 7)"
    by (simp_all add: m package0_inv package0_room package0_paths)
  show ?thesis
    using fuse_create_then_unlink[OF o(1,2) package0_paths(6) c o(3) package0_paths(7) z f, where ctx = "(5, 6)" and mode = "0x81A4"]
    by blast
qed

text \<open>
  A new directory as a caller sees it: \<^verbatim>\<open>FuseLink::mkdir\<close> of a free name returns 0; listing the new directory then gives
  only the two dots, and its attributes say that it is a directory of one block.
\<close>

theorem fuse_mkdir_then_readdir:
  assumes "pkg_inv (m_fs m) bs" and "has_room (m_fs m)" and "path_error path = None" and "components path = cs @ [b]"
    and "locate (fs_disk (m_fs m)) cs = Some pn" and "i_type pn = INT_DIRECTORY" and "0 \<in> set (i_children pn)"
    and "locate (fs_disk (m_fs m)) (cs @ [b]) = None"
  shows "\<exists>m1 st. fuse_mkdir ctx path mode m = Some ((0, ()), m1) \<and>
    fuse_readdir ctx path m1 = Some ((0, [[0x2E], [0x2E, 0x2E]]), m1) \<and> fuse_getattr ctx path m1 = Some ((0, Some st), m1) \<and>
    st_mode st = (S_IFDIR OR ucast (ucast (extractMaskFromMode mode) :: u16)) \<and> st_size st = 4096 \<and> st_blocks st = 1"
proof -
  obtain s' iid ct mt at where s': "mkdir ctx path mode (m_fs m) = Some (Inr (), s')"
    "created (m_fs m) bs (cs @ [b]) (made_node iid INT_DIRECTORY b ctx mode ct mt at) s'"
    using creation_located[OF assms] creates_ops by metis
  let ?n = "made_node iid INT_DIRECTORY b ctx mode ct mt at" and ?m = "\<lparr>m_fs = s', m_uid = fst ctx, m_gid = snd ctx\<rparr>"
  have l: "locate (fs_disk s') (components path) = Some ?n" and ok: "pkg_ok (fs_disk s')"
    using s'(2) pkg_invD(1)[of s' bs] by (simp_all add: created_def assms(4))
  have ty: "tabled_type (i_type ?n)" "i_type ?n = INT_DIRECTORY" by (simp_all add: made_node_fields tabled_type_def)
  obtain st where st: "stat_of ?n = Some st"
    "st_mode st = (S_IFDIR OR ucast (ucast (extractMaskFromMode mode) :: u16))" "st_size st = 4096" "st_blocks st = 1"
    by (simp add: stat_of_def made_node_def config Let_def)
  have "getattr path s' = Some (Inr st, s')"
    using getattr_eq[OF pkg_rooted[OF ok], of path] l ty st(1) assms(3) by simp
  then have "fuse_getattr ctx path ?m = Some ((0, Some st), ?m)" by (simp add: fuse_getattr_def callback_eq)
  moreover have "child_nodes (fs_disk s') ?n = []" by (simp add: child_nodes_def visited_def made_node_fields)
  then have "readdir path s' = Some (Inr [], s')"
    using readdir_eq[OF pkg_rooted[OF ok], of path] l ty(2) assms(3) locate_directory(3)[OF ok l ty(2)] by simp
  then have "fuse_readdir ctx path ?m = Some ((0, [[0x2E], [0x2E, 0x2E]]), ?m)" by (simp add: fuse_readdir_def callback_eq)
  moreover have "fuse_mkdir ctx path mode m = Some ((0, ()), ?m)"
    using s'(1) by (simp add: fuse_mkdir_def simple_callback_def callback_eq)
  ultimately show ?thesis using st(2-4) by blast
qed

theorem fuse_mkdir_then_readdir_witness:
  "\<exists>m1. fuse_mkdir (5, 6) [0x2F, 0x61] 0x1ED mounted0 = Some ((0, ()), m1) \<and>
     fuse_readdir (5, 6) [0x2F, 0x61] m1 = Some ((0, [[0x2E], [0x2E, 0x2E]]), m1)"
proof -
  have m: "m_fs mounted0 = package0" by (simp add: mounted0_def)
  have c: "components [0x2F, 0x61] = [] @ [[0x61]]" and f: "locate (fs_disk (m_fs mounted0)) ([] @ [[0x61]]) = None"
    by (simp_all add: package0_paths m)
  have z: "0 \<in> set (i_children (root_node 7))" by (simp add: root_node_children)
  have o: "pkg_inv (m_fs mounted0) []" "has_room (m_fs mounted0)" "locate (fs_disk (m_fs mounted0)) [] = Some (root_node 7)"
    by (simp_all add: m package0_inv package0_room package0_paths)
  show ?thesis
    using fuse_mkdir_then_readdir[OF o(1,2) package0_paths(6) c o(3) package0_paths(7) z f, where ctx = "(5, 6)" and mode = "0x1ED"]
    by auto
qed

text \<open>
  C18. What the callbacks refuse: on a path that leads to an inode, creating it anew returns -17, unlinking a directory
  -21, removing as a directory what is none -20 and a directory with entries -39; the package is not changed.
\<close>

theorem fuse_refusals:
  assumes "pkg_ok (fs_disk (m_fs m))" and "path_error path = None" and "components path \<noteq> []"
    and "locate (fs_disk (m_fs m)) (components path) = Some n"
  shows "fuse_create ctx path mode m = Some ((- 17, ()), \<lparr>m_fs = m_fs m, m_uid = fst ctx, m_gid = snd ctx\<rparr>) \<and>
    fuse_mkdir ctx path mode m = Some ((- 17, ()), \<lparr>m_fs = m_fs m, m_uid = fst ctx, m_gid = snd ctx\<rparr>) \<and>
    fuse_mknod ctx path mode mj mn m = Some ((- 17, ()), \<lparr>m_fs = m_fs m, m_uid = fst ctx, m_gid = snd ctx\<rparr>) \<and>
    (i_type n = INT_DIRECTORY \<longrightarrow>
      fuse_unlink ctx path m = Some ((- 21, ()), \<lparr>m_fs = m_fs m, m_uid = fst ctx, m_gid = snd ctx\<rparr>)) \<and>
    (i_type n \<noteq> INT_DIRECTORY \<longrightarrow>
      fuse_rmdir ctx path m = Some ((- 20, ()), \<lparr>m_fs = m_fs m, m_uid = fst ctx, m_gid = snd ctx\<rparr>)) \<and>
    (i_type n = INT_DIRECTORY \<longrightarrow> i_children_count n \<noteq> 0 \<longrightarrow>
      fuse_rmdir ctx path m = Some ((- 39, ()), \<lparr>m_fs = m_fs m, m_uid = fst ctx, m_gid = snd ctx\<rparr>))"
proof -
  note ro = pkg_rooted[OF assms(1)]
  note refused = performCreation_refused(3)[OF ro assms(3,2,4)]
  show ?thesis
    using unlink_directory[OF ro assms(2-4)] rmdir_refused[OF ro assms(2-4)]
    by (auto simp: fuse_create_def fuse_mkdir_def fuse_mknod_def fuse_unlink_def fuse_rmdir_def simple_callback_def
        callback_eq create_def mkdir_def mknod_def bindE_def refused)
qed

theorem fuse_refusals_witness:
  "\<exists>n. locate (fs_disk package_d) [[0x61]] = Some n \<and>
     fuse_create (5, 6) [0x2F, 0x61] 0x1ED \<lparr>m_fs = package_d, m_uid = 0, m_gid = 0\<rparr>
       = Some ((- 17, ()), \<lparr>m_fs = package_d, m_uid = 5, m_gid = 6\<rparr>)"
proof -
  let ?m = "\<lparr>m_fs = package_d, m_uid = 0, m_gid = 0\<rparr>"
  obtain n where n: "locate (fs_disk package_d) [[0x61]] = Some n" using package_d_locate by blast
  have p: "pkg_ok (fs_disk (m_fs ?m))" "components [0x2F, 0x61] \<noteq> []" "locate (fs_disk (m_fs ?m)) (components [0x2F, 0x61]) = Some n"
    using package_d_ok n by (simp_all add: package0_paths)
  have "fuse_create (5, 6) [0x2F, 0x61] 0x1ED ?m = Some ((- 17, ()), \<lparr>m_fs = m_fs ?m, m_uid = fst (5 :: u32, 6 :: u32), m_gid = snd (5 :: u32, 6 :: u32)\<rparr>)"
    by (rule fuse_refusals[OF p(1) package0_paths(6) p(2,3), THEN conjunct1])
  then show ?thesis using n by simp
qed

end
